(* ===== verification/Prelude.thy ===== *)
theory Prelude
  imports Main "HOL-Library.Word" "HOL-Library.Monad_Syntax"
begin

unbundle bit_operations_syntax

text \<open>
  The layer every component shares: the C integer conversions the library performs, a
  byte buffer with bounds-checked loads and stores, the big-endian cell accessors of
  libfdt, and the lemmas on them.

  Conventions of the whole development.
  \<^item> A C value of type \<open>int\<close>, \<open>uint32_t\<close>, \<open>size_t\<close> \<dots> is an \<open>int\<close>; the places where
    the C code converts or can wrap apply \<open>u32\<close>, \<open>s32\<close> or \<open>u64\<close> (two's complement, a
    64-bit \<open>size_t\<close>).
  \<^item> A pointer into a buffer is its distance from the start of the buffer, and \<open>NULL\<close>
    is a value of its own.
  \<^item> A computation that reads or writes memory has type \<open>'a option\<close>. \<open>None\<close> means that
    the C code has no defined result: it accessed a byte outside the buffer,
    dereferenced \<open>NULL\<close>, or did not return. A theorem that a function gives
    \<open>Some r\<close> therefore states memory safety and termination together.
  \<^item> A C function whose name ends in an underscore has the suffix \<open>_i\<close> here, since
    a trailing underscore is not a legal constant name.
\<close>

section \<open>Collections of rewrite rules\<close>

named_theorems cint \<open>conversions between C integer types\<close>
named_theorems memory \<open>loads after stores\<close>
named_theorems header \<open>header fields after stores\<close>

section \<open>C integers\<close>

type_synonym u8 = "8 word"

abbreviation (input) INT_MAX :: int where "INT_MAX \<equiv> 2147483647"
abbreviation (input) UINT32_MAX :: int where "UINT32_MAX \<equiv> 4294967295"

definition u32 :: "int \<Rightarrow> int" where
  "u32 x = x mod 4294967296"

definition s32 :: "int \<Rightarrow> int" where
  "s32 x = (x + 2147483648) mod 4294967296 - 2147483648"

definition u64 :: "int \<Rightarrow> int" where
  "u64 x = x mod 18446744073709551616"

lemma u32_range [simp]: "0 \<le> u32 x" "u32 x < 4294967296" "u32 x \<le> 4294967295"
  using pos_mod_bound [of 4294967296 x] by (auto simp: u32_def)

lemma s32_range [simp]: "- 2147483648 \<le> s32 x" "s32 x \<le> 2147483647" "s32 x < 2147483648"
  using pos_mod_bound [of 4294967296 "x + 2147483648"]
  by (auto simp: s32_def)

lemma u64_range [simp]: "0 \<le> u64 x" "u64 x < 18446744073709551616"
  by (auto simp: u64_def)

lemma u32_id [cint]: "0 \<le> x \<Longrightarrow> x < 4294967296 \<Longrightarrow> u32 x = x"
  by (simp add: u32_def)

lemma s32_id [cint]: "- 2147483648 \<le> x \<Longrightarrow> x < 2147483648 \<Longrightarrow> s32 x = x"
  by (simp add: s32_def)

lemma u64_id [cint]: "0 \<le> x \<Longrightarrow> x < 18446744073709551616 \<Longrightarrow> u64 x = x"
  by (simp add: u64_def)

lemma u32_u32 [simp]: "u32 (u32 x) = u32 x"
  by (simp add: u32_def)

lemma u32_s32 [simp]: "u32 (s32 x) = u32 x"
  by (simp add: u32_def s32_def mod_simps)

lemma s32_u32 [simp]: "s32 (u32 x) = s32 x"
  by (simp add: u32_def s32_def mod_simps)

lemma s32_s32 [simp]: "s32 (s32 x) = s32 x"
  using s32_range [of x] by (intro s32_id) auto

lemma u32_add:
  "0 \<le> a \<Longrightarrow> a < 4294967296 \<Longrightarrow> 0 \<le> b \<Longrightarrow> b < 4294967296 \<Longrightarrow>
   u32 (a + b) = (if a + b < 4294967296 then a + b else a + b - 4294967296)"
  using mod_pos_pos_trivial [of "a + b - 4294967296" 4294967296]
  by (auto simp: u32_def minus_mod_self2)

lemma s32_succ: "off < INT_MAX \<Longrightarrow> 0 \<le> off \<Longrightarrow> s32 (off + 1) = off + 1"
  by (simp add: s32_id)

lemma s32_add_s32 [simp]: "s32 (s32 a + b) = s32 (a + b)"
proof -
  have "s32 (s32 a + b) = ((a + 2147483648) mod 4294967296 + b) mod 4294967296 - 2147483648"
    by (simp add: s32_def algebra_simps)
  also have "\<dots> = s32 (a + b)" by (simp add: s32_def mod_simps algebra_simps)
  finally show ?thesis .
qed

lemma u32_s32_diff [simp]: "u32 (s32 a - b) = u32 (a - b)"
  using u32_s32 [of a] unfolding u32_def by (metis mod_diff_left_eq)

lemma s32_negative: "2147483648 \<le> x \<Longrightarrow> x < 4294967296 \<Longrightarrow> s32 x < 0"
  using mod_pos_pos_trivial [of "x + 2147483648 - 4294967296" 4294967296]
    minus_mod_self2 [of "x + 2147483648" 4294967296]
  by (simp add: s32_def)

lemma s32_wrap: "s32 (x + 4294967296) = s32 x"
proof -
  have "x + 4294967296 + 2147483648 = x + 2147483648 + 4294967296" by simp
  then show ?thesis unfolding s32_def by (metis mod_add_self2)
qed

lemma and_not_mask:
  fixes x :: int
  shows "x AND NOT (2 ^ n - 1) = 2 ^ n * (x div 2 ^ n)"
proof -
  have "x AND NOT (mask n) = push_bit n (drop_bit n x)"
    by (intro bit_eqI) (auto simp: bit_simps)
  then show ?thesis
    by (simp add: mask_eq_exp_minus_1 push_bit_eq_mult drop_bit_eq_div mult.commute)
qed

section \<open>Buffers\<close>

text \<open>
  A buffer is the memory a \<open>void *fdt\<close> argument points to: its address (only the
  alignment of the address is ever looked at) and the bytes from there to the end of
  the allocation.
\<close>

record blob =
  blob_addr :: int
  blob_mem :: "u8 list"

datatype ptr = NULL | Ptr int

abbreviation blen :: "blob \<Rightarrow> int" where
  "blen b \<equiv> int (length (blob_mem b))"

definition ld8 :: "blob \<Rightarrow> int \<Rightarrow> u8 option" where
  "ld8 b p = (if 0 \<le> p \<and> p < blen b then Some (blob_mem b ! nat p) else None)"

text \<open>\<open>rd b p n\<close> reads the \<open>n\<close> bytes at \<open>p\<close>, as \<open>memcpy\<close> and \<open>memcmp\<close> do; a negative \<open>n\<close>
  is a huge \<open>size_t\<close> and faults.\<close>

definition rd :: "blob \<Rightarrow> int \<Rightarrow> int \<Rightarrow> u8 list option" where
  "rd b p n = (if 0 \<le> p \<and> 0 \<le> n \<and> p + n \<le> blen b
     then Some (take (nat n) (drop (nat p) (blob_mem b))) else None)"

definition wr :: "blob \<Rightarrow> int \<Rightarrow> u8 list \<Rightarrow> blob option" where
  "wr b p xs = (if 0 \<le> p \<and> p + int (length xs) \<le> blen b
     then Some (b\<lparr>blob_mem := take (nat p) (blob_mem b) @ xs
                             @ drop (nat p + length xs) (blob_mem b)\<rparr>)
     else None)"

definition memmove :: "blob \<Rightarrow> int \<Rightarrow> int \<Rightarrow> int \<Rightarrow> blob option" where
  "memmove b dst src n = do { xs \<leftarrow> rd b src n; wr b dst xs }"

definition memset :: "blob \<Rightarrow> int \<Rightarrow> u8 \<Rightarrow> int \<Rightarrow> blob option" where
  "memset b dst c n = (if n < 0 then None else wr b dst (replicate (nat n) c))"

text \<open>\<open>memcpy\<close> from an argument of the caller: its first \<open>n\<close> bytes.\<close>

definition memcpy_in :: "blob \<Rightarrow> int \<Rightarrow> u8 list \<Rightarrow> int \<Rightarrow> blob option" where
  "memcpy_in b dst src n =
     (if 0 \<le> n \<and> n \<le> int (length src) then wr b dst (take (nat n) src) else None)"

text \<open>\<open>memcmp\<close> between the buffer and an argument of the caller: whether they are equal.\<close>

definition memcmp_eq :: "blob \<Rightarrow> int \<Rightarrow> u8 list \<Rightarrow> int \<Rightarrow> bool option" where
  "memcmp_eq b p s n = do {
     xs \<leftarrow> rd b p n;
     if n \<le> int (length s) then Some (xs = take (nat n) s) else None }"

text \<open>\<open>memchr\<close> in the buffer: the first occurrence of the byte within \<open>n\<close> bytes of \<open>p\<close>.\<close>

fun find_byte :: "u8 \<Rightarrow> u8 list \<Rightarrow> nat option" where
  "find_byte c [] = None"
| "find_byte c (x # xs) = (if x = c then Some 0 else map_option Suc (find_byte c xs))"

definition memchr :: "blob \<Rightarrow> int \<Rightarrow> u8 \<Rightarrow> int \<Rightarrow> ptr option" where
  "memchr b p c n = do {
     xs \<leftarrow> rd b p n;
     Some (case find_byte c xs of None \<Rightarrow> NULL | Some i \<Rightarrow> Ptr (p + int i)) }"

text \<open>\<open>strlen\<close> in the buffer; it faults when no NUL follows.\<close>

definition strlen :: "blob \<Rightarrow> int \<Rightarrow> int option" where
  "strlen b p = (if 0 \<le> p \<and> p \<le> blen b
     then map_option int (find_byte 0 (drop (nat p) (blob_mem b))) else None)"

text \<open>A C string argument of the caller is the list of its bytes before the NUL.\<close>

type_synonym cstring = "u8 list"

abbreviation (input) cstrlen :: "cstring \<Rightarrow> int" where
  "cstrlen s \<equiv> int (length s)"

abbreviation (input) chr :: "char \<Rightarrow> u8" where
  "chr c \<equiv> of_char c"

definition cstr :: "string \<Rightarrow> cstring" where
  "cstr s = map of_char s"

subsection \<open>Laws of loads and stores\<close>

lemma ld8_None_iff: "ld8 b p = None \<longleftrightarrow> p < 0 \<or> blen b \<le> p"
  by (auto simp: ld8_def)

lemma ld8_in_range: "0 \<le> p \<Longrightarrow> p < blen b \<Longrightarrow> \<exists>c. ld8 b p = Some c"
  by (simp add: ld8_def)

lemma rd_in_range:
  "0 \<le> p \<Longrightarrow> 0 \<le> n \<Longrightarrow> p + n \<le> blen b \<Longrightarrow>
   rd b p n = Some (take (nat n) (drop (nat p) (blob_mem b)))"
  by (simp add: rd_def)

lemma rd_SomeD:
  assumes "rd b p n = Some xs"
  shows "0 \<le> p" "0 \<le> n" "p + n \<le> blen b" "int (length xs) = n"
    "xs = take (nat n) (drop (nat p) (blob_mem b))"
  using assms by (auto simp: rd_def split: if_splits)

lemma wr_in_range:
  "0 \<le> p \<Longrightarrow> p + int (length xs) \<le> blen b \<Longrightarrow> \<exists>b'. wr b p xs = Some b'"
  by (simp add: wr_def)

lemma wr_SomeD:
  assumes "wr b p xs = Some b'"
  shows "0 \<le> p" "p + int (length xs) \<le> blen b" "blen b' = blen b"
    "blob_addr b' = blob_addr b" "length (blob_mem b') = length (blob_mem b)"
  using assms by (auto simp: wr_def split: if_splits)

lemma ld8_wr:
  assumes "wr b p xs = Some b'"
  shows "ld8 b' q = (if p \<le> q \<and> q < p + int (length xs) then Some (xs ! nat (q - p))
                     else ld8 b q)"
proof -
  from assms have r: "0 \<le> p" "p + int (length xs) \<le> blen b"
    and m: "blob_mem b' = take (nat p) (blob_mem b) @ xs @ drop (nat p + length xs) (blob_mem b)"
    by (auto simp: wr_def split: if_splits)
  have l: "length (blob_mem b') = length (blob_mem b)" using r m by simp
  show ?thesis
  proof (cases "0 \<le> q \<and> q < blen b")
    case True
    then have "ld8 b' q = Some (blob_mem b' ! nat q)" using l by (simp add: ld8_def)
    moreover have "blob_mem b' ! nat q =
        (if nat q < nat p then blob_mem b ! nat q
         else if nat q < nat p + length xs then xs ! (nat q - nat p) else blob_mem b ! nat q)"
      using True r by (auto simp: m nth_append min_def)
    ultimately show ?thesis using True r by (auto simp: ld8_def nat_diff_distrib)
  next
    case False
    then show ?thesis using r l by (auto simp: ld8_def)
  qed
qed

lemma rd_eq_iff:
  "rd b p n = Some xs \<longleftrightarrow> 0 \<le> p \<and> p + n \<le> blen b \<and> int (length xs) = n \<and>
     (\<forall>i < length xs. ld8 b (p + int i) = Some (xs ! i))"
proof
  assume a: "rd b p n = Some xs"
  note r = rd_SomeD [OF a]
  have "ld8 b (p + int i) = Some (xs ! i)" if "i < length xs" for i
  proof -
    have "nat (p + int i) = nat p + i" using r(1) by simp
    then show ?thesis using that r by (simp add: ld8_def)
  qed
  with r show "0 \<le> p \<and> p + n \<le> blen b \<and> int (length xs) = n \<and>
     (\<forall>i < length xs. ld8 b (p + int i) = Some (xs ! i))" by auto
next
  assume a: "0 \<le> p \<and> p + n \<le> blen b \<and> int (length xs) = n \<and>
     (\<forall>i < length xs. ld8 b (p + int i) = Some (xs ! i))"
  have "take (nat n) (drop (nat p) (blob_mem b)) = xs"
  proof (rule nth_equalityI)
    show "length (take (nat n) (drop (nat p) (blob_mem b))) = length xs" using a by auto
    fix i assume i: "i < length (take (nat n) (drop (nat p) (blob_mem b)))"
    with a have ix: "i < length xs" by auto
    with a have "ld8 b (p + int i) = Some (xs ! i)" by blast
    then have "blob_mem b ! nat (p + int i) = xs ! i" by (simp add: ld8_def split: if_splits)
    moreover have "nat (p + int i) = nat p + i" using a by (simp add: nat_add_distrib)
    ultimately show "take (nat n) (drop (nat p) (blob_mem b)) ! i = xs ! i"
      using i by (simp add: less_diff_conv add.commute)
  qed
  then show "rd b p n = Some xs" using a by (auto simp: rd_def)
qed

subsection \<open>The interface of a byte store, and multi-byte cells over it\<close>

text \<open>
  What the accessors of libfdt need from memory: a store succeeds exactly on the bytes
  that can be loaded, and a load after a store sees the stored bytes and nothing else
  changed. The laws of 32-bit and 64-bit cells follow from these two.
\<close>

locale byte_store =
  fixes load :: "'m \<Rightarrow> int \<Rightarrow> u8 option"
    and store :: "'m \<Rightarrow> int \<Rightarrow> u8 list \<Rightarrow> 'm option"
  assumes store_defined:
      "xs \<noteq> [] \<Longrightarrow> (\<exists>m'. store m p xs = Some m') \<longleftrightarrow>
         (\<forall>i < length xs. load m (p + int i) \<noteq> None)"
    and load_store:
      "store m p xs = Some m' \<Longrightarrow>
         load m' q = (if p \<le> q \<and> q < p + int (length xs) then Some (xs ! nat (q - p))
                      else load m q)"
begin

lemma store_keeps_domain:
  assumes "store m p xs = Some m'" and "xs \<noteq> []"
  shows "load m' q = None \<longleftrightarrow> load m q = None"
proof (cases "p \<le> q \<and> q < p + int (length xs)")
  case True
  then have "nat (q - p) < length xs" by auto
  moreover have "\<forall>i < length xs. load m (p + int i) \<noteq> None"
    using store_defined [OF assms(2), of m p] assms(1) by blast
  ultimately have "load m (p + int (nat (q - p))) \<noteq> None" by blast
  then show ?thesis using True load_store [OF assms(1)] by simp
next
  case False
  then have "load m' q = load m q" using load_store [OF assms(1), of q] by auto
  then show ?thesis by simp
qed

lemma load_stored_nth:
  "store m p xs = Some m' \<Longrightarrow> i < length xs \<Longrightarrow> load m' (p + int i) = Some (xs ! i)"
  by (simp add: load_store)

lemma load_stored_disjoint:
  "store m p xs = Some m' \<Longrightarrow> q < p \<or> p + int (length xs) \<le> q \<Longrightarrow> load m' q = load m q"
  by (auto simp: load_store)

end

interpretation buf: byte_store ld8 wr
proof unfold_locales
  fix xs :: "u8 list" and m p
  assume "xs \<noteq> []"
  show "(\<exists>m'. wr m p xs = Some m') \<longleftrightarrow> (\<forall>i < length xs. ld8 m (p + int i) \<noteq> None)"
  proof
    assume "\<exists>m'. wr m p xs = Some m'"
    then show "\<forall>i < length xs. ld8 m (p + int i) \<noteq> None"
      by (auto simp: ld8_None_iff dest: wr_SomeD(1,2))
  next
    assume a: "\<forall>i < length xs. ld8 m (p + int i) \<noteq> None"
    have "ld8 m (p + int 0) \<noteq> None" using a \<open>xs \<noteq> []\<close> by blast
    moreover have "ld8 m (p + int (length xs - 1)) \<noteq> None" using a \<open>xs \<noteq> []\<close> by simp
    moreover have "int (length xs - 1) = int (length xs) - 1"
      using \<open>xs \<noteq> []\<close> by (cases xs) auto
    ultimately show "\<exists>m'. wr m p xs = Some m'"
      by (intro wr_in_range) (auto simp: ld8_None_iff)
  qed
qed (simp add: ld8_wr)

lemma rd_wr_same:
  assumes "wr b p xs = Some b'"
  shows "rd b' p (int (length xs)) = Some xs"
  using buf.load_stored_nth [OF assms] wr_SomeD [OF assms] by (simp add: rd_eq_iff)

lemma rd_wr_disjoint:
  assumes "wr b p xs = Some b'" and "q + n \<le> p \<or> p + int (length xs) \<le> q"
  shows "rd b' q n = rd b q n"
proof (cases "rd b q n")
  case None
  then show ?thesis using wr_SomeD [OF assms(1)] by (auto simp: rd_def split: if_splits)
next
  case (Some ys)
  then have "0 \<le> q \<and> q + n \<le> blen b \<and> int (length ys) = n \<and>
     (\<forall>i < length ys. ld8 b (q + int i) = Some (ys ! i))" by (simp add: rd_eq_iff)
  then have "rd b' q n = Some ys"
    using buf.load_stored_disjoint [OF assms(1)] wr_SomeD [OF assms(1)] assms(2)
    by (auto simp: rd_eq_iff)
  with Some show ?thesis by simp
qed

section \<open>Big-endian cells\<close>

text \<open>\<open>fdt32_ld\<close>, \<open>fdt32_st\<close>, \<open>fdt64_ld\<close> and \<open>fdt64_st\<close> of libfdt.h, byte by byte as in the
  source. \<open>fdt32_to_cpu (*p)\<close> and a store of \<open>cpu_to_fdt32 (v)\<close> have the same effect.\<close>

definition fdt32_ld :: "blob \<Rightarrow> int \<Rightarrow> int option" where
  "fdt32_ld b p = do {
     b0 \<leftarrow> ld8 b p; b1 \<leftarrow> ld8 b (p + 1); b2 \<leftarrow> ld8 b (p + 2); b3 \<leftarrow> ld8 b (p + 3);
     Some (uint ((push_bit 24 (ucast b0)) OR (push_bit 16 (ucast b1))
              OR (push_bit 8 (ucast b2)) OR (ucast b3 :: 32 word))) }"

definition bytes32 :: "int \<Rightarrow> u8 list" where
  "bytes32 v = (let value = (word_of_int v :: 32 word) in
     [ucast (drop_bit 24 value), ucast (drop_bit 16 value AND 0xff),
      ucast (drop_bit 8 value AND 0xff), ucast (value AND 0xff)])"

definition fdt32_st :: "blob \<Rightarrow> int \<Rightarrow> int \<Rightarrow> blob option" where
  "fdt32_st b p v = wr b p (bytes32 v)"

definition fdt64_ld :: "blob \<Rightarrow> int \<Rightarrow> int option" where
  "fdt64_ld b p = do {
     b0 \<leftarrow> ld8 b p; b1 \<leftarrow> ld8 b (p + 1); b2 \<leftarrow> ld8 b (p + 2); b3 \<leftarrow> ld8 b (p + 3);
     b4 \<leftarrow> ld8 b (p + 4); b5 \<leftarrow> ld8 b (p + 5); b6 \<leftarrow> ld8 b (p + 6); b7 \<leftarrow> ld8 b (p + 7);
     Some (uint ((push_bit 56 (ucast b0)) OR (push_bit 48 (ucast b1))
              OR (push_bit 40 (ucast b2)) OR (push_bit 32 (ucast b3))
              OR (push_bit 24 (ucast b4)) OR (push_bit 16 (ucast b5))
              OR (push_bit 8 (ucast b6)) OR (ucast b7 :: 64 word))) }"

definition bytes64 :: "int \<Rightarrow> u8 list" where
  "bytes64 v = (let value = (word_of_int v :: 64 word) in
     [ucast (drop_bit 56 value), ucast (drop_bit 48 value AND 0xff),
      ucast (drop_bit 40 value AND 0xff), ucast (drop_bit 32 value AND 0xff),
      ucast (drop_bit 24 value AND 0xff), ucast (drop_bit 16 value AND 0xff),
      ucast (drop_bit 8 value AND 0xff), ucast (value AND 0xff)])"

definition fdt64_st :: "blob \<Rightarrow> int \<Rightarrow> int \<Rightarrow> blob option" where
  "fdt64_st b p v = wr b p (bytes64 v)"

subsection \<open>Arithmetic reading of the cells\<close>

lemma byte_range [simp]: "0 \<le> uint (b :: u8)" "uint (b :: u8) < 256"
  using uint_bounded [of b] by auto

lemma uint_byte_of_int [simp]: "uint (word_of_int v :: u8) = v mod 256"
  by (simp add: unsigned_of_int take_bit_eq_mod)

lemma push_or_eq_add:
  fixes x y :: int
  assumes "0 \<le> y" "y < 2 ^ n"
  shows "push_bit n x OR y = x * 2 ^ n + y"
proof -
  have "take_bit n y = y" using assms by (simp add: take_bit_int_eq_self)
  then have "\<not> bit y k" if "n \<le> k" for k
    using that by (metis bit_take_bit_iff not_le)
  then have "push_bit n x AND y = 0"
    by (intro bit_eqI) (auto simp: bit_simps)
  then show ?thesis
    by (simp flip: disjunctive_add_eq_or add: push_bit_eq_mult)
qed

lemma uint_push_byte:
  fixes b :: u8
  assumes "n + 8 \<le> LENGTH('a::len)"
  shows "uint (push_bit n (ucast b :: 'a word)) = push_bit n (uint b)"
proof -
  have b: "uint b < 2 ^ 8" by simp
  have le: "(2::int) ^ (n + 8) \<le> 2 ^ LENGTH('a)" using assms by (intro power_increasing) auto
  have "push_bit n (uint b) = uint b * 2 ^ n" by (simp add: push_bit_eq_mult)
  also have "\<dots> < 2 ^ (n + 8)" using b by (simp add: power_add)
  finally have p: "push_bit n (uint b) < 2 ^ LENGTH('a)" using le by linarith
  have "(2::int) ^ 8 \<le> 2 ^ LENGTH('a)" using assms by (intro power_increasing) auto
  then have "uint (ucast b :: 'a word) = uint b"
    using b by (simp add: unsigned_ucast_eq take_bit_int_eq_self order.strict_trans2 [of _ 256])
  with p show ?thesis by (simp add: unsigned_push_bit_eq take_bit_int_eq_self)
qed

lemma byte_of_word:
  assumes "k + 8 \<le> LENGTH('a::len)"
  shows "(ucast (drop_bit k (word_of_int v :: 'a word)) :: u8) = word_of_int (v div 2 ^ k)"
proof (rule bit_word_eqI)
  fix n assume "n < LENGTH(8)"
  then show "bit (ucast (drop_bit k (word_of_int v :: 'a word)) :: u8) n =
             bit (word_of_int (v div 2 ^ k) :: u8) n"
    using assms by (auto simp: bit_simps simp flip: drop_bit_eq_div)
qed

lemma ucast_and_ff: "(ucast (w AND 0xff :: 'a::len word) :: u8) = ucast w"
proof (rule bit_word_eqI)
  have ff: "(0xff :: 'a word) = mask 8" by (simp add: mask_eq_exp_minus_1)
  fix n assume "n < LENGTH(8)"
  then show "bit (ucast (w AND 0xff) :: u8) n = bit (ucast w :: u8) n"
    by (auto simp: bit_simps ff dest: bit_imp_le_length)
qed

lemma uint_ucast_byte: "uint (ucast (b :: u8) :: 'a::len word) = uint b"
  if "8 \<le> LENGTH('a)"
  using uint_push_byte [where 'a = 'a and n = 0 and b = b] that by simp

text \<open>One step of the shift-and-or chain: \<open>cell w v n\<close> says that the low \<open>n\<close> bits of the chain
  are computed.\<close>

definition cell :: "'a::len word \<Rightarrow> int \<Rightarrow> nat \<Rightarrow> bool" where
  "cell w v n \<longleftrightarrow> uint w = v \<and> v < 2 ^ n"

lemma cell_step:
  fixes b :: u8 and w :: "'a::len word"
  assumes "cell w v n" and "m = n + 8" and "m \<le> LENGTH('a)"
  shows "cell (push_bit n (ucast b) OR w) (uint b * 2 ^ n + v) m"
proof -
  from assms have w: "uint w = v" "v < 2 ^ n" "0 \<le> v" by (auto simp: cell_def)
  have "uint (push_bit n (ucast b) OR w) = uint b * 2 ^ n + v"
    using assms w by (simp add: unsigned_or_eq uint_push_byte push_or_eq_add)
  moreover have "uint b \<le> 255" using byte_range(2) [of b] by linarith
  then have "uint b * 2 ^ n \<le> 255 * 2 ^ n" by (intro mult_right_mono) auto
  moreover have "(2::int) ^ m = 255 * 2 ^ n + 2 ^ n" by (simp add: assms(2) power_add)
  ultimately show ?thesis using w unfolding cell_def by linarith
qed

lemma cell_byte: "cell (ucast (b :: u8) :: 'a::len word) (uint b) 8" if "8 \<le> LENGTH('a)"
  using that by (simp add: cell_def uint_ucast_byte)

lemma cell32:
  fixes b0 b1 b2 b3 :: u8
  assumes "32 \<le> LENGTH('a::len)"
  shows "cell ((push_bit 24 (ucast b0)) OR (push_bit 16 (ucast b1))
              OR (push_bit 8 (ucast b2)) OR (ucast b3 :: 'a word))
     (uint b0 * 2 ^ 24 + (uint b1 * 2 ^ 16 + (uint b2 * 2 ^ 8 + uint b3))) 32"
  using assms by (intro cell_step cell_byte) auto

lemma fdt32_ld_alt:
  "fdt32_ld b p = do {
     b0 \<leftarrow> ld8 b p; b1 \<leftarrow> ld8 b (p + 1); b2 \<leftarrow> ld8 b (p + 2); b3 \<leftarrow> ld8 b (p + 3);
     Some (uint b0 * 16777216 + uint b1 * 65536 + uint b2 * 256 + uint b3) }"
  using cell32 [where 'a = 32] by (simp add: fdt32_ld_def cell_def add.assoc)

lemma bytes32_alt:
  "bytes32 v = [word_of_int (v div 16777216), word_of_int (v div 65536),
                word_of_int (v div 256), word_of_int v]"
  using byte_of_word [where 'a = 32 and k = 0 and v = v]
  by (simp add: bytes32_def Let_def ucast_and_ff byte_of_word)

lemma fdt64_ld_alt:
  "fdt64_ld b p = do {
     hi \<leftarrow> fdt32_ld b p; lo \<leftarrow> fdt32_ld b (p + 4);
     Some (hi * 4294967296 + lo) }"
proof -
  have "cell ((push_bit 56 (ucast b0)) OR (push_bit 48 (ucast b1))
              OR (push_bit 40 (ucast b2)) OR (push_bit 32 (ucast b3))
              OR (push_bit 24 (ucast b4)) OR (push_bit 16 (ucast b5))
              OR (push_bit 8 (ucast b6)) OR (ucast b7 :: 64 word))
     (uint b0 * 2 ^ 56 + (uint b1 * 2 ^ 48 + (uint b2 * 2 ^ 40 + (uint b3 * 2 ^ 32
      + (uint b4 * 2 ^ 24 + (uint b5 * 2 ^ 16 + (uint b6 * 2 ^ 8 + uint b7))))))) 64"
    for b0 b1 b2 b3 b4 b5 b6 b7 :: u8
    by (intro cell_step cell32) auto
  then show ?thesis
    by (simp add: cell_def fdt64_ld_def fdt32_ld_alt algebra_simps)
qed

lemma bytes64_alt: "bytes64 v = bytes32 (v div 4294967296) @ bytes32 v"
  using byte_of_word [where 'a = 64 and k = 0 and v = v]
  by (simp add: bytes64_def bytes32_alt Let_def ucast_and_ff byte_of_word
      zdiv_zmult2_eq [symmetric])

lemma length_bytes32 [simp]: "length (bytes32 v) = 4"
  by (simp add: bytes32_alt)

lemma length_bytes64 [simp]: "length (bytes64 v) = 8"
  by (simp add: bytes64_alt)

subsection \<open>Cells after stores\<close>

lemma fdt32_ld_Some_iff:
  "(\<exists>v. fdt32_ld b p = Some v) \<longleftrightarrow> 0 \<le> p \<and> p + 4 \<le> blen b"
  by (auto simp: fdt32_ld_alt ld8_def)

lemma fdt32_ld_in_range:
  "0 \<le> p \<Longrightarrow> p + 4 \<le> blen b \<Longrightarrow> \<exists>v. fdt32_ld b p = Some v"
  by (simp add: fdt32_ld_Some_iff)

lemma fdt32_ld_bounds:
  assumes "fdt32_ld b p = Some v"
  shows "0 \<le> v" "v < 4294967296" "0 \<le> p" "p + 4 \<le> blen b"
proof -
  from assms obtain b0 b1 b2 b3 :: u8
    where v: "v = uint b0 * 16777216 + uint b1 * 65536 + uint b2 * 256 + uint b3"
    by (auto simp: fdt32_ld_alt bind_eq_Some_conv)
  show "0 \<le> v" "v < 4294967296"
    using byte_range [of b0] byte_range [of b1] byte_range [of b2] byte_range [of b3]
    unfolding v by linarith+
  show "0 \<le> p" "p + 4 \<le> blen b" using assms fdt32_ld_Some_iff [of b p] by auto
qed

lemma fdt32_ld_u32: "fdt32_ld b p = Some v \<Longrightarrow> u32 v = v"
  by (simp add: u32_id fdt32_ld_bounds)

lemma fdt32_st_SomeD:
  assumes "fdt32_st b p v = Some b'"
  shows "0 \<le> p" "p + 4 \<le> blen b" "blen b' = blen b" "blob_addr b' = blob_addr b"
    "length (blob_mem b') = length (blob_mem b)"
  using assms wr_SomeD [of b p "bytes32 v" b'] by (auto simp: fdt32_st_def)

lemma fdt32_st_in_range: "0 \<le> p \<Longrightarrow> p + 4 \<le> blen b \<Longrightarrow> \<exists>b'. fdt32_st b p v = Some b'"
  by (simp add: fdt32_st_def wr_in_range)

lemma num_mult: "(16777216 :: int) * 256 = 4294967296" "(65536 :: int) * 256 = 16777216"
  "(256 :: int) * 256 = 65536"
  by simp_all

lemma u32_digits:
  "v div 16777216 mod 256 * 16777216 + v div 65536 mod 256 * 65536
     + v div 256 mod 256 * 256 + v mod 256 = u32 v"
proof -
  have m1: "v mod 4294967296 = 16777216 * (v div 16777216 mod 256) + v mod 16777216"
    using zmod_zmult2_eq [of 256 v 16777216, OF zero_le_numeral]
    by (simp only: num_mult)
  have m2: "v mod 16777216 = 65536 * (v div 65536 mod 256) + v mod 65536"
    using zmod_zmult2_eq [of 256 v 65536, OF zero_le_numeral]
    by (simp only: num_mult)
  have m3: "v mod 65536 = 256 * (v div 256 mod 256) + v mod 256"
    using zmod_zmult2_eq [of 256 v 256, OF zero_le_numeral]
    by (simp only: num_mult)
  show ?thesis unfolding u32_def m1 m2 m3 by (simp only: ac_simps)
qed

lemma ld32_of_bytes32:
  assumes "\<And>i. i < 4 \<Longrightarrow> ld8 b (p + int i) = Some (bytes32 v ! i)"
  shows "fdt32_ld b p = Some (u32 v)"
proof -
  have "ld8 b p = Some (bytes32 v ! 0)" "ld8 b (p + 1) = Some (bytes32 v ! 1)"
    "ld8 b (p + 2) = Some (bytes32 v ! 2)" "ld8 b (p + 3) = Some (bytes32 v ! 3)"
    using assms [of 0] assms [of 1] assms [of 2] assms [of 3] by simp_all
  then show ?thesis by (simp add: fdt32_ld_alt bytes32_alt u32_digits)
qed

lemma ld32_st32_same [memory]: "fdt32_st b p v = Some b' \<Longrightarrow> fdt32_ld b' p = Some (u32 v)"
  unfolding fdt32_st_def by (rule ld32_of_bytes32) (simp add: buf.load_stored_nth)

lemma ld32_wr_disjoint:
  "wr b p xs = Some b' \<Longrightarrow> q + 4 \<le> p \<or> p + int (length xs) \<le> q \<Longrightarrow> fdt32_ld b' q = fdt32_ld b q"
  by (auto simp: fdt32_ld_alt buf.load_stored_disjoint)

lemma ld32_st32_disjoint [memory]:
  "fdt32_st b p v = Some b' \<Longrightarrow> q + 4 \<le> p \<or> p + 4 \<le> q \<Longrightarrow> fdt32_ld b' q = fdt32_ld b q"
  using ld32_wr_disjoint [of b p "bytes32 v" b' q] by (simp add: fdt32_st_def)

lemma rd_eq_imp_ld32_eq:
  assumes "rd b' q n = rd b p n" "rd b p n \<noteq> None" "0 \<le> i" "i + 4 \<le> n"
  shows "fdt32_ld b' (q + i) = fdt32_ld b (p + i)"
proof -
  obtain xs where xs: "rd b p n = Some xs" "rd b' q n = Some xs" using assms(1,2) by auto
  have "ld8 b' (q + i + k) = ld8 b (p + i + k)" if "0 \<le> k" "k < 4" for k
  proof -
    define j where "j = nat (i + k)"
    have j: "i + k = int j" using that assms(3) by (simp add: j_def)
    have "j < length xs" using xs that assms j by (auto dest!: rd_SomeD(4))
    then show ?thesis using xs by (simp add: rd_eq_iff add.assoc j)
  qed
  from this [of 0] this [of 1] this [of 2] this [of 3] show ?thesis
    by (simp add: fdt32_ld_alt)
qed

lemma fdt64_st_SomeD:
  assumes "fdt64_st b p v = Some b'"
  shows "0 \<le> p" "p + 8 \<le> blen b" "blen b' = blen b" "blob_addr b' = blob_addr b"
  using assms wr_SomeD [of b p "bytes64 v" b'] by (auto simp: fdt64_st_def)

lemma fdt64_ld_in_range: "0 \<le> p \<Longrightarrow> p + 8 \<le> blen b \<Longrightarrow> \<exists>v. fdt64_ld b p = Some v"
  using fdt32_ld_in_range [of p b] fdt32_ld_in_range [of "p + 4" b]
  by (auto simp: fdt64_ld_alt)

lemma ld64_st64_same [memory]:
  assumes "fdt64_st b p v = Some b'"
  shows "fdt64_ld b' p = Some (u64 v)"
proof -
  have w: "wr b p (bytes64 v) = Some b'" using assms by (simp add: fdt64_st_def)
  have "fdt32_ld b' p = Some (u32 (v div 4294967296))"
    by (rule ld32_of_bytes32)
      (use buf.load_stored_nth [OF w] in \<open>auto simp: bytes64_alt nth_append\<close>)
  moreover have "fdt32_ld b' (p + 4) = Some (u32 v)"
  proof (rule ld32_of_bytes32)
    fix i :: nat assume "i < 4"
    then show "ld8 b' (p + 4 + int i) = Some (bytes32 v ! i)"
      using buf.load_stored_nth [OF w, of "4 + i"] by (simp add: bytes64_alt nth_append add.assoc)
  qed
  moreover have "u32 (v div 4294967296) * 4294967296 + u32 v = u64 v"
    using zmod_zmult2_eq [of 4294967296 v 4294967296] by (simp add: u32_def u64_def)
  ultimately show ?thesis by (simp add: fdt64_ld_alt)
qed

lemma ld64_st64_disjoint [memory]:
  "fdt64_st b p v = Some b' \<Longrightarrow> q + 8 \<le> p \<or> p + 8 \<le> q \<Longrightarrow> fdt64_ld b' q = fdt64_ld b q"
  using ld32_wr_disjoint [of b p "bytes64 v" b' q] ld32_wr_disjoint [of b p "bytes64 v" b' "q + 4"]
  by (auto simp: fdt64_st_def fdt64_ld_alt)

subsection \<open>Frames\<close>

lemma rd_cong:
  assumes "blen b' = blen b" "\<And>q. p \<le> q \<Longrightarrow> q < p + n \<Longrightarrow> ld8 b' q = ld8 b q"
  shows "rd b' p n = rd b p n"
proof (cases "rd b p n")
  case None
  then show ?thesis using assms(1) by (auto simp: rd_def)
next
  case (Some xs)
  then have "rd b' p n = Some xs" unfolding rd_eq_iff using assms by auto
  with Some show ?thesis by simp
qed

lemma ld32_cong:
  "(\<And>q. p \<le> q \<Longrightarrow> q < p + 4 \<Longrightarrow> ld8 b' q = ld8 b q) \<Longrightarrow> fdt32_ld b' p = fdt32_ld b p"
  by (simp add: fdt32_ld_alt)

text \<open>\<open>same_but b b' lo hi\<close>: the two buffers differ at most in the bytes from \<open>lo\<close> to \<open>hi\<close>.\<close>

definition same_but :: "blob \<Rightarrow> blob \<Rightarrow> int \<Rightarrow> int \<Rightarrow> bool" where
  "same_but b b' lo hi \<longleftrightarrow> blen b' = blen b \<and> blob_addr b' = blob_addr b \<and>
     (\<forall>q. q < lo \<or> hi \<le> q \<longrightarrow> ld8 b' q = ld8 b q)"

lemma same_butD:
  assumes "same_but b b' lo hi"
  shows "blen b' = blen b" "blob_addr b' = blob_addr b" "q < lo \<or> hi \<le> q \<Longrightarrow> ld8 b' q = ld8 b q"
  using assms by (auto simp: same_but_def)

lemma same_but_refl: "same_but b b lo hi"
  by (simp add: same_but_def)

lemma same_but_trans: "same_but b b1 lo hi \<Longrightarrow> same_but b1 b2 lo hi \<Longrightarrow> same_but b b2 lo hi"
  by (simp add: same_but_def)

lemma same_but_mono: "same_but b b' lo hi \<Longrightarrow> lo' \<le> lo \<Longrightarrow> hi \<le> hi' \<Longrightarrow> same_but b b' lo' hi'"
  by (auto simp: same_but_def)

lemma wr_same_but: "wr b p xs = Some b' \<Longrightarrow> same_but b b' p (p + int (length xs))"
  unfolding same_but_def using buf.load_stored_disjoint [of b p xs b'] wr_SomeD [of b p xs b'] by auto

lemma st32_same_but: "fdt32_st b p v = Some b' \<Longrightarrow> same_but b b' p (p + 4)"
  using wr_same_but [of b p "bytes32 v" b'] by (simp add: fdt32_st_def)

lemma same_but_ld32: "same_but b b' lo hi \<Longrightarrow> p + 4 \<le> lo \<or> hi \<le> p \<Longrightarrow> fdt32_ld b' p = fdt32_ld b p"
  by (intro ld32_cong) (auto simp: same_but_def)

lemma same_but_rd: "same_but b b' lo hi \<Longrightarrow> p + n \<le> lo \<or> hi \<le> p \<Longrightarrow> rd b' p n = rd b p n"
  by (intro rd_cong) (auto simp: same_but_def)

lemma wr_ok: "0 \<le> p \<Longrightarrow> p + int (length xs) \<le> blen b \<Longrightarrow>
   \<exists>b'. wr b p xs = Some b' \<and> same_but b b' p (p + int (length xs)) \<and> rd b' p (int (length xs)) = Some xs"
  using wr_in_range [of p xs b] wr_same_but rd_wr_same by blast

lemma wr_cstr_ok:
  assumes "0 \<le> p" "p + (cstrlen s + 1) \<le> blen b"
  obtains b' where "wr b p (s @ [0]) = Some b'" "same_but b b' p (p + (cstrlen s + 1))"
    "rd b' p (cstrlen s + 1) = Some (s @ [0])"
proof -
  have l: "int (length (s @ [0 :: u8])) = cstrlen s + 1" by simp
  show ?thesis using wr_ok [of p "s @ [0]" b, unfolded l] assms that by blast
qed

lemma st32_ok: "0 \<le> p \<Longrightarrow> p + 4 \<le> blen b \<Longrightarrow>
   \<exists>b'. fdt32_st b p v = Some b' \<and> same_but b b' p (p + 4) \<and> fdt32_ld b' p = Some (u32 v)"
  using fdt32_st_in_range [of p b v] st32_same_but ld32_st32_same by blast

lemma memcpy_in_all [simp]: "memcpy_in b p xs (int (length xs)) = wr b p xs"
    "memcpy_in b p (s @ [0]) (int (length s) + 1) = wr b p (s @ [0])"
  by (simp_all add: memcpy_in_def nat_add_distrib)

lemma ld64_cong:
  "(\<And>q. p \<le> q \<Longrightarrow> q < p + 8 \<Longrightarrow> ld8 b' q = ld8 b q) \<Longrightarrow> fdt64_ld b' p = fdt64_ld b p"
  using ld32_cong [of p b' b] ld32_cong [of "p + 4" b' b] by (simp add: fdt64_ld_alt)

lemma st64_ok: "0 \<le> p \<Longrightarrow> p + 8 \<le> blen b \<Longrightarrow>
   \<exists>b'. fdt64_st b p v = Some b' \<and> same_but b b' p (p + 8) \<and> fdt64_ld b' p = Some (u64 v)"
  using wr_ok [of p "bytes64 v" b] ld64_st64_same [of b p v] by (auto simp: fdt64_st_def)

lemma same_but_ld64: "same_but b b' lo hi \<Longrightarrow> p + 8 \<le> lo \<or> hi \<le> p \<Longrightarrow> fdt64_ld b' p = fdt64_ld b p"
  by (intro ld64_cong) (auto simp: same_but_def)

lemma rd_sub:
  assumes "rd b p n = Some xs" "0 \<le> i" "0 \<le> m" "i + m \<le> n"
  shows "rd b (p + i) m = Some (take (nat m) (drop (nat i) xs))"
proof -
  note r = rd_SomeD [OF assms(1)]
  have "take (nat m) (drop (nat i) xs) = take (nat m) (drop (nat (p + i)) (blob_mem b))"
    unfolding r(5) drop_take using assms(2-4) r(1)
    by (simp add: nat_add_distrib min_def add.commute)
  then show ?thesis using r assms(2-4) by (simp add: rd_def)
qed

lemma memmove_ok:
  assumes "0 \<le> src" "0 \<le> n" "src + n \<le> blen b" "0 \<le> dst" "dst + n \<le> blen b"
  obtains b' where "memmove b dst src n = Some b'" "same_but b b' dst (dst + n)"
    "\<And>i m. 0 \<le> i \<Longrightarrow> 0 \<le> m \<Longrightarrow> i + m \<le> n \<Longrightarrow> rd b' (dst + i) m = rd b (src + i) m"
proof -
  obtain xs where xs: "rd b src n = Some xs" using assms by (simp add: rd_def)
  then have l: "int (length xs) = n" by (rule rd_SomeD(4))
  obtain b' where b': "wr b dst xs = Some b'" "same_but b b' dst (dst + n)" "rd b' dst n = Some xs"
    using wr_ok [of dst xs b] l assms by auto
  have "rd b' (dst + i) m = rd b (src + i) m" if "0 \<le> i" "0 \<le> m" "i + m \<le> n" for i m
    using rd_sub [OF xs that] rd_sub [OF b'(3) that] by simp
  then show ?thesis using that b' xs by (simp add: memmove_def)
qed

subsection \<open>Strings in memory\<close>

lemma find_byte_append: "c \<notin> set xs \<Longrightarrow> find_byte c (xs @ c # ys) = Some (length xs)"
  by (induction xs) auto

lemma rd_prefix:
  assumes "rd b p m = Some xs" "m \<le> n" "p + n \<le> blen b"
  obtains ys where "rd b p n = Some (xs @ ys)" "drop (nat p) (blob_mem b) = xs @ drop (length xs) (drop (nat p) (blob_mem b))"
proof -
  note r = rd_SomeD [OF assms(1)]
  have x: "take (length xs) (drop (nat p) (blob_mem b)) = xs" using r(2,4,5) by (metis nat_int)
  then have d: "drop (nat p) (blob_mem b) = xs @ drop (length xs) (drop (nat p) (blob_mem b))"
    by (metis append_take_drop_id)
  have "rd b p n = Some (take (nat n) (drop (nat p) (blob_mem b)))" using r assms by (intro rd_in_range) linarith+
  also have "\<dots> = Some (xs @ take (nat n - length xs) (drop (length xs) (drop (nat p) (blob_mem b))))"
    using assms(2) r(4) by (subst d) (simp add: take_append)
  finally show ?thesis using that d by blast
qed

lemma memchr_string:
  assumes "rd b p (cstrlen s + 1) = Some (s @ [0])" "0 \<notin> set s" "cstrlen s + 1 \<le> n" "p + n \<le> blen b"
  shows "memchr b p 0 n = Some (Ptr (p + cstrlen s))"
proof -
  obtain ys where "rd b p n = Some ((s @ [0]) @ ys)" using rd_prefix [OF assms(1,3,4)] by blast
  then show ?thesis using find_byte_append [OF assms(2), of ys] by (simp add: memchr_def)
qed

lemma strlen_string:
  assumes "rd b p (cstrlen s + 1) = Some (s @ [0])" "0 \<notin> set s"
  shows "strlen b p = Some (cstrlen s)"
proof -
  note r = rd_SomeD [OF assms(1)]
  have "drop (nat p) (blob_mem b) = (s @ [0]) @ drop (length (s @ [0])) (drop (nat p) (blob_mem b))"
    using rd_prefix [OF assms(1) order_refl r(3)] by blast
  then have "find_byte 0 (drop (nat p) (blob_mem b)) = Some (length s)"
    using find_byte_append [OF assms(2)] by (metis append.assoc append_Cons append_Nil)
  then show ?thesis using r by (simp add: strlen_def)
qed

lemma list_all2_member: "list_all2 P xs ys \<Longrightarrow> x \<in> set xs \<Longrightarrow> \<exists>y. P x y"
  by (induction xs ys rule: list_all2_induct) auto

end
