(* ===== verification/Fdt_Header.thy ===== *)
theory Fdt_Header
  imports Prelude
begin

text \<open>
  The flattened device tree header and the build-time assumptions: \<open>fdt.h\<close>, the header
  accessors and error codes of \<open>libfdt.h\<close>, and \<open>can_assume\<close> of \<open>libfdt_internal.h\<close>.
  The lemmas give the get/set laws of the ten header fields.
\<close>

section \<open>Constants of fdt.h and libfdt.h\<close>

abbreviation (input) FDT_MAGIC :: int where "FDT_MAGIC \<equiv> 0xd00dfeed"
abbreviation (input) FDT_SW_MAGIC :: int where "FDT_SW_MAGIC \<equiv> 0x2ff20112"
abbreviation (input) FDT_TAGSIZE :: int where "FDT_TAGSIZE \<equiv> 4"

abbreviation (input) FDT_BEGIN_NODE :: int where "FDT_BEGIN_NODE \<equiv> 1"
abbreviation (input) FDT_END_NODE :: int where "FDT_END_NODE \<equiv> 2"
abbreviation (input) FDT_PROP :: int where "FDT_PROP \<equiv> 3"
abbreviation (input) FDT_NOP :: int where "FDT_NOP \<equiv> 4"
abbreviation (input) FDT_END :: int where "FDT_END \<equiv> 9"

abbreviation (input) FDT_V1_SIZE :: int where "FDT_V1_SIZE \<equiv> 28"
abbreviation (input) FDT_V2_SIZE :: int where "FDT_V2_SIZE \<equiv> 32"
abbreviation (input) FDT_V3_SIZE :: int where "FDT_V3_SIZE \<equiv> 36"
abbreviation (input) FDT_V16_SIZE :: int where "FDT_V16_SIZE \<equiv> 36"
abbreviation (input) FDT_V17_SIZE :: int where "FDT_V17_SIZE \<equiv> 40"

abbreviation (input) FDT_FIRST_SUPPORTED_VERSION :: int where "FDT_FIRST_SUPPORTED_VERSION \<equiv> 0x02"
abbreviation (input) FDT_LAST_COMPATIBLE_VERSION :: int where "FDT_LAST_COMPATIBLE_VERSION \<equiv> 0x10"
abbreviation (input) FDT_LAST_SUPPORTED_VERSION :: int where "FDT_LAST_SUPPORTED_VERSION \<equiv> 0x11"

text \<open>\<open>FDT_SW_MAGIC\<close> is \<open>(~FDT_MAGIC)\<close> at 32 bits.\<close>

lemma FDT_SW_MAGIC_eq: "FDT_SW_MAGIC = u32 (NOT FDT_MAGIC)"
  by (simp add: u32_def not_int_def)

abbreviation (input) FDT_ERR_NOTFOUND :: int where "FDT_ERR_NOTFOUND \<equiv> 1"
abbreviation (input) FDT_ERR_EXISTS :: int where "FDT_ERR_EXISTS \<equiv> 2"
abbreviation (input) FDT_ERR_NOSPACE :: int where "FDT_ERR_NOSPACE \<equiv> 3"
abbreviation (input) FDT_ERR_BADOFFSET :: int where "FDT_ERR_BADOFFSET \<equiv> 4"
abbreviation (input) FDT_ERR_BADPATH :: int where "FDT_ERR_BADPATH \<equiv> 5"
abbreviation (input) FDT_ERR_BADPHANDLE :: int where "FDT_ERR_BADPHANDLE \<equiv> 6"
abbreviation (input) FDT_ERR_BADSTATE :: int where "FDT_ERR_BADSTATE \<equiv> 7"
abbreviation (input) FDT_ERR_TRUNCATED :: int where "FDT_ERR_TRUNCATED \<equiv> 8"
abbreviation (input) FDT_ERR_BADMAGIC :: int where "FDT_ERR_BADMAGIC \<equiv> 9"
abbreviation (input) FDT_ERR_BADVERSION :: int where "FDT_ERR_BADVERSION \<equiv> 10"
abbreviation (input) FDT_ERR_BADSTRUCTURE :: int where "FDT_ERR_BADSTRUCTURE \<equiv> 11"
abbreviation (input) FDT_ERR_BADLAYOUT :: int where "FDT_ERR_BADLAYOUT \<equiv> 12"
abbreviation (input) FDT_ERR_INTERNAL :: int where "FDT_ERR_INTERNAL \<equiv> 13"
abbreviation (input) FDT_ERR_BADNCELLS :: int where "FDT_ERR_BADNCELLS \<equiv> 14"
abbreviation (input) FDT_ERR_BADVALUE :: int where "FDT_ERR_BADVALUE \<equiv> 15"
abbreviation (input) FDT_ERR_BADOVERLAY :: int where "FDT_ERR_BADOVERLAY \<equiv> 16"
abbreviation (input) FDT_ERR_NOPHANDLES :: int where "FDT_ERR_NOPHANDLES \<equiv> 17"
abbreviation (input) FDT_ERR_BADFLAGS :: int where "FDT_ERR_BADFLAGS \<equiv> 18"
abbreviation (input) FDT_ERR_ALIGNMENT :: int where "FDT_ERR_ALIGNMENT \<equiv> 19"
abbreviation (input) FDT_ERR_MAX :: int where "FDT_ERR_MAX \<equiv> 19"

abbreviation (input) FDT_MAX_PHANDLE :: int where "FDT_MAX_PHANDLE \<equiv> 0xfffffffe"

text \<open>\<open>FDT_ALIGN\<close> and \<open>FDT_TAGALIGN\<close>: the alignment is a power of two.\<close>

definition FDT_ALIGN :: "int \<Rightarrow> int \<Rightarrow> int" where
  "FDT_ALIGN x a = (x + a - 1) AND NOT (a - 1)"

abbreviation (input) FDT_TAGALIGN :: "int \<Rightarrow> int" where
  "FDT_TAGALIGN x \<equiv> FDT_ALIGN x FDT_TAGSIZE"

lemma FDT_ALIGN_4: "FDT_ALIGN x 4 = 4 * ((x + 3) div 4)"
  using and_not_mask [of "x + 3" 2] by (simp add: FDT_ALIGN_def add.commute)

lemma FDT_ALIGN_8: "FDT_ALIGN x 8 = 8 * ((x + 7) div 8)"
  using and_not_mask [of "x + 7" 3] by (simp add: FDT_ALIGN_def add.commute)

lemma FDT_TAGALIGN_bounds: "x \<le> FDT_TAGALIGN x" "FDT_TAGALIGN x \<le> x + 3" "4 dvd FDT_TAGALIGN x"
  unfolding FDT_ALIGN_4 by auto

lemma FDT_TAGALIGN_id: "4 dvd x \<Longrightarrow> FDT_TAGALIGN x = x"
  unfolding FDT_ALIGN_4 by auto

lemma FDT_TAGALIGN_add: "4 dvd x \<Longrightarrow> FDT_TAGALIGN (x + y) = x + FDT_TAGALIGN y"
  unfolding FDT_ALIGN_4 by (auto simp: add.assoc elim!: dvdE)

section \<open>Build-time assumptions\<close>

text \<open>The checking controls of \<open>libfdt_internal.h\<close>. The Makefile builds with
  \<open>ASSUME_MASK = 0\<close>, so that no check is dropped.\<close>

datatype assumption = VALID_DTB | VALID_INPUT | LATEST | NO_ROLLBACK | LIBFDT_ORDER
  | LIBFDT_FLAWLESS

fun ASSUME :: "assumption \<Rightarrow> int" where
  "ASSUME VALID_DTB = 1"
| "ASSUME VALID_INPUT = 2"
| "ASSUME LATEST = 4"
| "ASSUME NO_ROLLBACK = 8"
| "ASSUME LIBFDT_ORDER = 16"
| "ASSUME LIBFDT_FLAWLESS = 32"

definition FDT_ASSUME_MASK :: int where
  "FDT_ASSUME_MASK = 0"

definition can_assume :: "assumption \<Rightarrow> bool" where
  "can_assume a \<longleftrightarrow> FDT_ASSUME_MASK AND ASSUME a \<noteq> 0"

lemma can_assume_False [simp]: "\<not> can_assume a"
  by (simp add: can_assume_def FDT_ASSUME_MASK_def)

section \<open>Header fields\<close>

datatype hdr_field = H_magic | H_totalsize | H_off_dt_struct | H_off_dt_strings
  | H_off_mem_rsvmap | H_version | H_last_comp_version | H_boot_cpuid_phys
  | H_size_dt_strings | H_size_dt_struct

text \<open>The offset of a field in \<open>struct fdt_header\<close>.\<close>

fun hdr_off :: "hdr_field \<Rightarrow> int" where
  "hdr_off H_magic = 0"
| "hdr_off H_totalsize = 4"
| "hdr_off H_off_dt_struct = 8"
| "hdr_off H_off_dt_strings = 12"
| "hdr_off H_off_mem_rsvmap = 16"
| "hdr_off H_version = 20"
| "hdr_off H_last_comp_version = 24"
| "hdr_off H_boot_cpuid_phys = 28"
| "hdr_off H_size_dt_strings = 32"
| "hdr_off H_size_dt_struct = 36"

definition fdt_get_header :: "blob \<Rightarrow> hdr_field \<Rightarrow> int option" where
  "fdt_get_header fdt f = fdt32_ld fdt (hdr_off f)"

definition fdt_set_header :: "blob \<Rightarrow> hdr_field \<Rightarrow> int \<Rightarrow> blob option" where
  "fdt_set_header fdt f v = fdt32_st fdt (hdr_off f) v"

abbreviation "fdt_magic fdt \<equiv> fdt_get_header fdt H_magic"
abbreviation "fdt_totalsize fdt \<equiv> fdt_get_header fdt H_totalsize"
abbreviation "fdt_off_dt_struct fdt \<equiv> fdt_get_header fdt H_off_dt_struct"
abbreviation "fdt_off_dt_strings fdt \<equiv> fdt_get_header fdt H_off_dt_strings"
abbreviation "fdt_off_mem_rsvmap fdt \<equiv> fdt_get_header fdt H_off_mem_rsvmap"
abbreviation "fdt_version fdt \<equiv> fdt_get_header fdt H_version"
abbreviation "fdt_last_comp_version fdt \<equiv> fdt_get_header fdt H_last_comp_version"
abbreviation "fdt_boot_cpuid_phys fdt \<equiv> fdt_get_header fdt H_boot_cpuid_phys"
abbreviation "fdt_size_dt_strings fdt \<equiv> fdt_get_header fdt H_size_dt_strings"
abbreviation "fdt_size_dt_struct fdt \<equiv> fdt_get_header fdt H_size_dt_struct"

abbreviation "fdt_set_magic fdt v \<equiv> fdt_set_header fdt H_magic v"
abbreviation "fdt_set_totalsize fdt v \<equiv> fdt_set_header fdt H_totalsize v"
abbreviation "fdt_set_off_dt_struct fdt v \<equiv> fdt_set_header fdt H_off_dt_struct v"
abbreviation "fdt_set_off_dt_strings fdt v \<equiv> fdt_set_header fdt H_off_dt_strings v"
abbreviation "fdt_set_off_mem_rsvmap fdt v \<equiv> fdt_set_header fdt H_off_mem_rsvmap v"
abbreviation "fdt_set_version fdt v \<equiv> fdt_set_header fdt H_version v"
abbreviation "fdt_set_last_comp_version fdt v \<equiv> fdt_set_header fdt H_last_comp_version v"
abbreviation "fdt_set_boot_cpuid_phys fdt v \<equiv> fdt_set_header fdt H_boot_cpuid_phys v"
abbreviation "fdt_set_size_dt_strings fdt v \<equiv> fdt_set_header fdt H_size_dt_strings v"
abbreviation "fdt_set_size_dt_struct fdt v \<equiv> fdt_set_header fdt H_size_dt_struct v"

subsection \<open>Laws of the header fields\<close>

text \<open>The value of a field, total: used in statements about blobs that have a header.\<close>

definition hdr :: "blob \<Rightarrow> hdr_field \<Rightarrow> int" where
  "hdr b f = (case fdt_get_header b f of None \<Rightarrow> 0 | Some v \<Rightarrow> v)"

lemma hdr_off_range [simp]: "0 \<le> hdr_off f" "hdr_off f \<le> 36"
  by (cases f; simp)+

lemma hdr_off_disjoint: "f \<noteq> g \<Longrightarrow> hdr_off g + 4 \<le> hdr_off f \<or> hdr_off f + 4 \<le> hdr_off g"
  by (cases f; cases g; simp)

lemma fdt_get_header_hdr [header]: "40 \<le> blen b \<Longrightarrow> fdt_get_header b f = Some (hdr b f)"
  using fdt32_ld_in_range [of "hdr_off f" b] hdr_off_range [of f]
  by (auto simp: hdr_def fdt_get_header_def split: option.splits)

lemma hdr_bounds [simp]: "0 \<le> hdr b f" "hdr b f < 4294967296" "hdr b f \<le> 4294967295"
  by (auto simp: hdr_def fdt_get_header_def dest: fdt32_ld_bounds split: option.splits)

lemma hdr_not_negative [simp]: "\<not> hdr b f < 0"
  using hdr_bounds(1) [of b f] by linarith

lemma u32_hdr [simp]: "u32 (hdr b f) = hdr b f"
  by (simp add: u32_id)

lemma fdt_set_header_defined [header]:
  "40 \<le> blen b \<Longrightarrow> \<exists>b'. fdt_set_header b f v = Some b'"
  using fdt32_st_in_range [of "hdr_off f" b v] hdr_off_range [of f]
  by (simp add: fdt_set_header_def)

lemma hdr_set [header]:
  assumes "fdt_set_header b f v = Some b'"
  shows "hdr b' g = (if g = f then u32 v else hdr b g)"
  using assms hdr_off_disjoint [of f g] ld32_st32_disjoint [of b "hdr_off f" v b' "hdr_off g"]
  by (auto simp: hdr_def fdt_get_header_def fdt_set_header_def ld32_st32_same)

lemma fdt_set_header_SomeD:
  assumes "fdt_set_header b f v = Some b'"
  shows "blen b' = blen b" "blob_addr b' = blob_addr b"
    "length (blob_mem b') = length (blob_mem b)"
  using assms by (auto simp: fdt_set_header_def fdt32_st_SomeD)

text \<open>A store behind the header leaves the header as it is, and a header store leaves
  everything behind the header as it is.\<close>

lemma hdr_wr [header]:
  assumes "wr b p xs = Some b'" and "40 \<le> p"
  shows "hdr b' f = hdr b f"
  using ld32_wr_disjoint [OF assms(1), of "hdr_off f"] hdr_off_range [of f] assms(2)
  by (simp add: hdr_def fdt_get_header_def)

lemma rd_set_header [header]:
  assumes "fdt_set_header b f v = Some b'" and "40 \<le> p"
  shows "rd b' p n = rd b p n"
  using rd_wr_disjoint [of b "hdr_off f" "bytes32 v" b' p n] assms hdr_off_range [of f]
  by (simp add: fdt_set_header_def fdt32_st_def)

lemma ld8_set_header [header]:
  assumes "fdt_set_header b f v = Some b'" and "40 \<le> p"
  shows "ld8 b' p = ld8 b p"
  using buf.load_stored_disjoint [of b "hdr_off f" "bytes32 v" b' p] assms hdr_off_range [of f]
  by (simp add: fdt_set_header_def fdt32_st_def)

lemma ld32_set_header [header]:
  assumes "fdt_set_header b f v = Some b'" and "40 \<le> p"
  shows "fdt32_ld b' p = fdt32_ld b p"
  using ld32_st32_disjoint [of b "hdr_off f" v b' p] assms hdr_off_range [of f]
  by (simp add: fdt_set_header_def)

lemma set_header_same_but: "fdt_set_header b f v = Some b' \<Longrightarrow> same_but b b' 0 40"
  using st32_same_but [of b "hdr_off f" v b'] same_but_mono [of b b' "hdr_off f" "hdr_off f + 4" 0 40]
    hdr_off_range [of f] by (simp add: fdt_set_header_def)

lemma same_but_hdr: "same_but b b' lo hi \<Longrightarrow> 40 \<le> lo \<Longrightarrow> hdr b' f = hdr b f"
  using same_but_ld32 [of b b' lo hi "hdr_off f"] hdr_off_range [of f]
  by (simp add: hdr_def fdt_get_header_def)

lemma set_header_ok:
  assumes "40 \<le> blen b"
  obtains b' where "fdt_set_header b f v = Some b'" "blen b' = blen b" "40 \<le> blen b'"
    "blob_addr b' = blob_addr b" "\<And>g. hdr b' g = (if g = f then u32 v else hdr b g)" "same_but b b' 0 40"
proof -
  obtain b' where b': "fdt_set_header b f v = Some b'" using fdt_set_header_defined [OF assms] by blast
  show ?thesis
    using that [OF b'] fdt_set_header_SomeD [OF b'] assms hdr_set [OF b'] set_header_same_but [OF b'] by simp
qed

end
