(* ===== verification/Fdt_Core.thy ===== *)
theory Fdt_Core
  imports Fdt_Header
begin

text \<open>
  The core of libfdt, \<open>fdt.c\<close>: the header checks, bounds-checked access to the structure
  block, the tag iterator every other component walks the structure block with, and
  the node iterators over it.
\<close>

section \<open>Header checks\<close>

definition fdt_ro_probe_i :: "blob \<Rightarrow> int option" where
  "fdt_ro_probe_i fdt = do {
     totalsize \<leftarrow> fdt_totalsize fdt;
     if can_assume VALID_DTB then Some (s32 totalsize)
     else if blob_addr fdt AND 7 \<noteq> 0 then Some (- FDT_ERR_ALIGNMENT)
     else do {
       magic \<leftarrow> fdt_magic fdt;
       let finish = (if totalsize < INT_MAX then totalsize else - FDT_ERR_TRUNCATED);
       if magic = FDT_MAGIC then
         if \<not> can_assume LATEST then do {
           version \<leftarrow> fdt_version fdt;
           if version < FDT_FIRST_SUPPORTED_VERSION then Some (- FDT_ERR_BADVERSION)
           else do {
             last_comp \<leftarrow> fdt_last_comp_version fdt;
             if last_comp > FDT_LAST_SUPPORTED_VERSION then Some (- FDT_ERR_BADVERSION)
             else Some finish } }
         else Some finish
       else if magic = FDT_SW_MAGIC then do {
         size_struct \<leftarrow> fdt_size_dt_struct fdt;
         if \<not> can_assume VALID_INPUT \<and> size_struct = 0 then Some (- FDT_ERR_BADSTATE)
         else Some finish }
       else Some (- FDT_ERR_BADMAGIC) } }"

text \<open>The macro \<open>FDT_RO_PROBE\<close>: return the error, or go on.\<close>

definition FDT_RO_PROBE :: "blob \<Rightarrow> int option \<Rightarrow> int option" where
  "FDT_RO_PROBE fdt k = do {
     totalsize \<leftarrow> fdt_ro_probe_i fdt;
     if totalsize < 0 then Some totalsize else k }"

definition check_off_i :: "int \<Rightarrow> int \<Rightarrow> int \<Rightarrow> bool" where
  "check_off_i hdrsize totalsize off \<longleftrightarrow> off \<ge> hdrsize \<and> off \<le> totalsize"

definition check_block_i :: "int \<Rightarrow> int \<Rightarrow> int \<Rightarrow> int \<Rightarrow> bool" where
  "check_block_i hdrsize totalsize base sz =
     (if \<not> check_off_i hdrsize totalsize base then False
      else if u32 (base + sz) < base then False
      else if \<not> check_off_i hdrsize totalsize (u32 (base + sz)) then False
      else True)"

definition fdt_header_size_i :: "int \<Rightarrow> int" where
  "fdt_header_size_i version =
     (if version \<le> 1 then FDT_V1_SIZE
      else if version \<le> 2 then FDT_V2_SIZE
      else if version \<le> 3 then FDT_V3_SIZE
      else if version \<le> 16 then FDT_V16_SIZE
      else FDT_V17_SIZE)"

definition fdt_header_size :: "blob \<Rightarrow> int option" where
  "fdt_header_size fdt =
     (if can_assume LATEST then Some FDT_V17_SIZE
      else do { version \<leftarrow> fdt_version fdt; Some (fdt_header_size_i version) })"

definition fdt_check_header :: "blob \<Rightarrow> int option" where
  "fdt_check_header fdt =
     (if blob_addr fdt AND 7 \<noteq> 0 then Some (- FDT_ERR_ALIGNMENT)
      else do {
        magic \<leftarrow> fdt_magic fdt;
        if magic \<noteq> FDT_MAGIC then Some (- FDT_ERR_BADMAGIC)
        else do {
          version \<leftarrow> fdt_version fdt;
          last_comp \<leftarrow> fdt_last_comp_version fdt;
          if \<not> can_assume LATEST \<and>
             (version < FDT_FIRST_SUPPORTED_VERSION \<or> last_comp > FDT_LAST_SUPPORTED_VERSION)
          then Some (- FDT_ERR_BADVERSION)
          else if \<not> can_assume LATEST \<and> version < last_comp then Some (- FDT_ERR_BADVERSION)
          else do {
            hdrsize \<leftarrow> fdt_header_size fdt;
            totalsize \<leftarrow> fdt_totalsize fdt;
            off_mem_rsvmap \<leftarrow> fdt_off_mem_rsvmap fdt;
            off_dt_struct \<leftarrow> fdt_off_dt_struct fdt;
            off_dt_strings \<leftarrow> fdt_off_dt_strings fdt;
            if \<not> can_assume VALID_DTB \<and> (totalsize < hdrsize \<or> totalsize > INT_MAX)
            then Some (- FDT_ERR_TRUNCATED)
            else if \<not> can_assume VALID_DTB \<and> \<not> check_off_i hdrsize totalsize off_mem_rsvmap
            then Some (- FDT_ERR_TRUNCATED)
            else if can_assume VALID_DTB then Some 0
            else do {
              struct_ok \<leftarrow>
                (if \<not> can_assume LATEST \<and> version < 17
                 then Some (check_off_i hdrsize totalsize off_dt_struct)
                 else do {
                   size_dt_struct \<leftarrow> fdt_size_dt_struct fdt;
                   Some (check_block_i hdrsize totalsize off_dt_struct size_dt_struct) });
              if \<not> struct_ok then Some (- FDT_ERR_TRUNCATED)
              else do {
                size_dt_strings \<leftarrow> fdt_size_dt_strings fdt;
                if \<not> check_block_i hdrsize totalsize off_dt_strings size_dt_strings
                then Some (- FDT_ERR_TRUNCATED)
                else Some 0 } } } } })"

section \<open>Access to the structure block\<close>

definition fdt_offset_ptr_i :: "blob \<Rightarrow> int \<Rightarrow> int option" where
  "fdt_offset_ptr_i fdt offset = do {
     off_dt_struct \<leftarrow> fdt_off_dt_struct fdt;
     Some (off_dt_struct + offset) }"

definition fdt_offset_ptr :: "blob \<Rightarrow> int \<Rightarrow> int \<Rightarrow> ptr option" where
  "fdt_offset_ptr fdt offset len = do {
     off_dt_struct \<leftarrow> fdt_off_dt_struct fdt;
     let uoffset = u32 offset;
     let absoffset = u32 (offset + off_dt_struct);
     if offset < 0 then Some NULL
     else do {
       totalsize \<leftarrow> fdt_totalsize fdt;
       if \<not> can_assume VALID_INPUT \<and>
          (absoffset < uoffset \<or> u32 (absoffset + len) < absoffset \<or>
           u32 (absoffset + len) > totalsize)
       then Some NULL
       else do {
         version \<leftarrow> fdt_version fdt;
         outside \<leftarrow>
           (if can_assume LATEST \<or> version \<ge> 0x11
            then do {
              size_dt_struct \<leftarrow> fdt_size_dt_struct fdt;
              Some (u32 (uoffset + len) < uoffset \<or> u32 (offset + len) > size_dt_struct) }
            else Some False);
         if outside then Some NULL
         else do { p \<leftarrow> fdt_offset_ptr_i fdt offset; Some (Ptr p) } } } }"

text \<open>The loop of \<open>fdt_next_tag\<close> that skips a node name: the last pointer and the offset
  behind it.\<close>

partial_function (option) skip_name :: "blob \<Rightarrow> int \<Rightarrow> (ptr \<times> int) option" where
  "skip_name fdt offset = do {
     p \<leftarrow> fdt_offset_ptr fdt offset 1;
     (case p of
        NULL \<Rightarrow> Some (NULL, s32 (offset + 1))
      | Ptr a \<Rightarrow> do {
          c \<leftarrow> ld8 fdt a;
          if c \<noteq> 0 then skip_name fdt (s32 (offset + 1))
          else Some (Ptr a, s32 (offset + 1)) }) }"

text \<open>The \<open>switch\<close> of \<open>fdt_next_tag\<close>: the offset behind the item whose tag has been read, or
  \<open>None\<close> for the early \<open>return FDT_END\<close>.\<close>

definition tag_body :: "blob \<Rightarrow> int \<Rightarrow> int \<Rightarrow> int option option" where
  "tag_body fdt tag offset =
     (if tag = FDT_BEGIN_NODE then do {
        (p, offset) \<leftarrow> skip_name fdt offset;
        Some (if \<not> can_assume VALID_DTB \<and> p = NULL then None else Some offset) }
      else if tag = FDT_PROP then do {
        lenp \<leftarrow> fdt_offset_ptr fdt offset 4;
        (case lenp of
           NULL \<Rightarrow> Some None
         | Ptr lp \<Rightarrow> do {
             len \<leftarrow> fdt32_ld fdt lp;
             let offset = s32 (offset + (12 - FDT_TAGSIZE) + len);
             version \<leftarrow> fdt_version fdt;
             Some (Some (if \<not> can_assume LATEST \<and> version < 0x10 \<and> len \<ge> 8 \<and>
                            u32 (offset - len) mod 8 \<noteq> 0
                         then s32 (offset + 4) else offset)) }) }
      else if tag = FDT_END \<or> tag = FDT_END_NODE \<or> tag = FDT_NOP
      then Some (Some offset)
      else Some None)"

text \<open>\<open>fdt_next_tag\<close> returns the tag and, through \<open>*nextoffset\<close>, the offset behind it or
  an error.\<close>

definition fdt_next_tag :: "blob \<Rightarrow> int \<Rightarrow> (int \<times> int) option" where
  "fdt_next_tag fdt startoffset = do {
     tagp \<leftarrow> fdt_offset_ptr fdt startoffset FDT_TAGSIZE;
     (case tagp of
        NULL \<Rightarrow> Some (FDT_END, - FDT_ERR_TRUNCATED)
      | Ptr tp \<Rightarrow> do {
          tag \<leftarrow> fdt32_ld fdt tp;
          body \<leftarrow> tag_body fdt tag (s32 (startoffset + FDT_TAGSIZE));
          (case body of
             None \<Rightarrow> Some (FDT_END, - FDT_ERR_BADSTRUCTURE)
           | Some offset \<Rightarrow> do {
               q \<leftarrow> fdt_offset_ptr fdt startoffset (u32 (offset - startoffset));
               Some (if q = NULL then (FDT_END, - FDT_ERR_BADSTRUCTURE)
                     else (tag, s32 (FDT_TAGALIGN offset))) }) }) }"

definition fdt_check_node_offset_i :: "blob \<Rightarrow> int \<Rightarrow> int option" where
  "fdt_check_node_offset_i fdt offset =
     (if \<not> can_assume VALID_INPUT \<and> (offset < 0 \<or> u64 offset mod FDT_TAGSIZE \<noteq> 0)
      then Some (- FDT_ERR_BADOFFSET)
      else do {
        (tag, offset) \<leftarrow> fdt_next_tag fdt offset;
        if tag \<noteq> FDT_BEGIN_NODE then Some (- FDT_ERR_BADOFFSET) else Some offset })"

definition fdt_check_prop_offset_i :: "blob \<Rightarrow> int \<Rightarrow> int option" where
  "fdt_check_prop_offset_i fdt offset =
     (if \<not> can_assume VALID_INPUT \<and> (offset < 0 \<or> u64 offset mod FDT_TAGSIZE \<noteq> 0)
      then Some (- FDT_ERR_BADOFFSET)
      else do {
        (tag, offset) \<leftarrow> fdt_next_tag fdt offset;
        if tag \<noteq> FDT_PROP then Some (- FDT_ERR_BADOFFSET) else Some offset })"

section \<open>Node iterators\<close>

text \<open>The loop of \<open>fdt_next_node\<close>. The depth argument is a pointer that may be \<open>NULL\<close>
  (\<open>None\<close>); the depth behind it is returned.\<close>

partial_function (option) fdt_next_node_loop ::
  "blob \<Rightarrow> int \<Rightarrow> int option \<Rightarrow> (int \<times> int option) option" where
  "fdt_next_node_loop fdt offset depth = do {
     (tag, nextoffset) \<leftarrow> fdt_next_tag fdt offset;
     if tag = FDT_BEGIN_NODE then
       Some (offset, map_option (\<lambda>d. s32 (d + 1)) depth)
     else if tag = FDT_END_NODE then
       (case depth of
          None \<Rightarrow> fdt_next_node_loop fdt nextoffset None
        | Some d \<Rightarrow>
            (if s32 (d - 1) < 0 then Some (nextoffset, Some (s32 (d - 1)))
             else fdt_next_node_loop fdt nextoffset (Some (s32 (d - 1)))))
     else if tag = FDT_END then
       Some (if nextoffset \<ge> 0 \<or> (nextoffset = - FDT_ERR_TRUNCATED \<and> depth = None)
             then - FDT_ERR_NOTFOUND else nextoffset, depth)
     else fdt_next_node_loop fdt nextoffset depth }"

definition fdt_next_node :: "blob \<Rightarrow> int \<Rightarrow> int option \<Rightarrow> (int \<times> int option) option" where
  "fdt_next_node fdt offset depth = do {
     nextoffset \<leftarrow> (if offset \<ge> 0 then fdt_check_node_offset_i fdt offset else Some 0);
     if nextoffset < 0 then Some (nextoffset, depth)
     else fdt_next_node_loop fdt nextoffset depth }"

definition fdt_first_subnode :: "blob \<Rightarrow> int \<Rightarrow> int option" where
  "fdt_first_subnode fdt offset = do {
     (offset, depth) \<leftarrow> fdt_next_node fdt offset (Some 0);
     if offset < 0 \<or> depth \<noteq> Some 1 then Some (- FDT_ERR_NOTFOUND) else Some offset }"

partial_function (option) fdt_next_subnode_loop :: "blob \<Rightarrow> int \<Rightarrow> int \<Rightarrow> int option" where
  "fdt_next_subnode_loop fdt offset depth = do {
     (offset, d) \<leftarrow> fdt_next_node fdt offset (Some depth);
     (case d of
        None \<Rightarrow> None
      | Some depth \<Rightarrow>
          if offset < 0 \<or> depth < 1 then Some (- FDT_ERR_NOTFOUND)
          else if depth > 1 then fdt_next_subnode_loop fdt offset depth
          else Some offset) }"

definition fdt_next_subnode :: "blob \<Rightarrow> int \<Rightarrow> int option" where
  "fdt_next_subnode fdt offset = fdt_next_subnode_loop fdt offset 1"

section \<open>Strings and moving\<close>

text \<open>\<open>fdt_find_string_\<close>: the loop tries every \<open>p\<close> from \<open>strtab\<close> to \<open>lst\<close>.\<close>

function find_string_loop :: "blob \<Rightarrow> int \<Rightarrow> int \<Rightarrow> cstring \<Rightarrow> ptr option" where
  "find_string_loop fdt p lst s =
     (if p \<le> lst then do {
        eq \<leftarrow> memcmp_eq fdt p (s @ [0]) (cstrlen s + 1);
        if eq then Some (Ptr p) else find_string_loop fdt (p + 1) lst s }
      else Some NULL)"
  by pat_completeness auto
termination
  by (relation "measure (\<lambda>(fdt, p, lst, s). nat (lst - p + 1))") auto

declare find_string_loop.simps [simp del]

definition fdt_find_string_i :: "blob \<Rightarrow> int \<Rightarrow> int \<Rightarrow> cstring \<Rightarrow> ptr option" where
  "fdt_find_string_i fdt strtab tabsize s =
     (let len = cstrlen s + 1; lst = strtab + tabsize - len
      in find_string_loop fdt strtab lst s)"

text \<open>
  Functions that take two pointers which may overlap work on one memory that holds both
  buffers: \<open>view m p\<close> is what the pointer \<open>p\<close> sees, and \<open>on_view\<close> runs a store through it.
\<close>

definition view :: "blob \<Rightarrow> int \<Rightarrow> blob" where
  "view m p = \<lparr>blob_addr = blob_addr m + p, blob_mem = drop (nat p) (blob_mem m)\<rparr>"

definition on_view :: "blob \<Rightarrow> int \<Rightarrow> (blob \<Rightarrow> blob option) \<Rightarrow> blob option" where
  "on_view m p f = do {
     b \<leftarrow> f (view m p);
     Some (m\<lparr>blob_mem := take (nat p) (blob_mem m) @ blob_mem b\<rparr>) }"

definition fdt_move :: "blob \<Rightarrow> int \<Rightarrow> int \<Rightarrow> int \<Rightarrow> (int \<times> blob) option" where
  "fdt_move m fdt buf bufsize =
     (if \<not> can_assume VALID_INPUT \<and> bufsize < 0 then Some (- FDT_ERR_NOSPACE, m)
      else do {
        probe \<leftarrow> fdt_ro_probe_i (view m fdt);
        if probe < 0 then Some (probe, m)
        else do {
          totalsize \<leftarrow> fdt_totalsize (view m fdt);
          if totalsize > u32 bufsize then Some (- FDT_ERR_NOSPACE, m)
          else do { m \<leftarrow> memmove m buf fdt totalsize; Some (0, m) } } })"

declare skip_name.simps [code] fdt_next_node_loop.simps [code] fdt_next_subnode_loop.simps [code]

section \<open>Pointers into the structure block\<close>

text \<open>A blob is \<open>backed\<close> when its buffer holds a whole header and as many bytes as the header
  claims.\<close>

definition backed :: "blob \<Rightarrow> bool" where
  "backed b \<longleftrightarrow> 40 \<le> blen b \<and> hdr b H_totalsize \<le> blen b"

lemma backed_header [simp]: "backed b \<Longrightarrow> fdt_get_header b f = Some (hdr b f)"
  by (simp add: backed_def fdt_get_header_hdr)

lemma backedD: "backed b \<Longrightarrow> 40 \<le> blen b" "backed b \<Longrightarrow> hdr b H_totalsize \<le> blen b"
  by (simp_all add: backed_def)

lemma fdt_offset_ptr_total: "backed b \<Longrightarrow> \<exists>p. fdt_offset_ptr b off len = Some p"
  by (simp add: fdt_offset_ptr_def fdt_offset_ptr_i_def Let_def)

lemma fdt_offset_ptr_PtrD:
  assumes "fdt_offset_ptr b off len = Some (Ptr p)" "backed b" "off \<le> INT_MAX"
    "0 \<le> len" "len < 4294967296"
  shows "0 \<le> off" "p = hdr b H_off_dt_struct + off" "p + len \<le> hdr b H_totalsize"
    "p + len \<le> blen b"
    "0x11 \<le> hdr b H_version \<Longrightarrow> off + len \<le> hdr b H_size_dt_struct"
    "off + len \<le> hdr b H_totalsize"
proof -
  let ?s = "hdr b H_off_dt_struct"
  from assms have o: "0 \<le> off" and p: "p = ?s + off"
    and c: "\<not> u32 (off + ?s) < u32 off" "\<not> u32 (u32 (off + ?s) + len) < u32 (off + ?s)"
      "\<not> u32 (u32 (off + ?s) + len) > hdr b H_totalsize"
    and v: "0x11 \<le> hdr b H_version \<Longrightarrow> \<not> u32 (u32 off + len) < u32 off \<and>
        \<not> u32 (off + len) > hdr b H_size_dt_struct"
    by (auto simp: fdt_offset_ptr_def fdt_offset_ptr_i_def Let_def split: if_splits)
  have uo: "u32 off = off" using o assms(3) by (simp add: u32_id)
  have a: "u32 (off + ?s) = off + ?s"
    using c(1) uo o assms(3) u32_add [of off ?s] by (auto split: if_splits)
  have b: "u32 (off + ?s + len) = off + ?s + len"
    using c(2) a o assms(3-5) u32_add [of "off + ?s" len] u32_range [of "off + ?s"]
    by (auto split: if_splits)
  show "0 \<le> off" "p = ?s + off" by fact+
  show "p + len \<le> hdr b H_totalsize" using c(3) a b p by simp
  then show "p + len \<le> blen b" "off + len \<le> hdr b H_totalsize"
    using backedD(2) [OF assms(2)] hdr_bounds(1) [of b H_off_dt_struct] p by linarith+
  show "off + len \<le> hdr b H_size_dt_struct" if "0x11 \<le> hdr b H_version"
    using v [OF that] uo o assms(3-5) u32_add [of off len] by (auto split: if_splits)
qed

lemma fdt_offset_ptr_ok:
  assumes b: "backed b" "hdr b H_totalsize \<le> INT_MAX" "0 \<le> off" "0 \<le> len"
    and room: "hdr b H_off_dt_struct + off + len \<le> hdr b H_totalsize"
      "0x11 \<le> hdr b H_version \<longrightarrow> off + len \<le> hdr b H_size_dt_struct"
  shows "fdt_offset_ptr b off len = Some (Ptr (hdr b H_off_dt_struct + off))"
proof -
  define s where "s = hdr b H_off_dt_struct"
  have s: "0 \<le> s" "s + off + len \<le> INT_MAX" "s + off + len \<le> hdr b H_totalsize"
    using b room by (simp_all add: s_def)
  show ?thesis using b(1,3,4) s room(2)
    by (auto simp: fdt_offset_ptr_def fdt_offset_ptr_i_def Let_def u32_id add.commute [of off]
        simp flip: s_def)
qed

section \<open>The tag iterator\<close>

lemma skip_name_total:
  assumes "backed b" "off \<le> INT_MAX"
  shows "\<exists>r. skip_name b off = Some r"
  using assms(2)
proof (induction "nat (2147483648 - off)" arbitrary: off rule: less_induct)
  case less
  obtain p where p: "fdt_offset_ptr b off 1 = Some p"
    using fdt_offset_ptr_total [OF assms(1)] by blast
  show ?case
  proof (cases p)
    case NULL
    then show ?thesis using p by (subst skip_name.simps) simp
  next
    case (Ptr a)
    note r = fdt_offset_ptr_PtrD [OF p [unfolded Ptr] assms(1) less.prems]
    then obtain c where c: "ld8 b a = Some c"
      using ld8_in_range [of a b] by auto
    have "\<exists>r. skip_name b (s32 (off + 1)) = Some r"
    proof (cases "off = INT_MAX")
      case True
      then have "fdt_offset_ptr b (s32 (off + 1)) 1 = Some NULL"
        using assms(1) by (simp add: s32_def fdt_offset_ptr_def)
      then show ?thesis by (subst skip_name.simps) simp
    next
      case False
      then have "s32 (off + 1) = off + 1" using r less.prems by (intro s32_succ) auto
      then show ?thesis using less.hyps [of "off + 1"] less.prems False r by simp
    qed
    then show ?thesis using p Ptr c by (subst skip_name.simps) simp
  qed
qed

lemma skip_name_PtrD:
  assumes "backed b" "hdr b H_totalsize \<le> INT_MAX" "off \<le> INT_MAX"
    and "skip_name b off = Some (Ptr a, off')"
  shows "0 \<le> off" "off < off'" "off' \<le> INT_MAX" "a = hdr b H_off_dt_struct + off' - 1"
    "a + 1 \<le> hdr b H_totalsize" "ld8 b a = Some 0"
    "\<forall>i. hdr b H_off_dt_struct + off \<le> i \<and> i < a \<longrightarrow> ld8 b i \<noteq> Some 0"
proof -
  let ?s = "hdr b H_off_dt_struct"
  have "0 \<le> off \<and> off < off' \<and> a = ?s + off' - 1 \<and> a + 1 \<le> hdr b H_totalsize \<and>
    ld8 b a = Some 0 \<and> (\<forall>i. ?s + off \<le> i \<and> i < a \<longrightarrow> ld8 b i \<noteq> Some 0)"
    using assms(3,4)
  proof (induction "nat (2147483648 - off)" arbitrary: off rule: less_induct)
    case less
    obtain p where p: "fdt_offset_ptr b off 1 = Some p"
      using fdt_offset_ptr_total [OF assms(1)] by blast
    then obtain q where q: "p = Ptr q"
      using less.prems(2) by (cases p) (auto simp: skip_name.simps [of b off])
    note r = fdt_offset_ptr_PtrD [OF p [unfolded q] assms(1) less.prems(1)]
    obtain c where c: "ld8 b q = Some c" using ld8_in_range [of q b] r by auto
    have "off < INT_MAX" using r(2,3) assms(2) hdr_bounds(1) [of b H_off_dt_struct] by linarith
    then have s: "s32 (off + 1) = off + 1" using r by (intro s32_succ) auto
    show ?case
    proof (cases "c = 0")
      case True
      then show ?thesis using less.prems(2) p q c r s by (auto simp: skip_name.simps [of b off])
    next
      case False
      then have "skip_name b (off + 1) = Some (Ptr a, off')"
        using less.prems(2) p q c s by (simp add: skip_name.simps [of b off])
      then have IH: "0 \<le> off + 1 \<and> off + 1 < off' \<and> a = ?s + off' - 1 \<and>
          a + 1 \<le> hdr b H_totalsize \<and> ld8 b a = Some 0 \<and>
          (\<forall>i. ?s + (off + 1) \<le> i \<and> i < a \<longrightarrow> ld8 b i \<noteq> Some 0)"
        using less.hyps [of "off + 1"] \<open>off < INT_MAX\<close> by auto
      moreover have "ld8 b (?s + off) \<noteq> Some 0" using c r False by simp
      ultimately have "\<forall>i. ?s + off \<le> i \<and> i < a \<longrightarrow> ld8 b i \<noteq> Some 0"
        by (metis add.assoc order.strict_iff_order zless_imp_add1_zle)
      then show ?thesis using IH r(1) by auto
    qed
  qed
  then show "0 \<le> off" "off < off'" "a = ?s + off' - 1" "a + 1 \<le> hdr b H_totalsize"
    "ld8 b a = Some 0" "\<forall>i. ?s + off \<le> i \<and> i < a \<longrightarrow> ld8 b i \<noteq> Some 0" by auto
  then show "off' \<le> INT_MAX" using assms(2) hdr_bounds(1) [of b H_off_dt_struct] by linarith
qed

lemma tag_body_total:
  assumes "backed b" "off \<le> INT_MAX"
  shows "\<exists>r. tag_body b tag off = Some r"
proof -
  obtain lp where lp: "fdt_offset_ptr b off 4 = Some lp"
    using fdt_offset_ptr_total [OF assms(1)] by blast
  have len: "\<exists>l. fdt32_ld b q = Some l" if "lp = Ptr q" for q
    using fdt_offset_ptr_PtrD [OF lp [unfolded that] assms] by (intro fdt32_ld_in_range) auto
  obtain np no where "skip_name b off = Some (np, no)"
    using skip_name_total [OF assms] by (metis surj_pair)
  then show ?thesis using lp len assms(1)
    by (cases lp) (auto simp: tag_body_def Let_def)
qed

lemma fdt_next_tag_total:
  assumes "backed b" "off \<le> INT_MAX"
  shows "\<exists>r. fdt_next_tag b off = Some r"
proof -
  obtain p where p: "fdt_offset_ptr b off 4 = Some p"
    using fdt_offset_ptr_total [OF assms(1)] by blast
  show ?thesis
  proof (cases p)
    case NULL
    then show ?thesis using p by (simp add: fdt_next_tag_def)
  next
    case (Ptr tp)
    note r = fdt_offset_ptr_PtrD [OF p [unfolded Ptr] assms]
    then obtain tag where tag: "fdt32_ld b tp = Some tag" using fdt32_ld_in_range [of tp b] by auto
    obtain body where body: "tag_body b tag (s32 (off + 4)) = Some body"
      using tag_body_total [OF assms(1)] by force
    obtain q where "fdt_offset_ptr b off (u32 (the body - off)) = Some q"
      using fdt_offset_ptr_total [OF assms(1)] by blast
    then show ?thesis
      using p Ptr tag body
      by (cases body) (auto simp: fdt_next_tag_def)
  qed
qed

lemma fdt_next_tag_cases:
  assumes "fdt_next_tag b off = Some (tag, n)"
  obtains (short) "tag = FDT_END" "n = - FDT_ERR_TRUNCATED" "fdt_offset_ptr b off 4 = Some NULL"
  | (bad) "tag = FDT_END" "n = - FDT_ERR_BADSTRUCTURE"
  | (item) p q e where "fdt_offset_ptr b off 4 = Some (Ptr p)" "fdt32_ld b p = Some tag"
      "tag_body b tag (s32 (off + 4)) = Some (Some e)"
      "fdt_offset_ptr b off (u32 (e - off)) = Some (Ptr q)" "n = s32 (FDT_TAGALIGN e)"
proof -
  obtain p where p: "fdt_offset_ptr b off 4 = Some p"
    using assms by (auto simp: fdt_next_tag_def bind_eq_Some_conv)
  show ?thesis
  proof (cases p)
    case NULL
    then show ?thesis using assms p short by (auto simp: fdt_next_tag_def)
  next
    case (Ptr tp)
    then obtain t body where t: "fdt32_ld b tp = Some t"
      and body: "tag_body b t (s32 (off + 4)) = Some body"
      using assms p by (auto simp: fdt_next_tag_def bind_eq_Some_conv)
    show ?thesis
    proof (cases body)
      case None
      then show ?thesis using assms p Ptr t body bad by (auto simp: fdt_next_tag_def)
    next
      case (Some e)
      then obtain q where q: "fdt_offset_ptr b off (u32 (e - off)) = Some q"
        using assms p Ptr t body by (auto simp: fdt_next_tag_def bind_eq_Some_conv)
      show ?thesis
        using assms p Ptr t body Some q bad item [of tp e]
        by (cases q) (auto simp: fdt_next_tag_def)
    qed
  qed
qed

text \<open>A property whose length field makes the 32-bit offset arithmetic wrap around.\<close>

definition prop_wraps :: "blob \<Rightarrow> int \<Rightarrow> bool" where
  "prop_wraps b off \<longleftrightarrow>
     fdt32_ld b (hdr b H_off_dt_struct + off) = Some FDT_PROP \<and>
     (case fdt32_ld b (hdr b H_off_dt_struct + off + 4) of
        None \<Rightarrow> False | Some len \<Rightarrow> 0xfffffff0 \<le> len)"

lemma tagalign_s32:
  assumes "off < e" "0 \<le> e" "e \<le> INT_MAX"
  shows "s32 (FDT_TAGALIGN e) < 0 \<or> off < s32 (FDT_TAGALIGN e)"
proof (cases "FDT_TAGALIGN e \<le> INT_MAX")
  case True
  then have "s32 (FDT_TAGALIGN e) = FDT_TAGALIGN e"
    using assms FDT_TAGALIGN_bounds(1) [of e] by (intro s32_id) auto
  then show ?thesis using assms FDT_TAGALIGN_bounds(1) [of e] by auto
next
  case False
  then have "s32 (FDT_TAGALIGN e) < 0"
    using assms FDT_TAGALIGN_bounds(2) [of e] by (intro s32_negative) auto
  then show ?thesis by simp
qed

text \<open>The realignment of old-format property values.\<close>

definition realign :: "blob \<Rightarrow> int \<Rightarrow> int \<Rightarrow> int" where
  "realign b off len =
     (if hdr b H_version < 0x10 \<and> len \<ge> 8 \<and> u32 (off + 8) mod 8 \<noteq> 0 then 4 else 0)"

lemma tag_body_propD:
  assumes "backed b" and body: "tag_body b FDT_PROP off = Some (Some e)"
  obtains lp len where "fdt_offset_ptr b off 4 = Some (Ptr lp)" "fdt32_ld b lp = Some len"
    "e = s32 (off + 8 + len + realign b off len)"
proof -
  obtain p where p: "fdt_offset_ptr b off 4 = Some p"
    using fdt_offset_ptr_total [OF assms(1)] by blast
  then obtain lp where lp: "p = Ptr lp" using body by (cases p) (auto simp: tag_body_def)
  then obtain len where len: "fdt32_ld b lp = Some len"
    using body p by (auto simp: tag_body_def bind_eq_Some_conv)
  have "e = s32 (off + 8 + len + realign b off len)"
    using body p lp len assms(1) by (auto simp: tag_body_def Let_def realign_def)
  then show ?thesis using that p lp len by blast
qed

lemma tag_body_end:
  assumes b: "backed b" "hdr b H_totalsize \<le> INT_MAX" "off \<le> INT_MAX"
    and p: "fdt_offset_ptr b off 4 = Some (Ptr p)" "fdt32_ld b p = Some tag"
    and body: "tag_body b tag (s32 (off + 4)) = Some (Some e)"
    and q: "fdt_offset_ptr b off (u32 (e - off)) = Some (Ptr q)"
    and nowrap: "\<not> prop_wraps b off"
  shows "off + 4 \<le> e" "hdr b H_off_dt_struct + e \<le> hdr b H_totalsize"
    "0x11 \<le> hdr b H_version \<Longrightarrow> e \<le> hdr b H_size_dt_struct"
proof -
  let ?s = "hdr b H_off_dt_struct"
  have s: "0 \<le> ?s" by simp
  note P = fdt_offset_ptr_PtrD [OF p(1) b(1,3), simplified]
  note Q = fdt_offset_ptr_PtrD [OF q b(1,3), simplified]
  have o4: "s32 (off + 4) = off + 4" using P(1-3) b(2) s by (intro s32_id) linarith+
  have "off + 4 \<le> e \<and> u32 (e - off) = e - off"
  proof -
    consider (node) "tag = FDT_BEGIN_NODE" | (prp) "tag = FDT_PROP"
      | (other) "tag \<noteq> FDT_BEGIN_NODE" "tag \<noteq> FDT_PROP" by blast
    then show ?thesis
    proof cases
      case node
      then obtain a where "skip_name b (off + 4) = Some (Ptr a, e)"
        using body o4 by (auto simp: tag_body_def bind_eq_Some_conv split: if_splits)
          (metis ptr.exhaust)
      from skip_name_PtrD [OF b(1,2) _ this] P(1-3) b(2) s show ?thesis
        by (auto intro!: u32_id)
    next
      case other
      then have "e = off + 4" using body o4 by (auto simp: tag_body_def split: if_splits)
      then show ?thesis by (simp add: u32_id)
    next
      case prp
      then obtain lp len where lp: "fdt_offset_ptr b (off + 4) 4 = Some (Ptr lp)"
        and len: "fdt32_ld b lp = Some len" and e: "e = s32 (off + 4 + 8 + len + realign b (off + 4) len)"
        using body o4 tag_body_propD [OF b(1), of "off + 4" e] by auto
      have "off + 4 \<le> INT_MAX" using P(1-3) b(2) s by linarith
      from fdt_offset_ptr_PtrD(2) [OF lp b(1) this] have "lp = ?s + off + 4" by simp
      then have l: "len < 0xfffffff0" "0 \<le> len"
        using nowrap p P len prp fdt32_ld_bounds [OF len] by (auto simp: prop_wraps_def)
      define x where "x = 12 + len + realign b (off + 4) len"
      have x: "e = s32 (off + x)" "12 \<le> x" "x < 4294967296"
        using l e by (simp_all add: x_def realign_def add.assoc)
      have "u32 (e - off) = x" using x by (simp add: u32_id)
      moreover from this have "off + x \<le> INT_MAX" using Q b(2) s by linarith
      then have "e = off + x" using x P(1) by (simp add: s32_id)
      ultimately show ?thesis using x by simp
    qed
  qed
  then show "off + 4 \<le> e" "?s + e \<le> hdr b H_totalsize"
    "0x11 \<le> hdr b H_version \<Longrightarrow> e \<le> hdr b H_size_dt_struct"
    using Q by auto
qed

lemma fdt_next_tag_progress:
  assumes "backed b" "hdr b H_totalsize \<le> INT_MAX" "off \<le> INT_MAX"
    and "fdt_next_tag b off = Some (tag, n)" "\<not> prop_wraps b off"
  shows "n < 0 \<or> off < n"
  using assms(4)
proof (cases rule: fdt_next_tag_cases)
  case (item p q e)
  have "off + 4 \<le> e" "hdr b H_off_dt_struct + e \<le> hdr b H_totalsize" "0 \<le> off"
    using tag_body_end [OF assms(1-3) item(1-4) assms(5)]
      fdt_offset_ptr_PtrD(1) [OF item(1) assms(1,3)] by auto
  then have "off < e" "0 \<le> e" "e \<le> INT_MAX"
    using assms(2) hdr_bounds(1) [of b H_off_dt_struct] by linarith+
  then show ?thesis using tagalign_s32 item(5) by simp
qed auto
section \<open>Walking by offset\<close>

text \<open>A blob that every walk leaves again: backed, of a size that fits an \<open>int\<close>, and without a property
  length that wraps the offset arithmetic.\<close>

definition walkable :: "blob \<Rightarrow> bool" where
  "walkable b \<longleftrightarrow> backed b \<and> hdr b H_totalsize \<le> INT_MAX \<and>
     list_all (\<lambda>off. \<not> prop_wraps b off) [0..hdr b H_totalsize]"

lemma walkableD:
  assumes "walkable b"
  shows "backed b" "hdr b H_totalsize \<le> INT_MAX"
    "0 \<le> off \<Longrightarrow> off \<le> hdr b H_totalsize \<Longrightarrow> \<not> prop_wraps b off"
  using assms by (auto simp: walkable_def list_all_iff)

text \<open>
  Every loop of libfdt that walks the structure block goes from an offset to a later one.
  \<open>offset_walk\<close> is what such a loop relies on: a step goes forward, or ends at an
  offset no step leaves. The induction rule turns this into termination.
\<close>

locale offset_walk =
  fixes ok :: "'b \<Rightarrow> bool"
    and succ :: "'b \<Rightarrow> int \<Rightarrow> int \<Rightarrow> bool"
  assumes succ_progress:
    "ok b \<Longrightarrow> succ b off n \<Longrightarrow> off \<le> INT_MAX \<Longrightarrow>
       n \<le> INT_MAX \<and> (off < n \<or> (\<forall>m. \<not> succ b n m))"
begin

lemma walk_induct [consumes 2, case_names walk]:
  assumes "ok b" "off \<le> INT_MAX"
    and step: "\<And>off. off \<le> INT_MAX \<Longrightarrow> (\<And>n. succ b off n \<Longrightarrow> P n) \<Longrightarrow> P off"
  shows "P off"
  using assms(2)
proof (induction "nat (INT_MAX - off)" arbitrary: off rule: less_induct)
  case less
  show ?case
  proof (rule step [OF less.prems])
    fix n assume n: "succ b off n"
    note s = succ_progress [OF assms(1) n less.prems]
    show "P n"
    proof (cases "off < n")
      case True
      then show ?thesis using less.hyps [of n] s less.prems by simp
    next
      case False
      then have "\<And>m. \<not> succ b n m" using s by blast
      then show ?thesis using step [of n] s by blast
    qed
  qed
qed

end

lemma fdt_next_tag_range: "fdt_next_tag b off = Some (tag, n) \<Longrightarrow> n \<le> INT_MAX"
  by (cases rule: fdt_next_tag_cases) auto

lemma fdt_next_tag_negative: "backed b \<Longrightarrow> off < 0 \<Longrightarrow> fdt_next_tag b off = Some (FDT_END, - 8)"
  by (simp add: fdt_next_tag_def fdt_offset_ptr_def)

lemma fdt_next_tag_progress_walkable:
  assumes "walkable b" "off \<le> INT_MAX" "fdt_next_tag b off = Some (tag, n)"
  shows "n < 0 \<or> off < n"
proof (cases "prop_wraps b off")
  case False
  then show ?thesis using fdt_next_tag_progress assms walkableD(1,2) by blast
next
  case True
  then have r: "0 \<le> hdr b H_off_dt_struct + off" by (auto simp: prop_wraps_def dest: fdt32_ld_bounds)
  from assms(3) show ?thesis
  proof (cases rule: fdt_next_tag_cases)
    case (item p q e)
    from fdt_offset_ptr_PtrD [OF item(1) walkableD(1) [OF assms(1)] assms(2)]
    have "0 \<le> off" "off \<le> hdr b H_totalsize" by auto
    with True walkableD(3) [OF assms(1)] show ?thesis by blast
  qed auto
qed

definition tag_succ :: "blob \<Rightarrow> int \<Rightarrow> int \<Rightarrow> bool" where
  "tag_succ b off n \<longleftrightarrow> (\<exists>tag. fdt_next_tag b off = Some (tag, n) \<and> tag \<noteq> FDT_END)"

interpretation tags: offset_walk walkable tag_succ
proof unfold_locales
  fix b off n
  assume a: "walkable b" "tag_succ b off n" "off \<le> INT_MAX"
  then obtain tag where t: "fdt_next_tag b off = Some (tag, n)" by (auto simp: tag_succ_def)
  from fdt_next_tag_progress_walkable [OF a(1,3) t] fdt_next_tag_range [OF t]
  show "n \<le> INT_MAX \<and> (off < n \<or> (\<forall>m. \<not> tag_succ b n m))"
    using fdt_next_tag_negative [OF walkableD(1) [OF a(1)], of n] by (auto simp: tag_succ_def)
qed

lemma next_tag_obtain:
  assumes "backed b" "off \<le> INT_MAX"
  obtains tag n where "fdt_next_tag b off = Some (tag, n)" "n \<le> INT_MAX"
  using fdt_next_tag_total [OF assms] fdt_next_tag_range by fastforce

lemma fdt_next_node_loop_total:
  assumes "walkable b" "off \<le> INT_MAX"
  shows "\<exists>n d'. fdt_next_node_loop b off d = Some (n, d') \<and> n \<le> INT_MAX \<and> (n < 0 \<or> off \<le> n)"
  using assms
proof (induction arbitrary: d rule: tags.walk_induct)
  case (walk off)
  obtain tag n where t: "fdt_next_tag b off = Some (tag, n)" "n \<le> INT_MAX"
    using next_tag_obtain walkableD(1) [OF assms(1)] walk(1) by metis
  have p: "n < 0 \<or> off < n" using fdt_next_tag_progress_walkable [OF assms(1) walk(1) t(1)] .
  have neg: "\<exists>d'. fdt_next_node_loop b n d = Some (- 8, d') \<or>  fdt_next_node_loop b n d = Some (- 1, d')" if "n < 0" for d
    using fdt_next_tag_negative [OF walkableD(1) [OF assms(1)] that]
    by (auto simp: fdt_next_node_loop.simps [of b n])
  have rec: "\<exists>m d'. fdt_next_node_loop b n d = Some (m, d') \<and> m \<le> INT_MAX \<and> (m < 0 \<or> off \<le> m)"
    if "tag \<noteq> FDT_END" for d
  proof -
    have "tag_succ b off n" using t that by (auto simp: tag_succ_def)
    from walk(2) [OF this, of d] neg [of d] p show ?thesis by fastforce
  qed
  show ?case
    using t p rec walk(1) by (auto simp: fdt_next_node_loop.simps [of b off] split: option.splits)
qed

lemma fdt_check_node_offset_total:
  assumes "walkable b" "off \<le> INT_MAX"
  shows "\<exists>n. fdt_check_node_offset_i b off = Some n \<and> n \<le> INT_MAX \<and> (n < 0 \<or> off < n)"
proof -
  obtain tag n where t: "fdt_next_tag b off = Some (tag, n)" "n \<le> INT_MAX"
    using next_tag_obtain walkableD(1) [OF assms(1)] assms(2) by metis
  then show ?thesis using fdt_next_tag_progress_walkable [OF assms t(1)]
    by (simp add: fdt_check_node_offset_i_def)
qed

lemma fdt_next_node_total:
  assumes "walkable b" "off \<le> INT_MAX"
  shows "\<exists>n d'. fdt_next_node b off d = Some (n, d') \<and> n \<le> INT_MAX \<and> (n < 0 \<or> off < n)"
proof (cases "0 \<le> off")
  case True
  obtain n where n: "fdt_check_node_offset_i b off = Some n" "n \<le> INT_MAX" "n < 0 \<or> off < n"
    using fdt_check_node_offset_total [OF assms] by blast
  then show ?thesis
    using True fdt_next_node_loop_total [OF assms(1) n(2), of d] by (auto simp: fdt_next_node_def)
next
  case False
  then show ?thesis
    using fdt_next_node_loop_total [OF assms(1), of 0 d] by (auto simp: fdt_next_node_def)
qed

definition node_succ :: "blob \<Rightarrow> int \<Rightarrow> int \<Rightarrow> bool" where
  "node_succ b off n \<longleftrightarrow> 0 \<le> n \<and> (\<exists>d d'. fdt_next_node b off d = Some (n, d'))"

interpretation nodes: offset_walk walkable node_succ
proof unfold_locales
  fix b off n
  assume a: "walkable b" "node_succ b off n" "off \<le> INT_MAX"
  then obtain d d' where t: "fdt_next_node b off d = Some (n, d')" "0 \<le> n"
    by (auto simp: node_succ_def)
  with fdt_next_node_total [OF a(1,3), of d]
  show "n \<le> INT_MAX \<and> (off < n \<or> (\<forall>m. \<not> node_succ b n m))" by auto
qed

lemma next_node_obtain:
  assumes "walkable b" "off \<le> INT_MAX"
  obtains n d' where "fdt_next_node b off d = Some (n, d')" "n \<le> INT_MAX" "n < 0 \<or> off < n"
  using fdt_next_node_total [OF assms] by blast

lemma fdt_next_node_depth:
  assumes "fdt_next_node b off (Some d) = Some (n, d')"
  shows "d' \<noteq> None"
proof -
  have loop: "d' \<noteq> None" if "fdt_next_node_loop b off (Some d) = Some (n, d')" for off d n d'
  proof -
    have "Some d = None \<or> snd (n, d') \<noteq> None"
      by (rule fdt_next_node_loop.raw_induct [where P = "\<lambda>b off d r. d = None \<or> snd r \<noteq> None", OF _ that])
        (fastforce simp: bind_eq_Some_conv split: if_splits option.splits)
    then show ?thesis by simp
  qed
  show ?thesis using assms loop by (auto simp: fdt_next_node_def bind_eq_Some_conv split: if_splits)
qed

lemma fdt_first_subnode_total:
  assumes "walkable b" "off \<le> INT_MAX"
  shows "\<exists>n. fdt_first_subnode b off = Some n \<and> n \<le> INT_MAX \<and> (n < 0 \<or> off < n)"
  using fdt_next_node_total [OF assms, of "Some 0"] by (auto simp: fdt_first_subnode_def)

lemma fdt_next_subnode_total:
  assumes "walkable b" "off \<le> INT_MAX"
  shows "\<exists>n. fdt_next_subnode b off = Some n \<and> n \<le> INT_MAX \<and> (n < 0 \<or> off < n)"
proof -
  have "\<exists>n. fdt_next_subnode_loop b off d = Some n \<and> n \<le> INT_MAX \<and> (n < 0 \<or> off < n)" for d
    using assms
  proof (induction arbitrary: d rule: nodes.walk_induct)
    case (walk off)
    obtain n d' where t: "fdt_next_node b off (Some d) = Some (n, d')" "n \<le> INT_MAX" "n < 0 \<or> off < n"
      using next_node_obtain assms(1) walk(1) by metis
    then obtain k where k: "d' = Some k" using fdt_next_node_depth by blast
    have "\<exists>m. fdt_next_subnode_loop b n k = Some m \<and> m \<le> INT_MAX \<and> (m < 0 \<or> n < m)" if "0 \<le> n"
      using walk(2) [of n k] t that by (auto simp: node_succ_def)
    then show ?case using t k by (subst fdt_next_subnode_loop.simps) fastforce
  qed
  then show ?thesis by (simp add: fdt_next_subnode_def)
qed
section \<open>The header check\<close>

lemma check_block_iff:
  assumes "0 \<le> base" "base < 4294967296" "0 \<le> sz" "sz < 4294967296" "t < 4294967296" "0 \<le> h"
  shows "check_block_i h t base sz \<longleftrightarrow> h \<le> base \<and> base + sz \<le> t"
  using assms u32_add [of base sz] by (auto simp: check_block_i_def check_off_i_def split: if_splits)

definition header_ok :: "blob \<Rightarrow> bool" where
  "header_ok b \<longleftrightarrow> (let h = fdt_header_size_i (hdr b H_version); t = hdr b H_totalsize in
     8 dvd blob_addr b \<and> hdr b H_magic = FDT_MAGIC \<and>
     2 \<le> hdr b H_version \<and> hdr b H_last_comp_version \<le> 17 \<and>
     hdr b H_last_comp_version \<le> hdr b H_version \<and>
     h \<le> t \<and> t \<le> INT_MAX \<and>
     h \<le> hdr b H_off_mem_rsvmap \<and> hdr b H_off_mem_rsvmap \<le> t \<and>
     h \<le> hdr b H_off_dt_struct \<and> hdr b H_off_dt_struct \<le> t \<and>
     (17 \<le> hdr b H_version \<longrightarrow> hdr b H_off_dt_struct + hdr b H_size_dt_struct \<le> t) \<and>
     h \<le> hdr b H_off_dt_strings \<and> hdr b H_off_dt_strings + hdr b H_size_dt_strings \<le> t)"

lemma and_7_eq_0: "(x :: int) AND 7 = 0 \<longleftrightarrow> 8 dvd x"
proof -
  have "(7 :: int) = mask 3" by (simp add: mask_eq_exp_minus_1)
  then have "x AND 7 = take_bit 3 x" by (simp add: take_bit_eq_mask)
  then show ?thesis by (simp add: take_bit_eq_mod dvd_eq_mod_eq_0)
qed

lemma fdt_header_size_range: "0 \<le> fdt_header_size_i v" "fdt_header_size_i v \<le> 40"
  by (auto simp: fdt_header_size_i_def)

lemma header_check_iff:
  assumes "40 \<le> blen b"
  shows "fdt_check_header b = Some 0 \<longleftrightarrow> header_ok b"
proof -
  let ?h = "fdt_header_size_i (hdr b H_version)" and ?t = "hdr b H_totalsize"
  have cb: "check_block_i ?h ?t (hdr b f) (hdr b g) \<longleftrightarrow> ?h \<le> hdr b f \<and> hdr b f + hdr b g \<le> ?t"
    for f g by (rule check_block_iff) (auto simp: fdt_header_size_range)
  have le: "hdr b f \<le> ?t" if "hdr b f + hdr b g \<le> ?t" for f g
    using that hdr_bounds(1) [of b g] by linarith
  show ?thesis
    using assms le [of H_off_dt_struct H_size_dt_struct]
    by (auto simp: fdt_check_header_def fdt_get_header_hdr fdt_header_size_def header_ok_def
        Let_def cb check_off_i_def and_7_eq_0 split: if_splits)
qed

lemma header_check_errors:
  assumes "40 \<le> blen b"
  shows "\<exists>r. fdt_check_header b = Some r \<and> r \<in> {0, - FDT_ERR_ALIGNMENT, - FDT_ERR_BADMAGIC, - FDT_ERR_BADVERSION, - FDT_ERR_TRUNCATED}"
  using assms by (simp add: fdt_check_header_def fdt_get_header_hdr fdt_header_size_def)

lemma fdt_next_tag_prop_wrap:
  assumes b: "backed b" "hdr b H_totalsize \<le> INT_MAX" "0x10 \<le> hdr b H_version" "0 \<le> off" "4 dvd off"
    and tag: "fdt32_ld b (hdr b H_off_dt_struct + off) = Some FDT_PROP"
    and len: "fdt32_ld b (hdr b H_off_dt_struct + off + 4) = Some 0xfffffff4"
    and room: "hdr b H_off_dt_struct + off + 8 \<le> hdr b H_totalsize"
      "0x11 \<le> hdr b H_version \<longrightarrow> off + 8 \<le> hdr b H_size_dt_struct"
  shows "fdt_next_tag b off = Some (FDT_PROP, off)"
proof -
  let ?s = "hdr b H_off_dt_struct"
  have s: "off + 8 \<le> INT_MAX" using room(1) b(2) hdr_bounds(1) [of b H_off_dt_struct] by linarith
  have p: "fdt_offset_ptr b off 4 = Some (Ptr (?s + off))"
    "fdt_offset_ptr b (off + 4) 4 = Some (Ptr (?s + off + 4))"
    "fdt_offset_ptr b off 0 = Some (Ptr (?s + off))"
    using fdt_offset_ptr_ok [OF b(1,2), of off 4] fdt_offset_ptr_ok [OF b(1,2), of "off + 4" 4]
      fdt_offset_ptr_ok [OF b(1,2), of off 0] b(4) room by (auto simp: add.assoc)
  have "s32 (off + 4) = off + 4" using s b(4) by (simp add: s32_id)
  moreover have "s32 (off + 4 + 8 + 0xfffffff4) = off"
    using s b(4) s32_wrap [of off] by (simp add: s32_id add.commute)
  ultimately have "tag_body b FDT_PROP (s32 (off + 4)) = Some (Some off)"
    using b(1,3) p len by (simp add: tag_body_def Let_def)
  moreover have "s32 off = off" using s b(4) by (simp add: s32_id)
  ultimately show ?thesis
    using p tag b(5) by (simp add: fdt_next_tag_def FDT_TAGALIGN_id u32_def)
qed

lemma fdt_next_node_loop_diverges:
  assumes "fdt_next_tag b off = Some (tag, off)" "tag = FDT_PROP \<or> tag = FDT_NOP"
  shows "fdt_next_node_loop b off d = None"
proof (rule ccontr)
  assume "fdt_next_node_loop b off d \<noteq> None"
  then obtain r where r: "fdt_next_node_loop b off d = Some r" by blast
  have "\<not> (b = b \<and> off = off \<and> d = d)"
    by (rule fdt_next_node_loop.raw_induct
        [where P = "\<lambda>b' off' d' r. \<not> (b' = b \<and> off' = off \<and> d' = d)", OF _ r])
      (use assms in \<open>fastforce split: if_splits\<close>)
  then show False by simp
qed

section \<open>Properties\<close>

text \<open>Two small blobs for evaluation: a root node with one cell property, and the same tree with
  a property length that wraps.\<close>

definition small_blob :: "int \<Rightarrow> blob" where
  "small_blob len = \<lparr>blob_addr = 0, blob_mem =
     concat (map bytes32 [0xd00dfeed, 92, 56, 88, 40, 17, 16, 0, 4, 32])
     @ replicate 16 0
     @ concat (map bytes32 [1, 0, 3, len, 0, 7, 2, 9]) @ cstr ''reg'' @ [0]\<rparr>"

lemma small_blob_evaluated:
  "40 \<le> blen (small_blob 4)" "backed (small_blob 4)" "hdr (small_blob 4) H_totalsize \<le> INT_MAX"
  "fdt_next_tag (small_blob 4) 8 = Some (FDT_PROP, 24)" "\<not> prop_wraps (small_blob 4) 8"
  "walkable (small_blob 4)" "header_ok (small_blob 4)"
  "fdt_offset_ptr (small_blob 4) 8 16 = Some (Ptr 64)"
  by code_simp+

text \<open>C20: \<open>fdt_check_header\<close> accepts a buffer exactly when the address is 8-byte aligned, the magic
  and the versions are right, the total size covers the header and fits an \<open>int\<close>, and
  every block (the structure block from version 17 on) lies between the header and the
  total size.\<close>

theorem fdt_check_header_accepts:
  assumes "40 \<le> blen b"
  shows "fdt_check_header b = Some 0 \<longleftrightarrow> header_ok b"
  using assms by (rule header_check_iff)

theorem fdt_check_header_accepts_witness:
  "40 \<le> blen (small_blob 4) \<and> header_ok (small_blob 4) \<and> fdt_check_header (small_blob 4) = Some 0"
  using fdt_check_header_accepts [of "small_blob 4"] small_blob_evaluated by simp

text \<open>A pointer that \<open>fdt_offset_ptr\<close> returns spans only bytes of the blob: within the total
  size, hence within the buffer, and within the structure block from version 17 on;
  no combination of offset, length and header fields makes the 32-bit sums wrap past
  the checks.\<close>

theorem fdt_offset_ptr_in_bounds:
  assumes "fdt_offset_ptr b off len = Some (Ptr p)" "backed b" "off \<le> INT_MAX"
    "0 \<le> len" "len \<le> UINT32_MAX"
  shows "0 \<le> off \<and> p = hdr b H_off_dt_struct + off \<and> p + len \<le> hdr b H_totalsize \<and>
    p + len \<le> blen b \<and> (17 \<le> hdr b H_version \<longrightarrow> off + len \<le> hdr b H_size_dt_struct)"
  using fdt_offset_ptr_PtrD [OF assms(1-4)] assms(5) by auto

theorem fdt_offset_ptr_in_bounds_witness:
  "(64::int) + 16 \<le> blen (small_blob 4)"
  using fdt_offset_ptr_in_bounds [of "small_blob 4" 8 16 64] small_blob_evaluated by simp

text \<open>C24: \<open>fdt_next_tag\<close> is memory safe and returns, on every buffer that holds a header and the
  bytes the header claims, whatever the bytes are and whatever offset is asked for.\<close>

theorem fdt_next_tag_safe:
  assumes "backed b" "off \<le> INT_MAX"
  shows "\<exists>tag nextoffset. fdt_next_tag b off = Some (tag, nextoffset)"
  using fdt_next_tag_total [OF assms] by auto

theorem fdt_next_tag_safe_witness:
  "\<exists>tag nextoffset. fdt_next_tag (small_blob 0xfffffff4) 8 = Some (tag, nextoffset)"
proof -
  have "backed (small_blob 0xfffffff4)" by code_simp
  then show ?thesis using fdt_next_tag_safe [of "small_blob 0xfffffff4" 8] by simp
qed

text \<open>C25: The next offset of \<open>fdt_next_tag\<close> is an error or lies behind the current one, unless the
  item is a property whose length is within 16 of \<open>2 ^ 32\<close>.\<close>

theorem fdt_next_tag_advances:
  assumes "backed b" "hdr b H_totalsize \<le> INT_MAX" "off \<le> INT_MAX"
    and "fdt_next_tag b off = Some (tag, nextoffset)" "\<not> prop_wraps b off"
  shows "nextoffset < 0 \<or> off < nextoffset"
  using assms by (rule fdt_next_tag_progress)

theorem fdt_next_tag_advances_witness:
  "fdt_next_tag (small_blob 4) 8 = Some (FDT_PROP, 24) \<and> ((24::int) < 0 \<or> (8::int) < 24)"
  using fdt_next_tag_advances [of "small_blob 4" 8 FDT_PROP 24] small_blob_evaluated by simp

text \<open>C26: A property length of \<open>0xfffffff4\<close> in a blob that every header check accepts makes
  \<open>fdt_next_tag\<close> return the offset it started from, and the loop of \<open>fdt_next_node\<close>
  does not return.\<close>

theorem fdt_next_tag_wrapping_length_loops:
  assumes "backed b" "hdr b H_totalsize \<le> INT_MAX" "16 \<le> hdr b H_version" "0 \<le> off" "4 dvd off"
    and "fdt32_ld b (hdr b H_off_dt_struct + off) = Some FDT_PROP"
    and "fdt32_ld b (hdr b H_off_dt_struct + off + 4) = Some 0xfffffff4"
    and "hdr b H_off_dt_struct + off + 8 \<le> hdr b H_totalsize"
      "17 \<le> hdr b H_version \<longrightarrow> off + 8 \<le> hdr b H_size_dt_struct"
  shows "fdt_next_tag b off = Some (FDT_PROP, off) \<and> fdt_next_node_loop b off depth = None"
  using fdt_next_tag_prop_wrap [OF assms] fdt_next_node_loop_diverges by blast

theorem fdt_next_tag_wrapping_length_loops_witness:
  "fdt_check_header (small_blob 0xfffffff4) = Some 0 \<and>
   fdt_next_node_loop (small_blob 0xfffffff4) 8 None = None"
proof
  show "fdt_check_header (small_blob 0xfffffff4) = Some 0" by code_simp
  have "backed (small_blob 0xfffffff4)" "hdr (small_blob 0xfffffff4) H_totalsize \<le> INT_MAX"
    "16 \<le> hdr (small_blob 0xfffffff4) H_version"
    "fdt32_ld (small_blob 0xfffffff4) (hdr (small_blob 0xfffffff4) H_off_dt_struct + 8) = Some FDT_PROP"
    "fdt32_ld (small_blob 0xfffffff4) (hdr (small_blob 0xfffffff4) H_off_dt_struct + 8 + 4) = Some 0xfffffff4"
    "hdr (small_blob 0xfffffff4) H_off_dt_struct + 8 + 8 \<le> hdr (small_blob 0xfffffff4) H_totalsize"
    "17 \<le> hdr (small_blob 0xfffffff4) H_version \<longrightarrow> 8 + 8 \<le> hdr (small_blob 0xfffffff4) H_size_dt_struct"
    by code_simp+
  then show "fdt_next_node_loop (small_blob 0xfffffff4) 8 None = None"
    using fdt_next_tag_wrapping_length_loops [of "small_blob 0xfffffff4" 8 None] by simp
qed

text \<open>C27: On a blob without such a length \<open>fdt_next_node\<close> is memory safe and returns, with or without
  a depth pointer, and the offset it returns is an error or lies behind the one it was
  given; so every loop over the nodes ends.\<close>

theorem fdt_next_node_terminates:
  assumes "walkable b" "off \<le> INT_MAX"
  shows "\<exists>n depth'. fdt_next_node b off depth = Some (n, depth') \<and> (n < 0 \<or> off < n)"
  using fdt_next_node_total [OF assms, of depth] by auto

theorem fdt_next_node_terminates_witness:
  "\<exists>n depth'. fdt_next_node (small_blob 4) (- 1) (Some 0) = Some (n, depth') \<and> (n < 0 \<or> - 1 < n)"
  using fdt_next_node_terminates [of "small_blob 4" "- 1" "Some 0"] small_blob_evaluated by simp

text \<open>C28: \<open>fdt_first_subnode\<close> and \<open>fdt_next_subnode\<close> are memory safe and return on such a blob, so
  that \<open>fdt_for_each_subnode\<close> visits offsets in increasing order and ends.\<close>

theorem fdt_subnode_iteration_terminates:
  assumes "walkable b" "off \<le> INT_MAX"
  shows "(\<exists>n. fdt_first_subnode b off = Some n \<and> (n < 0 \<or> off < n)) \<and>
         (\<exists>n. fdt_next_subnode b off = Some n \<and> (n < 0 \<or> off < n))"
  using fdt_first_subnode_total [OF assms] fdt_next_subnode_total [OF assms] by blast

theorem fdt_subnode_iteration_terminates_witness:
  "\<exists>n. fdt_first_subnode (small_blob 4) 0 = Some n \<and> (n < 0 \<or> 0 < n)"
  using fdt_subnode_iteration_terminates [of "small_blob 4" 0] small_blob_evaluated by simp

end
