(* ===== verification/Fdt_Tokens.thy ===== *)
theory Fdt_Tokens
  imports Fdt_Core
begin

text \<open>
  The structure block as a sequence of tokens: what a token looks like in memory, and that
  \<open>fdt_next_tag\<close> steps from a token to the next one. The components that build, check
  and search blobs are specified over token sequences.
\<close>

section \<open>Tokens\<close>

datatype tok = TBegin cstring | TEnd | TProp int "u8 list" | TNop | TFinish

fun tok_tag :: "tok \<Rightarrow> int" where
  "tok_tag (TBegin n) = FDT_BEGIN_NODE"
| "tok_tag TEnd = FDT_END_NODE"
| "tok_tag (TProp no v) = FDT_PROP"
| "tok_tag TNop = FDT_NOP"
| "tok_tag TFinish = FDT_END"

fun tok_size :: "tok \<Rightarrow> int" where
  "tok_size (TBegin n) = 4 + FDT_TAGALIGN (cstrlen n + 1)"
| "tok_size (TProp no v) = 12 + FDT_TAGALIGN (int (length v))"
| "tok_size t = 4"

text \<open>\<open>tok_at b p t\<close>: the memory at \<open>p\<close> holds the token. The padding behind a name or a value is
  arbitrary.\<close>

fun tok_at :: "blob \<Rightarrow> int \<Rightarrow> tok \<Rightarrow> bool" where
  "tok_at b p (TBegin n) \<longleftrightarrow> fdt32_ld b p = Some FDT_BEGIN_NODE \<and> 0 \<notin> set n \<and>
     rd b (p + 4) (cstrlen n + 1) = Some (n @ [0])"
| "tok_at b p (TProp no v) \<longleftrightarrow> fdt32_ld b p = Some FDT_PROP \<and>
     fdt32_ld b (p + 4) = Some (int (length v)) \<and> fdt32_ld b (p + 8) = Some no \<and>
     rd b (p + 12) (int (length v)) = Some v"
| "tok_at b p t \<longleftrightarrow> fdt32_ld b p = Some (tok_tag t)"

fun toks_at :: "blob \<Rightarrow> int \<Rightarrow> tok list \<Rightarrow> bool" where
  "toks_at b p [] \<longleftrightarrow> True"
| "toks_at b p (t # ts) \<longleftrightarrow> tok_at b p t \<and> toks_at b (p + tok_size t) ts"

fun toks_size :: "tok list \<Rightarrow> int" where
  "toks_size [] = 0"
| "toks_size (t # ts) = tok_size t + toks_size ts"

lemma TAGALIGN_length: "int (length v) \<le> FDT_TAGALIGN (int (length v))"
    "0 \<le> FDT_TAGALIGN (int (length v))" "cstrlen n + 1 \<le> FDT_TAGALIGN (cstrlen n + 1)"
    "4 \<le> FDT_TAGALIGN (cstrlen n + 1)"
proof -
  show a: "int (length v) \<le> FDT_TAGALIGN (int (length v))"
    "cstrlen n + 1 \<le> FDT_TAGALIGN (cstrlen n + 1)" by (rule FDT_TAGALIGN_bounds(1))+
  then show "0 \<le> FDT_TAGALIGN (int (length v))" by linarith
  have "4 dvd FDT_TAGALIGN (cstrlen n + 1)" by (rule FDT_TAGALIGN_bounds(3))
  moreover have "0 < FDT_TAGALIGN (cstrlen n + 1)" using a(2) by linarith
  ultimately show "4 \<le> FDT_TAGALIGN (cstrlen n + 1)" by (rule zdvd_imp_le)
qed

lemma tok_size_ge: "4 \<le> tok_size t" "4 dvd tok_size t"
proof -
  have "4 \<le> tok_size t \<and> 4 dvd tok_size t"
  proof (cases t)
    case (TBegin n)
    then show ?thesis using TAGALIGN_length(4) [of n] FDT_TAGALIGN_bounds(3) [of "cstrlen n + 1"] by simp
  next
    case (TProp no v)
    then show ?thesis
      using TAGALIGN_length(2) [of v] FDT_TAGALIGN_bounds(3) [of "int (length v)"] by simp
  qed simp_all
  then show "4 \<le> tok_size t" "4 dvd tok_size t" by simp_all
qed

lemma toks_size_append [simp]: "toks_size (ts @ us) = toks_size ts + toks_size us"
  by (induction ts) auto

lemma toks_size_nonneg: "0 \<le> toks_size ts" "4 dvd toks_size ts"
  using tok_size_ge by (induction ts) (auto simp: add_nonneg_nonneg order_trans [of 0 4])

lemma toks_at_append [simp]:
  "toks_at b p (ts @ us) \<longleftrightarrow> toks_at b p ts \<and> toks_at b (p + toks_size ts) us"
  by (induction ts arbitrary: p) (auto simp: add.assoc)

text \<open>A token depends only on the bytes it covers.\<close>

lemma tok_at_cong:
  assumes "blen b' = blen b" "\<And>q. p \<le> q \<Longrightarrow> q < p + tok_size t \<Longrightarrow> ld8 b' q = ld8 b q"
  shows "tok_at b' p t = tok_at b p t"
proof -
  have l: "fdt32_ld b' (p + i) = fdt32_ld b (p + i)" if "0 \<le> i" "i + 4 \<le> tok_size t" for i
    using that assms(2) by (intro ld32_cong) auto
  have r: "rd b' (p + i) n = rd b (p + i) n" if "0 \<le> i" "i + n \<le> tok_size t" for i n
    using that assms by (intro rd_cong) auto
  have l0: "fdt32_ld b' p = fdt32_ld b p" using l [of 0] tok_size_ge(1) [of t] by simp
  show ?thesis
  proof (cases t)
    case (TBegin n)
    then show ?thesis using l0 r [of 4 "cstrlen n + 1"] TAGALIGN_length(3) [of n] by simp
  next
    case (TProp no v)
    then show ?thesis
      using l0 l [of 4] l [of 8] r [of 12 "int (length v)"] TAGALIGN_length(1,2) [of v] by simp
  qed (use l0 in simp_all)
qed

lemma toks_at_cong:
  assumes "blen b' = blen b" "\<And>q. p \<le> q \<Longrightarrow> q < p + toks_size ts \<Longrightarrow> ld8 b' q = ld8 b q"
  shows "toks_at b' p ts = toks_at b p ts"
  using assms(2)
proof (induction ts arbitrary: p)
  case (Cons t ts)
  have "tok_at b' p t = tok_at b p t"
    using Cons.prems toks_size_nonneg(1) [of ts] by (intro tok_at_cong assms(1)) auto
  moreover have "toks_at b' (p + tok_size t) ts = toks_at b (p + tok_size t) ts"
    using Cons.prems tok_size_ge(1) [of t] by (intro Cons.IH) auto
  ultimately show ?case by simp
qed simp

section \<open>The iterator on tokens\<close>

text \<open>A blob whose structure block can be read token by token.\<close>

definition readable :: "blob \<Rightarrow> bool" where
  "readable b \<longleftrightarrow> backed b \<and> hdr b H_totalsize \<le> INT_MAX \<and> 16 \<le> hdr b H_version"

definition room :: "blob \<Rightarrow> int \<Rightarrow> int \<Rightarrow> bool" where
  "room b off n \<longleftrightarrow> hdr b H_off_dt_struct + off + n \<le> hdr b H_totalsize \<and>
     (17 \<le> hdr b H_version \<longrightarrow> off + n \<le> hdr b H_size_dt_struct)"

lemma readableD: "readable b \<Longrightarrow> backed b" "readable b \<Longrightarrow> hdr b H_totalsize \<le> INT_MAX"
    "readable b \<Longrightarrow> 16 \<le> hdr b H_version"
  by (simp_all add: readable_def)

lemma room_mono: "room b off n \<Longrightarrow> off' + m \<le> off + n \<Longrightarrow> room b off' m"
  by (auto simp: room_def)

lemma room_bound:
  assumes "readable b" "room b off n"
  shows "off + n \<le> INT_MAX" "hdr b H_off_dt_struct + off + n \<le> INT_MAX"
  using assms hdr_bounds(1) [of b H_off_dt_struct] unfolding readable_def room_def by linarith+

lemma offset_ptr_room:
  assumes "readable b" "0 \<le> off" "0 \<le> n" "room b off n"
  shows "fdt_offset_ptr b off n = Some (Ptr (hdr b H_off_dt_struct + off))"
  using assms by (intro fdt_offset_ptr_ok) (auto simp: readable_def room_def)

lemma skip_name_string:
  assumes "readable b" "0 \<le> off" "0 \<notin> set n" "room b off (cstrlen n + 1)"
    and "rd b (hdr b H_off_dt_struct + off) (cstrlen n + 1) = Some (n @ [0])"
  shows "skip_name b off = Some (Ptr (hdr b H_off_dt_struct + off + cstrlen n), off + cstrlen n + 1)"
  using assms(2-)
proof (induction n arbitrary: off)
  case Nil
  let ?p = "hdr b H_off_dt_struct + off"
  have "fdt_offset_ptr b off 1 = Some (Ptr ?p)" using Nil assms(1) by (intro offset_ptr_room) auto
  moreover have "ld8 b ?p = Some 0" using Nil(4) by (simp add: rd_eq_iff)
  moreover have "s32 (off + 1) = off + 1"
    using room_bound [OF assms(1) Nil(3)] Nil(1) by (intro s32_id) auto
  ultimately show ?case by (subst skip_name.simps) simp
next
  case (Cons c n)
  let ?p = "hdr b H_off_dt_struct + off"
  note rm = Cons.prems(3)
  have "fdt_offset_ptr b off 1 = Some (Ptr ?p)"
    using Cons.prems assms(1) by (intro offset_ptr_room room_mono [OF rm]) auto
  moreover have r: "\<And>i. i < length n + 2 \<Longrightarrow> ld8 b (?p + int i) = Some ((c # n @ [0]) ! i)"
    "0 \<le> ?p" "?p + cstrlen (c # n) + 1 \<le> blen b"
    using Cons.prems(4) by (auto simp: rd_eq_iff)
  have "ld8 b ?p = Some c" using r(1) [of 0] by simp
  moreover have "s32 (off + 1) = off + 1"
    using room_bound [OF assms(1) rm] Cons.prems(1) by (intro s32_id) auto
  moreover have "rd b (hdr b H_off_dt_struct + (off + 1)) (cstrlen n + 1) = Some (n @ [0])"
    unfolding rd_eq_iff
  proof (intro conjI allI impI)
    fix i assume "i < length (n @ [0])"
    then show "ld8 b (hdr b H_off_dt_struct + (off + 1) + int i) = Some ((n @ [0]) ! i)"
      using r(1) [of "Suc i"] by (simp add: add.assoc add.left_commute)
  qed (use r in auto)
  then have "skip_name b (off + 1) =
      Some (Ptr (hdr b H_off_dt_struct + (off + 1) + cstrlen n), off + 1 + cstrlen n + 1)"
    using Cons.prems by (intro Cons.IH room_mono [OF rm]) auto
  ultimately show ?case using Cons.prems(2) by (subst skip_name.simps) (auto simp: add.assoc)
qed

lemma next_tag_tok:
  assumes b: "readable b" "0 \<le> off" "4 dvd off" "room b off (tok_size t)"
    and t: "tok_at b (hdr b H_off_dt_struct + off) t"
  shows "fdt_next_tag b off = Some (tok_tag t, off + tok_size t)"
proof -
  let ?s = "hdr b H_off_dt_struct"
  have p4: "fdt_offset_ptr b off 4 = Some (Ptr (?s + off))"
    using b tok_size_ge [of t] by (intro offset_ptr_room room_mono [OF b(4)]) auto
  have tag: "fdt32_ld b (?s + off) = Some (tok_tag t)" using t by (cases t) auto
  have o4: "s32 (off + 4) = off + 4"
    using room_bound [OF b(1,4)] tok_size_ge(1) [of t] b(2) by (intro s32_id) linarith+
  obtain e where e: "tag_body b (tok_tag t) (off + 4) = Some (Some e)" "off \<le> e" "e \<le> off + tok_size t"
    "FDT_TAGALIGN e = off + tok_size t"
  proof (cases t)
    case (TBegin n)
    have al: "FDT_TAGALIGN (cstrlen n + 1) = tok_size t - 4" using TBegin by simp
    have "skip_name b (off + 4) = Some (Ptr (?s + (off + 4) + cstrlen n), off + 4 + cstrlen n + 1)"
      using t TBegin b(2) TAGALIGN_length(3) [of n]
      by (intro skip_name_string [OF b(1)] room_mono [OF b(4)]) (auto simp: add.assoc)
    then show ?thesis
      using that [of "off + 4 + cstrlen n + 1"] TBegin b(3) TAGALIGN_length(3) [of n]
        FDT_TAGALIGN_add [of "off + 4" "cstrlen n + 1"]
      by (simp add: tag_body_def add.assoc)
  next
    case (TProp no v)
    let ?l = "int (length v)"
    have al: "?l \<le> FDT_TAGALIGN ?l" using FDT_TAGALIGN_bounds(1) .
    have "fdt_offset_ptr b (off + 4) 4 = Some (Ptr (?s + (off + 4)))"
      using b TProp al by (intro offset_ptr_room room_mono [OF b(4)]) auto
    moreover have "fdt32_ld b (?s + (off + 4)) = Some ?l" using t TProp by (simp add: add.assoc)
    moreover have "off + 4 + 8 + ?l \<le> INT_MAX"
      using room_bound(1) [OF b(1,4)] TProp al by simp
    then have "s32 (off + 4 + 8 + ?l) = off + 4 + 8 + ?l" using b(2) by (intro s32_id) auto
    moreover have "\<not> hdr b H_version < 16" using b(1) by (simp add: readable_def)
    ultimately show ?thesis
      using that [of "off + 12 + ?l"] TProp b(1,3) al FDT_TAGALIGN_add [of "off + 12" ?l]
      by (simp add: tag_body_def Let_def readableD(1) add.assoc)
  next
    case TEnd
    then show ?thesis using that [of "off + 4"] b(3) by (simp add: tag_body_def FDT_TAGALIGN_id)
  next
    case TNop
    then show ?thesis using that [of "off + 4"] b(3) by (simp add: tag_body_def FDT_TAGALIGN_id)
  next
    case TFinish
    then show ?thesis using that [of "off + 4"] b(3) by (simp add: tag_body_def FDT_TAGALIGN_id)
  qed
  have u: "u32 (e - off) = e - off" using e room_bound(1) [OF b(1,4)] b(2) by (intro u32_id) auto
  have "fdt_offset_ptr b off (e - off) = Some (Ptr (?s + off))"
    using b e by (intro offset_ptr_room room_mono [OF b(4)]) auto
  moreover have "s32 (off + tok_size t) = off + tok_size t"
    using room_bound(1) [OF b(1,4)] b(2) tok_size_ge(1) [of t] by (intro s32_id) linarith+
  ultimately show ?thesis
    using p4 tag o4 e u by (simp add: fdt_next_tag_def)
qed

section \<open>Items and the reserve map\<close>

lemma same_but_toks:
  "same_but b b' lo hi \<Longrightarrow> p + toks_size ts \<le> lo \<or> hi \<le> p \<Longrightarrow> toks_at b' p ts = toks_at b p ts"
  by (intro toks_at_cong) (auto simp: same_but_def)

text \<open>What a structure block says, with the names of properties spelled out.\<close>

datatype item = Begin cstring | End | Prop cstring "u8 list"

definition named :: "blob \<Rightarrow> int \<Rightarrow> cstring \<Rightarrow> bool" where
  "named b no nm \<longleftrightarrow> 0 \<le> no \<and> no + cstrlen nm + 1 \<le> hdr b H_size_dt_strings \<and> 0 \<notin> set nm \<and>
     rd b (hdr b H_off_dt_strings + no) (cstrlen nm + 1) = Some (nm @ [0])"

fun denotes :: "blob \<Rightarrow> tok \<Rightarrow> item \<Rightarrow> bool" where
  "denotes b (TBegin n) (Begin m) \<longleftrightarrow> n = m"
| "denotes b TEnd End \<longleftrightarrow> True"
| "denotes b (TProp no v) (Prop nm w) \<longleftrightarrow> v = w \<and> named b no nm"
| "denotes b t i \<longleftrightarrow> False"

text \<open>\<open>struct_items b ts its\<close>: the structure block of a finished blob consists of the tokens \<open>ts\<close> and
  the end tag, and they stand for the items.\<close>

definition struct_items :: "blob \<Rightarrow> tok list \<Rightarrow> item list \<Rightarrow> bool" where
  "struct_items b ts its \<longleftrightarrow> readable b \<and> 40 \<le> hdr b H_off_dt_struct \<and>
     toks_at b (hdr b H_off_dt_struct) (ts @ [TFinish]) \<and>
     hdr b H_size_dt_struct = toks_size ts + 4 \<and>
     hdr b H_off_dt_struct + hdr b H_size_dt_struct \<le> hdr b H_totalsize \<and>
     hdr b H_off_dt_strings + hdr b H_size_dt_strings \<le> hdr b H_totalsize \<and>
     list_all2 (denotes b) (filter (\<lambda>t. t \<noteq> TNop) ts) its"

text \<open>The reserve map at \<open>p\<close>: entries of an address and a size.\<close>

fun rsv_at :: "blob \<Rightarrow> int \<Rightarrow> (int \<times> int) list \<Rightarrow> bool" where
  "rsv_at b p [] \<longleftrightarrow> True"
| "rsv_at b p ((a, z) # es) \<longleftrightarrow>
     fdt64_ld b p = Some a \<and> fdt64_ld b (p + 8) = Some z \<and> rsv_at b (p + 16) es"

lemma rsv_at_append [simp]:
  "rsv_at b p (es @ fs) \<longleftrightarrow> rsv_at b p es \<and> rsv_at b (p + 16 * int (length es)) fs"
  by (induction es arbitrary: p) (auto simp: algebra_simps)

lemma rsv_at_cong:
  "(\<And>q. p \<le> q \<Longrightarrow> q < p + 16 * int (length es) \<Longrightarrow> ld8 b' q = ld8 b q) \<Longrightarrow>
     rsv_at b' p es = rsv_at b p es"
proof (induction es arbitrary: p)
  case (Cons e es)
  obtain a z where e: "e = (a, z)" by (cases e)
  have "fdt64_ld b' p = fdt64_ld b p" "fdt64_ld b' (p + 8) = fdt64_ld b (p + 8)"
    using Cons.prems by (auto intro!: ld64_cong)
  moreover have "rsv_at b' (p + 16) es = rsv_at b (p + 16) es" using Cons.prems by (intro Cons.IH) auto
  ultimately show ?case by (simp add: e)
qed simp

lemma same_but_rsv:
  "same_but b b' lo hi \<Longrightarrow> p + 16 * int (length es) \<le> lo \<or> hi \<le> p \<Longrightarrow> rsv_at b' p es = rsv_at b p es"
  by (intro rsv_at_cong) (auto simp: same_but_def)

lemma readable_same:
  assumes "same_but b b' lo hi" "40 \<le> lo"
  shows "readable b' = readable b" "room b' off n = room b off n"
  using same_but_hdr [OF assms] same_butD(1) [OF assms(1)]
  by (simp_all add: readable_def room_def backed_def)

section \<open>Tokens of a blob\<close>

text \<open>\<open>tok_in b off t\<close>: the structure block has the token at this offset.\<close>

definition tok_in :: "blob \<Rightarrow> int \<Rightarrow> tok \<Rightarrow> bool" where
  "tok_in b off t \<longleftrightarrow> 0 \<le> off \<and> 4 dvd off \<and> room b off (tok_size t) \<and>
     tok_at b (hdr b H_off_dt_struct + off) t"

text \<open>The tokens from an offset on.\<close>

fun toks_in :: "blob \<Rightarrow> int \<Rightarrow> tok list \<Rightarrow> bool" where
  "toks_in b off [] \<longleftrightarrow> True"
| "toks_in b off (t # ts) \<longleftrightarrow> tok_in b off t \<and> toks_in b (off + tok_size t) ts"

lemma toks_in_append [simp]:
  "toks_in b off (ts @ us) \<longleftrightarrow> toks_in b off ts \<and> toks_in b (off + toks_size ts) us"
  by (induction ts arbitrary: off) (auto simp: add.assoc)

lemma toks_inI:
  assumes "toks_at b (hdr b H_off_dt_struct + off) ts" "room b off (toks_size ts)" "0 \<le> off" "4 dvd off"
  shows "toks_in b off ts"
  using assms
proof (induction ts arbitrary: off)
  case (Cons t ts)
  have "room b off (tok_size t)" "room b (off + tok_size t) (toks_size ts)"
    using Cons.prems(2) toks_size_nonneg(1) [of ts] by (auto elim: room_mono)
  then show ?case
    using Cons tok_size_ge [of t] by (auto simp: tok_in_def add.assoc)
qed simp

lemma struct_items_toks_in:
  assumes "struct_items b ts its"
  shows "toks_in b 0 (ts @ [TFinish])"
proof -
  have "room b 0 (toks_size (ts @ [TFinish]))"
    using assms by (auto simp: struct_items_def room_def)
  then show ?thesis using assms by (intro toks_inI) (auto simp: struct_items_def)
qed

lemma next_tag_in: "readable b \<Longrightarrow> tok_in b off t \<Longrightarrow> fdt_next_tag b off = Some (tok_tag t, off + tok_size t)"
  by (simp add: tok_in_def next_tag_tok)

lemma tok_in_bounds:
  assumes "readable b" "tok_in b off t"
  shows "0 \<le> off" "off < INT_MAX" "off + tok_size t \<le> INT_MAX" "u64 off mod 4 = 0"
proof -
  show b: "0 \<le> off" "off < INT_MAX" "off + tok_size t \<le> INT_MAX"
    using assms room_bound [OF assms(1), of off "tok_size t"] tok_size_ge(1) [of t] by (auto simp: tok_in_def)
  then show "u64 off mod 4 = 0" using assms(2) by (simp add: tok_in_def u64_id dvd_eq_mod_eq_0)
qed

lemma check_node_offset_in:
  "readable b \<Longrightarrow> tok_in b off (TBegin n) \<Longrightarrow>
   fdt_check_node_offset_i b off = Some (off + tok_size (TBegin n))"
  using tok_in_bounds [of b off "TBegin n"] next_tag_in [of b off "TBegin n"]
  by (simp add: fdt_check_node_offset_i_def)

lemma check_prop_offset_in:
  "readable b \<Longrightarrow> tok_in b off (TProp no v) \<Longrightarrow>
   fdt_check_prop_offset_i b off = Some (off + tok_size (TProp no v))"
  using tok_in_bounds [of b off "TProp no v"] next_tag_in [of b off "TProp no v"]
  by (simp add: fdt_check_prop_offset_i_def)

lemma struct_items_tok:
  assumes "struct_items b ts its" "t \<in> set ts" "t \<noteq> TNop"
  shows "\<exists>i. denotes b t i"
proof -
  have "t \<in> set (filter (\<lambda>t. t \<noteq> TNop) ts)" using assms(2,3) by simp
  moreover have "list_all2 (denotes b) (filter (\<lambda>t. t \<noteq> TNop) ts) its"
    using assms(1) by (simp add: struct_items_def)
  ultimately show ?thesis using list_all2_member by fast
qed

lemma denotes_no_finish: "struct_items b ts its \<Longrightarrow> TFinish \<notin> set ts"
  using struct_items_tok [of b ts its TFinish] by auto

lemma denotes_prop: "denotes b (TProp no v) i \<Longrightarrow> \<exists>nm. named b no nm"
  by (cases i) auto

lemma denotes_named: "struct_items b ts its \<Longrightarrow> TProp no v \<in> set ts \<Longrightarrow> \<exists>nm. named b no nm"
  using struct_items_tok [of b ts its "TProp no v"] denotes_prop by blast

fun item_size :: "item \<Rightarrow> int" where
  "item_size (Begin n) = 4 + FDT_TAGALIGN (cstrlen n + 1)"
| "item_size End = 4"
| "item_size (Prop n v) = 12 + FDT_TAGALIGN (int (length v))"

definition items_size :: "item list \<Rightarrow> int" where
  "items_size is = sum_list (map item_size is)"

lemma items_size_simps [simp]: "items_size [] = 0" "items_size (i # is) = item_size i + items_size is"
    "items_size (is @ js) = items_size is + items_size js"
  by (simp_all add: items_size_def)

lemma denotes_tagD: "denotes b t (Begin n) \<Longrightarrow> t = TBegin n" "denotes b t End \<Longrightarrow> t = TEnd"
  by (cases t; simp)+

lemma denotes_size: "denotes b t i \<Longrightarrow> tok_size t = item_size i"
  by (cases t; cases i) auto

lemma denotes_items_size: "list_all2 (denotes b) ts is \<Longrightarrow> toks_size ts = items_size is"
  by (induction ts "is" rule: list_all2_induct) (auto simp: denotes_size)

section \<open>Trees\<close>

text \<open>A device tree as the format means it: a node has properties and subnodes.\<close>

datatype entry = EProp cstring "u8 list" | ENode cstring "entry list"

fun flat :: "entry \<Rightarrow> item list" where
  "flat (EProp n v) = [Prop n v]"
| "flat (ENode n es) = Begin n # concat (map flat es) @ [End]"

abbreviation flats :: "entry list \<Rightarrow> item list" where
  "flats es \<equiv> concat (map flat es)"

fun is_prop :: "item \<Rightarrow> bool" where
  "is_prop (Prop n v) \<longleftrightarrow> True"
| "is_prop i \<longleftrightarrow> False"

end
