(* ===== verification/Fdt_Ro.thy ===== *)
theory Fdt_Ro
  imports Fdt_Tokens
begin

text \<open>
  The read-only functions of libfdt, \<open>fdt_ro.c\<close>, in the order their calls need. A function
  that returns a pointer and sets \<open>*lenp\<close> returns the pair; a caller that passes \<open>NULL\<close> for
  \<open>lenp\<close> ignores the second component. A name given with an explicit length is the list
  of the bytes its pointer can reach, together with the length.
\<close>

section \<open>Node names\<close>

text \<open>\<open>strrchr (p, c)\<close> in the buffer.\<close>

definition strrchr :: "blob \<Rightarrow> int \<Rightarrow> u8 \<Rightarrow> ptr option" where
  "strrchr b p c = do {
     n \<leftarrow> strlen b p;
     s \<leftarrow> rd b p n;
     Some (case find_byte c (rev s) of None \<Rightarrow> NULL | Some i \<Rightarrow> Ptr (p + n - 1 - int i)) }"

definition fdt_get_name :: "blob \<Rightarrow> int \<Rightarrow> (ptr \<times> int) option" where
  "fdt_get_name fdt nodeoffset = do {
     nh \<leftarrow> fdt_offset_ptr_i fdt nodeoffset;
     probe \<leftarrow> fdt_ro_probe_i fdt;
     if probe < 0 then Some (NULL, probe)
     else do {
       err \<leftarrow> fdt_check_node_offset_i fdt nodeoffset;
       if err < 0 then Some (NULL, err)
       else do {
         let nameptr = nh + 4;
         version \<leftarrow> fdt_version fdt;
         if \<not> can_assume LATEST \<and> version < 0x10 then do {
           leaf \<leftarrow> strrchr fdt nameptr (chr (CHR ''/''));
           (case leaf of
              NULL \<Rightarrow> Some (NULL, - FDT_ERR_BADSTRUCTURE)
            | Ptr l \<Rightarrow> do { n \<leftarrow> strlen fdt (l + 1); Some (Ptr (l + 1), s32 n) }) }
         else do { n \<leftarrow> strlen fdt nameptr; Some (Ptr nameptr, s32 n) } } } }"

definition fdt_nodename_eq_i :: "blob \<Rightarrow> int \<Rightarrow> u8 list \<Rightarrow> int \<Rightarrow> bool option" where
  "fdt_nodename_eq_i fdt offset s len = do {
     (p, olen) \<leftarrow> fdt_get_name fdt offset;
     (case p of
        NULL \<Rightarrow> Some False
      | Ptr a \<Rightarrow>
          if olen < len then Some False
          else do {
            eq \<leftarrow> memcmp_eq fdt a s len;
            if \<not> eq then Some False
            else do {
              c \<leftarrow> ld8 fdt (a + len);
              if c = 0 then Some True
              else if chr (CHR ''@'') \<notin> set (take (nat len) s) \<and> c = chr (CHR ''@'')
              then Some True
              else Some False } }) }"

section \<open>Strings\<close>

definition fdt_get_string :: "blob \<Rightarrow> int \<Rightarrow> (ptr \<times> int) option" where
  "fdt_get_string fdt stroffset = do {
     off_dt_strings \<leftarrow> fdt_off_dt_strings fdt;
     if can_assume VALID_INPUT then do {
       n \<leftarrow> strlen fdt (off_dt_strings + stroffset);
       Some (Ptr (off_dt_strings + stroffset), s32 n) }
     else do {
       totalsize \<leftarrow> fdt_ro_probe_i fdt;
       if totalsize < 0 then Some (NULL, totalsize)
       else do {
         let absoffset = u32 (stroffset + off_dt_strings);
         if absoffset \<ge> u32 totalsize then Some (NULL, - FDT_ERR_BADOFFSET)
         else do {
           let len = u32 (totalsize - absoffset);
           magic \<leftarrow> fdt_magic fdt;
           limit \<leftarrow>
             (if magic = FDT_MAGIC then
                if stroffset < 0 then Some (Inl (- FDT_ERR_BADOFFSET))
                else do {
                  version \<leftarrow> fdt_version fdt;
                  if can_assume LATEST \<or> version \<ge> 17 then do {
                    size_dt_strings \<leftarrow> fdt_size_dt_strings fdt;
                    Some (if u32 stroffset \<ge> size_dt_strings then Inl (- FDT_ERR_BADOFFSET)
                          else if u32 (size_dt_strings - stroffset) < len
                          then Inr (u32 (size_dt_strings - stroffset))
                          else Inr len) }
                  else Some (Inr len) }
              else if magic = FDT_SW_MAGIC then do {
                let sw_stroffset = u32 (- stroffset);
                size_dt_strings \<leftarrow> fdt_size_dt_strings fdt;
                Some (if stroffset \<ge> 0 \<or> sw_stroffset > size_dt_strings
                      then Inl (- FDT_ERR_BADOFFSET)
                      else if sw_stroffset < len then Inr sw_stroffset
                      else Inr len) }
              else Some (Inl (- FDT_ERR_INTERNAL)));
           (case limit of
              Inl err \<Rightarrow> Some (NULL, err)
            | Inr len \<Rightarrow> do {
                n \<leftarrow> memchr fdt absoffset 0 len;
                (case n of
                   NULL \<Rightarrow> Some (NULL, - FDT_ERR_TRUNCATED)
                 | Ptr e \<Rightarrow> Some (Ptr absoffset, s32 (e - absoffset))) }) } } } }"

definition fdt_string :: "blob \<Rightarrow> int \<Rightarrow> ptr option" where
  "fdt_string fdt stroffset = do { (p, len) \<leftarrow> fdt_get_string fdt stroffset; Some p }"

definition fdt_string_eq_i :: "blob \<Rightarrow> int \<Rightarrow> u8 list \<Rightarrow> int \<Rightarrow> bool option" where
  "fdt_string_eq_i fdt stroffset s len = do {
     (p, slen) \<leftarrow> fdt_get_string fdt stroffset;
     (case p of
        NULL \<Rightarrow> Some False
      | Ptr a \<Rightarrow> if slen = len then memcmp_eq fdt a s len else Some False) }"

section \<open>The memory reserve map\<close>

definition fdt_mem_rsv_i :: "blob \<Rightarrow> int \<Rightarrow> int option" where
  "fdt_mem_rsv_i fdt n = do { off \<leftarrow> fdt_off_mem_rsvmap fdt; Some (off + n * 16) }"

definition fdt_mem_rsv :: "blob \<Rightarrow> int \<Rightarrow> ptr option" where
  "fdt_mem_rsv fdt n = do {
     let offset = u32 (n * 16);
     off_mem_rsvmap \<leftarrow> fdt_off_mem_rsvmap fdt;
     let absoffset = u32 (off_mem_rsvmap + offset);
     totalsize \<leftarrow> fdt_totalsize fdt;
     if \<not> can_assume VALID_INPUT \<and> absoffset < off_mem_rsvmap then Some NULL
     else if \<not> can_assume VALID_INPUT \<and> absoffset > u64 (totalsize - 16) then Some NULL
     else do { p \<leftarrow> fdt_mem_rsv_i fdt n; Some (Ptr p) } }"

text \<open>The result code, \<open>*address\<close> and \<open>*size\<close>; the latter two are unset on an error.\<close>

definition fdt_get_mem_rsv :: "blob \<Rightarrow> int \<Rightarrow> (int \<times> (int \<times> int) option) option" where
  "fdt_get_mem_rsv fdt n = do {
     probe \<leftarrow> fdt_ro_probe_i fdt;
     if probe < 0 then Some (probe, None)
     else do {
       re \<leftarrow> fdt_mem_rsv fdt n;
       (case re of
          NULL \<Rightarrow> Some (- FDT_ERR_BADOFFSET, None)
        | Ptr p \<Rightarrow> do {
            address \<leftarrow> fdt64_ld fdt p;
            sz \<leftarrow> fdt64_ld fdt (p + 8);
            Some (0, Some (address, sz)) }) } }"

partial_function (option) num_mem_rsv_loop :: "blob \<Rightarrow> int \<Rightarrow> int option" where
  "num_mem_rsv_loop fdt i = do {
     re \<leftarrow> fdt_mem_rsv fdt i;
     (case re of
        NULL \<Rightarrow> Some (- FDT_ERR_TRUNCATED)
      | Ptr p \<Rightarrow> do {
          sz \<leftarrow> fdt64_ld fdt (p + 8);
          if sz = 0 then Some i else num_mem_rsv_loop fdt (s32 (i + 1)) }) }"

definition fdt_num_mem_rsv :: "blob \<Rightarrow> int option" where
  "fdt_num_mem_rsv fdt = num_mem_rsv_loop fdt 0"

section \<open>Subnodes by name\<close>

partial_function (option) subnode_offset_loop ::
  "blob \<Rightarrow> int \<Rightarrow> int \<Rightarrow> u8 list \<Rightarrow> int \<Rightarrow> int option" where
  "subnode_offset_loop fdt offset depth name namelen =
     (if offset \<ge> 0 \<and> depth \<ge> 0 then do {
        found \<leftarrow> (if depth = 1 then fdt_nodename_eq_i fdt offset name namelen else Some False);
        if found then Some offset
        else do {
          (offset', depth') \<leftarrow> fdt_next_node fdt offset (Some depth);
          (case depth' of
             None \<Rightarrow> None
           | Some d \<Rightarrow> subnode_offset_loop fdt offset' d name namelen) } }
      else if depth < 0 then Some (- FDT_ERR_NOTFOUND)
      else Some offset)"

definition fdt_subnode_offset_namelen :: "blob \<Rightarrow> int \<Rightarrow> u8 list \<Rightarrow> int \<Rightarrow> int option" where
  "fdt_subnode_offset_namelen fdt offset name namelen =
     FDT_RO_PROBE fdt (subnode_offset_loop fdt offset 0 name namelen)"

definition fdt_subnode_offset :: "blob \<Rightarrow> int \<Rightarrow> cstring \<Rightarrow> int option" where
  "fdt_subnode_offset fdt parentoffset name =
     fdt_subnode_offset_namelen fdt parentoffset name (cstrlen name)"

section \<open>Properties of a node\<close>

partial_function (option) nextprop_i :: "blob \<Rightarrow> int \<Rightarrow> int option" where
  "nextprop_i fdt offset = do {
     (tag, nextoffset) \<leftarrow> fdt_next_tag fdt offset;
     if tag = FDT_END then
       Some (if nextoffset \<ge> 0 then - FDT_ERR_BADSTRUCTURE else nextoffset)
     else if tag = FDT_PROP then Some offset
     else if tag = FDT_NOP then nextprop_i fdt nextoffset
     else Some (- FDT_ERR_NOTFOUND) }"

definition fdt_first_property_offset :: "blob \<Rightarrow> int \<Rightarrow> int option" where
  "fdt_first_property_offset fdt nodeoffset = do {
     offset \<leftarrow> fdt_check_node_offset_i fdt nodeoffset;
     if offset < 0 then Some offset else nextprop_i fdt offset }"

definition fdt_next_property_offset :: "blob \<Rightarrow> int \<Rightarrow> int option" where
  "fdt_next_property_offset fdt offset = do {
     offset \<leftarrow> fdt_check_prop_offset_i fdt offset;
     if offset < 0 then Some offset else nextprop_i fdt offset }"

text \<open>A \<open>struct fdt_property\<close> pointer is the position of its tag: \<open>len\<close> is 4 and \<open>nameoff\<close> 8 bytes
  behind it, \<open>data\<close> 12.\<close>

definition fdt_get_property_by_offset_i :: "blob \<Rightarrow> int \<Rightarrow> (ptr \<times> int) option" where
  "fdt_get_property_by_offset_i fdt offset = do {
     err \<leftarrow> (if \<not> can_assume VALID_INPUT then fdt_check_prop_offset_i fdt offset else Some 0);
     if err < 0 then Some (NULL, err)
     else do {
       prop \<leftarrow> fdt_offset_ptr_i fdt offset;
       len \<leftarrow> fdt32_ld fdt (prop + 4);
       Some (Ptr prop, s32 len) } }"

definition fdt_get_property_by_offset :: "blob \<Rightarrow> int \<Rightarrow> (ptr \<times> int) option" where
  "fdt_get_property_by_offset fdt offset = do {
     version \<leftarrow> fdt_version fdt;
     if \<not> can_assume LATEST \<and> version < 0x10 then Some (NULL, - FDT_ERR_BADVERSION)
     else fdt_get_property_by_offset_i fdt offset }"

text \<open>The loop of \<open>fdt_get_property_namelen_\<close>: the property, its length or an error, and its
  offset.\<close>

partial_function (option) get_property_loop ::
  "blob \<Rightarrow> int \<Rightarrow> u8 list \<Rightarrow> int \<Rightarrow> (ptr \<times> int \<times> int) option" where
  "get_property_loop fdt offset name namelen =
     (if offset \<ge> 0 then do {
        (prop, len) \<leftarrow> fdt_get_property_by_offset_i fdt offset;
        (case prop of
           NULL \<Rightarrow> Some (NULL, - FDT_ERR_INTERNAL, - FDT_ERR_INTERNAL)
         | Ptr p \<Rightarrow> do {
             nameoff \<leftarrow> fdt32_ld fdt (p + 8);
             eq \<leftarrow> fdt_string_eq_i fdt (s32 nameoff) name namelen;
             if eq then Some (Ptr p, len, offset)
             else do {
               offset' \<leftarrow> fdt_next_property_offset fdt offset;
               get_property_loop fdt offset' name namelen } }) }
      else Some (NULL, offset, offset))"

definition fdt_get_property_namelen_i ::
  "blob \<Rightarrow> int \<Rightarrow> u8 list \<Rightarrow> int \<Rightarrow> (ptr \<times> int \<times> int) option" where
  "fdt_get_property_namelen_i fdt offset name namelen = do {
     offset \<leftarrow> fdt_first_property_offset fdt offset;
     get_property_loop fdt offset name namelen }"

definition fdt_get_property_namelen ::
  "blob \<Rightarrow> int \<Rightarrow> u8 list \<Rightarrow> int \<Rightarrow> (ptr \<times> int) option" where
  "fdt_get_property_namelen fdt offset name namelen = do {
     version \<leftarrow> fdt_version fdt;
     if \<not> can_assume LATEST \<and> version < 0x10 then Some (NULL, - FDT_ERR_BADVERSION)
     else do {
       (prop, len, poffset) \<leftarrow> fdt_get_property_namelen_i fdt offset name namelen;
       Some (prop, len) } }"

definition fdt_get_property :: "blob \<Rightarrow> int \<Rightarrow> cstring \<Rightarrow> (ptr \<times> int) option" where
  "fdt_get_property fdt nodeoffset name =
     fdt_get_property_namelen fdt nodeoffset name (cstrlen name)"

text \<open>The \<open>data\<close> of a property, after the realignment of old formats.\<close>

definition prop_data :: "blob \<Rightarrow> int \<Rightarrow> int \<Rightarrow> int option" where
  "prop_data fdt prop poffset = do {
     version \<leftarrow> fdt_version fdt;
     if \<not> can_assume LATEST \<and> version < 0x10 \<and> u64 (poffset + 12) mod 8 \<noteq> 0 then do {
       len \<leftarrow> fdt32_ld fdt (prop + 4);
       Some (if len \<ge> 8 then prop + 12 + 4 else prop + 12) }
     else Some (prop + 12) }"

definition fdt_getprop_namelen :: "blob \<Rightarrow> int \<Rightarrow> u8 list \<Rightarrow> int \<Rightarrow> (ptr \<times> int) option" where
  "fdt_getprop_namelen fdt nodeoffset name namelen = do {
     (prop, len, poffset) \<leftarrow> fdt_get_property_namelen_i fdt nodeoffset name namelen;
     (case prop of
        NULL \<Rightarrow> Some (NULL, len)
      | Ptr p \<Rightarrow> do { d \<leftarrow> prop_data fdt p poffset; Some (Ptr d, len) }) }"

text \<open>The value, \<open>*namep\<close> and \<open>*lenp\<close>.\<close>

definition fdt_getprop_by_offset :: "blob \<Rightarrow> int \<Rightarrow> (ptr \<times> ptr \<times> int) option" where
  "fdt_getprop_by_offset fdt offset = do {
     (prop, len) \<leftarrow> fdt_get_property_by_offset_i fdt offset;
     (case prop of
        NULL \<Rightarrow> Some (NULL, NULL, len)
      | Ptr p \<Rightarrow> do {
          nameoff \<leftarrow> fdt32_ld fdt (p + 8);
          (name, namelen) \<leftarrow> fdt_get_string fdt (s32 nameoff);
          if \<not> can_assume VALID_INPUT \<and> name = NULL then Some (NULL, NULL, namelen)
          else do { d \<leftarrow> prop_data fdt p offset; Some (Ptr d, name, len) } }) }"

definition fdt_getprop :: "blob \<Rightarrow> int \<Rightarrow> cstring \<Rightarrow> (ptr \<times> int) option" where
  "fdt_getprop fdt nodeoffset name = fdt_getprop_namelen fdt nodeoffset name (cstrlen name)"

section \<open>Phandles\<close>

text \<open>One lookup of \<open>fdt_get_phandle\<close>: the position of a value of exactly one cell.\<close>

definition phandle_cell :: "blob \<Rightarrow> int \<Rightarrow> cstring \<Rightarrow> int option option" where
  "phandle_cell fdt nodeoffset name = do {
     (php, len) \<leftarrow> fdt_getprop fdt nodeoffset name;
     Some (case php of NULL \<Rightarrow> None | Ptr p \<Rightarrow> if len \<noteq> 4 then None else Some p) }"

definition fdt_get_phandle :: "blob \<Rightarrow> int \<Rightarrow> int option" where
  "fdt_get_phandle fdt nodeoffset = do {
     php \<leftarrow> phandle_cell fdt nodeoffset (cstr ''phandle'');
     (case php of
        Some p \<Rightarrow> fdt32_ld fdt p
      | None \<Rightarrow> do {
          php \<leftarrow> phandle_cell fdt nodeoffset (cstr ''linux,phandle'');
          (case php of Some p \<Rightarrow> fdt32_ld fdt p | None \<Rightarrow> Some 0) }) }"

text \<open>The result code and the highest phandle.\<close>

partial_function (option) find_max_phandle_loop :: "blob \<Rightarrow> int \<Rightarrow> int \<Rightarrow> (int \<times> int) option" where
  "find_max_phandle_loop fdt offset mx = do {
     (offset, d) \<leftarrow> fdt_next_node fdt offset None;
     if offset < 0 then
       Some (if offset = - FDT_ERR_NOTFOUND then (0, mx) else (offset, mx))
     else do {
       v \<leftarrow> fdt_get_phandle fdt offset;
       find_max_phandle_loop fdt offset (if v > mx then v else mx) } }"

definition fdt_find_max_phandle :: "blob \<Rightarrow> (int \<times> int) option" where
  "fdt_find_max_phandle fdt = find_max_phandle_loop fdt (- 1) 0"

text \<open>The inline \<open>fdt_get_max_phandle\<close> of libfdt.h.\<close>

definition fdt_get_max_phandle :: "blob \<Rightarrow> int option" where
  "fdt_get_max_phandle fdt = do {
     (err, phandle) \<leftarrow> fdt_find_max_phandle fdt;
     if err < 0 then Some (u32 (- 1)) else Some phandle }"

text \<open>The result code and \<open>*phandle\<close>, which is unset on an error.\<close>

definition fdt_generate_phandle :: "blob \<Rightarrow> (int \<times> int option) option" where
  "fdt_generate_phandle fdt = do {
     (err, mx) \<leftarrow> fdt_find_max_phandle fdt;
     if err < 0 then Some (err, None)
     else if mx = FDT_MAX_PHANDLE then Some (- FDT_ERR_NOPHANDLES, None)
     else Some (0, Some (u32 (mx + 1))) }"

section \<open>Paths and aliases\<close>

text \<open>The loop of \<open>fdt_path_offset_namelen\<close>, over the bytes from \<open>p\<close> to \<open>end\<close>: skip slashes, take
  the next component, step into the subnode of that name.\<close>

function path_walk :: "blob \<Rightarrow> int \<Rightarrow> u8 list \<Rightarrow> int option" where
  "path_walk fdt offset path =
     (if path = [] then Some offset
      else let rest = dropWhile (\<lambda>c. c = chr (CHR ''/'')) path in
        if rest = [] then Some offset
        else let comp = takeWhile (\<lambda>c. c \<noteq> chr (CHR ''/'')) rest in do {
          offset' \<leftarrow> fdt_subnode_offset_namelen fdt offset rest (int (length comp));
          if offset' < 0 then Some offset'
          else path_walk fdt offset' (drop (length comp) rest) })"
  by pat_completeness auto
termination
proof (relation "measure (\<lambda>(fdt, offset, path). length path)", goal_cases)
  case 1
  show ?case by simp
next
  case (2 fdt offset path rest comp offset')
  then obtain c r where r: "rest = c # r" by (meson list.exhaust)
  have "c \<noteq> chr (CHR ''/'')"
    using 2(2) r dropWhile_eq_Cons_conv [of "\<lambda>c. c = chr (CHR ''/'')" path c r] by metis
  then have "comp \<noteq> []" using 2(4) r by simp
  moreover have "length rest \<le> length path" using 2(2) by (simp add: length_dropWhile_le)
  ultimately show ?case using r by (cases comp) auto
qed

declare path_walk.simps [simp del]

text \<open>
  \<open>fdt_path_offset_namelen\<close>. The path is the list of bytes its pointer can reach. A path
  that does not start with a slash starts with an alias: the property of that name in
  \<open>/aliases\<close>, whose value is again a path; \<open>fdt_path_offset\<close> and \<open>fdt_get_alias_namelen\<close>
  are the calls the C code makes there, unfolded, since they call back.
\<close>

partial_function (option) fdt_path_offset_namelen :: "blob \<Rightarrow> u8 list \<Rightarrow> int \<Rightarrow> int option" where
  "fdt_path_offset_namelen fdt path namelen = do {
     probe \<leftarrow> fdt_ro_probe_i fdt;
     if probe < 0 then Some probe
     else if path = [] then None
     else if hd path \<noteq> chr (CHR ''/'') then
       if namelen < 0 \<or> int (length path) < namelen then None
       else do {
         let given = take (nat namelen) path;
         let q = length (takeWhile (\<lambda>c. c \<noteq> chr (CHR ''/'')) given);
         aliasoffset \<leftarrow> fdt_path_offset_namelen fdt (cstr ''/aliases'' @ [0]) 8;
         p \<leftarrow> (if aliasoffset < 0 then Some NULL
               else do {
                 (p, len) \<leftarrow> fdt_getprop_namelen fdt aliasoffset path (int q);
                 Some p });
         (case p of
            NULL \<Rightarrow> Some (- FDT_ERR_BADPATH)
          | Ptr a \<Rightarrow> do {
              n \<leftarrow> strlen fdt a;
              target \<leftarrow> rd fdt a (n + 1);
              offset \<leftarrow> fdt_path_offset_namelen fdt target n;
              path_walk fdt offset (drop q given) }) }
     else if namelen < 0 then Some 0
     else if int (length path) < namelen then None
     else path_walk fdt 0 (take (nat namelen) path) }"

definition fdt_path_offset :: "blob \<Rightarrow> cstring \<Rightarrow> int option" where
  "fdt_path_offset fdt path = fdt_path_offset_namelen fdt (path @ [0]) (cstrlen path)"

definition fdt_get_alias_namelen :: "blob \<Rightarrow> u8 list \<Rightarrow> int \<Rightarrow> ptr option" where
  "fdt_get_alias_namelen fdt name namelen = do {
     aliasoffset \<leftarrow> fdt_path_offset fdt (cstr ''/aliases'');
     if aliasoffset < 0 then Some NULL
     else do {
       (p, len) \<leftarrow> fdt_getprop_namelen fdt aliasoffset name namelen;
       Some p } }"

definition fdt_get_alias :: "blob \<Rightarrow> cstring \<Rightarrow> ptr option" where
  "fdt_get_alias fdt name = fdt_get_alias_namelen fdt name (cstrlen name)"

text \<open>\<open>fdt_get_path\<close> writes into the caller's buffer \<open>buf\<close>. The inner \<open>do \<dots> while\<close> drops the last
  component, the \<open>while\<close> around it as many as the depth fell.\<close>

partial_function (option) drop_component :: "blob \<Rightarrow> int \<Rightarrow> int option" where
  "drop_component buf p = do {
     c \<leftarrow> ld8 buf (p - 1 - 1);
     if c \<noteq> chr (CHR ''/'') then drop_component buf (p - 1) else Some (p - 1) }"

partial_function (option) drop_components :: "blob \<Rightarrow> int \<Rightarrow> int \<Rightarrow> int \<Rightarrow> (int \<times> int) option" where
  "drop_components buf p pdepth depth =
     (if pdepth > depth then do {
        p \<leftarrow> drop_component buf p;
        drop_components buf p (pdepth - 1) depth }
      else Some (p, pdepth))"

partial_function (option) get_path_loop ::
  "blob \<Rightarrow> int \<Rightarrow> int \<Rightarrow> blob \<Rightarrow> int \<Rightarrow> int \<Rightarrow> int \<Rightarrow> int \<Rightarrow> (int \<times> blob) option" where
  "get_path_loop fdt offset depth buf buflen nodeoffset p pdepth =
     (if offset \<ge> 0 \<and> offset \<le> nodeoffset then do {
        (p, pdepth) \<leftarrow> drop_components buf p pdepth depth;
        (name, namelen) \<leftarrow>
          (if pdepth \<ge> depth then fdt_get_name fdt offset else Some (Ptr 0, 0));
        (case name of
           NULL \<Rightarrow> Some (namelen, buf)
         | Ptr nm \<Rightarrow> do {
             (buf, p, pdepth) \<leftarrow>
               (if pdepth \<ge> depth \<and> p + namelen + 1 \<le> buflen then do {
                  s \<leftarrow> rd fdt nm namelen;
                  buf \<leftarrow> wr buf p (s @ [chr (CHR ''/'')]);
                  Some (buf, p + namelen + 1, pdepth + 1) }
                else Some (buf, p, pdepth));
             if offset = nodeoffset then
               if pdepth < depth + 1 then Some (- FDT_ERR_NOSPACE, buf)
               else do {
                 buf \<leftarrow> wr buf (if p > 1 then p - 1 else p) [0];
                 Some (0, buf) }
             else do {
               (offset', depth') \<leftarrow> fdt_next_node fdt offset (Some depth);
               (case depth' of
                  None \<Rightarrow> None
                | Some d \<Rightarrow>
                    get_path_loop fdt offset' d buf buflen nodeoffset p pdepth) } }) }
      else if offset = - FDT_ERR_NOTFOUND \<or> offset \<ge> 0 then Some (- FDT_ERR_BADOFFSET, buf)
      else if offset = - FDT_ERR_BADOFFSET then Some (- FDT_ERR_BADSTRUCTURE, buf)
      else Some (offset, buf))"

definition fdt_get_path :: "blob \<Rightarrow> int \<Rightarrow> blob \<Rightarrow> int \<Rightarrow> (int \<times> blob) option" where
  "fdt_get_path fdt nodeoffset buf buflen = do {
     probe \<leftarrow> fdt_ro_probe_i fdt;
     if probe < 0 then Some (probe, buf)
     else if buflen < 2 then Some (- FDT_ERR_NOSPACE, buf)
     else get_path_loop fdt 0 0 buf buflen nodeoffset 0 0 }"

section \<open>Ancestors\<close>

text \<open>The result and \<open>*nodedepth\<close>, which is set only when the node is found.\<close>

partial_function (option) supernode_loop ::
  "blob \<Rightarrow> int \<Rightarrow> int \<Rightarrow> int \<Rightarrow> int \<Rightarrow> int \<Rightarrow> (int \<times> int option) option" where
  "supernode_loop fdt offset depth nodeoffset supernodedepth supernodeoffset =
     (if offset \<ge> 0 \<and> offset \<le> nodeoffset then do {
        let supernodeoffset = (if depth = supernodedepth then offset else supernodeoffset);
        if offset = nodeoffset then
          Some (if supernodedepth > depth then - FDT_ERR_NOTFOUND else supernodeoffset, Some depth)
        else do {
          (offset', depth') \<leftarrow> fdt_next_node fdt offset (Some depth);
          (case depth' of
             None \<Rightarrow> None
           | Some d \<Rightarrow> supernode_loop fdt offset' d nodeoffset supernodedepth supernodeoffset) } }
      else if \<not> can_assume VALID_INPUT \<and> (offset = - FDT_ERR_NOTFOUND \<or> offset \<ge> 0)
      then Some (- FDT_ERR_BADOFFSET, None)
      else if \<not> can_assume VALID_INPUT \<and> offset = - FDT_ERR_BADOFFSET
      then Some (- FDT_ERR_BADSTRUCTURE, None)
      else Some (offset, None))"

definition fdt_supernode_atdepth_offset :: "blob \<Rightarrow> int \<Rightarrow> int \<Rightarrow> (int \<times> int option) option" where
  "fdt_supernode_atdepth_offset fdt nodeoffset supernodedepth = do {
     probe \<leftarrow> fdt_ro_probe_i fdt;
     if probe < 0 then Some (probe, None)
     else if supernodedepth < 0 then Some (- FDT_ERR_NOTFOUND, None)
     else supernode_loop fdt 0 0 nodeoffset supernodedepth (- FDT_ERR_INTERNAL) }"

text \<open>Reading \<open>nodedepth\<close> while it is unset would be undefined.\<close>

definition fdt_node_depth :: "blob \<Rightarrow> int \<Rightarrow> int option" where
  "fdt_node_depth fdt nodeoffset = do {
     (err, nodedepth) \<leftarrow> fdt_supernode_atdepth_offset fdt nodeoffset 0;
     if err \<noteq> 0 then
       Some (if can_assume LIBFDT_FLAWLESS \<or> err < 0 then err else - FDT_ERR_INTERNAL)
     else nodedepth }"

definition fdt_parent_offset :: "blob \<Rightarrow> int \<Rightarrow> int option" where
  "fdt_parent_offset fdt nodeoffset = do {
     nodedepth \<leftarrow> fdt_node_depth fdt nodeoffset;
     if nodedepth < 0 then Some nodedepth
     else do {
       (off, d) \<leftarrow> fdt_supernode_atdepth_offset fdt nodeoffset (nodedepth - 1);
       Some off } }"

section \<open>Searches over all nodes\<close>

partial_function (option) by_prop_value_loop ::
  "blob \<Rightarrow> int \<Rightarrow> cstring \<Rightarrow> u8 list \<Rightarrow> int \<Rightarrow> int option" where
  "by_prop_value_loop fdt offset propname propval proplen =
     (if offset \<ge> 0 then do {
        (val, len) \<leftarrow> fdt_getprop fdt offset propname;
        found \<leftarrow>
          (case val of
             NULL \<Rightarrow> Some False
           | Ptr v \<Rightarrow> if len = proplen then memcmp_eq fdt v propval len else Some False);
        if found then Some offset
        else do {
          (offset', d) \<leftarrow> fdt_next_node fdt offset None;
          by_prop_value_loop fdt offset' propname propval proplen } }
      else Some offset)"

definition fdt_node_offset_by_prop_value ::
  "blob \<Rightarrow> int \<Rightarrow> cstring \<Rightarrow> u8 list \<Rightarrow> int \<Rightarrow> int option" where
  "fdt_node_offset_by_prop_value fdt startoffset propname propval proplen =
     FDT_RO_PROBE fdt (do {
       (offset, d) \<leftarrow> fdt_next_node fdt startoffset None;
       by_prop_value_loop fdt offset propname propval proplen })"

partial_function (option) by_phandle_loop :: "blob \<Rightarrow> int \<Rightarrow> int \<Rightarrow> int option" where
  "by_phandle_loop fdt offset phandle =
     (if offset \<ge> 0 then do {
        ph \<leftarrow> fdt_get_phandle fdt offset;
        if ph = phandle then Some offset
        else do {
          (offset', d) \<leftarrow> fdt_next_node fdt offset None;
          by_phandle_loop fdt offset' phandle } }
      else Some offset)"

definition fdt_node_offset_by_phandle :: "blob \<Rightarrow> int \<Rightarrow> int option" where
  "fdt_node_offset_by_phandle fdt phandle =
     (if phandle = 0 \<or> phandle = UINT32_MAX then Some (- FDT_ERR_BADPHANDLE)
      else FDT_RO_PROBE fdt (do {
        (offset, d) \<leftarrow> fdt_next_node fdt (- 1) None;
        by_phandle_loop fdt offset phandle }))"

section \<open>String lists\<close>

partial_function (option) fdt_stringlist_contains :: "blob \<Rightarrow> int \<Rightarrow> int \<Rightarrow> cstring \<Rightarrow> bool option" where
  "fdt_stringlist_contains fdt strlist listlen str =
     (if listlen \<ge> cstrlen str then do {
        eq \<leftarrow> memcmp_eq fdt strlist (str @ [0]) (cstrlen str + 1);
        if eq then Some True
        else do {
          p \<leftarrow> memchr fdt strlist 0 listlen;
          (case p of
             NULL \<Rightarrow> Some False
           | Ptr e \<Rightarrow>
               fdt_stringlist_contains fdt (e + 1) (listlen - ((e - strlist) + 1)) str) } }
      else Some False)"

definition strnlen :: "blob \<Rightarrow> int \<Rightarrow> int \<Rightarrow> int option" where
  "strnlen fdt p n = do {
     e \<leftarrow> memchr fdt p 0 n;
     Some (case e of NULL \<Rightarrow> n | Ptr a \<Rightarrow> a - p) }"

partial_function (option) stringlist_count_loop :: "blob \<Rightarrow> int \<Rightarrow> int \<Rightarrow> int \<Rightarrow> int option" where
  "stringlist_count_loop fdt lst end_ptr count =
     (if lst < end_ptr then do {
        n \<leftarrow> strnlen fdt lst (end_ptr - lst);
        let len = n + 1;
        if lst + len > end_ptr then Some (- FDT_ERR_BADVALUE)
        else stringlist_count_loop fdt (lst + len) end_ptr (count + 1) }
      else Some count)"

definition fdt_stringlist_count :: "blob \<Rightarrow> int \<Rightarrow> cstring \<Rightarrow> int option" where
  "fdt_stringlist_count fdt nodeoffset prop_name = do {
     (lst, len) \<leftarrow> fdt_getprop fdt nodeoffset prop_name;
     (case lst of
        NULL \<Rightarrow> Some len
      | Ptr p \<Rightarrow> stringlist_count_loop fdt p (p + len) 0) }"

partial_function (option) stringlist_search_loop ::
  "blob \<Rightarrow> int \<Rightarrow> int \<Rightarrow> cstring \<Rightarrow> int \<Rightarrow> int option" where
  "stringlist_search_loop fdt lst end_ptr str idx =
     (if lst < end_ptr then do {
        n \<leftarrow> strnlen fdt lst (end_ptr - lst);
        let len = n + 1;
        if lst + len > end_ptr then Some (- FDT_ERR_BADVALUE)
        else do {
          eq \<leftarrow> (if len = cstrlen str + 1 then memcmp_eq fdt lst (str @ [0]) len else Some False);
          if eq then Some idx
          else stringlist_search_loop fdt (lst + len) end_ptr str (idx + 1) } }
      else Some (- FDT_ERR_NOTFOUND))"

definition fdt_stringlist_search :: "blob \<Rightarrow> int \<Rightarrow> cstring \<Rightarrow> cstring \<Rightarrow> int option" where
  "fdt_stringlist_search fdt nodeoffset prop_name str = do {
     (lst, len) \<leftarrow> fdt_getprop fdt nodeoffset prop_name;
     (case lst of
        NULL \<Rightarrow> Some len
      | Ptr p \<Rightarrow> stringlist_search_loop fdt p (p + len) str 0) }"

partial_function (option) stringlist_get_loop :: "blob \<Rightarrow> int \<Rightarrow> int \<Rightarrow> int \<Rightarrow> (ptr \<times> int) option" where
  "stringlist_get_loop fdt lst end_ptr idx =
     (if lst < end_ptr then do {
        n \<leftarrow> strnlen fdt lst (end_ptr - lst);
        let len = n + 1;
        if lst + len > end_ptr then Some (NULL, - FDT_ERR_BADVALUE)
        else if idx = 0 then Some (Ptr lst, len - 1)
        else stringlist_get_loop fdt (lst + len) end_ptr (idx - 1) }
      else Some (NULL, - FDT_ERR_NOTFOUND))"

definition fdt_stringlist_get :: "blob \<Rightarrow> int \<Rightarrow> cstring \<Rightarrow> int \<Rightarrow> (ptr \<times> int) option" where
  "fdt_stringlist_get fdt nodeoffset prop_name idx = do {
     (lst, len) \<leftarrow> fdt_getprop fdt nodeoffset prop_name;
     (case lst of
        NULL \<Rightarrow> Some (NULL, len)
      | Ptr p \<Rightarrow> stringlist_get_loop fdt p (p + len) idx) }"

definition fdt_node_check_compatible :: "blob \<Rightarrow> int \<Rightarrow> cstring \<Rightarrow> int option" where
  "fdt_node_check_compatible fdt nodeoffset compatible = do {
     (prp, len) \<leftarrow> fdt_getprop fdt nodeoffset (cstr ''compatible'');
     (case prp of
        NULL \<Rightarrow> Some len
      | Ptr p \<Rightarrow> do {
          found \<leftarrow> fdt_stringlist_contains fdt p len compatible;
          Some (if found then 0 else 1) }) }"

partial_function (option) by_compatible_loop :: "blob \<Rightarrow> int \<Rightarrow> cstring \<Rightarrow> int option" where
  "by_compatible_loop fdt offset compatible =
     (if offset \<ge> 0 then do {
        err \<leftarrow> fdt_node_check_compatible fdt offset compatible;
        if err < 0 \<and> err \<noteq> - FDT_ERR_NOTFOUND then Some err
        else if err = 0 then Some offset
        else do {
          (offset', d) \<leftarrow> fdt_next_node fdt offset None;
          by_compatible_loop fdt offset' compatible } }
      else Some offset)"

definition fdt_node_offset_by_compatible :: "blob \<Rightarrow> int \<Rightarrow> cstring \<Rightarrow> int option" where
  "fdt_node_offset_by_compatible fdt startoffset compatible =
     FDT_RO_PROBE fdt (do {
       (offset, d) \<leftarrow> fdt_next_node fdt startoffset None;
       by_compatible_loop fdt offset compatible })"

declare num_mem_rsv_loop.simps [code] subnode_offset_loop.simps [code] nextprop_i.simps [code]
  get_property_loop.simps [code] find_max_phandle_loop.simps [code]
  fdt_path_offset_namelen.simps [code] drop_component.simps [code] drop_components.simps [code]
  get_path_loop.simps [code] supernode_loop.simps [code] by_prop_value_loop.simps [code]
  by_phandle_loop.simps [code] fdt_stringlist_contains.simps [code]
  stringlist_count_loop.simps [code] stringlist_search_loop.simps [code]
  stringlist_get_loop.simps [code] by_compatible_loop.simps [code]

end
