(* ===== verification/Fdt_Search.thy ===== *)
theory Fdt_Search
  imports Fdt_Ro "HOL-Library.Sublist"
begin

text \<open>
  What the read-only functions find in a well-formed blob. Strings, names, properties and
  reserve entries are first located at tokens; then the searches are specified over the
  entries of a tree: \<open>fdt_getprop\<close> is a lookup in the list of a node's properties,
  \<open>fdt_subnode_offset\<close> the search for a child by name, \<open>fdt_path_offset\<close> the walk along the
  components of a path.
\<close>

section \<open>Reading a well-formed blob\<close>

definition searchable :: "blob \<Rightarrow> bool" where
  "searchable b \<longleftrightarrow> backed b \<and> header_ok b \<and> 16 \<le> hdr b H_version \<and> hdr b H_totalsize < INT_MAX"

lemma searchableD:
  assumes "searchable b"
  shows "backed b" "readable b" "hdr b H_totalsize < INT_MAX" "hdr b H_totalsize \<le> blen b"
    "hdr b H_magic = FDT_MAGIC" "16 \<le> hdr b H_version" "8 dvd blob_addr b"
    "hdr b H_last_comp_version \<le> 17"
    "hdr b H_off_dt_strings + hdr b H_size_dt_strings \<le> hdr b H_totalsize"
  using assms by (auto simp: searchable_def header_ok_def Let_def readable_def backed_def)

lemma ro_probe_ok: "searchable b \<Longrightarrow> fdt_ro_probe_i b = Some (hdr b H_totalsize)"
  using searchableD [of b] by (auto simp: fdt_ro_probe_i_def and_7_eq_0)

lemma get_string_named:
  assumes b: "searchable b" "named b no nm"
  shows "fdt_get_string b no = Some (Ptr (hdr b H_off_dt_strings + no), cstrlen nm)"
proof -
  note d = searchableD [OF b(1)]
  let ?o = "hdr b H_off_dt_strings" and ?z = "hdr b H_size_dt_strings" and ?t = "hdr b H_totalsize"
  have n: "0 \<le> no" "no + cstrlen nm + 1 \<le> ?z" "0 \<notin> set nm"
    "rd b (?o + no) (cstrlen nm + 1) = Some (nm @ [0])"
    using b(2) by (simp_all add: named_def)
  have nn: "0 \<le> ?o" "0 \<le> ?z" by simp_all
  define l where "l = (if 17 \<le> hdr b H_version \<and> ?z - no < ?t - (no + ?o) then ?z - no else ?t - (no + ?o))"
  have u: "u32 (no + ?o) = no + ?o" "u32 no = no" "u32 ?t = ?t" "u32 (?t - (no + ?o)) = ?t - (no + ?o)"
    "u32 (?z - no) = ?z - no"
    using n(1,2) nn d(3,9) by (intro u32_id; linarith)+
  have l: "cstrlen nm + 1 \<le> l" "?o + no + l \<le> blen b"
    using n(2) d(4,9) nn unfolding l_def by (auto split: if_splits)
  have m: "memchr b (no + ?o) 0 l = Some (Ptr (?o + no + cstrlen nm))"
    using memchr_string [OF n(4,3) l] by (simp add: add.commute)
  have s: "s32 (cstrlen nm) = cstrlen nm" using n(1,2) d(3,9) nn by (intro s32_id) linarith+
  have "no + ?o < ?t" "no < ?z" using n(1,2) d(9) nn by linarith+
  then show ?thesis
    using d(1,5) ro_probe_ok [OF b(1)] u m s n(1) nn
    by (auto simp: fdt_get_string_def Let_def l_def add.commute split: if_splits)
qed

section \<open>What stands at a token\<close>

lemma get_name_in:
  assumes "searchable b" "tok_in b off (TBegin n)"
  shows "fdt_get_name b off = Some (Ptr (hdr b H_off_dt_struct + off + 4), cstrlen n)"
    "rd b (hdr b H_off_dt_struct + off + 4) (cstrlen n + 1) = Some (n @ [0])" "0 \<notin> set n"
proof -
  note d = searchableD [OF assms(1)]
  show r: "rd b (hdr b H_off_dt_struct + off + 4) (cstrlen n + 1) = Some (n @ [0])" "0 \<notin> set n"
    using assms(2) by (simp_all add: tok_in_def)
  note c = check_node_offset_in [OF d(2) assms(2)]
  note t = tok_in_bounds [OF d(2) assms(2)]
  have "s32 (cstrlen n) = cstrlen n" using t TAGALIGN_length(3) [of n] by (intro s32_id) auto
  moreover have "\<not> hdr b H_version < 16" "\<not> off + tok_size (TBegin n) < 0"
    using d(6) t(1) tok_size_ge(1) [of "TBegin n"] by linarith+
  ultimately show "fdt_get_name b off = Some (Ptr (hdr b H_off_dt_struct + off + 4), cstrlen n)"
    using d(1) ro_probe_ok [OF assms(1)] c strlen_string [OF r]
    by (simp add: fdt_get_name_def fdt_offset_ptr_i_def Let_def)
qed

lemma get_property_by_offset_in:
  assumes "readable b" "tok_in b off (TProp no v)"
  shows "fdt_get_property_by_offset_i b off = Some (Ptr (hdr b H_off_dt_struct + off), int (length v))"
    "fdt32_ld b (hdr b H_off_dt_struct + off + 8) = Some no"
    "rd b (hdr b H_off_dt_struct + off + 12) (int (length v)) = Some v"
proof -
  note t = tok_in_bounds [OF assms]
  have "s32 (int (length v)) = int (length v)" using t TAGALIGN_length(1) [of v] by (intro s32_id) auto
  moreover have "\<not> off + tok_size (TProp no v) < 0" using t(1) tok_size_ge(1) [of "TProp no v"] by linarith
  ultimately show "fdt_get_property_by_offset_i b off = Some (Ptr (hdr b H_off_dt_struct + off), int (length v))"
    using assms check_prop_offset_in [OF assms] readableD(1) [OF assms(1)]
    by (simp add: fdt_get_property_by_offset_i_def fdt_offset_ptr_i_def tok_in_def)
qed (use assms(2) in \<open>simp_all add: tok_in_def\<close>)

text \<open>A token \<open>TProp no v\<close> whose name offset spells \<open>nm\<close>.\<close>

lemma named_s32: "searchable b \<Longrightarrow> named b no nm \<Longrightarrow> s32 no = no"
proof -
  assume a: "searchable b" "named b no nm"
  then have "0 \<le> no" "no + cstrlen nm + 1 \<le> hdr b H_size_dt_strings" by (simp_all add: named_def)
  then show ?thesis
    using searchableD(3,9) [OF a(1)] hdr_bounds(1) [of b H_off_dt_strings] by (intro s32_id) linarith+
qed

lemma prop_data_ok:
  "searchable b \<Longrightarrow> prop_data b p off = Some (p + 12)"
  using searchableD(1,6) [of b] by (auto simp: prop_data_def)

lemma getprop_by_offset_in:
  assumes "searchable b" "tok_in b off (TProp no v)" "named b no nm"
  shows "fdt_getprop_by_offset b off =
    Some (Ptr (hdr b H_off_dt_struct + off + 12), Ptr (hdr b H_off_dt_strings + no), int (length v))"
  using get_property_by_offset_in [OF searchableD(2) [OF assms(1)] assms(2)]
    get_string_named [OF assms(1,3)] named_s32 [OF assms(1,3)] prop_data_ok [OF assms(1)]
  by (simp add: fdt_getprop_by_offset_def)

lemma string_eq_named:
  assumes "searchable b" "named b no nm" "0 \<le> len" "len \<le> int (length s)"
  shows "fdt_string_eq_i b no s len = Some (nm = take (nat len) s)"
proof -
  have r: "rd b (hdr b H_off_dt_strings + no) (cstrlen nm + 1) = Some (nm @ [0])"
    using assms(2) by (simp add: named_def)
  have "rd b (hdr b H_off_dt_strings + no) (cstrlen nm) = Some nm"
    using rd_sub [OF r, of 0 "cstrlen nm"] by simp
  moreover have "cstrlen nm = len" if "nm = take (nat len) s" using that assms(3,4) by simp
  ultimately show ?thesis
    using get_string_named [OF assms(1,2)] assms(3,4) by (auto simp: fdt_string_eq_i_def memcmp_eq_def)
qed

section \<open>The reserve map\<close>

lemma mem_rsv_in:
  assumes b: "searchable b" "0 \<le> i" "hdr b H_off_mem_rsvmap + 16 * i + 16 \<le> hdr b H_totalsize"
  shows "fdt_mem_rsv b i = Some (Ptr (hdr b H_off_mem_rsvmap + 16 * i))"
proof -
  note d = searchableD [OF b(1)]
  let ?o = "hdr b H_off_mem_rsvmap" and ?t = "hdr b H_totalsize"
  have nn: "0 \<le> ?o" by simp
  have u: "u32 (i * 16) = 16 * i" "u32 (?o + 16 * i) = ?o + 16 * i" "u64 (?t - 16) = ?t - 16"
    using u32_id [of "i * 16"] u32_id [of "?o + 16 * i"] u64_id [of "?t - 16"] b(2,3) d(3) nn by auto
  then show ?thesis using b(2,3) d(1) by (simp add: fdt_mem_rsv_def fdt_mem_rsv_i_def Let_def mult.commute)
qed

lemma num_mem_rsv_loop_at:
  assumes b: "searchable b"
    and es: "rsv_at b (hdr b H_off_mem_rsvmap + 16 * i) (es @ [(0, 0)])" "0 \<le> i"
      "hdr b H_off_mem_rsvmap + 16 * (i + int (length es)) + 16 \<le> hdr b H_totalsize"
  shows "num_mem_rsv_loop b i = Some (i + int (length (takeWhile (\<lambda>e. snd e \<noteq> 0) es)))"
  using es
proof (induction es arbitrary: i)
  case Nil
  then show ?case
    using mem_rsv_in [OF b, of i] by (subst num_mem_rsv_loop.simps) simp
next
  case (Cons e es)
  obtain a z where e: "e = (a, z)" by (cases e)
  have nn: "0 \<le> hdr b H_off_mem_rsvmap" "int (length (e # es)) = int (length es) + 1" by simp_all
  have m: "fdt_mem_rsv b i = Some (Ptr (hdr b H_off_mem_rsvmap + 16 * i))"
    using Cons.prems(2,3) by (intro mem_rsv_in [OF b]) auto
  have "16 * i \<le> hdr b H_totalsize" using Cons.prems(2,3) nn(1) unfolding nn(2) distrib_left by linarith
  then have s: "s32 (i + 1) = i + 1" using Cons.prems(2) searchableD(3) [OF b] by (intro s32_id) linarith+
  have "num_mem_rsv_loop b (i + 1) = Some (i + 1 + int (length (takeWhile (\<lambda>e. snd e \<noteq> 0) es)))"
    using Cons.prems e by (intro Cons.IH) (auto simp: algebra_simps)
  then show ?case
    using m s Cons.prems(1) e by (subst num_mem_rsv_loop.simps) (simp add: add.assoc)
qed

section \<open>Looking up a property\<close>

text \<open>The properties a run of tokens stands for; \<open>None\<close> for a run that has other tokens.\<close>

definition props_of :: "blob \<Rightarrow> tok list \<Rightarrow> (cstring \<times> u8 list) list \<Rightarrow> bool" where
  "props_of b ts ps \<longleftrightarrow>
     list_all2 (denotes b) (filter (\<lambda>t. t \<noteq> TNop) ts) (map (\<lambda>(n, v). Prop n v) ps)"

fun ends_props :: "tok \<Rightarrow> bool" where
  "ends_props (TBegin n) \<longleftrightarrow> True"
| "ends_props TEnd \<longleftrightarrow> True"
| "ends_props t \<longleftrightarrow> False"

lemma props_of_cases:
  assumes "props_of b (t # ts) ps"
  obtains "t = TNop" "props_of b ts ps"
  | no v nm ps' where "t = TProp no v" "ps = (nm, v) # ps'" "named b no nm" "props_of b ts ps'"
proof (cases "t = TNop")
  case True
  then show ?thesis using that(1) assms by (simp add: props_of_def)
next
  case False
  then obtain nm v ps' where ps: "ps = (nm, v) # ps'" "denotes b t (Prop nm v)" "props_of b ts ps'"
    using assms by (cases ps) (auto simp: props_of_def)
  then show ?thesis using that(2) by (cases t) auto
qed

lemma nextprop_stop:
  assumes "readable b" "tok_in b off t" "ends_props t"
  shows "nextprop_i b off = Some (- FDT_ERR_NOTFOUND)"
  using next_tag_in [OF assms(1,2)] assms(3)
  by (cases t; subst nextprop_i.simps) auto

text \<open>The result of a search over properties: the first one with the name, its value and offset.\<close>

definition found_prop :: "blob \<Rightarrow> (ptr \<times> int \<times> int) option \<Rightarrow> u8 list option \<Rightarrow> bool" where
  "found_prop b res r \<longleftrightarrow> (case r of
     None \<Rightarrow> res = Some (NULL, - FDT_ERR_NOTFOUND, - FDT_ERR_NOTFOUND)
   | Some v \<Rightarrow> \<exists>p off. res = Some (Ptr p, int (length v), off) \<and> rd b (p + 12) (int (length v)) = Some v)"

lemma get_property_loop_in:
  assumes b: "searchable b" and ts: "toks_in b off (ts @ [t])" "ends_props t" "props_of b ts ps"
    and nm: "0 \<le> len" "len \<le> int (length s)"
  shows "found_prop b (do { off \<leftarrow> nextprop_i b off; get_property_loop b off s len })
     (map_of ps (take (nat len) s))"
  using ts
proof (induction ts arbitrary: off ps)
  case Nil
  then have "nextprop_i b off = Some (- FDT_ERR_NOTFOUND)"
    using nextprop_stop [OF searchableD(2) [OF b], of off t] by simp
  moreover have "ps = []" using Nil by (simp add: props_of_def)
  ultimately show ?case by (simp add: found_prop_def get_property_loop.simps [of b "- 1"])
next
  case (Cons u us)
  note rb = searchableD(2) [OF b]
  have u: "tok_in b off u" and us: "toks_in b (off + tok_size u) (us @ [t])" using Cons.prems(1) by simp_all
  note nx = next_tag_in [OF rb u]
  from Cons.prems(3) show ?case
  proof (cases rule: props_of_cases)
    case 1
    then have "nextprop_i b off = nextprop_i b (off + 4)"
      using nx by (subst nextprop_i.simps) simp
    then show ?thesis using Cons.IH [OF us Cons.prems(2) 1(2)] 1(1) by simp
  next
    case (2 no v nm ps')
    note pu = u [unfolded 2(1)]
    have np: "nextprop_i b off = Some off" using nx 2(1) by (subst nextprop_i.simps) simp
    note gp = get_property_by_offset_in [OF rb pu]
    have eq: "fdt_string_eq_i b (s32 no) s len = Some (nm = take (nat len) s)"
      using string_eq_named [OF b 2(3)] named_s32 [OF b 2(3)] assms(5,6) by simp
    have "fdt_next_property_offset b off = nextprop_i b (off + tok_size u)"
      using check_prop_offset_in [OF rb pu] 2(1) tok_in_bounds(1) [OF rb pu] tok_size_ge(1) [of u]
      by (auto simp: fdt_next_property_offset_def)
    then have "get_property_loop b off s len =
       (if nm = take (nat len) s then Some (Ptr (hdr b H_off_dt_struct + off), int (length v), off)
        else do { off \<leftarrow> nextprop_i b (off + tok_size u); get_property_loop b off s len })"
      using gp eq tok_in_bounds(1) [OF rb pu] by (subst get_property_loop.simps) simp
    then show ?thesis
      using np gp(3) 2(2) Cons.IH [OF us Cons.prems(2) 2(4)] by (auto simp: found_prop_def)
  qed
qed

lemma getprop_namelen_in:
  assumes b: "searchable b" and ts: "toks_in b off (TBegin n # ts @ [t])" "ends_props t" "props_of b ts ps"
    and nm: "0 \<le> len" "len \<le> int (length s)"
  shows "case map_of ps (take (nat len) s) of
      None \<Rightarrow> fdt_getprop_namelen b off s len = Some (NULL, - FDT_ERR_NOTFOUND)
    | Some v \<Rightarrow> \<exists>p. fdt_getprop_namelen b off s len = Some (Ptr p, int (length v)) \<and>
        rd b p (int (length v)) = Some v"
proof -
  note rb = searchableD(2) [OF b]
  have t: "tok_in b off (TBegin n)" "toks_in b (off + tok_size (TBegin n)) (ts @ [t])" using ts(1) by simp_all
  have "\<not> off + tok_size (TBegin n) < 0"
    using tok_in_bounds(1) [OF rb t(1)] tok_size_ge(1) [of "TBegin n"] by linarith
  then have "fdt_get_property_namelen_i b off s len =
      do { off \<leftarrow> nextprop_i b (off + tok_size (TBegin n)); get_property_loop b off s len }"
    using check_node_offset_in [OF rb t(1)]
    by (simp add: fdt_get_property_namelen_i_def fdt_first_property_offset_def)
  then have "found_prop b (fdt_get_property_namelen_i b off s len) (map_of ps (take (nat len) s))"
    using get_property_loop_in [OF b t(2) ts(2,3) nm] by simp
  then show ?thesis
    using prop_data_ok [OF b]
    by (auto simp: found_prop_def fdt_getprop_namelen_def split: option.splits)
qed

section \<open>Looking up a subnode\<close>

definition name_matches :: "cstring \<Rightarrow> cstring \<Rightarrow> bool" where
  "name_matches s n \<longleftrightarrow> n = s \<or> chr (CHR ''@'') \<notin> set s \<and> prefix (s @ [chr (CHR ''@'')]) n"

lemma name_matches_iff:
  "name_matches s n \<longleftrightarrow> n = s \<or> chr (CHR ''@'') \<notin> set s \<and> (\<exists>unit. n = s @ chr (CHR ''@'') # unit)"
  by (auto simp: name_matches_def prefix_def)

lemma nodename_eq_in:
  assumes b: "searchable b" "tok_in b off (TBegin n)" and nm: "0 \<le> len" "len \<le> int (length s)"
  shows "fdt_nodename_eq_i b off s len = Some (name_matches (take (nat len) s) n)"
proof -
  note g = get_name_in [OF b]
  let ?p = "hdr b H_off_dt_struct + off + 4" and ?s = "take (nat len) s"
  have ls: "cstrlen ?s = len" using nm by simp
  show ?thesis
  proof (cases "cstrlen n < len")
    case True
    then have "\<not> name_matches ?s n" using ls by (auto simp: name_matches_iff)
    then show ?thesis using g(1) True by (simp add: fdt_nodename_eq_i_def)
  next
    case False
    then have "rd b ?p len = Some (take (nat len) n)"
      using rd_sub [OF g(2), of 0 len] nm(1) by simp
    then have m: "memcmp_eq b ?p s len = Some (take (nat len) n = ?s)" using nm by (simp add: memcmp_eq_def)
    have c: "ld8 b (?p + len) = Some ((n @ [0]) ! nat len)"
      using g(2) False nm(1) by (auto simp: rd_eq_iff dest: spec [of _ "nat len"])
    have e: "n = ?s @ drop (nat len) n \<longleftrightarrow> take (nat len) n = ?s"
      by (metis append_take_drop_id append_same_eq)
    have nz: "(n @ [0]) ! nat len = 0 \<longleftrightarrow> drop (nat len) n = []"
      using False nm(1) g(3) by (auto simp: nth_append) (metis nth_mem)
    have at: "(n @ [0]) ! nat len = chr (CHR ''@'') \<longleftrightarrow> (\<exists>u. drop (nat len) n = chr (CHR ''@'') # u)"
    proof (cases "nat len < length n")
      case True
      then show ?thesis using Cons_nth_drop_Suc [OF True, symmetric] by (simp add: nth_append)
    next
      case len: False
      then show ?thesis using False nm(1) by (simp add: nth_append)
    qed
    have "name_matches ?s n \<longleftrightarrow> take (nat len) n = ?s \<and>
        (drop (nat len) n = [] \<or> chr (CHR ''@'') \<notin> set ?s \<and> (\<exists>u. drop (nat len) n = chr (CHR ''@'') # u))"
      unfolding name_matches_iff using ls False
      by (metis append.right_neutral append_eq_conv_conj append_take_drop_id length_take nat_int)
    then show ?thesis using g(1) False m c nz at by (auto simp: fdt_nodename_eq_i_def)
  qed
qed

text \<open>The search of \<open>fdt_subnode_offset_namelen\<close>, over the tokens behind the parent's name: \<open>d\<close> nodes are
  open below the parent.\<close>

fun find_sub :: "cstring \<Rightarrow> int \<Rightarrow> int \<Rightarrow> tok list \<Rightarrow> int" where
  "find_sub s off d [] = - FDT_ERR_NOTFOUND"
| "find_sub s off d (TBegin n # ts) =
     (if d = 0 \<and> name_matches s n then off else find_sub s (off + tok_size (TBegin n)) (d + 1) ts)"
| "find_sub s off d (TEnd # ts) =
     (if d = 0 then - FDT_ERR_NOTFOUND else find_sub s (off + 4) (d - 1) ts)"
| "find_sub s off d (t # ts) = find_sub s (off + tok_size t) d ts"

definition sub_search :: "blob \<Rightarrow> (int \<times> int option) option \<Rightarrow> u8 list \<Rightarrow> int \<Rightarrow> int option" where
  "sub_search b r s len = do {
     (off, d) \<leftarrow> r;
     (case d of None \<Rightarrow> None | Some d \<Rightarrow> subnode_offset_loop b off d s len) }"

lemma sub_search_toks:
  assumes b: "searchable b" and ts: "toks_in b off (ts @ [TFinish])" "TFinish \<notin> set ts"
    and d: "0 \<le> d" "4 * d \<le> off" and nm: "0 \<le> len" "len \<le> int (length s)"
  shows "sub_search b (fdt_next_node_loop b off (Some d)) s len = Some (find_sub (take (nat len) s) off d ts)"
  using ts d
proof (induction ts arbitrary: off d)
  case Nil
  then have "fdt_next_tag b off = Some (FDT_END, off + 4)" "0 \<le> off"
    using next_tag_in [OF searchableD(2) [OF b], of off TFinish] by (auto simp: tok_in_def)
  then show ?case
    using Nil.prems(3)
    by (subst fdt_next_node_loop.simps) (simp add: sub_search_def subnode_offset_loop.simps [of b "- 1"])
next
  case (Cons t ts)
  note rb = searchableD(2) [OF b]
  have t: "tok_in b off t" and ts: "toks_in b (off + tok_size t) (ts @ [TFinish])" using Cons.prems(1) by simp_all
  note tb = tok_in_bounds [OF rb t] and sz = tok_size_ge(1) [of t]
  note nx = next_tag_in [OF rb t]
  have IH: "sub_search b (fdt_next_node_loop b (off + tok_size t) (Some d')) s len =
      Some (find_sub (take (nat len) s) (off + tok_size t) d' ts)"
    if "0 \<le> d'" "d' \<le> d + 1" for d'
    using that ts Cons.prems sz by (intro Cons.IH) auto
  have s: "s32 (d + 1) = d + 1" "s32 (d - 1) = d - 1"
    using Cons.prems(3,4) tb(2) by (intro s32_id; linarith)+
  show ?case
  proof (cases t)
    case (TBegin n)
    note e = nodename_eq_in [OF b t [unfolded TBegin] nm]
    have "fdt_next_node b off (Some (d + 1)) = fdt_next_node_loop b (off + tok_size t) (Some (d + 1))"
      using check_node_offset_in [OF rb t [unfolded TBegin]] TBegin tb(1) sz by (simp add: fdt_next_node_def)
    then have "subnode_offset_loop b off (d + 1) s len =
       (if d = 0 \<and> name_matches (take (nat len) s) n then Some off
        else sub_search b (fdt_next_node_loop b (off + tok_size t) (Some (d + 1))) s len)"
      using e tb(1) Cons.prems(3) by (subst subnode_offset_loop.simps) (auto simp: sub_search_def)
    moreover have "fdt_next_node_loop b off (Some d) = Some (off, Some (d + 1))"
      using nx TBegin s by (subst fdt_next_node_loop.simps) simp
    ultimately show ?thesis using IH [of "d + 1"] Cons.prems(3) TBegin by (simp add: sub_search_def)
  next
    case TEnd
    have "sub_search b (fdt_next_node_loop b off (Some d)) s len =
      (if d = 0 then subnode_offset_loop b (off + 4) (- 1) s len
       else sub_search b (fdt_next_node_loop b (off + 4) (Some (d - 1))) s len)"
      using nx TEnd s Cons.prems(3) by (subst fdt_next_node_loop.simps) (auto simp: sub_search_def)
    then show ?thesis
      using IH [of "d - 1"] Cons.prems(3) TEnd by (simp add: subnode_offset_loop.simps [of b "off + 4" "- 1"])
  next
    case TFinish
    then show ?thesis using Cons.prems(2) by simp
  qed (use nx IH [of d] Cons.prems(3) in \<open>subst fdt_next_node_loop.simps, simp\<close>)+
qed

lemma subnode_offset_in:
  assumes b: "searchable b" and ts: "toks_in b off (TBegin n # ts @ [TFinish])" "TFinish \<notin> set ts"
    and nm: "0 \<le> len" "len \<le> int (length s)"
  shows "fdt_subnode_offset_namelen b off s len =
    Some (find_sub (take (nat len) s) (off + tok_size (TBegin n)) 0 ts)"
proof -
  note rb = searchableD(2) [OF b]
  have t: "tok_in b off (TBegin n)" "toks_in b (off + tok_size (TBegin n)) (ts @ [TFinish])" using ts(1) by simp_all
  note tb = tok_in_bounds [OF rb t(1)] and sz = tok_size_ge(1) [of "TBegin n"]
  have "fdt_next_node b off (Some 0) = fdt_next_node_loop b (off + tok_size (TBegin n)) (Some 0)"
    using check_node_offset_in [OF rb t(1)] tb(1) sz by (simp add: fdt_next_node_def)
  then have "subnode_offset_loop b off 0 s len =
      sub_search b (fdt_next_node_loop b (off + tok_size (TBegin n)) (Some 0)) s len"
    using tb(1) by (subst subnode_offset_loop.simps) (auto simp: sub_search_def)
  then show ?thesis
    using sub_search_toks [OF b t(2) ts(2) _ _ nm, of 0] tb(1) sz ro_probe_ok [OF b]
    by (simp add: fdt_subnode_offset_namelen_def FDT_RO_PROBE_def)
qed

section \<open>Nodes of a tree in a blob\<close>

text \<open>The node \<open>ENode n es\<close> starts at this offset, inside a structure block without NOPs.\<close>

definition node_in :: "blob \<Rightarrow> int \<Rightarrow> cstring \<Rightarrow> entry list \<Rightarrow> bool" where
  "node_in b off n es \<longleftrightarrow> (\<exists>ts rest. toks_in b off (TBegin n # ts @ TEnd # rest @ [TFinish]) \<and>
     list_all2 (denotes b) ts (flats es) \<and> TFinish \<notin> set rest)"

text \<open>The subnode a name selects, with its offset when the entries start at \<open>off\<close>.\<close>

fun find_child :: "cstring \<Rightarrow> int \<Rightarrow> entry list \<Rightarrow> (int \<times> cstring \<times> entry list) option" where
  "find_child s off [] = None"
| "find_child s off (EProp n v # es) = find_child s (off + items_size (flat (EProp n v))) es"
| "find_child s off (ENode n fs # es) =
     (if name_matches s n then Some (off, n, fs)
      else find_child s (off + items_size (flat (ENode n fs))) es)"

definition child_offset :: "(int \<times> cstring \<times> entry list) option \<Rightarrow> int" where
  "child_offset r = (case r of None \<Rightarrow> - FDT_ERR_NOTFOUND | Some (off, n, es) \<Rightarrow> off)"

text \<open>\<open>find_sub\<close> depends on the tokens only through the items.\<close>

fun find_sub_items :: "cstring \<Rightarrow> int \<Rightarrow> int \<Rightarrow> item list \<Rightarrow> tok list \<Rightarrow> int" where
  "find_sub_items s off d [] rest = find_sub s off d rest"
| "find_sub_items s off d (Begin n # is) rest =
     (if d = 0 \<and> name_matches s n then off else find_sub_items s (off + item_size (Begin n)) (d + 1) is rest)"
| "find_sub_items s off d (End # is) rest =
     (if d = 0 then - FDT_ERR_NOTFOUND else find_sub_items s (off + 4) (d - 1) is rest)"
| "find_sub_items s off d (Prop n v # is) rest = find_sub_items s (off + item_size (Prop n v)) d is rest"

lemma find_sub_denotes:
  "list_all2 (denotes b) ts is \<Longrightarrow> find_sub s off d (ts @ rest) = find_sub_items s off d is rest"
proof (induction ts "is" arbitrary: off d rule: list_all2_induct)
  case (Cons t ts i "is")
  then show ?case by (cases t; cases i) auto
qed simp

lemma find_sub_deep:
  "0 < d \<Longrightarrow> find_sub_items s off d (flat e @ is) rest = find_sub_items s (off + items_size (flat e)) d is rest"
proof (induction e arbitrary: off d "is")
  case (ENode n fs)
  have "find_sub_items s off d (flats fs @ js) rest = find_sub_items s (off + items_size (flats fs)) d js rest"
    if "0 < d" for off d js
    using ENode.IH that
  proof (induction fs arbitrary: off)
    case (Cons f fs)
    then show ?case by (simp add: add.assoc)
  qed simp
  from this [of "d + 1" "off + item_size (Begin n)" "End # is"] show ?case
    using ENode.prems by (simp add: add.assoc)
qed simp

lemma find_sub_child:
  "find_sub_items s off 0 (flats es) (TEnd # rest) = child_offset (find_child s off es)"
proof (induction es arbitrary: off)
  case (Cons e es)
  show ?case
  proof (cases e)
    case (ENode n fs)
    have "find_sub_items s off' 1 (flats fs @ End # flats es) (TEnd # rest) =
        find_sub_items s (off' + items_size (flats fs)) 1 (End # flats es) (TEnd # rest)" for off'
    proof (induction fs arbitrary: off')
      case (Cons f fs)
      then show ?case using find_sub_deep [of 1 s off' f] by (simp add: add.assoc)
    qed simp
    then show ?thesis using ENode Cons.IH by (simp add: child_offset_def add.assoc)
  qed (use Cons.IH in simp)
qed (simp add: child_offset_def)

lemma subnode_offset_node:
  assumes "searchable b" "node_in b off n es" "0 \<le> len" "len \<le> int (length s)"
  shows "fdt_subnode_offset_namelen b off s len =
    Some (child_offset (find_child (take (nat len) s) (off + item_size (Begin n)) es))"
proof -
  obtain ts rest where ts: "toks_in b off (TBegin n # ts @ TEnd # rest @ [TFinish])"
    "list_all2 (denotes b) ts (flats es)" "TFinish \<notin> set rest"
    using assms(2) by (auto simp: node_in_def)
  have "TFinish \<notin> set ts" using list_all2_member [OF ts(2), of TFinish] by auto
  then have "fdt_subnode_offset_namelen b off s len =
      Some (find_sub (take (nat len) s) (off + tok_size (TBegin n)) 0 (ts @ TEnd # rest))"
    using ts by (intro subnode_offset_in [OF assms(1) _ _ assms(3,4)]) auto
  then show ?thesis using find_sub_denotes [OF ts(2)] find_sub_child by simp
qed

lemma find_child_splits:
  "find_child s off es = Some (off', n', fs) \<Longrightarrow>
   \<exists>pre post. flats es = pre @ flat (ENode n' fs) @ post \<and> off' = off + items_size pre"
proof (induction es arbitrary: off)
  case (Cons e es)
  have step: ?case if "find_child s (off + items_size (flat e)) es = Some (off', n', fs)"
  proof -
    from Cons.IH [OF that] obtain pre post where
      p: "flats es = pre @ flat (ENode n' fs) @ post" "off' = off + items_size (flat e) + items_size pre" by blast
    then have "flats (e # es) = (flat e @ pre) @ flat (ENode n' fs) @ post" "off' = off + items_size (flat e @ pre)"
      by simp_all
    then show ?thesis by blast
  qed
  show ?case
  proof (cases e)
    case (ENode m gs)
    then show ?thesis
      using Cons.prems step by (auto split: if_splits intro: exI [of _ "[]"])
  qed (use Cons.prems step in simp)
qed simp

lemma child_node_in:
  assumes "node_in b off n es" "find_child s (off + item_size (Begin n)) es = Some (off', n', fs)"
  shows "node_in b off' n' fs"
proof -
  obtain ts rest where ts: "toks_in b off (TBegin n # ts @ TEnd # rest @ [TFinish])"
    "list_all2 (denotes b) ts (flats es)" "TFinish \<notin> set rest"
    using assms(1) by (auto simp: node_in_def)
  obtain pre post where p: "flats es = pre @ (Begin n' # flats fs @ [End]) @ post"
    "off' = off + item_size (Begin n) + items_size pre"
    using find_child_splits [OF assms(2)] by auto
  obtain us vs where u: "ts = us @ vs" "list_all2 (denotes b) us pre"
    "list_all2 (denotes b) vs ((Begin n' # flats fs @ [End]) @ post)"
    using ts(2) unfolding p(1) list_all2_append2 by blast
  obtain t ws xs ys where v: "vs = t # ws @ xs # ys" "denotes b t (Begin n')" "list_all2 (denotes b) ws (flats fs)"
    "denotes b xs End" "list_all2 (denotes b) ys post"
    using u(3) by (auto simp: list_all2_append2 list_all2_Cons2)
  have t: "t = TBegin n'" "xs = TEnd" using v(2,4) denotes_tagD by blast+
  have "TFinish \<notin> set ys" using list_all2_member [OF v(5), of TFinish] by auto
  moreover have "off' = off + tok_size (TBegin n) + toks_size us" using p(2) denotes_items_size [OF u(2)] by simp
  then have "toks_in b off' (TBegin n' # ws @ TEnd # (ys @ TEnd # rest) @ [TFinish])"
    using ts(1) u(1) v(1) t by (simp add: add.assoc)
  ultimately show ?thesis using v(3) ts(3) unfolding node_in_def
    by (intro exI [of _ ws] exI [of _ "ys @ TEnd # rest"]) auto
qed

text \<open>The properties of a node are those before its first subnode.\<close>

fun own_props :: "entry list \<Rightarrow> (cstring \<times> u8 list) list" where
  "own_props (EProp n v # es) = (n, v) # own_props es"
| "own_props es = []"

lemma own_props_split:
  assumes "list_all2 (denotes b) ts (flats es)"
  shows "\<exists>us vs. ts @ [TEnd] = us @ vs \<and> props_of b us (own_props es) \<and> vs \<noteq> [] \<and> ends_props (hd vs)"
  using assms
proof (induction es arbitrary: ts)
  case Nil
  then show ?case by (intro exI [of _ "[]"] exI [of _ "[TEnd]"]) (auto simp: props_of_def)
next
  case (Cons e es)
  show ?case
  proof (cases e)
    case (EProp n v)
    then obtain t ts' where t: "ts = t # ts'" "denotes b t (Prop n v)" "list_all2 (denotes b) ts' (flats es)"
      using Cons.prems by (auto simp: list_all2_Cons2)
    obtain us vs where "ts' @ [TEnd] = us @ vs" "props_of b us (own_props es)" "vs \<noteq> []" "ends_props (hd vs)"
      using Cons.IH [OF t(3)] by blast
    moreover have "t \<noteq> TNop" using t(2) by auto
    ultimately show ?thesis
      using t(1,2) EProp by (intro exI [of _ "t # us"] exI [of _ vs]) (auto simp: props_of_def)
  next
    case (ENode n fs)
    then obtain t ts' where "ts = t # ts'" "denotes b t (Begin n)"
      using Cons.prems by (auto simp: list_all2_Cons2)
    moreover from this have "ends_props t" by (cases t) auto
    ultimately show ?thesis
      using ENode by (intro exI [of _ "[]"] exI [of _ "ts @ [TEnd]"]) (auto simp: props_of_def)
  qed
qed

lemma getprop_node:
  assumes b: "searchable b" "node_in b off n es"
  shows "case map_of (own_props es) s of
      None \<Rightarrow> fdt_getprop b off s = Some (NULL, - FDT_ERR_NOTFOUND)
    | Some v \<Rightarrow> \<exists>p. fdt_getprop b off s = Some (Ptr p, int (length v)) \<and> rd b p (int (length v)) = Some v"
proof -
  obtain ts rest where ts: "toks_in b off (TBegin n # ts @ TEnd # rest @ [TFinish])"
    "list_all2 (denotes b) ts (flats es)"
    using b(2) by (auto simp: node_in_def)
  obtain us v vs where u: "ts @ [TEnd] = us @ v # vs" "props_of b us (own_props es)" "ends_props v"
    using own_props_split [OF ts(2)] by (metis list.exhaust_sel)
  then have "toks_in b off (TBegin n # (us @ v # vs) @ rest @ [TFinish])" using ts(1) by (simp flip: u(1))
  then have "toks_in b off (TBegin n # us @ [v])" by simp
  from getprop_namelen_in [OF b(1) this u(3,2), of "int (length s)" s] show ?thesis
    by (simp add: fdt_getprop_def split: option.splits)
qed

section \<open>Paths\<close>

fun split_slash :: "u8 list \<Rightarrow> cstring list" where
  "split_slash [] = [[]]"
| "split_slash (c # cs) =
     (if c = chr (CHR ''/'') then [] # split_slash cs
      else (case split_slash cs of [] \<Rightarrow> [[c]] | x # xs \<Rightarrow> (c # x) # xs))"

text \<open>The components of a path; slashes that follow each other separate nothing.\<close>

definition components :: "u8 list \<Rightarrow> cstring list" where
  "components path = filter (\<lambda>c. c \<noteq> []) (split_slash path)"

fun walk_tree :: "cstring list \<Rightarrow> int \<Rightarrow> cstring \<Rightarrow> entry list \<Rightarrow> (int \<times> cstring \<times> entry list) option" where
  "walk_tree [] off n es = Some (off, n, es)"
| "walk_tree (c # cs) off n es =
     (case find_child c (off + item_size (Begin n)) es of
        None \<Rightarrow> None
      | Some (off', n', fs) \<Rightarrow> walk_tree cs off' n' fs)"

lemma components_slashes: "components (dropWhile (\<lambda>c. c = chr (CHR ''/'')) path) = components path"
  by (induction path) (auto simp: components_def)

lemma split_slash_nonempty: "split_slash cs \<noteq> []"
  by (induction cs) (auto split: list.splits)

lemma split_slash_component:
  "chr (CHR ''/'') \<notin> set c \<Longrightarrow> rest = [] \<or> hd rest = chr (CHR ''/'') \<Longrightarrow>
   split_slash (c @ rest) = c # tl (split_slash rest)"
proof (induction c)
  case Nil
  then show ?case by (cases rest) auto
qed auto

lemma components_component:
  assumes "chr (CHR ''/'') \<notin> set c" "c \<noteq> []" "rest = [] \<or> hd rest = chr (CHR ''/'')"
  shows "components (c @ rest) = c # components rest"
proof -
  have "filter (\<lambda>c. c \<noteq> []) (split_slash rest) = filter (\<lambda>c. c \<noteq> []) (tl (split_slash rest))"
    using assms(3) by (cases rest) auto
  then show ?thesis using split_slash_component [OF assms(1,3)] assms(2) by (simp add: components_def)
qed

lemma path_walk_node:
  assumes b: "searchable b" and n: "node_in b off n es"
  shows "path_walk b off path = Some (child_offset (walk_tree (components path) off n es))"
  using n
proof (induction "length path" arbitrary: path off n es rule: less_induct)
  case less
  let ?sl = "\<lambda>c. c = chr (CHR ''/'')"
  define rest where "rest = dropWhile ?sl path"
  define c where "c = takeWhile (\<lambda>c. \<not> ?sl c) rest"
  define tail where "tail = drop (length c) rest"
  have cr: "components path = components rest" unfolding rest_def by (rule components_slashes [symmetric])
  have lr: "length rest \<le> length path" unfolding rest_def by (rule length_dropWhile_le)
  have pw: "path_walk b off path = (if rest = [] then Some off else do {
       off' \<leftarrow> fdt_subnode_offset_namelen b off rest (int (length c));
       if off' < 0 then Some off' else path_walk b off' tail })"
  proof (cases "path = []")
    case True
    then show ?thesis by (simp add: path_walk.simps rest_def)
  next
    case False
    then show ?thesis unfolding tail_def c_def rest_def by (subst path_walk.simps) (simp only: Let_def if_False)
  qed
  show ?case
  proof (cases "rest = []")
    case True
    then show ?thesis using pw cr by (simp add: components_def child_offset_def)
  next
    case False
    have nc: "c \<noteq> []" using False hd_dropWhile [of ?sl path] by (cases rest) (auto simp: c_def rest_def)
    have te: "tail = dropWhile (\<lambda>c. \<not> ?sl c) rest" unfolding tail_def c_def by (rule dropWhile_eq_drop [symmetric])
    have ct: "rest = c @ tail" unfolding te c_def by (rule takeWhile_dropWhile_id [symmetric])
    have tl: "tail = [] \<or> hd tail = chr (CHR ''/'')"
    proof (cases "tail = []")
      case False
      then show ?thesis using hd_dropWhile [of "\<lambda>c. \<not> ?sl c" rest] te by blast
    qed simp
    have cs: "components path = c # components tail"
      unfolding cr ct by (rule components_component [OF _ nc tl]) (auto simp: c_def dest: set_takeWhileD)
    have lt: "length tail < length path"
      using ct nc lr by (cases c) auto
    have "fdt_subnode_offset_namelen b off rest (int (length c)) =
        Some (child_offset (find_child c (off + item_size (Begin n)) es))"
      using subnode_offset_node [OF b less.prems, of "int (length c)" rest] ct by simp
    moreover have "path_walk b off' tail = Some (child_offset (walk_tree (components tail) off' n' fs)) \<and> 0 \<le> off'"
      if "find_child c (off + item_size (Begin n)) es = Some (off', n', fs)" for off' n' fs
    proof -
      have "node_in b off' n' fs" using child_node_in [OF less.prems that] .
      then show ?thesis using less.hyps [OF lt] by (auto simp: node_in_def tok_in_def)
    qed
    ultimately show ?thesis
      using cs pw False by (auto simp: child_offset_def split: option.splits)
  qed
qed

lemma path_offset_node:
  assumes "searchable b" "node_in b 0 n es"
  shows "fdt_path_offset b (chr (CHR ''/'') # path) =
    Some (child_offset (walk_tree (components path) 0 n es))"
proof -
  have "components (chr (CHR ''/'') # path) = components path" by (simp add: components_def)
  moreover have "nat (1 + int (length path)) = Suc (length path)" by simp
  ultimately show ?thesis
    using path_walk_node [OF assms, of "chr (CHR ''/'') # path"] ro_probe_ok [OF assms(1)]
    by (simp add: fdt_path_offset_def fdt_path_offset_namelen.simps [of b "_ # _"])
qed

lemma struct_items_root:
  assumes "struct_items b ts (flat (ENode n es))" "TNop \<notin> set ts"
  shows "node_in b 0 n es"
proof -
  have "filter (\<lambda>t. t \<noteq> TNop) ts = ts" using assms(2) by (auto intro: filter_True)
  then have "list_all2 (denotes b) ts (Begin n # flats es @ [End])" using assms(1) by (simp add: struct_items_def)
  then obtain t us v where ts: "ts = t # us @ [v]" "denotes b t (Begin n)" "list_all2 (denotes b) us (flats es)"
    "denotes b v End"
    by (auto simp: list_all2_append2 list_all2_Cons2)
  then have "t = TBegin n" "v = TEnd" using denotes_tagD by blast+
  then show ?thesis
    using struct_items_toks_in [OF assms(1)] ts(1,3) unfolding node_in_def
    by (intro exI [of _ us] exI [of _ "[]"]) auto
qed

text \<open>Reading entry \<open>i\<close> of the reserve map.\<close>

lemma rsv_at_nth:
  "rsv_at b p es \<Longrightarrow> i < length es \<Longrightarrow>
   fdt64_ld b (p + 16 * int i) = Some (fst (es ! i)) \<and> fdt64_ld b (p + 16 * int i + 8) = Some (snd (es ! i))"
proof (induction es arbitrary: p i)
  case (Cons e es)
  then show ?case
  proof (cases i)
    case (Suc j)
    then show ?thesis using Cons.IH [of "p + 16" j] Cons.prems by (cases e) (auto simp: algebra_simps)
  qed (cases e; simp)
qed simp

lemma get_mem_rsv_in:
  assumes b: "searchable b" "rsv_at b (hdr b H_off_mem_rsvmap) (es @ [(0, 0)])"
    "hdr b H_off_mem_rsvmap + 16 * (int (length es) + 1) \<le> hdr b H_totalsize" and i: "i < length es"
  shows "fdt_get_mem_rsv b (int i) = Some (0, Some (es ! i))"
proof -
  have "fdt_mem_rsv b (int i) = Some (Ptr (hdr b H_off_mem_rsvmap + 16 * int i))"
    using b(3) i by (intro mem_rsv_in [OF b(1)]) auto
  moreover have "rsv_at b (hdr b H_off_mem_rsvmap) es" using b(2) by simp
  ultimately show ?thesis
    using rsv_at_nth [of b "hdr b H_off_mem_rsvmap" es i] i ro_probe_ok [OF b(1)]
    by (simp add: fdt_get_mem_rsv_def)
qed

lemma walk_tree_node_in:
  "node_in b off n es \<Longrightarrow> walk_tree cs off n es = Some (off', n', fs) \<Longrightarrow> node_in b off' n' fs"
proof (induction cs arbitrary: off n es)
  case (Cons c cs)
  then show ?case using child_node_in by (auto split: option.splits) blast
qed simp

text \<open>
  What it means that a blob can be read as a tree: \<open>fdt_path_offset\<close> finds exactly the nodes
  the tree has, and \<open>fdt_getprop\<close> at each of them finds exactly its properties.
\<close>

definition prop_read :: "blob \<Rightarrow> int \<Rightarrow> cstring \<Rightarrow> u8 list option \<Rightarrow> bool" where
  "prop_read b off s r \<longleftrightarrow> (case r of
     None \<Rightarrow> fdt_getprop b off s = Some (NULL, - FDT_ERR_NOTFOUND)
   | Some v \<Rightarrow> \<exists>p. fdt_getprop b off s = Some (Ptr p, int (length v)) \<and> rd b p (int (length v)) = Some v)"

definition reads_as :: "blob \<Rightarrow> cstring \<Rightarrow> entry list \<Rightarrow> bool" where
  "reads_as b n es \<longleftrightarrow>
     (\<forall>path. fdt_path_offset b (chr (CHR ''/'') # path) =
        Some (child_offset (walk_tree (components path) 0 n es))) \<and>
     (\<forall>path off name node s. walk_tree (components path) 0 n es = Some (off, name, node) \<longrightarrow>
        prop_read b off s (map_of (own_props node) s))"

lemma reads_asD:
  assumes "reads_as b n es"
  shows "fdt_path_offset b (chr (CHR ''/'') # path) = Some (child_offset (walk_tree (components path) 0 n es))"
    "walk_tree (components path) 0 n es = Some (off, name, node) \<Longrightarrow>
       prop_read b off s (map_of (own_props node) s)"
  using assms by (auto simp: reads_as_def)

lemma node_reads_as:
  assumes "searchable b" "node_in b 0 n es"
  shows "reads_as b n es"
  using path_offset_node [OF assms] getprop_node [OF assms(1) walk_tree_node_in [OF assms(2)]]
  unfolding reads_as_def prop_read_def by blast

end
