(* ===== verification/Fdt_Check.thy ===== *)
theory Fdt_Check
  imports Fdt_Search
begin

text \<open>
  \<open>fdt_check.c\<close>: the full check of a blob, \<open>fdt_check_full\<close>. Its loop keeps the offset of the
  next tag, the depth (an \<open>unsigned int\<close>) and whether the root node has ended.
\<close>

partial_function (option) check_full_loop :: "blob \<Rightarrow> int \<Rightarrow> int \<Rightarrow> bool \<Rightarrow> int option" where
  "check_full_loop fdt offset depth expect_end = do {
     (tag, nextoffset) \<leftarrow> fdt_next_tag fdt offset;
     if nextoffset < 0 then Some nextoffset
     else if expect_end \<and> tag \<noteq> FDT_END then Some (- FDT_ERR_BADSTRUCTURE)
     else if tag = FDT_NOP then check_full_loop fdt nextoffset depth expect_end
     else if tag = FDT_END then
       if depth \<noteq> 0 then Some (- FDT_ERR_BADSTRUCTURE) else Some 0
     else if tag = FDT_BEGIN_NODE then do {
       let depth = u32 (depth + 1);
       if depth > INT_MAX then Some (- FDT_ERR_BADSTRUCTURE)
       else do {
         bad \<leftarrow>
           (if depth = 1 then do {
              (name, len) \<leftarrow> fdt_get_name fdt offset;
              (case name of
                 NULL \<Rightarrow> None
               | Ptr p \<Rightarrow> do { c \<leftarrow> ld8 fdt p; Some (c \<noteq> 0 \<or> len \<noteq> 0) }) }
            else Some False);
         if bad then Some (- FDT_ERR_BADSTRUCTURE)
         else check_full_loop fdt nextoffset depth expect_end } }
     else if tag = FDT_END_NODE then
       if depth = 0 then Some (- FDT_ERR_BADSTRUCTURE)
       else check_full_loop fdt nextoffset (depth - 1) (if depth - 1 = 0 then True else expect_end)
     else if tag = FDT_PROP then do {
       (prp, propname, err) \<leftarrow> fdt_getprop_by_offset fdt offset;
       if prp = NULL then Some err
       else check_full_loop fdt nextoffset depth expect_end }
     else Some (- FDT_ERR_INTERNAL) }"

definition fdt_check_full :: "blob \<Rightarrow> int \<Rightarrow> int option" where
  "fdt_check_full fdt bufsize =
     (if bufsize < FDT_V1_SIZE then Some (- FDT_ERR_TRUNCATED)
      else do {
        hdrsize \<leftarrow> fdt_header_size fdt;
        if bufsize < hdrsize then Some (- FDT_ERR_TRUNCATED)
        else do {
          err \<leftarrow> fdt_check_header fdt;
          if err \<noteq> 0 then Some err
          else do {
            totalsize \<leftarrow> fdt_totalsize fdt;
            if bufsize < totalsize then Some (- FDT_ERR_TRUNCATED)
            else do {
              num_memrsv \<leftarrow> fdt_num_mem_rsv fdt;
              if num_memrsv < 0 then Some num_memrsv
              else check_full_loop fdt 0 0 False } } } })"

declare check_full_loop.simps [code]

section \<open>The check of a structure block\<close>

text \<open>What \<open>fdt_check_full\<close> means to establish, over tokens: nodes nest, the outermost node has an
  empty name, and nothing follows its end.\<close>

fun check_toks :: "int \<Rightarrow> bool \<Rightarrow> tok list \<Rightarrow> bool" where
  "check_toks d ended [] \<longleftrightarrow> d = 0"
| "check_toks d ended (TBegin n # ts) \<longleftrightarrow> \<not> ended \<and> (d = 0 \<longrightarrow> n = []) \<and> check_toks (d + 1) ended ts"
| "check_toks d ended (TEnd # ts) \<longleftrightarrow> \<not> ended \<and> d > 0 \<and> check_toks (d - 1) (d = 1) ts"
| "check_toks d ended (TProp no v # ts) \<longleftrightarrow> \<not> ended \<and> check_toks d ended ts"
| "check_toks d ended (TNop # ts) \<longleftrightarrow> \<not> ended \<and> check_toks d ended ts"
| "check_toks d ended (TFinish # ts) \<longleftrightarrow> d = 0"

lemma check_full_loop_toks:
  assumes b: "searchable b" and ts: "toks_in b off (ts @ [TFinish])" "TFinish \<notin> set ts"
    and nm: "\<And>no v. TProp no v \<in> set ts \<Longrightarrow> \<exists>nm. named b no nm"
    and d: "0 \<le> d" "4 * d \<le> off" "ended \<longrightarrow> d = 0"
  shows "check_full_loop b off d ended = Some (if check_toks d ended ts then 0 else - FDT_ERR_BADSTRUCTURE)"
  using ts nm d
proof (induction ts arbitrary: off d ended)
  case Nil
  then have "fdt_next_tag b off = Some (FDT_END, off + 4)" "0 \<le> off"
    using next_tag_in [OF searchableD(2) [OF b], of off TFinish] by (auto simp: tok_in_def)
  then show ?case using Nil.prems by (subst check_full_loop.simps) auto
next
  case (Cons t ts)
  have t: "tok_in b off t" and ts: "toks_in b (off + tok_size t) (ts @ [TFinish])" using Cons.prems(1) by simp_all
  note rb = searchableD(2) [OF b]
  note tb = tok_in_bounds [OF rb t] and sz = tok_size_ge(1) [of t]
  have nx: "fdt_next_tag b off = Some (tok_tag t, off + tok_size t)" "\<not> off + tok_size t < 0"
    using next_tag_in [OF rb t] tb(1) sz by auto
  have IH: "check_full_loop b (off + tok_size t) d' e =
      Some (if check_toks d' e ts then 0 else - FDT_ERR_BADSTRUCTURE)"
    if "0 \<le> d'" "d' \<le> d + 1" "e \<longrightarrow> d' = 0" for d' e
    using that ts Cons.prems sz by (intro Cons.IH) auto
  show ?case
  proof (cases t)
    case (TBegin n)
    have u: "u32 (d + 1) = d + 1" using Cons.prems(4,5) tb(2) by (intro u32_id) linarith+
    have "\<not> d + 1 > INT_MAX" using Cons.prems(5) tb(2) by linarith
    moreover have "ld8 b (hdr b H_off_dt_struct + off + 4) = Some (hd (n @ [0]))"
      using get_name_in(2) [OF b t [unfolded TBegin]]
      by (auto simp: rd_eq_iff hd_conv_nth dest: spec [of _ 0])
    ultimately show ?thesis
      using nx u IH [of "d + 1" ended] get_name_in(1) [OF b t [unfolded TBegin]] TBegin Cons.prems(4,6)
      by (subst check_full_loop.simps) (auto simp: Let_def)
  next
    case TEnd
    then show ?thesis
      using nx IH [of "d - 1" "d = 1"] Cons.prems(4,6)
      by (subst check_full_loop.simps) (auto simp: Let_def)
  next
    case (TProp no v)
    then obtain nm where "named b no nm" using Cons.prems(3) by auto
    then have "fdt_getprop_by_offset b off = Some (Ptr (hdr b H_off_dt_struct + off + 12),
        Ptr (hdr b H_off_dt_strings + no), int (length v))"
      using getprop_by_offset_in [OF b t [unfolded TProp]] by blast
    then show ?thesis
      using nx IH [of d ended] TProp Cons.prems(4,6) by (subst check_full_loop.simps) (auto simp: Let_def)
  next
    case TNop
    then show ?thesis
      using nx IH [of d ended] Cons.prems(4,6) by (subst check_full_loop.simps) (auto simp: Let_def)
  next
    case TFinish
    then show ?thesis using Cons.prems(2) by simp
  qed
qed

lemma check_full_toks:
  assumes b: "searchable b" "struct_items b ts its" "hdr b H_totalsize \<le> bufsize"
    and es: "rsv_at b (hdr b H_off_mem_rsvmap) (es @ [(0, 0)])"
      "hdr b H_off_mem_rsvmap + 16 * (int (length es) + 1) \<le> hdr b H_totalsize"
  shows "fdt_check_full b bufsize = Some (if check_toks 0 False ts then 0 else - FDT_ERR_BADSTRUCTURE)"
proof -
  note d = searchableD [OF b(1)]
  have l: "40 \<le> blen b" using backedD(1) [OF d(1)] .
  have h: "fdt_check_header b = Some 0" using header_check_iff [OF l] b(1) by (simp add: searchable_def)
  have "check_full_loop b 0 0 False = Some (if check_toks 0 False ts then 0 else - FDT_ERR_BADSTRUCTURE)"
    using struct_items_toks_in [OF b(2)] denotes_no_finish [OF b(2)] denotes_named [OF b(2)]
    by (intro check_full_loop_toks [OF b(1)]) auto
  moreover have "num_mem_rsv_loop b 0 = Some (int (length (takeWhile (\<lambda>e. snd e \<noteq> 0) es)))"
    using num_mem_rsv_loop_at [OF b(1), of 0 es] es by (simp add: algebra_simps)
  moreover have "fdt_header_size_i (hdr b H_version) \<le> hdr b H_totalsize" "28 \<le> hdr b H_totalsize"
    using b(1) d(6) by (auto simp: searchable_def header_ok_def Let_def fdt_header_size_i_def split: if_splits)
  ultimately show ?thesis
    using b(3) h d(1) by (simp add: fdt_check_full_def fdt_header_size_def fdt_num_mem_rsv_def)
qed

text \<open>The check over items.\<close>

fun check_items :: "int \<Rightarrow> bool \<Rightarrow> item list \<Rightarrow> bool" where
  "check_items d ended [] \<longleftrightarrow> d = 0"
| "check_items d ended (Begin n # is) \<longleftrightarrow> \<not> ended \<and> (d = 0 \<longrightarrow> n = []) \<and> check_items (d + 1) ended is"
| "check_items d ended (End # is) \<longleftrightarrow> \<not> ended \<and> d > 0 \<and> check_items (d - 1) (d = 1) is"
| "check_items d ended (Prop n v # is) \<longleftrightarrow> \<not> ended \<and> check_items d ended is"

lemma check_toks_items:
  "list_all2 (denotes b) ts its \<Longrightarrow> check_toks d ended ts = check_items d ended its"
proof (induction ts its arbitrary: d ended rule: list_all2_induct)
  case (Cons t ts i its)
  then show ?case by (cases t; cases i) auto
qed simp

lemma check_items_ended: "check_items d True is \<longleftrightarrow> is = [] \<and> d = 0"
  by (cases "is" rule: list.exhaust; simp) (metis check_items.simps(2-4) item.exhaust)

lemma check_items_flats:
  assumes "0 < d"
  shows "check_items d False (flats es @ rest) = check_items d False rest"
  using assms
proof (induction es arbitrary: d rest)
  case (Cons e es)
  have "check_items d False (flat e @ rest') = check_items d False rest'" if "0 < d" for d rest'
    using that
  proof (induction e arbitrary: d rest')
    case (ENode n fs)
    have "check_items d False (flats fs @ r) = check_items d False r" if "0 < d" for d r
      using ENode.IH that
    proof (induction fs arbitrary: r)
      case (Cons f fs)
      then show ?case by simp
    qed simp
    then show ?case using ENode.prems by simp
  qed simp
  then show ?case using Cons by simp
qed simp

text \<open>A body that checks ends where its node ends.\<close>

lemma check_items_split:
  assumes "check_items d False is" "0 < d"
  shows "\<exists>es rest. is = flats es @ End # rest \<and> check_items (d - 1) (d = 1) rest"
  using assms
proof (induction "is" arbitrary: d rule: length_induct)
  case (1 "is")
  show ?case
  proof (cases "is")
    case Nil
    then show ?thesis using 1(2,3) by simp
  next
    case (Cons i is')
    show ?thesis
    proof (cases i)
      case (Begin n)
      then have "check_items (d + 1) False is'" using 1(2) Cons by simp
      then obtain es rest where r: "is' = flats es @ End # rest" "check_items d (d + 1 = 1) rest"
        using spec [OF 1(1), of is'] 1(3) Cons by fastforce
      then have "check_items d False rest" "length rest < length is" using 1(3) Cons by simp_all
      then obtain fs rest' where r': "rest = flats fs @ End # rest'" "check_items (d - 1) (d = 1) rest'"
        using spec [OF 1(1), of rest] 1(3) by blast
      then have "is = flats (ENode n es # fs) @ End # rest'" using Cons Begin r by simp
      then show ?thesis using r'(2) by blast
    next
      case End
      then have "is = flats [] @ End # is'" "check_items (d - 1) (d = 1) is'" using 1(2) Cons by simp_all
      then show ?thesis by blast
    next
      case (Prop n v)
      then have "check_items d False is'" using 1(2) Cons by simp
      then obtain es rest where r: "is' = flats es @ End # rest" "check_items (d - 1) (d = 1) rest"
        using spec [OF 1(1), of is'] 1(3) Cons by auto
      then have "is = flats (EProp n v # es) @ End # rest" using Cons Prop by simp
      then show ?thesis using r(2) by blast
    qed
  qed
qed

text \<open>What passes: any number of properties outside every node, and then nothing more or a single root with an empty name and everything
  nested below it. So a structure block passes that has no node at all.\<close>

definition passing_items :: "item list \<Rightarrow> bool" where
  "passing_items is \<longleftrightarrow> (\<exists>ps es. list_all is_prop ps \<and> (is = ps \<or> is = ps @ flat (ENode [] es)))"

lemma check_items_tree: "check_items 0 False is \<longleftrightarrow> passing_items is"
proof
  assume "check_items 0 False is"
  then show "passing_items is"
  proof (induction "is")
    case Nil
    then show ?case by (auto simp: passing_items_def)
  next
    case (Cons i "is")
    show ?case
    proof (cases i)
      case (Begin n)
      then have "n = []" "check_items 1 False is" using Cons.prems by simp_all
      then obtain es rest where "is = flats es @ End # rest" "check_items 0 True rest"
        using check_items_split [of 1 "is"] by auto
      then have "i # is = [] @ flat (ENode [] es)" using Begin \<open>n = []\<close> by (simp add: check_items_ended)
      then show ?thesis unfolding passing_items_def by (intro exI [of _ "[]"] exI [of _ es]) simp
    next
      case End
      then show ?thesis using Cons.prems by simp
    next
      case (Prop n v)
      then obtain ps es where "list_all is_prop ps" "is = ps \<or> is = ps @ flat (ENode [] es)"
        using Cons by (auto simp: passing_items_def)
      then have "list_all is_prop (i # ps)" "i # is = i # ps \<or> i # is = (i # ps) @ flat (ENode [] es)"
        using Prop by auto
      then show ?thesis unfolding passing_items_def by blast
    qed
  qed
next
  assume "passing_items is"
  then obtain ps es where a: "list_all is_prop ps" "is = ps \<or> is = ps @ flat (ENode [] es)"
    by (auto simp: passing_items_def)
  have "check_items 0 False (ps @ r) = check_items 0 False r" for r
    using a(1)
  proof (induction ps)
    case (Cons p ps)
    then show ?case by (cases p) auto
  qed simp
  from this [of "[]"] this [of "flat (ENode [] es)"] show "check_items 0 False is"
    using a(2) check_items_flats [of 1 es "[End]"] by auto
qed

lemma check_full_items:
  assumes b: "searchable b" "struct_items b ts its" "TNop \<notin> set ts" "hdr b H_totalsize \<le> bufsize"
    and es: "rsv_at b (hdr b H_off_mem_rsvmap) (es @ [(0, 0)])"
      "hdr b H_off_mem_rsvmap + 16 * (int (length es) + 1) \<le> hdr b H_totalsize"
  shows "fdt_check_full b bufsize = Some (if passing_items its then 0 else - FDT_ERR_BADSTRUCTURE)"
proof -
  have "filter (\<lambda>t. t \<noteq> TNop) ts = ts" using b(3) by (auto intro: filter_True)
  then have "list_all2 (denotes b) ts its" using b(2) by (simp add: struct_items_def)
  then show ?thesis
    using check_full_toks [OF b(1,2,4) es] check_toks_items check_items_tree by simp
qed

end
