(* ===== verification/Fdt_Strerror.thy ===== *)
theory Fdt_Strerror
  imports Fdt_Header
begin

text \<open>\<open>fdt_strerror.c\<close>: the table of error names and the lookup in it. The entry of an index the
  table does not name is a \<open>NULL\<close> pointer.\<close>

definition fdt_errtable :: "string option list" where
  "fdt_errtable =
     [None,
      Some ''FDT_ERR_NOTFOUND'', Some ''FDT_ERR_EXISTS'', Some ''FDT_ERR_NOSPACE'',
      Some ''FDT_ERR_BADOFFSET'', Some ''FDT_ERR_BADPATH'', Some ''FDT_ERR_BADPHANDLE'',
      Some ''FDT_ERR_BADSTATE'',
      Some ''FDT_ERR_TRUNCATED'', Some ''FDT_ERR_BADMAGIC'', Some ''FDT_ERR_BADVERSION'',
      Some ''FDT_ERR_BADSTRUCTURE'', Some ''FDT_ERR_BADLAYOUT'', Some ''FDT_ERR_INTERNAL'',
      Some ''FDT_ERR_BADNCELLS'', Some ''FDT_ERR_BADVALUE'', Some ''FDT_ERR_BADOVERLAY'',
      Some ''FDT_ERR_NOPHANDLES'', Some ''FDT_ERR_BADFLAGS'']"

definition FDT_ERRTABSIZE :: int where
  "FDT_ERRTABSIZE = int (length fdt_errtable)"

definition fdt_strerror :: "int \<Rightarrow> string" where
  "fdt_strerror errval =
     (if errval > 0 then ''<valid offset/length>''
      else if errval = 0 then ''<no error>''
      else if - errval < FDT_ERRTABSIZE then
        (case fdt_errtable ! nat (- errval) of
           Some s \<Rightarrow> s
         | None \<Rightarrow> ''<unknown error>'')
      else ''<unknown error>'')"

section \<open>Properties\<close>

lemma fdt_strerror_alt:
  "e < 0 \<Longrightarrow> fdt_strerror e =
     (if - e < 19 then case fdt_errtable ! nat (- e) of Some s \<Rightarrow> s | None \<Rightarrow> ''<unknown error>''
      else ''<unknown error>'')"
  by (simp add: fdt_strerror_def FDT_ERRTABSIZE_def fdt_errtable_def)

lemma errtable_names:
  "\<forall>i \<in> set [1..<19]. fdt_errtable ! i \<noteq> None \<and> fdt_errtable ! i \<noteq> Some ''<unknown error>'' \<and>
     list_all (\<lambda>j. j = i \<or> fdt_errtable ! j \<noteq> fdt_errtable ! i) [1..<19]"
  by code_simp

text \<open>\<open>fdt_strerror\<close> names the error codes 1 to 18, each with a name of its own, and no other negative
  value: in particular \<open>FDT_ERR_ALIGNMENT\<close>, which is within \<open>FDT_ERR_MAX\<close>, is an unknown
  error.\<close>

theorem fdt_strerror_names:
  assumes "e < 0"
  shows "(fdt_strerror e = ''<unknown error>'' \<longleftrightarrow> e < - 18) \<and>
    fdt_strerror (- FDT_ERR_ALIGNMENT) = ''<unknown error>'' \<and>
    (\<forall>e' < 0. fdt_strerror e' = fdt_strerror e \<longrightarrow> e' = e \<or> e < - 18)"
proof -
  have nm: "\<exists>s. fdt_strerror e = s \<and> fdt_errtable ! nat (- e) = Some s \<and> s \<noteq> ''<unknown error>''"
    if "- 18 \<le> e" "e < 0" for e
  proof -
    have "nat (- e) \<in> set [1..<19]" using that by auto
    with errtable_names obtain s where "fdt_errtable ! nat (- e) = Some s" "s \<noteq> ''<unknown error>''" by blast
    then show ?thesis using that by (simp add: fdt_strerror_alt)
  qed
  have un: "fdt_strerror e = ''<unknown error>''" if "e < - 18" for e
    using that by (simp add: fdt_strerror_alt)
  have inj: "e' = e" if e: "- 18 \<le> e" "e < 0" and e': "e' < 0" "fdt_strerror e' = fdt_strerror e" for e e'
  proof -
    have r: "- 18 \<le> e'" using un [of e'] nm [OF e] e' by fastforce
    then have "nat (- e) \<in> set [1..<19]" "nat (- e') \<in> set [1..<19]" using e e' by auto
    then have "nat (- e') = nat (- e)"
      using errtable_names [unfolded list_all_iff] nm [OF e] nm [OF r e'(1)] e'(2) by metis
    then show ?thesis using e e'(1) by linarith
  qed
  show ?thesis using nm [of e] un [of e] un [of "- 19"] inj [of e] assms by fastforce
qed

theorem fdt_strerror_names_witness:
  "fdt_strerror (- 4) \<noteq> ''<unknown error>'' \<and> fdt_strerror (- 19) = ''<unknown error>''"
  using fdt_strerror_names [of "- 4"] by simp

end
