(* ===== verification/Fdt_Wip.thy ===== *)
theory Fdt_Wip
  imports Fdt_Ro
begin

text \<open>
  The write-in-place functions of libfdt, \<open>fdt_wip.c\<close>: they change values and blank out
  properties and nodes without moving anything.
\<close>

definition fdt_setprop_inplace_namelen_partial ::
  "blob \<Rightarrow> int \<Rightarrow> u8 list \<Rightarrow> int \<Rightarrow> int \<Rightarrow> u8 list \<Rightarrow> int \<Rightarrow> (int \<times> blob) option" where
  "fdt_setprop_inplace_namelen_partial fdt nodeoffset name namelen idx val len = do {
     (propval, proplen) \<leftarrow> fdt_getprop_namelen fdt nodeoffset name namelen;
     (case propval of
        NULL \<Rightarrow> Some (proplen, fdt)
      | Ptr p \<Rightarrow>
          if u32 proplen < u32 (len + idx) then Some (- FDT_ERR_NOSPACE, fdt)
          else do { fdt \<leftarrow> memcpy_in fdt (p + idx) val len; Some (0, fdt) }) }"

definition fdt_setprop_inplace ::
  "blob \<Rightarrow> int \<Rightarrow> cstring \<Rightarrow> u8 list \<Rightarrow> int \<Rightarrow> (int \<times> blob) option" where
  "fdt_setprop_inplace fdt nodeoffset name val len = do {
     (propval, proplen) \<leftarrow> fdt_getprop fdt nodeoffset name;
     (case propval of
        NULL \<Rightarrow> Some (proplen, fdt)
      | Ptr p \<Rightarrow>
          if proplen \<noteq> len then Some (- FDT_ERR_NOSPACE, fdt)
          else fdt_setprop_inplace_namelen_partial fdt nodeoffset name (cstrlen name) 0 val len) }"

text \<open>The inline wrappers of libfdt.h.\<close>

definition fdt_setprop_inplace_u32 :: "blob \<Rightarrow> int \<Rightarrow> cstring \<Rightarrow> int \<Rightarrow> (int \<times> blob) option" where
  "fdt_setprop_inplace_u32 fdt nodeoffset name val =
     fdt_setprop_inplace fdt nodeoffset name (bytes32 val) 4"

definition fdt_setprop_inplace_u64 :: "blob \<Rightarrow> int \<Rightarrow> cstring \<Rightarrow> int \<Rightarrow> (int \<times> blob) option" where
  "fdt_setprop_inplace_u64 fdt nodeoffset name val =
     fdt_setprop_inplace fdt nodeoffset name (bytes64 val) 8"

definition fdt_setprop_inplace_cell :: "blob \<Rightarrow> int \<Rightarrow> cstring \<Rightarrow> int \<Rightarrow> (int \<times> blob) option" where
  "fdt_setprop_inplace_cell fdt nodeoffset name val =
     fdt_setprop_inplace_u32 fdt nodeoffset name val"

text \<open>\<open>fdt_nop_region_\<close> stores a NOP tag at every \<open>p\<close> from \<open>start\<close> while \<open>p < start + len\<close>.\<close>

function nop_region_loop :: "blob \<Rightarrow> int \<Rightarrow> int \<Rightarrow> blob option" where
  "nop_region_loop fdt p end_ptr =
     (if p < end_ptr then do {
        fdt \<leftarrow> fdt32_st fdt p FDT_NOP;
        nop_region_loop fdt (p + 4) end_ptr }
      else Some fdt)"
  by pat_completeness auto
termination
  by (relation "measure (\<lambda>(fdt, p, end_ptr). nat (end_ptr - p))") auto

declare nop_region_loop.simps [simp del]

definition fdt_nop_region_i :: "blob \<Rightarrow> int \<Rightarrow> int \<Rightarrow> blob option" where
  "fdt_nop_region_i fdt start len = nop_region_loop fdt start (start + len)"

definition fdt_nop_property :: "blob \<Rightarrow> int \<Rightarrow> cstring \<Rightarrow> (int \<times> blob) option" where
  "fdt_nop_property fdt nodeoffset name = do {
     (prp, len) \<leftarrow> fdt_get_property fdt nodeoffset name;
     (case prp of
        NULL \<Rightarrow> Some (len, fdt)
      | Ptr p \<Rightarrow> do {
          fdt \<leftarrow> fdt_nop_region_i fdt p (s32 (len + 12));
          Some (0, fdt) }) }"

partial_function (option) node_end_offset_loop :: "blob \<Rightarrow> int \<Rightarrow> int \<Rightarrow> int option" where
  "node_end_offset_loop fdt offset depth =
     (if offset \<ge> 0 \<and> depth \<ge> 0 then do {
        (offset', depth') \<leftarrow> fdt_next_node fdt offset (Some depth);
        (case depth' of
           None \<Rightarrow> None
         | Some d \<Rightarrow> node_end_offset_loop fdt offset' d) }
      else Some offset)"

definition fdt_node_end_offset_i :: "blob \<Rightarrow> int \<Rightarrow> int option" where
  "fdt_node_end_offset_i fdt offset = node_end_offset_loop fdt offset 0"

definition fdt_nop_node :: "blob \<Rightarrow> int \<Rightarrow> (int \<times> blob) option" where
  "fdt_nop_node fdt nodeoffset = do {
     endoffset \<leftarrow> fdt_node_end_offset_i fdt nodeoffset;
     if endoffset < 0 then Some (endoffset, fdt)
     else do {
       start \<leftarrow> fdt_offset_ptr fdt nodeoffset 0;
       (case start of
          NULL \<Rightarrow> None
        | Ptr p \<Rightarrow> do {
            fdt \<leftarrow> fdt_nop_region_i fdt p (endoffset - nodeoffset);
            Some (0, fdt) }) } }"

declare node_end_offset_loop.simps [code]

end
