(* ===== verification/Fdt_Rw.thy ===== *)
theory Fdt_Rw
  imports Fdt_Wip
begin

text \<open>
  The read-write functions of libfdt, \<open>fdt_rw.c\<close>. They insert and delete bytes in the middle of
  a blob whose blocks are in the order reserve map, structure, strings; every operation
  returns its result code and the blob. A position in the blob is its distance from the
  start, as everywhere.
\<close>

section \<open>Layout\<close>

definition fdt_blocks_misordered_i :: "blob \<Rightarrow> int \<Rightarrow> int \<Rightarrow> bool option" where
  "fdt_blocks_misordered_i fdt mem_rsv_size struct_size = do {
     off_mem_rsvmap \<leftarrow> fdt_off_mem_rsvmap fdt;
     off_dt_struct \<leftarrow> fdt_off_dt_struct fdt;
     off_dt_strings \<leftarrow> fdt_off_dt_strings fdt;
     totalsize \<leftarrow> fdt_totalsize fdt;
     size_dt_strings \<leftarrow> fdt_size_dt_strings fdt;
     Some (off_mem_rsvmap < FDT_ALIGN 40 8
       \<or> off_dt_struct < u32 (off_mem_rsvmap + mem_rsv_size)
       \<or> off_dt_strings < u32 (off_dt_struct + struct_size)
       \<or> totalsize < u32 (off_dt_strings + size_dt_strings)) }"

definition fdt_rw_probe_i :: "blob \<Rightarrow> (int \<times> blob) option" where
  "fdt_rw_probe_i fdt =
     (if can_assume VALID_DTB then Some (0, fdt)
      else do {
        totalsize \<leftarrow> fdt_ro_probe_i fdt;
        if totalsize < 0 then Some (totalsize, fdt)
        else do {
          version \<leftarrow> fdt_version fdt;
          if \<not> can_assume LATEST \<and> version < 17 then Some (- FDT_ERR_BADVERSION, fdt)
          else do {
            size_dt_struct \<leftarrow> fdt_size_dt_struct fdt;
            misordered \<leftarrow> fdt_blocks_misordered_i fdt 16 (s32 size_dt_struct);
            if misordered then Some (- FDT_ERR_BADLAYOUT, fdt)
            else if \<not> can_assume LATEST \<and> version > 17 then do {
              fdt \<leftarrow> fdt_set_version fdt 17;
              Some (0, fdt) }
            else Some (0, fdt) } } })"

text \<open>The macro \<open>FDT_RW_PROBE\<close>: return the error, or go on with the probed blob.\<close>

definition FDT_RW_PROBE :: "blob \<Rightarrow> (blob \<Rightarrow> (int \<times> blob) option) \<Rightarrow> (int \<times> blob) option" where
  "FDT_RW_PROBE fdt k = do {
     (err, fdt) \<leftarrow> fdt_rw_probe_i fdt;
     if err \<noteq> 0 then Some (err, fdt) else k fdt }"

definition fdt_data_size_i :: "blob \<Rightarrow> int option" where
  "fdt_data_size_i fdt = do {
     off_dt_strings \<leftarrow> fdt_off_dt_strings fdt;
     size_dt_strings \<leftarrow> fdt_size_dt_strings fdt;
     Some (u32 (off_dt_strings + size_dt_strings)) }"

section \<open>Splicing\<close>

text \<open>\<open>fdt_splice_\<close> replaces \<open>oldlen\<close> bytes at \<open>p\<close> by room for \<open>newlen\<close> bytes: it moves what is behind
  them, up to the end of the strings block.\<close>

definition fdt_splice_i :: "blob \<Rightarrow> int \<Rightarrow> int \<Rightarrow> int \<Rightarrow> (int \<times> blob) option" where
  "fdt_splice_i fdt p oldlen newlen = do {
     dsize \<leftarrow> fdt_data_size_i fdt;
     let soff = u64 p;
     totalsize \<leftarrow> fdt_totalsize fdt;
     if oldlen < 0 \<or> u64 (soff + oldlen) < soff \<or> u64 (soff + oldlen) > dsize
     then Some (- FDT_ERR_BADOFFSET, fdt)
     else if p < 0 \<or> u32 (dsize + newlen) < u32 oldlen then Some (- FDT_ERR_BADOFFSET, fdt)
     else if u32 (dsize - oldlen + newlen) > totalsize then Some (- FDT_ERR_NOSPACE, fdt)
     else do {
       fdt \<leftarrow> memmove fdt (p + newlen) (p + oldlen) (dsize - (p + oldlen));
       Some (0, fdt) } }"

definition fdt_splice_mem_rsv_i :: "blob \<Rightarrow> int \<Rightarrow> int \<Rightarrow> int \<Rightarrow> (int \<times> blob) option" where
  "fdt_splice_mem_rsv_i fdt p oldn newn = do {
     let delta = s32 ((newn - oldn) * 16);
     (err, fdt) \<leftarrow> fdt_splice_i fdt p (s32 (oldn * 16)) (s32 (newn * 16));
     if err \<noteq> 0 then Some (err, fdt)
     else do {
       off_dt_struct \<leftarrow> fdt_off_dt_struct fdt;
       fdt \<leftarrow> fdt_set_off_dt_struct fdt (off_dt_struct + delta);
       off_dt_strings \<leftarrow> fdt_off_dt_strings fdt;
       fdt \<leftarrow> fdt_set_off_dt_strings fdt (off_dt_strings + delta);
       Some (0, fdt) } }"

definition fdt_splice_struct_i :: "blob \<Rightarrow> int \<Rightarrow> int \<Rightarrow> int \<Rightarrow> (int \<times> blob) option" where
  "fdt_splice_struct_i fdt p oldlen newlen = do {
     let delta = s32 (newlen - oldlen);
     (err, fdt) \<leftarrow> fdt_splice_i fdt p oldlen newlen;
     if err \<noteq> 0 then Some (err, fdt)
     else do {
       size_dt_struct \<leftarrow> fdt_size_dt_struct fdt;
       fdt \<leftarrow> fdt_set_size_dt_struct fdt (size_dt_struct + delta);
       off_dt_strings \<leftarrow> fdt_off_dt_strings fdt;
       fdt \<leftarrow> fdt_set_off_dt_strings fdt (off_dt_strings + delta);
       Some (0, fdt) } }"

definition rw_del_last_string_i :: "blob \<Rightarrow> cstring \<Rightarrow> blob option" where
  "rw_del_last_string_i fdt s = do {
     let newlen = s32 (cstrlen s + 1);
     size_dt_strings \<leftarrow> fdt_size_dt_strings fdt;
     fdt_set_size_dt_strings fdt (size_dt_strings - newlen) }"

definition fdt_splice_string_i :: "blob \<Rightarrow> int \<Rightarrow> (int \<times> blob) option" where
  "fdt_splice_string_i fdt newlen = do {
     off_dt_strings \<leftarrow> fdt_off_dt_strings fdt;
     size_dt_strings \<leftarrow> fdt_size_dt_strings fdt;
     let p = off_dt_strings + size_dt_strings;
     (err, fdt) \<leftarrow> fdt_splice_i fdt p 0 newlen;
     if err \<noteq> 0 then Some (err, fdt)
     else do {
       size_dt_strings \<leftarrow> fdt_size_dt_strings fdt;
       fdt \<leftarrow> fdt_set_size_dt_strings fdt (size_dt_strings + newlen);
       Some (0, fdt) } }"

text \<open>The offset of the string in the strings block or an error, \<open>*allocated\<close> and the blob.\<close>

definition rw_find_add_string_i :: "blob \<Rightarrow> cstring \<Rightarrow> (int \<times> bool \<times> blob) option" where
  "rw_find_add_string_i fdt s = do {
     strtab \<leftarrow> fdt_off_dt_strings fdt;
     let len = s32 (cstrlen s + 1);
     size_dt_strings \<leftarrow> fdt_size_dt_strings fdt;
     p \<leftarrow> fdt_find_string_i fdt strtab (s32 size_dt_strings) s;
     (case p of
        Ptr q \<Rightarrow> Some (s32 (q - strtab), False, fdt)
      | NULL \<Rightarrow> do {
          let new = strtab + size_dt_strings;
          (err, fdt) \<leftarrow> fdt_splice_string_i fdt len;
          if err \<noteq> 0 then Some (err, False, fdt)
          else do {
            fdt \<leftarrow> memcpy_in fdt new (s @ [0]) len;
            Some (s32 (new - strtab), True, fdt) } }) }"

section \<open>The reserve map\<close>

definition fdt_add_mem_rsv :: "blob \<Rightarrow> int \<Rightarrow> int \<Rightarrow> (int \<times> blob) option" where
  "fdt_add_mem_rsv fdt address sz = FDT_RW_PROBE fdt (\<lambda>fdt. do {
     n \<leftarrow> fdt_num_mem_rsv fdt;
     re \<leftarrow> fdt_mem_rsv_i fdt n;
     (err, fdt) \<leftarrow> fdt_splice_mem_rsv_i fdt re 0 1;
     if err \<noteq> 0 then Some (err, fdt)
     else do {
       fdt \<leftarrow> fdt64_st fdt re address;
       fdt \<leftarrow> fdt64_st fdt (re + 8) sz;
       Some (0, fdt) } })"

definition fdt_del_mem_rsv :: "blob \<Rightarrow> int \<Rightarrow> (int \<times> blob) option" where
  "fdt_del_mem_rsv fdt n = do {
     re \<leftarrow> fdt_mem_rsv_i fdt n;
     FDT_RW_PROBE fdt (\<lambda>fdt. do {
       num \<leftarrow> fdt_num_mem_rsv fdt;
       if n \<ge> num then Some (- FDT_ERR_NOTFOUND, fdt)
       else fdt_splice_mem_rsv_i fdt re 1 0 }) }"

section \<open>Properties\<close>

text \<open>\<open>fdt_resize_property_\<close> and \<open>fdt_add_property_\<close> return the result code, \<open>*prop\<close> and the blob.\<close>

definition fdt_resize_property_i ::
  "blob \<Rightarrow> int \<Rightarrow> cstring \<Rightarrow> int \<Rightarrow> (int \<times> ptr \<times> blob) option" where
  "fdt_resize_property_i fdt nodeoffset name len = do {
     (prp, oldlen) \<leftarrow> fdt_get_property fdt nodeoffset name;
     (case prp of
        NULL \<Rightarrow> Some (oldlen, NULL, fdt)
      | Ptr p \<Rightarrow> do {
          (err, fdt) \<leftarrow> fdt_splice_struct_i fdt (p + 12) (s32 (FDT_TAGALIGN oldlen))
                         (s32 (FDT_TAGALIGN len));
          if err \<noteq> 0 then Some (err, prp, fdt)
          else do {
            fdt \<leftarrow> fdt32_st fdt (p + 4) len;
            Some (0, prp, fdt) } }) }"

definition fdt_add_property_i ::
  "blob \<Rightarrow> int \<Rightarrow> cstring \<Rightarrow> int \<Rightarrow> (int \<times> ptr \<times> blob) option" where
  "fdt_add_property_i fdt nodeoffset name len = do {
     nextoffset \<leftarrow> fdt_check_node_offset_i fdt nodeoffset;
     if nextoffset < 0 then Some (nextoffset, NULL, fdt)
     else do {
       (namestroff, allocated, fdt) \<leftarrow> rw_find_add_string_i fdt name;
       if namestroff < 0 then Some (namestroff, NULL, fdt)
       else do {
         p \<leftarrow> fdt_offset_ptr_i fdt nextoffset;
         let proplen = s32 (12 + FDT_TAGALIGN len);
         (err, fdt) \<leftarrow> fdt_splice_struct_i fdt p 0 proplen;
         if err \<noteq> 0 then do {
           fdt \<leftarrow> (if \<not> can_assume NO_ROLLBACK \<and> allocated then rw_del_last_string_i fdt name
                   else Some fdt);
           Some (err, Ptr p, fdt) }
         else do {
           fdt \<leftarrow> fdt32_st fdt p FDT_PROP;
           fdt \<leftarrow> fdt32_st fdt (p + 8) namestroff;
           fdt \<leftarrow> fdt32_st fdt (p + 4) len;
           Some (0, Ptr p, fdt) } } } }"

definition fdt_set_name :: "blob \<Rightarrow> int \<Rightarrow> cstring \<Rightarrow> (int \<times> blob) option" where
  "fdt_set_name fdt nodeoffset name = FDT_RW_PROBE fdt (\<lambda>fdt. do {
     (namep, oldlen) \<leftarrow> fdt_get_name fdt nodeoffset;
     (case namep of
        NULL \<Rightarrow> Some (oldlen, fdt)
      | Ptr p \<Rightarrow> do {
          let newlen = s32 (cstrlen name);
          (err, fdt) \<leftarrow> fdt_splice_struct_i fdt p (s32 (FDT_TAGALIGN (oldlen + 1)))
                         (s32 (FDT_TAGALIGN (newlen + 1)));
          if err \<noteq> 0 then Some (err, fdt)
          else do {
            fdt \<leftarrow> memcpy_in fdt p (name @ [0]) (newlen + 1);
            Some (0, fdt) } }) })"

text \<open>The result code, \<open>*prop_data\<close> and the blob.\<close>

definition fdt_setprop_placeholder ::
  "blob \<Rightarrow> int \<Rightarrow> cstring \<Rightarrow> int \<Rightarrow> (int \<times> ptr \<times> blob) option" where
  "fdt_setprop_placeholder fdt nodeoffset name len = do {
     (err, fdt) \<leftarrow> fdt_rw_probe_i fdt;
     if err \<noteq> 0 then Some (err, NULL, fdt)
     else do {
       (err, prp, fdt) \<leftarrow> fdt_resize_property_i fdt nodeoffset name len;
       (err, prp, fdt) \<leftarrow>
         (if err = - FDT_ERR_NOTFOUND then fdt_add_property_i fdt nodeoffset name len
          else Some (err, prp, fdt));
       if err \<noteq> 0 then Some (err, NULL, fdt)
       else (case prp of
               NULL \<Rightarrow> None
             | Ptr p \<Rightarrow> Some (0, Ptr (p + 12), fdt)) } }"

definition fdt_setprop :: "blob \<Rightarrow> int \<Rightarrow> cstring \<Rightarrow> u8 list \<Rightarrow> int \<Rightarrow> (int \<times> blob) option" where
  "fdt_setprop fdt nodeoffset name val len = do {
     (err, prop_data, fdt) \<leftarrow> fdt_setprop_placeholder fdt nodeoffset name len;
     if err \<noteq> 0 then Some (err, fdt)
     else if len \<noteq> 0 then
       (case prop_data of
          NULL \<Rightarrow> None
        | Ptr d \<Rightarrow> do { fdt \<leftarrow> memcpy_in fdt d val len; Some (0, fdt) })
     else Some (0, fdt) }"

definition fdt_appendprop :: "blob \<Rightarrow> int \<Rightarrow> cstring \<Rightarrow> u8 list \<Rightarrow> int \<Rightarrow> (int \<times> blob) option" where
  "fdt_appendprop fdt nodeoffset name val len = FDT_RW_PROBE fdt (\<lambda>fdt. do {
     (prp, oldlen) \<leftarrow> fdt_get_property fdt nodeoffset name;
     (case prp of
        Ptr p \<Rightarrow> do {
          let newlen = s32 (len + oldlen);
          (err, fdt) \<leftarrow> fdt_splice_struct_i fdt (p + 12) (s32 (FDT_TAGALIGN oldlen))
                         (s32 (FDT_TAGALIGN newlen));
          if err \<noteq> 0 then Some (err, fdt)
          else do {
            fdt \<leftarrow> fdt32_st fdt (p + 4) newlen;
            fdt \<leftarrow> memcpy_in fdt (p + 12 + oldlen) val len;
            Some (0, fdt) } }
      | NULL \<Rightarrow> do {
          (err, prp, fdt) \<leftarrow> fdt_add_property_i fdt nodeoffset name len;
          if err \<noteq> 0 then Some (err, fdt)
          else (case prp of
                  NULL \<Rightarrow> None
                | Ptr p \<Rightarrow> do { fdt \<leftarrow> memcpy_in fdt (p + 12) val len; Some (0, fdt) }) }) })"

definition fdt_delprop :: "blob \<Rightarrow> int \<Rightarrow> cstring \<Rightarrow> (int \<times> blob) option" where
  "fdt_delprop fdt nodeoffset name = FDT_RW_PROBE fdt (\<lambda>fdt. do {
     (prp, len) \<leftarrow> fdt_get_property fdt nodeoffset name;
     (case prp of
        NULL \<Rightarrow> Some (len, fdt)
      | Ptr p \<Rightarrow> fdt_splice_struct_i fdt p (s32 (12 + FDT_TAGALIGN len)) 0) })"

text \<open>The inline wrappers of libfdt.h.\<close>

definition fdt_setprop_u32 :: "blob \<Rightarrow> int \<Rightarrow> cstring \<Rightarrow> int \<Rightarrow> (int \<times> blob) option" where
  "fdt_setprop_u32 fdt nodeoffset name val = fdt_setprop fdt nodeoffset name (bytes32 val) 4"

definition fdt_setprop_u64 :: "blob \<Rightarrow> int \<Rightarrow> cstring \<Rightarrow> int \<Rightarrow> (int \<times> blob) option" where
  "fdt_setprop_u64 fdt nodeoffset name val = fdt_setprop fdt nodeoffset name (bytes64 val) 8"

definition fdt_setprop_cell :: "blob \<Rightarrow> int \<Rightarrow> cstring \<Rightarrow> int \<Rightarrow> (int \<times> blob) option" where
  "fdt_setprop_cell fdt nodeoffset name val = fdt_setprop_u32 fdt nodeoffset name val"

definition fdt_appendprop_u32 :: "blob \<Rightarrow> int \<Rightarrow> cstring \<Rightarrow> int \<Rightarrow> (int \<times> blob) option" where
  "fdt_appendprop_u32 fdt nodeoffset name val = fdt_appendprop fdt nodeoffset name (bytes32 val) 4"

definition fdt_appendprop_u64 :: "blob \<Rightarrow> int \<Rightarrow> cstring \<Rightarrow> int \<Rightarrow> (int \<times> blob) option" where
  "fdt_appendprop_u64 fdt nodeoffset name val = fdt_appendprop fdt nodeoffset name (bytes64 val) 8"

definition fdt_appendprop_cell :: "blob \<Rightarrow> int \<Rightarrow> cstring \<Rightarrow> int \<Rightarrow> (int \<times> blob) option" where
  "fdt_appendprop_cell fdt nodeoffset name val = fdt_appendprop_u32 fdt nodeoffset name val"

section \<open>Nodes\<close>

text \<open>The \<open>do \<dots> while\<close> of \<open>fdt_add_subnode_namelen\<close>: the offset behind the properties.\<close>

partial_function (option) skip_properties :: "blob \<Rightarrow> int \<Rightarrow> int option" where
  "skip_properties fdt nextoffset = do {
     let offset = nextoffset;
     (tag, nextoffset) \<leftarrow> fdt_next_tag fdt offset;
     if tag = FDT_PROP \<or> tag = FDT_NOP then skip_properties fdt nextoffset
     else Some offset }"

definition fdt_add_subnode_namelen :: "blob \<Rightarrow> int \<Rightarrow> u8 list \<Rightarrow> int \<Rightarrow> (int \<times> blob) option" where
  "fdt_add_subnode_namelen fdt parentoffset name namelen = FDT_RW_PROBE fdt (\<lambda>fdt. do {
     offset \<leftarrow> fdt_subnode_offset_namelen fdt parentoffset name namelen;
     if offset \<ge> 0 then Some (- FDT_ERR_EXISTS, fdt)
     else if offset \<noteq> - FDT_ERR_NOTFOUND then Some (offset, fdt)
     else do {
       (tag, nextoffset) \<leftarrow> fdt_next_tag fdt parentoffset;
       if \<not> can_assume LIBFDT_FLAWLESS \<and> tag \<noteq> FDT_BEGIN_NODE then Some (- FDT_ERR_INTERNAL, fdt)
       else do {
         offset \<leftarrow> skip_properties fdt nextoffset;
         nh \<leftarrow> fdt_offset_ptr_i fdt offset;
         let nodelen = s32 (4 + FDT_TAGALIGN (namelen + 1) + FDT_TAGSIZE);
         (err, fdt) \<leftarrow> fdt_splice_struct_i fdt nh 0 nodelen;
         if err \<noteq> 0 then Some (err, fdt)
         else do {
           fdt \<leftarrow> fdt32_st fdt nh FDT_BEGIN_NODE;
           fdt \<leftarrow> memset fdt (nh + 4) 0 (FDT_TAGALIGN (namelen + 1));
           fdt \<leftarrow> memcpy_in fdt (nh + 4) name namelen;
           fdt \<leftarrow> fdt32_st fdt (nh + nodelen - FDT_TAGSIZE) FDT_END_NODE;
           Some (offset, fdt) } } } })"

definition fdt_add_subnode :: "blob \<Rightarrow> int \<Rightarrow> cstring \<Rightarrow> (int \<times> blob) option" where
  "fdt_add_subnode fdt parentoffset name =
     fdt_add_subnode_namelen fdt parentoffset name (cstrlen name)"

definition fdt_del_node :: "blob \<Rightarrow> int \<Rightarrow> (int \<times> blob) option" where
  "fdt_del_node fdt nodeoffset = FDT_RW_PROBE fdt (\<lambda>fdt. do {
     endoffset \<leftarrow> fdt_node_end_offset_i fdt nodeoffset;
     if endoffset < 0 then Some (endoffset, fdt)
     else do {
       p \<leftarrow> fdt_offset_ptr_i fdt nodeoffset;
       fdt_splice_struct_i fdt p (endoffset - nodeoffset) 0 } })"

section \<open>Packing and opening\<close>

text \<open>\<open>fdt_packblocks_\<close> and \<open>fdt_open_into\<close> take two pointers that may overlap: \<open>old\<close> and \<open>new\<close>, \<open>fdt\<close>
  and \<open>buf\<close> are positions in one memory.\<close>

definition fdt_packblocks_i :: "blob \<Rightarrow> int \<Rightarrow> int \<Rightarrow> int \<Rightarrow> int \<Rightarrow> int \<Rightarrow> blob option" where
  "fdt_packblocks_i m old new mem_rsv_size struct_size strings_size = do {
     let mem_rsv_off = FDT_ALIGN 40 8;
     let struct_off = s32 (mem_rsv_off + mem_rsv_size);
     let strings_off = s32 (struct_off + struct_size);
     off_mem_rsvmap \<leftarrow> fdt_off_mem_rsvmap (view m old);
     m \<leftarrow> memmove m (new + mem_rsv_off) (old + off_mem_rsvmap) mem_rsv_size;
     m \<leftarrow> on_view m new (\<lambda>b. fdt_set_off_mem_rsvmap b mem_rsv_off);
     off_dt_struct \<leftarrow> fdt_off_dt_struct (view m old);
     m \<leftarrow> memmove m (new + struct_off) (old + off_dt_struct) struct_size;
     m \<leftarrow> on_view m new (\<lambda>b. fdt_set_off_dt_struct b struct_off);
     m \<leftarrow> on_view m new (\<lambda>b. fdt_set_size_dt_struct b struct_size);
     off_dt_strings \<leftarrow> fdt_off_dt_strings (view m old);
     m \<leftarrow> memmove m (new + strings_off) (old + off_dt_strings) strings_size;
     m \<leftarrow> on_view m new (\<lambda>b. fdt_set_off_dt_strings b strings_off);
     size_dt_strings \<leftarrow> fdt_size_dt_strings (view m old);
     on_view m new (\<lambda>b. fdt_set_size_dt_strings b size_dt_strings) }"

text \<open>The loop of \<open>fdt_open_into\<close> that measures the structure block of a version 16 blob.\<close>

partial_function (option) struct_size_loop :: "blob \<Rightarrow> int \<Rightarrow> int option" where
  "struct_size_loop fdt struct_size = do {
     (tag, struct_size) \<leftarrow> fdt_next_tag fdt struct_size;
     if tag \<noteq> FDT_END then struct_size_loop fdt struct_size else Some struct_size }"

definition fdt_open_into :: "blob \<Rightarrow> int \<Rightarrow> int \<Rightarrow> int \<Rightarrow> (int \<times> blob) option" where
  "fdt_open_into m fdt buf bufsize = do {
     totalsize \<leftarrow> fdt_totalsize (view m fdt);
     let fdtend = fdt + totalsize;
     probe \<leftarrow> fdt_ro_probe_i (view m fdt);
     if probe < 0 then Some (probe, m)
     else do {
       num \<leftarrow> fdt_num_mem_rsv (view m fdt);
       let mem_rsv_size = s32 ((num + 1) * 16);
       version \<leftarrow> fdt_version (view m fdt);
       struct_size \<leftarrow>
         (if can_assume LATEST \<or> version \<ge> 17 then do {
            n \<leftarrow> fdt_size_dt_struct (view m fdt); Some (Inr (s32 n)) }
          else if version = 16 then do {
            n \<leftarrow> struct_size_loop (view m fdt) 0;
            Some (if n < 0 then Inl n else Inr n) }
          else Some (Inl (- FDT_ERR_BADVERSION)));
       (case struct_size of
          Inl err \<Rightarrow> Some (err, m)
        | Inr struct_size \<Rightarrow> do {
            misordered \<leftarrow> fdt_blocks_misordered_i (view m fdt) mem_rsv_size struct_size;
            if can_assume LIBFDT_ORDER \<or> \<not> misordered then do {
              (err, m) \<leftarrow> fdt_move m fdt buf bufsize;
              if err \<noteq> 0 then Some (err, m)
              else do {
                m \<leftarrow> on_view m buf (\<lambda>b. fdt_set_version b 17);
                m \<leftarrow> on_view m buf (\<lambda>b. fdt_set_size_dt_struct b struct_size);
                m \<leftarrow> on_view m buf (\<lambda>b. fdt_set_totalsize b bufsize);
                Some (0, m) } }
            else do {
              size_dt_strings \<leftarrow> fdt_size_dt_strings (view m fdt);
              let newsize = s32 (FDT_ALIGN 40 8 + mem_rsv_size + struct_size + size_dt_strings);
              if bufsize < newsize then Some (- FDT_ERR_NOSPACE, m)
              else do {
                let overlap = (buf + newsize > fdt \<and> buf < fdtend);
                let tmp = (if overlap then fdtend else buf);
                if overlap \<and> tmp + newsize > buf + bufsize then Some (- FDT_ERR_NOSPACE, m)
                else do {
                  m \<leftarrow> fdt_packblocks_i m fdt tmp mem_rsv_size struct_size (s32 size_dt_strings);
                  m \<leftarrow> memmove m buf tmp newsize;
                  m \<leftarrow> on_view m buf (\<lambda>b. fdt_set_magic b FDT_MAGIC);
                  m \<leftarrow> on_view m buf (\<lambda>b. fdt_set_totalsize b bufsize);
                  m \<leftarrow> on_view m buf (\<lambda>b. fdt_set_version b 17);
                  m \<leftarrow> on_view m buf (\<lambda>b. fdt_set_last_comp_version b 16);
                  boot_cpuid_phys \<leftarrow> fdt_boot_cpuid_phys (view m fdt);
                  m \<leftarrow> on_view m buf (\<lambda>b. fdt_set_boot_cpuid_phys b boot_cpuid_phys);
                  Some (0, m) } } } }) } }"

definition fdt_pack :: "blob \<Rightarrow> (int \<times> blob) option" where
  "fdt_pack fdt = FDT_RW_PROBE fdt (\<lambda>fdt. do {
     num \<leftarrow> fdt_num_mem_rsv fdt;
     let mem_rsv_size = s32 ((num + 1) * 16);
     size_dt_struct \<leftarrow> fdt_size_dt_struct fdt;
     size_dt_strings \<leftarrow> fdt_size_dt_strings fdt;
     fdt \<leftarrow> fdt_packblocks_i fdt 0 0 mem_rsv_size (s32 size_dt_struct) (s32 size_dt_strings);
     data_size \<leftarrow> fdt_data_size_i fdt;
     fdt \<leftarrow> fdt_set_totalsize fdt data_size;
     Some (0, fdt) })"

declare skip_properties.simps [code] struct_size_loop.simps [code]

end
