(* ===== verification/Fdt_Addresses.thy ===== *)
theory Fdt_Addresses
  imports Fdt_Rw
begin

text \<open>
  \<open>fdt_addresses.c\<close>: the cell counts of a bus node and \<open>fdt_appendprop_addrrange\<close>, which encodes an
  address range with them.
\<close>

abbreviation (input) FDT_MAX_NCELLS :: int where "FDT_MAX_NCELLS \<equiv> 4"

definition fdt_cells :: "blob \<Rightarrow> int \<Rightarrow> cstring \<Rightarrow> int option" where
  "fdt_cells fdt nodeoffset name = do {
     (c, len) \<leftarrow> fdt_getprop fdt nodeoffset name;
     (case c of
        NULL \<Rightarrow> Some len
      | Ptr p \<Rightarrow>
          if len \<noteq> 4 then Some (- FDT_ERR_BADNCELLS)
          else do {
            val \<leftarrow> fdt32_ld fdt p;
            if val > FDT_MAX_NCELLS then Some (- FDT_ERR_BADNCELLS)
            else Some val }) }"

definition fdt_address_cells :: "blob \<Rightarrow> int \<Rightarrow> int option" where
  "fdt_address_cells fdt nodeoffset = do {
     val \<leftarrow> fdt_cells fdt nodeoffset (cstr ''#address-cells'');
     Some (if val = 0 then - FDT_ERR_BADNCELLS
           else if val = - FDT_ERR_NOTFOUND then 2
           else val) }"

definition fdt_size_cells :: "blob \<Rightarrow> int \<Rightarrow> int option" where
  "fdt_size_cells fdt nodeoffset = do {
     val \<leftarrow> fdt_cells fdt nodeoffset (cstr ''#size-cells'');
     Some (if val = - FDT_ERR_NOTFOUND then 1 else val) }"

text \<open>The bytes that are stored for the address and for the size, or an error.
  \<open>UINT32_MAX + 1\<close> is computed at 32 bits, before the 64-bit subtraction.\<close>

definition addr_bytes :: "int \<Rightarrow> int \<Rightarrow> int \<Rightarrow> int + u8 list" where
  "addr_bytes addr_cells addr sz =
     (if addr_cells = 1 then
        if addr > UINT32_MAX \<or> u64 (u32 (UINT32_MAX + 1) - addr) < sz
        then Inl (- FDT_ERR_BADVALUE) else Inr (bytes32 addr)
      else if addr_cells = 2 then Inr (bytes64 addr)
      else Inl (- FDT_ERR_BADNCELLS))"

definition size_bytes :: "int \<Rightarrow> int \<Rightarrow> int + u8 list" where
  "size_bytes size_cells sz =
     (if size_cells = 1 then
        if sz > UINT32_MAX then Inl (- FDT_ERR_BADVALUE) else Inr (bytes32 sz)
      else if size_cells = 2 then Inr (bytes64 sz)
      else Inl (- FDT_ERR_BADNCELLS))"

definition fdt_appendprop_addrrange ::
  "blob \<Rightarrow> int \<Rightarrow> int \<Rightarrow> cstring \<Rightarrow> int \<Rightarrow> int \<Rightarrow> (int \<times> blob) option" where
  "fdt_appendprop_addrrange fdt parent nodeoffset name addr sz = do {
     addr_cells \<leftarrow> fdt_address_cells fdt parent;
     if addr_cells < 0 then Some (addr_cells, fdt)
     else do {
       size_cells \<leftarrow> fdt_size_cells fdt parent;
       if size_cells < 0 then Some (size_cells, fdt)
       else (case addr_bytes addr_cells addr sz of
               Inl err \<Rightarrow> Some (err, fdt)
             | Inr a \<Rightarrow>
                 (case size_bytes size_cells sz of
                    Inl err \<Rightarrow> Some (err, fdt)
                  | Inr s \<Rightarrow>
                      fdt_appendprop fdt nodeoffset name (a @ s)
                        ((addr_cells + size_cells) * 4))) } }"

section \<open>Properties\<close>

lemma addr_bytes_one_cell:
  assumes "0 \<le> addr" "addr \<le> UINT32_MAX"
  shows "addr_bytes 1 addr sz =
     (if u64 (- addr) < sz then Inl (- FDT_ERR_BADVALUE) else Inr (bytes32 addr))"
  using assms by (simp add: addr_bytes_def u32_def)

text \<open>C40: With one address cell \<open>fdt_appendprop_addrrange\<close> does not check what it means to: \<open>UINT32_MAX + 1\<close>
  is 0 at 32 bits, so every range that starts at address 0 and is not empty is
  rejected, and a range from any other 32-bit address is accepted whatever its size,
  up to the end of the 64-bit address space.\<close>

theorem addrrange_32bit_check_wraps:
  assumes "0 < sz" "0 < addr" "addr \<le> UINT32_MAX" "addr + sz \<le> 18446744073709551616"
  shows "addr_bytes 1 0 sz = Inl (- FDT_ERR_BADVALUE) \<and> addr_bytes 1 addr sz = Inr (bytes32 addr)"
proof -
  have "u64 (- addr) = 18446744073709551616 - addr"
    using assms u64_id [of "18446744073709551616 - addr"] mod_add_self2 [of "- addr" 18446744073709551616]
    by (simp add: u64_def)
  then show ?thesis using assms addr_bytes_one_cell [of addr sz] addr_bytes_one_cell [of 0 sz]
    by (simp add: u64_def)
qed

theorem addrrange_32bit_check_wraps_witness:
  "addr_bytes 1 0 0x1000 = Inl (- FDT_ERR_BADVALUE) \<and>
   addr_bytes 1 0xfffff000 0x2000 = Inr (bytes32 0xfffff000)"
  using addrrange_32bit_check_wraps [of "0x2000" "0xfffff000"]
    addrrange_32bit_check_wraps [of "0x1000" "1"] by simp

end
