(* ===== verification/Fdt_Sw.thy ===== *)
theory Fdt_Sw
  imports Fdt_Ro
begin

text \<open>
  The sequential-write interface of libfdt, \<open>fdt_sw.c\<close>: a blob grows from an empty buffer
  through the states \<open>memrsv\<close>, \<open>struct\<close> and \<open>complete\<close>. The structure block grows upwards
  behind the reserve map, the strings block downwards from the end of the buffer.
  Every operation returns its result code and the blob.
\<close>

section \<open>The state of a blob under construction\<close>

abbreviation (input) FDT_CREATE_FLAG_NO_NAME_DEDUP :: int where
  "FDT_CREATE_FLAG_NO_NAME_DEDUP \<equiv> 0x1"
abbreviation (input) FDT_CREATE_FLAGS_ALL :: int where
  "FDT_CREATE_FLAGS_ALL \<equiv> FDT_CREATE_FLAG_NO_NAME_DEDUP"

definition fdt_sw_probe_i :: "blob \<Rightarrow> int option" where
  "fdt_sw_probe_i fdt =
     (if \<not> can_assume VALID_INPUT then do {
        magic \<leftarrow> fdt_magic fdt;
        Some (if magic = FDT_MAGIC then - FDT_ERR_BADSTATE
              else if magic \<noteq> FDT_SW_MAGIC then - FDT_ERR_BADMAGIC
              else 0) }
      else Some 0)"

definition fdt_sw_probe_memrsv_i :: "blob \<Rightarrow> int option" where
  "fdt_sw_probe_memrsv_i fdt = do {
     err \<leftarrow> fdt_sw_probe_i fdt;
     if err \<noteq> 0 then Some err
     else do {
       off_dt_strings \<leftarrow> fdt_off_dt_strings fdt;
       Some (if \<not> can_assume VALID_INPUT \<and> off_dt_strings \<noteq> 0 then - FDT_ERR_BADSTATE
             else 0) } }"

definition fdt_sw_probe_struct_i :: "blob \<Rightarrow> int option" where
  "fdt_sw_probe_struct_i fdt = do {
     err \<leftarrow> fdt_sw_probe_i fdt;
     if err \<noteq> 0 then Some err
     else do {
       off_dt_strings \<leftarrow> fdt_off_dt_strings fdt;
       totalsize \<leftarrow> fdt_totalsize fdt;
       Some (if \<not> can_assume VALID_INPUT \<and> off_dt_strings \<noteq> totalsize then - FDT_ERR_BADSTATE
             else 0) } }"

definition sw_flags :: "blob \<Rightarrow> int option" where
  "sw_flags fdt = fdt_last_comp_version fdt"

text \<open>\<open>fdt_grab_space_\<close>: the position of the new bytes in the structure block.\<close>

definition fdt_grab_space_i :: "blob \<Rightarrow> int \<Rightarrow> (ptr \<times> blob) option" where
  "fdt_grab_space_i fdt len = do {
     offset \<leftarrow> fdt_size_dt_struct fdt;
     totalsize \<leftarrow> fdt_totalsize fdt;
     off_dt_struct \<leftarrow> fdt_off_dt_struct fdt;
     size_dt_strings \<leftarrow> fdt_size_dt_strings fdt;
     let spaceleft = u32 (totalsize - off_dt_struct - size_dt_strings);
     if u64 (offset + len) < offset \<or> u64 (offset + len) > spaceleft then Some (NULL, fdt)
     else do {
       fdt \<leftarrow> fdt_set_size_dt_struct fdt (offset + len);
       p \<leftarrow> fdt_offset_ptr_i fdt (s32 offset);
       Some (Ptr p, fdt) } }"

section \<open>Creating and resizing\<close>

definition fdt_create_with_flags :: "blob \<Rightarrow> int \<Rightarrow> int \<Rightarrow> (int \<times> blob) option" where
  "fdt_create_with_flags fdt bufsize flags =
     (let hdrsize = FDT_ALIGN 40 16 in
      if bufsize < hdrsize then Some (- FDT_ERR_NOSPACE, fdt)
      else if flags AND NOT FDT_CREATE_FLAGS_ALL \<noteq> 0 then Some (- FDT_ERR_BADFLAGS, fdt)
      else do {
        fdt \<leftarrow> memset fdt 0 0 bufsize;
        fdt \<leftarrow> fdt_set_magic fdt FDT_SW_MAGIC;
        fdt \<leftarrow> fdt_set_version fdt FDT_LAST_SUPPORTED_VERSION;
        fdt \<leftarrow> fdt_set_last_comp_version fdt flags;
        fdt \<leftarrow> fdt_set_totalsize fdt bufsize;
        fdt \<leftarrow> fdt_set_off_mem_rsvmap fdt hdrsize;
        off \<leftarrow> fdt_off_mem_rsvmap fdt;
        fdt \<leftarrow> fdt_set_off_dt_struct fdt off;
        fdt \<leftarrow> fdt_set_off_dt_strings fdt 0;
        Some (0, fdt) })"

definition fdt_create :: "blob \<Rightarrow> int \<Rightarrow> (int \<times> blob) option" where
  "fdt_create buf bufsize = fdt_create_with_flags buf bufsize 0"

text \<open>\<open>fdt_resize\<close> moves the blob at \<open>fdt\<close> to \<open>buf\<close> in one memory, since the two may overlap; the
  order of the two moves depends on which comes first.\<close>

definition fdt_resize :: "blob \<Rightarrow> int \<Rightarrow> int \<Rightarrow> int \<Rightarrow> (int \<times> blob) option" where
  "fdt_resize m fdt buf bufsize = do {
     err \<leftarrow> fdt_sw_probe_i (view m fdt);
     if err \<noteq> 0 then Some (err, m)
     else if bufsize < 0 then Some (- FDT_ERR_NOSPACE, m)
     else do {
       off_dt_struct \<leftarrow> fdt_off_dt_struct (view m fdt);
       size_dt_struct \<leftarrow> fdt_size_dt_struct (view m fdt);
       tailsize \<leftarrow> fdt_size_dt_strings (view m fdt);
       totalsize \<leftarrow> fdt_totalsize (view m fdt);
       let headsize = u32 (off_dt_struct + size_dt_struct);
       if \<not> can_assume VALID_DTB \<and> headsize + tailsize > totalsize
       then Some (- FDT_ERR_INTERNAL, m)
       else if headsize + tailsize > u32 bufsize then Some (- FDT_ERR_NOSPACE, m)
       else do {
         let oldtail = fdt + totalsize - tailsize;
         let newtail = buf + bufsize - tailsize;
         m \<leftarrow> (if buf \<le> fdt then do {
                 m \<leftarrow> memmove m buf fdt headsize;
                 memmove m newtail oldtail tailsize }
               else do {
                 m \<leftarrow> memmove m newtail oldtail tailsize;
                 memmove m buf fdt headsize });
         m \<leftarrow> on_view m buf (\<lambda>b. fdt_set_totalsize b bufsize);
         off_dt_strings \<leftarrow> fdt_off_dt_strings (view m buf);
         m \<leftarrow> (if off_dt_strings \<noteq> 0
               then on_view m buf (\<lambda>b. fdt_set_off_dt_strings b bufsize) else Some m);
         Some (0, m) } } }"

section \<open>The reserve map\<close>

definition fdt_add_reservemap_entry :: "blob \<Rightarrow> int \<Rightarrow> int \<Rightarrow> (int \<times> blob) option" where
  "fdt_add_reservemap_entry fdt addr sz = do {
     err \<leftarrow> fdt_sw_probe_memrsv_i fdt;
     if err \<noteq> 0 then Some (err, fdt)
     else do {
       off_dt_struct \<leftarrow> fdt_off_dt_struct fdt;
       let offset = s32 off_dt_struct;
       totalsize \<leftarrow> fdt_totalsize fdt;
       if u64 (offset + 16) > totalsize then Some (- FDT_ERR_NOSPACE, fdt)
       else do {
         fdt \<leftarrow> fdt64_st fdt offset addr;
         fdt \<leftarrow> fdt64_st fdt (offset + 8) sz;
         fdt \<leftarrow> fdt_set_off_dt_struct fdt (offset + 16);
         Some (0, fdt) } } }"

definition fdt_finish_reservemap :: "blob \<Rightarrow> (int \<times> blob) option" where
  "fdt_finish_reservemap fdt = do {
     (err, fdt) \<leftarrow> fdt_add_reservemap_entry fdt 0 0;
     if err \<noteq> 0 then Some (err, fdt)
     else do {
       totalsize \<leftarrow> fdt_totalsize fdt;
       fdt \<leftarrow> fdt_set_off_dt_strings fdt totalsize;
       Some (0, fdt) } }"

section \<open>The structure block\<close>

definition fdt_begin_node :: "blob \<Rightarrow> cstring \<Rightarrow> (int \<times> blob) option" where
  "fdt_begin_node fdt name = do {
     err \<leftarrow> fdt_sw_probe_struct_i fdt;
     if err \<noteq> 0 then Some (err, fdt)
     else do {
       let namelen = s32 (cstrlen name + 1);
       (nh, fdt) \<leftarrow> fdt_grab_space_i fdt (4 + FDT_TAGALIGN namelen);
       (case nh of
          NULL \<Rightarrow> Some (- FDT_ERR_NOSPACE, fdt)
        | Ptr p \<Rightarrow> do {
            fdt \<leftarrow> fdt32_st fdt p FDT_BEGIN_NODE;
            fdt \<leftarrow> memcpy_in fdt (p + 4) (name @ [0]) namelen;
            Some (0, fdt) }) } }"

definition fdt_end_node :: "blob \<Rightarrow> (int \<times> blob) option" where
  "fdt_end_node fdt = do {
     err \<leftarrow> fdt_sw_probe_struct_i fdt;
     if err \<noteq> 0 then Some (err, fdt)
     else do {
       (en, fdt) \<leftarrow> fdt_grab_space_i fdt FDT_TAGSIZE;
       (case en of
          NULL \<Rightarrow> Some (- FDT_ERR_NOSPACE, fdt)
        | Ptr p \<Rightarrow> do { fdt \<leftarrow> fdt32_st fdt p FDT_END_NODE; Some (0, fdt) }) } }"

text \<open>The strings block ends at the end of the buffer; a string is named by its (negative)
  distance from there, and 0 means that there is no room.\<close>

definition sw_add_string_i :: "blob \<Rightarrow> cstring \<Rightarrow> (int \<times> blob) option" where
  "sw_add_string_i fdt s = do {
     strtab \<leftarrow> fdt_totalsize fdt;
     strtabsize \<leftarrow> fdt_size_dt_strings fdt;
     let len = u32 (cstrlen s + 1);
     let offset = u32 (strtabsize + len);
     off_dt_struct \<leftarrow> fdt_off_dt_struct fdt;
     size_dt_struct \<leftarrow> fdt_size_dt_struct fdt;
     let struct_top = u32 (off_dt_struct + size_dt_struct);
     if u32 (strtab - offset) < struct_top then Some (0, fdt)
     else do {
       fdt \<leftarrow> memcpy_in fdt (strtab - offset) (s @ [0]) len;
       fdt \<leftarrow> fdt_set_size_dt_strings fdt (strtabsize + len);
       Some (s32 (- offset), fdt) } }"

definition sw_del_last_string_i :: "blob \<Rightarrow> cstring \<Rightarrow> blob option" where
  "sw_del_last_string_i fdt s = do {
     strtabsize \<leftarrow> fdt_size_dt_strings fdt;
     let len = s32 (cstrlen s + 1);
     fdt_set_size_dt_strings fdt (s32 strtabsize - len) }"

text \<open>The name offset, \<open>*allocated\<close> and the blob.\<close>

definition sw_find_add_string_i :: "blob \<Rightarrow> cstring \<Rightarrow> (int \<times> bool \<times> blob) option" where
  "sw_find_add_string_i fdt s = do {
     strtab \<leftarrow> fdt_totalsize fdt;
     size_dt_strings \<leftarrow> fdt_size_dt_strings fdt;
     let strtabsize = s32 size_dt_strings;
     p \<leftarrow> fdt_find_string_i fdt (strtab - strtabsize) strtabsize s;
     (case p of
        Ptr q \<Rightarrow> Some (s32 (q - strtab), False, fdt)
      | NULL \<Rightarrow> do {
          (offset, fdt) \<leftarrow> sw_add_string_i fdt s;
          Some (offset, True, fdt) }) }"

text \<open>The result code, \<open>*valp\<close> and the blob.\<close>

definition fdt_property_placeholder :: "blob \<Rightarrow> cstring \<Rightarrow> int \<Rightarrow> (int \<times> ptr \<times> blob) option" where
  "fdt_property_placeholder fdt name len = do {
     err \<leftarrow> fdt_sw_probe_struct_i fdt;
     if err \<noteq> 0 then Some (err, NULL, fdt)
     else do {
       flags \<leftarrow> sw_flags fdt;
       (nameoff, allocated, fdt) \<leftarrow>
         (if flags AND FDT_CREATE_FLAG_NO_NAME_DEDUP \<noteq> 0 then do {
            (nameoff, fdt) \<leftarrow> sw_add_string_i fdt name;
            Some (nameoff, True, fdt) }
          else sw_find_add_string_i fdt name);
       if nameoff = 0 then Some (- FDT_ERR_NOSPACE, NULL, fdt)
       else do {
         (prp, fdt) \<leftarrow> fdt_grab_space_i fdt (12 + FDT_TAGALIGN len);
         (case prp of
            NULL \<Rightarrow> do {
              fdt \<leftarrow> (if allocated then sw_del_last_string_i fdt name else Some fdt);
              Some (- FDT_ERR_NOSPACE, NULL, fdt) }
          | Ptr p \<Rightarrow> do {
              fdt \<leftarrow> fdt32_st fdt p FDT_PROP;
              fdt \<leftarrow> fdt32_st fdt (p + 8) nameoff;
              fdt \<leftarrow> fdt32_st fdt (p + 4) len;
              Some (0, Ptr (p + 12), fdt) }) } } }"

definition fdt_property :: "blob \<Rightarrow> cstring \<Rightarrow> u8 list \<Rightarrow> int \<Rightarrow> (int \<times> blob) option" where
  "fdt_property fdt name val len = do {
     (ret, p, fdt) \<leftarrow> fdt_property_placeholder fdt name len;
     if ret \<noteq> 0 then Some (ret, fdt)
     else (case p of
             NULL \<Rightarrow> None
           | Ptr q \<Rightarrow> do { fdt \<leftarrow> memcpy_in fdt q val len; Some (0, fdt) }) }"

text \<open>The inline wrappers of libfdt.h.\<close>

definition fdt_property_u32 :: "blob \<Rightarrow> cstring \<Rightarrow> int \<Rightarrow> (int \<times> blob) option" where
  "fdt_property_u32 fdt name val = fdt_property fdt name (bytes32 val) 4"

definition fdt_property_u64 :: "blob \<Rightarrow> cstring \<Rightarrow> int \<Rightarrow> (int \<times> blob) option" where
  "fdt_property_u64 fdt name val = fdt_property fdt name (bytes64 val) 8"

definition fdt_property_cell :: "blob \<Rightarrow> cstring \<Rightarrow> int \<Rightarrow> (int \<times> blob) option" where
  "fdt_property_cell fdt name val = fdt_property_u32 fdt name val"

section \<open>Finishing\<close>

text \<open>The loop of \<open>fdt_finish\<close>: every name offset becomes relative to the start of the strings
  block.\<close>

partial_function (option) finish_loop :: "blob \<Rightarrow> int \<Rightarrow> (int \<times> blob) option" where
  "finish_loop fdt offset = do {
     (tag, nextoffset) \<leftarrow> fdt_next_tag fdt offset;
     if tag = FDT_END then Some (nextoffset, fdt)
     else do {
       fdt \<leftarrow> (if tag = FDT_PROP then do {
                 prp \<leftarrow> fdt_offset_ptr_i fdt offset;
                 nameoff \<leftarrow> fdt32_ld fdt (prp + 8);
                 size_dt_strings \<leftarrow> fdt_size_dt_strings fdt;
                 fdt32_st fdt (prp + 8) (s32 nameoff + size_dt_strings) }
               else Some fdt);
       finish_loop fdt nextoffset } }"

definition fdt_finish :: "blob \<Rightarrow> (int \<times> blob) option" where
  "fdt_finish fdt = do {
     err \<leftarrow> fdt_sw_probe_struct_i fdt;
     if err \<noteq> 0 then Some (err, fdt)
     else do {
       (end_ptr, fdt) \<leftarrow> fdt_grab_space_i fdt 4;
       (case end_ptr of
          NULL \<Rightarrow> Some (- FDT_ERR_NOSPACE, fdt)
        | Ptr e \<Rightarrow> do {
            fdt \<leftarrow> fdt32_st fdt e FDT_END;
            totalsize \<leftarrow> fdt_totalsize fdt;
            size_dt_strings \<leftarrow> fdt_size_dt_strings fdt;
            off_dt_struct \<leftarrow> fdt_off_dt_struct fdt;
            size_dt_struct \<leftarrow> fdt_size_dt_struct fdt;
            let oldstroffset = s32 (totalsize - size_dt_strings);
            let newstroffset = s32 (off_dt_struct + size_dt_struct);
            fdt \<leftarrow> memmove fdt newstroffset oldstroffset size_dt_strings;
            fdt \<leftarrow> fdt_set_off_dt_strings fdt newstroffset;
            (nextoffset, fdt) \<leftarrow> finish_loop fdt 0;
            if nextoffset < 0 then Some (nextoffset, fdt)
            else do {
              size_dt_strings \<leftarrow> fdt_size_dt_strings fdt;
              fdt \<leftarrow> fdt_set_totalsize fdt (newstroffset + size_dt_strings);
              fdt \<leftarrow> fdt_set_last_comp_version fdt FDT_LAST_COMPATIBLE_VERSION;
              fdt \<leftarrow> fdt_set_magic fdt FDT_MAGIC;
              Some (0, fdt) } }) } }"

declare finish_loop.simps [code]

section \<open>The invariant of a blob under construction\<close>

definition sw_inv :: "blob \<Rightarrow> bool" where
  "sw_inv b \<longleftrightarrow> backed b \<and> hdr b H_totalsize \<le> INT_MAX \<and> hdr b H_magic = FDT_SW_MAGIC \<and>
     hdr b H_version = 17 \<and> hdr b H_off_mem_rsvmap = 48 \<and> 48 \<le> hdr b H_off_dt_struct \<and>
     hdr b H_off_dt_struct + hdr b H_size_dt_struct + hdr b H_size_dt_strings \<le> hdr b H_totalsize"

lemma sw_invD:
  assumes "sw_inv b"
  shows "backed b" "hdr b H_totalsize \<le> INT_MAX" "hdr b H_magic = FDT_SW_MAGIC"
    "hdr b H_version = 17" "hdr b H_off_mem_rsvmap = 48" "48 \<le> hdr b H_off_dt_struct"
    "hdr b H_off_dt_struct + hdr b H_size_dt_struct + hdr b H_size_dt_strings \<le> hdr b H_totalsize"
    "hdr b H_totalsize \<le> blen b" "40 \<le> blen b" "readable b"
    "hdr b H_off_dt_struct \<le> INT_MAX" "hdr b H_size_dt_struct \<le> INT_MAX"
    "hdr b H_size_dt_strings \<le> INT_MAX"
  using assms hdr_bounds(1) [of b H_size_dt_struct] hdr_bounds(1) [of b H_size_dt_strings]
  unfolding sw_inv_def readable_def backed_def by linarith+

text \<open>The string a property names: \<open>no\<close> is the distance from the end of the buffer, as stored.\<close>

definition sw_named :: "blob \<Rightarrow> int \<Rightarrow> cstring \<Rightarrow> bool" where
  "sw_named b no nm \<longleftrightarrow> 0 \<le> no \<and> no < 4294967296 \<and> 0 \<notin> set nm \<and>
     - hdr b H_size_dt_strings \<le> s32 no \<and> s32 no + cstrlen nm + 1 \<le> 0 \<and>
     rd b (hdr b H_totalsize + s32 no) (cstrlen nm + 1) = Some (nm @ [0])"

fun sw_denotes :: "blob \<Rightarrow> tok \<Rightarrow> item \<Rightarrow> bool" where
  "sw_denotes b (TBegin n) (Begin m) \<longleftrightarrow> n = m"
| "sw_denotes b TEnd End \<longleftrightarrow> True"
| "sw_denotes b (TProp no v) (Prop nm w) \<longleftrightarrow> v = w \<and> sw_named b no nm"
| "sw_denotes b t i \<longleftrightarrow> False"

text \<open>The abstraction relation of the structure phase: the blob holds these items so far.\<close>

definition sw_toks :: "blob \<Rightarrow> tok list \<Rightarrow> bool" where
  "sw_toks b ts \<longleftrightarrow> sw_inv b \<and> hdr b H_off_dt_strings = hdr b H_totalsize \<and>
     hdr b H_size_dt_struct = toks_size ts \<and> toks_at b (hdr b H_off_dt_struct) ts"

definition sw_items :: "blob \<Rightarrow> item list \<Rightarrow> bool" where
  "sw_items b its \<longleftrightarrow> (\<exists>ts. sw_toks b ts \<and> list_all2 (sw_denotes b) ts its)"

text \<open>The bytes left between the structure block and the strings, and what a call may need of them.\<close>

definition sw_free :: "blob \<Rightarrow> int" where
  "sw_free b = hdr b H_totalsize - hdr b H_off_dt_struct - hdr b H_size_dt_struct - hdr b H_size_dt_strings"

fun sw_cost :: "item \<Rightarrow> int" where
  "sw_cost (Begin n) = 4 + FDT_TAGALIGN (cstrlen n + 1)"
| "sw_cost End = 4"
| "sw_cost (Prop n v) = 12 + FDT_TAGALIGN (int (length v)) + (cstrlen n + 1)"

lemma sw_cost_nonneg: "0 \<le> sw_cost i"
proof (cases i)
  case (Begin n)
  then show ?thesis using TAGALIGN_length(4) [of n] by simp
next
  case (Prop n v)
  then show ?thesis using TAGALIGN_length(2) [of v] by simp
qed simp

lemma sw_probe_struct_ok:
  "sw_toks b ts \<Longrightarrow> fdt_sw_probe_struct_i b = Some 0"
  by (simp add: sw_toks_def fdt_sw_probe_struct_i_def fdt_sw_probe_i_def sw_invD)

lemma sw_denotes_mono:
  assumes "sw_denotes b t i" "hdr b' H_totalsize = hdr b H_totalsize"
    "hdr b H_size_dt_strings \<le> hdr b' H_size_dt_strings" "blen b' = blen b"
    "\<And>q. hdr b H_totalsize - hdr b H_size_dt_strings \<le> q \<Longrightarrow> q < hdr b H_totalsize \<Longrightarrow> ld8 b' q = ld8 b q"
  shows "sw_denotes b' t i"
proof -
  have "sw_named b' no nm" if n: "sw_named b no nm" for no nm
  proof -
    have "rd b' (hdr b H_totalsize + s32 no) (cstrlen nm + 1) = rd b (hdr b H_totalsize + s32 no) (cstrlen nm + 1)"
      using n assms(5) by (intro rd_cong assms(4)) (auto simp: sw_named_def)
    then show ?thesis using n assms(2,3) by (simp add: sw_named_def)
  qed
  then show ?thesis using assms(1) by (cases t; cases i) auto
qed

lemma grab_space_spec:
  assumes b: "sw_inv b" "0 \<le> len" "len \<le> 8589934592"
  shows "if hdr b H_off_dt_struct + hdr b H_size_dt_struct + len + hdr b H_size_dt_strings \<le> hdr b H_totalsize
    then \<exists>b'. fdt_set_size_dt_struct b (hdr b H_size_dt_struct + len) = Some b' \<and>
      fdt_grab_space_i b len = Some (Ptr (hdr b H_off_dt_struct + hdr b H_size_dt_struct), b')
    else fdt_grab_space_i b len = Some (NULL, b)"
proof -
  note i = sw_invD [OF b(1)]
  let ?o = "hdr b H_size_dt_struct" and ?s = "hdr b H_off_dt_struct"
  have nn: "0 \<le> ?o" "0 \<le> ?s" "0 \<le> hdr b H_size_dt_strings" by simp_all
  have u: "u64 (?o + len) = ?o + len" using i b nn by (intro u64_id) linarith+
  have sp: "u32 (hdr b H_totalsize - ?s - hdr b H_size_dt_strings) =
      hdr b H_totalsize - ?s - hdr b H_size_dt_strings"
    using i nn by (intro u32_id) linarith+
  obtain b' where b': "fdt_set_size_dt_struct b (?o + len) = Some b'"
    using fdt_set_header_defined [of b] i by blast
  have "fdt_offset_ptr_i b' (s32 ?o) = Some (?s + ?o)"
  proof -
    have "40 \<le> blen b'" using i(9) fdt_set_header_SomeD(1) [OF b'] by linarith
    moreover have "s32 ?o = ?o" using i nn by (intro s32_id) linarith+
    ultimately show ?thesis by (simp add: fdt_offset_ptr_i_def fdt_get_header_hdr hdr_set [OF b'])
  qed
  then show ?thesis
    using i b b' u sp by (auto simp: fdt_grab_space_i_def Let_def)
qed

lemma append_tok:
  assumes b: "sw_toks b ts" "list_all2 (sw_denotes b) ts its"
    and room: "hdr b H_off_dt_struct + hdr b H_size_dt_struct + tok_size t + hdr b H_size_dt_strings \<le> hdr b H_totalsize"
    and b1: "fdt_set_size_dt_struct b (hdr b H_size_dt_struct + tok_size t) = Some b1"
    and p: "p = hdr b H_off_dt_struct + hdr b H_size_dt_struct"
    and b2: "same_but b1 b2 p (p + tok_size t)" "tok_at b2 p t" "sw_denotes b t i"
  shows "sw_items b2 (its @ [i])" "sw_free b2 = sw_free b - tok_size t"
proof -
  have inv: "sw_inv b" using b(1) by (simp add: sw_toks_def)
  note i = sw_invD [OF inv]
  have nn: "0 \<le> hdr b H_size_dt_struct" "0 \<le> hdr b H_size_dt_strings" by simp_all
  have p40: "40 \<le> p" using p i nn by linarith
  have sb1: "same_but b b1 0 40" using set_header_same_but [OF b1] .
  have h: "hdr b2 f = (if f = H_size_dt_struct then hdr b H_size_dt_struct + tok_size t else hdr b f)" for f
  proof -
    have "u32 (hdr b H_size_dt_struct + tok_size t) = hdr b H_size_dt_struct + tok_size t"
      using room i nn tok_size_ge(1) [of t] by (intro u32_id) linarith+
    then show ?thesis using same_but_hdr [OF b2(1) p40] hdr_set [OF b1] by simp
  qed
  have bl: "blen b2 = blen b" using same_butD(1) [OF sb1] same_butD(1) [OF b2(1)] by simp
  have l8: "ld8 b2 q = ld8 b q" if "40 \<le> q" "q < p \<or> p + tok_size t \<le> q" for q
    using that same_butD(3) [OF sb1] same_butD(3) [OF b2(1)] by simp
  have st: "ld8 b2 q = ld8 b q" if "hdr b H_totalsize - hdr b H_size_dt_strings \<le> q" for q
    using that room p p40 tok_size_ge(1) [of t] by (intro l8) linarith+
  have dn: "sw_denotes b2 t i" if "sw_denotes b t i" for t i
    using st by (intro sw_denotes_mono [OF that]) (auto simp: h bl)
  have "sw_inv b2"
    using inv room tok_size_ge(1) [of t] by (simp add: sw_inv_def backed_def h bl)
  moreover have "toks_at b2 (hdr b H_off_dt_struct) ts"
    using toks_at_cong [of b2 b "hdr b H_off_dt_struct" ts, OF bl] l8 b(1) i p
    by (auto simp: sw_toks_def)
  moreover have "list_all2 (sw_denotes b2) ts its" "sw_denotes b2 t i"
    using b(2) b2(3) dn by (auto elim!: list_all2_mono)
  ultimately have "sw_toks b2 (ts @ [t])" "list_all2 (sw_denotes b2) (ts @ [t]) (its @ [i])"
    using b(1) b2(2) p by (auto simp: sw_toks_def h list_all2_appendI)
  then show "sw_items b2 (its @ [i])" by (auto simp: sw_items_def)
  show "sw_free b2 = sw_free b - tok_size t" by (simp add: sw_free_def h)
qed

section \<open>Nodes\<close>

text \<open>The outcome of an operation of the structure phase: the item is added, or there is no room and the
  items are as before.\<close>

definition sw_head :: "blob \<Rightarrow> blob \<Rightarrow> bool" where
  "sw_head b b' \<longleftrightarrow> blen b' = blen b \<and> blob_addr b' = blob_addr b \<and>
     hdr b' H_totalsize = hdr b H_totalsize \<and> hdr b' H_off_dt_struct = hdr b H_off_dt_struct \<and>
     (\<forall>q. 40 \<le> q \<and> q < hdr b H_off_dt_struct \<longrightarrow> ld8 b' q = ld8 b q)"

lemma sw_head_refl: "sw_head b b"
  by (simp add: sw_head_def)

lemma sw_head_trans: "sw_head b b1 \<Longrightarrow> sw_head b1 b2 \<Longrightarrow> sw_head b b2"
  by (simp add: sw_head_def)

lemma sw_head_store:
  assumes "fdt_set_size_dt_struct b x = Some b1" "same_but b1 b2 p hi" "40 \<le> p" "hdr b H_off_dt_struct \<le> p"
  shows "sw_head b b2"
  using same_butD [OF set_header_same_but [OF assms(1)]] same_butD [OF assms(2)]
    same_but_hdr [OF assms(2,3)] hdr_set [OF assms(1)] assms(4)
  by (simp add: sw_head_def)

definition adds_item :: "blob \<Rightarrow> (int \<times> blob) option \<Rightarrow> item list \<Rightarrow> item \<Rightarrow> bool" where
  "adds_item b res its i \<longleftrightarrow> (\<exists>r b'. res = Some (r, b') \<and>
     (r = 0 \<and> sw_items b' (its @ [i]) \<and> sw_free b - sw_cost i \<le> sw_free b' \<or>
      r = - FDT_ERR_NOSPACE \<and> sw_items b' its \<and> sw_free b < sw_cost i) \<and> sw_head b b')"

lemma begin_node_adds:
  assumes "sw_items b its" "0 \<notin> set name" "cstrlen name \<le> 2147483640"
  shows "adds_item b (fdt_begin_node b name) its (Begin name)"
proof -
  obtain ts where ts: "sw_toks b ts" "list_all2 (sw_denotes b) ts its"
    using assms(1) by (auto simp: sw_items_def)
  then have inv: "sw_inv b" by (simp add: sw_toks_def)
  note i = sw_invD [OF inv]
  let ?n = "cstrlen name + 1" and ?p = "hdr b H_off_dt_struct + hdr b H_size_dt_struct"
  let ?t = "TBegin name"
  have n: "s32 ?n = ?n" using assms(3) by (intro s32_id) auto
  note al = TAGALIGN_length(3) [of name]
  have g: "0 \<le> 4 + FDT_TAGALIGN ?n" "4 + FDT_TAGALIGN ?n \<le> 8589934592"
    using al FDT_TAGALIGN_bounds(2) [of ?n] assms(3) by linarith+
  have nn: "0 \<le> hdr b H_size_dt_struct" "0 \<le> hdr b H_size_dt_strings" by simp_all
  show ?thesis
  proof (cases "?p + (4 + FDT_TAGALIGN ?n) + hdr b H_size_dt_strings \<le> hdr b H_totalsize")
    case True
    then obtain b1 where b1: "fdt_set_size_dt_struct b (hdr b H_size_dt_struct + (4 + FDT_TAGALIGN ?n)) = Some b1"
      "fdt_grab_space_i b (4 + FDT_TAGALIGN ?n) = Some (Ptr ?p, b1)"
      using grab_space_spec [OF inv g] by (auto simp: add.assoc)
    have bl: "blen b1 = blen b" "blob_addr b1 = blob_addr b" using fdt_set_header_SomeD [OF b1(1)] by auto
    have pr: "0 \<le> ?p" "?p + (4 + FDT_TAGALIGN ?n) \<le> blen b" "40 \<le> ?p" using True i nn by linarith+
    obtain b2 where b2: "fdt32_st b1 ?p 1 = Some b2" "same_but b1 b2 ?p (?p + 4)" "fdt32_ld b2 ?p = Some (u32 1)"
      using st32_ok [of ?p b1 1] pr bl g al by auto
    obtain b3 where b3: "wr b2 (?p + 4) (name @ [0]) = Some b3"
      "same_but b2 b3 (?p + 4) (?p + 4 + ?n)" "rd b3 (?p + 4) ?n = Some (name @ [0])"
      using wr_cstr_ok [of "?p + 4" name b2] pr bl g al same_butD(1) [OF b2(2)] by auto
    have sb: "same_but b1 b3 ?p (?p + tok_size ?t)"
      using same_but_mono [OF b2(2), of ?p "?p + tok_size ?t"] same_but_mono [OF b3(2), of ?p "?p + tok_size ?t"]
        al by (auto intro: same_but_trans)
    have "tok_at b3 ?p ?t"
      using b2(3) b3(3) same_but_ld32 [OF b3(2), of ?p] assms(2) by (simp add: u32_def)
    then have "sw_items b3 (its @ [Begin name])" "sw_free b3 = sw_free b - sw_cost (Begin name)"
      using append_tok [OF ts _ _ refl sb, of "Begin name"] True b1(1) by simp_all
    moreover have "fdt_begin_node b name = Some (0, b3)"
      using sw_probe_struct_ok [OF ts(1)] n b1(2) b2(1) b3(1)
      by (simp add: fdt_begin_node_def)
    moreover have "sw_head b b3" using sw_head_store [OF b1(1) sb pr(3)] nn by simp
    ultimately show ?thesis by (auto simp: adds_item_def)
  next
    case False
    then have "fdt_begin_node b name = Some (- FDT_ERR_NOSPACE, b)"
      using grab_space_spec [OF inv g] sw_probe_struct_ok [OF ts(1)] n
      by (simp add: fdt_begin_node_def add.assoc)
    moreover have "sw_free b < sw_cost (Begin name)" using False by (simp add: sw_free_def)
    ultimately show ?thesis using assms(1) sw_head_refl by (simp add: adds_item_def)
  qed
qed

lemma end_node_adds:
  assumes "sw_items b its"
  shows "adds_item b (fdt_end_node b) its End"
proof -
  obtain ts where ts: "sw_toks b ts" "list_all2 (sw_denotes b) ts its"
    using assms(1) by (auto simp: sw_items_def)
  then have inv: "sw_inv b" by (simp add: sw_toks_def)
  note i = sw_invD [OF inv]
  let ?p = "hdr b H_off_dt_struct + hdr b H_size_dt_struct"
  have nn: "0 \<le> hdr b H_size_dt_struct" "0 \<le> hdr b H_size_dt_strings" by simp_all
  show ?thesis
  proof (cases "?p + 4 + hdr b H_size_dt_strings \<le> hdr b H_totalsize")
    case True
    then obtain b1 where b1: "fdt_set_size_dt_struct b (hdr b H_size_dt_struct + 4) = Some b1"
      "fdt_grab_space_i b 4 = Some (Ptr ?p, b1)"
      using grab_space_spec [OF inv, of 4] by auto
    have bl: "blen b1 = blen b" "blob_addr b1 = blob_addr b" using fdt_set_header_SomeD [OF b1(1)] by auto
    have pr: "0 \<le> ?p" "?p + 4 \<le> blen b" "40 \<le> ?p" using True i nn by linarith+
    obtain b2 where b2: "fdt32_st b1 ?p 2 = Some b2" "same_but b1 b2 ?p (?p + 4)" "fdt32_ld b2 ?p = Some (u32 2)"
      using st32_ok [of ?p b1 2] pr bl by auto
    have "sw_items b2 (its @ [End])" "sw_free b2 = sw_free b - 4"
      using append_tok [OF ts _ _ refl, of TEnd b1 b2 End] True b1(1) b2 by (simp_all add: u32_def)
    moreover have "fdt_end_node b = Some (0, b2)"
      using sw_probe_struct_ok [OF ts(1)] b1(2) b2(1) by (simp add: fdt_end_node_def)
    moreover have "sw_head b b2" using sw_head_store [OF b1(1) b2(2) pr(3)] nn by simp
    ultimately show ?thesis by (auto simp: adds_item_def)
  next
    case False
    then have "fdt_end_node b = Some (- FDT_ERR_NOSPACE, b)"
      using grab_space_spec [OF inv, of 4] sw_probe_struct_ok [OF ts(1)]
      by (simp add: fdt_end_node_def)
    moreover have "sw_free b < 4" using False by (simp add: sw_free_def)
    ultimately show ?thesis using assms(1) sw_head_refl by (simp add: adds_item_def)
  qed
qed

section \<open>Names\<close>

lemma find_string_loop_spec:
  assumes "0 \<le> p" "lst + cstrlen s + 1 \<le> blen b"
  shows "\<exists>r. find_string_loop b p lst s = Some r \<and>
    (case r of NULL \<Rightarrow> True
     | Ptr q \<Rightarrow> p \<le> q \<and> q \<le> lst \<and> rd b q (cstrlen s + 1) = Some (s @ [0]))"
  using assms(1)
proof (induction "nat (lst - p + 1)" arbitrary: p rule: less_induct)
  case less
  show ?case
  proof (cases "p \<le> lst")
    case True
    then obtain xs where xs: "rd b p (cstrlen s + 1) = Some xs"
      using less.prems assms(2) by (auto simp: rd_def)
    then have m: "memcmp_eq b p (s @ [0]) (cstrlen s + 1) = Some (xs = s @ [0])"
      by (simp add: memcmp_eq_def)
    show ?thesis
    proof (cases "xs = s @ [0]")
      case True
      then show ?thesis using m xs \<open>p \<le> lst\<close> by (subst find_string_loop.simps) simp
    next
      case False
      obtain r where r: "find_string_loop b (p + 1) lst s = Some r"
        "case r of NULL \<Rightarrow> True
         | Ptr q \<Rightarrow> p + 1 \<le> q \<and> q \<le> lst \<and> rd b q (cstrlen s + 1) = Some (s @ [0])"
        using less.hyps [of "p + 1"] less.prems True by auto
      then show ?thesis using m False True
        by (subst find_string_loop.simps) (auto split: ptr.splits)
    qed
  next
    case False
    then show ?thesis by (subst find_string_loop.simps) simp
  qed
qed

lemma find_string_spec:
  assumes "0 \<le> tab" "0 \<le> n" "tab + n \<le> blen b"
  shows "\<exists>r. fdt_find_string_i b tab n s = Some r \<and>
    (case r of NULL \<Rightarrow> True
     | Ptr q \<Rightarrow> tab \<le> q \<and> q + cstrlen s + 1 \<le> tab + n \<and> rd b q (cstrlen s + 1) = Some (s @ [0]))"
proof -
  obtain r where r: "find_string_loop b tab (tab + n - (cstrlen s + 1)) s = Some r"
    "case r of NULL \<Rightarrow> True
     | Ptr q \<Rightarrow> tab \<le> q \<and> q \<le> tab + n - (cstrlen s + 1) \<and> rd b q (cstrlen s + 1) = Some (s @ [0])"
    using find_string_loop_spec [of tab "tab + n - (cstrlen s + 1)" s b] assms by auto
  then show ?thesis by (auto simp: fdt_find_string_i_def Let_def split: ptr.splits)
qed

text \<open>\<open>sw_step b b' n\<close>: a change that touches only the free bytes between the two blocks and gives
  the strings block the size \<open>n\<close>.\<close>

definition sw_step :: "blob \<Rightarrow> blob \<Rightarrow> int \<Rightarrow> bool" where
  "sw_step b b' n \<longleftrightarrow> blen b' = blen b \<and> blob_addr b' = blob_addr b \<and>
     (\<forall>f. hdr b' f = (if f = H_size_dt_strings then n else hdr b f)) \<and>
     (\<forall>q. 40 \<le> q \<and> (q < hdr b H_off_dt_struct + hdr b H_size_dt_struct \<or>
        hdr b H_totalsize - hdr b H_size_dt_strings \<le> q) \<longrightarrow> ld8 b' q = ld8 b q)"

lemma sw_stepD:
  assumes "sw_step b b' n"
  shows "blen b' = blen b" "blob_addr b' = blob_addr b"
    "hdr b' f = (if f = H_size_dt_strings then n else hdr b f)"
    "40 \<le> q \<Longrightarrow> q < hdr b H_off_dt_struct + hdr b H_size_dt_struct \<or>
        hdr b H_totalsize - hdr b H_size_dt_strings \<le> q \<Longrightarrow> ld8 b' q = ld8 b q"
  using assms by (auto simp: sw_step_def)

lemma sw_step_head: "sw_step b b' n \<Longrightarrow> sw_head b b'"
proof -
  assume a: "sw_step b b' n"
  have "ld8 b' q = ld8 b q" if "40 \<le> q" "q < hdr b H_off_dt_struct" for q
    using that hdr_bounds(1) [of b H_size_dt_struct] by (intro sw_stepD(4) [OF a] disjI1) linarith+
  then show ?thesis using sw_stepD(1-3) [OF a] by (simp add: sw_head_def)
qed

lemma sw_step_refl: "sw_step b b (hdr b H_size_dt_strings)"
  by (simp add: sw_step_def)

lemma sw_step_keeps:
  assumes b: "sw_toks b ts" "list_all2 (sw_denotes b) ts its" and st: "sw_step b b' n"
    and n: "hdr b H_size_dt_strings \<le> n"
      "hdr b H_off_dt_struct + hdr b H_size_dt_struct + n \<le> hdr b H_totalsize"
  shows "sw_toks b' ts" "list_all2 (sw_denotes b') ts its"
proof -
  have inv: "sw_inv b" using b(1) by (simp add: sw_toks_def)
  note i = sw_invD [OF inv] and s = sw_stepD [OF st]
  have nn: "0 \<le> hdr b H_size_dt_struct" "0 \<le> hdr b H_size_dt_strings" by simp_all
  have "toks_at b' (hdr b H_off_dt_struct) ts"
    using toks_at_cong [of b' b "hdr b H_off_dt_struct" ts, OF s(1)] s(4) b(1) i
    by (auto simp: sw_toks_def)
  then show "sw_toks b' ts"
    using b(1) n(2) by (simp add: sw_toks_def sw_inv_def backed_def s(1,3))
  have "ld8 b' q = ld8 b q" if "hdr b H_totalsize - hdr b H_size_dt_strings \<le> q" for q
    using that i nn by (intro s(4)) linarith+
  then have "sw_denotes b' t i" if "sw_denotes b t i" for t i
    using n s(1,3) by (intro sw_denotes_mono [OF that]) auto
  then show "list_all2 (sw_denotes b') ts its" using b(2) by (auto elim: list_all2_mono)
qed

lemma sw_add_string_spec:
  assumes inv: "sw_inv b" and s: "0 \<notin> set s" "hdr b H_size_dt_strings + (cstrlen s + 1) \<le> hdr b H_totalsize"
  defines "n \<equiv> hdr b H_size_dt_strings + (cstrlen s + 1)"
  shows "if hdr b H_off_dt_struct + hdr b H_size_dt_struct + n \<le> hdr b H_totalsize
    then \<exists>b'. sw_add_string_i b s = Some (- n, b') \<and> sw_step b b' n \<and> sw_named b' (u32 (- n)) s
    else sw_add_string_i b s = Some (0, b)"
proof -
  note i = sw_invD [OF inv]
  let ?t = "hdr b H_totalsize" and ?top = "hdr b H_off_dt_struct + hdr b H_size_dt_struct"
  have nn: "0 \<le> hdr b H_size_dt_struct" "0 \<le> hdr b H_size_dt_strings" by simp_all
  have nb: "1 \<le> n" "n \<le> ?t" "0 \<le> ?top" "?top \<le> INT_MAX" "?t \<le> INT_MAX" "0 \<le> cstrlen s + 1"
    using i s(2) nn unfolding n_def by linarith+
  have u: "u32 (cstrlen s + 1) = cstrlen s + 1" "u32 n = n" "u32 ?top = ?top" "u32 (?t - n) = ?t - n"
    using nb s(2) nn by (intro u32_id; linarith)+
  have sn: "s32 (- n) = - n" using nb by (intro s32_id) linarith+
  show ?thesis
  proof (cases "?top + n \<le> ?t")
    case True
    then have r: "40 \<le> ?t - n" "?t - n + (cstrlen s + 1) \<le> blen b"
      using i nn unfolding n_def by linarith+
    obtain b1 where b1: "wr b (?t - n) (s @ [0]) = Some b1" "same_but b b1 (?t - n) (?t - n + (cstrlen s + 1))"
      "rd b1 (?t - n) (cstrlen s + 1) = Some (s @ [0])"
      using wr_cstr_ok [of "?t - n" s b] r by auto
    have h1: "hdr b1 f = hdr b f" for f using same_but_hdr [OF b1(2) r(1)] .
    have "40 \<le> blen b1" using same_butD(1) [OF b1(2)] i(9) by linarith
    then obtain b2 where b2: "fdt_set_size_dt_strings b1 n = Some b2" using fdt_set_header_defined by blast
    have sb: "same_but b1 b2 0 40" using set_header_same_but [OF b2] .
    have h2: "hdr b2 f = (if f = H_size_dt_strings then n else hdr b f)" for f
      using hdr_set [OF b2] h1 u(2) by simp
    have "sw_step b b2 n"
      unfolding sw_step_def
      using same_butD [OF sb] same_butD [OF b1(2)] h2 True by (auto simp: n_def)
    moreover have "rd b2 (?t - n) (cstrlen s + 1) = Some (s @ [0])"
      using same_but_rd [OF sb, of "?t - n"] r(1) b1(3) by simp
    then have "sw_named b2 (u32 (- n)) s"
      using s sn nb(1) nn by (simp add: sw_named_def h2) (simp add: n_def)
    moreover have "sw_add_string_i b s = Some (- n, b2)"
      using i u sn True b1(1) b2 by (simp add: sw_add_string_i_def Let_def flip: n_def)
    ultimately show ?thesis using True by auto
  next
    case False
    then show ?thesis using i u by (simp add: sw_add_string_i_def Let_def flip: n_def)
  qed
qed

section \<open>Properties of a node\<close>

lemma sw_name_spec:
  assumes inv: "sw_inv b" and s: "0 \<notin> set s" "hdr b H_size_dt_strings + (cstrlen s + 1) \<le> hdr b H_totalsize"
  shows "\<exists>no al b'.
    (if dup then do { (nameoff, fdt) \<leftarrow> sw_add_string_i b s; Some (nameoff, True, fdt) }
     else sw_find_add_string_i b s) = Some (no, al, b') \<and>
    (no = 0 \<and> b' = b \<and> sw_free b < cstrlen s + 1 \<or>
     no < 0 \<and> s32 no = no \<and> sw_named b' (u32 no) s \<and>
     (if al then sw_step b b' (hdr b H_size_dt_strings + (cstrlen s + 1)) \<and>
        hdr b H_off_dt_struct + hdr b H_size_dt_struct + (hdr b H_size_dt_strings + (cstrlen s + 1))
          \<le> hdr b H_totalsize
      else b' = b))"
proof -
  note i = sw_invD [OF inv]
  let ?n = "hdr b H_size_dt_strings + (cstrlen s + 1)" and ?t = "hdr b H_totalsize"
  let ?z = "hdr b H_size_dt_strings"
  have nn: "0 \<le> hdr b H_size_dt_struct" "0 \<le> ?z" by simp_all
  have sn: "s32 (- ?n) = - ?n" using i s(2) nn by (intro s32_id) linarith+
  have add: "\<exists>no b'. sw_add_string_i b s = Some (no, b') \<and>
    (no = 0 \<and> b' = b \<and> sw_free b < cstrlen s + 1 \<or> no < 0 \<and> s32 no = no \<and> sw_named b' (u32 no) s \<and> sw_step b b' ?n \<and>
      hdr b H_off_dt_struct + hdr b H_size_dt_struct + ?n \<le> ?t)"
  proof (cases "hdr b H_off_dt_struct + hdr b H_size_dt_struct + ?n \<le> ?t")
    case True
    then obtain b' where "sw_add_string_i b s = Some (- ?n, b')" "sw_step b b' ?n" "sw_named b' (u32 (- ?n)) s"
      using sw_add_string_spec [OF assms] by auto
    moreover have "- ?n < 0" using nn by linarith
    ultimately show ?thesis using True sn by blast
  next
    case False
    then show ?thesis using sw_add_string_spec [OF assms] by (auto simp: sw_free_def)
  qed
  show ?thesis
  proof (cases dup)
    case True
    then show ?thesis using add by fastforce
  next
    case False
    have z: "s32 ?z = ?z" using i nn by (intro s32_id) linarith+
    have r: "0 \<le> ?t - ?z" "?t - ?z + ?z \<le> blen b" using i nn by linarith+
    obtain r where f: "fdt_find_string_i b (?t - ?z) ?z s = Some r"
      and rc: "case r of NULL \<Rightarrow> True
       | Ptr q \<Rightarrow> ?t - ?z \<le> q \<and> q + cstrlen s + 1 \<le> ?t - ?z + ?z \<and> rd b q (cstrlen s + 1) = Some (s @ [0])"
      using find_string_spec [OF r(1) nn(2) r(2), of s] by blast
    show ?thesis
    proof (cases r)
      case NULL
      then show ?thesis using add False f i(1) z by (fastforce simp: sw_find_add_string_i_def Let_def)
    next
      case (Ptr q)
      define no where "no = q - ?t"
      have q: "- ?z \<le> no" "no + cstrlen s + 1 \<le> 0" "rd b (?t + no) (cstrlen s + 1) = Some (s @ [0])"
        using rc Ptr by (simp_all add: no_def)
      have no: "no < 0" using q(2) by linarith
      have sno: "s32 no = no" using q(1) no i nn by (intro s32_id) linarith+
      have "sw_named b (u32 no) s" using q s(1) sno by (simp add: sw_named_def)
      moreover have "sw_find_add_string_i b s = Some (no, False, b)"
        using f Ptr i(1) z sno by (simp add: sw_find_add_string_i_def Let_def no_def)
      ultimately show ?thesis using False no sno by auto
    qed
  qed
qed

lemma sw_del_last_string_step:
  assumes inv: "sw_inv b" "hdr b H_size_dt_strings + (cstrlen s + 1) \<le> hdr b H_totalsize"
    and st: "sw_step b b1 (hdr b H_size_dt_strings + (cstrlen s + 1))"
  shows "\<exists>b2. sw_del_last_string_i b1 s = Some b2 \<and> sw_step b b2 (hdr b H_size_dt_strings)"
proof -
  note i = sw_invD [OF inv(1)] and s = sw_stepD [OF st]
  let ?z = "hdr b H_size_dt_strings"
  have nn: "0 \<le> hdr b H_size_dt_struct" "0 \<le> ?z" by simp_all
  have u: "s32 (cstrlen s + 1) = cstrlen s + 1" "s32 (?z + (cstrlen s + 1)) = ?z + (cstrlen s + 1)"
    using i inv(2) nn by (intro s32_id; linarith)+
  have l: "40 \<le> blen b1" using s(1) i(9) by linarith
  then obtain b2 where b2: "fdt_set_size_dt_strings b1 ?z = Some b2" using fdt_set_header_defined by blast
  have sb: "same_but b1 b2 0 40" using set_header_same_but [OF b2] .
  have "sw_del_last_string_i b1 s = Some b2"
    using l u b2 s(3) [of H_size_dt_strings]
    by (simp add: sw_del_last_string_i_def fdt_get_header_hdr Let_def)
  moreover have "sw_step b b2 ?z"
    unfolding sw_step_def using same_butD [OF sb] s hdr_set [OF b2] by auto
  ultimately show ?thesis by blast
qed

text \<open>The stores of a property: the three cells and the value.\<close>

lemma store_prop:
  assumes "0 \<le> p" "p + (12 + FDT_TAGALIGN (int (length v))) \<le> blen b" "int (length v) < 4294967296"
    "0 \<le> no" "no < 4294967296" "u32 x = no"
  obtains b1 b2 b3 b4 where "fdt32_st b p FDT_PROP = Some b1" "fdt32_st b1 (p + 8) x = Some b2"
    "fdt32_st b2 (p + 4) (int (length v)) = Some b3" "wr b3 (p + 12) v = Some b4"
    "same_but b b4 p (p + tok_size (TProp no v))" "tok_at b4 p (TProp no v)"
proof -
  let ?hi = "p + tok_size (TProp no v)"
  note al = TAGALIGN_length(1,2) [of v]
  obtain b1 where b1: "fdt32_st b p 3 = Some b1" "same_but b b1 p (p + 4)" "fdt32_ld b1 p = Some (u32 3)"
    using st32_ok [of p b 3] assms al by auto
  obtain b2 where b2: "fdt32_st b1 (p + 8) x = Some b2" "same_but b1 b2 (p + 8) (p + 8 + 4)"
    "fdt32_ld b2 (p + 8) = Some (u32 x)"
    using st32_ok [of "p + 8" b1 x] assms al same_butD(1) [OF b1(2)] by auto
  obtain b3 where b3: "fdt32_st b2 (p + 4) (int (length v)) = Some b3" "same_but b2 b3 (p + 4) (p + 4 + 4)"
    "fdt32_ld b3 (p + 4) = Some (u32 (int (length v)))"
    using st32_ok [of "p + 4" b2 "int (length v)"] assms al same_butD(1) [OF b1(2)] same_butD(1) [OF b2(2)] by auto
  obtain b4 where b4: "wr b3 (p + 12) v = Some b4" "same_but b3 b4 (p + 12) (p + 12 + int (length v))"
    "rd b4 (p + 12) (int (length v)) = Some v"
    using wr_ok [of "p + 12" v b3] assms al
      same_butD(1) [OF b1(2)] same_butD(1) [OF b2(2)] same_butD(1) [OF b3(2)] by auto
  have "same_but b b1 p ?hi" "same_but b1 b2 p ?hi" "same_but b2 b3 p ?hi" "same_but b3 b4 p ?hi"
    using al by (auto intro: same_but_mono [OF b1(2)] same_but_mono [OF b2(2)]
        same_but_mono [OF b3(2)] same_but_mono [OF b4(2)])
  then have sb: "same_but b b4 p ?hi" by (blast intro: same_but_trans)
  have "fdt32_ld b4 p = Some 3"
    using b1(3) same_but_ld32 [OF b2(2), of p] same_but_ld32 [OF b3(2), of p] same_but_ld32 [OF b4(2), of p]
    by (simp add: u32_def)
  moreover have "fdt32_ld b4 (p + 8) = Some no"
    using b2(3) assms(6) same_but_ld32 [OF b3(2), of "p + 8"] same_but_ld32 [OF b4(2), of "p + 8"] by simp
  moreover have "fdt32_ld b4 (p + 4) = Some (int (length v))"
    using b3(3) assms(3) same_but_ld32 [OF b4(2), of "p + 4"] by (simp add: u32_id)
  ultimately have "tok_at b4 p (TProp no v)" using b4(3) by simp
  then show ?thesis using that b1(1) b2(1) b3(1) b4(1) sb by blast
qed

lemma property_adds:
  assumes b: "sw_items b its" and nm: "0 \<notin> set name" "hdr b H_size_dt_strings + (cstrlen name + 1) \<le> hdr b H_totalsize"
    and v: "int (length val) \<le> 2147483640"
  shows "adds_item b (fdt_property b name val (int (length val))) its (Prop name val)"
proof -
  obtain ts where ts: "sw_toks b ts" "list_all2 (sw_denotes b) ts its" using b by (auto simp: sw_items_def)
  then have inv: "sw_inv b" by (simp add: sw_toks_def)
  note i = sw_invD [OF inv]
  let ?dup = "hdr b H_last_comp_version AND 1 \<noteq> 0"
  let ?n = "hdr b H_size_dt_strings + (cstrlen name + 1)" and ?l = "int (length val)"
  obtain no al b1 where a: "(if ?dup then do { (nameoff, fdt) \<leftarrow> sw_add_string_i b name; Some (nameoff, True, fdt) }
     else sw_find_add_string_i b name) = Some (no, al, b1)"
    and c: "no = 0 \<and> b1 = b \<and> sw_free b < cstrlen name + 1 \<or> no < 0 \<and> s32 no = no \<and> sw_named b1 (u32 no) name \<and>
     (if al then sw_step b b1 ?n \<and> hdr b H_off_dt_struct + hdr b H_size_dt_struct + ?n \<le> hdr b H_totalsize
      else b1 = b)"
    using sw_name_spec [OF inv nm, of ?dup] by blast
  have ph: "fdt_property_placeholder b name ?l =
     (if no = 0 then Some (- FDT_ERR_NOSPACE, NULL, b1)
      else do {
         (prp, fdt) \<leftarrow> fdt_grab_space_i b1 (12 + FDT_TAGALIGN ?l);
         (case prp of
            NULL \<Rightarrow> do {
              fdt \<leftarrow> (if al then sw_del_last_string_i fdt name else Some fdt);
              Some (- FDT_ERR_NOSPACE, NULL, fdt) }
          | Ptr p \<Rightarrow> do {
              fdt \<leftarrow> fdt32_st fdt p FDT_PROP;
              fdt \<leftarrow> fdt32_st fdt (p + 8) no;
              fdt \<leftarrow> fdt32_st fdt (p + 4) ?l;
              Some (0, Ptr (p + 12), fdt) }) })"
    using sw_probe_struct_ok [OF ts(1)] i(1) a
    by (simp add: fdt_property_placeholder_def sw_flags_def)
  show ?thesis
  proof (cases "no = 0")
    case True
    then have "sw_free b < sw_cost (Prop name val)" using c TAGALIGN_length(2) [of val] by simp
    then show ?thesis using True ph c b sw_head_refl by (simp add: fdt_property_def adds_item_def)
  next
    case False
    define z where "z = (if al then ?n else hdr b H_size_dt_strings)"
    have st: "sw_step b b1 z" "hdr b H_size_dt_strings \<le> z"
      "hdr b H_off_dt_struct + hdr b H_size_dt_struct + z \<le> hdr b H_totalsize"
      using c False i(7) sw_step_refl [of b] by (auto simp: z_def split: if_splits)
    note k = sw_step_keeps [OF ts st]
    have fr: "sw_free b - (cstrlen name + 1) \<le> sw_free b1"
      using sw_stepD(3) [OF st(1)] by (simp add: sw_free_def z_def)
    have inv1: "sw_inv b1" using k(1) by (simp add: sw_toks_def)
    note i1 = sw_invD [OF inv1]
    note al' = TAGALIGN_length(1,2) [of val]
    have g: "0 \<le> 12 + FDT_TAGALIGN ?l" "12 + FDT_TAGALIGN ?l \<le> 8589934592"
      using al' FDT_TAGALIGN_bounds(2) [of ?l] v by linarith+
    have named: "sw_named b1 (u32 no) name" "no < 0" using c False by auto
    let ?p = "hdr b1 H_off_dt_struct + hdr b1 H_size_dt_struct"
    have nn: "0 \<le> hdr b1 H_size_dt_struct" "0 \<le> hdr b1 H_size_dt_strings" by simp_all
    show ?thesis
    proof (cases "?p + (12 + FDT_TAGALIGN ?l) + hdr b1 H_size_dt_strings \<le> hdr b1 H_totalsize")
      case True
      then obtain b2 where b2: "fdt_set_size_dt_struct b1 (hdr b1 H_size_dt_struct + (12 + FDT_TAGALIGN ?l)) = Some b2"
        "fdt_grab_space_i b1 (12 + FDT_TAGALIGN ?l) = Some (Ptr ?p, b2)"
        using grab_space_spec [OF inv1 g] by (auto simp: add.assoc)
      have bl: "blen b2 = blen b1" "blob_addr b2 = blob_addr b1" using fdt_set_header_SomeD [OF b2(1)] by auto
      have pr: "0 \<le> ?p" "?p + (12 + FDT_TAGALIGN ?l) \<le> blen b2" "40 \<le> ?p" using True i1 nn bl by linarith+
      have u: "0 \<le> u32 no" "u32 no < 4294967296" "?l < 4294967296" using v by auto
      obtain b3 b4 b5 b6 where w: "fdt32_st b2 ?p FDT_PROP = Some b3" "fdt32_st b3 (?p + 8) no = Some b4"
        "fdt32_st b4 (?p + 4) ?l = Some b5" "wr b5 (?p + 12) val = Some b6"
        "same_but b2 b6 ?p (?p + tok_size (TProp (u32 no) val))" "tok_at b6 ?p (TProp (u32 no) val)"
        using store_prop [OF pr(1,2) u(3,1,2) refl] by blast
      have "sw_items b6 (its @ [Prop name val])" "sw_free b6 = sw_free b1 - (12 + FDT_TAGALIGN ?l)"
        using append_tok [OF k _ _ refl w(5,6), of "Prop name val"] True b2(1) named(1) by simp_all
      then have "sw_items b6 (its @ [Prop name val])" "sw_free b - sw_cost (Prop name val) \<le> sw_free b6"
        using fr by simp_all
      moreover have "fdt_property b name val ?l = Some (0, b6)"
        using ph False b2(2) w by (simp add: fdt_property_def)
      moreover have "sw_head b b6"
        using sw_head_store [OF b2(1) w(5) pr(3)] nn sw_head_trans [OF sw_step_head [OF st(1)]] by simp
      ultimately show ?thesis by (auto simp: adds_item_def)
    next
      case full: False
      then have gn: "fdt_grab_space_i b1 (12 + FDT_TAGALIGN ?l) = Some (NULL, b1)"
        using grab_space_spec [OF inv1 g] by (simp add: add.assoc)
      obtain b2 where b2: "(if al then sw_del_last_string_i b1 name else Some b1) = Some b2"
        "sw_step b b2 (hdr b H_size_dt_strings)"
      proof (cases al)
        case True
        then show ?thesis using that sw_del_last_string_step [OF inv nm(2), of b1] st(1) by (auto simp: z_def)
      next
        case al: False
        then show ?thesis using that [of b1] c False sw_step_refl [of b] by auto
      qed
      have "sw_items b2 its"
        using sw_step_keeps [OF ts b2(2)] i(7) by (auto simp: sw_items_def)
      moreover have "fdt_property b name val ?l = Some (- FDT_ERR_NOSPACE, b2)"
        using ph False gn b2(1) by (simp add: fdt_property_def)
      moreover have "sw_free b < sw_cost (Prop name val)" using full fr by (simp add: sw_free_def)
      ultimately show ?thesis using sw_step_head [OF b2(2)] by (auto simp: adds_item_def)
    qed
  qed
qed

section \<open>Creating and the reserve map\<close>

text \<open>The abstraction relation of the reserve map phase.\<close>

definition sw_rsv :: "blob \<Rightarrow> (int \<times> int) list \<Rightarrow> bool" where
  "sw_rsv b es \<longleftrightarrow> sw_inv b \<and> hdr b H_off_dt_strings = 0 \<and> hdr b H_size_dt_struct = 0 \<and>
     hdr b H_size_dt_strings = 0 \<and> hdr b H_off_dt_struct = 48 + 16 * int (length es) \<and> rsv_at b 48 es"

lemma rd_zeroes:
  "memset b 0 0 n = Some b' \<Longrightarrow> 0 \<le> p \<Longrightarrow> p + 4 \<le> n \<Longrightarrow> fdt32_ld b' p = Some 0"
  by (auto simp: memset_def fdt32_ld_alt buf.load_store split: if_splits)

lemma create_starts:
  assumes "48 \<le> n" "n \<le> INT_MAX" "n \<le> blen b" "flags = 0 \<or> flags = 1"
  shows "\<exists>b'. fdt_create_with_flags b n flags = Some (0, b') \<and> sw_rsv b' [] \<and>
    blen b' = blen b \<and> blob_addr b' = blob_addr b \<and> hdr b' H_totalsize = n \<and>
    hdr b' H_last_comp_version = flags"
proof -
  obtain b0 where b0: "memset b 0 0 n = Some b0"
    using assms by (simp add: memset_def) (use wr_in_range [of 0 "replicate (nat n) 0" b] in auto)
  have w: "wr b 0 (replicate (nat n) 0) = Some b0" using b0 assms by (simp add: memset_def)
  have z: "hdr b0 f = 0" for f
    using rd_zeroes [OF b0, of "hdr_off f"] hdr_off_range [of f] assms(1)
    by (simp add: hdr_def fdt_get_header_def)
  have l0: "40 \<le> blen b0" "blen b0 = blen b" "blob_addr b0 = blob_addr b" using wr_SomeD [OF w] assms by auto
  have hs: "FDT_ALIGN 40 16 = 48" by (simp add: FDT_ALIGN_def)
  obtain b1 where b1: "fdt_set_header b0 H_magic FDT_SW_MAGIC = Some b1" "blen b1 = blen b0" "40 \<le> blen b1"
    "blob_addr b1 = blob_addr b0" "\<And>g. hdr b1 g = (if g = H_magic then u32 FDT_SW_MAGIC else hdr b0 g)"
    using set_header_ok [OF l0(1), of H_magic "FDT_SW_MAGIC"] by metis
  obtain b2 where b2: "fdt_set_header b1 H_version 17 = Some b2" "blen b2 = blen b1" "40 \<le> blen b2"
    "blob_addr b2 = blob_addr b1" "\<And>g. hdr b2 g = (if g = H_version then u32 17 else hdr b1 g)"
    using set_header_ok [OF b1(3), of H_version 17] by metis
  obtain b3 where b3: "fdt_set_header b2 H_last_comp_version flags = Some b3" "blen b3 = blen b2" "40 \<le> blen b3"
    "blob_addr b3 = blob_addr b2" "\<And>g. hdr b3 g = (if g = H_last_comp_version then u32 flags else hdr b2 g)"
    using set_header_ok [OF b2(3), of H_last_comp_version flags] by metis
  obtain b4 where b4: "fdt_set_header b3 H_totalsize n = Some b4" "blen b4 = blen b3" "40 \<le> blen b4"
    "blob_addr b4 = blob_addr b3" "\<And>g. hdr b4 g = (if g = H_totalsize then u32 n else hdr b3 g)"
    using set_header_ok [OF b3(3), of H_totalsize n] by metis
  obtain b5 where b5: "fdt_set_header b4 H_off_mem_rsvmap 48 = Some b5" "blen b5 = blen b4" "40 \<le> blen b5"
    "blob_addr b5 = blob_addr b4" "\<And>g. hdr b5 g = (if g = H_off_mem_rsvmap then u32 48 else hdr b4 g)"
    using set_header_ok [OF b4(3), of H_off_mem_rsvmap 48] by metis
  obtain b6 where b6: "fdt_set_header b5 H_off_dt_struct 48 = Some b6" "blen b6 = blen b5" "40 \<le> blen b6"
    "blob_addr b6 = blob_addr b5" "\<And>g. hdr b6 g = (if g = H_off_dt_struct then u32 48 else hdr b5 g)"
    using set_header_ok [OF b5(3), of H_off_dt_struct 48] by metis
  obtain b7 where b7: "fdt_set_header b6 H_off_dt_strings 0 = Some b7" "blen b7 = blen b6" "40 \<le> blen b7"
    "blob_addr b7 = blob_addr b6" "\<And>g. hdr b7 g = (if g = H_off_dt_strings then u32 0 else hdr b6 g)"
    using set_header_ok [OF b6(3), of H_off_dt_strings 0] by metis
  have "fdt_off_mem_rsvmap b5 = Some 48" using b5(5) fdt_get_header_hdr [OF b5(3)] by (simp add: u32_def)
  moreover have "flags AND NOT 1 = 0" using assms(4) by auto
  ultimately have "fdt_create_with_flags b n flags = Some (0, b7)"
    using assms(1) b0 b1(1) b2(1) b3(1) b4(1) b5(1) b6(1) b7(1)
    by (simp add: fdt_create_with_flags_def hs)
  moreover have un: "u32 n = n" "u32 flags = flags" using assms by (auto simp: u32_id)
  moreover have "sw_rsv b7 []"
    using assms un l0 z b1 b2 b3 b4 b5 b6 b7
    by (simp add: sw_rsv_def sw_inv_def backed_def u32_def)
  ultimately show ?thesis using l0 b1 b2 b3 b4 b5 b6 b7 by simp
qed

lemma add_reservemap_entry_adds:
  assumes b: "sw_rsv b es"
  shows "if hdr b H_off_dt_struct + 16 \<le> hdr b H_totalsize
    then \<exists>b'. fdt_add_reservemap_entry b a z = Some (0, b') \<and> sw_rsv b' (es @ [(u64 a, u64 z)]) \<and>
      blen b' = blen b \<and> blob_addr b' = blob_addr b \<and> hdr b' H_totalsize = hdr b H_totalsize
    else fdt_add_reservemap_entry b a z = Some (- FDT_ERR_NOSPACE, b)"
proof -
  have inv: "sw_inv b" using b by (simp add: sw_rsv_def)
  note i = sw_invD [OF inv]
  let ?s = "hdr b H_off_dt_struct"
  have s: "s32 ?s = ?s" "u64 (?s + 16) = ?s + 16" using i by (auto intro!: s32_id u64_id)
  have pr: "fdt_sw_probe_memrsv_i b = Some 0"
    using b i by (simp add: sw_rsv_def fdt_sw_probe_memrsv_i_def fdt_sw_probe_i_def)
  show ?thesis
  proof (cases "?s + 16 \<le> hdr b H_totalsize")
    case True
    obtain b1 where b1: "fdt64_st b ?s a = Some b1" "same_but b b1 ?s (?s + 8)" "fdt64_ld b1 ?s = Some (u64 a)"
      using st64_ok [of ?s b a] True i by auto
    obtain b2 where b2: "fdt64_st b1 (?s + 8) z = Some b2" "same_but b1 b2 (?s + 8) (?s + 8 + 8)"
      "fdt64_ld b2 (?s + 8) = Some (u64 z)"
      using st64_ok [of "?s + 8" b1 z] True i same_butD(1) [OF b1(2)] by auto
    have l2: "40 \<le> blen b2" "blen b2 = blen b" "blob_addr b2 = blob_addr b"
      using same_butD(1,2) [OF b1(2)] same_butD(1,2) [OF b2(2)] i(9) by auto
    have h2: "hdr b2 f = hdr b f" for f
      using same_but_hdr [OF b1(2)] same_but_hdr [OF b2(2)] i(6) by simp
    obtain b3 where b3: "fdt_set_off_dt_struct b2 (?s + 16) = Some b3" "blen b3 = blen b2"
      "blob_addr b3 = blob_addr b2" "\<And>g. hdr b3 g = (if g = H_off_dt_struct then u32 (?s + 16) else hdr b2 g)"
      "same_but b2 b3 0 40"
      using set_header_ok [OF l2(1), of H_off_dt_struct "?s + 16"] by metis
    have u: "u32 (?s + 16) = ?s + 16" using True i by (intro u32_id) auto
    have "fdt64_ld b3 ?s = Some (u64 a)" "fdt64_ld b3 (?s + 8) = Some (u64 z)" "rsv_at b3 48 es"
      using b1(3) b2(3) same_but_ld64 [OF b2(2), of ?s] same_but_ld64 [OF b3(5), of ?s] i(6)
        same_but_ld64 [OF b3(5), of "?s + 8"] b
        same_but_rsv [OF b1(2), of 48 es] same_but_rsv [OF b2(2), of 48 es] same_but_rsv [OF b3(5), of 48 es]
      by (auto simp: sw_rsv_def)
    moreover have h3: "hdr b3 g = (if g = H_off_dt_struct then ?s + 16 else hdr b g)" for g
      using b3(4) u h2 by simp
    ultimately have "sw_rsv b3 (es @ [(u64 a, u64 z)])"
      using b True l2 b3(2) by (simp add: sw_rsv_def sw_inv_def backed_def h3 algebra_simps)
    moreover have "fdt_add_reservemap_entry b a z = Some (0, b3)"
      using pr i True s b1(1) b2(1) b3(1) by (simp add: fdt_add_reservemap_entry_def Let_def)
    ultimately show ?thesis using True l2 b3 h2 by auto
  next
    case False
    then show ?thesis using pr i s by (simp add: fdt_add_reservemap_entry_def Let_def)
  qed
qed

lemma finish_reservemap_starts:
  assumes b: "sw_rsv b es"
  shows "if hdr b H_off_dt_struct + 16 \<le> hdr b H_totalsize
    then \<exists>b'. fdt_finish_reservemap b = Some (0, b') \<and> sw_items b' [] \<and> rsv_at b' 48 (es @ [(0, 0)]) \<and>
      hdr b' H_off_dt_struct = 48 + 16 * (int (length es) + 1) \<and> sw_free b' = sw_free b - 16 \<and>
      blen b' = blen b \<and> blob_addr b' = blob_addr b \<and> hdr b' H_totalsize = hdr b H_totalsize
    else fdt_finish_reservemap b = Some (- FDT_ERR_NOSPACE, b)"
proof (cases "hdr b H_off_dt_struct + 16 \<le> hdr b H_totalsize")
  case True
  then obtain b1 where b1: "fdt_add_reservemap_entry b 0 0 = Some (0, b1)" "sw_rsv b1 (es @ [(u64 0, u64 0)])"
    "blen b1 = blen b" "blob_addr b1 = blob_addr b" "hdr b1 H_totalsize = hdr b H_totalsize"
    using add_reservemap_entry_adds [OF b, of 0 0] by auto
  then have inv: "sw_inv b1" by (simp add: sw_rsv_def)
  note i = sw_invD [OF inv]
  obtain b2 where b2: "fdt_set_off_dt_strings b1 (hdr b1 H_totalsize) = Some b2" "blen b2 = blen b1"
    "blob_addr b2 = blob_addr b1"
    "\<And>g. hdr b2 g = (if g = H_off_dt_strings then u32 (hdr b1 H_totalsize) else hdr b1 g)" "same_but b1 b2 0 40"
    using set_header_ok [OF i(9), of H_off_dt_strings "hdr b1 H_totalsize"] by metis
  have "sw_toks b2 []"
    using b1(2) b2 by (simp add: sw_toks_def sw_rsv_def sw_inv_def backed_def)
  then have "sw_items b2 []" by (auto simp: sw_items_def)
  moreover have "rsv_at b2 48 (es @ [(0, 0)])"
    using b1(2) same_but_rsv [OF b2(5), of 48 "es @ [(0, 0)]"] by (simp add: sw_rsv_def u64_def)
  moreover have "hdr b2 H_off_dt_struct = 48 + 16 * (int (length es) + 1)"
    using b1(2) b2(4) by (simp add: sw_rsv_def)
  moreover have "sw_free b2 = sw_free b - 16"
    using b b1(2,5) b2(4) by (simp add: sw_free_def sw_rsv_def)
  moreover have "fdt_finish_reservemap b = Some (0, b2)"
    using b1(1) b2(1) i by (simp add: fdt_finish_reservemap_def)
  ultimately show ?thesis using True b1 b2 by auto
next
  case False
  then show ?thesis using add_reservemap_entry_adds [OF b, of 0 0] by (simp add: fdt_finish_reservemap_def)
qed

section \<open>Finishing\<close>

fun reloc :: "int \<Rightarrow> tok \<Rightarrow> tok" where
  "reloc k (TProp no v) = TProp (u32 (s32 no + k)) v"
| "reloc k t = t"

lemma reloc_size [simp]: "tok_size (reloc k t) = tok_size t" "toks_size (map (reloc k) ts) = toks_size ts"
proof -
  show a: "tok_size (reloc k t) = tok_size t" for t by (cases t) auto
  show "toks_size (map (reloc k) ts) = toks_size ts" by (induction ts) (auto simp: a)
qed

lemma reloc_nop: "TNop = reloc k t \<longleftrightarrow> t = TNop"
  by (cases t) auto

text \<open>One turn of the loop.\<close>

lemma finish_loop_step:
  assumes b: "readable b" "40 \<le> hdr b H_off_dt_struct" "0 \<le> off" "4 dvd off" "room b off (tok_size t)"
    and t: "tok_at b (hdr b H_off_dt_struct + off) t" "t \<noteq> TFinish"
  defines "p \<equiv> hdr b H_off_dt_struct + off"
  obtains b1 where "finish_loop b off = finish_loop b1 (off + tok_size t)"
    "same_but b b1 p (p + tok_size t)" "tok_at b1 p (reloc (hdr b H_size_dt_strings) t)"
proof -
  have n: "fdt_next_tag b off = Some (tok_tag t, off + tok_size t)" by (rule next_tag_tok [OF b(1,3,4,5) t(1)])
  have tg: "tok_tag t \<noteq> FDT_END" using t(2) by (cases t) auto
  have bk: "backed b" using b(1) by (simp add: readable_def)
  show ?thesis
  proof (cases "\<exists>no v. t = TProp no v")
    case True
    then obtain no v where tp: "t = TProp no v" by blast
    note al = TAGALIGN_length(1,2) [of v]
    let ?k = "hdr b H_size_dt_strings"
    have r: "p + tok_size t \<le> blen b" using b(5) bk by (simp add: p_def room_def backed_def)
    obtain b1 where b1: "fdt32_st b (p + 8) (s32 no + ?k) = Some b1" "same_but b b1 (p + 8) (p + 8 + 4)"
      "fdt32_ld b1 (p + 8) = Some (u32 (s32 no + ?k))"
      using st32_ok [of "p + 8" b "s32 no + ?k"] r b(2,3) tp al by (auto simp: p_def)
    have "tok_at b1 p (reloc ?k t)"
      using t(1) tp b1(3) same_but_ld32 [OF b1(2), of p] same_but_ld32 [OF b1(2), of "p + 4"]
        same_but_rd [OF b1(2), of "p + 12"] by (simp add: p_def)
    moreover have "same_but b b1 p (p + tok_size t)" using same_but_mono [OF b1(2)] tp al by auto
    moreover have "finish_loop b off = finish_loop b1 (off + tok_size t)"
      using n tg tp bk t(1) b1(1)
      by (subst finish_loop.simps) (simp add: fdt_offset_ptr_i_def p_def)
    ultimately show ?thesis using that by blast
  next
    case False
    then have "reloc (hdr b H_size_dt_strings) t = t" "tok_tag t \<noteq> FDT_PROP" by (cases t; simp)+
    moreover have "finish_loop b off = finish_loop b (off + tok_size t)"
      using n tg calculation(2) by (subst finish_loop.simps) simp
    ultimately show ?thesis using that [of b] t(1) same_but_refl by (simp add: p_def)
  qed
qed

lemma finish_loop_relocates:
  assumes "readable b" "40 \<le> hdr b H_off_dt_struct" "0 \<le> off" "4 dvd off" "room b off (toks_size ts + 4)"
    and "toks_at b (hdr b H_off_dt_struct + off) (ts @ [TFinish])" "TFinish \<notin> set ts"
  shows "\<exists>b'. finish_loop b off = Some (off + toks_size ts + 4, b') \<and>
    same_but b b' (hdr b H_off_dt_struct + off) (hdr b H_off_dt_struct + off + toks_size ts) \<and>
    toks_at b' (hdr b H_off_dt_struct + off) (map (reloc (hdr b H_size_dt_strings)) ts @ [TFinish])"
  using assms
proof (induction ts arbitrary: b off)
  case Nil
  then have "fdt_next_tag b off = Some (FDT_END, off + 4)"
    using next_tag_tok [of b off TFinish] by simp
  then show ?case using Nil same_but_refl by (subst finish_loop.simps) auto
next
  case (Cons t ts)
  let ?s = "hdr b H_off_dt_struct" and ?k = "hdr b H_size_dt_strings"
  have sz: "0 \<le> toks_size ts" "4 \<le> tok_size t" "4 dvd tok_size t" using toks_size_nonneg tok_size_ge by auto
  obtain b1 where b1: "finish_loop b off = finish_loop b1 (off + tok_size t)"
    "same_but b b1 (?s + off) (?s + off + tok_size t)" "tok_at b1 (?s + off) (reloc ?k t)"
    using finish_loop_step [of b off t] Cons.prems room_mono [OF Cons.prems(5)] sz by auto
  have p40: "40 \<le> ?s + off" using Cons.prems by simp
  have h: "hdr b1 f = hdr b f" for f using same_but_hdr [OF b1(2) p40] .
  have "readable b1" "room b1 (off + tok_size t) (toks_size ts + 4)"
    using readable_same [OF b1(2) p40] Cons.prems(1) room_mono [OF Cons.prems(5)] by (auto simp: add.assoc)
  moreover have "toks_at b1 (?s + (off + tok_size t)) (ts @ [TFinish])"
    using Cons.prems(6) same_but_toks [OF b1(2), of "?s + (off + tok_size t)" "ts @ [TFinish]"]
    by (simp add: add.assoc)
  ultimately obtain b' where b': "finish_loop b1 (off + tok_size t) = Some (off + tok_size t + toks_size ts + 4, b')"
    "same_but b1 b' (?s + (off + tok_size t)) (?s + (off + tok_size t) + toks_size ts)"
    "toks_at b' (?s + (off + tok_size t)) (map (reloc ?k) ts @ [TFinish])"
    using Cons.IH [of b1 "off + tok_size t"] Cons.prems sz h by auto
  have "tok_at b' (?s + off) (reloc ?k t)"
    using b1(3) tok_at_cong [of b' b1 "?s + off" "reloc ?k t"] same_butD(1,3) [OF b'(2)] by (auto simp: add.assoc)
  moreover have "same_but b b' (?s + off) (?s + off + toks_size (t # ts))"
    using same_but_mono [OF b1(2), of "?s + off" "?s + off + toks_size (t # ts)"]
      same_but_mono [OF b'(2), of "?s + off" "?s + off + toks_size (t # ts)"] sz
    by (auto intro: same_but_trans simp: add.assoc)
  ultimately show ?case using b1(1) b' by (auto simp: add.assoc)
qed

lemma sw_denotes_no_finish: "list_all2 (sw_denotes b) ts its \<Longrightarrow> TFinish \<notin> set ts \<and> TNop \<notin> set ts"
  by (induction ts its rule: list_all2_induct) (auto elim: sw_denotes.elims)

lemma denotes_reloc:
  assumes d: "sw_denotes b t i" and z: "hdr b H_size_dt_strings \<le> INT_MAX"
    and h: "hdr b' H_size_dt_strings = hdr b H_size_dt_strings"
    and m: "\<And>i m. 0 \<le> i \<Longrightarrow> 0 \<le> m \<Longrightarrow> i + m \<le> hdr b H_size_dt_strings \<Longrightarrow>
       rd b' (hdr b' H_off_dt_strings + i) m = rd b (hdr b H_totalsize - hdr b H_size_dt_strings + i) m"
  shows "denotes b' (reloc (hdr b H_size_dt_strings) t) i"
proof (cases t)
  case (TProp no v)
  let ?z = "hdr b H_size_dt_strings"
  obtain nm where i: "i = Prop nm v" and n: "sw_named b no nm" using d TProp by (cases i) auto
  let ?o = "s32 no + ?z"
  have o: "0 \<le> ?o" "?o + cstrlen nm + 1 \<le> ?z" using n by (auto simp: sw_named_def)
  then have u: "u32 ?o = ?o" using z by (intro u32_id) auto
  have "rd b' (hdr b' H_off_dt_strings + ?o) (cstrlen nm + 1) = Some (nm @ [0])"
    using m [of ?o "cstrlen nm + 1"] o n by (simp add: sw_named_def)
  then show ?thesis using TProp i n o u h by (simp add: named_def sw_named_def)
qed (use d in \<open>cases i; simp\<close>)+

text \<open>The three stages of \<open>fdt_finish\<close> before and after its loop: the end tag, moving the strings, and
  the header.\<close>

lemma finish_end_tag:
  assumes inv: "sw_inv b"
    and room: "hdr b H_off_dt_struct + hdr b H_size_dt_struct + 4 + hdr b H_size_dt_strings \<le> hdr b H_totalsize"
  defines "tp \<equiv> hdr b H_off_dt_struct + hdr b H_size_dt_struct"
  obtains b1 b2 where "fdt_grab_space_i b 4 = Some (Ptr tp, b1)" "fdt32_st b1 tp FDT_END = Some b2"
    "blen b2 = blen b" "blob_addr b2 = blob_addr b"
    "\<And>g. hdr b2 g = (if g = H_size_dt_struct then hdr b H_size_dt_struct + 4 else hdr b g)"
    "\<And>q. 40 \<le> q \<Longrightarrow> q < tp \<or> tp + 4 \<le> q \<Longrightarrow> ld8 b2 q = ld8 b q" "fdt32_ld b2 tp = Some FDT_END"
proof -
  note i = sw_invD [OF inv]
  let ?c = "hdr b H_size_dt_struct"
  have nn: "0 \<le> ?c" "0 \<le> hdr b H_size_dt_strings" by simp_all
  obtain b1 where b1: "fdt_set_size_dt_struct b (?c + 4) = Some b1" "fdt_grab_space_i b 4 = Some (Ptr tp, b1)"
    using grab_space_spec [OF inv, of 4] room by (auto simp: tp_def)
  have u: "u32 (?c + 4) = ?c + 4" using i nn room by (intro u32_id) linarith+
  note sb1 = same_butD [OF set_header_same_but [OF b1(1)]]
  have p: "40 \<le> tp" "tp + 4 \<le> blen b1" using i nn room sb1(1) unfolding tp_def by linarith+
  obtain b2 where b2: "fdt32_st b1 tp 9 = Some b2" "same_but b1 b2 tp (tp + 4)" "fdt32_ld b2 tp = Some (u32 9)"
    using st32_ok [of tp b1 9] p by auto
  have "hdr b2 g = (if g = H_size_dt_struct then ?c + 4 else hdr b g)" for g
    using same_but_hdr [OF b2(2) p(1)] hdr_set [OF b1(1)] u by simp
  then show ?thesis using that b1(2) b2 sb1 same_butD [OF b2(2)] by (simp add: u32_def)
qed

lemma finish_move_strings:
  assumes "0 \<le> src" "0 \<le> z" "src + z \<le> blen b2" "40 \<le> n" "n + z \<le> blen b2" "n < 4294967296" "40 \<le> blen b2"
  obtains b3 b4 where "memmove b2 n src z = Some b3" "fdt_set_off_dt_strings b3 n = Some b4"
    "blen b4 = blen b2" "blob_addr b4 = blob_addr b2" "\<And>g. hdr b3 g = hdr b2 g"
    "\<And>g. hdr b4 g = (if g = H_off_dt_strings then n else hdr b2 g)"
    "\<And>q. 40 \<le> q \<Longrightarrow> q < n \<Longrightarrow> ld8 b4 q = ld8 b2 q"
    "\<And>i m. 0 \<le> i \<Longrightarrow> 0 \<le> m \<Longrightarrow> i + m \<le> z \<Longrightarrow> rd b4 (n + i) m = rd b2 (src + i) m"
proof -
  have n0: "0 \<le> n" using assms(4) by simp
  obtain b3 where b3: "memmove b2 n src z = Some b3" "same_but b2 b3 n (n + z)"
    "\<And>i m. 0 \<le> i \<Longrightarrow> 0 \<le> m \<Longrightarrow> i + m \<le> z \<Longrightarrow> rd b3 (n + i) m = rd b2 (src + i) m"
    using memmove_ok [OF assms(1-3) n0 assms(5)] by blast
  have h3: "hdr b3 g = hdr b2 g" for g using same_but_hdr [OF b3(2) assms(4)] .
  have l3: "40 \<le> blen b3" using same_butD(1) [OF b3(2)] assms(7) by simp
  obtain b4 where b4: "fdt_set_off_dt_strings b3 n = Some b4" "blen b4 = blen b3" "blob_addr b4 = blob_addr b3"
    "\<And>g. hdr b4 g = (if g = H_off_dt_strings then u32 n else hdr b3 g)" "same_but b3 b4 0 40"
    using set_header_ok [OF l3, of H_off_dt_strings n] by metis
  have "rd b4 (n + i) m = rd b2 (src + i) m" if "0 \<le> i" "0 \<le> m" "i + m \<le> z" for i m
    using b3(3) [OF that] same_but_rd [OF b4(5), of "n + i" m] that assms(4) by simp
  moreover have "u32 n = n" using n0 assms(6) by (rule u32_id)
  ultimately show ?thesis
    using that [OF b3(1) b4(1)] b4 h3 same_butD [OF b3(2)] same_butD(3) [OF b4(5)] by simp
qed

lemma finish_header:
  assumes "40 \<le> blen b5" "0 \<le> n" "n < 4294967296"
  obtains b6 b7 b8 where "fdt_set_totalsize b5 n = Some b6" "fdt_set_last_comp_version b6 16 = Some b7"
    "fdt_set_magic b7 FDT_MAGIC = Some b8" "same_but b5 b8 0 40"
    "\<And>g. hdr b8 g = (if g = H_magic then FDT_MAGIC else if g = H_last_comp_version then 16
        else if g = H_totalsize then n else hdr b5 g)"
proof -
  obtain b6 where b6: "fdt_set_totalsize b5 n = Some b6" "40 \<le> blen b6"
    "\<And>g. hdr b6 g = (if g = H_totalsize then u32 n else hdr b5 g)" "same_but b5 b6 0 40"
    using set_header_ok [OF assms(1), of H_totalsize n] by metis
  obtain b7 where b7: "fdt_set_last_comp_version b6 16 = Some b7" "40 \<le> blen b7"
    "\<And>g. hdr b7 g = (if g = H_last_comp_version then u32 16 else hdr b6 g)" "same_but b6 b7 0 40"
    using set_header_ok [OF b6(2), of H_last_comp_version 16] by metis
  obtain b8 where b8: "fdt_set_magic b7 FDT_MAGIC = Some b8"
    "\<And>g. hdr b8 g = (if g = H_magic then u32 FDT_MAGIC else hdr b7 g)" "same_but b7 b8 0 40"
    using set_header_ok [OF b7(2), of H_magic "FDT_MAGIC"] by metis
  have "same_but b5 b8 0 40" using b6(4) b7(4) b8(3) by (blast intro: same_but_trans)
  moreover have "u32 n = n" using assms by (intro u32_id)
  ultimately show ?thesis using that [OF b6(1) b7(1) b8(1)] b6(3) b7(3) b8(2) by (simp add: u32_def)
qed

text \<open>The blob \<open>fdt_finish\<close> leaves.\<close>

definition finished :: "blob \<Rightarrow> blob \<Rightarrow> item list \<Rightarrow> bool" where
  "finished b b' its \<longleftrightarrow> (\<exists>ts. struct_items b' ts its \<and> TNop \<notin> set ts) \<and>
     hdr b' H_magic = FDT_MAGIC \<and> hdr b' H_version = 17 \<and> hdr b' H_last_comp_version = 16 \<and>
     hdr b' H_off_mem_rsvmap = 48 \<and> hdr b' H_off_dt_struct = hdr b H_off_dt_struct \<and>
     hdr b' H_off_dt_strings = hdr b' H_off_dt_struct + hdr b' H_size_dt_struct \<and>
     hdr b' H_totalsize = hdr b' H_off_dt_strings + hdr b' H_size_dt_strings \<and>
     blen b' = blen b \<and> blob_addr b' = blob_addr b \<and>
     (\<forall>q. 40 \<le> q \<and> q < hdr b H_off_dt_struct \<longrightarrow> ld8 b' q = ld8 b q)"

lemma finish_builds:
  assumes b: "sw_items b its"
    and room: "hdr b H_off_dt_struct + hdr b H_size_dt_struct + 4 + hdr b H_size_dt_strings \<le> hdr b H_totalsize"
  shows "\<exists>b'. fdt_finish b = Some (0, b') \<and> finished b b' its"
proof -
  obtain ts where ts: "sw_toks b ts" "list_all2 (sw_denotes b) ts its" using b by (auto simp: sw_items_def)
  then have inv: "sw_inv b" by (simp add: sw_toks_def)
  note i = sw_invD [OF inv]
  let ?s = "hdr b H_off_dt_struct" and ?c = "hdr b H_size_dt_struct" and ?z = "hdr b H_size_dt_strings"
  let ?t = "hdr b H_totalsize"
  define n where "n = ?s + ?c + 4"
  have nn: "0 \<le> ?c" "0 \<le> ?z" by simp_all
  have no: "TFinish \<notin> set ts" "TNop \<notin> set ts" using sw_denotes_no_finish [OF ts(2)] by auto
  have tc: "?c = toks_size ts" using ts(1) by (simp add: sw_toks_def)
  have nr: "40 \<le> n" "n + ?z \<le> ?t" "?s + ?c \<le> n" "n = ?s + (?c + 4)" "n \<le> ?t" using room i nn unfolding n_def by linarith+
  obtain b1 b2 where b2: "fdt_grab_space_i b 4 = Some (Ptr (?s + ?c), b1)" "fdt32_st b1 (?s + ?c) FDT_END = Some b2"
    "blen b2 = blen b" "blob_addr b2 = blob_addr b"
    "\<And>g. hdr b2 g = (if g = H_size_dt_struct then ?c + 4 else hdr b g)"
    "\<And>q. 40 \<le> q \<Longrightarrow> q < ?s + ?c \<or> ?s + ?c + 4 \<le> q \<Longrightarrow> ld8 b2 q = ld8 b q"
    "fdt32_ld b2 (?s + ?c) = Some FDT_END"
    using finish_end_tag [OF inv room] by metis
  have r3: "0 \<le> ?t - ?z" "?t - ?z + ?z \<le> blen b2" "n + ?z \<le> blen b2" "n < 4294967296" "40 \<le> blen b2"
    using nr i nn b2(3) by linarith+
  obtain b3 b4 where b4: "memmove b2 n (?t - ?z) ?z = Some b3" "fdt_set_off_dt_strings b3 n = Some b4"
    "blen b4 = blen b2" "blob_addr b4 = blob_addr b2" "\<And>g. hdr b3 g = hdr b2 g"
    "\<And>g. hdr b4 g = (if g = H_off_dt_strings then n else hdr b2 g)"
    "\<And>q. 40 \<le> q \<Longrightarrow> q < n \<Longrightarrow> ld8 b4 q = ld8 b2 q"
    "\<And>i m. 0 \<le> i \<Longrightarrow> 0 \<le> m \<Longrightarrow> i + m \<le> ?z \<Longrightarrow> rd b4 (n + i) m = rd b2 (?t - ?z + i) m"
    using finish_move_strings [OF r3(1) nn(2) r3(2) nr(1) r3(3-5)] by metis
  have h4: "hdr b4 g = (if g = H_off_dt_strings then n else if g = H_size_dt_struct then ?c + 4 else hdr b g)" for g
    using b4(6) b2(5) by simp
  have m4: "ld8 b4 q = ld8 b q" if "40 \<le> q" "q < ?s + ?c" for q
    using that b4(7) [of q] b2(6) [of q] nr(3) by simp
  have "?s + (toks_size ts + 4) \<le> ?t" using nr(4,5) tc by linarith
  then have "room b4 0 (toks_size ts + 4)" using tc by (simp add: room_def h4)
  moreover have "readable b4" using i b2(3) b4(3) by (simp add: readable_def backed_def h4)
  ultimately have r4: "readable b4" "room b4 0 (toks_size ts + 4)" by auto
  have "toks_at b4 ?s ts"
    using toks_at_cong [of b4 b ?s ts] m4 ts(1) i(6) b2(3) b4(3) by (auto simp: sw_toks_def)
  moreover have "fdt32_ld b4 (?s + ?c) = Some FDT_END"
    using b2(7) ld32_cong [of "?s + ?c" b4 b2] b4(7) nr i(6) nn by (auto simp: n_def)
  ultimately have t4: "toks_at b4 (?s + 0) (ts @ [TFinish])" using tc by simp
  obtain b5 where b5: "finish_loop b4 0 = Some (toks_size ts + 4, b5)"
    "same_but b4 b5 ?s (?s + toks_size ts)" "toks_at b5 ?s (map (reloc ?z) ts @ [TFinish])"
    using finish_loop_relocates [OF r4(1), of 0 ts] r4(2) t4 i(6) no(1) by (auto simp: h4)
  have h5: "hdr b5 g = hdr b4 g" for g using same_but_hdr [OF b5(2)] i(6) by simp
  have r6: "40 \<le> blen b5" "0 \<le> n + ?z" "n + ?z < 4294967296"
    using same_butD(1) [OF b5(2)] b4(3) r3(5) nr i nn by linarith+
  obtain b6 b7 b8 where b8: "fdt_set_totalsize b5 (n + ?z) = Some b6" "fdt_set_last_comp_version b6 16 = Some b7"
    "fdt_set_magic b7 FDT_MAGIC = Some b8" "same_but b5 b8 0 40"
    "\<And>g. hdr b8 g = (if g = H_magic then FDT_MAGIC else if g = H_last_comp_version then 16
        else if g = H_totalsize then n + ?z else hdr b5 g)"
    using finish_header [OF r6] by metis
  have h8: "hdr b8 g = (if g = H_magic then FDT_MAGIC else if g = H_last_comp_version then 16
      else if g = H_totalsize then n + ?z else if g = H_off_dt_strings then n
      else if g = H_size_dt_struct then ?c + 4 else hdr b g)" for g
    using b8(5) h5 h4 by simp
  have l8: "blen b8 = blen b" "blob_addr b8 = blob_addr b"
    using same_butD [OF b8(4)] same_butD [OF b5(2)] b4(3,4) b2(3,4) by simp_all
  have st: "rd b8 (n + i) m = rd b (?t - ?z + i) m" if "0 \<le> i" "0 \<le> m" "i + m \<le> ?z" for i m
  proof -
    have "rd b8 (n + i) m = rd b4 (n + i) m"
      using same_but_rd [OF b8(4), of "n + i" m] same_but_rd [OF b5(2), of "n + i" m] nr that tc by simp
    also have "\<dots> = rd b2 (?t - ?z + i) m" using b4(8) that by blast
    also have "\<dots> = rd b (?t - ?z + i) m"
      using that nr room i nn by (intro rd_cong b2(3) b2(6)) linarith+
    finally show ?thesis .
  qed
  have "denotes b8 (reloc ?z t) i" if "sw_denotes b t i" for t i
    using st i(13) by (intro denotes_reloc [OF that]) (simp_all add: h8)
  then have "list_all2 (denotes b8) (map (reloc ?z) ts) its"
    using ts(2) by (auto simp: list_all2_map1 elim!: list_all2_mono)
  moreover have nop: "TNop \<notin> set (map (reloc ?z) ts)" using no(2) by (auto simp: reloc_nop)
  then have "filter (\<lambda>t. t \<noteq> TNop) (map (reloc ?z) ts) = map (reloc ?z) ts" by (metis (mono_tags, lifting) filter_True)
  moreover have "toks_at b8 ?s (map (reloc ?z) ts @ [TFinish])"
    using same_but_toks [OF b8(4), of ?s "map (reloc ?z) ts @ [TFinish]"] b5(3) i(6) by simp
  ultimately have "struct_items b8 (map (reloc ?z) ts) its"
    using nr nn i l8 tc by (simp add: struct_items_def readable_def backed_def h8)
  moreover have "ld8 b8 q = ld8 b q" if "40 \<le> q" "q < ?s" for q
  proof -
    have "q < ?s + ?c" using that nn by linarith
    then show ?thesis using that same_butD(3) [OF b8(4), of q] same_butD(3) [OF b5(2), of q] m4 by simp
  qed
  ultimately have "finished b b8 its"
    using nop nr l8 i unfolding finished_def by (auto simp: h8)
  moreover have "fdt_finish b = Some (0, b8)"
  proof -
    have bk: "40 \<le> blen b2" "40 \<le> blen b5" by fact+
    have "s32 (?t - ?z) = ?t - ?z" "s32 n = n" using nr i nn by (intro s32_id; linarith)+
    then have "s32 (?t - ?z) = ?t - ?z" "s32 (?s + (?c + 4)) = n" using nr(4) by simp_all
    then show ?thesis
      using sw_probe_struct_ok [OF ts(1)] b2 b4 b5(1) b8 bk toks_size_nonneg(1) [of ts]
      by (simp add: fdt_finish_def fdt_get_header_hdr h5 h4 Let_def)
  qed
  ultimately show ?thesis by blast
qed

lemma finish_no_room:
  assumes b: "sw_items b its"
    and "\<not> hdr b H_off_dt_struct + hdr b H_size_dt_struct + 4 + hdr b H_size_dt_strings \<le> hdr b H_totalsize"
  shows "fdt_finish b = Some (- FDT_ERR_NOSPACE, b)"
proof -
  obtain ts where ts: "sw_toks b ts" using b by (auto simp: sw_items_def)
  then have "sw_inv b" by (simp add: sw_toks_def)
  from grab_space_spec [OF this, of 4] show ?thesis
    using assms(2) sw_probe_struct_ok [OF ts] by (simp add: fdt_finish_def)
qed

section \<open>Sequences of calls\<close>

text \<open>One call of the structure phase, by the item it adds.\<close>

fun sw_call :: "blob \<Rightarrow> item \<Rightarrow> (int \<times> blob) option" where
  "sw_call b (Begin n) = fdt_begin_node b n"
| "sw_call b End = fdt_end_node b"
| "sw_call b (Prop n v) = fdt_property b n v (int (length v))"

text \<open>What a caller may pass: strings without a NUL, lengths that fit an \<open>int\<close> with room for the padding,
  and property names of at most 47 bytes (the device tree standard allows 31). A
  longer name can exceed the buffer, see below.\<close>

fun legal_item :: "item \<Rightarrow> bool" where
  "legal_item (Begin n) \<longleftrightarrow> 0 \<notin> set n \<and> cstrlen n \<le> 2147483640"
| "legal_item End \<longleftrightarrow> True"
| "legal_item (Prop n v) \<longleftrightarrow> 0 \<notin> set n \<and> cstrlen n \<le> 47 \<and> int (length v) \<le> 2147483640"

text \<open>What a single call needs: instead of the 47 bytes, that the name of a property and the strings so far fit into the buffer.\<close>

fun call_ok :: "blob \<Rightarrow> item \<Rightarrow> bool" where
  "call_ok b (Begin n) \<longleftrightarrow> 0 \<notin> set n \<and> cstrlen n \<le> 2147483640"
| "call_ok b End \<longleftrightarrow> True"
| "call_ok b (Prop n v) \<longleftrightarrow> 0 \<notin> set n \<and> hdr b H_size_dt_strings + (cstrlen n + 1) \<le> hdr b H_totalsize \<and> int (length v) \<le> 2147483640"

lemma legal_call_ok:
  assumes "sw_items b its" "legal_item i"
  shows "call_ok b i"
proof -
  obtain ts where "sw_toks b ts" using assms(1) by (auto simp: sw_items_def)
  then have inv: "sw_inv b" by (simp add: sw_toks_def)
  note k = sw_invD [OF inv]
  have "0 \<le> hdr b H_size_dt_struct" "0 \<le> hdr b H_size_dt_strings" by simp_all
  then have "hdr b H_size_dt_strings + (cstrlen n + 1) \<le> hdr b H_totalsize" if "cstrlen n \<le> 47" for n using that k by linarith
  then show ?thesis using assms(2) by (cases i) auto
qed

lemma call_adds_item: "sw_items b its \<Longrightarrow> call_ok b i \<Longrightarrow> adds_item b (sw_call b i) its i"
  using begin_node_adds end_node_adds property_adds by (cases i) auto

text \<open>Calls one after the other, up to the first that fails.\<close>

fun run_calls :: "('s \<Rightarrow> 'i \<Rightarrow> (int \<times> 's) option) \<Rightarrow> 's \<Rightarrow> 'i list \<Rightarrow> (int \<times> 's) option" where
  "run_calls call s [] = Some (0, s)"
| "run_calls call s (i # is) = do {
     (r, s) \<leftarrow> call s i;
     if r \<noteq> 0 then Some (r, s) else run_calls call s is }"

text \<open>
  The contract of an interface that builds a sequence of items in a bounded space: a legal
  call adds its item and uses no more than its cost of the free space, or reports that
  there is no room, which it may do only when the free space is below the cost, and leaves the
  items as they are; it never faults. The caller's view follows once and for all: after
  any calls the items built are a prefix of those asked for, and all of them if the
  free space covers their costs.
\<close>

locale item_builder =
  fixes rep :: "'s \<Rightarrow> 'i list \<Rightarrow> bool"
    and call :: "'s \<Rightarrow> 'i \<Rightarrow> (int \<times> 's) option"
    and legal :: "'i \<Rightarrow> bool"
    and keeps :: "'s \<Rightarrow> 's \<Rightarrow> bool"
    and free :: "'s \<Rightarrow> int"
    and cost :: "'i \<Rightarrow> int"
  assumes call_adds:
      "rep s its \<Longrightarrow> legal i \<Longrightarrow> \<exists>r s'. call s i = Some (r, s') \<and> keeps s s' \<and>
         (r = 0 \<and> rep s' (its @ [i]) \<and> free s - cost i \<le> free s' \<or>
          r = - FDT_ERR_NOSPACE \<and> rep s' its \<and> free s < cost i)"
    and cost_nonneg: "0 \<le> cost i"
    and keeps_refl: "keeps s s"
    and keeps_trans: "keeps s s1 \<Longrightarrow> keeps s1 s2 \<Longrightarrow> keeps s s2"
begin

lemma costs_nonneg: "0 \<le> sum_list (map cost is)"
  using cost_nonneg by (intro sum_list_nonneg) auto

lemma calls_build:
  assumes "rep s its" "list_all legal is"
  shows "\<exists>r s' n. run_calls call s is = Some (r, s') \<and> keeps s s' \<and> rep s' (its @ take n is) \<and>
    (r = 0 \<and> n = length is \<and> free s - sum_list (map cost is) \<le> free s' \<or>
     r = - FDT_ERR_NOSPACE \<and> n < length is \<and> free s < sum_list (map cost is))"
  using assms
proof (induction "is" arbitrary: s its)
  case Nil
  then show ?case using keeps_refl by auto
next
  case (Cons i "is")
  obtain r s1 where c: "call s i = Some (r, s1)" "keeps s s1"
    "r = 0 \<and> rep s1 (its @ [i]) \<and> free s - cost i \<le> free s1 \<or>
     r = - FDT_ERR_NOSPACE \<and> rep s1 its \<and> free s < cost i"
    using call_adds [of s its i] Cons.prems by auto
  show ?case
  proof (cases "r = 0")
    case True
    then have r1: "rep s1 (its @ [i])" "free s - cost i \<le> free s1" using c(3) by auto
    obtain r' s' n where s': "run_calls call s1 is = Some (r', s')" "keeps s1 s'"
      "rep s' ((its @ [i]) @ take n is)"
      "r' = 0 \<and> n = length is \<and> free s1 - sum_list (map cost is) \<le> free s' \<or>
       r' = - FDT_ERR_NOSPACE \<and> n < length is \<and> free s1 < sum_list (map cost is)"
      using Cons.IH [OF r1(1)] Cons.prems(2) by auto
    then have "run_calls call s (i # is) = Some (r', s')" "rep s' (its @ take (Suc n) (i # is))"
      using c(1) True by auto
    moreover have "keeps s s'" by (rule keeps_trans [OF c(2) s'(2)])
    ultimately show ?thesis
      using s'(4) r1(2) by (intro exI [of _ r'] exI [of _ s'] exI [of _ "Suc n"]) auto
  next
    case False
    then show ?thesis
      using c costs_nonneg [of "is"] by (intro exI [of _ r] exI [of _ s1] exI [of _ 0]) auto
  qed
qed

end

interpretation sw: item_builder sw_items sw_call legal_item sw_head sw_free sw_cost
proof unfold_locales
  fix s its i
  assume a: "sw_items s its" "legal_item i"
  have "adds_item s (sw_call s i) its i" by (rule call_adds_item [OF a(1) legal_call_ok [OF a]])
  then show "\<exists>r s'. sw_call s i = Some (r, s') \<and> sw_head s s' \<and>
      (r = 0 \<and> sw_items s' (its @ [i]) \<and> sw_free s - sw_cost i \<le> sw_free s' \<or>
       r = - FDT_ERR_NOSPACE \<and> sw_items s' its \<and> sw_free s < sw_cost i)"
    by (auto simp: adds_item_def)
qed (auto intro: sw_head_refl sw_head_trans sw_cost_nonneg)

text \<open>The reserve map phase, as another instance of the same contract.\<close>

definition rsv_call :: "blob \<Rightarrow> int \<times> int \<Rightarrow> (int \<times> blob) option" where
  "rsv_call b e = fdt_add_reservemap_entry b (fst e) (snd e)"

definition legal_rsv :: "int \<times> int \<Rightarrow> bool" where
  "legal_rsv e \<longleftrightarrow> u64 (fst e) = fst e \<and> u64 (snd e) = snd e"

definition rsv_keeps :: "blob \<Rightarrow> blob \<Rightarrow> bool" where
  "rsv_keeps b b' \<longleftrightarrow> blen b' = blen b \<and> blob_addr b' = blob_addr b \<and> hdr b' H_totalsize = hdr b H_totalsize"

lemma sw_free_rsv: "sw_rsv b es \<Longrightarrow> sw_free b = hdr b H_totalsize - (48 + 16 * int (length es))"
  by (simp add: sw_free_def sw_rsv_def)

interpretation rsv: item_builder sw_rsv rsv_call legal_rsv rsv_keeps sw_free "\<lambda>e. 16"
proof unfold_locales
  fix s its i
  assume a: "sw_rsv s its" "legal_rsv i"
  show "\<exists>r s'. rsv_call s i = Some (r, s') \<and> rsv_keeps s s' \<and>
      (r = 0 \<and> sw_rsv s' (its @ [i]) \<and> sw_free s - 16 \<le> sw_free s' \<or>
       r = - FDT_ERR_NOSPACE \<and> sw_rsv s' its \<and> sw_free s < 16)"
    using add_reservemap_entry_adds [OF a(1), of "fst i" "snd i"] a
      hdr_bounds(1) [of s H_size_dt_struct] hdr_bounds(1) [of s H_size_dt_strings]
    by (auto simp: rsv_call_def legal_rsv_def rsv_keeps_def sw_free_def sw_rsv_def split: if_splits)
qed (auto simp: rsv_keeps_def)

text \<open>A whole blob, from an empty buffer to \<open>fdt_finish\<close>.\<close>

definition sw_build :: "blob \<Rightarrow> int \<Rightarrow> (int \<times> int) list \<Rightarrow> item list \<Rightarrow> (int \<times> blob) option" where
  "sw_build buf n es is = do {
     (r, b) \<leftarrow> fdt_create buf n;
     if r \<noteq> 0 then Some (r, b)
     else do {
       (r, b) \<leftarrow> run_calls rsv_call b es;
       if r \<noteq> 0 then Some (r, b)
       else do {
         (r, b) \<leftarrow> fdt_finish_reservemap b;
         if r \<noteq> 0 then Some (r, b)
         else do {
           (r, b) \<leftarrow> run_calls sw_call b is;
           if r \<noteq> 0 then Some (r, b) else fdt_finish b } } } }"

definition built :: "blob \<Rightarrow> (int \<times> int) list \<Rightarrow> item list \<Rightarrow> bool" where
  "built b es is \<longleftrightarrow> (\<exists>ts. struct_items b ts is \<and> TNop \<notin> set ts) \<and>
     hdr b H_magic = FDT_MAGIC \<and> hdr b H_version = 17 \<and> hdr b H_last_comp_version = 16 \<and>
     hdr b H_off_mem_rsvmap = 48 \<and> hdr b H_off_dt_struct = 48 + 16 * (int (length es) + 1) \<and>
     rsv_at b 48 (es @ [(0, 0)]) \<and>
     hdr b H_off_dt_strings = hdr b H_off_dt_struct + hdr b H_size_dt_struct \<and>
     hdr b H_totalsize = hdr b H_off_dt_strings + hdr b H_size_dt_strings"

text \<open>The structure phase up to \<open>fdt_finish\<close>.\<close>

lemma sw_structure_spec:
  assumes b: "sw_items b []" "list_all legal_item is"
  defines "run \<equiv> do { (r, b) \<leftarrow> run_calls sw_call b is; if r \<noteq> 0 then Some (r, b) else fdt_finish b }"
  shows "\<exists>r b'. run = Some (r, b') \<and> blen b' = blen b \<and> blob_addr b' = blob_addr b \<and>
    (r = 0 \<and> finished b b' is \<or> r = - FDT_ERR_NOSPACE \<and> sw_free b < sum_list (map sw_cost is) + 4)"
proof -
  obtain r c m where c: "run_calls sw_call b is = Some (r, c)" "sw_head b c" "sw_items c (take m is)"
    "r = 0 \<and> m = length is \<and> sw_free b - sum_list (map sw_cost is) \<le> sw_free c \<or>
     r = - FDT_ERR_NOSPACE \<and> sw_free b < sum_list (map sw_cost is)"
    using sw.calls_build [OF b] by auto
  have k: "blen c = blen b" "blob_addr c = blob_addr b" using c(2) by (simp_all add: sw_head_def)
  consider "r \<noteq> 0" | "r = 0" "sw_free c < 4" | "r = 0" "4 \<le> sw_free c" by linarith
  then show ?thesis
  proof cases
    case 1
    then show ?thesis using c k by (auto simp: run_def)
  next
    case 2
    moreover have "\<not> hdr c H_off_dt_struct + hdr c H_size_dt_struct + 4 + hdr c H_size_dt_strings \<le> hdr c H_totalsize"
      using 2 by (simp add: sw_free_def)
    ultimately show ?thesis using c finish_no_room [of c "is"] k by (auto simp: run_def)
  next
    case 3
    have "hdr c H_off_dt_struct + hdr c H_size_dt_struct + 4 + hdr c H_size_dt_strings \<le> hdr c H_totalsize"
      using 3 by (simp add: sw_free_def)
    moreover have "sw_items c is" using 3 c by auto
    ultimately obtain d where d: "fdt_finish c = Some (0, d)" "finished c d is" using finish_builds by blast
    then have "finished b d is" "blen d = blen b" "blob_addr d = blob_addr b"
      using c(2) by (simp_all add: finished_def sw_head_def)
    then show ?thesis using 3 c d by (auto simp: run_def)
  qed
qed

text \<open>A size that is always enough: the header and the reserve map with its terminator, the items and
  the end tag.\<close>

definition sw_needs :: "(int \<times> int) list \<Rightarrow> item list \<Rightarrow> int" where
  "sw_needs es is = 48 + 16 * (int (length es) + 1) + sum_list (map sw_cost is) + 4"

lemma sw_needs_ge: "48 + 16 * (int (length es) + 1) + 4 \<le> sw_needs es is"
  using sw.costs_nonneg [of "is"] by (simp add: sw_needs_def)

lemma finished_built:
  assumes "finished b b' is" "rsv_at b 48 (es @ [(0, 0)])"
    "hdr b H_off_dt_struct = 48 + 16 * (int (length es) + 1)"
  shows "built b' es is"
proof -
  have "ld8 b' q = ld8 b q" if "48 \<le> q" "q < 48 + 16 * (int (length es) + 1)" for q
    using that assms by (simp add: finished_def)
  then have "rsv_at b' 48 (es @ [(0, 0)])"
    using assms(2) rsv_at_cong [of 48 "es @ [(0, 0)]" b' b] by simp
  then show ?thesis using assms(1,3) unfolding finished_def built_def by auto
qed

lemma sw_build_spec:
  assumes n: "48 \<le> n" "n \<le> INT_MAX" "n \<le> blen buf" and l: "list_all legal_rsv es" "list_all legal_item is"
  shows "\<exists>r b. sw_build buf n es is = Some (r, b) \<and> blen b = blen buf \<and> blob_addr b = blob_addr buf \<and>
    (r = 0 \<and> built b es is \<or> r = - FDT_ERR_NOSPACE \<and> n < sw_needs es is)"
proof -
  obtain b0 where b0: "fdt_create buf n = Some (0, b0)" "sw_rsv b0 []" "blen b0 = blen buf"
    "blob_addr b0 = blob_addr buf" "hdr b0 H_totalsize = n"
    using create_starts [OF n, of 0] by (auto simp: fdt_create_def)
  obtain r1 b1 k where b1: "run_calls rsv_call b0 es = Some (r1, b1)" "rsv_keeps b0 b1" "sw_rsv b1 (take k es)"
    "r1 = 0 \<and> k = length es \<or> r1 = - FDT_ERR_NOSPACE \<and> sw_free b0 < 16 * int (length es)"
    using rsv.calls_build [OF b0(2) l(1)] by (auto simp: sum_list_triv mult.commute)
  have k1: "blen b1 = blen buf" "blob_addr b1 = blob_addr buf" "hdr b1 H_totalsize = n"
    using b1(2) b0 by (simp_all add: rsv_keeps_def)
  have f0: "sw_free b0 = n - 48" using sw_free_rsv [OF b0(2)] b0(5) by simp
  show ?thesis
  proof (cases "r1 = 0")
    case False
    then show ?thesis using b0 b1 k1 f0 sw_needs_ge [of es "is"] by (auto simp: sw_build_def)
  next
    case t1: True
    then have e: "sw_rsv b1 es" using b1 by auto
    then have o1: "hdr b1 H_off_dt_struct = 48 + 16 * int (length es)" by (simp add: sw_rsv_def)
    show ?thesis
    proof (cases "hdr b1 H_off_dt_struct + 16 \<le> hdr b1 H_totalsize")
      case False
      then show ?thesis
        using finish_reservemap_starts [OF e] b0 b1 k1 t1 o1 sw_needs_ge [of es "is"] by (simp add: sw_build_def)
    next
      case True
      then obtain b2 where b2: "fdt_finish_reservemap b1 = Some (0, b2)" "sw_items b2 []"
        "rsv_at b2 48 (es @ [(0, 0)])" "hdr b2 H_off_dt_struct = 48 + 16 * (int (length es) + 1)"
        "blen b2 = blen b1" "blob_addr b2 = blob_addr b1" "sw_free b2 = sw_free b1 - 16"
        using finish_reservemap_starts [OF e] by auto
      have f2: "sw_free b2 = n - (48 + 16 * (int (length es) + 1))"
        using b2(7) sw_free_rsv [OF e] k1(3) by simp
      have "sw_build buf n es is =
          do { (r, b) \<leftarrow> run_calls sw_call b2 is; if r \<noteq> 0 then Some (r, b) else fdt_finish b }"
        using b0(1) b1(1) t1 b2(1) by (simp add: sw_build_def)
      then show ?thesis
        using sw_structure_spec [OF b2(2) l(2)] finished_built [of b2 _ "is" es] b2 k1 f2
        by (auto simp: sw_needs_def)
    qed
  qed
qed

lemma built_header_ok:
  assumes "built b es is" "8 dvd blob_addr b"
  shows "header_ok b"
proof -
  obtain ts where s: "struct_items b ts is" using assms(1) by (auto simp: built_def)
  have nn: "0 \<le> hdr b H_size_dt_struct" "0 \<le> hdr b H_size_dt_strings" by simp_all
  have "hdr b H_totalsize \<le> INT_MAX" using s by (simp add: struct_items_def readable_def)
  then show ?thesis
    using assms nn unfolding header_ok_def built_def by (auto simp: Let_def fdt_header_size_i_def)
qed

lemma u32_wrap_once: "u32 (x + 4294967296) = u32 x"
  by (simp add: u32_def)

lemma add_string_overflows:
  assumes inv: "sw_inv b" "hdr b H_totalsize < hdr b H_size_dt_strings + (cstrlen s + 1)"
    "hdr b H_size_dt_strings + (cstrlen s + 1) \<le> 2147483648"
  shows "sw_add_string_i b s = None"
proof -
  note i = sw_invD [OF inv(1)]
  let ?n = "hdr b H_size_dt_strings + (cstrlen s + 1)" and ?t = "hdr b H_totalsize"
  let ?top = "hdr b H_off_dt_struct + hdr b H_size_dt_struct"
  have nn: "0 \<le> hdr b H_size_dt_struct" "0 \<le> hdr b H_size_dt_strings" "0 \<le> ?t" by simp_all
  have u: "u32 (cstrlen s + 1) = cstrlen s + 1" "u32 ?n = ?n" "u32 ?top = ?top"
    using i inv(3) nn by (intro u32_id; linarith)+
  have "u32 (?t - ?n) = u32 (?t - ?n + 4294967296)" by (rule u32_wrap_once [symmetric])
  also have "\<dots> = ?t - ?n + 4294967296" using inv nn i by (intro u32_id) linarith+
  finally have w: "\<not> u32 (?t - ?n) < ?top" using inv(3) i nn by linarith
  have "memcpy_in b (?t - ?n) (s @ [0]) (cstrlen s + 1) = None" using inv(2) by (simp add: wr_def)
  then show ?thesis using i(1) u w by (simp add: sw_add_string_i_def Let_def)
qed

lemma property_overflows:
  assumes "sw_items b its" "hdr b H_totalsize < hdr b H_size_dt_strings + (cstrlen s + 1)"
    "hdr b H_size_dt_strings + (cstrlen s + 1) \<le> 2147483648"
    "hdr b H_size_dt_strings < cstrlen s + 1"
  shows "fdt_property b s v len = None"
proof -
  obtain ts where ts: "sw_toks b ts" using assms(1) by (auto simp: sw_items_def)
  then have inv: "sw_inv b" by (simp add: sw_toks_def)
  note i = sw_invD [OF inv]
  let ?z = "hdr b H_size_dt_strings"
  have nn: "0 \<le> ?z" "0 \<le> hdr b H_size_dt_struct" by simp_all
  have z: "s32 ?z = ?z" using i nn by (intro s32_id) linarith+
  have "?z - (cstrlen s + 1) < 0" using assms(4) by linarith
  then have "fdt_find_string_i b (hdr b H_totalsize - ?z) ?z s = Some NULL"
    by (simp add: fdt_find_string_i_def Let_def find_string_loop.simps [of b "hdr b H_totalsize - ?z"])
  then have "sw_find_add_string_i b s = None"
    using add_string_overflows [OF inv assms(2,3)] i(1) z by (simp add: sw_find_add_string_i_def Let_def)
  then show ?thesis
    using sw_probe_struct_ok [OF ts] add_string_overflows [OF inv assms(2,3)] i(1)
    by (simp add: fdt_property_def fdt_property_placeholder_def sw_flags_def)
qed

section \<open>Properties\<close>

text \<open>A buffer of 256 bytes, and a small tree.\<close>

definition scratch_buffer :: blob where
  "scratch_buffer = \<lparr>blob_addr = 0, blob_mem = replicate 256 0xaa\<rparr>"

definition small_tree :: "item list" where
  "small_tree = [Begin [], Prop (cstr ''reg'') [0, 0, 0, 7], Begin (cstr ''cpu''), Prop (cstr ''reg'') [], End, End]"

lemma small_tree_legal: "list_all legal_item small_tree" "list_all legal_rsv [(4096, 16)]"
  by (simp_all add: small_tree_def cstr_def legal_rsv_def u64_def)

lemma small_tree_needs: "sw_needs [(4096, 16)] small_tree \<le> 256"
  by (simp add: sw_needs_def small_tree_def cstr_def FDT_ALIGN_4)

lemma scratch_buffer_start:
  obtains b where "sw_items b []" "hdr b H_totalsize = 64" "hdr b H_size_dt_strings = 0"
proof -
  obtain b0 where b0: "sw_rsv b0 []" "hdr b0 H_totalsize = 64"
    using create_starts [of 64 scratch_buffer 0] by (auto simp: scratch_buffer_def)
  then obtain b where b: "sw_items b []" "hdr b H_totalsize = 64" "hdr b H_off_dt_struct = 64"
    using finish_reservemap_starts [of b0 "[]"] by (auto simp: sw_rsv_def)
  then have "hdr b H_off_dt_struct + hdr b H_size_dt_struct + hdr b H_size_dt_strings \<le> hdr b H_totalsize"
    by (auto simp: sw_items_def sw_toks_def sw_inv_def)
  then have "hdr b H_size_dt_strings = 0"
    using b hdr_bounds(1) [of b H_size_dt_struct] hdr_bounds(1) [of b H_size_dt_strings] by linarith
  then show ?thesis using that b by blast
qed

text \<open>C22: Every call of the structure phase refines the abstract operation "append this item": on a blob
  that holds the items \<open>its\<close>, \<open>fdt_begin_node\<close>, \<open>fdt_end_node\<close> and \<open>fdt_property\<close> return without
  touching memory outside the buffer. Either the blob now holds the new item too, with
  the name and the value given, and has given up at most \<open>sw_cost i\<close> bytes, or fewer than
  that many bytes were free, the result is \<open>-FDT_ERR_NOSPACE\<close> and the blob still
  holds exactly the items it had (a name added for the failed property is taken back). Names have no NUL and
  lengths are below 2 GiB; and the name of a property, together with the strings that are there, is not longer than the whole buffer. The
  code does not check this last condition, and without it the call can leave the buffer, as shown below.\<close>

theorem sw_call_refines_append:
  assumes "sw_items b its" "call_ok b i"
  shows "\<exists>r b'. sw_call b i = Some (r, b') \<and>
    (r = 0 \<and> sw_items b' (its @ [i]) \<and> sw_free b - sw_cost i \<le> sw_free b' \<or>
     r = - FDT_ERR_NOSPACE \<and> sw_items b' its \<and> sw_free b < sw_cost i)"
  using call_adds_item [OF assms] by (auto simp: adds_item_def)

theorem sw_call_refines_append_witness:
  "\<exists>b r b'. fdt_property b (cstr ''reg'') [1, 2] 2 = Some (r, b') \<and>
    (r = 0 \<and> sw_items b' [Prop (cstr ''reg'') [1, 2]] \<or> r = - FDT_ERR_NOSPACE \<and> sw_items b' [])"
proof -
  obtain b where b: "sw_items b []" by (rule scratch_buffer_start)
  have "call_ok b (Prop (cstr ''reg'') [1, 2])" by (rule legal_call_ok [OF b]) (simp add: cstr_def)
  then show ?thesis using sw_call_refines_append [OF b, of "Prop (cstr ''reg'') [1, 2]"] by auto
qed

text \<open>C21: Building a blob in one go, with \<open>fdt_create\<close>, reserve entries, \<open>fdt_finish_reservemap\<close>, structure
  calls and \<open>fdt_finish\<close>, never faults in a buffer of the given size. It succeeds when the
  buffer has \<open>sw_needs\<close> bytes; then the blob passes \<open>fdt_check_header\<close>, its reserve map
  has the entries given and the terminator, and its structure block reads as exactly
  the items given, every property with its name in the strings block and its value.
  Otherwise it does the same or reports \<open>-FDT_ERR_NOSPACE\<close>. Names have no NUL, property
  names have at most 47 bytes (a bound that the code does not check and that keeps the name within every buffer) and lengths are
  below 2 GiB.\<close>

theorem sw_build_result:
  assumes "48 \<le> n" "n \<le> INT_MAX" "n \<le> blen buf" "8 dvd blob_addr buf"
    and "list_all legal_rsv es" "list_all legal_item is"
  shows "\<exists>r b. sw_build buf n es is = Some (r, b) \<and>
    (r = 0 \<and> fdt_check_header b = Some 0 \<and> rsv_at b (hdr b H_off_mem_rsvmap) (es @ [(0, 0)]) \<and>
       (\<exists>ts. struct_items b ts is)
     \<or> r = - FDT_ERR_NOSPACE \<and> n < sw_needs es is)"
proof -
  obtain r b where b: "sw_build buf n es is = Some (r, b)" "blen b = blen buf" "blob_addr b = blob_addr buf"
    "r = 0 \<and> built b es is \<or> r = - FDT_ERR_NOSPACE \<and> n < sw_needs es is"
    using sw_build_spec [OF assms(1-3,5,6)] by blast
  moreover have "fdt_check_header b = Some 0" if "built b es is"
    using built_header_ok [OF that] header_check_iff [of b] b assms by simp
  ultimately show ?thesis by (auto simp: built_def)
qed

theorem sw_build_result_witness:
  "\<exists>b. sw_build scratch_buffer 256 [(4096, 16)] small_tree = Some (0, b) \<and> fdt_check_header b = Some 0 \<and>
     rsv_at b (hdr b H_off_mem_rsvmap) [(4096, 16), (0, 0)] \<and> (\<exists>ts. struct_items b ts small_tree)"
  using sw_build_result [of 256 scratch_buffer "[(4096, 16)]" small_tree] small_tree_legal small_tree_needs
  by (simp add: scratch_buffer_def)

text \<open>C23: A call in the wrong phase is refused with \<open>-FDT_ERR_BADSTATE\<close> and changes nothing: structure calls
  before \<open>fdt_finish_reservemap\<close>, reserve entries after it, and every call on a finished
  blob.\<close>

theorem sw_wrong_phase_refused:
  assumes "c = FDT_ERR_BADSTATE"
  shows "(sw_rsv b es \<longrightarrow> sw_call b i = Some (- c, b) \<and> fdt_finish b = Some (- c, b)) \<and>
    (sw_items b its \<longrightarrow> fdt_add_reservemap_entry b a z = Some (- c, b) \<and>
       fdt_finish_reservemap b = Some (- c, b)) \<and>
    (backed b \<and> hdr b H_magic = FDT_MAGIC \<longrightarrow> sw_call b i = Some (- c, b) \<and> fdt_finish b = Some (- c, b) \<and>
       fdt_add_reservemap_entry b a z = Some (- c, b) \<and> fdt_finish_reservemap b = Some (- c, b))"
proof -
  have pr: "sw_call b i = Some (e, b) \<and> fdt_finish b = Some (e, b)"
    if "fdt_sw_probe_struct_i b = Some e" "e \<noteq> 0" for e
    using that by (cases i) (auto simp: fdt_begin_node_def fdt_end_node_def fdt_finish_def
        fdt_property_def fdt_property_placeholder_def)
  have pm: "fdt_add_reservemap_entry b a z = Some (e, b) \<and> fdt_finish_reservemap b = Some (e, b)"
    if "fdt_sw_probe_memrsv_i b = Some e" "e \<noteq> 0" for e
    using that by (auto simp: fdt_add_reservemap_entry_def fdt_finish_reservemap_def)
  have t: "48 \<le> hdr b H_totalsize" if "sw_inv b"
    using sw_invD [OF that] hdr_bounds(1) [of b H_size_dt_struct] hdr_bounds(1) [of b H_size_dt_strings]
    by linarith
  show ?thesis
    using assms pr [of "- 7"] pm [of "- 7"] t
    by (auto simp: fdt_sw_probe_struct_i_def fdt_sw_probe_memrsv_i_def fdt_sw_probe_i_def
        sw_rsv_def sw_items_def sw_toks_def sw_invD(1,3))
qed

theorem sw_wrong_phase_refused_witness:
  "\<exists>b. sw_items b [] \<and> fdt_add_reservemap_entry b 0 16 = Some (- FDT_ERR_BADSTATE, b)"
proof -
  obtain b where "sw_items b []" by (rule scratch_buffer_start)
  then show ?thesis using sw_wrong_phase_refused [OF refl, of b "[]" End "[]" 0 16] by blast
qed

text \<open>C29: The check for room in \<open>fdt_add_string_\<close> subtracts at 32 bits: a property name that is longer than
  what the buffer has left below the strings makes the difference wrap, and \<open>fdt_property\<close>
  stores the name in front of the buffer.\<close>

theorem fdt_property_long_name_overflows:
  assumes "sw_items b its" "hdr b H_totalsize < hdr b H_size_dt_strings + (cstrlen name + 1)"
    "hdr b H_size_dt_strings + (cstrlen name + 1) \<le> 2147483648"
    "hdr b H_size_dt_strings < cstrlen name + 1"
  shows "fdt_property b name val len = None"
  using assms by (rule property_overflows)

theorem fdt_property_long_name_overflows_witness:
  "\<exists>b. sw_items b [] \<and> hdr b H_totalsize = 64 \<and> fdt_property b (replicate 64 0x41) [] 0 = None"
proof -
  obtain b where "sw_items b []" "hdr b H_totalsize = 64" "hdr b H_size_dt_strings = 0"
    by (rule scratch_buffer_start)
  then show ?thesis using fdt_property_long_name_overflows [of b "[]" "replicate 64 0x41"] by auto
qed

end
