(* ===== verification/Fdt_Empty_Tree.thy ===== *)
theory Fdt_Empty_Tree
  imports Fdt_Sw Fdt_Rw
begin

text \<open>\<open>fdt_empty_tree.c\<close>: a blob with nothing but a root node, in a buffer it is opened into.\<close>

definition fdt_create_empty_tree :: "blob \<Rightarrow> int \<Rightarrow> (int \<times> blob) option" where
  "fdt_create_empty_tree buf bufsize = do {
     (err, buf) \<leftarrow> fdt_create buf bufsize;
     if err \<noteq> 0 then Some (err, buf)
     else do {
       (err, buf) \<leftarrow> fdt_finish_reservemap buf;
       if err \<noteq> 0 then Some (err, buf)
       else do {
         (err, buf) \<leftarrow> fdt_begin_node buf (cstr '''');
         if err \<noteq> 0 then Some (err, buf)
         else do {
           (err, buf) \<leftarrow> fdt_end_node buf;
           if err \<noteq> 0 then Some (err, buf)
           else do {
             (err, buf) \<leftarrow> fdt_finish buf;
             if err \<noteq> 0 then Some (err, buf)
             else fdt_open_into buf 0 0 bufsize } } } } }"

end
