(* ===== verification/C_Library.thy ===== *)
theory C_Library
  imports Prelude
begin

text \<open>
  What the sources use of the C library beyond memory functions: indexing a string, \<open>strncpy\<close>,
  character classes of the C locale and number conversion.
\<close>

definition at :: "'a list \<Rightarrow> int \<Rightarrow> 'a option" where
  "at s i = (if 0 \<le> i \<and> i < int (length s) then Some (s ! nat i) else None)"

text \<open>\<open>strncpy (x, s + i, n)\<close> followed by reading \<open>x\<close> as a string: at most \<open>n\<close> bytes up to a NUL.\<close>

definition strncpy :: "u8 list \<Rightarrow> int \<Rightarrow> int \<Rightarrow> cstring option" where
  "strncpy s i n =
     (let t = take (nat n) (drop (nat i) s) in
      if i < 0 \<or> int (length s) < i \<or> (length t < nat n \<and> 0 \<notin> set t) then None
      else Some (takeWhile (\<lambda>c. c \<noteq> 0) t))"

definition isspace :: "u8 \<Rightarrow> bool" where
  "isspace c \<longleftrightarrow> c = 32 \<or> (9 \<le> c \<and> c \<le> 13)"

definition isprint :: "u8 \<Rightarrow> bool" where
  "isprint c \<longleftrightarrow> 32 \<le> c \<and> c \<le> 126"

definition digit_value :: "u8 \<Rightarrow> int option" where
  "digit_value c =
     (if 48 \<le> c \<and> c \<le> 57 then Some (uint c - 48)
      else if 97 \<le> c \<and> c \<le> 122 then Some (uint c - 87)
      else if 65 \<le> c \<and> c \<le> 90 then Some (uint c - 55)
      else None)"

definition is_digit :: "int \<Rightarrow> u8 \<Rightarrow> bool" where
  "is_digit base c \<longleftrightarrow> (case digit_value c of None \<Rightarrow> False | Some v \<Rightarrow> v < base)"

text \<open>The scan \<open>strtol\<close> and \<open>strtoul\<close> share: leading space, a sign, for base 16 an optional \<open>0x\<close>, and
  digits. The result is the sign, the magnitude and the number of bytes used, which is
  0 when there is no number.\<close>

definition scan_number :: "cstring \<Rightarrow> int \<Rightarrow> bool \<times> int \<times> int" where
  "scan_number s base =
     (let s1 = dropWhile isspace s;
          neg = (s1 \<noteq> [] \<and> hd s1 = chr (CHR ''-''));
          s2 = (if s1 \<noteq> [] \<and> (hd s1 = chr (CHR ''-'') \<or> hd s1 = chr (CHR ''+'')) then tl s1 else s1);
          s3 = (if base = 16 \<and> length s2 > 2 \<and> s2 ! 0 = chr (CHR ''0'')
                   \<and> (s2 ! 1 = chr (CHR ''x'') \<or> s2 ! 1 = chr (CHR ''X'')) \<and> is_digit 16 (s2 ! 2)
                then drop 2 s2 else s2);
          ds = takeWhile (is_digit base) s3;
          v = foldl (\<lambda>a c. a * base + the (digit_value c)) 0 ds
      in if ds = [] then (False, 0, 0)
         else (neg, v, int (length s - length s3 + length ds)))"

text \<open>\<open>strtol\<close> with a 64-bit \<open>long\<close>, and \<open>strtoul\<close>: both saturate.\<close>

definition strtol :: "cstring \<Rightarrow> int \<Rightarrow> int \<times> int" where
  "strtol s base = (let (neg, v, n) = scan_number s base in
     (max (- 9223372036854775808) (min 9223372036854775807 (if neg then - v else v)), n))"

definition strtoul :: "cstring \<Rightarrow> int \<Rightarrow> int \<times> int" where
  "strtoul s base = (let (neg, v, n) = scan_number s base in
     (if v > 18446744073709551615 then 18446744073709551615
      else if neg then u64 (- v) else v, n))"

text \<open>Base 0: the base is chosen by the prefix.\<close>

definition strtol0 :: "cstring \<Rightarrow> int" where
  "strtol0 s =
     (let s1 = dropWhile isspace s;
          s2 = (if s1 \<noteq> [] \<and> (hd s1 = chr (CHR ''-'') \<or> hd s1 = chr (CHR ''+'')) then tl s1 else s1);
          base = (if s2 \<noteq> [] \<and> hd s2 = chr (CHR ''0'')
                  then (if length s2 > 2 \<and> (s2 ! 1 = chr (CHR ''x'') \<or> s2 ! 1 = chr (CHR ''X'')) \<and> is_digit 16 (s2 ! 2) then 16 else 8)
                  else 10)
      in fst (strtol s base))"

text \<open>\<open>strrchr\<close>: what is before and behind the last occurrence of a character.\<close>

definition split_last :: "u8 \<Rightarrow> cstring \<Rightarrow> (cstring \<times> cstring) option" where
  "split_last c s = (if c \<notin> set s then None
     else let k = length (takeWhile (\<lambda>x. x \<noteq> c) (rev s)) in Some (take (length s - k - 1) s, drop (length s - k) s))"

text \<open>\<open>strcmp\<close>: the difference of the first bytes that differ, as unsigned characters.\<close>

fun strcmp :: "cstring \<Rightarrow> cstring \<Rightarrow> int" where
  "strcmp [] [] = 0"
| "strcmp [] (y # ys) = - uint y"
| "strcmp (x # xs) [] = uint x"
| "strcmp (x # xs) (y # ys) = (if x = y then strcmp xs ys else uint x - uint y)"

text \<open>
  \<open>qsort\<close>, as an insertion sort with the comparison it is given. The standard leaves the order of
  elements that compare equal open; here they keep theirs, as with glibc's merge sort.
\<close>

fun insert_by :: "('a \<Rightarrow> 'a \<Rightarrow> int) \<Rightarrow> 'a \<Rightarrow> 'a list \<Rightarrow> 'a list" where
  "insert_by cmp x [] = [x]"
| "insert_by cmp x (y # ys) = (if cmp x y \<le> 0 then x # y # ys else y # insert_by cmp x ys)"

definition qsort :: "('a \<Rightarrow> 'a \<Rightarrow> int) \<Rightarrow> 'a list \<Rightarrow> 'a list" where
  "qsort cmp xs = foldr (insert_by cmp) xs []"

lemma set_insert_by: "set (insert_by cmp x ys) = insert x (set ys)"
  by (induction ys) auto

lemma set_qsort [simp]: "set (qsort cmp xs) = set xs"
  by (induction xs) (auto simp: qsort_def set_insert_by)

text \<open>The integer conversions of \<open>printf\<close>: \<open>%u\<close>, \<open>%d\<close> and \<open>%x\<close> with a minimal width, filled up with zeroes.\<close>

definition digit_char :: "nat \<Rightarrow> u8" where
  "digit_char d = (if d < 10 then of_nat (48 + d) else of_nat (87 + d))"

fun digits :: "nat \<Rightarrow> nat \<Rightarrow> cstring" where
  "digits base n =
     (if n < base \<or> base < 2 then [digit_char n] else digits base (n div base) @ [digit_char (n mod base)])"

declare digits.simps [simp del]

definition print_uint :: "int \<Rightarrow> cstring" where
  "print_uint n = digits 10 (nat (u32 n))"

definition print_int :: "int \<Rightarrow> cstring" where
  "print_int n = (if n < 0 then chr (CHR ''-'') # digits 10 (nat (- n)) else digits 10 (nat n))"

definition print_hex :: "nat \<Rightarrow> int \<Rightarrow> cstring" where
  "print_hex width n =
     (let ds = digits 16 (nat (u32 n)) in replicate (width - length ds) (chr (CHR ''0'')) @ ds)"

text \<open>What a conversion writes in a base, it reads back.\<close>

lemma digit_char_facts:
  assumes "d < 16"
  shows "digit_value (digit_char d) = Some (int d)" "is_digit 16 (digit_char d)" "\<not> isspace (digit_char d)"
    "digit_char d \<noteq> 0" "digit_char d \<noteq> 43" "digit_char d \<noteq> 45" "digit_char d \<noteq> 0x5c" "digit_char d \<noteq> 0x22"
    "digit_char d \<noteq> 0x78" "digit_char d \<noteq> 0x58" "digit_char d = 48 \<longleftrightarrow> d = 0"
proof -
  have "\<forall>d \<in> set [0..<16]. digit_value (digit_char d) = Some (int d) \<and> is_digit 16 (digit_char d) \<and> \<not> isspace (digit_char d) \<and>
      digit_char d \<noteq> 0 \<and> digit_char d \<noteq> 43 \<and> digit_char d \<noteq> 45 \<and> digit_char d \<noteq> 0x5c \<and> digit_char d \<noteq> 0x22 \<and>
      digit_char d \<noteq> 0x78 \<and> digit_char d \<noteq> 0x58 \<and> (digit_char d = 48 \<longleftrightarrow> d = 0)" by code_simp
  then show "digit_value (digit_char d) = Some (int d)" "is_digit 16 (digit_char d)" "\<not> isspace (digit_char d)"
    "digit_char d \<noteq> 0" "digit_char d \<noteq> 43" "digit_char d \<noteq> 45" "digit_char d \<noteq> 0x5c" "digit_char d \<noteq> 0x22"
    "digit_char d \<noteq> 0x78" "digit_char d \<noteq> 0x58" "digit_char d = 48 \<longleftrightarrow> d = 0" using assms by simp_all
qed

lemma digits_chars: "2 \<le> b \<Longrightarrow> c \<in> set (digits b n) \<Longrightarrow> \<exists>d < b. c = digit_char d"
proof (induction b n rule: digits.induct)
  case (1 b n)
  show ?case
  proof (cases "n < b")
    case True
    then show ?thesis using 1(3) by (auto simp: digits.simps [of b n])
  next
    case False
    then consider "c \<in> set (digits b (n div b))" | "c = digit_char (n mod b)" using 1(2,3) by (auto simp: digits.simps [of b n])
    then show ?thesis
    proof cases
      case 2
      then show ?thesis using 1(2) by (intro exI [of _ "n mod b"]) simp
    qed (use 1 False in auto)
  qed
qed

lemma digits_value:
  "2 \<le> b \<Longrightarrow> b \<le> 16 \<Longrightarrow> foldl (\<lambda>a c. a * int b + the (digit_value c)) 0 (digits b n) = int n"
proof (induction b n rule: digits.induct)
  case (1 b n)
  show ?case
  proof (cases "n < b")
    case True
    then show ?thesis using 1(3) digit_char_facts(1) [of n] by (simp add: digits.simps [of b n])
  next
    case False
    have "n mod b < 16" using 1(2,3) by (meson le_less_trans less_le_trans mod_less_divisor zero_less_numeral not_gr_zero not_numeral_le_zero)
    then have "the (digit_value (digit_char (n mod b))) = int (n mod b)" using digit_char_facts(1) by simp
    moreover have "int (n div b) * int b + int (n mod b) = int n" by (metis div_mult_mod_eq of_nat_add of_nat_mult)
    ultimately show ?thesis using 1 False by (simp add: digits.simps [of b n])
  qed
qed

lemma digits_nonempty [simp]: "digits b n \<noteq> []"
  by (simp add: digits.simps [of b n])

lemma digits_hd: "2 \<le> b \<Longrightarrow> b \<le> 16 \<Longrightarrow> hd (digits b n) = 48 \<longleftrightarrow> n = 0"
proof (induction b n rule: digits.induct)
  case (1 b n)
  show ?case
  proof (cases "n < b")
    case True
    then show ?thesis using 1(3) digit_char_facts(11) [of n] by (simp add: digits.simps [of b n])
  next
    case False
    then have "n div b \<noteq> 0" "n \<noteq> 0" using 1(2) by (auto simp: div_eq_0_iff)
    then show ?thesis using 1 False by (simp add: digits.simps [of b n])
  qed
qed

end
