(* ===== verification/Fdt_Overlay.thy ===== *)
theory Fdt_Overlay
  imports Fdt_Rw C_Library
begin

text \<open>
  Applying an overlay, \<open>fdt_overlay.c\<close>. The base tree \<open>fdt\<close> and the overlay \<open>fdto\<close> are two
  buffers that do not overlap; every operation returns its result code and the blobs it
  may have changed. A loop over subnodes that calls back its own function is one
  recursive function over the subnodes that are left.
\<close>

text \<open>The string a pointer into a blob points to.\<close>

definition cstring_at :: "blob \<Rightarrow> int \<Rightarrow> cstring option" where
  "cstring_at b p = do { n \<leftarrow> strlen b p; rd b p n }"

definition string_arg :: "blob \<Rightarrow> ptr \<Rightarrow> cstring option" where
  "string_arg b p = (case p of NULL \<Rightarrow> None | Ptr a \<Rightarrow> cstring_at b a)"

section \<open>The target of a fragment\<close>

definition overlay_get_target_phandle :: "blob \<Rightarrow> int \<Rightarrow> int option" where
  "overlay_get_target_phandle fdto fragment = do {
     (val, len) \<leftarrow> fdt_getprop fdto fragment (cstr ''target'');
     (case val of
        NULL \<Rightarrow> Some 0
      | Ptr p \<Rightarrow>
          if len \<noteq> 4 then Some (u32 (- 1))
          else do {
            v \<leftarrow> fdt32_ld fdto p;
            Some (if v = u32 (- 1) then u32 (- 1) else v) }) }"

text \<open>The target and \<open>*pathp\<close>, a pointer into the overlay.\<close>

definition overlay_get_target :: "blob \<Rightarrow> blob \<Rightarrow> int \<Rightarrow> (int \<times> ptr) option" where
  "overlay_get_target fdt fdto fragment = do {
     phandle \<leftarrow> overlay_get_target_phandle fdto fragment;
     if phandle = u32 (- 1) then Some (- FDT_ERR_BADPHANDLE, NULL)
     else do {
       (ret, path, path_len) \<leftarrow>
         (if phandle = 0 then do {
            (path, path_len) \<leftarrow> fdt_getprop fdto fragment (cstr ''target-path'');
            (case path of
               NULL \<Rightarrow> Some (path_len, NULL, path_len)
             | Ptr p \<Rightarrow> do {
                 s \<leftarrow> cstring_at fdto p;
                 ret \<leftarrow> fdt_path_offset fdt s;
                 Some (ret, path, path_len) }) }
          else do {
            ret \<leftarrow> fdt_node_offset_by_phandle fdt phandle;
            Some (ret, NULL, 0) });
       let ret = (if ret < 0 \<and> path_len = - FDT_ERR_NOTFOUND then - FDT_ERR_BADOVERLAY else ret);
       Some (ret, if ret < 0 then NULL else path) } }"

section \<open>Local phandles and references\<close>

definition overlay_phandle_add_offset :: "blob \<Rightarrow> int \<Rightarrow> cstring \<Rightarrow> int \<Rightarrow> (int \<times> blob) option" where
  "overlay_phandle_add_offset fdt node name delta = do {
     (val, len) \<leftarrow> fdt_getprop fdt node name;
     (case val of
        NULL \<Rightarrow> Some (len, fdt)
      | Ptr p \<Rightarrow>
          if len \<noteq> 4 then Some (- FDT_ERR_BADPHANDLE, fdt)
          else do {
            adj_val \<leftarrow> fdt32_ld fdt p;
            if u32 (adj_val + delta) < adj_val then Some (- FDT_ERR_NOPHANDLES, fdt)
            else if u32 (adj_val + delta) = u32 (- 1) then Some (- FDT_ERR_NOPHANDLES, fdt)
            else fdt_setprop_inplace_u32 fdt node name (u32 (adj_val + delta)) }) }"

text \<open>The two properties of one node.\<close>

definition adjust_one_node :: "blob \<Rightarrow> int \<Rightarrow> int \<Rightarrow> (int \<times> blob) option" where
  "adjust_one_node fdto node delta = do {
     (ret, fdto) \<leftarrow> overlay_phandle_add_offset fdto node (cstr ''phandle'') delta;
     if ret \<noteq> 0 \<and> ret \<noteq> - FDT_ERR_NOTFOUND then Some (ret, fdto)
     else do {
       (ret, fdto) \<leftarrow> overlay_phandle_add_offset fdto node (cstr ''linux,phandle'') delta;
       if ret \<noteq> 0 \<and> ret \<noteq> - FDT_ERR_NOTFOUND then Some (ret, fdto) else Some (0, fdto) } }"

partial_function (option) adjust_children :: "blob \<Rightarrow> int \<Rightarrow> int \<Rightarrow> (int \<times> blob) option" where
  "adjust_children fdto child delta =
     (if child < 0 then Some (0, fdto)
      else do {
        (ret, fdto) \<leftarrow> adjust_one_node fdto child delta;
        if ret \<noteq> 0 then Some (ret, fdto)
        else do {
          grandchild \<leftarrow> fdt_first_subnode fdto child;
          (ret, fdto) \<leftarrow> adjust_children fdto grandchild delta;
          if ret \<noteq> 0 then Some (ret, fdto)
          else do {
            child \<leftarrow> fdt_next_subnode fdto child;
            adjust_children fdto child delta } } })"

definition overlay_adjust_node_phandles :: "blob \<Rightarrow> int \<Rightarrow> int \<Rightarrow> (int \<times> blob) option" where
  "overlay_adjust_node_phandles fdto node delta = do {
     (ret, fdto) \<leftarrow> adjust_one_node fdto node delta;
     if ret \<noteq> 0 then Some (ret, fdto)
     else do {
       child \<leftarrow> fdt_first_subnode fdto node;
       adjust_children fdto child delta } }"

definition overlay_adjust_local_phandles :: "blob \<Rightarrow> int \<Rightarrow> (int \<times> blob) option" where
  "overlay_adjust_local_phandles fdto delta = overlay_adjust_node_phandles fdto 0 delta"

text \<open>The innermost loop of \<open>overlay_update_local_node_references\<close>: the cells of one fixup property.\<close>

function update_reference_cells ::
  "blob \<Rightarrow> int \<Rightarrow> int \<Rightarrow> int \<Rightarrow> int \<Rightarrow> int \<Rightarrow> int \<Rightarrow> int \<Rightarrow> (int \<times> blob) option" where
  "update_reference_cells fdto tree_node name tree_val fixup_val i fixup_len delta =
     (if i < fixup_len then do {
        poffset \<leftarrow> fdt32_ld fdto (fixup_val + 4 * i);
        adj_val \<leftarrow> fdt32_ld fdto (tree_val + poffset);
        s \<leftarrow> cstring_at fdto name;
        (ret, fdto) \<leftarrow> fdt_setprop_inplace_namelen_partial fdto tree_node s (cstrlen s) poffset
                         (bytes32 (u32 (adj_val + delta))) 4;
        if ret = - FDT_ERR_NOSPACE then Some (- FDT_ERR_BADOVERLAY, fdto)
        else if ret \<noteq> 0 then Some (ret, fdto)
        else update_reference_cells fdto tree_node name tree_val fixup_val (i + 1) fixup_len delta }
      else Some (0, fdto))"
  by pat_completeness auto
termination
  by (relation "measure (\<lambda>(fdto, tree_node, name, tree_val, fixup_val, i, fixup_len, delta).
        nat (fixup_len - i))") auto

declare update_reference_cells.simps [simp del]

partial_function (option) update_reference_props ::
  "blob \<Rightarrow> int \<Rightarrow> int \<Rightarrow> int \<Rightarrow> (int \<times> blob) option" where
  "update_reference_props fdto tree_node fixup_prop delta =
     (if fixup_prop < 0 then Some (0, fdto)
      else do {
        (fixup_val, name, fixup_len) \<leftarrow> fdt_getprop_by_offset fdto fixup_prop;
        (case fixup_val of
           NULL \<Rightarrow> Some (fixup_len, fdto)
         | Ptr fv \<Rightarrow>
             if u64 fixup_len mod 4 \<noteq> 0 then Some (- FDT_ERR_BADOVERLAY, fdto)
             else do {
               let fixup_len = s32 (u64 fixup_len div 4);
               s \<leftarrow> string_arg fdto name;
               (tree_val, tree_len) \<leftarrow> fdt_getprop fdto tree_node s;
               (case (tree_val, name) of
                  (Ptr tv, Ptr nm) \<Rightarrow> do {
                    (ret, fdto) \<leftarrow> update_reference_cells fdto tree_node nm tv fv 0 fixup_len delta;
                    if ret \<noteq> 0 then Some (ret, fdto)
                    else do {
                      fixup_prop \<leftarrow> fdt_next_property_offset fdto fixup_prop;
                      update_reference_props fdto tree_node fixup_prop delta } }
                | _ \<Rightarrow> Some (if tree_len = - FDT_ERR_NOTFOUND then - FDT_ERR_BADOVERLAY else tree_len,
                           fdto)) }) })"

text \<open>The subnodes \<open>fixup_child\<close> and their siblings, against the node \<open>tree_node\<close>.\<close>

partial_function (option) update_reference_children ::
  "blob \<Rightarrow> int \<Rightarrow> int \<Rightarrow> int \<Rightarrow> (int \<times> blob) option" where
  "update_reference_children fdto tree_node fixup_child delta =
     (if fixup_child < 0 then Some (0, fdto)
      else do {
        (name, len) \<leftarrow> fdt_get_name fdto fixup_child;
        s \<leftarrow> string_arg fdto name;
        tree_child \<leftarrow> fdt_subnode_offset fdto tree_node s;
        if tree_child = - FDT_ERR_NOTFOUND then Some (- FDT_ERR_BADOVERLAY, fdto)
        else if tree_child < 0 then Some (tree_child, fdto)
        else do {
          fixup_prop \<leftarrow> fdt_first_property_offset fdto fixup_child;
          (ret, fdto) \<leftarrow> update_reference_props fdto tree_child fixup_prop delta;
          if ret \<noteq> 0 then Some (ret, fdto)
          else do {
            grandchild \<leftarrow> fdt_first_subnode fdto fixup_child;
            (ret, fdto) \<leftarrow> update_reference_children fdto tree_child grandchild delta;
            if ret \<noteq> 0 then Some (ret, fdto)
            else do {
              fixup_child \<leftarrow> fdt_next_subnode fdto fixup_child;
              update_reference_children fdto tree_node fixup_child delta } } } })"

definition overlay_update_local_node_references ::
  "blob \<Rightarrow> int \<Rightarrow> int \<Rightarrow> int \<Rightarrow> (int \<times> blob) option" where
  "overlay_update_local_node_references fdto tree_node fixup_node delta = do {
     fixup_prop \<leftarrow> fdt_first_property_offset fdto fixup_node;
     (ret, fdto) \<leftarrow> update_reference_props fdto tree_node fixup_prop delta;
     if ret \<noteq> 0 then Some (ret, fdto)
     else do {
       fixup_child \<leftarrow> fdt_first_subnode fdto fixup_node;
       update_reference_children fdto tree_node fixup_child delta } }"

definition overlay_update_local_references :: "blob \<Rightarrow> int \<Rightarrow> (int \<times> blob) option" where
  "overlay_update_local_references fdto delta = do {
     fixups \<leftarrow> fdt_path_offset fdto (cstr ''/__local_fixups__'');
     if fixups < 0 then Some (if fixups = - FDT_ERR_NOTFOUND then 0 else fixups, fdto)
     else overlay_update_local_node_references fdto 0 fixups delta }"

section \<open>References to the base tree\<close>

text \<open>\<open>path\<close> and \<open>name\<close> are positions in the overlay.\<close>

definition overlay_fixup_one_phandle ::
  "blob \<Rightarrow> blob \<Rightarrow> int \<Rightarrow> int \<Rightarrow> int \<Rightarrow> int \<Rightarrow> int \<Rightarrow> int \<Rightarrow> cstring \<Rightarrow> (int \<times> blob) option" where
  "overlay_fixup_one_phandle fdt fdto symbols_off path path_len name name_len poffset label =
     (if symbols_off < 0 then Some (symbols_off, fdto)
      else do {
        (symbol_path, prop_len) \<leftarrow> fdt_getprop fdt symbols_off label;
        (case symbol_path of
           NULL \<Rightarrow> Some (prop_len, fdto)
         | Ptr sp \<Rightarrow> do {
             s \<leftarrow> cstring_at fdt sp;
             symbol_off \<leftarrow> fdt_path_offset fdt s;
             if symbol_off < 0 then Some (symbol_off, fdto)
             else do {
               phandle \<leftarrow> fdt_get_phandle fdt symbol_off;
               if phandle = 0 then Some (- FDT_ERR_NOTFOUND, fdto)
               else do {
                 ps \<leftarrow> rd fdto path (path_len + 1);
                 fixup_off \<leftarrow> fdt_path_offset_namelen fdto ps (s32 path_len);
                 if fixup_off = - FDT_ERR_NOTFOUND then Some (- FDT_ERR_BADOVERLAY, fdto)
                 else if fixup_off < 0 then Some (fixup_off, fdto)
                 else do {
                   ns \<leftarrow> rd fdto name name_len;
                   fdt_setprop_inplace_namelen_partial fdto fixup_off ns (s32 name_len)
                     (u32 poffset) (bytes32 phandle) 4 } } } }) })"

text \<open>The \<open>do \<dots> while\<close> of \<open>overlay_fixup_phandle\<close> over the strings \<open>path:name:offset\<close> of one property.\<close>

partial_function (option) fixup_phandle_loop ::
  "blob \<Rightarrow> blob \<Rightarrow> int \<Rightarrow> int \<Rightarrow> int \<Rightarrow> cstring \<Rightarrow> (int \<times> blob) option" where
  "fixup_phandle_loop fdt fdto symbols_off value len label = do {
     fixup_end \<leftarrow> memchr fdto value 0 len;
     (case fixup_end of
        NULL \<Rightarrow> Some (- FDT_ERR_BADOVERLAY, fdto)
      | Ptr fe \<Rightarrow> do {
          let fixup_str = value;
          let fixup_len = u32 (fe - fixup_str);
          let len = s32 (len - (fixup_len + 1));
          let value = value + fixup_len + 1;
          sep \<leftarrow> memchr fdto fixup_str (chr (CHR '':'')) fixup_len;
          (case sep of
             NULL \<Rightarrow> Some (- FDT_ERR_BADOVERLAY, fdto)
           | Ptr sp \<Rightarrow> do {
               let path_len = u32 (sp - fixup_str);
               if path_len = u32 (fixup_len - 1) then Some (- FDT_ERR_BADOVERLAY, fdto)
               else do {
                 let fixup_len = u32 (fixup_len - (path_len + 1));
                 let name = sp + 1;
                 sep \<leftarrow> memchr fdto name (chr (CHR '':'')) fixup_len;
                 (case sep of
                    NULL \<Rightarrow> Some (- FDT_ERR_BADOVERLAY, fdto)
                  | Ptr sq \<Rightarrow> do {
                      let name_len = u32 (sq - name);
                      if name_len = 0 then Some (- FDT_ERR_BADOVERLAY, fdto)
                      else do {
                        num \<leftarrow> cstring_at fdto (sq + 1);
                        let (v, n) = strtoul num 10;
                        let poffset = s32 v;
                        if n < cstrlen num \<or> n = 0 then Some (- FDT_ERR_BADOVERLAY, fdto)
                        else do {
                          (ret, fdto) \<leftarrow> overlay_fixup_one_phandle fdt fdto symbols_off fixup_str
                                           path_len name name_len poffset label;
                          if ret \<noteq> 0 then Some (ret, fdto)
                          else if len > 0
                          then fixup_phandle_loop fdt fdto symbols_off value len label
                          else Some (0, fdto) } } }) } }) }) }"

definition overlay_fixup_phandle :: "blob \<Rightarrow> blob \<Rightarrow> int \<Rightarrow> int \<Rightarrow> (int \<times> blob) option" where
  "overlay_fixup_phandle fdt fdto symbols_off prop_off = do {
     (value, label, len) \<leftarrow> fdt_getprop_by_offset fdto prop_off;
     (case value of
        NULL \<Rightarrow> Some (if len = - FDT_ERR_NOTFOUND then - FDT_ERR_INTERNAL else len, fdto)
      | Ptr v \<Rightarrow> do {
          l \<leftarrow> string_arg fdto label;
          fixup_phandle_loop fdt fdto symbols_off v len l }) }"

partial_function (option) fixup_phandles_loop ::
  "blob \<Rightarrow> blob \<Rightarrow> int \<Rightarrow> int \<Rightarrow> (int \<times> blob) option" where
  "fixup_phandles_loop fdt fdto symbols_off prop_off =
     (if prop_off < 0 then Some (0, fdto)
      else do {
        (ret, fdto) \<leftarrow> overlay_fixup_phandle fdt fdto symbols_off prop_off;
        if ret \<noteq> 0 then Some (ret, fdto)
        else do {
          prop_off \<leftarrow> fdt_next_property_offset fdto prop_off;
          fixup_phandles_loop fdt fdto symbols_off prop_off } })"

definition overlay_fixup_phandles :: "blob \<Rightarrow> blob \<Rightarrow> (int \<times> blob) option" where
  "overlay_fixup_phandles fdt fdto = do {
     fixups_off \<leftarrow> fdt_path_offset fdto (cstr ''/__fixups__'');
     if fixups_off = - FDT_ERR_NOTFOUND then Some (0, fdto)
     else if fixups_off < 0 then Some (fixups_off, fdto)
     else do {
       symbols_off \<leftarrow> fdt_path_offset fdt (cstr ''/__symbols__'');
       if symbols_off < 0 \<and> symbols_off \<noteq> - FDT_ERR_NOTFOUND then Some (symbols_off, fdto)
       else do {
         prop_off \<leftarrow> fdt_first_property_offset fdto fixups_off;
         fixup_phandles_loop fdt fdto symbols_off prop_off } } }"

section \<open>Merging\<close>

text \<open>The properties of an overlay node, set in the base tree.\<close>

partial_function (option) apply_props :: "blob \<Rightarrow> int \<Rightarrow> blob \<Rightarrow> int \<Rightarrow> (int \<times> blob) option" where
  "apply_props fdt target fdto prop_off =
     (if prop_off < 0 then Some (0, fdt)
      else do {
        (prp, name, prop_len) \<leftarrow> fdt_getprop_by_offset fdto prop_off;
        if prop_len = - FDT_ERR_NOTFOUND then Some (- FDT_ERR_INTERNAL, fdt)
        else if prop_len < 0 then Some (prop_len, fdt)
        else do {
          s \<leftarrow> string_arg fdto name;
          val \<leftarrow> (case prp of NULL \<Rightarrow> None | Ptr p \<Rightarrow> rd fdto p prop_len);
          (ret, fdt) \<leftarrow> fdt_setprop fdt target s val prop_len;
          if ret \<noteq> 0 then Some (ret, fdt)
          else do {
            prop_off \<leftarrow> fdt_next_property_offset fdto prop_off;
            apply_props fdt target fdto prop_off } } })"

partial_function (option) apply_children :: "blob \<Rightarrow> int \<Rightarrow> blob \<Rightarrow> int \<Rightarrow> (int \<times> blob) option" where
  "apply_children fdt target fdto subnode =
     (if subnode < 0 then Some (0, fdt)
      else do {
        (name, len) \<leftarrow> fdt_get_name fdto subnode;
        s \<leftarrow> string_arg fdto name;
        (nnode, fdt) \<leftarrow> fdt_add_subnode fdt target s;
        nnode \<leftarrow> (if nnode = - FDT_ERR_EXISTS then do {
                    nnode \<leftarrow> fdt_subnode_offset fdt target s;
                    Some (if nnode = - FDT_ERR_NOTFOUND then - FDT_ERR_INTERNAL else nnode) }
                  else Some nnode);
        if nnode < 0 then Some (nnode, fdt)
        else do {
          prop_off \<leftarrow> fdt_first_property_offset fdto subnode;
          (ret, fdt) \<leftarrow> apply_props fdt nnode fdto prop_off;
          if ret \<noteq> 0 then Some (ret, fdt)
          else do {
            child \<leftarrow> fdt_first_subnode fdto subnode;
            (ret, fdt) \<leftarrow> apply_children fdt nnode fdto child;
            if ret \<noteq> 0 then Some (ret, fdt)
            else do {
              subnode \<leftarrow> fdt_next_subnode fdto subnode;
              apply_children fdt target fdto subnode } } } })"

definition overlay_apply_node :: "blob \<Rightarrow> int \<Rightarrow> blob \<Rightarrow> int \<Rightarrow> (int \<times> blob) option" where
  "overlay_apply_node fdt target fdto node = do {
     prop_off \<leftarrow> fdt_first_property_offset fdto node;
     (ret, fdt) \<leftarrow> apply_props fdt target fdto prop_off;
     if ret \<noteq> 0 then Some (ret, fdt)
     else do {
       subnode \<leftarrow> fdt_first_subnode fdto node;
       apply_children fdt target fdto subnode } }"

partial_function (option) merge_loop :: "blob \<Rightarrow> blob \<Rightarrow> int \<Rightarrow> (int \<times> blob) option" where
  "merge_loop fdt fdto fragment =
     (if fragment < 0 then Some (0, fdt)
      else do {
        overlay \<leftarrow> fdt_subnode_offset fdto fragment (cstr ''__overlay__'');
        if overlay = - FDT_ERR_NOTFOUND then do {
          fragment \<leftarrow> fdt_next_subnode fdto fragment;
          merge_loop fdt fdto fragment }
        else if overlay < 0 then Some (overlay, fdt)
        else do {
          (target, path) \<leftarrow> overlay_get_target fdt fdto fragment;
          if target < 0 then Some (target, fdt)
          else do {
            (ret, fdt) \<leftarrow> overlay_apply_node fdt target fdto overlay;
            if ret \<noteq> 0 then Some (ret, fdt)
            else do {
              fragment \<leftarrow> fdt_next_subnode fdto fragment;
              merge_loop fdt fdto fragment } } } })"

definition overlay_merge :: "blob \<Rightarrow> blob \<Rightarrow> (int \<times> blob) option" where
  "overlay_merge fdt fdto = do {
     fragment \<leftarrow> fdt_first_subnode fdto 0;
     merge_loop fdt fdto fragment }"

section \<open>Symbols\<close>

partial_function (option) get_path_len_loop :: "blob \<Rightarrow> int \<Rightarrow> int \<Rightarrow> int option" where
  "get_path_len_loop fdt nodeoffset len = do {
     (name, namelen) \<leftarrow> fdt_get_name fdt nodeoffset;
     if name = NULL then Some namelen
     else if namelen = 0 then Some (if len = 0 then len + 1 else len)
     else do {
       nodeoffset \<leftarrow> fdt_parent_offset fdt nodeoffset;
       if nodeoffset < 0 then Some nodeoffset
       else get_path_len_loop fdt nodeoffset (s32 (len + (namelen + 1))) } }"

definition get_path_len :: "blob \<Rightarrow> int \<Rightarrow> int option" where
  "get_path_len fdt nodeoffset = FDT_RO_PROBE fdt (get_path_len_loop fdt nodeoffset 0)"

text \<open>The path of a symbol, \<open>/fragment/__overlay__/rest\<close>: the length of the fragment name and the bytes
  of the rest, or \<open>None\<close> when the symbol is skipped. \<open>body\<close> is the value without its NUL.\<close>

definition symbol_parts :: "cstring \<Rightarrow> (nat \<times> cstring) option" where
  "symbol_parts body =
     (let n = length (takeWhile (\<lambda>c. c \<noteq> chr (CHR ''/'')) (tl body));
          s = drop (Suc n) body
      in if s = [] then None
         else if length s + 1 > 13 \<and> take 13 s = cstr ''/__overlay__/'' then Some (n, drop 13 s)
         else if length s + 1 = 13 \<and> take 12 s = cstr ''/__overlay__'' then Some (n, [])
         else None)"

text \<open>The write of one symbol: the target path, a slash, the rest. \<open>fdt_get_path\<close> writes into the value of
  the new property, which its walk over the blob does not read, so it gets a copy of that
  memory as its buffer.\<close>

definition write_symbol ::
  "blob \<Rightarrow> blob \<Rightarrow> int \<Rightarrow> ptr \<Rightarrow> int \<Rightarrow> int \<Rightarrow> cstring \<Rightarrow> (int \<times> blob) option" where
  "write_symbol fdt fdto target target_path buf len rel_path = do {
     (ret, len, fdt) \<leftarrow>
       (if len > 1 then
          (case target_path of
             NULL \<Rightarrow> do {
               (ret, b) \<leftarrow> fdt_get_path fdt target (view fdt buf) (len + 1);
               fdt \<leftarrow> on_view fdt buf (\<lambda>_. Some b);
               Some (ret, len, fdt) }
           | Ptr p \<Rightarrow> do {
               s \<leftarrow> rd fdto p (len + 1);
               fdt \<leftarrow> wr fdt buf s;
               Some (0, len, fdt) })
        else Some (0, len - 1, fdt));
     if ret < 0 then Some (ret, fdt)
     else do {
       fdt \<leftarrow> wr fdt (buf + len) [chr (CHR ''/'')];
       fdt \<leftarrow> wr fdt (buf + len + 1) rel_path;
       fdt \<leftarrow> wr fdt (buf + len + 1 + cstrlen rel_path) [0];
       Some (0, fdt) } }"

text \<open>One symbol of the overlay, from the lookup of its fragment on.\<close>

definition update_one_symbol ::
  "blob \<Rightarrow> blob \<Rightarrow> int \<Rightarrow> ptr \<Rightarrow> int \<Rightarrow> int \<Rightarrow> cstring \<Rightarrow> (int \<times> blob) option" where
  "update_one_symbol fdt fdto root_sym name frag_name frag_name_len rel_path = do {
     fs \<leftarrow> rd fdto frag_name frag_name_len;
     fragment \<leftarrow> fdt_subnode_offset_namelen fdto 0 fs frag_name_len;
     if fragment < 0 then Some (- FDT_ERR_BADOVERLAY, fdt)
     else do {
       ret \<leftarrow> fdt_subnode_offset fdto fragment (cstr ''__overlay__'');
       if ret < 0 then Some (- FDT_ERR_BADOVERLAY, fdt)
       else do {
         (target, target_path) \<leftarrow> overlay_get_target fdt fdto fragment;
         if target < 0 then Some (target, fdt)
         else do {
           len \<leftarrow> (case target_path of
                      NULL \<Rightarrow> get_path_len fdt target
                    | Ptr p \<Rightarrow> strlen fdto p);
           if target_path = NULL \<and> len < 0 then Some (len, fdt)
           else do {
             s \<leftarrow> string_arg fdto name;
             (ret, p, fdt) \<leftarrow> fdt_setprop_placeholder fdt root_sym s
                (s32 (len + (if len > 1 then 1 else 0) + cstrlen rel_path + 1));
             if ret < 0 then Some (ret, fdt)
             else do {
               (target, target_path) \<leftarrow>
                 (if target_path = NULL then overlay_get_target fdt fdto fragment
                  else Some (target, target_path));
               if target < 0 then Some (target, fdt)
               else (case p of
                       NULL \<Rightarrow> None
                     | Ptr buf \<Rightarrow> write_symbol fdt fdto target target_path buf len rel_path) } } } } } }"

partial_function (option) symbol_loop :: "blob \<Rightarrow> blob \<Rightarrow> int \<Rightarrow> int \<Rightarrow> (int \<times> blob) option" where
  "symbol_loop fdt fdto root_sym prop_off =
     (if prop_off < 0 then Some (0, fdt)
      else do {
        (path, name, path_len) \<leftarrow> fdt_getprop_by_offset fdto prop_off;
        (case path of
           NULL \<Rightarrow> Some (path_len, fdt)
         | Ptr p \<Rightarrow>
             if path_len < 1 then Some (- FDT_ERR_BADVALUE, fdt)
             else do {
               e \<leftarrow> memchr fdto p 0 path_len;
               if e \<noteq> Ptr (p + path_len - 1) then Some (- FDT_ERR_BADVALUE, fdt)
               else do {
                 body \<leftarrow> rd fdto p (path_len - 1);
                 if body = [] \<or> hd body \<noteq> chr (CHR ''/'') then Some (- FDT_ERR_BADVALUE, fdt)
                 else do {
                   (ret, fdt) \<leftarrow>
                     (case symbol_parts body of
                        None \<Rightarrow> Some (0, fdt)
                      | Some (n, rel_path) \<Rightarrow>
                          update_one_symbol fdt fdto root_sym name (p + 1) (int n) rel_path);
                   if ret \<noteq> 0 then Some (ret, fdt)
                   else do {
                     prop_off \<leftarrow> fdt_next_property_offset fdto prop_off;
                     symbol_loop fdt fdto root_sym prop_off } } } }) })"

definition overlay_symbol_update :: "blob \<Rightarrow> blob \<Rightarrow> (int \<times> blob) option" where
  "overlay_symbol_update fdt fdto = do {
     ov_sym \<leftarrow> fdt_subnode_offset fdto 0 (cstr ''__symbols__'');
     if ov_sym < 0 then Some (0, fdt)
     else do {
       root_sym \<leftarrow> fdt_subnode_offset fdt 0 (cstr ''__symbols__'');
       (root_sym, fdt) \<leftarrow>
         (if root_sym = - FDT_ERR_NOTFOUND then fdt_add_subnode fdt 0 (cstr ''__symbols__'')
          else Some (root_sym, fdt));
       if root_sym < 0 then Some (root_sym, fdt)
       else do {
         prop_off \<leftarrow> fdt_first_property_offset fdto ov_sym;
         symbol_loop fdt fdto root_sym prop_off } } }"

section \<open>Applying an overlay\<close>

text \<open>The part of \<open>fdt_overlay_apply\<close> before the magic numbers are erased: the result code, the base
  tree and the overlay.\<close>

definition overlay_steps :: "blob \<Rightarrow> blob \<Rightarrow> (int \<times> blob \<times> blob) option" where
  "overlay_steps fdt fdto = do {
     (ret, delta) \<leftarrow> fdt_find_max_phandle fdt;
     if ret \<noteq> 0 then Some (ret, fdt, fdto)
     else do {
       (ret, fdto) \<leftarrow> overlay_adjust_local_phandles fdto delta;
       if ret \<noteq> 0 then Some (ret, fdt, fdto)
       else do {
         (ret, fdto) \<leftarrow> overlay_update_local_references fdto delta;
         if ret \<noteq> 0 then Some (ret, fdt, fdto)
         else do {
           (ret, fdto) \<leftarrow> overlay_fixup_phandles fdt fdto;
           if ret \<noteq> 0 then Some (ret, fdt, fdto)
           else do {
             (ret, fdt) \<leftarrow> overlay_merge fdt fdto;
             if ret \<noteq> 0 then Some (ret, fdt, fdto)
             else do {
               (ret, fdt) \<leftarrow> overlay_symbol_update fdt fdto;
               Some (ret, fdt, fdto) } } } } } }"

definition fdt_overlay_apply :: "blob \<Rightarrow> blob \<Rightarrow> (int \<times> blob \<times> blob) option" where
  "fdt_overlay_apply fdt fdto = do {
     probe \<leftarrow> fdt_ro_probe_i fdt;
     if probe < 0 then Some (probe, fdt, fdto)
     else do {
       probe \<leftarrow> fdt_ro_probe_i fdto;
       if probe < 0 then Some (probe, fdt, fdto)
       else do {
         (ret, fdt, fdto) \<leftarrow> overlay_steps fdt fdto;
         fdto \<leftarrow> fdt_set_magic fdto (NOT 0);
         fdt \<leftarrow> (if ret = 0 then Some fdt else fdt_set_magic fdt (NOT 0));
         Some (ret, fdt, fdto) } } }"

declare adjust_children.simps [code] update_reference_props.simps [code]
  update_reference_children.simps [code] fixup_phandle_loop.simps [code]
  fixup_phandles_loop.simps [code] apply_props.simps [code] apply_children.simps [code]
  merge_loop.simps [code] get_path_len_loop.simps [code] symbol_loop.simps [code]

end
