(* ===== verification/Fdt_Wip_Props.thy ===== *)
theory Fdt_Wip_Props
  imports Fdt_Search Fdt_Wip "HOL-Library.AList"
begin

text \<open>
  What \<open>fdt_setprop_inplace\<close> does to a well-formed blob, in terms of the items its structure block stands for.
\<close>

section \<open>Where a property is found\<close>

lemma props_of_Nil [simp]: "props_of b [] ps \<longleftrightarrow> ps = []"
  by (simp add: props_of_def)

lemma props_of_Nop [simp]: "props_of b (TNop # ts) ps \<longleftrightarrow> props_of b ts ps"
  by (simp add: props_of_def)

lemma props_of_Prop [simp]: "props_of b (TProp no v # ts) ps \<longleftrightarrow> (\<exists>nm qs. ps = (nm, v) # qs \<and> named b no nm \<and> props_of b ts qs)"
  by (cases ps) (auto simp: props_of_def)

text \<open>The first property with a name, and what \<open>AList.update\<close> does there.\<close>

lemma props_split:
  assumes "props_of b ts qs" "map_of qs s = Some v"
  obtains us no vs q1 q2 where "ts = us @ TProp no v # vs" "qs = q1 @ (s, v) # q2" "props_of b us q1" "named b no s" "props_of b vs q2"
    "s \<notin> fst ` set q1" "AList.update s w qs = q1 @ (s, w) # q2"
  using assms
proof (induction ts arbitrary: qs thesis)
  case (Cons t ts)
  from Cons.prems(2) show ?case
  proof (cases rule: props_of_cases)
    case 1
    then show ?thesis using Cons.IH [of qs thesis] Cons.prems(1) [of "TNop # _"] Cons.prems(3) by (metis append_Cons props_of_Nop)
  next
    case (2 no x nm ps')
    show ?thesis
    proof (cases "nm = s")
      case True
      then show ?thesis using Cons.prems(1) [of "[]" no ts "[]" ps'] Cons.prems(3) 2 by auto
    next
      case False
      then have "map_of ps' s = Some v" using Cons.prems(3) 2(2) by auto
      then obtain us no' vs q1 q2 where "ts = us @ TProp no' v # vs" "ps' = q1 @ (s, v) # q2" "props_of b us q1" "named b no' s" "props_of b vs q2"
        "s \<notin> fst ` set q1" "AList.update s w ps' = q1 @ (s, w) # q2" using Cons.IH 2(4) by blast
      then show ?thesis using Cons.prems(1) [of "t # us" no' vs "(nm, x) # q1" q2] 2 False by auto
    qed
  qed
qed simp

lemma get_property_loop_at:
  assumes b: "searchable b" and ts: "toks_in b off (ts @ [TProp no v])" "props_of b ts ps" "named b no s" "s \<notin> fst ` set ps"
  shows "do { off \<leftarrow> nextprop_i b off; get_property_loop b off s (cstrlen s) } =
    Some (Ptr (hdr b H_off_dt_struct + off + toks_size ts), int (length v), off + toks_size ts)"
  using ts
proof (induction ts arbitrary: off ps)
  case Nil
  note rb = searchableD(2) [OF b]
  have u: "tok_in b off (TProp no v)" using Nil.prems(1) by simp
  have np: "nextprop_i b off = Some off" using next_tag_in [OF rb u] by (subst nextprop_i.simps) simp
  have "fdt_string_eq_i b (s32 no) s (cstrlen s) = Some True"
    using string_eq_named [OF b Nil.prems(3)] named_s32 [OF b Nil.prems(3)] by simp
  then show ?case using np get_property_by_offset_in [OF rb u] tok_in_bounds(1) [OF rb u] by (subst get_property_loop.simps) simp
next
  case (Cons u us)
  note rb = searchableD(2) [OF b]
  have u: "tok_in b off u" and us: "toks_in b (off + tok_size u) (us @ [TProp no v])" using Cons.prems(1) by simp_all
  note nx = next_tag_in [OF rb u]
  from Cons.prems(2) show ?case
  proof (cases rule: props_of_cases)
    case 1
    then have "nextprop_i b off = nextprop_i b (off + 4)" using nx by (subst nextprop_i.simps) simp
    then show ?thesis using Cons.IH [OF us 1(2) Cons.prems(3,4)] 1(1) by (simp add: add.assoc)
  next
    case (2 no' x nm ps')
    note pu = u [unfolded 2(1)]
    have np: "nextprop_i b off = Some off" using nx 2(1) by (subst nextprop_i.simps) simp
    have "nm \<noteq> s" using Cons.prems(4) 2(2) by auto
    then have "fdt_string_eq_i b (s32 no') s (cstrlen s) = Some False"
      using string_eq_named [OF b 2(3)] named_s32 [OF b 2(3)] by simp
    moreover have "fdt_next_property_offset b off = nextprop_i b (off + tok_size u)"
      using check_prop_offset_in [OF rb pu] 2(1) tok_in_bounds(1) [OF rb pu] tok_size_ge(1) [of u]
      by (auto simp: fdt_next_property_offset_def)
    ultimately have "get_property_loop b off s (cstrlen s) = do { off \<leftarrow> nextprop_i b (off + tok_size u); get_property_loop b off s (cstrlen s) }"
      using get_property_by_offset_in [OF rb pu] tok_in_bounds(1) [OF rb pu] by (subst get_property_loop.simps) simp
    then show ?thesis using np Cons.IH [OF us 2(4) Cons.prems(3)] Cons.prems(4) 2(2) by (simp add: add.assoc)
  qed
qed

lemma getprop_at:
  assumes b: "searchable b" and ts: "toks_in b off (TBegin n # ts @ [TProp no v])" "props_of b ts ps" "named b no s" "s \<notin> fst ` set ps"
  shows "fdt_getprop b off s = Some (Ptr (hdr b H_off_dt_struct + off + toks_size (TBegin n # ts) + 12), int (length v))"
proof -
  note rb = searchableD(2) [OF b]
  have t: "tok_in b off (TBegin n)" "toks_in b (off + tok_size (TBegin n)) (ts @ [TProp no v])" using ts(1) by simp_all
  have "\<not> off + tok_size (TBegin n) < 0"
    using tok_in_bounds(1) [OF rb t(1)] tok_size_ge(1) [of "TBegin n"] by linarith
  then have "fdt_get_property_namelen_i b off s (cstrlen s) =
      do { off \<leftarrow> nextprop_i b (off + tok_size (TBegin n)); get_property_loop b off s (cstrlen s) }"
    using check_node_offset_in [OF rb t(1)]
    by (simp add: fdt_get_property_namelen_i_def fdt_first_property_offset_def)
  then show ?thesis
    using get_property_loop_at [OF b t(2) ts(2-4)] prop_data_ok [OF b]
    by (simp add: fdt_getprop_def fdt_getprop_namelen_def add.assoc)
qed

section \<open>Writing a value in place\<close>

text \<open>The strings block lies outside of the structure block.\<close>

definition blocks_apart :: "blob \<Rightarrow> bool" where
  "blocks_apart b \<longleftrightarrow> hdr b H_off_dt_struct + hdr b H_size_dt_struct \<le> hdr b H_off_dt_strings \<or>
     hdr b H_off_dt_strings + hdr b H_size_dt_strings \<le> hdr b H_off_dt_struct"

lemma searchable_same:
  assumes "same_but b b' lo hi" "40 \<le> lo"
  shows "searchable b' = searchable b"
  using same_but_hdr [OF assms] same_butD(1,2) [OF assms(1)]
  by (simp add: searchable_def backed_def header_ok_def Let_def)

lemma denotes_same:
  assumes "same_but b b' lo hi" "40 \<le> lo" "hdr b H_off_dt_strings + hdr b H_size_dt_strings \<le> lo \<or> hi \<le> hdr b H_off_dt_strings" "denotes b t i"
  shows "denotes b' t i"
proof -
  have "named b' no nm" if n: "named b no nm" for no nm
  proof -
    have "hdr b H_off_dt_strings + no + (cstrlen nm + 1) \<le> lo \<or> hi \<le> hdr b H_off_dt_strings + no"
      using n assms(3) by (auto simp: named_def)
    then show ?thesis using n same_but_rd [OF assms(1)] same_but_hdr [OF assms(1,2)] by (simp add: named_def)
  qed
  then show ?thesis using assms(4) by (cases "(b, t, i)" rule: denotes.cases) auto
qed

lemma tok_size_value: "length w = length v \<Longrightarrow> tok_size (TProp no w) = tok_size (TProp no v)"
  by simp

lemma wr_tok:
  assumes "tok_at b p (TProp no v)" "wr b (p + 12) w = Some b'" "length w = length v"
  shows "tok_at b' p (TProp no w)"
proof -
  note s = wr_same_but [OF assms(2)]
  have "fdt32_ld b' (p + i) = fdt32_ld b (p + i)" if "i \<le> 8" for i by (rule same_but_ld32 [OF s]) (use that in linarith)
  from this [of 0] this [of 4] this [of 8] show ?thesis using assms(1,3) rd_wr_same [OF assms(2)] by simp
qed

lemma struct_items_written:
  assumes "struct_items b (us @ TProp no v # vs) its" "blocks_apart b" "length w = length v"
    "wr b (hdr b H_off_dt_struct + toks_size us + 12) w = Some b'"
  shows "toks_at b' (hdr b H_off_dt_struct) (us @ TProp no w # vs @ [TFinish])" "\<And>t i. denotes b t i \<Longrightarrow> denotes b' t i"
    "\<And>f. hdr b' f = hdr b f" "readable b' = readable b" "searchable b' = searchable b"
proof -
  let ?P = "hdr b H_off_dt_struct + toks_size us"
  note s = wr_same_but [OF assms(4)]
  have z: "toks_size us \<ge> 0" "toks_size vs \<ge> 0" using toks_size_nonneg(1) by auto
  have lo: "40 \<le> ?P + 12" using assms(1) z by (simp add: struct_items_def)
  have al: "int (length w) \<le> FDT_TAGALIGN (int (length w))" by (rule TAGALIGN_length(1))
  have hi: "?P + 12 + int (length w) \<le> hdr b H_off_dt_struct + hdr b H_size_dt_struct"
    using assms(1,3) z al by (simp add: struct_items_def)
  show "\<And>f. hdr b' f = hdr b f" by (rule same_but_hdr [OF s lo])
  show "readable b' = readable b" by (rule readable_same(1) [OF s lo])
  show "searchable b' = searchable b" by (rule searchable_same [OF s lo])
  have "hdr b H_off_dt_strings + hdr b H_size_dt_strings \<le> ?P + 12 \<or> ?P + 12 + int (length w) \<le> hdr b H_off_dt_strings"
    using assms(2) hi z by (auto simp: blocks_apart_def)
  then show "denotes b t i \<Longrightarrow> denotes b' t i" for t i by (rule denotes_same [OF s lo])
  have t: "toks_at b (hdr b H_off_dt_struct) us" "tok_at b ?P (TProp no v)" "toks_at b (?P + tok_size (TProp no v)) (vs @ [TFinish])"
    using assms(1) by (simp_all add: struct_items_def add.assoc)
  have "toks_at b' (hdr b H_off_dt_struct) us" using same_but_toks [OF s, of "hdr b H_off_dt_struct" us] t(1) by simp
  moreover have "toks_at b' (?P + tok_size (TProp no v)) (vs @ [TFinish])"
    using same_but_toks [OF s, of "?P + tok_size (TProp no v)" "vs @ [TFinish]"] t(3) al assms(3) by simp
  moreover have "tok_at b' ?P (TProp no w)" by (rule wr_tok [OF t(2) assms(4,3)])
  ultimately show "toks_at b' (hdr b H_off_dt_struct) (us @ TProp no w # vs @ [TFinish])"
    using assms(3) by (simp add: add.assoc)
qed

lemma wr_node_ok:
  assumes "struct_items b (us @ TProp no v # vs) its" "length w = length v"
  shows "\<exists>b'. wr b (hdr b H_off_dt_struct + toks_size us + 12) w = Some b'"
proof -
  have "hdr b H_off_dt_struct + toks_size us + 12 + int (length w) \<le> blen b"
    using assms TAGALIGN_length(1) [of w] toks_size_nonneg(1) [of vs] by (auto simp: struct_items_def readable_def backed_def)
  moreover have "0 \<le> hdr b H_off_dt_struct + toks_size us + 12" using assms(1) toks_size_nonneg(1) [of us] by (simp add: struct_items_def)
  ultimately show ?thesis using wr_in_range by blast
qed

lemma list_all2_rest: "list_all2 P (xs @ ys) (us @ vs) \<Longrightarrow> list_all2 P xs us \<Longrightarrow> list_all2 P ys vs"
  using list_all2_lengthD list_all2_append by blast

abbreviation prop_items :: "(cstring \<times> u8 list) list \<Rightarrow> item list" where
  "prop_items \<equiv> map (\<lambda>(n, v). Prop n v)"

abbreviation live_toks :: "tok list \<Rightarrow> tok list" where
  "live_toks \<equiv> filter (\<lambda>t. t \<noteq> TNop)"

text \<open>The items of a structure block around the properties of a node.\<close>

lemma node_split:
  assumes "list_all2 (denotes b) (live_toks (us @ TBegin n # ps @ t # vs)) (pre @ Begin n # prop_items qs @ rest)"
    "list_all2 (denotes b) (live_toks us) pre" "props_of b ps qs"
  shows "list_all2 (denotes b) (live_toks (t # vs)) rest"
proof -
  have "list_all2 (denotes b) (live_toks us @ TBegin n # live_toks ps @ live_toks (t # vs)) (pre @ Begin n # prop_items qs @ rest)"
    using assms(1) by (simp only: filter_append filter.simps tok.distinct if_True simp_thms)
  then show ?thesis using assms(2,3) list_all2_rest unfolding props_of_def by (metis list_all2_Cons)
qed

lemma node_join:
  assumes "list_all2 (denotes b) (live_toks us) pre" "props_of b ps qs" "list_all2 (denotes b) (live_toks (t # vs)) rest"
  shows "list_all2 (denotes b) (live_toks (us @ TBegin n # ps @ t # vs)) (pre @ Begin n # prop_items qs @ rest)"
proof -
  have "list_all2 (denotes b) (live_toks us @ TBegin n # live_toks ps @ live_toks (t # vs)) (pre @ Begin n # prop_items qs @ rest)"
    using assms unfolding props_of_def by (intro list_all2_appendI list_all2_Cons [THEN iffD2] conjI) simp_all
  then show ?thesis by (simp only: filter_append filter.simps tok.distinct if_True simp_thms)
qed

lemma props_replaced:
  assumes "\<And>t i. denotes b t i \<Longrightarrow> denotes b' t i" "props_of b p1 q1" "named b no s" "props_of b p2 q2"
  shows "props_of b' (p1 @ TProp no w # p2) (q1 @ (s, w) # q2)"
proof -
  have "named b' no s" using assms(1) [of "TProp no w" "Prop s w"] assms(3) by simp
  moreover have "list_all2 (denotes b') (live_toks p1) (prop_items q1)" "list_all2 (denotes b') (live_toks p2) (prop_items q2)"
    using assms(1,2,4) by (auto simp: props_of_def intro: list_all2_mono)
  ultimately show ?thesis by (simp add: props_of_def list_all2_appendI)
qed

lemma value_written:
  assumes b: "struct_items b (us @ TBegin n # (p1 @ TProp no v # p2) @ t # vs) (pre @ Begin n # prop_items (q1 @ (s, v) # q2) @ rest)"
      "blocks_apart b" "length w = length v" "wr b (hdr b H_off_dt_struct + toks_size (us @ TBegin n # p1) + 12) w = Some b'"
    and den: "list_all2 (denotes b) (live_toks us) pre" "props_of b p1 q1" "named b no s" "props_of b p2 q2"
  shows "props_of b' (p1 @ TProp no w # p2) (q1 @ (s, w) # q2)" "searchable b' = searchable b"
    "struct_items b' (us @ TBegin n # (p1 @ TProp no w # p2) @ t # vs) (pre @ Begin n # prop_items (q1 @ (s, w) # q2) @ rest)"
proof -
  let ?us = "us @ TBegin n # p1"
  have si: "struct_items b (?us @ TProp no v # p2 @ t # vs) (pre @ Begin n # prop_items (q1 @ (s, v) # q2) @ rest)" using b(1) by simp
  note a = struct_items_written [OF si b(2,3,4)]
  have "props_of b (p1 @ TProp no v # p2) (q1 @ (s, v) # q2)" by (rule props_replaced [OF _ den(2-4)])
  then have rest: "list_all2 (denotes b) (live_toks (t # vs)) rest"
    using b(1) node_split [OF _ den(1)] unfolding struct_items_def by blast
  show d: "props_of b' (p1 @ TProp no w # p2) (q1 @ (s, w) # q2)" by (rule props_replaced [OF a(2) den(2-4)])
  have "list_all2 (denotes b') (live_toks us) pre" "list_all2 (denotes b') (live_toks (t # vs)) rest"
    using den(1) rest a(2) list_all2_mono by blast+
  note l = node_join [OF this(1) d this(2), of n]
  have z: "toks_size (us @ TBegin n # (p1 @ TProp no w # p2) @ t # vs) = toks_size (?us @ TProp no v # p2 @ t # vs)" using b(3) by simp
  have k: "toks_at b' (hdr b H_off_dt_struct) ((us @ TBegin n # (p1 @ TProp no w # p2) @ t # vs) @ [TFinish])" using a(1) by simp
  show "struct_items b' (us @ TBegin n # (p1 @ TProp no w # p2) @ t # vs) (pre @ Begin n # prop_items (q1 @ (s, w) # q2) @ rest)"
    using si k l unfolding struct_items_def z a(3,4) by blast
  show "searchable b' = searchable b" by (rule a(5))
qed

text \<open>C19: \<open>fdt_setprop_inplace\<close> on a node of a well-formed blob (whose tokens may include NOPs), as a function on the
  properties of the node. When the node has the property with a value of the same length, the call returns 0, the whole structure block then
  stands for the same items except that the first property of this name has the new value, and reading
  any property of the node gives what the updated list says; when it has no such property the call returns
  \<open>-FDT_ERR_NOTFOUND\<close>, and when the length differs \<open>-FDT_ERR_NOSPACE\<close>, and the blob is unchanged.\<close>

theorem setprop_inplace_updates:
  assumes b: "searchable b" "struct_items b (us @ TBegin n # ps @ t # vs) (pre @ Begin n # prop_items qs @ rest)" "blocks_apart b"
    and den: "list_all2 (denotes b) (filter (\<lambda>t. t \<noteq> TNop) us) pre" "props_of b ps qs" "ends_props t"
  shows "case map_of qs s of
      None \<Rightarrow> fdt_setprop_inplace b (toks_size us) s w (int (length w)) = Some (- FDT_ERR_NOTFOUND, b)
    | Some v \<Rightarrow>
        if length w \<noteq> length v then fdt_setprop_inplace b (toks_size us) s w (int (length w)) = Some (- FDT_ERR_NOSPACE, b)
        else \<exists>b' ps'. fdt_setprop_inplace b (toks_size us) s w (int (length w)) = Some (0, b') \<and> searchable b' \<and>
          struct_items b' (us @ TBegin n # ps' @ t # vs) (pre @ Begin n # prop_items (AList.update s w qs) @ rest) \<and>
          (\<forall>x. prop_read b' (toks_size us) x (((map_of qs)(s \<mapsto> w)) x))"
proof -
  have toks: "toks_in b (toks_size us) (TBegin n # ps @ [t])" using struct_items_toks_in [OF b(2)] by simp
  note get = getprop_namelen_in [OF b(1) toks den(3,2), of "cstrlen s" s]
  show ?thesis
  proof (cases "map_of qs s")
    case None
    then show ?thesis using get by (simp add: fdt_setprop_inplace_def fdt_getprop_def)
  next
    case (Some v)
    obtain p1 no p2 q1 q2 where sp: "ps = p1 @ TProp no v # p2" "qs = q1 @ (s, v) # q2" "props_of b p1 q1" "named b no s" "props_of b p2 q2"
      "s \<notin> fst ` set q1" "AList.update s w qs = q1 @ (s, w) # q2" by (rule props_split [OF den(2) Some])
    let ?us = "us @ TBegin n # p1"
    let ?P = "hdr b H_off_dt_struct + toks_size ?us + 12"
    have at: "fdt_getprop b (toks_size us) s = Some (Ptr ?P, int (length v))"
      using getprop_at [OF b(1) _ sp(3,4,6), of "toks_size us" n v] toks sp(1) by (simp add: algebra_simps)
    show ?thesis
    proof (cases "length w = length v")
      case False
      then show ?thesis using Some at by (simp add: fdt_setprop_inplace_def)
    next
      case True
      have si: "struct_items b (us @ TBegin n # (p1 @ TProp no v # p2) @ t # vs) (pre @ Begin n # prop_items (q1 @ (s, v) # q2) @ rest)"
        using b(2) sp(1,2) by simp
      obtain b' where wb: "wr b ?P w = Some b'" using wr_node_ok [of b ?us no v "p2 @ t # vs"] si True by auto
      note a = value_written [OF si b(3) True wb den(1) sp(3-5)]
      have call: "fdt_setprop_inplace b (toks_size us) s w (int (length w)) = Some (0, b')"
        using at True wb by (simp add: fdt_setprop_inplace_def fdt_setprop_inplace_namelen_partial_def fdt_getprop_def memcpy_in_def)
      have tin: "toks_in b' (toks_size us) (TBegin n # (p1 @ TProp no w # p2) @ [t])" using struct_items_toks_in [OF a(3)] by simp
      have m: "map_of (q1 @ (s, w) # q2) = (map_of qs)(s \<mapsto> w)" using update_conv' [of s w qs] sp(7) by simp
      have sb: "searchable b'" using a(2) b(1) by simp
      have "prop_read b' (toks_size us) x (((map_of qs)(s \<mapsto> w)) x)" for x
        using getprop_namelen_in [OF sb tin den(3) a(1), of "cstrlen x" x] unfolding m
        by (cases "((map_of qs)(s \<mapsto> w)) x") (simp_all add: prop_read_def fdt_getprop_def del: fun_upd_apply)
      then have "\<exists>b' ps'. fdt_setprop_inplace b (toks_size us) s w (int (length w)) = Some (0, b') \<and> searchable b' \<and>
          struct_items b' (us @ TBegin n # ps' @ t # vs) (pre @ Begin n # prop_items (AList.update s w qs) @ rest) \<and>
          (\<forall>x. prop_read b' (toks_size us) x (((map_of qs)(s \<mapsto> w)) x))"
        using call sb a(3) [folded sp(7)] by blast
      then show ?thesis using Some True by (simp only: option.case if_False simp_thms)
    qed
  qed
qed

definition sample_wip :: blob where
  "sample_wip = \<lparr>blob_addr = 0, blob_mem =
     concat (map bytes32 [0xd00dfeed, 92, 56, 88, 40, 17, 16, 0, 4, 32, 0, 0, 0, 0, 1, 0, 3, 4, 0, 0x11223344, 2, 9]) @ cstr ''reg'' @ [0]\<rparr>"

theorem setprop_inplace_updates_witness:
  "\<exists>b'. fdt_setprop_inplace sample_wip 0 (cstr ''reg'') [1, 2, 3, 4] 4 = Some (0, b') \<and>
     prop_read b' 0 (cstr ''reg'') (Some [1, 2, 3, 4])"
proof -
  let ?ps = "[TProp 0 [0x11, 0x22, 0x33, 0x44]]" and ?qs = "[(cstr ''reg'', [0x11, 0x22, 0x33, 0x44])]"
  have 1: "searchable sample_wip" and 2: "blocks_apart sample_wip" by code_simp+
  have 3: "struct_items sample_wip ([] @ TBegin [] # ?ps @ TEnd # []) ([] @ Begin [] # prop_items ?qs @ [End])" by code_simp
  have 4: "props_of sample_wip ?ps ?qs" by code_simp
  have 5: "list_all2 (denotes sample_wip) (filter (\<lambda>t. t \<noteq> TNop) []) []" and 6: "ends_props TEnd" by simp_all
  have "map_of ?qs (cstr ''reg'') = Some [0x11, 0x22, 0x33, 0x44]" by simp
  then obtain b' where b': "fdt_setprop_inplace sample_wip 0 (cstr ''reg'') [1, 2, 3, 4] 4 = Some (0, b')"
    "\<forall>x. prop_read b' 0 x (((map_of ?qs)(cstr ''reg'' \<mapsto> [1, 2, 3, 4])) x)"
    using setprop_inplace_updates [OF 1 3 2 5 4 6, of "cstr ''reg''" "[1, 2, 3, 4]"] by (auto simp del: fun_upd_apply map_of.simps)
  then show ?thesis by (metis fun_upd_same)
qed

end
