(* ===== verification/Fdt_Splice.thy ===== *)
theory Fdt_Splice
  imports Fdt_Rw Fdt_Sw Fdt_Wip_Props
begin

text \<open>
  What a splice of the structure block does (\<open>fdt_splice_\<close> and \<open>fdt_splice_struct_\<close> of
  \<^verbatim>\<open>libfdt/fdt_rw.c\<close>): the bytes behind it move and the header is adjusted, or there is no space and nothing
  changes (\<open>splice_struct_spec\<close>). The tokens around the place stay, and every property keeps its name
  (\<open>toks_replaced\<close>).
\<close>

section \<open>Bytes that move\<close>

text \<open>\<open>moved b b' d lo hi\<close>: the bytes from \<open>lo\<close> to \<open>hi\<close> are in the second buffer at a distance \<open>d\<close>.\<close>

definition moved :: "blob \<Rightarrow> blob \<Rightarrow> int \<Rightarrow> int \<Rightarrow> int \<Rightarrow> bool" where
  "moved b b' d lo hi \<longleftrightarrow> 0 \<le> lo + d \<and> hi + d \<le> blen b' \<and> (\<forall>q. lo \<le> q \<and> q < hi \<longrightarrow> ld8 b' (q + d) = ld8 b q)"

lemma moved_part: "moved b b' d lo hi \<Longrightarrow> lo \<le> p \<Longrightarrow> q \<le> hi \<Longrightarrow> moved b b' d p q"
  by (auto simp: moved_def)

lemma moved_ld32:
  assumes "moved b b' d lo hi" "lo \<le> p" "p + 4 \<le> hi"
  shows "fdt32_ld b' (p + d) = fdt32_ld b p"
proof -
  have m: "ld8 b' (q + d) = ld8 b q" if "lo \<le> q" "q < hi" for q using assms(1) that by (simp add: moved_def)
  have "ld8 b' (p + i + d) = ld8 b (p + i)" if "0 \<le> i" "i < 4" for i by (rule m) (use assms(2,3) that in auto)
  from this [of 0] this [of 1] this [of 2] this [of 3] show ?thesis by (simp add: fdt32_ld_alt algebra_simps)
qed

lemma moved_rd:
  assumes "moved b b' d lo hi" "lo \<le> p" "p + n \<le> hi" "rd b p n = Some xs"
  shows "rd b' (p + d) n = Some xs"
proof -
  have m: "ld8 b' (q + d) = ld8 b q" if "lo \<le> q" "q < hi" for q using assms(1) that by (simp add: moved_def)
  have r: "int (length xs) = n" "\<And>i. i < length xs \<Longrightarrow> ld8 b (p + int i) = Some (xs ! i)" using assms(4) by (auto simp: rd_eq_iff)
  have "ld8 b' (p + d + int i) = Some (xs ! i)" if "i < length xs" for i
    using m [of "p + int i"] r that assms(2,3) by (simp add: algebra_simps)
  then show ?thesis unfolding rd_eq_iff using assms(1-3) r(1) by (auto simp: moved_def)
qed

lemma moved_tok:
  assumes "moved b b' d lo hi" "lo \<le> p" "p + tok_size t \<le> hi" "tok_at b p t"
  shows "tok_at b' (p + d) t"
proof (cases t)
  case (TBegin n)
  have "fdt32_ld b' (p + d) = fdt32_ld b p"
    by (rule moved_ld32 [OF assms(1,2)]) (use assms(3) tok_size_ge(1) [of t] in linarith)
  moreover have "rd b' (p + 4 + d) (cstrlen n + 1) = Some (n @ [0])"
    by (rule moved_rd [OF assms(1)]) (use assms(2-4) TBegin TAGALIGN_length(3) [of n] in simp_all)
  ultimately show ?thesis using assms(4) TBegin by (simp add: algebra_simps)
next
  case (TProp no v)
  have s: "p + 12 + int (length v) \<le> hi" using assms(3) TProp TAGALIGN_length(1) [of v] by simp
  have "fdt32_ld b' (p + i + d) = fdt32_ld b (p + i)" if "0 \<le> i" "i \<le> 8" for i
    by (rule moved_ld32 [OF assms(1)]) (use assms(2) s that in linarith)+
  from this [of 0] this [of 4] this [of 8] have l: "fdt32_ld b' (p + d) = fdt32_ld b p" "fdt32_ld b' (p + d + 4) = fdt32_ld b (p + 4)"
    "fdt32_ld b' (p + d + 8) = fdt32_ld b (p + 8)" by (simp_all add: algebra_simps)
  have "rd b' (p + 12 + d) (int (length v)) = Some v"
    by (rule moved_rd [OF assms(1)]) (use assms(2,4) s TProp in simp_all)
  then show ?thesis using assms(4) TProp l by (simp add: algebra_simps)
qed (use moved_ld32 [OF assms(1,2)] assms(3,4) in simp_all)

lemma moved_toks:
  assumes "moved b b' d lo hi" "lo \<le> p" "p + toks_size ts \<le> hi" "toks_at b p ts"
  shows "toks_at b' (p + d) ts"
  using assms(2-)
proof (induction ts arbitrary: p)
  case (Cons t ts)
  have "tok_at b' (p + d) t" by (rule moved_tok [OF assms(1)]) (use Cons.prems toks_size_nonneg(1) [of ts] in simp_all)
  moreover have "toks_at b' (p + tok_size t + d) ts"
    by (rule Cons.IH) (use Cons.prems tok_size_ge(1) [of t] in simp_all)
  ultimately show ?case by (simp add: algebra_simps)
qed simp

lemma moved_ld64:
  assumes "moved b b' d lo hi" "lo \<le> p" "p + 8 \<le> hi"
  shows "fdt64_ld b' (p + d) = fdt64_ld b p"
proof -
  have m: "ld8 b' (q + d) = ld8 b q" if "lo \<le> q" "q < hi" for q using assms(1) that by (simp add: moved_def)
  have "ld8 b' (p + i + d) = ld8 b (p + i)" if "0 \<le> i" "i < 8" for i by (rule m) (use assms(2,3) that in auto)
  from this [of 0] this [of 1] this [of 2] this [of 3] this [of 4] this [of 5] this [of 6] this [of 7]
  show ?thesis by (simp add: fdt64_ld_def algebra_simps)
qed

lemma moved_rsv:
  "moved b b' d lo hi \<Longrightarrow> lo \<le> p \<Longrightarrow> p + 16 * int (length rs) \<le> hi \<Longrightarrow> rsv_at b p rs \<Longrightarrow> rsv_at b' (p + d) rs"
proof (induction rs arbitrary: p)
  case (Cons r rs)
  have l: "p + 16 + 16 * int (length rs) \<le> hi" using Cons.prems(3) by simp
  have "fdt64_ld b' (p + d) = fdt64_ld b p" "fdt64_ld b' (p + 8 + d) = fdt64_ld b (p + 8)"
    by (rule moved_ld64 [OF Cons.prems(1)]; use Cons.prems(2) l in linarith)+
  moreover have "rsv_at b' (p + 16 + d) rs" using Cons.prems l by (intro Cons.IH) (cases r; simp)+
  ultimately show ?case using Cons.prems(4) by (cases r) (simp add: algebra_simps)
qed simp

section \<open>Blobs that can be changed\<close>

text \<open>What \<open>fdt_rw_probe_\<close> asks for: version 17 and the blocks in the order reserve map, structure, strings. The reserve map
  has the entries \<open>rs\<close>.\<close>

definition layout :: "(int \<times> int) list \<Rightarrow> blob \<Rightarrow> bool" where
  "layout rs b \<longleftrightarrow> searchable b \<and> hdr b H_version = 17 \<and> 40 \<le> hdr b H_off_mem_rsvmap \<and>
     rsv_at b (hdr b H_off_mem_rsvmap) (rs @ [(0, 0)]) \<and> (\<forall>r \<in> set rs. snd r \<noteq> 0) \<and>
     hdr b H_off_mem_rsvmap + 16 * (int (length rs) + 1) \<le> hdr b H_off_dt_struct \<and>
     hdr b H_off_dt_struct + hdr b H_size_dt_struct \<le> hdr b H_off_dt_strings \<and>
     hdr b H_off_dt_strings + hdr b H_size_dt_strings \<le> hdr b H_totalsize"

lemma layoutD:
  assumes "layout rs b"
  shows "searchable b" "backed b" "hdr b H_version = 17" "40 \<le> hdr b H_off_mem_rsvmap" "hdr b H_off_mem_rsvmap + 16 \<le> hdr b H_off_dt_struct"
    "hdr b H_off_dt_struct + hdr b H_size_dt_struct \<le> hdr b H_off_dt_strings"
    "hdr b H_off_dt_strings + hdr b H_size_dt_strings \<le> hdr b H_totalsize" "hdr b H_totalsize < INT_MAX" "hdr b H_totalsize \<le> blen b"
    "rsv_at b (hdr b H_off_mem_rsvmap) (rs @ [(0, 0)])" "\<forall>r \<in> set rs. snd r \<noteq> 0"
    "hdr b H_off_mem_rsvmap + 16 * (int (length rs) + 1) \<le> hdr b H_off_dt_struct"
  using assms searchableD [of b] by (auto simp: layout_def)

lemma layout_aligned: "layout rs b \<Longrightarrow> 8 dvd blob_addr b"
  by (simp add: layout_def searchable_def header_ok_def Let_def)

lemma rw_probe_ok: "layout rs b \<Longrightarrow> fdt_rw_probe_i b = Some (0, b)"
proof -
  assume a: "layout rs b"
  note d = layoutD [OF a]
  have n: "0 \<le> hdr b f" for f by simp
  have "s32 (hdr b H_size_dt_struct) = hdr b H_size_dt_struct"
    by (rule s32_id) (use d(6,7,8) n [of H_off_dt_struct] n [of H_size_dt_strings] n [of H_size_dt_struct] in linarith)+
  moreover have "u32 (hdr b H_off_mem_rsvmap + 16) = hdr b H_off_mem_rsvmap + 16"
    by (rule u32_id) (use d(4-8) n [of H_size_dt_struct] n [of H_size_dt_strings] in linarith)+
  moreover have "u32 (hdr b H_off_dt_struct + hdr b H_size_dt_struct) = hdr b H_off_dt_struct + hdr b H_size_dt_struct"
    by (rule u32_id) (use d(6-8) n [of H_size_dt_strings] n [of H_off_dt_struct] n [of H_size_dt_struct] in linarith)+
  moreover have "u32 (hdr b H_off_dt_strings + hdr b H_size_dt_strings) = hdr b H_off_dt_strings + hdr b H_size_dt_strings"
    by (rule u32_id) (use d(7,8) n [of H_off_dt_strings] n [of H_size_dt_strings] in linarith)+
  moreover have "FDT_ALIGN 40 8 = 40" by code_simp
  ultimately show ?thesis
    using d ro_probe_ok [OF d(1)] by (simp add: fdt_rw_probe_i_def fdt_blocks_misordered_i_def)
qed

section \<open>Splicing the structure block\<close>

abbreviation data_end :: "blob \<Rightarrow> int" where
  "data_end b \<equiv> hdr b H_off_dt_strings + hdr b H_size_dt_strings"

abbreviation struct_pos :: "blob \<Rightarrow> tok list \<Rightarrow> int" where
  "struct_pos b us \<equiv> hdr b H_off_dt_struct + toks_size us"

definition spliced :: "blob \<Rightarrow> blob \<Rightarrow> int \<Rightarrow> int \<Rightarrow> int \<Rightarrow> bool" where
  "spliced b b' p oldlen newlen \<longleftrightarrow> blen b' = blen b \<and> blob_addr b' = blob_addr b \<and>
     (\<forall>g. hdr b' g = hdr b g + (if g = H_size_dt_struct \<or> g = H_off_dt_strings then newlen - oldlen else 0)) \<and>
     moved b b' 0 40 p \<and> moved b b' (newlen - oldlen) (p + oldlen) (data_end b)"

lemma splicedD:
  assumes "spliced b b' p oldlen newlen"
  shows "blen b' = blen b" "blob_addr b' = blob_addr b" "hdr b' H_size_dt_struct = hdr b H_size_dt_struct + (newlen - oldlen)"
    "hdr b' H_off_dt_strings = hdr b H_off_dt_strings + (newlen - oldlen)"
    "g \<noteq> H_size_dt_struct \<Longrightarrow> g \<noteq> H_off_dt_strings \<Longrightarrow> hdr b' g = hdr b g"
    "moved b b' 0 40 p" "moved b b' (newlen - oldlen) (p + oldlen) (data_end b)"
  using assms by (simp_all add: spliced_def moved_def)

text \<open>A splice inside of a region is a splice of the region.\<close>

lemma spliced_wider:
  assumes "spliced b b' (p + k) oldlen newlen" "0 \<le> k"
  shows "spliced b b' p (k + oldlen) (k + newlen)"
  using assms moved_part [of b b' 0 40 "p + k" 40 p] by (auto simp: spliced_def algebra_simps)

lemma ld8_rd:
  assumes "0 \<le> q" "q < blen b"
  shows "ld8 b q = map_option hd (rd b q 1)"
proof -
  obtain x where x: "ld8 b q = Some x" using ld8_in_range [of q b] assms by auto
  have "rd b q 1 = Some [x]" unfolding rd_eq_iff using assms x by simp
  then show ?thesis using x by simp
qed

lemma splice_moves:
  assumes b: "layout rs b" and len: "0 \<le> oldlen" "0 \<le> newlen" "newlen < 0x80000000" "40 \<le> p" "p + oldlen \<le> data_end b"
  shows "if data_end b - oldlen + newlen > hdr b H_totalsize then fdt_splice_i b p oldlen newlen = Some (- FDT_ERR_NOSPACE, b)
    else \<exists>b'. fdt_splice_i b p oldlen newlen = Some (0, b') \<and> same_but b b' (p + newlen) (data_end b - oldlen + newlen) \<and>
      moved b b' (newlen - oldlen) (p + oldlen) (data_end b)"
proof -
  note d = layoutD [OF b]
  have z: "0 \<le> data_end b" "data_end b < INT_MAX" using d(7,8) by simp_all
  have u: "u32 (data_end b) = data_end b" "u64 p = p" "u64 (p + oldlen) = p + oldlen" "u32 oldlen = oldlen"
    "u32 (data_end b + newlen) = data_end b + newlen" "u32 (data_end b - oldlen + newlen) = data_end b - oldlen + newlen"
    using z len by (auto intro!: u32_id u64_id)
  have ds: "fdt_data_size_i b = Some (data_end b)" using d(2) u(1) by (simp add: fdt_data_size_i_def)
  have c: "fdt_splice_i b p oldlen newlen = (if data_end b - oldlen + newlen > hdr b H_totalsize then Some (- FDT_ERR_NOSPACE, b)
      else do { b \<leftarrow> memmove b (p + newlen) (p + oldlen) (data_end b - (p + oldlen)); Some (0, b) })"
    using ds d(2) u len z by (simp add: fdt_splice_i_def)
  show ?thesis
  proof (cases "data_end b - oldlen + newlen > hdr b H_totalsize")
    case True
    then show ?thesis using c by simp
  next
    case False
    obtain b' where b': "memmove b (p + newlen) (p + oldlen) (data_end b - (p + oldlen)) = Some b'"
      "same_but b b' (p + newlen) (p + newlen + (data_end b - (p + oldlen)))"
      "\<And>i m. 0 \<le> i \<Longrightarrow> 0 \<le> m \<Longrightarrow> i + m \<le> data_end b - (p + oldlen) \<Longrightarrow> rd b' (p + newlen + i) m = rd b (p + oldlen + i) m"
      using memmove_ok [of "p + oldlen" "data_end b - (p + oldlen)" b "p + newlen"] len z d(7,9) False by auto
    have "ld8 b' (q + (newlen - oldlen)) = ld8 b q" if "p + oldlen \<le> q" "q < data_end b" for q
    proof -
      have "rd b' (p + newlen + (q - (p + oldlen))) 1 = rd b (p + oldlen + (q - (p + oldlen))) 1" by (rule b'(3)) (use that in auto)
      moreover have "p + newlen + (q - (p + oldlen)) = q + (newlen - oldlen)" by simp
      ultimately have r: "rd b' (q + (newlen - oldlen)) 1 = rd b q 1" by simp
      have q: "0 \<le> q" "q < blen b" "0 \<le> q + (newlen - oldlen)" "q + (newlen - oldlen) < blen b'"
        using that len False d(7,9) same_butD(1) [OF b'(2)] by linarith+
      show ?thesis using r ld8_rd [OF q(1,2)] ld8_rd [OF q(3,4)] by simp
    qed
    then have "moved b b' (newlen - oldlen) (p + oldlen) (data_end b)"
      using same_butD(1) [OF b'(2)] len False d(9) by (auto simp: moved_def)
    then show ?thesis using False c b'(1,2) by (simp add: algebra_simps)
  qed
qed

lemma splice_struct_spec:
  assumes b: "layout rs b" and len: "0 \<le> oldlen" "0 \<le> newlen" "newlen < 0x80000000" "hdr b H_off_dt_struct \<le> p"
    "p + oldlen \<le> hdr b H_off_dt_struct + hdr b H_size_dt_struct"
  shows "if data_end b - oldlen + newlen > hdr b H_totalsize then fdt_splice_struct_i b p oldlen newlen = Some (- FDT_ERR_NOSPACE, b)
    else \<exists>b'. fdt_splice_struct_i b p oldlen newlen = Some (0, b') \<and> spliced b b' p oldlen newlen"
proof -
  note d = layoutD [OF b]
  have n: "0 \<le> hdr b f" for f by simp
  have p: "40 \<le> p" "p + oldlen \<le> data_end b" using len(4,5) d(4-6) n [of H_size_dt_strings] by linarith+
  note sp = splice_moves [OF b len(1-3) p]
  show ?thesis
  proof (cases "data_end b - oldlen + newlen > hdr b H_totalsize")
    case True
    then show ?thesis using sp by (simp add: fdt_splice_struct_i_def)
  next
    case False
    then obtain b1 where b1: "fdt_splice_i b p oldlen newlen = Some (0, b1)"
      "same_but b b1 (p + newlen) (data_end b - oldlen + newlen)" "moved b b1 (newlen - oldlen) (p + oldlen) (data_end b)" using sp by auto
    have h1: "hdr b1 f = hdr b f" for f by (rule same_but_hdr [OF b1(2)]) (use p(1) len(2) in linarith)
    have l1: "40 \<le> blen b1" using same_butD(1) [OF b1(2)] backedD(1) [OF d(2)] by simp
    have g1: "fdt_get_header b1 f = Some (hdr b f)" for f using l1 h1 by (simp add: fdt_get_header_hdr)
    have s: "s32 (newlen - oldlen) = newlen - oldlen"
      using len d(6,7,8) n [of H_size_dt_strings] n [of H_off_dt_struct] by (intro s32_id) linarith+
    define D where "D = newlen - oldlen"
    obtain b2 where b2: "fdt_set_header b1 H_size_dt_struct (hdr b H_size_dt_struct + D) = Some b2" "blen b2 = blen b1" "40 \<le> blen b2"
      "blob_addr b2 = blob_addr b1" "\<And>g. hdr b2 g = (if g = H_size_dt_struct then u32 (hdr b H_size_dt_struct + D) else hdr b1 g)" "same_but b1 b2 0 40"
      using set_header_ok [OF l1] by metis
    have g2: "fdt_get_header b2 H_off_dt_strings = Some (hdr b H_off_dt_strings)" using b2(3,5) h1 by (simp add: fdt_get_header_hdr)
    obtain b3 where b3: "fdt_set_header b2 H_off_dt_strings (hdr b H_off_dt_strings + D) = Some b3" "blen b3 = blen b2" "40 \<le> blen b3"
      "blob_addr b3 = blob_addr b2" "\<And>g. hdr b3 g = (if g = H_off_dt_strings then u32 (hdr b H_off_dt_strings + D) else hdr b2 g)" "same_but b2 b3 0 40"
      using set_header_ok [OF b2(3)] by metis
    have call: "fdt_splice_struct_i b p oldlen newlen = Some (0, b3)"
      using b1(1) s g1 g2 b2(1) b3(1) by (simp add: fdt_splice_struct_i_def D_def)
    have D: "- oldlen \<le> D" "D \<le> hdr b H_totalsize - data_end b" using False len(2) by (simp_all add: D_def)
    have ud: "u32 (hdr b H_size_dt_struct + D) = hdr b H_size_dt_struct + D" "u32 (hdr b H_off_dt_strings + D) = hdr b H_off_dt_strings + D"
      using D len d(6,7,8) n [of H_size_dt_strings] n [of H_off_dt_struct] n [of H_off_dt_strings] by (intro u32_id; linarith)+
    have l8: "ld8 b3 q = ld8 b1 q" if "40 \<le> q" for q using same_butD(3) [OF b2(6)] same_butD(3) [OF b3(6)] that by simp
    have m: "moved b b3 D (p + oldlen) (data_end b)" "moved b b3 0 40 p"
    proof -
      show "moved b b3 D (p + oldlen) (data_end b)"
        using b1(3) l8 b2(2) b3(2) same_butD(1) [OF b1(2)] p(1) len(2) unfolding D_def [symmetric] moved_def by (auto simp: D_def)
      have "ld8 b3 q = ld8 b q" if "40 \<le> q" "q < p" for q
        using l8 [OF that(1)] same_butD(3) [OF b1(2), of q] that len(2) by simp
      then show "moved b b3 0 40 p"
        using b2(2) b3(2) same_butD(1) [OF b1(2)] p(2) len(1) d(7,9) by (auto simp: moved_def)
    qed
    have "spliced b b3 p oldlen newlen" unfolding spliced_def D_def [symmetric]
      using m b3(2,4,5) b2(2,4,5) h1 ud same_butD(1,2) [OF b1(2)] by auto
    then show ?thesis using call False by auto
  qed
qed

text \<open>Filling the gap leaves a splice a splice.\<close>

lemma spliced_fill:
  assumes "spliced b b' p oldlen newlen" "same_but b' b'' lo hi" "p \<le> lo" "hi \<le> p + newlen" "40 \<le> p"
  shows "spliced b b'' p oldlen newlen"
proof -
  note s = splicedD [OF assms(1)]
  have h: "hdr b'' g = hdr b' g" for g by (rule same_but_hdr [OF assms(2)]) (use assms(3,5) in linarith)
  have "moved b b'' 0 40 p" using s(6) same_butD [OF assms(2)] assms(3) by (auto simp: moved_def)
  moreover have "moved b b'' (newlen - oldlen) (p + oldlen) (data_end b)"
  proof -
    have "ld8 b'' (q + (newlen - oldlen)) = ld8 b q" if "p + oldlen \<le> q" "q < data_end b" for q
      using s(7) that same_butD(3) [OF assms(2), of "q + (newlen - oldlen)"] assms(4) unfolding moved_def by auto
    then show ?thesis using s(7) same_butD(1) [OF assms(2)] by (simp add: moved_def)
  qed
  ultimately show ?thesis using assms(1) h same_butD(1,2) [OF assms(2)] by (simp add: spliced_def)
qed

lemma spliced_named:
  assumes "spliced b b' p oldlen newlen" "p + oldlen \<le> hdr b H_off_dt_strings" "named b no nm"
  shows "named b' no nm"
proof -
  note s = splicedD [OF assms(1)]
  have n: "0 \<le> no" "no + cstrlen nm + 1 \<le> hdr b H_size_dt_strings" "0 \<notin> set nm"
    "rd b (hdr b H_off_dt_strings + no) (cstrlen nm + 1) = Some (nm @ [0])" using assms(3) by (simp_all add: named_def)
  have o: "hdr b H_off_dt_strings + no + (newlen - oldlen) = hdr b' H_off_dt_strings + no" using s(4) by simp
  have "rd b' (hdr b H_off_dt_strings + no + (newlen - oldlen)) (cstrlen nm + 1) = Some (nm @ [0])"
    by (rule moved_rd [OF s(7) _ _ n(4)]) (use assms(2) n(1,2) in linarith)+
  then have "rd b' (hdr b' H_off_dt_strings + no) (cstrlen nm + 1) = Some (nm @ [0])" unfolding o .
  moreover have "hdr b' H_size_dt_strings = hdr b H_size_dt_strings" by (rule s(5)) simp_all
  ultimately show ?thesis unfolding named_def using n(1-3) by simp
qed

lemma spliced_denotes:
  "spliced b b' p oldlen newlen \<Longrightarrow> p + oldlen \<le> hdr b H_off_dt_strings \<Longrightarrow> denotes b t i \<Longrightarrow> denotes b' t i"
  by (cases "(b, t, i)" rule: denotes.cases) (auto intro: spliced_named)

lemma spliced_layout:
  assumes b: "layout rs b" "spliced b b' p oldlen newlen" "hdr b H_off_dt_struct \<le> p" "p + oldlen \<le> hdr b H_off_dt_struct + hdr b H_size_dt_struct"
    "0 \<le> oldlen" "0 \<le> newlen" "data_end b - oldlen + newlen \<le> hdr b H_totalsize"
  shows "layout rs b'"
proof -
  note d = layoutD [OF b(1)] and s = splicedD [OF b(2)]
  have e: "hdr b' g = hdr b g" if "g \<notin> {H_size_dt_struct, H_off_dt_strings}" for g using s(5) that by simp
  have n: "0 \<le> hdr b H_size_dt_strings" by simp
  have z: "hdr b H_off_dt_struct + (hdr b H_size_dt_struct + (newlen - oldlen)) \<le> hdr b H_off_dt_strings + (newlen - oldlen)"
    "hdr b H_off_dt_struct \<le> hdr b H_off_dt_strings + (newlen - oldlen)" using d(6) b(3-6) by linarith+
  have h40: "fdt_header_size_i 17 = 40" by (simp add: fdt_header_size_i_def)
  have i: "40 \<le> hdr b H_totalsize" "hdr b H_off_mem_rsvmap \<le> hdr b H_totalsize" "hdr b H_off_dt_struct \<le> hdr b H_totalsize"
    "hdr b H_off_dt_struct + (hdr b H_size_dt_struct + (newlen - oldlen)) \<le> hdr b H_totalsize"
    "40 \<le> hdr b H_off_dt_strings + (newlen - oldlen)" using z b(7) d(4,5) n by linarith+
  have "header_ok b'"
    using d(1,3) s(2-4) e z b(7) h40 i d(4,5) unfolding searchable_def header_ok_def by (simp add: Let_def)
  moreover have "rsv_at b' (hdr b H_off_mem_rsvmap + 0) (rs @ [(0, 0)])"
    by (rule moved_rsv [OF s(6) d(4) _ d(10)]) (use d(12) b(3) in simp)
  ultimately show ?thesis
    using d s(1-4) e z b(7) unfolding layout_def searchable_def backed_def by simp
qed

text \<open>Tokens that are replaced by others: the tokens around them stay, and every name stays where it is.\<close>

lemma toks_replaced:
  assumes b: "layout rs b" "struct_items b (us @ mid @ vs) its" "spliced b b' (struct_pos b us) (toks_size mid) (toks_size new)"
    "toks_at b' (struct_pos b us) new" "data_end b - toks_size mid + toks_size new \<le> hdr b H_totalsize"
    and den: "list_all2 (denotes b') (live_toks (us @ new @ vs)) its'"
  shows "layout rs b'" "struct_items b' (us @ new @ vs) its'" "\<And>t i. denotes b t i \<Longrightarrow> denotes b' t i"
proof -
  note d = layoutD [OF b(1)] and s = splicedD [OF b(3)]
  have si: "readable b" "40 \<le> hdr b H_off_dt_struct" "toks_at b (hdr b H_off_dt_struct) (us @ mid @ vs @ [TFinish])"
    "hdr b H_size_dt_struct = toks_size us + toks_size mid + toks_size vs + 4" using b(2) by (simp_all add: struct_items_def)
  have z: "0 \<le> toks_size us" "0 \<le> toks_size mid" "0 \<le> toks_size vs" "0 \<le> toks_size new" by (rule toks_size_nonneg(1))+
  have p: "hdr b H_off_dt_struct \<le> struct_pos b us" "struct_pos b us + toks_size mid \<le> hdr b H_off_dt_struct + hdr b H_size_dt_struct"
    using z si(4) by linarith+
  show l: "layout rs b'" by (rule spliced_layout [OF b(1,3) p z(2,4) b(5)])
  have ps: "struct_pos b us + toks_size mid \<le> hdr b H_off_dt_strings" using p(2) d(6) by linarith
  then show "denotes b t i \<Longrightarrow> denotes b' t i" for t i by (rule spliced_denotes [OF b(3)])
  have os: "hdr b' H_off_dt_struct = hdr b H_off_dt_struct" "hdr b' H_totalsize = hdr b H_totalsize"
    "hdr b' H_size_dt_strings = hdr b H_size_dt_strings" by (rule s(5); simp)+
  have e: "struct_pos b us + toks_size mid + toks_size (vs @ [TFinish]) \<le> data_end b"
  proof -
    have "toks_size (vs @ [TFinish]) = toks_size vs + 4" by simp
    then show ?thesis using si(4) d(6) hdr_bounds(1) [of b H_size_dt_strings] by linarith
  qed
  have "toks_at b' (hdr b H_off_dt_struct + 0) us"
    by (rule moved_toks [OF s(6)]) (use si in simp_all)
  moreover have "toks_at b' (struct_pos b us + toks_size mid + (toks_size new - toks_size mid)) (vs @ [TFinish])"
    by (rule moved_toks [OF s(7)]) (use si(3) e in \<open>simp_all add: add.assoc\<close>)
  moreover have "struct_pos b us + toks_size mid + (toks_size new - toks_size mid) = struct_pos b us + toks_size new" by simp
  ultimately have t: "toks_at b' (hdr b' H_off_dt_struct) ((us @ new @ vs) @ [TFinish])" using b(4) os(1) by (simp add: add.assoc)
  note d' = layoutD [OF l]
  have "hdr b' H_size_dt_struct = toks_size (us @ new @ vs) + 4" using s(3) si(4) by simp
  moreover have "hdr b' H_off_dt_struct + hdr b' H_size_dt_struct \<le> hdr b' H_totalsize"
    using d'(6,7) hdr_bounds(1) [of b' H_size_dt_strings] by linarith
  ultimately show "struct_items b' (us @ new @ vs) its'"
    using t den d'(7) si(2) os(1) searchableD(2) [OF d'(1)] unfolding struct_items_def by simp
qed

section \<open>Blobs whose blocks are somewhere else\<close>

abbreviation block_moved :: "blob \<Rightarrow> blob \<Rightarrow> hdr_field \<Rightarrow> int \<Rightarrow> bool" where
  "block_moved b b' f n \<equiv> moved b b' (hdr b' f - hdr b f) (hdr b f) (hdr b f + n)"

lemma relocated_named: "block_moved b b' H_off_dt_strings (hdr b H_size_dt_strings) \<Longrightarrow> hdr b' H_size_dt_strings = hdr b H_size_dt_strings \<Longrightarrow>
    named b no nm \<Longrightarrow> named b' no nm"
proof -
  assume a: "block_moved b b' H_off_dt_strings (hdr b H_size_dt_strings)" "hdr b' H_size_dt_strings = hdr b H_size_dt_strings" "named b no nm"
  have n: "0 \<le> no" "no + cstrlen nm + 1 \<le> hdr b H_size_dt_strings" "0 \<notin> set nm"
    "rd b (hdr b H_off_dt_strings + no) (cstrlen nm + 1) = Some (nm @ [0])" using a(3) by (simp_all add: named_def)
  have "rd b' (hdr b H_off_dt_strings + no + (hdr b' H_off_dt_strings - hdr b H_off_dt_strings)) (cstrlen nm + 1) = Some (nm @ [0])"
    by (rule moved_rd [OF a(1) _ _ n(4)]) (use n(1,2) in linarith)+
  moreover have "hdr b H_off_dt_strings + no + (hdr b' H_off_dt_strings - hdr b H_off_dt_strings) = hdr b' H_off_dt_strings + no" by simp
  ultimately show ?thesis using n(1-3) a(2) unfolding named_def by simp
qed

lemma relocated:
  assumes b: "layout rs b" "struct_items b ts its" and ad: "8 dvd blob_addr b'"
    and mv: "block_moved b b' H_off_mem_rsvmap (16 * (int (length rs) + 1))" "block_moved b b' H_off_dt_struct (hdr b H_size_dt_struct)"
      "block_moved b b' H_off_dt_strings (hdr b H_size_dt_strings)"
    and h: "hdr b' H_magic = hdr b H_magic" "hdr b' H_version = 17" "hdr b' H_last_comp_version = hdr b H_last_comp_version"
      "hdr b' H_size_dt_struct = hdr b H_size_dt_struct" "hdr b' H_size_dt_strings = hdr b H_size_dt_strings"
    and o: "40 \<le> hdr b' H_off_mem_rsvmap" "hdr b' H_off_mem_rsvmap + 16 * (int (length rs) + 1) \<le> hdr b' H_off_dt_struct"
      "hdr b' H_off_dt_struct + hdr b' H_size_dt_struct \<le> hdr b' H_off_dt_strings"
      "data_end b' \<le> hdr b' H_totalsize" "hdr b' H_totalsize < INT_MAX" "hdr b' H_totalsize \<le> blen b'"
  shows "layout rs b'" "struct_items b' ts its"
proof -
  note d = layoutD [OF b(1)]
  have nn: "0 \<le> hdr b' H_size_dt_strings" "0 \<le> hdr b' H_size_dt_struct" "0 \<le> int (length rs)" by simp_all
  have h40: "fdt_header_size_i 17 = 40" by (simp add: fdt_header_size_i_def)
  have o2: "hdr b' H_off_mem_rsvmap \<le> hdr b' H_off_dt_struct" using o(2) nn(3) unfolding distrib_left by linarith
  have i: "40 \<le> hdr b' H_totalsize" "hdr b' H_off_mem_rsvmap \<le> hdr b' H_totalsize" "hdr b' H_off_dt_struct \<le> hdr b' H_totalsize"
    "hdr b' H_off_dt_struct + hdr b' H_size_dt_struct \<le> hdr b' H_totalsize" "40 \<le> hdr b' H_off_dt_struct" "40 \<le> hdr b' H_off_dt_strings"
    using o(1,3,4) o2 nn(1,2) by linarith+
  have hk: "header_ok b'" using d(1,3) ad h h40 i o(1,4,5) unfolding searchable_def header_ok_def by (simp add: Let_def)
  have bk: "backed b'" using i(1) o(6) by (simp add: backed_def)
  have "rsv_at b' (hdr b H_off_mem_rsvmap + (hdr b' H_off_mem_rsvmap - hdr b H_off_mem_rsvmap)) (rs @ [(0, 0)])"
    by (rule moved_rsv [OF mv(1) _ _ d(10)]) simp_all
  then show l: "layout rs b'" using hk bk h(2) o d(11) unfolding layout_def searchable_def by simp
  have den: "denotes b' t i" if "denotes b t i" for t i
    using that relocated_named [OF mv(3) h(5)] by (cases "(b, t, i)" rule: denotes.cases) auto
  have si: "toks_at b (hdr b H_off_dt_struct) (ts @ [TFinish])" "hdr b H_size_dt_struct = toks_size (ts @ [TFinish])"
    "list_all2 (denotes b) (live_toks ts) its" using b(2) by (simp_all add: struct_items_def)
  have "toks_at b' (hdr b H_off_dt_struct + (hdr b' H_off_dt_struct - hdr b H_off_dt_struct)) (ts @ [TFinish])"
    by (rule moved_toks [OF mv(2) order_refl _ si(1)]) (use si(2) in simp)
  then show "struct_items b' ts its"
    using searchableD(2) [OF layoutD(1) [OF l]] i(4,5) o(4) si(2) h(4) list_all2_mono [OF si(3) den] unfolding struct_items_def by simp
qed

end
