(* ===== verification/Fdt_Rw_Props.thy ===== *)
theory Fdt_Rw_Props
  imports Fdt_Splice
begin

text \<open>
  The property functions of \<^verbatim>\<open>libfdt/fdt_rw.c\<close> as operations on trees: \<open>fdt_setprop\<close> and \<open>fdt_delprop\<close> at the
  offset of a node change exactly this node of the tree that the blob holds (\<open>setprop_tree\<close>, \<open>delprop_tree\<close>).
\<close>

section \<open>A node and its properties\<close>

text \<open>\<open>node_around b us n ps t vs pre qs rest\<close>: behind the tokens \<open>us\<close> the structure block has a node with the name \<open>n\<close> and the properties
  \<open>qs\<close>, between the items \<open>pre\<close> and \<open>rest\<close>.\<close>

definition node_around :: "blob \<Rightarrow> tok list \<Rightarrow> cstring \<Rightarrow> tok list \<Rightarrow> tok \<Rightarrow> tok list \<Rightarrow> item list \<Rightarrow> (cstring \<times> u8 list) list \<Rightarrow> item list \<Rightarrow> bool" where
  "node_around b us n ps t vs pre qs rest \<longleftrightarrow> struct_items b (us @ TBegin n # ps @ t # vs) (pre @ Begin n # prop_items qs @ rest) \<and>
     list_all2 (denotes b) (live_toks us) pre \<and> props_of b ps qs \<and> ends_props t"

lemma node_aroundD:
  assumes "node_around b us n ps t vs pre qs rest"
  shows "struct_items b (us @ TBegin n # ps @ t # vs) (pre @ Begin n # prop_items qs @ rest)" "list_all2 (denotes b) (live_toks us) pre"
    "props_of b ps qs" "ends_props t" "list_all2 (denotes b) (live_toks (t # vs)) rest" "toks_in b (toks_size us) (TBegin n # ps @ [t])"
proof -
  show a: "struct_items b (us @ TBegin n # ps @ t # vs) (pre @ Begin n # prop_items qs @ rest)" "list_all2 (denotes b) (live_toks us) pre"
    "props_of b ps qs" "ends_props t" using assms by (simp_all add: node_around_def)
  show "list_all2 (denotes b) (live_toks (t # vs)) rest" using a(1) node_split [OF _ a(2,3)] unfolding struct_items_def by blast
  show "toks_in b (toks_size us) (TBegin n # ps @ [t])" using struct_items_toks_in [OF a(1)] by simp
qed

lemma get_property_missing:
  assumes "layout rs b" "node_around b us n ps t vs pre qs rest" "map_of qs s = None"
  shows "fdt_get_property b (toks_size us) s = Some (NULL, - FDT_ERR_NOTFOUND)"
proof -
  note d = layoutD [OF assms(1)] and a = node_aroundD [OF assms(2)]
  note rb = searchableD(2) [OF d(1)]
  have t: "tok_in b (toks_size us) (TBegin n)" "toks_in b (toks_size us + tok_size (TBegin n)) (ps @ [t])" using a(6) by simp_all
  have "\<not> toks_size us + tok_size (TBegin n) < 0" using toks_size_nonneg(1) [of us] tok_size_ge(1) [of "TBegin n"] by linarith
  then have "fdt_get_property_namelen_i b (toks_size us) s (cstrlen s) =
      do { off \<leftarrow> nextprop_i b (toks_size us + tok_size (TBegin n)); get_property_loop b off s (cstrlen s) }"
    using check_node_offset_in [OF rb t(1)] by (simp add: fdt_get_property_namelen_i_def fdt_first_property_offset_def)
  then have "found_prop b (fdt_get_property_namelen_i b (toks_size us) s (cstrlen s)) (map_of qs s)"
    using get_property_loop_in [OF d(1) t(2) a(4,3), of "cstrlen s" s] by simp
  then show ?thesis using assms(3) d(2,3) by (auto simp: found_prop_def fdt_get_property_def fdt_get_property_namelen_def)
qed

lemma get_property_found:
  assumes "layout rs b" "node_around b us n (p1 @ TProp no v # p2) t vs pre qs rest" "props_of b p1 q1" "named b no s" "s \<notin> fst ` set q1"
  shows "fdt_get_property b (toks_size us) s = Some (Ptr (struct_pos b (us @ TBegin n # p1)), int (length v))"
proof -
  note d = layoutD [OF assms(1)] and a = node_aroundD [OF assms(2)]
  note rb = searchableD(2) [OF d(1)]
  have t: "tok_in b (toks_size us) (TBegin n)" "toks_in b (toks_size us + tok_size (TBegin n)) (p1 @ [TProp no v])" using a(6) by simp_all
  have "\<not> toks_size us + tok_size (TBegin n) < 0" using toks_size_nonneg(1) [of us] tok_size_ge(1) [of "TBegin n"] by linarith
  then have "fdt_get_property_namelen_i b (toks_size us) s (cstrlen s) =
      do { off \<leftarrow> nextprop_i b (toks_size us + tok_size (TBegin n)); get_property_loop b off s (cstrlen s) }"
    using check_node_offset_in [OF rb t(1)] by (simp add: fdt_get_property_namelen_i_def fdt_first_property_offset_def)
  then show ?thesis using get_property_loop_at [OF d(1) t(2) assms(3-5)] d(2,3)
    by (simp add: fdt_get_property_def fdt_get_property_namelen_def algebra_simps)
qed

lemma props_of_append: "props_of b p1 q1 \<Longrightarrow> props_of b p2 q2 \<Longrightarrow> props_of b (p1 @ p2) (q1 @ q2)"
  by (simp add: props_of_def list_all2_appendI)

lemma props_of_mono: "(\<And>t i. denotes b t i \<Longrightarrow> denotes b' t i) \<Longrightarrow> props_of b ps qs \<Longrightarrow> props_of b' ps qs"
  unfolding props_of_def by (rule list_all2_mono)

text \<open>A part of the properties is replaced.\<close>

lemma node_edit:
  assumes b: "layout rs b" "node_around b us n (p1 @ mid @ p2) t vs pre (q1 @ qm @ q2) rest" "props_of b p1 q1" "props_of b p2 q2"
    and new: "spliced b b' (struct_pos b (us @ TBegin n # p1)) (toks_size mid) (toks_size new)" "toks_at b' (struct_pos b (us @ TBegin n # p1)) new"
      "data_end b - toks_size mid + toks_size new \<le> hdr b H_totalsize" "props_of b' new qn"
  shows "layout rs b'" "node_around b' us n (p1 @ new @ p2) t vs pre (q1 @ qn @ q2) rest"
proof -
  note a = node_aroundD [OF b(2)] and d = layoutD [OF b(1)]
  let ?us = "us @ TBegin n # p1"
  have si: "struct_items b (?us @ mid @ (p2 @ t # vs)) (pre @ Begin n # prop_items (q1 @ qm @ q2) @ rest)" using a(1) by simp
  have "struct_pos b ?us + toks_size mid \<le> hdr b H_off_dt_strings"
    using si d(6) toks_size_nonneg(1) [of "p2 @ t # vs"] by (simp add: struct_items_def)
  note m = spliced_denotes [OF new(1) this]
  have ps: "props_of b' (p1 @ new @ p2) (q1 @ qn @ q2)"
    using props_of_append [OF props_of_mono [OF m b(3)] props_of_append [OF new(4) props_of_mono [OF m b(4)]]] by simp
  have pre: "list_all2 (denotes b') (live_toks us) pre" and rest: "list_all2 (denotes b') (live_toks (t # vs)) rest"
    using list_all2_mono [OF a(2) m] list_all2_mono [OF a(5) m] by simp_all
  have den: "list_all2 (denotes b') (live_toks (?us @ new @ (p2 @ t # vs))) (pre @ Begin n # prop_items (q1 @ qn @ q2) @ rest)"
    using node_join [OF pre ps rest, of n] by simp
  note r = toks_replaced [OF b(1) si new(1-3) den]
  show "layout rs b'" by (rule r(1))
  show "node_around b' us n (p1 @ new @ p2) t vs pre (q1 @ qn @ q2) rest"
    using r(2) pre ps a(4) by (simp add: node_around_def)
qed

section \<open>Deleting a property\<close>

lemma tok_fits:
  assumes "layout rs b" "struct_items b (us @ x # vs) its"
  shows "struct_pos b us + tok_size x \<le> hdr b H_off_dt_struct + hdr b H_size_dt_struct" "0 \<le> tok_size x" "tok_size x < 0x7fffffff"
    "40 \<le> struct_pos b us"
proof -
  note d = layoutD [OF assms(1)]
  have z: "0 \<le> toks_size us" "0 \<le> toks_size vs" "4 \<le> tok_size x" using toks_size_nonneg(1) tok_size_ge(1) by auto
  have s: "hdr b H_size_dt_struct = toks_size us + tok_size x + toks_size vs + 4" using assms(2) by (simp add: struct_items_def)
  have n: "0 \<le> hdr b H_off_dt_struct" "0 \<le> hdr b H_size_dt_strings" by simp_all
  show "struct_pos b us + tok_size x \<le> hdr b H_off_dt_struct + hdr b H_size_dt_struct" "0 \<le> tok_size x" "tok_size x < 0x7fffffff"
    "40 \<le> struct_pos b us" using z s n d(4-8) by linarith+
qed

fun delete_first :: "cstring \<Rightarrow> (cstring \<times> u8 list) list \<Rightarrow> (cstring \<times> u8 list) list" where
  "delete_first s [] = []"
| "delete_first s (q # qs) = (if fst q = s then qs else q # delete_first s qs)"

lemma delete_first_split: "s \<notin> fst ` set q1 \<Longrightarrow> delete_first s (q1 @ (s, v) # q2) = q1 @ q2"
  by (induction q1) auto

lemma delprop_spec:
  assumes "layout rs b" "node_around b us n ps t vs pre qs rest"
  shows "case map_of qs s of
      None \<Rightarrow> fdt_delprop b (toks_size us) s = Some (- FDT_ERR_NOTFOUND, b)
    | Some v \<Rightarrow> \<exists>b' ps'. fdt_delprop b (toks_size us) s = Some (0, b') \<and> hdr b' H_totalsize = hdr b H_totalsize \<and> layout rs b' \<and> (TNop \<in> set ps' \<longrightarrow> TNop \<in> set ps) \<and>
        node_around b' us n ps' t vs pre (delete_first s qs) rest"
proof (cases "map_of qs s")
  case None
  then show ?thesis using get_property_missing [OF assms] rw_probe_ok [OF assms(1)] by (simp add: fdt_delprop_def FDT_RW_PROBE_def)
next
  case (Some v)
  obtain p1 no p2 q1 q2 where sp: "ps = p1 @ TProp no v # p2" "qs = q1 @ (s, v) # q2" "props_of b p1 q1" "named b no s" "props_of b p2 q2"
    "s \<notin> fst ` set q1" by (rule props_split [OF node_aroundD(3) [OF assms(2)] Some])
  let ?us = "us @ TBegin n # p1" and ?x = "TProp no v"
  have ni: "node_around b us n (p1 @ [?x] @ p2) t vs pre (q1 @ [(s, v)] @ q2) rest" using assms(2) sp(1,2) by simp
  have f: "struct_items b (?us @ ?x # p2 @ t # vs) (pre @ Begin n # prop_items qs @ rest)" using node_aroundD(1) [OF assms(2)] sp(1) by simp
  note fit = tok_fits [OF assms(1) f]
  have s32: "s32 (tok_size ?x) = tok_size ?x" using fit(2,3) by (intro s32_id) linarith+
  have "fdt_delprop b (toks_size us) s = fdt_splice_struct_i b (struct_pos b ?us) (tok_size ?x) 0"
    using get_property_found [OF assms(1) assms(2) [unfolded sp(1)] sp(3,4,6)] rw_probe_ok [OF assms(1)] s32
    by (simp add: fdt_delprop_def FDT_RW_PROBE_def)
  moreover have p: "hdr b H_off_dt_struct \<le> struct_pos b ?us" using toks_size_nonneg(1) [of ?us] by simp
  moreover have le: "data_end b - tok_size ?x + 0 \<le> hdr b H_totalsize" using layoutD(7) [OF assms(1)] fit(2) by linarith
  ultimately obtain b' where b': "fdt_delprop b (toks_size us) s = Some (0, b')" "spliced b b' (struct_pos b ?us) (tok_size ?x) 0"
    using splice_struct_spec [OF assms(1) fit(2) order_refl _ p fit(1)] by auto
  have "layout rs b'" "node_around b' us n (p1 @ [] @ p2) t vs pre (q1 @ [] @ q2) rest"
    using node_edit [OF assms(1) ni sp(3,5), of b' "[]" "[]"] b'(2) le by simp_all
  then show ?thesis using Some b'(1) splicedD(5) [OF b'(2)] delete_first_split [OF sp(6)] sp(1,2) by (auto intro!: exI [of _ b'] exI [of _ "p1 @ p2"])
qed

section \<open>Adding a string\<close>

text \<open>The strings block may have grown, everything else is the same.\<close>

definition grown :: "blob \<Rightarrow> blob \<Rightarrow> bool" where
  "grown b b' \<longleftrightarrow> blen b' = blen b \<and> blob_addr b' = blob_addr b \<and> (\<forall>g. g \<noteq> H_size_dt_strings \<longrightarrow> hdr b' g = hdr b g) \<and>
     hdr b H_size_dt_strings \<le> hdr b' H_size_dt_strings \<and> data_end b' \<le> hdr b H_totalsize \<and> moved b b' 0 40 (data_end b)"

lemma grownD:
  assumes "grown b b'"
  shows "blen b' = blen b" "blob_addr b' = blob_addr b" "g \<noteq> H_size_dt_strings \<Longrightarrow> hdr b' g = hdr b g"
    "hdr b H_size_dt_strings \<le> hdr b' H_size_dt_strings" "data_end b' \<le> hdr b H_totalsize" "moved b b' 0 40 (data_end b)"
  using assms unfolding grown_def by (auto simp: moved_def)

lemma grown_layout:
  assumes b: "layout rs b" "grown b b'"
  shows "layout rs b'"
proof -
  note g = grownD [OF b(2)] and d = layoutD [OF b(1)]
  have v: "hdr b H_version = 17" using b(1) by (simp add: layout_def)
  have "hdr b H_off_dt_struct \<le> data_end b"
    using d(6) hdr_bounds(1) [of b H_size_dt_struct] hdr_bounds(1) [of b H_size_dt_strings] by linarith
  then have "rsv_at b' (hdr b H_off_mem_rsvmap + 0) (rs @ [(0, 0)])"
    by (intro moved_rsv [OF g(6) d(4) _ d(10)]) (use d(12) in simp)
  then show ?thesis using b(1) g(1,2,5) g(3) by (simp add: layout_def searchable_def header_ok_def backed_def Let_def v)
qed

lemma grown_named: "layout rs b \<Longrightarrow> grown b b' \<Longrightarrow> named b no nm \<Longrightarrow> named b' no nm"
proof -
  assume b: "layout rs b" "grown b b'" "named b no nm"
  note g = grownD [OF b(2)] and d = layoutD [OF b(1)]
  have n: "0 \<le> no" "no + cstrlen nm + 1 \<le> hdr b H_size_dt_strings" "0 \<notin> set nm"
    "rd b (hdr b H_off_dt_strings + no) (cstrlen nm + 1) = Some (nm @ [0])" using b(3) by (simp_all add: named_def)
  have "40 \<le> hdr b H_off_dt_strings" using d(4-6) hdr_bounds(1) [of b H_size_dt_struct] by linarith
  then have "rd b' (hdr b H_off_dt_strings + no + 0) (cstrlen nm + 1) = Some (nm @ [0])"
    by (intro moved_rd [OF g(6) _ _ n(4)]) (use n(1,2) in linarith)+
  then show ?thesis using n(1-3) g(3,4) by (simp add: named_def)
qed

lemma grown_denotes: "layout rs b \<Longrightarrow> grown b b' \<Longrightarrow> denotes b t i \<Longrightarrow> denotes b' t i"
  by (cases "(b, t, i)" rule: denotes.cases) (auto intro: grown_named)

lemma grown_node_around:
  assumes "layout rs b" "grown b b'" "node_around b us n ps t vs pre qs rest"
  shows "node_around b' us n ps t vs pre qs rest"
proof -
  note g = grownD [OF assms(2)] and d = layoutD [OF assms(1)] and a = node_aroundD [OF assms(3)]
  note m = grown_denotes [OF assms(1,2)]
  let ?ts = "us @ TBegin n # ps @ t # vs"
  have z: "hdr b H_off_dt_struct + toks_size (?ts @ [TFinish]) \<le> data_end b"
  proof -
    have "hdr b H_size_dt_struct = toks_size (?ts @ [TFinish])" using a(1) by (simp add: struct_items_def)
    then show ?thesis using d(6) hdr_bounds(1) [of b H_size_dt_strings] by linarith
  qed
  have "toks_at b' (hdr b H_off_dt_struct + 0) (?ts @ [TFinish])"
    by (rule moved_toks [OF g(6) _ z]) (use a(1) in \<open>simp_all add: struct_items_def\<close>)
  moreover have "readable b'" using searchableD(2) layoutD(1) [OF grown_layout [OF assms(1,2)]] by blast
  moreover have "list_all2 (denotes b') (live_toks ?ts) (pre @ Begin n # prop_items qs @ rest)"
    using a(1) m unfolding struct_items_def by (blast intro: list_all2_mono)
  ultimately have "struct_items b' ?ts (pre @ Begin n # prop_items qs @ rest)"
    using a(1) g(3,5) by (simp add: struct_items_def)
  then show ?thesis using list_all2_mono [OF a(2) m] props_of_mono [OF m a(3)] a(4) by (simp add: node_around_def)
qed

lemma add_string_spec:
  assumes b: "layout rs b" "0 \<notin> set s" "cstrlen s < 0x7ffffff0"
  shows "\<exists>no alloc b'. rw_find_add_string_i b s = Some (no, alloc, b') \<and>
    (if no < 0 then no = - FDT_ERR_NOSPACE \<and> b' = b \<and> hdr b H_totalsize < data_end b + (cstrlen s + 1)
     else grown b b' \<and> named b' no s \<and> hdr b' H_size_dt_strings = hdr b H_size_dt_strings + (if alloc then cstrlen s + 1 else 0))"
proof -
  note d = layoutD [OF b(1)]
  let ?tab = "hdr b H_off_dt_strings" and ?n = "hdr b H_size_dt_strings" and ?l = "cstrlen s + 1"
  have n: "0 \<le> ?tab" "0 \<le> ?n" by simp_all
  have sn: "s32 ?n = ?n" "s32 ?l = ?l" using d(7,8) n b(3) by (intro s32_id; linarith)+
  have tab40: "40 \<le> ?tab" using d(4-6) hdr_bounds(1) [of b H_size_dt_struct] by linarith
  have dlt: "data_end b \<le> blen b" "data_end b < INT_MAX" using d(7-9) by linarith+
  obtain r where r: "fdt_find_string_i b ?tab ?n s = Some r"
    "case r of NULL \<Rightarrow> True | Ptr q \<Rightarrow> ?tab \<le> q \<and> q + cstrlen s + 1 \<le> ?tab + ?n \<and> rd b q ?l = Some (s @ [0])"
    using find_string_spec [OF n dlt(1)] by blast
  show ?thesis
  proof (cases r)
    case (Ptr q)
    then have q: "?tab \<le> q" "q + cstrlen s + 1 \<le> ?tab + ?n" "rd b q ?l = Some (s @ [0])" using r(2) by auto
    have s: "s32 (q - ?tab) = q - ?tab" using q(1,2) dlt(2) n by (intro s32_id) linarith+
    have nm: "named b (q - ?tab) s" using q b(2) by (simp add: named_def)
    have "grown b b" using d(7) dlt by (simp add: grown_def moved_def)
    then show ?thesis using r(1) Ptr sn s nm q(1) d(2)
      by (intro exI [of _ "q - ?tab"] exI [of _ False] exI [of _ b]) (simp add: rw_find_add_string_i_def)
  next
    case NULL
    note sp = splice_moves [OF b(1), of 0 ?l "data_end b"]
    show ?thesis
    proof (cases "data_end b + ?l > hdr b H_totalsize")
      case True
      then have "fdt_splice_string_i b ?l = Some (- FDT_ERR_NOSPACE, b)"
        using sp tab40 b(3) n d(2) by (simp add: fdt_splice_string_i_def)
      then show ?thesis using r(1) NULL sn True d(2)
        by (intro exI [of _ "- FDT_ERR_NOSPACE"] exI [of _ False] exI [of _ b]) (simp add: rw_find_add_string_i_def)
    next
      case False
      obtain b1 where b1: "fdt_splice_i b (data_end b) 0 ?l = Some (0, b1)" "same_but b b1 (data_end b + ?l) (data_end b - 0 + ?l)"
        using sp tab40 b(3) n False by auto
      have h1: "hdr b1 f = hdr b f" for f by (rule same_but_hdr [OF b1(2)]) (use tab40 n in linarith)
      have l1: "40 \<le> blen b1" using same_butD(1) [OF b1(2)] backedD(1) [OF d(2)] by simp
      have g1: "fdt_get_header b1 H_size_dt_strings = Some ?n" using l1 h1 by (simp add: fdt_get_header_hdr)
      obtain b2 where b2: "fdt_set_header b1 H_size_dt_strings (?n + ?l) = Some b2" "blen b2 = blen b1" "40 \<le> blen b2"
        "blob_addr b2 = blob_addr b1" "\<And>g. hdr b2 g = (if g = H_size_dt_strings then u32 (?n + ?l) else hdr b1 g)" "same_but b1 b2 0 40"
        using set_header_ok [OF l1] by metis
      have bl: "data_end b + ?l \<le> blen b2" using False d(9) b2(2) same_butD(1) [OF b1(2)] by linarith
      obtain b3 where b3: "wr b2 (data_end b) (s @ [0]) = Some b3" "same_but b2 b3 (data_end b) (data_end b + ?l)" "rd b3 (data_end b) ?l = Some (s @ [0])"
        by (rule wr_cstr_ok [of "data_end b" s b2]) (use bl n in auto)
      have h3: "hdr b3 g = hdr b2 g" for g by (rule same_but_hdr [OF b3(2)]) (use tab40 n in linarith)
      have u: "u32 (?n + ?l) = ?n + ?l" "s32 ?n = ?n" by (rule u32_id) (use False d(8) n in linarith, use False d(8) n in linarith, rule sn(1))
      have call: "rw_find_add_string_i b s = Some (?n, True, b3)"
        using r(1) NULL sn d(2) b1(1) g1 b2(1) b3(1) by (simp add: rw_find_add_string_i_def fdt_splice_string_i_def)
      have "ld8 b3 q = ld8 b q" if "40 \<le> q" "q < data_end b" for q
        using that same_butD(3) [OF b1(2), of q] same_butD(3) [OF b2(6), of q] same_butD(3) [OF b3(2), of q] by simp
      then have m: "moved b b3 0 40 (data_end b)"
        using dlt(1) same_butD(1) [OF b1(2)] b2(2) same_butD(1) [OF b3(2)] by (simp add: moved_def)
      have g: "grown b b3" unfolding grown_def
        using m h3 b2(2,4,5) h1 u(1) False same_butD(1,2) [OF b1(2)] same_butD(1,2) [OF b3(2)] by simp
      have "named b3 ?n s" using b3(3) h3 b2(5) h1 u(1) b(2) n by (simp add: named_def)
      then show ?thesis using call g h3 b2(5) u(1) n by auto
    qed
  qed
qed

section \<open>Setting a property\<close>

lemma s32_align: "0 \<le> len \<Longrightarrow> len < 0x40000000 \<Longrightarrow> s32 (FDT_TAGALIGN len) = FDT_TAGALIGN len"
    "0 \<le> len \<Longrightarrow> len < 0x40000000 \<Longrightarrow> s32 (12 + FDT_TAGALIGN len) = 12 + FDT_TAGALIGN len"
    "0 \<le> len \<Longrightarrow> len < 0x40000000 \<Longrightarrow> 0 \<le> FDT_TAGALIGN len \<and> FDT_TAGALIGN len < 0x40000004 \<and> len \<le> FDT_TAGALIGN len"
proof -
  assume a: "0 \<le> len" "len < 0x40000000"
  have b: "len \<le> FDT_TAGALIGN len" "FDT_TAGALIGN len < len + 4" using FDT_TAGALIGN_bounds(1,2) [of len] by auto
  show "s32 (FDT_TAGALIGN len) = FDT_TAGALIGN len" "s32 (12 + FDT_TAGALIGN len) = 12 + FDT_TAGALIGN len"
    "0 \<le> FDT_TAGALIGN len \<and> FDT_TAGALIGN len < 0x40000004 \<and> len \<le> FDT_TAGALIGN len" using a b by (auto intro!: s32_id)
qed

text \<open>A property token is written into a gap: its first and last cells of the header are there, or are written, the length is stored and
  the value is copied.\<close>

lemma prop_filled:
  assumes "spliced b b1 P oldlen (tok_size (TProp no w))" "40 \<le> P" "P + tok_size (TProp no w) \<le> blen b1"
    "fdt32_ld b1 P = Some FDT_PROP" "fdt32_ld b1 (P + 8) = Some no" "int (length w) < 0x40000000"
  shows "\<exists>b2 b3. fdt32_st b1 (P + 4) (int (length w)) = Some b2 \<and> wr b2 (P + 12) w = Some b3 \<and>
    spliced b b3 P oldlen (tok_size (TProp no w)) \<and> toks_at b3 P [TProp no w]"
proof -
  let ?x = "TProp no w"
  have al: "int (length w) \<le> FDT_TAGALIGN (int (length w))" by (rule TAGALIGN_length(1))
  then have sz: "12 + int (length w) \<le> tok_size ?x" by simp
  obtain b2 where b2: "fdt32_st b1 (P + 4) (int (length w)) = Some b2" "same_but b1 b2 (P + 4) (P + 4 + 4)" "fdt32_ld b2 (P + 4) = Some (u32 (int (length w)))"
    using st32_ok [of "P + 4" b1 "int (length w)"] assms(2,3) sz by auto
  obtain b3 where b3: "wr b2 (P + 12) w = Some b3" "same_but b2 b3 (P + 12) (P + 12 + int (length w))" "rd b3 (P + 12) (int (length w)) = Some w"
    using wr_ok [of "P + 12" w b2] assms(2,3) sz same_butD(1) [OF b2(2)] by auto
  have s2: "spliced b b2 P oldlen (tok_size ?x)" by (rule spliced_fill [OF assms(1) b2(2)]) (use assms(2) sz in linarith)+
  have s3: "spliced b b3 P oldlen (tok_size ?x)" by (rule spliced_fill [OF s2 b3(2)]) (use assms(2) sz in linarith)+
  have l: "fdt32_ld b3 (P + i) = fdt32_ld b2 (P + i)" if "i \<le> 8" for i by (rule same_but_ld32 [OF b3(2)]) (use that in linarith)
  have l2: "fdt32_ld b2 P = fdt32_ld b1 P" "fdt32_ld b2 (P + 8) = fdt32_ld b1 (P + 8)" by (rule same_but_ld32 [OF b2(2)]; linarith)+
  have "u32 (int (length w)) = int (length w)" using assms(6) by (intro u32_id) auto
  then have "toks_at b3 P [?x]" using l [of 0] l [of 4] l [of 8] l2 b2(3) b3(3) assms(4,5) by simp
  then show ?thesis using b2(1) b3(1) s3 by blast
qed

text \<open>The result of storing a property: it is there, or there was no space and nothing of the tree has changed.\<close>

definition stored :: "(int \<times> int) list \<Rightarrow> blob \<Rightarrow> int \<Rightarrow> blob \<Rightarrow> tok list \<Rightarrow> cstring \<Rightarrow> tok list \<Rightarrow> tok \<Rightarrow> tok list \<Rightarrow> item list \<Rightarrow>
    (cstring \<times> u8 list) list \<Rightarrow> (cstring \<times> u8 list) list \<Rightarrow> item list \<Rightarrow> int \<Rightarrow> bool" where
  "stored rs b err b' us n ps t vs pre qs qs' rest need \<longleftrightarrow> layout rs b' \<and>
     (if err = 0 then \<exists>ps'. (TNop \<in> set ps' \<longrightarrow> TNop \<in> set ps) \<and> node_around b' us n ps' t vs pre qs' rest
      else err = - FDT_ERR_NOSPACE \<and> hdr b H_totalsize < data_end b + need \<and> hdr b' H_totalsize = hdr b H_totalsize \<and>
        node_around b' us n ps t vs pre qs rest)"

lemma setprop_replaces:
  assumes b: "layout rs b" "node_around b us n ps t vs pre qs rest" "map_of qs s = Some v" "int (length w) < 0x40000000"
  shows "\<exists>err b'. fdt_setprop b (toks_size us) s w (int (length w)) = Some (err, b') \<and>
    stored rs b err b' us n ps t vs pre qs (AList.update s w qs) rest (FDT_TAGALIGN (int (length w)) - FDT_TAGALIGN (int (length v)))"
proof -
  note d = layoutD [OF b(1)]
  obtain p1 no p2 q1 q2 where sp: "ps = p1 @ TProp no v # p2" "qs = q1 @ (s, v) # q2" "props_of b p1 q1" "named b no s" "props_of b p2 q2"
    "s \<notin> fst ` set q1" "AList.update s w qs = q1 @ (s, w) # q2" by (rule props_split [OF node_aroundD(3) [OF b(2)] b(3)])
  let ?us = "us @ TBegin n # p1" and ?x = "TProp no v" and ?y = "TProp no w"
  let ?P = "struct_pos b ?us" and ?lv = "FDT_TAGALIGN (int (length v))" and ?lw = "FDT_TAGALIGN (int (length w))"
  have f: "struct_items b (?us @ ?x # p2 @ t # vs) (pre @ Begin n # prop_items qs @ rest)" using node_aroundD(1) [OF b(2)] sp(1) by simp
  have ni: "node_around b us n (p1 @ [?x] @ p2) t vs pre (q1 @ [(s, v)] @ q2) rest" using b(2) sp(1,2) by simp
  note fit = tok_fits [OF b(1) f]
  have v: "0 \<le> ?lv" "12 + ?lv < 0x7fffffff" using fit(3) TAGALIGN_length(2) [of v] by simp_all
  then have sv: "s32 ?lv = ?lv" by (intro s32_id) linarith+
  note w = s32_align [of "int (length w)", OF _ b(4)]
  note gp = get_property_found [OF b(1) b(2) [unfolded sp(1)] sp(3,4,6)]
  have pp: "hdr b H_off_dt_struct \<le> ?P + 12" "?P + 12 + ?lv \<le> hdr b H_off_dt_struct + hdr b H_size_dt_struct"
    using toks_size_nonneg(1) [of ?us] fit(1) by simp_all
  note sps = splice_struct_spec [OF b(1) v(1) _ _ pp, of ?lw]
  have res: "fdt_setprop b (toks_size us) s w (int (length w)) = (do {
      (err, b) \<leftarrow> fdt_splice_struct_i b (?P + 12) ?lv ?lw;
      if err \<noteq> 0 then Some (err, b)
      else do { b \<leftarrow> fdt32_st b (?P + 4) (int (length w));
           if w \<noteq> [] then do { b \<leftarrow> wr b (?P + 12) w; Some (0, b) } else Some (0, b) } })"
    if "\<And>e b'. fdt_splice_struct_i b (?P + 12) ?lv ?lw = Some (e, b') \<Longrightarrow> e \<noteq> - FDT_ERR_NOTFOUND"
    using that gp rw_probe_ok [OF b(1)] sv w(1)
    by (auto simp: fdt_setprop_def fdt_setprop_placeholder_def fdt_resize_property_i_def bind_assoc split: Option.bind_splits if_splits)
  show ?thesis
  proof (cases "data_end b - ?lv + ?lw > hdr b H_totalsize")
    case True
    then have "fdt_splice_struct_i b (?P + 12) ?lv ?lw = Some (- FDT_ERR_NOSPACE, b)" using sps w(3) by simp
    then show ?thesis using res True b(1,2) by (auto simp: stored_def)
  next
    case False
    then obtain b1 where b1: "fdt_splice_struct_i b (?P + 12) ?lv ?lw = Some (0, b1)" "spliced b b1 (?P + 12) ?lv ?lw" using sps w(3) by auto
    have s1: "spliced b b1 ?P (tok_size ?x) (tok_size ?y)" using spliced_wider [OF b1(2)] by simp
    note m = splicedD(6) [OF b1(2)]
    have "fdt32_ld b1 (?P + 0) = fdt32_ld b ?P" "fdt32_ld b1 (?P + 8 + 0) = fdt32_ld b (?P + 8)"
      by (rule moved_ld32 [OF m]; use fit(4) in simp)+
    moreover have "tok_at b ?P ?x" using f by (simp add: struct_items_def add.assoc)
    ultimately have l: "fdt32_ld b1 ?P = Some FDT_PROP" "fdt32_ld b1 (?P + 8) = Some no" by simp_all
    have bl: "?P + tok_size ?y \<le> blen b1"
    proof -
      have "tok_size ?x = 12 + ?lv" "tok_size ?y = 12 + ?lw" by simp_all
      then show ?thesis using False fit(1) d(6,9) splicedD(1) [OF b1(2)] hdr_bounds(1) [of b H_size_dt_strings] by linarith
    qed
    obtain b2 b3 where b3: "fdt32_st b1 (?P + 4) (int (length w)) = Some b2" "wr b2 (?P + 12) w = Some b3"
      "spliced b b3 ?P (tok_size ?x) (tok_size ?y)" "toks_at b3 ?P [?y]" using prop_filled [OF s1 fit(4) bl l b(4)] by blast
    have w0: "w = [] \<Longrightarrow> b3 = b2" using b3(2) by (auto simp: wr_def split: if_splits)
    have call: "fdt_setprop b (toks_size us) s w (int (length w)) = Some (0, b3)" using res b1(1) b3(1,2) w0 by (cases "w = []") auto
    have "named b3 no s" by (rule spliced_named [OF b3(3) _ sp(4)]) (use fit(1) d(6) in linarith)
    then have e: "layout rs b3" "node_around b3 us n (p1 @ [?y] @ p2) t vs pre (q1 @ [(s, w)] @ q2) rest"
      using node_edit [OF b(1) ni sp(3,5), of b3 "[?y]" "[(s, w)]"] b3(3,4) False by simp_all
    then show ?thesis using call sp(1,7) unfolding stored_def by (intro exI [of _ 0] exI [of _ b3]) (auto intro!: exI [of _ "p1 @ [?y] @ p2"])
  qed
qed

text \<open>The string of a property that did not fit is given back.\<close>

lemma string_removed:
  assumes "layout rs b" "grown b b1" "hdr b1 H_size_dt_strings = hdr b H_size_dt_strings + (cstrlen s + 1)" "cstrlen s < 0x7ffffff0"
  obtains b2 where "rw_del_last_string_i b1 s = Some b2" "grown b b2"
proof -
  note g = grownD [OF assms(2)] and d = layoutD [OF assms(1)]
  have l1: "40 \<le> blen b1" using g(1) backedD(1) [OF d(2)] by simp
  have s: "s32 (cstrlen s + 1) = cstrlen s + 1" using assms(4) by (intro s32_id) linarith+
  obtain b2 where b2: "fdt_set_header b1 H_size_dt_strings (hdr b H_size_dt_strings) = Some b2" "blen b2 = blen b1" "40 \<le> blen b2"
      "blob_addr b2 = blob_addr b1" "\<And>g. hdr b2 g = (if g = H_size_dt_strings then u32 (hdr b H_size_dt_strings) else hdr b1 g)" "same_but b1 b2 0 40"
    using set_header_ok [OF l1] by metis
  have c: "rw_del_last_string_i b1 s = Some b2" using s l1 b2(1) assms(3) by (simp add: rw_del_last_string_i_def fdt_get_header_hdr)
  have "moved b b2 0 40 (data_end b)" using g(6) b2(2) same_butD(3) [OF b2(6)] by (auto simp: moved_def)
  then have "grown b b2" unfolding grown_def using g(1-3) b2(2,4,5) d(7) by simp
  then show ?thesis using that c by blast
qed

lemma st32_fill:
  assumes "spliced b b1 P oldlen k" "40 \<le> P" "P + k \<le> blen b1" "0 \<le> i" "i + 4 \<le> k"
  obtains b2 where "fdt32_st b1 (P + i) v = Some b2" "spliced b b2 P oldlen k" "same_but b1 b2 (P + i) (P + i + 4)" "fdt32_ld b2 (P + i) = Some (u32 v)"
    "blen b2 = blen b1"
proof -
  obtain b2 where b2: "fdt32_st b1 (P + i) v = Some b2" "same_but b1 b2 (P + i) (P + i + 4)" "fdt32_ld b2 (P + i) = Some (u32 v)"
    using st32_ok [of "P + i" b1 v] assms(2-5) by auto
  have "spliced b b2 P oldlen k" by (rule spliced_fill [OF assms(1) b2(2)]) (use assms in linarith)+
  then show ?thesis using that b2 same_butD(1) [OF b2(2)] by blast
qed

lemma named_u32: "layout rs b \<Longrightarrow> named b no s \<Longrightarrow> u32 no = no"
  using layoutD(7,8) [of rs b] hdr_bounds(1) [of b H_off_dt_strings] unfolding named_def by (intro u32_id) linarith+

text \<open>A new property goes in front of the others.\<close>

lemma property_added:
  assumes b: "layout rs b" "node_around b us n ps t vs pre qs rest" "named b no s" "int (length w) < 0x40000000"
  defines "P \<equiv> struct_pos b (us @ [TBegin n])" and "k \<equiv> 12 + FDT_TAGALIGN (int (length w))"
  shows "if data_end b + k > hdr b H_totalsize then fdt_splice_struct_i b P 0 k = Some (- FDT_ERR_NOSPACE, b)
    else \<exists>b1 b2 b3 b4 b5. fdt_splice_struct_i b P 0 k = Some (0, b1) \<and> fdt32_st b1 P FDT_PROP = Some b2 \<and> fdt32_st b2 (P + 8) no = Some b3 \<and>
      fdt32_st b3 (P + 4) (int (length w)) = Some b4 \<and> wr b4 (P + 12) w = Some b5 \<and> layout rs b5 \<and>
      node_around b5 us n (TProp no w # ps) t vs pre ((s, w) # qs) rest"
proof -
  note d = layoutD [OF b(1)] and a = node_aroundD [OF b(2)] and w = s32_align [of "int (length w)", OF _ b(4)]
  let ?y = "TProp no w"
  have ty: "tok_size ?y = k" by (simp add: k_def)
  have k: "0 \<le> k" "k < 0x80000000" "12 \<le> k" using w(3) by (auto simp: k_def)
  have sz: "hdr b H_size_dt_struct = toks_size (us @ [TBegin n]) + toks_size (ps @ t # vs) + 4" using a(1) by (simp add: struct_items_def)
  have p: "hdr b H_off_dt_struct \<le> P" "P + 0 \<le> hdr b H_off_dt_struct + hdr b H_size_dt_struct" "40 \<le> P"
    using sz toks_size_nonneg(1) [of "us @ [TBegin n]"] toks_size_nonneg(1) [of "ps @ t # vs"] d(4,5) unfolding P_def by linarith+
  note sp = splice_struct_spec [OF b(1) order_refl k(1,2) p(1,2)]
  show ?thesis
  proof (cases "data_end b + k > hdr b H_totalsize")
    case True
    then show ?thesis using sp by simp
  next
    case False
    then obtain b1 where b1: "fdt_splice_struct_i b P 0 k = Some (0, b1)" "spliced b b1 P 0 k" using sp by auto
    have bl: "P + k \<le> blen b1" using False p(2) d(6,9) splicedD(1) [OF b1(2)] hdr_bounds(1) [of b H_size_dt_strings] by linarith
    obtain b2 where b2: "fdt32_st b1 (P + 0) FDT_PROP = Some b2" "spliced b b2 P 0 k" "fdt32_ld b2 (P + 0) = Some (u32 FDT_PROP)" "blen b2 = blen b1"
      by (rule st32_fill [OF b1(2) p(3) bl, of 0 FDT_PROP]) (use k(3) in auto)
    obtain b3 where b3: "fdt32_st b2 (P + 8) no = Some b3" "spliced b b3 P 0 k" "same_but b2 b3 (P + 8) (P + 8 + 4)" "fdt32_ld b3 (P + 8) = Some (u32 no)"
        "blen b3 = blen b2"
      by (rule st32_fill [OF b2(2) p(3), of 8 no]) (use k(3) bl b2(4) in auto)
    have l: "fdt32_ld b3 P = Some FDT_PROP" "fdt32_ld b3 (P + 8) = Some no"
      using same_but_ld32 [OF b3(3), of P] b2(3) b3(4) named_u32 [OF b(1,3)] by (simp_all add: u32_def)
    obtain b4 b5 where b5: "fdt32_st b3 (P + 4) (int (length w)) = Some b4" "wr b4 (P + 12) w = Some b5" "spliced b b5 P 0 k" "toks_at b5 P [?y]"
      using prop_filled [of b b3 P 0 no w, unfolded ty, OF b3(2) p(3) _ l b(4)] bl b2(4) b3(5) by auto
    have nm: "named b5 no s" by (rule spliced_named [OF b5(3) _ b(3)]) (use p(2) d(6) in linarith)
    have "layout rs b5" "node_around b5 us n ([] @ [?y] @ ps) t vs pre ([] @ [(s, w)] @ qs) rest"
      using node_edit [OF b(1), of us n "[]" "[]" ps t vs pre "[]" "[]" qs rest b5 "[?y]" "[(s, w)]"] b(2) a(3) b5(3,4) nm False
      unfolding P_def k_def by simp_all
    then show ?thesis using False b1(1) b2(1) b3(1) b5(1,2) by auto
  qed
qed

lemma setprop_adds:
  assumes b: "layout rs b" "node_around b us n ps t vs pre qs rest" "map_of qs s = None" "int (length w) < 0x40000000" "0 \<notin> set s" "cstrlen s < 0x7ffffff0"
  shows "\<exists>err b'. fdt_setprop b (toks_size us) s w (int (length w)) = Some (err, b') \<and>
    stored rs b err b' us n ps t vs pre qs ((s, w) # qs) rest (12 + FDT_TAGALIGN (int (length w)) + cstrlen s + 1)"
proof -
  note d = layoutD [OF b(1)] and a = node_aroundD [OF b(2)] and w = s32_align [of "int (length w)", OF _ b(4)]
  let ?k = "12 + FDT_TAGALIGN (int (length w))" and ?l = "int (length w)"
  have k0: "0 \<le> ?k" using w(3) by simp
  define off where "off = toks_size us + tok_size (TBegin n)"
  have off0: "\<not> off < 0" using toks_size_nonneg(1) [of us] tok_size_ge(1) [of "TBegin n"] by (simp add: off_def)
  have off: "fdt_check_node_offset_i b (toks_size us) = Some off"
    using check_node_offset_in [OF searchableD(2) [OF d(1)], of "toks_size us" n] a(6) by (simp add: off_def)
  have re: "fdt_resize_property_i b (toks_size us) s ?l = Some (- FDT_ERR_NOTFOUND, NULL, b)"
    using get_property_missing [OF b(1-3)] by (simp add: fdt_resize_property_i_def)
  have call: "fdt_setprop b (toks_size us) s w ?l = (do {
      (err, prp, b) \<leftarrow> fdt_add_property_i b (toks_size us) s ?l;
      if err \<noteq> 0 then Some (err, b)
      else (case prp of NULL \<Rightarrow> None | Ptr p \<Rightarrow> if w \<noteq> [] then do { b \<leftarrow> wr b (p + 12) w; Some (0, b) } else Some (0, b)) })"
    using re rw_probe_ok [OF b(1)]
    by (auto simp: fdt_setprop_def fdt_setprop_placeholder_def bind_assoc split: Option.bind_splits ptr.splits if_splits)
  obtain no alloc b1 where s1: "rw_find_add_string_i b s = Some (no, alloc, b1)"
    "if no < 0 then no = - FDT_ERR_NOSPACE \<and> b1 = b \<and> hdr b H_totalsize < data_end b + (cstrlen s + 1)
     else grown b b1 \<and> named b1 no s \<and> hdr b1 H_size_dt_strings = hdr b H_size_dt_strings + (if alloc then cstrlen s + 1 else 0)"
    using add_string_spec [OF b(1,5,6)] by blast
  show ?thesis
  proof (cases "no < 0")
    case True
    then have "fdt_setprop b (toks_size us) s w ?l = Some (- FDT_ERR_NOSPACE, b)"
      using call s1 off off0 by (simp add: fdt_add_property_i_def)
    then show ?thesis using True s1(2) b(1,2) k0 by (auto simp: stored_def)
  next
    case False
    then have g: "grown b b1" and nm: "named b1 no s" and sz: "hdr b1 H_size_dt_strings = hdr b H_size_dt_strings + (if alloc then cstrlen s + 1 else 0)"
      using s1(2) by auto
    note l1 = grown_layout [OF b(1) g] and n1 = grown_node_around [OF b(1) g b(2)]
    define P where "P = struct_pos b1 (us @ [TBegin n])"
    have P: "fdt_offset_ptr_i b1 off = Some P" using layoutD(2) [OF l1] by (simp add: fdt_offset_ptr_i_def P_def off_def)
    note pa = property_added [OF l1 n1 nm b(4), folded P_def]
    have e: "hdr b1 H_totalsize = hdr b H_totalsize" "data_end b1 = data_end b + (if alloc then cstrlen s + 1 else 0)"
      using grownD(3) [OF g] sz by simp_all
    show ?thesis
    proof (cases "data_end b1 + ?k > hdr b1 H_totalsize")
      case True
      then have sp: "fdt_splice_struct_i b1 P 0 ?k = Some (- FDT_ERR_NOSPACE, b1)" using pa by simp
      have "\<exists>b2. fdt_add_property_i b (toks_size us) s ?l = Some (- FDT_ERR_NOSPACE, Ptr P, b2) \<and> grown b b2"
      proof (cases alloc)
        case True
        obtain b2 where "rw_del_last_string_i b1 s = Some b2" "grown b b2" using string_removed [OF b(1) g _ b(6)] sz True by auto
        then show ?thesis using off off0 s1(1) False P sp w(2) True by (simp add: fdt_add_property_i_def)
      next
        case na: False
        then show ?thesis using off off0 s1(1) False P sp w(2) g by (simp add: fdt_add_property_i_def)
      qed
      then obtain b2 where b2: "fdt_add_property_i b (toks_size us) s ?l = Some (- FDT_ERR_NOSPACE, Ptr P, b2)" "grown b b2" by blast
      have "hdr b H_totalsize < data_end b + (?k + cstrlen s + 1)" using True e by (auto split: if_splits)
      then show ?thesis using call b2(1) grown_layout [OF b(1) b2(2)] grown_node_around [OF b(1) b2(2) b(2)] grownD(3) [OF b2(2)] by (auto simp: stored_def)
    next
      case room: False
      then obtain c1 c2 c3 c4 c5 where c: "fdt_splice_struct_i b1 P 0 ?k = Some (0, c1)" "fdt32_st c1 P FDT_PROP = Some c2" "fdt32_st c2 (P + 8) no = Some c3"
        "fdt32_st c3 (P + 4) ?l = Some c4" "wr c4 (P + 12) w = Some c5" "layout rs c5" "node_around c5 us n (TProp no w # ps) t vs pre ((s, w) # qs) rest"
        using pa by auto
      have "fdt_add_property_i b (toks_size us) s ?l = Some (0, Ptr P, c4)"
        using off off0 s1(1) False P c(1-4) w(2) by (simp add: fdt_add_property_i_def)
      moreover have "w = [] \<Longrightarrow> c5 = c4" using c(5) by (auto simp: wr_def split: if_splits)
      ultimately have "fdt_setprop b (toks_size us) s w ?l = Some (0, c5)" using call c(5) by (cases "w = []") auto
      then show ?thesis using c(6,7) unfolding stored_def by (intro exI [of _ 0] exI [of _ c5]) (auto intro!: exI [of _ "TProp no w # ps"])
    qed
  qed
qed

text \<open>The properties of a node as a map that is updated.\<close>

definition put_prop :: "cstring \<Rightarrow> u8 list \<Rightarrow> (cstring \<times> u8 list) list \<Rightarrow> (cstring \<times> u8 list) list" where
  "put_prop s w qs = (if map_of qs s = None then (s, w) # qs else AList.update s w qs)"

lemma map_of_put_prop: "map_of (put_prop s w qs) = (map_of qs)(s \<mapsto> w)"
  by (simp add: put_prop_def update_conv')

section \<open>Trees that are changed at a path\<close>

text \<open>The first child that a name selects is replaced by other entries.\<close>

fun edit_child :: "cstring \<Rightarrow> (cstring \<Rightarrow> entry list \<Rightarrow> entry list) \<Rightarrow> entry list \<Rightarrow> entry list" where
  "edit_child c g [] = []"
| "edit_child c g (EProp n v # es) = EProp n v # edit_child c g es"
| "edit_child c g (ENode n fs # es) = (if name_matches c n then g n fs @ es else ENode n fs # edit_child c g es)"

text \<open>The entries of the node at a path are changed.\<close>

fun edit_tree :: "cstring list \<Rightarrow> (entry list \<Rightarrow> entry list) \<Rightarrow> entry list \<Rightarrow> entry list" where
  "edit_tree [] f es = f es"
| "edit_tree (c # cs) f es = edit_child c (\<lambda>n fs. [ENode n (edit_tree cs f fs)]) es"

lemma find_child_edit:
  "find_child c off es = Some (off', n', fs) \<Longrightarrow>
   \<exists>pre post. flats es = pre @ flat (ENode n' fs) @ post \<and> off' = off + items_size pre \<and>
     (\<forall>g. flats (edit_child c g es) = pre @ flats (g n' fs) @ post)"
proof (induction es arbitrary: off)
  case (Cons e es)
  have step: ?case if a: "find_child c (off + items_size (flat e)) es = Some (off', n', fs)"
    and s: "\<And>g. edit_child c g (e # es) = e # edit_child c g es"
  proof -
    from Cons.IH [OF a] obtain pre post where
      p: "flats es = pre @ flat (ENode n' fs) @ post" "off' = off + items_size (flat e) + items_size pre"
         "\<And>g. flats (edit_child c g es) = pre @ flats (g n' fs) @ post" by blast
    have "flats (e # es) = (flat e @ pre) @ flat (ENode n' fs) @ post" "off' = off + items_size (flat e @ pre)"
      "flats (edit_child c g (e # es)) = (flat e @ pre) @ flats (g n' fs) @ post" for g
      using p(1,2,3) s by simp_all
    then show ?thesis by blast
  qed
  show ?case
  proof (cases e)
    case (ENode m gs)
    show ?thesis
    proof (cases "name_matches c m")
      case True
      then show ?thesis using Cons.prems ENode by (intro exI [of _ "[]"] exI [of _ "flats es"]) auto
    qed (use Cons.prems step ENode in auto)
  qed (use Cons.prems step in simp)
qed simp

lemma walk_tree_edit:
  "walk_tree cs off n es = Some (off', n', fs) \<Longrightarrow>
   \<exists>pre post. flat (ENode n es) = pre @ flat (ENode n' fs) @ post \<and> off' = off + items_size pre \<and>
     (\<forall>f. flat (ENode n (edit_tree cs f es)) = pre @ flat (ENode n' (f fs)) @ post)"
proof (induction cs arbitrary: off n es)
  case Nil
  then show ?case by (intro exI [of _ "[]"] exI [of _ "[]"]) auto
next
  case (Cons c cs)
  obtain o1 n1 f1 where c: "find_child c (off + item_size (Begin n)) es = Some (o1, n1, f1)" "walk_tree cs o1 n1 f1 = Some (off', n', fs)"
    using Cons.prems by (auto split: option.splits)
  obtain p1 q1 where p: "flats es = p1 @ flat (ENode n1 f1) @ q1" "o1 = off + item_size (Begin n) + items_size p1"
    "\<And>g. flats (edit_child c g es) = p1 @ flats (g n1 f1) @ q1" using find_child_edit [OF c(1)] by blast
  obtain p2 q2 where q: "flat (ENode n1 f1) = p2 @ flat (ENode n' fs) @ q2" "off' = o1 + items_size p2"
    "\<And>f. flat (ENode n1 (edit_tree cs f f1)) = p2 @ flat (ENode n' (f fs)) @ q2" using Cons.IH [OF c(2)] by blast
  let ?p = "Begin n # p1 @ p2" and ?q = "q2 @ q1 @ [End]"
  have "flat (ENode n es) = ?p @ flat (ENode n' fs) @ ?q" using p(1) q(1) by simp
  moreover have "off' = off + items_size ?p" using p(2) q(2) by simp
  moreover have "flat (ENode n (edit_tree (c # cs) f es)) = ?p @ flat (ENode n' (f fs)) @ ?q" for f
  proof -
    have "flats (edit_tree (c # cs) f es) = p1 @ flat (ENode n1 (edit_tree cs f f1)) @ q1" using p(3) by simp
    then show ?thesis unfolding q(3) by simp
  qed
  ultimately show ?case by blast
qed

text \<open>The tree that a blob holds.\<close>

definition holds_tree :: "blob \<Rightarrow> (int \<times> int) list \<Rightarrow> entry list \<Rightarrow> bool" where
  "holds_tree b rs es \<longleftrightarrow> layout rs b \<and> (\<exists>ts. TNop \<notin> set ts \<and> struct_items b ts (flat (ENode [] es)))"

lemma holds_tree_reads: "holds_tree b rs es \<Longrightarrow> reads_as b [] es"
  unfolding holds_tree_def using node_reads_as [OF layoutD(1) struct_items_root] by blast

definition with_props :: "(cstring \<times> u8 list) list \<Rightarrow> entry list \<Rightarrow> entry list" where
  "with_props qs fs = map (\<lambda>(n, v). EProp n v) qs @ drop (length (own_props fs)) fs"

lemma flats_with_props: "flats (with_props qs fs) = prop_items qs @ flats (drop (length (own_props fs)) fs)"
proof -
  have "flats (map (\<lambda>(n, v). EProp n v) qs) = prop_items qs" by (induction qs) auto
  then show ?thesis by (simp add: with_props_def)
qed

lemma with_own_props: "with_props (own_props fs) fs = fs"
  by (induction fs rule: own_props.induct) (simp_all add: with_props_def)

lemma own_props_append: "own_props (map (\<lambda>(n, v). EProp n v) qs @ es) = qs @ own_props es"
  by (induction qs) auto

lemma own_props_rest: "own_props (drop (length (own_props fs)) fs) = []"
  by (induction fs rule: own_props.induct) simp_all

lemma own_props_with_props: "own_props (with_props qs fs) = qs"
  by (simp add: with_props_def own_props_append own_props_rest)

lemma rest_ends_props:
  assumes "list_all2 (denotes b) ts (flats (drop (length (own_props fs)) fs) @ End # post)" "TNop \<notin> set ts"
  obtains t vs where "ts = t # vs" "ends_props t"
proof -
  have "\<exists>i is. flats (drop (length (own_props fs)) fs) @ End # post = i # is \<and> (i = End \<or> (\<exists>n. i = Begin n))"
    by (induction fs rule: own_props.induct) auto
  then obtain i "is" where i: "flats (drop (length (own_props fs)) fs) @ End # post = i # is" "i = End \<or> (\<exists>n. i = Begin n)" by blast
  then obtain t vs where t: "ts = t # vs" "denotes b t i" using assms(1) by (auto simp: list_all2_Cons2)
  then have "ends_props t" using i(2) denotes_tagD by fastforce
  then show ?thesis using that t by blast
qed

lemma list_all2_around:
  assumes "list_all2 R ts (pre @ i # qs @ rest)"
  obtains us x ps xs where "ts = us @ x # ps @ xs" "list_all2 R us pre" "R x i" "list_all2 R ps qs" "list_all2 R xs rest"
  using assms by (auto simp: list_all2_append2 list_all2_Cons2)

text \<open>The tokens around a node of the tree, and what a change of the node makes of the items.\<close>

lemma node_place:
  assumes "holds_tree b rs es" "walk_tree cs 0 [] es = Some (off, n, fs)"
  shows "\<exists>us ps t vs pre rest. off = toks_size us \<and> node_around b us n ps t vs pre (own_props fs) rest \<and> TNop \<notin> set (us @ ps @ t # vs) \<and>
    (\<forall>f qs zs. flats (f fs) = prop_items qs @ zs @ flats (drop (length (own_props fs)) fs) \<longrightarrow>
       flat (ENode [] (edit_tree cs f es)) = pre @ Begin n # prop_items qs @ zs @ rest)"
proof -
  obtain ts where ts: "TNop \<notin> set ts" "struct_items b ts (flat (ENode [] es))" using assms(1) by (auto simp: holds_tree_def)
  have fl: "live_toks xs = xs" if "TNop \<notin> set xs" for xs using that by (auto intro: filter_True)
  obtain pre post where w: "flat (ENode [] es) = pre @ flat (ENode n fs) @ post" "off = items_size pre"
    "\<And>f. flat (ENode [] (edit_tree cs f es)) = pre @ flat (ENode n (f fs)) @ post" using walk_tree_edit [OF assms(2)] by auto
  let ?rest = "flats (drop (length (own_props fs)) fs) @ End # post"
  have edit: "flat (ENode [] (edit_tree cs f es)) = pre @ Begin n # prop_items qs @ zs @ ?rest"
    if "flats (f fs) = prop_items qs @ zs @ flats (drop (length (own_props fs)) fs)" for f qs zs
    unfolding w(3) using that by simp
  have node: "flat (ENode n fs) @ post = Begin n # prop_items (own_props fs) @ ?rest"
    using flats_with_props [of "own_props fs" fs] unfolding with_own_props by simp
  have "list_all2 (denotes b) ts (pre @ Begin n # prop_items (own_props fs) @ ?rest)"
    using ts(2) w(1) unfolding node struct_items_def fl [OF ts(1)] by simp
  then obtain us x ps xs where u: "ts = us @ x # ps @ xs" "list_all2 (denotes b) us pre" "denotes b x (Begin n)"
    "list_all2 (denotes b) ps (prop_items (own_props fs))" "list_all2 (denotes b) xs ?rest"
    by (rule list_all2_around)
  have x: "x = TBegin n" using u(3) denotes_tagD by blast
  have nn: "TNop \<notin> set us" "TNop \<notin> set ps" "TNop \<notin> set xs" using ts(1) u(1) by auto
  obtain t vs where t: "xs = t # vs" "ends_props t" by (rule rest_ends_props [OF u(5) nn(3)])
  have na: "node_around b us n ps t vs pre (own_props fs) ?rest"
    using ts(2) u t x nn fl w(1) unfolding node by (simp add: node_around_def props_of_def)
  have "off = toks_size us" "TNop \<notin> set (us @ ps @ t # vs)" using w(2) denotes_items_size [OF u(2)] nn t(1) by simp_all
  then show ?thesis using na edit by blast
qed

text \<open>In particular, changing the properties there changes the tree at the path.\<close>

lemma node_of_tree:
  assumes "holds_tree b rs es" "walk_tree cs 0 [] es = Some (off, n, fs)"
  obtains us ps t vs pre rest where "off = toks_size us" "node_around b us n ps t vs pre (own_props fs) rest" "TNop \<notin> set ps"
    "\<And>b' ps' qs. layout rs b' \<Longrightarrow> TNop \<notin> set ps' \<Longrightarrow> node_around b' us n ps' t vs pre qs rest \<Longrightarrow>
       holds_tree b' rs (edit_tree cs (with_props qs) es)"
proof -
  obtain us ps t vs pre rest where p: "off = toks_size us" "node_around b us n ps t vs pre (own_props fs) rest" "TNop \<notin> set (us @ ps @ t # vs)"
    "\<And>f qs zs. flats (f fs) = prop_items qs @ zs @ flats (drop (length (own_props fs)) fs) \<Longrightarrow>
       flat (ENode [] (edit_tree cs f es)) = pre @ Begin n # prop_items qs @ zs @ rest"
    using node_place [OF assms] by blast
  have "holds_tree b' rs (edit_tree cs (with_props qs) es)"
    if "layout rs b'" "TNop \<notin> set ps'" "node_around b' us n ps' t vs pre qs rest" for b' ps' qs
  proof -
    have "flat (ENode [] (edit_tree cs (with_props qs) es)) = pre @ Begin n # prop_items qs @ [] @ rest"
      by (rule p(4)) (simp add: flats_with_props)
    then have "struct_items b' (us @ TBegin n # ps' @ t # vs) (flat (ENode [] (edit_tree cs (with_props qs) es)))"
      using node_aroundD(1) [OF that(3)] by simp
    moreover have "TNop \<notin> set (us @ TBegin n # ps' @ t # vs)" using that(2) p(3) by simp
    ultimately show ?thesis using that(1) unfolding holds_tree_def by blast
  qed
  then show ?thesis using that p(1-3) by simp
qed

lemma find_child_unedited: "find_child c off es = Some (off', n', fs) \<Longrightarrow> g n' fs = [ENode n' fs] \<Longrightarrow> edit_child c g es = es"
  by (induction c off es rule: find_child.induct) (auto split: if_splits)

lemma edit_same: "walk_tree cs off n es = Some (off', n', fs) \<Longrightarrow> f fs = fs \<Longrightarrow> edit_tree cs f es = es"
proof (induction cs arbitrary: off n es)
  case (Cons c cs)
  obtain o1 n1 f1 where c: "find_child c (off + item_size (Begin n)) es = Some (o1, n1, f1)" "walk_tree cs o1 n1 f1 = Some (off', n', fs)"
    using Cons.prems(1) by (auto split: option.splits)
  show ?case using find_child_unedited [OF c(1)] Cons.IH [OF c(2) Cons.prems(2)] by simp
qed simp

text \<open>The space that setting a property needs.\<close>

definition setprop_need :: "cstring \<Rightarrow> u8 list \<Rightarrow> (cstring \<times> u8 list) list \<Rightarrow> int" where
  "setprop_need s w qs = (case map_of qs s of
     None \<Rightarrow> 12 + FDT_TAGALIGN (int (length w)) + cstrlen s + 1
   | Some v \<Rightarrow> FDT_TAGALIGN (int (length w)) - FDT_TAGALIGN (int (length v)))"

text \<open>Setting a property of the node at a path.\<close>

lemma setprop_node:
  assumes b: "layout rs b" "node_around b us n ps t vs pre qs rest" "int (length w) < 0x40000000" "0 \<notin> set s" "cstrlen s < 0x40000000"
  shows "\<exists>err b'. fdt_setprop b (toks_size us) s w (int (length w)) = Some (err, b') \<and>
    stored rs b err b' us n ps t vs pre qs (put_prop s w qs) rest (setprop_need s w qs)"
proof (cases "map_of qs s")
  case None
  then show ?thesis using setprop_adds [OF b(1,2) None b(3,4)] b(5) by (auto simp: put_prop_def setprop_need_def)
next
  case (Some v)
  then show ?thesis using setprop_replaces [OF b(1,2) Some b(3)] by (auto simp: put_prop_def setprop_need_def)
qed

lemma setprop_tree:
  assumes "holds_tree b rs es" "walk_tree cs 0 [] es = Some (off, n, fs)" "int (length w) < 0x40000000" "0 \<notin> set s" "cstrlen s < 0x40000000"
  shows "\<exists>err b'. fdt_setprop b off s w (int (length w)) = Some (err, b') \<and>
    (if err = 0 then holds_tree b' rs (edit_tree cs (with_props (put_prop s w (own_props fs))) es)
     else err = - FDT_ERR_NOSPACE \<and> holds_tree b' rs es \<and> hdr b' H_totalsize = hdr b H_totalsize \<and>
       hdr b H_totalsize < data_end b + setprop_need s w (own_props fs))"
proof -
  let ?qs = "own_props fs"
  have b: "layout rs b" using assms(1) by (simp add: holds_tree_def)
  obtain us ps t vs pre rest where n: "off = toks_size us" "node_around b us n ps t vs pre ?qs rest" "TNop \<notin> set ps"
    "\<And>b' ps' qs. layout rs b' \<Longrightarrow> TNop \<notin> set ps' \<Longrightarrow> node_around b' us n ps' t vs pre qs rest \<Longrightarrow> holds_tree b' rs (edit_tree cs (with_props qs) es)"
    using node_of_tree [OF assms(1,2)] by metis
  have same: "edit_tree cs (with_props ?qs) es = es" by (rule edit_same [OF assms(2)]) (rule with_own_props)
  obtain err b' where r: "fdt_setprop b off s w (int (length w)) = Some (err, b')"
    "stored rs b err b' us n ps t vs pre ?qs (put_prop s w ?qs) rest (setprop_need s w ?qs)"
    using setprop_node [OF b n(2) assms(3-5)] n(1) by auto
  show ?thesis
  proof (cases "err = 0")
    case True
    then obtain ps' where "layout rs b'" "TNop \<notin> set ps'" "node_around b' us n ps' t vs pre (put_prop s w ?qs) rest"
      using r(2) n(3) by (auto simp: stored_def)
    then show ?thesis using r(1) n(4) True by auto
  next
    case False
    then have e: "layout rs b'" "err = - FDT_ERR_NOSPACE" "hdr b H_totalsize < data_end b + setprop_need s w ?qs"
      "node_around b' us n ps t vs pre ?qs rest" "hdr b' H_totalsize = hdr b H_totalsize" using r(2) by (simp_all add: stored_def)
    have "holds_tree b' rs es" using n(4) [OF e(1) n(3) e(4)] unfolding same .
    then show ?thesis using r(1) e(2,3,5) by auto
  qed
qed

text \<open>Deleting a property of the node at a path.\<close>

lemma delprop_tree:
  assumes "holds_tree b rs es" "walk_tree cs 0 [] es = Some (off, n, fs)"
  shows "case map_of (own_props fs) s of
      None \<Rightarrow> fdt_delprop b off s = Some (- FDT_ERR_NOTFOUND, b)
    | Some v \<Rightarrow> \<exists>b'. fdt_delprop b off s = Some (0, b') \<and> hdr b' H_totalsize = hdr b H_totalsize \<and>
        holds_tree b' rs (edit_tree cs (with_props (delete_first s (own_props fs))) es)"
proof -
  have b: "layout rs b" using assms(1) by (simp add: holds_tree_def)
  obtain us ps t vs pre rest where n: "off = toks_size us" "node_around b us n ps t vs pre (own_props fs) rest" "TNop \<notin> set ps"
    "\<And>b' ps' qs. layout rs b' \<Longrightarrow> TNop \<notin> set ps' \<Longrightarrow> node_around b' us n ps' t vs pre qs rest \<Longrightarrow> holds_tree b' rs (edit_tree cs (with_props qs) es)"
    using node_of_tree [OF assms] by metis
  show ?thesis
  proof (cases "map_of (own_props fs) s")
    case None
    then show ?thesis using delprop_spec [OF b n(2), of s] n(1) by simp
  next
    case (Some v)
    then obtain b' ps' where "fdt_delprop b off s = Some (0, b')" "hdr b' H_totalsize = hdr b H_totalsize" "layout rs b'" "TNop \<notin> set ps'"
      "node_around b' us n ps' t vs pre (delete_first s (own_props fs)) rest"
      using delprop_spec [OF b n(2), of s] n(1,3) by auto
    then show ?thesis using n(4) Some by auto
  qed
qed

lemma get_property_tree:
  assumes "holds_tree b rs es" "walk_tree cs 0 [] es = Some (off, n, fs)"
  shows "case map_of (own_props fs) s of
      None \<Rightarrow> fdt_get_property b off s = Some (NULL, - FDT_ERR_NOTFOUND)
    | Some v \<Rightarrow> \<exists>p. fdt_get_property b off s = Some (Ptr p, int (length v))"
proof -
  have b: "layout rs b" using assms(1) by (simp add: holds_tree_def)
  obtain us ps t vs pre rest where n: "off = toks_size us" "node_around b us n ps t vs pre (own_props fs) rest"
    using node_place [OF assms] by blast
  show ?thesis
  proof (cases "map_of (own_props fs) s")
    case None
    then show ?thesis using get_property_missing [OF b n(2) None] n(1) by simp
  next
    case (Some v)
    obtain p1 no p2 q1 q2 where sp: "ps = p1 @ TProp no v # p2" "props_of b p1 q1" "named b no s" "s \<notin> fst ` set q1"
      by (rule props_split [OF node_aroundD(3) [OF n(2)] Some])
    then show ?thesis using get_property_found [OF b n(2) [unfolded sp(1)] sp(2-4)] n(1) Some by simp
  qed
qed

section \<open>The property functions on trees\<close>

text \<open>A root with the property \<open>reg\<close> and a node \<open>a\<close>, in a blob with \<open>k\<close> bytes of free space.\<close>

abbreviation file_blob :: "u8 list \<Rightarrow> blob" where
  "file_blob bytes \<equiv> \<lparr>blob_addr = 0, blob_mem = bytes\<rparr>"

definition sample_rw :: "nat \<Rightarrow> u8 list" where
  "sample_rw k = concat (map bytes32 [0xd00dfeed, 104 + int k, 56, 100, 40, 17, 16, 0, 4, 44, 0, 0, 0, 0, 1, 0, 3, 4, 0, 0x11223344, 1, 0x61000000, 2, 2, 9]) @
     cstr ''reg'' @ [0] @ replicate k 0"

definition rw_tree :: "entry list" where
  "rw_tree = [EProp (cstr ''reg'') [0x11, 0x22, 0x33, 0x44], ENode (cstr ''a'') []]"

lemma sample_holds: "holds_tree (file_blob (sample_rw 0)) [] rw_tree" "holds_tree (file_blob (sample_rw 32)) [] rw_tree"
proof -
  let ?ts = "[TBegin [], TProp 0 [0x11, 0x22, 0x33, 0x44], TBegin (cstr ''a''), TEnd, TEnd]"
  have "layout [] (file_blob (sample_rw 0))" "layout [] (file_blob (sample_rw 32))" by code_simp+
  moreover have "struct_items (file_blob (sample_rw 0)) ?ts (flat (ENode [] rw_tree))" "struct_items (file_blob (sample_rw 32)) ?ts (flat (ENode [] rw_tree))"
    by code_simp+
  ultimately show "holds_tree (file_blob (sample_rw 0)) [] rw_tree" "holds_tree (file_blob (sample_rw 32)) [] rw_tree"
    unfolding holds_tree_def by (intro conjI exI [of _ ?ts]; simp)+
qed

text \<open>C14: \<open>fdt_setprop\<close> and \<open>fdt_delprop\<close> refine the operations on trees. On a blob that holds a tree and a reserve map, at the offset
  \<open>fdt_path_offset\<close> returns for a path, \<open>fdt_setprop\<close> either succeeds, and the blob holds the tree in which this one node has the new value
  in place of the old one, or as its first property if there was none, or returns \<open>-FDT_ERR_NOSPACE\<close>, only if the free space is less
  than what the value and a new name need, and then the blob still holds the old tree. \<open>fdt_delprop\<close> takes the property out, or returns
  \<open>-FDT_ERR_NOTFOUND\<close> and changes nothing. The reserve map stays.\<close>

theorem property_functions_refine:
  assumes "holds_tree b rs es" "walk_tree (components path) 0 [] es = Some (off, n, fs)"
    and "int (length w) < 0x40000000" "0 \<notin> set s" "cstrlen s < 0x40000000"
  shows "fdt_path_offset b (chr (CHR ''/'') # path) = Some off \<and>
    (\<exists>err b'. fdt_setprop b off s w (int (length w)) = Some (err, b') \<and>
       (if err = 0 then holds_tree b' rs (edit_tree (components path) (with_props (put_prop s w (own_props fs))) es)
        else err = - FDT_ERR_NOSPACE \<and> holds_tree b' rs es \<and> hdr b H_totalsize < data_end b + setprop_need s w (own_props fs))) \<and>
    (case map_of (own_props fs) s of
       None \<Rightarrow> fdt_delprop b off s = Some (- FDT_ERR_NOTFOUND, b)
     | Some v \<Rightarrow> \<exists>b'. fdt_delprop b off s = Some (0, b') \<and>
         holds_tree b' rs (edit_tree (components path) (with_props (delete_first s (own_props fs))) es))"
proof -
  have "fdt_path_offset b (chr (CHR ''/'') # path) = Some off"
    using reads_asD(1) [OF holds_tree_reads [OF assms(1)], of path] assms(2) by (simp add: child_offset_def)
  moreover have "\<exists>err b'. fdt_setprop b off s w (int (length w)) = Some (err, b') \<and>
       (if err = 0 then holds_tree b' rs (edit_tree (components path) (with_props (put_prop s w (own_props fs))) es)
        else err = - FDT_ERR_NOSPACE \<and> holds_tree b' rs es \<and> hdr b H_totalsize < data_end b + setprop_need s w (own_props fs))"
    using setprop_tree [OF assms] by (auto split: if_splits)
  moreover have "case map_of (own_props fs) s of
       None \<Rightarrow> fdt_delprop b off s = Some (- FDT_ERR_NOTFOUND, b)
     | Some v \<Rightarrow> \<exists>b'. fdt_delprop b off s = Some (0, b') \<and>
         holds_tree b' rs (edit_tree (components path) (with_props (delete_first s (own_props fs))) es)"
    using delprop_tree [OF assms(1,2), of s] by (auto split: option.splits)
  ultimately show ?thesis by blast
qed

theorem property_functions_refine_witness:
  "(\<exists>b'. fdt_setprop (file_blob (sample_rw 32)) 0 (cstr ''reg'') [1, 2] 2 = Some (0, b') \<and>
      holds_tree b' [] [EProp (cstr ''reg'') [1, 2], ENode (cstr ''a'') []]) \<and>
   (\<exists>b'. fdt_delprop (file_blob (sample_rw 32)) 0 (cstr ''reg'') = Some (0, b') \<and> holds_tree b' [] [ENode (cstr ''a'') []])"
proof -
  let ?b = "file_blob (sample_rw 32)" and ?s = "cstr ''reg''"
  have w: "walk_tree (components []) 0 [] rw_tree = Some (0, [], rw_tree)" by code_simp
  have m: "map_of (own_props rw_tree) ?s = Some [0x11, 0x22, 0x33, 0x44]"
    "edit_tree (components []) (with_props (put_prop ?s [1, 2] (own_props rw_tree))) rw_tree = [EProp ?s [1, 2], ENode (cstr ''a'') []]"
    "edit_tree (components []) (with_props (delete_first ?s (own_props rw_tree))) rw_tree = [ENode (cstr ''a'') []]" by code_simp+
  have n: "\<not> hdr ?b H_totalsize < data_end ?b + setprop_need ?s [1, 2] (own_props rw_tree)" by code_simp
  have z: "0 \<notin> set ?s" "cstrlen ?s < 0x40000000" by code_simp+
  show ?thesis using property_functions_refine [OF sample_holds(2) w _ z, of "[1, 2]"] m n by (auto split: if_splits)
qed

end
