(* ===== verification/Fdt_Rw_Nodes.thy ===== *)
theory Fdt_Rw_Nodes
  imports Fdt_Rw_Props
begin

text \<open>
  The node functions of \<^verbatim>\<open>libfdt/fdt_rw.c\<close> as operations on trees: \<open>fdt_del_node\<close> takes the node out of the tree
  (\<open>del_node_tree\<close>), \<open>fdt_add_subnode\<close> puts an empty node in front of the subnodes that are there (\<open>add_subnode_tree\<close>).
\<close>

section \<open>The end of a node\<close>

text \<open>The search of \<open>fdt_node_end_offset_\<close>, over the tokens behind the node's name: \<open>d\<close> nodes are open below it.\<close>

fun node_end :: "int \<Rightarrow> int \<Rightarrow> tok list \<Rightarrow> int" where
  "node_end off d [] = - FDT_ERR_NOTFOUND"
| "node_end off d (TBegin n # ts) = node_end (off + tok_size (TBegin n)) (d + 1) ts"
| "node_end off d (TEnd # ts) = (if d = 0 then off + 4 else node_end (off + 4) (d - 1) ts)"
| "node_end off d (t # ts) = node_end (off + tok_size t) d ts"

definition end_search :: "blob \<Rightarrow> (int \<times> int option) option \<Rightarrow> int option" where
  "end_search b r = do {
     (off, d) \<leftarrow> r;
     (case d of None \<Rightarrow> None | Some d \<Rightarrow> node_end_offset_loop b off d) }"

lemma end_search_toks:
  assumes b: "searchable b" and ts: "toks_in b off (ts @ [TFinish])" "TFinish \<notin> set ts" and d: "0 \<le> d" "4 * d \<le> off"
  shows "end_search b (fdt_next_node_loop b off (Some d)) = Some (node_end off d ts)"
  using ts d
proof (induction ts arbitrary: off d)
  case Nil
  then have "fdt_next_tag b off = Some (FDT_END, off + 4)" "0 \<le> off"
    using next_tag_in [OF searchableD(2) [OF b], of off TFinish] by (auto simp: tok_in_def)
  then show ?case
    using Nil.prems(3)
    by (subst fdt_next_node_loop.simps) (simp add: end_search_def node_end_offset_loop.simps [of b "- 1"])
next
  case (Cons t ts)
  note rb = searchableD(2) [OF b]
  have t: "tok_in b off t" and ts: "toks_in b (off + tok_size t) (ts @ [TFinish])" using Cons.prems(1) by simp_all
  note tb = tok_in_bounds [OF rb t] and sz = tok_size_ge(1) [of t] and nx = next_tag_in [OF rb t]
  have IH: "end_search b (fdt_next_node_loop b (off + tok_size t) (Some d')) = Some (node_end (off + tok_size t) d' ts)"
    if "0 \<le> d'" "d' \<le> d + 1" for d'
    using that ts Cons.prems sz by (intro Cons.IH) auto
  have s: "s32 (d + 1) = d + 1" "s32 (d - 1) = d - 1" using Cons.prems(3,4) tb(2) by (intro s32_id; linarith)+
  show ?case
  proof (cases t)
    case (TBegin n)
    have "fdt_next_node b off (Some (d + 1)) = fdt_next_node_loop b (off + tok_size t) (Some (d + 1))"
      using check_node_offset_in [OF rb t [unfolded TBegin]] TBegin tb(1) sz by (simp add: fdt_next_node_def)
    then have "node_end_offset_loop b off (d + 1) = end_search b (fdt_next_node_loop b (off + tok_size t) (Some (d + 1)))"
      using tb(1) Cons.prems(3) by (subst node_end_offset_loop.simps) (auto simp: end_search_def)
    moreover have "fdt_next_node_loop b off (Some d) = Some (off, Some (d + 1))"
      using nx TBegin s by (subst fdt_next_node_loop.simps) simp
    ultimately show ?thesis using IH [of "d + 1"] Cons.prems(3) TBegin by (simp add: end_search_def)
  next
    case TEnd
    have "end_search b (fdt_next_node_loop b off (Some d)) =
      (if d = 0 then node_end_offset_loop b (off + 4) (- 1) else end_search b (fdt_next_node_loop b (off + 4) (Some (d - 1))))"
      using nx TEnd s Cons.prems(3) by (subst fdt_next_node_loop.simps) (auto simp: end_search_def)
    then show ?thesis
      using IH [of "d - 1"] Cons.prems(3) TEnd by (simp add: node_end_offset_loop.simps [of b "off + 4" "- 1"])
  next
    case TFinish
    then show ?thesis using Cons.prems(2) by simp
  qed (use nx IH [of d] Cons.prems(3) in \<open>subst fdt_next_node_loop.simps, simp\<close>)+
qed

text \<open>The tokens of whole entries are passed over.\<close>

lemma node_end_list:
  assumes "\<And>e ts off rest. e \<in> set es \<Longrightarrow> list_all2 (denotes b) ts (flat e) \<Longrightarrow> node_end off d (ts @ rest) = node_end (off + toks_size ts) d rest"
    and "list_all2 (denotes b) us (flats es)"
  shows "node_end off d (us @ rest) = node_end (off + toks_size us) d rest"
  using assms
proof (induction es arbitrary: off us)
  case (Cons f fs)
  then obtain u1 u2 where u: "us = u1 @ u2" "list_all2 (denotes b) u1 (flat f)" "list_all2 (denotes b) u2 (flats fs)"
    by (auto simp: list_all2_append2)
  have "node_end off d (u1 @ u2 @ rest) = node_end (off + toks_size u1) d (u2 @ rest)" by (rule Cons.prems(1) [OF _ u(2)]) simp
  also have "\<dots> = node_end (off + toks_size u1 + toks_size u2) d rest" by (rule Cons.IH [OF Cons.prems(1) u(3)]) simp_all
  finally show ?case using u(1) by (simp add: add.assoc)
qed simp

lemma node_toks:
  assumes "list_all2 (denotes b) ts (flat (ENode n es))"
  obtains us where "ts = TBegin n # us @ [TEnd]" "list_all2 (denotes b) us (flats es)"
  using assms denotes_tagD by (auto simp: list_all2_append2 list_all2_Cons2)

lemma node_end_flat:
  "list_all2 (denotes b) ts (flat e) \<Longrightarrow> 0 \<le> d \<Longrightarrow> node_end off d (ts @ rest) = node_end (off + toks_size ts) d rest"
proof (induction e arbitrary: off d ts rest)
  case (EProp n v)
  then obtain no where "ts = [TProp no v]" by (cases "hd ts") (auto simp: list_all2_Cons2)
  then show ?case by simp
next
  case (ENode n fs)
  obtain us where us: "ts = TBegin n # us @ [TEnd]" "list_all2 (denotes b) us (flats fs)" by (rule node_toks [OF ENode.prems(1)])
  have "node_end off' (d + 1) (us @ TEnd # rest) = node_end (off' + toks_size us) (d + 1) (TEnd # rest)" for off'
    by (rule node_end_list [OF ENode.IH us(2)]) (use ENode.prems(2) in simp_all)
  then show ?case using us(1) ENode.prems(2) by (simp add: add.assoc)
qed

lemma node_end_offset_in:
  assumes b: "searchable b" and ts: "toks_in b off (ts @ rest @ [TFinish])" "list_all2 (denotes b) ts (flat (ENode n es))" "TFinish \<notin> set rest"
  shows "fdt_node_end_offset_i b off = Some (off + toks_size ts)"
proof -
  note rb = searchableD(2) [OF b]
  obtain us where us: "ts = TBegin n # us @ [TEnd]" "list_all2 (denotes b) us (flats es)" by (rule node_toks [OF ts(2)])
  have nf: "TFinish \<notin> set us" using list_all2_member [OF us(2), of TFinish] by auto
  let ?off = "off + tok_size (TBegin n)"
  have t: "tok_in b off (TBegin n)" "toks_in b ?off ((us @ TEnd # rest) @ [TFinish])" using ts(1) us(1) by simp_all
  note tb = tok_in_bounds [OF rb t(1)] and sz = tok_size_ge(1) [of "TBegin n"]
  have "fdt_next_node b off (Some 0) = fdt_next_node_loop b ?off (Some 0)"
    using check_node_offset_in [OF rb t(1)] tb(1) sz by (simp add: fdt_next_node_def)
  then have "fdt_node_end_offset_i b off = end_search b (fdt_next_node_loop b ?off (Some 0))"
    using tb(1) unfolding fdt_node_end_offset_i_def by (subst node_end_offset_loop.simps) (auto simp: end_search_def)
  also have "\<dots> = Some (node_end ?off 0 (us @ TEnd # rest))"
    by (rule end_search_toks [OF b t(2)]) (use nf ts(3) tb(1) sz in simp_all)
  also have "node_end ?off 0 (us @ TEnd # rest) = node_end (?off + toks_size us) 0 (TEnd # rest)"
    by (rule node_end_list [OF node_end_flat us(2)]) simp_all
  finally show ?thesis using us(1) by (simp add: add.assoc)
qed

section \<open>Deleting a node\<close>

lemma walk_tree_snoc:
  "walk_tree (cs @ [c]) off n es = (case walk_tree cs off n es of None \<Rightarrow> None
     | Some (off', n', fs) \<Rightarrow> find_child c (off' + item_size (Begin n')) fs)"
  by (induction cs arbitrary: off n es) (auto split: option.splits)

lemma walk_tree_edit_child:
  assumes "walk_tree (cs @ [c]) off n es = Some (off', n', fs)"
  shows "\<exists>pre post. flat (ENode n es) = pre @ flat (ENode n' fs) @ post \<and> off' = off + items_size pre \<and>
    (\<forall>g. flat (ENode n (edit_tree cs (edit_child c g) es)) = pre @ flats (g n' fs) @ post)"
proof -
  obtain o1 n1 f1 where w: "walk_tree cs off n es = Some (o1, n1, f1)" "find_child c (o1 + item_size (Begin n1)) f1 = Some (off', n', fs)"
    using assms by (auto simp: walk_tree_snoc split: option.splits)
  obtain p1 q1 where p: "flat (ENode n es) = p1 @ flat (ENode n1 f1) @ q1" "o1 = off + items_size p1"
    "\<And>f. flat (ENode n (edit_tree cs f es)) = p1 @ flat (ENode n1 (f f1)) @ q1" using walk_tree_edit [OF w(1)] by blast
  obtain p2 q2 where q: "flats f1 = p2 @ flat (ENode n' fs) @ q2" "off' = o1 + item_size (Begin n1) + items_size p2"
    "\<And>g. flats (edit_child c g f1) = p2 @ flats (g n' fs) @ q2" using find_child_edit [OF w(2)] by blast
  let ?p = "p1 @ Begin n1 # p2" and ?q = "q2 @ End # q1"
  have "flat (ENode n es) = ?p @ flat (ENode n' fs) @ ?q" "off' = off + items_size ?p" using p(1,2) q(1,2) by simp_all
  moreover have "flat (ENode n (edit_tree cs (edit_child c g) es)) = ?p @ flats (g n' fs) @ ?q" for g
    unfolding p(3) by (simp add: q(3))
  ultimately show ?thesis by blast
qed

text \<open>The tree without the node at a path.\<close>

abbreviation remove_node :: "cstring list \<Rightarrow> cstring \<Rightarrow> entry list \<Rightarrow> entry list" where
  "remove_node cs c \<equiv> edit_tree cs (edit_child c (\<lambda>_ _. []))"

lemma del_node_tree:
  assumes b: "holds_tree b rs es" "walk_tree (cs @ [c]) 0 [] es = Some (off, n, fs)"
  shows "\<exists>b'. fdt_del_node b off = Some (0, b') \<and> hdr b' H_totalsize = hdr b H_totalsize \<and> holds_tree b' rs (remove_node cs c es)"
proof -
  have l: "layout rs b" using b(1) by (simp add: holds_tree_def)
  note d = layoutD [OF l]
  obtain ts where ts: "TNop \<notin> set ts" "struct_items b ts (flat (ENode [] es))" using b(1) by (auto simp: holds_tree_def)
  have live: "live_toks xs = xs" if "TNop \<notin> set xs" for xs using that by (auto intro: filter_True)
  obtain pre post where w: "flat (ENode [] es) = pre @ flat (ENode n fs) @ post" "off = 0 + items_size pre"
    "\<And>g. flat (ENode [] (edit_tree cs (edit_child c g) es)) = pre @ flats (g n fs) @ post" using walk_tree_edit_child [OF b(2)] by blast
  have "list_all2 (denotes b) ts (pre @ flat (ENode n fs) @ post)"
    using ts(2) unfolding struct_items_def live [OF ts(1)] w(1) by simp
  then obtain us mid vs where u: "ts = us @ mid @ vs" "list_all2 (denotes b) us pre" "list_all2 (denotes b) mid (flat (ENode n fs))"
    "list_all2 (denotes b) vs post" by (auto simp: list_all2_append2 simp del: flat.simps)
  have o: "off = toks_size us" using w(2) denotes_items_size [OF u(2)] by simp
  have nf: "TFinish \<notin> set vs" using list_all2_member [OF u(4), of TFinish] by auto
  have si: "struct_items b (us @ mid @ vs) (flat (ENode [] es))" using ts(2) u(1) by simp
  have "toks_in b (toks_size us) (mid @ vs @ [TFinish])" using struct_items_toks_in [OF si] by simp
  then have e: "fdt_node_end_offset_i b off = Some (off + toks_size mid)" using node_end_offset_in [OF d(1) _ u(3) nf] o by simp
  have z: "0 \<le> toks_size us" "0 \<le> toks_size mid" "0 \<le> toks_size vs" by (rule toks_size_nonneg(1))+
  have call: "fdt_del_node b off = fdt_splice_struct_i b (struct_pos b us) (toks_size mid) 0"
    using e z o rw_probe_ok [OF l] d(2) by (simp add: fdt_del_node_def FDT_RW_PROBE_def fdt_offset_ptr_i_def)
  have "hdr b H_size_dt_struct = toks_size us + toks_size mid + toks_size vs + 4" using si by (simp add: struct_items_def)
  then have p: "hdr b H_off_dt_struct \<le> struct_pos b us" "struct_pos b us + toks_size mid \<le> hdr b H_off_dt_struct + hdr b H_size_dt_struct"
    using z by linarith+
  have le: "data_end b - toks_size mid + 0 \<le> hdr b H_totalsize" using d(7) z(2) by linarith
  then obtain b' where b': "fdt_splice_struct_i b (struct_pos b us) (toks_size mid) 0 = Some (0, b')" "spliced b b' (struct_pos b us) (toks_size mid) 0"
    using splice_struct_spec [OF l z(2) order_refl _ p] by auto
  have "struct_pos b us + toks_size mid \<le> hdr b H_off_dt_strings" using p(2) d(6) by linarith
  note m = spliced_denotes [OF b'(2) this]
  have "list_all2 (denotes b') (us @ vs) (pre @ post)" using list_all2_mono [OF u(2) m] list_all2_mono [OF u(4) m] by (simp add: list_all2_appendI)
  moreover have nn: "TNop \<notin> set (us @ vs)" using ts(1) u(1) by auto
  ultimately have den: "list_all2 (denotes b') (live_toks (us @ [] @ vs)) (flat (ENode [] (remove_node cs c es)))"
    unfolding w(3) using live [OF nn] by simp
  have "layout rs b'" "struct_items b' (us @ [] @ vs) (flat (ENode [] (remove_node cs c es)))"
    using toks_replaced [OF l si, of b' "[]", OF _ _ _ den] b'(2) le by simp_all
  then show ?thesis using call b'(1) nn splicedD(5) [OF b'(2)] unfolding holds_tree_def by (auto intro!: exI [of _ "us @ vs"])
qed

section \<open>Adding a node\<close>

lemma skip_properties_in:
  "readable b \<Longrightarrow> toks_in b off (ps @ [t]) \<Longrightarrow> props_of b ps qs \<Longrightarrow> ends_props t \<Longrightarrow> skip_properties b off = Some (off + toks_size ps)"
proof (induction ps arbitrary: off qs)
  case Nil
  then show ?case using next_tag_in [of b off t] by (cases t; subst skip_properties.simps) auto
next
  case (Cons u ps)
  have u: "tok_in b off u" "toks_in b (off + tok_size u) (ps @ [t])" using Cons.prems(2) by simp_all
  obtain qs' where q: "props_of b ps qs'" "tok_tag u = FDT_PROP \<or> tok_tag u = FDT_NOP" by (rule props_of_cases [OF Cons.prems(3)]) auto
  have "skip_properties b off = skip_properties b (off + tok_size u)"
    using next_tag_in [OF Cons.prems(1) u(1)] q(2) by (subst skip_properties.simps) auto
  then show ?case using Cons.IH [OF Cons.prems(1) u(2) q(1) Cons.prems(4)] by (simp add: add.assoc)
qed

text \<open>A node without properties is written into a gap.\<close>

lemma node_filled:
  assumes "spliced b b1 P oldlen k" "40 \<le> P" "P + k \<le> blen b1" "0 \<notin> set s" and k: "k = 8 + FDT_TAGALIGN (cstrlen s + 1)"
  shows "\<exists>b2 b3 b4 b5. fdt32_st b1 P FDT_BEGIN_NODE = Some b2 \<and> memset b2 (P + 4) 0 (FDT_TAGALIGN (cstrlen s + 1)) = Some b3 \<and>
    wr b3 (P + 4) s = Some b4 \<and> fdt32_st b4 (P + k - 4) FDT_END_NODE = Some b5 \<and>
    spliced b b5 P oldlen k \<and> toks_at b5 P [TBegin s, TEnd]"
proof -
  let ?a = "FDT_TAGALIGN (cstrlen s + 1)"
  have a: "cstrlen s + 1 \<le> ?a" "0 \<le> ?a" using TAGALIGN_length(3) [of s] by simp_all
  obtain b2 where b2: "fdt32_st b1 P FDT_BEGIN_NODE = Some b2" "same_but b1 b2 P (P + 4)" "fdt32_ld b2 P = Some (u32 FDT_BEGIN_NODE)"
    using st32_ok [of P b1 FDT_BEGIN_NODE] assms(2,3) a k by auto
  have l2: "blen b2 = blen b1" by (rule same_butD(1) [OF b2(2)])
  let ?z = "replicate (nat ?a) (0 :: u8)"
  have lz: "int (length ?z) = ?a" using a(2) by simp
  obtain b3 where b3: "wr b2 (P + 4) ?z = Some b3" "same_but b2 b3 (P + 4) (P + 4 + ?a)" "rd b3 (P + 4) ?a = Some ?z"
    using wr_ok [of "P + 4" ?z b2, unfolded lz] assms(2,3) k l2 by auto
  have l3: "blen b3 = blen b2" by (rule same_butD(1) [OF b3(2)])
  obtain b4 where b4: "wr b3 (P + 4) s = Some b4" "same_but b3 b4 (P + 4) (P + 4 + cstrlen s)" "rd b4 (P + 4) (cstrlen s) = Some s"
    using wr_ok [of "P + 4" s b3] assms(2,3) k l2 l3 a by auto
  have l4: "blen b4 = blen b3" by (rule same_butD(1) [OF b4(2)])
  obtain b5 where b5: "fdt32_st b4 (P + k - 4) FDT_END_NODE = Some b5" "same_but b4 b5 (P + k - 4) (P + k - 4 + 4)" "fdt32_ld b5 (P + k - 4) = Some (u32 FDT_END_NODE)"
    using st32_ok [of "P + k - 4" b4 FDT_END_NODE] assms(2,3) a k l2 l3 l4 by auto
  have s2: "spliced b b2 P oldlen k" by (rule spliced_fill [OF assms(1) b2(2)]) (use assms(2) a k in linarith)+
  have s3: "spliced b b3 P oldlen k" by (rule spliced_fill [OF s2 b3(2)]) (use assms(2) a k in linarith)+
  have s4: "spliced b b4 P oldlen k" by (rule spliced_fill [OF s3 b4(2)]) (use assms(2) a k in linarith)+
  have s5: "spliced b b5 P oldlen k" by (rule spliced_fill [OF s4 b5(2)]) (use assms(2) a k in linarith)+
  have "fdt32_ld b5 P = fdt32_ld b4 P" "fdt32_ld b4 P = fdt32_ld b3 P" "fdt32_ld b3 P = fdt32_ld b2 P"
    using same_but_ld32 [OF b5(2), of P] same_but_ld32 [OF b4(2), of P] same_but_ld32 [OF b3(2), of P] a k by simp_all
  then have bn: "fdt32_ld b5 P = Some FDT_BEGIN_NODE" using b2(3) by (simp add: u32_def)
  have "ld8 b4 (P + 4 + int i) = Some ((s @ [0]) ! i)" if "i < length (s @ [0])" for i
  proof (cases "i < length s")
    case True
    then show ?thesis using b4(3) by (simp add: rd_eq_iff nth_append)
  next
    case False
    then have i: "i = length s" using that by simp
    have "ld8 b3 (P + 4 + int (length s)) = Some (?z ! length s)" using b3(3) a(1) by (simp add: rd_eq_iff)
    moreover have "ld8 b4 (P + 4 + int (length s)) = ld8 b3 (P + 4 + int (length s))" using same_butD(3) [OF b4(2)] by simp
    ultimately show ?thesis using i a(1) by (simp add: nth_append)
  qed
  then have "rd b4 (P + 4) (cstrlen s + 1) = Some (s @ [0])"
    unfolding rd_eq_iff using assms(2,3) a k l2 l3 l4 by auto
  moreover have "rd b5 (P + 4) (cstrlen s + 1) = rd b4 (P + 4) (cstrlen s + 1)" by (rule same_but_rd [OF b5(2)]) (use a k in linarith)
  moreover have "fdt32_ld b5 (P + (4 + ?a)) = Some FDT_END_NODE"
  proof -
    have e: "P + (4 + ?a) = P + k - 4" using k by simp
    show ?thesis unfolding e using b5(3) by (simp add: u32_def)
  qed
  ultimately have "toks_at b5 P [TBegin s, TEnd]" using bn assms(4) by simp
  then show ?thesis using b2(1) b3(1) b4(1) b5(1) s5 a(2) by (auto simp: memset_def)
qed

text \<open>A node in front of the subnodes that are there.\<close>

definition put_node :: "cstring \<Rightarrow> entry list \<Rightarrow> entry list" where
  "put_node s fs = take (length (own_props fs)) fs @ ENode s [] # drop (length (own_props fs)) fs"

lemma own_props_entries: "map (\<lambda>(n, v). EProp n v) (own_props fs) = take (length (own_props fs)) fs"
  by (induction fs rule: own_props.induct) simp_all

lemma flats_props: "flats (map (\<lambda>(n, v). EProp n v) qs) = prop_items qs"
  by (induction qs) auto

lemma flats_put_node: "flats (put_node s fs) = prop_items (own_props fs) @ [Begin s, End] @ flats (drop (length (own_props fs)) fs)"
  unfolding put_node_def own_props_entries [symmetric] using flats_props [of "own_props fs"] by simp

lemma find_child_props: "find_child c off (map (\<lambda>(n, v). EProp n v) qs @ es) = find_child c (off + items_size (prop_items qs)) es"
  by (induction qs arbitrary: off) (auto simp: add.assoc)

lemma find_child_added: "find_child s off (put_node s fs) = Some (off + items_size (prop_items (own_props fs)), s, [])"
  unfolding put_node_def own_props_entries [symmetric] by (simp add: find_child_props name_matches_iff)

lemma find_child_edited:
  "find_child c off es = Some (off', n', fs) \<Longrightarrow> find_child c off (edit_child c (\<lambda>n fs. [ENode n (f fs)]) es) = Some (off', n', f fs)"
  by (induction c off es rule: find_child.induct) (auto split: if_splits)

lemma walk_tree_edited: "walk_tree cs off n es = Some (off', n', fs) \<Longrightarrow> walk_tree cs off n (edit_tree cs f es) = Some (off', n', f fs)"
proof (induction cs arbitrary: off n es)
  case (Cons c cs)
  then show ?case using find_child_edited [of c "off + item_size (Begin n)" es] by (auto split: option.splits)
qed simp

lemma subnode_inserted:
  assumes b: "layout rs b" "struct_items b (us @ vs) (pre @ post)" "list_all2 (denotes b) (live_toks us) pre" "list_all2 (denotes b) (live_toks vs) post"
    "0 \<notin> set s" "cstrlen s < 0x40000000"
  defines "P \<equiv> struct_pos b us" and "k \<equiv> 8 + FDT_TAGALIGN (cstrlen s + 1)"
  shows "if hdr b H_totalsize < data_end b + k then fdt_splice_struct_i b P 0 k = Some (- FDT_ERR_NOSPACE, b)
    else \<exists>b1 b2 b3 b4 b5. fdt_splice_struct_i b P 0 k = Some (0, b1) \<and> fdt32_st b1 P FDT_BEGIN_NODE = Some b2 \<and>
      memset b2 (P + 4) 0 (FDT_TAGALIGN (cstrlen s + 1)) = Some b3 \<and> wr b3 (P + 4) s = Some b4 \<and> fdt32_st b4 (P + k - 4) FDT_END_NODE = Some b5 \<and>
      hdr b5 H_totalsize = hdr b H_totalsize \<and> layout rs b5 \<and> struct_items b5 (us @ [TBegin s, TEnd] @ vs) (pre @ [Begin s, End] @ post)"
proof -
  note d = layoutD [OF b(1)]
  have a: "cstrlen s + 1 \<le> FDT_TAGALIGN (cstrlen s + 1)" "FDT_TAGALIGN (cstrlen s + 1) < cstrlen s + 1 + 4"
    using FDT_TAGALIGN_bounds(1,2) [of "cstrlen s + 1"] by auto
  have k: "0 \<le> k" "k < 0x80000000" using a b(6) by (simp_all add: k_def)
  have tk: "toks_size [TBegin s, TEnd] = k" by (simp add: k_def)
  have z: "0 \<le> toks_size us" "0 \<le> toks_size vs" by (rule toks_size_nonneg(1))+
  have "hdr b H_size_dt_struct = toks_size us + toks_size vs + 4" using b(2) by (simp add: struct_items_def)
  then have p: "hdr b H_off_dt_struct \<le> P" "P + 0 \<le> hdr b H_off_dt_struct + hdr b H_size_dt_struct" "40 \<le> P"
    using z d(4,5) by (simp_all add: P_def)
  note sp = splice_struct_spec [OF b(1) order_refl k p(1,2)]
  show ?thesis
  proof (cases "hdr b H_totalsize < data_end b + k")
    case True
    then show ?thesis using sp by simp
  next
    case False
    then obtain b1 where b1: "fdt_splice_struct_i b P 0 k = Some (0, b1)" "spliced b b1 P 0 k" using sp by auto
    have bl: "P + k \<le> blen b1" using False p(2) d(6,9) splicedD(1) [OF b1(2)] hdr_bounds(1) [of b H_size_dt_strings] by linarith
    obtain b2 b3 b4 b5 where f: "fdt32_st b1 P FDT_BEGIN_NODE = Some b2" "memset b2 (P + 4) 0 (FDT_TAGALIGN (cstrlen s + 1)) = Some b3"
      "wr b3 (P + 4) s = Some b4" "fdt32_st b4 (P + k - 4) FDT_END_NODE = Some b5" "spliced b b5 P 0 k" "toks_at b5 P [TBegin s, TEnd]"
      using node_filled [OF b1(2) p(3) bl b(5)] k_def by blast
    have "P + 0 \<le> hdr b H_off_dt_strings" using p(2) d(6) by linarith
    note m = spliced_denotes [OF f(5) this]
    have den: "list_all2 (denotes b5) (live_toks (us @ [TBegin s, TEnd] @ vs)) (pre @ [Begin s, End] @ post)"
      using list_all2_mono [OF b(3) m] list_all2_mono [OF b(4) m] by (simp add: list_all2_appendI)
    have "layout rs b5" "struct_items b5 (us @ [TBegin s, TEnd] @ vs) (pre @ [Begin s, End] @ post)"
      using toks_replaced [of rs b us "[]" vs _ b5 "[TBegin s, TEnd]", OF b(1) _ _ _ _ den] b(2) f(5,6) False tk unfolding P_def by simp_all
    then show ?thesis using False b1(1) f(1-4) splicedD(5) [OF f(5)] by auto
  qed
qed

lemma add_subnode_tree:
  assumes b: "holds_tree b rs es" "walk_tree cs 0 [] es = Some (off, n, fs)" "0 \<notin> set s" "cstrlen s < 0x40000000"
  shows "if find_child s (off + item_size (Begin n)) fs \<noteq> None then fdt_add_subnode b off s = Some (- FDT_ERR_EXISTS, b)
    else if hdr b H_totalsize < data_end b + (8 + FDT_TAGALIGN (cstrlen s + 1)) then fdt_add_subnode b off s = Some (- FDT_ERR_NOSPACE, b)
    else \<exists>off' b'. fdt_add_subnode b off s = Some (off', b') \<and> hdr b' H_totalsize = hdr b H_totalsize \<and> holds_tree b' rs (edit_tree cs (put_node s) es) \<and>
      walk_tree (cs @ [s]) 0 [] (edit_tree cs (put_node s) es) = Some (off', s, [])"
proof -
  have l: "layout rs b" using b(1) by (simp add: holds_tree_def)
  note d = layoutD [OF l]
  note rb = searchableD(2) [OF d(1)]
  let ?k = "8 + FDT_TAGALIGN (cstrlen s + 1)" and ?qs = "own_props fs"
  obtain ts where ts: "TNop \<notin> set ts" "struct_items b ts (flat (ENode [] es))" using b(1) by (auto simp: holds_tree_def)
  have ni: "node_in b off n fs" by (rule walk_tree_node_in [OF struct_items_root [OF ts(2,1)] b(2)])
  have sub: "fdt_subnode_offset_namelen b off s (cstrlen s) = Some (child_offset (find_child s (off + item_size (Begin n)) fs))"
    using subnode_offset_node [OF d(1) ni, of "cstrlen s" s] by simp
  show ?thesis
  proof (cases "find_child s (off + item_size (Begin n)) fs")
    case (Some c)
    obtain o1 n1 f1 where c: "c = (o1, n1, f1)" by (cases c)
    have "0 \<le> o1" using child_node_in [OF ni Some [unfolded c]] by (auto simp: node_in_def tok_in_def)
    then show ?thesis using Some c sub rw_probe_ok [OF l] by (simp add: fdt_add_subnode_def fdt_add_subnode_namelen_def FDT_RW_PROBE_def child_offset_def)
  next
    case None
    obtain us ps t vs pre rest where na: "off = toks_size us" "node_around b us n ps t vs pre ?qs rest" "TNop \<notin> set (us @ ps @ t # vs)"
      "\<And>f qs zs. flats (f fs) = prop_items qs @ zs @ flats (drop (length ?qs) fs) \<Longrightarrow>
         flat (ENode [] (edit_tree cs f es)) = pre @ Begin n # prop_items qs @ zs @ rest" using node_place [OF b(1,2)] by blast
    note a = node_aroundD [OF na(2)]
    let ?us = "us @ TBegin n # ps" and ?pre = "pre @ Begin n # prop_items ?qs" and ?tree = "edit_tree cs (put_node s) es"
    have tree: "flat (ENode [] ?tree) = ?pre @ [Begin s, End] @ rest" using na(4) [of "put_node s", OF flats_put_node] by simp
    have "live_toks ps = ps" using na(3) by (auto intro: filter_True)
    then have "toks_size ps = items_size (prop_items ?qs)" using denotes_items_size [of b ps] a(3) by (simp add: props_of_def)
    then have walk: "walk_tree (cs @ [s]) 0 [] ?tree = Some (toks_size ?us, s, [])"
      using walk_tree_edited [OF b(2)] find_child_added na(1) by (simp add: walk_tree_snoc add.assoc)
    have t: "tok_in b off (TBegin n)" "toks_in b (off + tok_size (TBegin n)) (ps @ [t])" using a(6) na(1) by simp_all
    have skip: "skip_properties b (off + tok_size (TBegin n)) = Some (toks_size ?us)"
      using skip_properties_in [OF rb t(2) a(3,4)] na(1) by (simp add: add.assoc)
    have "cstrlen s + 1 < 0x40000001" using b(4) by simp
    then have k: "s32 ?k = ?k" using FDT_TAGALIGN_bounds(1,2) [of "cstrlen s + 1"] by (intro s32_id) auto
    have "list_all2 (denotes b) (live_toks ?us) ?pre" using a(2,3) by (simp add: props_of_def list_all2_appendI)
    note ins = subnode_inserted [of rs b ?us "t # vs" ?pre rest, OF l _ this a(5) b(3,4)]
    have tree': "holds_tree b' rs ?tree" if "layout rs b'" "struct_items b' (?us @ [TBegin s, TEnd] @ t # vs) (?pre @ [Begin s, End] @ rest)" for b'
      unfolding holds_tree_def tree using that na(3) by (intro conjI exI [of _ "?us @ [TBegin s, TEnd] @ t # vs"]) auto
    note calls = fdt_add_subnode_def fdt_add_subnode_namelen_def FDT_RW_PROBE_def child_offset_def fdt_offset_ptr_i_def add.assoc Let_def
      and run = None sub rw_probe_ok [OF l] d(2) next_tag_in [OF rb t(1)] skip k
    show ?thesis
    proof (cases "hdr b H_totalsize < data_end b + ?k")
      case True
      then show ?thesis using ins a(1) run by (simp add: calls)
    next
      case False
      then obtain b' where "fdt_add_subnode b off s = Some (toks_size ?us, b')" "hdr b' H_totalsize = hdr b H_totalsize" "layout rs b'"
        "struct_items b' (?us @ [TBegin s, TEnd] @ t # vs) (?pre @ [Begin s, End] @ rest)"
        using ins a(1) run by (auto simp add: calls)
      then show ?thesis using False None tree' walk by auto
    qed
  qed
qed

section \<open>The node functions on trees\<close>

text \<open>C15: \<open>fdt_add_subnode\<close> and \<open>fdt_del_node\<close> refine the operations on trees. On a blob that holds a tree and a reserve map,
  \<open>fdt_add_subnode\<close> at the node of a path returns \<open>-FDT_ERR_EXISTS\<close> if the name selects a subnode that is there (with or without a unit
  address), \<open>-FDT_ERR_NOSPACE\<close> if the free space is less than what the node needs, both with the blob unchanged, and otherwise the
  offset of the new node, which the path then leads to; it has no entries, and the rest of the tree is as before. \<open>fdt_del_node\<close> at the node of
  a path below the root takes this node out, with all that is in it.\<close>

theorem node_functions_refine:
  assumes "holds_tree b rs es"
  shows "(walk_tree cs 0 [] es = Some (off, n, fs) \<and> 0 \<notin> set s \<and> cstrlen s < 0x40000000 \<longrightarrow>
      (if find_child s (off + item_size (Begin n)) fs \<noteq> None then fdt_add_subnode b off s = Some (- FDT_ERR_EXISTS, b)
       else if hdr b H_totalsize < data_end b + (8 + FDT_TAGALIGN (cstrlen s + 1)) then fdt_add_subnode b off s = Some (- FDT_ERR_NOSPACE, b)
       else \<exists>off' b'. fdt_add_subnode b off s = Some (off', b') \<and> holds_tree b' rs (edit_tree cs (put_node s) es) \<and>
         walk_tree (cs @ [s]) 0 [] (edit_tree cs (put_node s) es) = Some (off', s, []))) \<and>
    (walk_tree (cs @ [c]) 0 [] es = Some (off, n, fs) \<longrightarrow>
      (\<exists>b'. fdt_del_node b off = Some (0, b') \<and> holds_tree b' rs (remove_node cs c es)))"
  using add_subnode_tree [OF assms, of cs off n fs s] del_node_tree [OF assms, of cs c off n fs] by (auto split: if_splits)

theorem node_functions_refine_witness:
  "(\<exists>off b'. fdt_add_subnode (file_blob (sample_rw 32)) 0 (cstr ''c'') = Some (off, b') \<and>
      holds_tree b' [] [EProp (cstr ''reg'') [0x11, 0x22, 0x33, 0x44], ENode (cstr ''c'') [], ENode (cstr ''a'') []]) \<and>
   fdt_add_subnode (file_blob (sample_rw 0)) 0 (cstr ''c'') = Some (- FDT_ERR_NOSPACE, file_blob (sample_rw 0)) \<and>
   fdt_add_subnode (file_blob (sample_rw 0)) 0 (cstr ''a'') = Some (- FDT_ERR_EXISTS, file_blob (sample_rw 0)) \<and>
   (\<exists>b'. fdt_del_node (file_blob (sample_rw 0)) 24 = Some (0, b') \<and> holds_tree b' [] [EProp (cstr ''reg'') [0x11, 0x22, 0x33, 0x44]])"
proof -
  let ?b = "file_blob (sample_rw 0)" and ?b' = "file_blob (sample_rw 32)" and ?c = "cstr ''c''" and ?a = "cstr ''a''"
  have w: "walk_tree [] 0 [] rw_tree = Some (0, [], rw_tree)" "walk_tree ([] @ [?a]) 0 [] rw_tree = Some (24, ?a, [])" by code_simp+
  have z: "0 \<notin> set ?c" "cstrlen ?c < 0x40000000" "0 \<notin> set ?a" "cstrlen ?a < 0x40000000" by code_simp+
  have f: "find_child ?c (0 + item_size (Begin [])) rw_tree = None" "find_child ?a (0 + item_size (Begin [])) rw_tree \<noteq> None" by code_simp+
  have e: "edit_tree [] (put_node ?c) rw_tree = [EProp (cstr ''reg'') [0x11, 0x22, 0x33, 0x44], ENode ?c [], ENode ?a []]"
    "remove_node [] ?a rw_tree = [EProp (cstr ''reg'') [0x11, 0x22, 0x33, 0x44]]" by code_simp+
  have t: "\<not> hdr ?b' H_totalsize < data_end ?b' + (8 + FDT_TAGALIGN (cstrlen ?c + 1))" "hdr ?b H_totalsize < data_end ?b + (8 + FDT_TAGALIGN (cstrlen ?c + 1))"
    by code_simp+
  have 1: "\<exists>off b'. fdt_add_subnode ?b' 0 ?c = Some (off, b') \<and> holds_tree b' [] [EProp (cstr ''reg'') [0x11, 0x22, 0x33, 0x44], ENode ?c [], ENode ?a []]"
    using conjunct1 [OF node_functions_refine [OF sample_holds(2)], rule_format, OF conjI [OF w(1) conjI [OF z(1,2)]]] f(1) t(1) unfolding e(1) by (simp only: if_True if_False simp_thms) blast
  have 2: "fdt_add_subnode ?b 0 ?c = Some (- FDT_ERR_NOSPACE, ?b)"
    using conjunct1 [OF node_functions_refine [OF sample_holds(1)], rule_format, OF conjI [OF w(1) conjI [OF z(1,2)]]] f(1) t(2) by (simp only: if_True if_False simp_thms)
  have 3: "fdt_add_subnode ?b 0 ?a = Some (- FDT_ERR_EXISTS, ?b)"
    using conjunct1 [OF node_functions_refine [OF sample_holds(1)], rule_format, OF conjI [OF w(1) conjI [OF z(3,4)]]] f(2) by (simp only: if_True if_False simp_thms)
  show ?thesis using 1 2 3 conjunct2 [OF node_functions_refine [OF sample_holds(1)], rule_format, OF w(2)] unfolding e(2) by blast
qed

end
