(* ===== verification/Fdt_Pack_Props.thy ===== *)
theory Fdt_Pack_Props
  imports Fdt_Rw_Props
begin

text \<open>
  \<open>fdt_open_into\<close> and \<open>fdt_pack\<close> of \<^verbatim>\<open>libfdt/fdt_rw.c\<close>, in place, on a blob whose blocks are in order: the tree and the
  reserve map stay (\<open>open_into_tree\<close>, \<open>pack_tree\<close>).
\<close>

section \<open>Opening and packing in place\<close>

lemma view_0 [simp]: "view m 0 = m"
  by (simp add: view_def)

lemma on_view_0: "(\<And>b'. f m = Some b' \<Longrightarrow> blob_addr b' = blob_addr m) \<Longrightarrow> on_view m 0 f = f m"
  by (cases "f m") (auto simp: on_view_def)

lemma set_header_in_place: "on_view m 0 (\<lambda>b. fdt_set_header b f v) = fdt_set_header m f v"
  by (rule on_view_0) (auto dest: fdt_set_header_SomeD)

lemma num_mem_rsv_layout: "layout rs b \<Longrightarrow> fdt_num_mem_rsv b = Some (int (length rs))"
proof -
  assume l: "layout rs b"
  note d = layoutD [OF l]
  have t: "takeWhile (\<lambda>e. snd e \<noteq> 0) rs = rs" using d(11) by (simp add: takeWhile_eq_all_conv)
  have "hdr b H_off_mem_rsvmap + 16 * (0 + int (length rs)) + 16 \<le> hdr b H_totalsize"
    using d(6,7,12) hdr_bounds(1) [of b H_size_dt_struct] hdr_bounds(1) [of b H_size_dt_strings] unfolding distrib_left by linarith
  then show ?thesis using num_mem_rsv_loop_at [OF d(1), of 0 rs] d(10) t by (simp add: fdt_num_mem_rsv_def)
qed

lemma memmove_self: "0 \<le> p \<Longrightarrow> 0 \<le> n \<Longrightarrow> p + n \<le> blen b \<Longrightarrow> memmove b p p n = Some b"
proof -
  assume a: "0 \<le> p" "0 \<le> n" "p + n \<le> blen b"
  let ?m = "blob_mem b" and ?p = "nat p" and ?n = "nat n"
  have "?p + ?n \<le> length ?m" using a by simp
  moreover have "?m = take ?p ?m @ take ?n (drop ?p ?m) @ drop (?p + ?n) ?m"
    by (metis append_take_drop_id drop_drop add.commute)
  ultimately show ?thesis using a by (simp add: memmove_def rd_def wr_def min_absorb2)
qed

text \<open>A blob with another value in a field of the header.\<close>

definition with_header :: "blob \<Rightarrow> hdr_field \<Rightarrow> int \<Rightarrow> blob \<Rightarrow> bool" where
  "with_header b f v b' \<longleftrightarrow> fdt_set_header b f v = Some b' \<and> 40 \<le> blen b' \<and> blen b' = blen b \<and> blob_addr b' = blob_addr b \<and>
     (\<forall>g. hdr b' g = (if g = f then u32 v else hdr b g)) \<and> (\<forall>q. 40 \<le> q \<longrightarrow> ld8 b' q = ld8 b q)"

lemma set_header_with:
  assumes "40 \<le> blen b"
  obtains b' where "with_header b f v b'"
proof -
  obtain b' where b': "fdt_set_header b f v = Some b'" "blen b' = blen b" "40 \<le> blen b'"
    "blob_addr b' = blob_addr b" "\<And>g. hdr b' g = (if g = f then u32 v else hdr b g)" "same_but b b' 0 40" using set_header_ok [OF assms, of f v] by metis
  show ?thesis by (rule that [of b']) (use b'(1-5) same_butD(3) [OF b'(6)] in \<open>auto simp: with_header_def\<close>)
qed

lemma with_headerD:
  assumes "with_header b f v b'"
  shows "fdt_set_header b f v = Some b'" "40 \<le> blen b'" "blen b' = blen b" "blob_addr b' = blob_addr b"
    "hdr b' g = (if g = f then u32 v else hdr b g)" "40 \<le> q \<Longrightarrow> ld8 b' q = ld8 b q"
  using assms by (auto simp: with_header_def)

lemma rsv_fits:
  assumes "layout rs b"
  shows "hdr b H_off_mem_rsvmap + 16 * (int (length rs) + 1) \<le> hdr b H_off_dt_struct" "0 < 16 * (int (length rs) + 1)"
    "s32 ((int (length rs) + 1) * 16) = 16 * (int (length rs) + 1)" "16 * (int (length rs) + 1) < INT_MAX"
proof -
  note d = layoutD [OF assms]
  show f: "hdr b H_off_mem_rsvmap + 16 * (int (length rs) + 1) \<le> hdr b H_off_dt_struct" by (rule d(12))
  show p: "0 < 16 * (int (length rs) + 1)" by simp
  show m: "16 * (int (length rs) + 1) < INT_MAX"
    using f d(4,6-8) hdr_bounds(1) [of b H_size_dt_struct] hdr_bounds(1) [of b H_size_dt_strings] by linarith
  show "s32 ((int (length rs) + 1) * 16) = 16 * (int (length rs) + 1)" using p m by (subst mult.commute, intro s32_id) linarith+
qed

text \<open>Another total size, and another buffer.\<close>

lemma resized:
  assumes b: "holds_tree b rs es" "8 dvd blob_addr b'" "\<And>q. 40 \<le> q \<Longrightarrow> q < data_end b \<Longrightarrow> ld8 b' q = ld8 b q"
    "\<And>g. g \<noteq> H_totalsize \<Longrightarrow> hdr b' g = hdr b g" "data_end b \<le> hdr b' H_totalsize" "hdr b' H_totalsize < INT_MAX" "hdr b' H_totalsize \<le> blen b'"
  shows "holds_tree b' rs es"
proof -
  obtain ts where ts: "layout rs b" "TNop \<notin> set ts" "struct_items b ts (flat (ENode [] es))" using b(1) by (auto simp: holds_tree_def)
  note d = layoutD [OF ts(1)] and r = rsv_fits [OF ts(1)]
  have nn: "0 \<le> hdr b H_size_dt_struct" "0 \<le> hdr b H_size_dt_strings" by simp_all
  have m: "moved b b' (hdr b' f - hdr b f) (hdr b f) (hdr b f + n)" if "f \<noteq> H_totalsize" "40 \<le> hdr b f" "hdr b f + n \<le> data_end b" for f n
    using b(3-7) that by (auto simp: moved_def)
  have "layout rs b'" "struct_items b' ts (flat (ENode [] es))"
    by (rule relocated [OF ts(1,3) b(2)]; (rule m)?; use b(4-7) d(3,4,6,7) r(1,2) nn in \<open>simp; linarith?\<close>)+
  then show ?thesis using ts(2) by (auto simp: holds_tree_def)
qed

text \<open>\<open>fdt_open_into\<close> with a buffer that starts with the blob: the tree stays, and the blob has the size of the buffer.\<close>

lemma open_into_tree:
  assumes b: "holds_tree b rs es" "hdr b H_totalsize \<le> n" "n < INT_MAX" "n \<le> blen b"
  obtains b' where "fdt_open_into b 0 0 n = Some (0, b')" "holds_tree b' rs es" "hdr b' H_totalsize = n" "data_end b' = data_end b"
proof -
  have l: "layout rs b" using b(1) by (simp add: holds_tree_def)
  note d = layoutD [OF l] and r = rsv_fits [OF l]
  have nn: "0 \<le> hdr b H_size_dt_struct" "0 \<le> hdr b H_size_dt_strings" "0 \<le> hdr b H_off_dt_struct" by simp_all
  have u: "s32 (hdr b H_size_dt_struct) = hdr b H_size_dt_struct" "u32 (hdr b H_size_dt_struct) = hdr b H_size_dt_struct" "u32 n = n"
    "u32 (hdr b H_off_mem_rsvmap + 16 * (int (length rs) + 1)) = hdr b H_off_mem_rsvmap + 16 * (int (length rs) + 1)"
    "u32 (hdr b H_off_dt_struct + hdr b H_size_dt_struct) = hdr b H_off_dt_struct + hdr b H_size_dt_struct"
    "u32 (data_end b) = data_end b"
    using d(4,6-8) nn r(1,2) b(2,3) by (intro s32_id u32_id; linarith)+
  have a40: "FDT_ALIGN 40 8 = 40" by code_simp
  have mo: "fdt_blocks_misordered_i b (16 * (int (length rs) + 1)) (hdr b H_size_dt_struct) = Some False"
    using d(2,4,6,7,12) u a40 by (simp add: fdt_blocks_misordered_i_def)
  have bl: "40 \<le> blen b" using backedD(1) [OF d(2)] .
  obtain b1 where w1: "with_header b H_version 17 b1" by (rule set_header_with [OF bl])
  obtain b2 where w2: "with_header b1 H_size_dt_struct (hdr b H_size_dt_struct) b2" by (rule set_header_with [OF with_headerD(2) [OF w1]])
  obtain b3 where w3: "with_header b2 H_totalsize n b3" by (rule set_header_with [OF with_headerD(2) [OF w2]])
  note b1 = with_headerD [OF w1] and b2 = with_headerD [OF w2] and b3 = with_headerD [OF w3]
  have h: "hdr b3 g = (if g = H_totalsize then n else hdr b g)" for g using b1(5) b2(5) b3(5) u(2,3) d(3) by (simp add: u32_def)
  have n0: "\<not> n < 0" using b(2) hdr_bounds(1) [of b H_totalsize] by linarith
  have mv: "fdt_move b 0 0 n = Some (0, b)"
    using b(2) n0 ro_probe_ok [OF d(1)] d(2,9) u(3) memmove_self [of 0 "hdr b H_totalsize" b] by (simp add: fdt_move_def)
  have "fdt_open_into b 0 0 n = Some (0, b3)"
    using num_mem_rsv_layout [OF l] ro_probe_ok [OF d(1)] r(3) d(2,3) mo mv b1(1) b2(1) b3(1) u(1)
    by (simp add: fdt_open_into_def set_header_in_place)
  moreover have "holds_tree b3 rs es"
    by (rule resized [OF b(1)]) (use h b1(3,4,6) b2(3,4,6) b3(3,4,6) b(2-4) d(7) layout_aligned [OF l] in auto)
  ultimately show ?thesis using that h by simp
qed

text \<open>A block that is copied: it is there at the new place, and blocks that are apart from this place stay.\<close>

lemma memmove_moved:
  assumes "40 \<le> src" "0 \<le> n" "src + n \<le> blen b" "40 \<le> dst" "dst + n \<le> blen b"
  shows "\<exists>b'. memmove b dst src n = Some b' \<and> blen b' = blen b \<and> blob_addr b' = blob_addr b \<and> (\<forall>g. hdr b' g = hdr b g) \<and>
    same_but b b' dst (dst + n) \<and> moved b b' (dst - src) src (src + n)"
proof -
  obtain b' where b': "memmove b dst src n = Some b'" "same_but b b' dst (dst + n)"
    "\<And>i m. 0 \<le> i \<Longrightarrow> 0 \<le> m \<Longrightarrow> i + m \<le> n \<Longrightarrow> rd b' (dst + i) m = rd b (src + i) m"
    using memmove_ok [of src n b dst] assms by auto
  have "ld8 b' (q + (dst - src)) = ld8 b q" if "src \<le> q" "q < src + n" for q
  proof -
    have "rd b' (dst + (q - src)) 1 = rd b (src + (q - src)) 1" by (rule b'(3)) (use that in auto)
    moreover have "dst + (q - src) = q + (dst - src)" by simp
    ultimately have r: "rd b' (q + (dst - src)) 1 = rd b q 1" by simp
    have q: "0 \<le> q" "q < blen b" "0 \<le> q + (dst - src)" "q + (dst - src) < blen b'"
      using that assms same_butD(1) [OF b'(2)] by linarith+
    show ?thesis using r ld8_rd [OF q(1,2)] ld8_rd [OF q(3,4)] by simp
  qed
  then have "moved b b' (dst - src) src (src + n)" using assms same_butD(1) [OF b'(2)] by (auto simp: moved_def)
  moreover have "hdr b' g = hdr b g" for g by (rule same_but_hdr [OF b'(2)]) (use assms(4) in linarith)
  ultimately show ?thesis using b'(1,2) same_butD(1,2) [OF b'(2)] by blast
qed

lemma moved_then: "moved b b1 d lo hi \<Longrightarrow> blen b2 = blen b1 \<Longrightarrow> (\<And>q. lo + d \<le> q \<Longrightarrow> q < hi + d \<Longrightarrow> ld8 b2 q = ld8 b1 q) \<Longrightarrow> moved b b2 d lo hi"
  by (auto simp: moved_def)

lemma then_moved: "moved b1 b2 d lo hi \<Longrightarrow> (\<And>q. lo \<le> q \<Longrightarrow> q < hi \<Longrightarrow> ld8 b1 q = ld8 b q) \<Longrightarrow> moved b b2 d lo hi"
  by (auto simp: moved_def)

text \<open>One step of \<open>fdt_packblocks_\<close>: a block is copied, and its new offset is stored.\<close>

definition relocates :: "blob \<Rightarrow> blob \<Rightarrow> hdr_field \<Rightarrow> int \<Rightarrow> int \<Rightarrow> int \<Rightarrow> bool" where
  "relocates b c f dst src n \<longleftrightarrow> 40 \<le> blen c \<and> blen c = blen b \<and> blob_addr c = blob_addr b \<and> (\<forall>g. hdr c g = (if g = f then u32 dst else hdr b g)) \<and>
     (\<forall>q. 40 \<le> q \<and> (q < dst \<or> dst + n \<le> q) \<longrightarrow> ld8 c q = ld8 b q) \<and> moved b c (dst - src) src (src + n)"

lemma relocatesD:
  assumes "relocates b c f dst src n"
  shows "40 \<le> blen c" "blen c = blen b" "blob_addr c = blob_addr b" "hdr c g = (if g = f then u32 dst else hdr b g)"
    "40 \<le> q \<Longrightarrow> q < dst \<or> dst + n \<le> q \<Longrightarrow> ld8 c q = ld8 b q" "moved b c (dst - src) src (src + n)"
  using assms by (auto simp: relocates_def)

lemma block_step:
  assumes "40 \<le> blen b" "40 \<le> src" "0 \<le> n" "src + n \<le> blen b" "40 \<le> dst" "dst + n \<le> blen b"
  obtains b1 c where "memmove b dst src n = Some b1" "fdt_set_header b1 f dst = Some c" "relocates b c f dst src n"
proof -
  obtain b1 where b1: "memmove b dst src n = Some b1" "blen b1 = blen b" "blob_addr b1 = blob_addr b" "\<And>g. hdr b1 g = hdr b g"
    "same_but b b1 dst (dst + n)" "moved b b1 (dst - src) src (src + n)" using memmove_moved [OF assms(2-6)] by blast
  have "40 \<le> blen b1" using assms(1) b1(2) by simp
  then obtain c where w: "with_header b1 f dst c" by (rule set_header_with)
  note c = with_headerD [OF w]
  have "moved b c (dst - src) src (src + n)" by (rule moved_then [OF b1(6) c(3)]) (use c(6) assms(5) in simp)
  moreover have "ld8 c q = ld8 b q" if "40 \<le> q" "q < dst \<or> dst + n \<le> q" for q using c(6) [OF that(1)] same_butD(3) [OF b1(5) that(2)] by simp
  ultimately have "relocates b c f dst src n" unfolding relocates_def using b1(2-4) c(2-5) by auto
  then show ?thesis by (rule that [OF b1(1) c(1)])
qed

lemma packblocks_moves:
  assumes l: "layout rs b"
  defines "R \<equiv> 16 * (int (length rs) + 1)" and "S \<equiv> hdr b H_size_dt_struct" and "Z \<equiv> hdr b H_size_dt_strings"
  shows "\<exists>b'. fdt_packblocks_i b 0 0 R S Z = Some b' \<and> 40 \<le> blen b' \<and> blen b' = blen b \<and> blob_addr b' = blob_addr b \<and>
    hdr b' H_off_mem_rsvmap = 40 \<and> hdr b' H_off_dt_struct = 40 + R \<and> hdr b' H_off_dt_strings = 40 + R + S \<and>
    (\<forall>g. g \<notin> {H_off_mem_rsvmap, H_off_dt_struct, H_off_dt_strings} \<longrightarrow> hdr b' g = hdr b g) \<and>
    block_moved b b' H_off_mem_rsvmap R \<and> block_moved b b' H_off_dt_struct S \<and> block_moved b b' H_off_dt_strings Z"
proof -
  note d = layoutD [OF l] and r = rsv_fits [OF l, folded R_def]
  let ?o1 = "hdr b H_off_mem_rsvmap" and ?o2 = "hdr b H_off_dt_struct" and ?o3 = "hdr b H_off_dt_strings"
  have nn: "0 \<le> S" "0 \<le> Z" "0 < R" using r(2) by (simp_all add: S_def Z_def)
  have ord: "40 \<le> ?o1" "?o1 + R \<le> ?o2" "?o2 + S \<le> ?o3" "?o3 + Z \<le> blen b" "?o3 + Z < INT_MAX"
    using d(4,6-9) r(1) by (simp_all add: S_def Z_def)
  have u: "s32 (40 + R) = 40 + R" "s32 (40 + R + S) = 40 + R + S" "u32 40 = 40" "u32 (40 + R) = 40 + R" "u32 (40 + R + S) = 40 + R + S" "u32 S = S" "u32 Z = Z"
    using nn ord by (intro s32_id u32_id; linarith)+
  have a40: "FDT_ALIGN 40 8 = 40" by code_simp
  obtain b1 c1 where 1: "memmove b 40 ?o1 R = Some b1" "fdt_set_header b1 H_off_mem_rsvmap 40 = Some c1" "relocates b c1 H_off_mem_rsvmap 40 ?o1 R"
    by (rule block_step [of b ?o1 R 40 H_off_mem_rsvmap]) (use nn ord in linarith)+
  note c1 = relocatesD [OF 1(3)]
  obtain b2 c2 where 2: "memmove c1 (40 + R) ?o2 S = Some b2" "fdt_set_header b2 H_off_dt_struct (40 + R) = Some c2" "relocates c1 c2 H_off_dt_struct (40 + R) ?o2 S"
    by (rule block_step [of c1 ?o2 S "40 + R" H_off_dt_struct]) (use nn ord c1(1,2) in linarith)+
  note c2 = relocatesD [OF 2(3)]
  obtain e2 where w2: "with_header c2 H_size_dt_struct S e2" by (rule set_header_with [OF c2(1)])
  note e2 = with_headerD [OF w2]
  obtain b3 c3 where 3: "memmove e2 (40 + R + S) ?o3 Z = Some b3" "fdt_set_header b3 H_off_dt_strings (40 + R + S) = Some c3"
    "relocates e2 c3 H_off_dt_strings (40 + R + S) ?o3 Z"
    by (rule block_step [of e2 ?o3 Z "40 + R + S" H_off_dt_strings]) (use nn ord c1(2) c2(2) e2(2,3) in linarith)+
  note c3 = relocatesD [OF 3(3)]
  obtain e3 where w3: "with_header c3 H_size_dt_strings Z e3" by (rule set_header_with [OF c3(1)])
  note e3 = with_headerD [OF w3]
  have h: "hdr e3 g = (if g = H_off_mem_rsvmap then 40 else if g = H_off_dt_struct then 40 + R else if g = H_off_dt_strings then 40 + R + S else hdr b g)" for g
    using c1(4) c2(4) e2(5) c3(4) e3(5) u by (simp add: S_def Z_def)
  have call: "fdt_packblocks_i b 0 0 R S Z = Some e3"
    using 1(1,2) 2(1,2) 3(1,2) e2(1) e3(1) c1(1,4) c2(1,4) e2(2,5) c3(1,4) d(2) u a40
    by (simp add: fdt_packblocks_i_def set_header_in_place fdt_get_header_hdr backed_def Z_def)
  have len: "40 \<le> blen e3" "blen e3 = blen b" "blen c3 = blen b" "blen e2 = blen b" "blen c2 = blen b" "blob_addr e3 = blob_addr b"
    using c1(2,3) c2(2,3) e2(3,4) c3(2,3) e3(2-4) by simp_all
  have m1: "moved b e3 (40 - ?o1) ?o1 (?o1 + R)"
    by (rule moved_then [OF c1(6)]) (use c2(5) e2(6) c3(5) e3(6) len c1(2) nn in simp_all)
  have "moved b c2 (40 + R - ?o2) ?o2 (?o2 + S)" by (rule then_moved [OF c2(6)]) (use c1(5) ord nn in simp)
  then have m2: "moved b e3 (40 + R - ?o2) ?o2 (?o2 + S)"
    by (rule moved_then) (use e2(6) c3(5) e3(6) len nn in simp_all)
  have "moved b c3 (40 + R + S - ?o3) ?o3 (?o3 + Z)" by (rule then_moved [OF c3(6)]) (use c1(5) c2(5) e2(6) ord nn in simp)
  then have m3: "moved b e3 (40 + R + S - ?o3) ?o3 (?o3 + Z)"
    by (rule moved_then) (use e3(6) len nn in simp_all)
  show ?thesis using call len h m1 m2 m3 by auto
qed

text \<open>\<open>fdt_pack\<close>: the tree and the reserve map stay, and there is nothing between or behind the blocks.\<close>

lemma pack_tree:
  assumes b: "holds_tree b rs es"
  shows "\<exists>b'. fdt_pack b = Some (0, b') \<and> holds_tree b' rs es \<and> blen b' = blen b \<and> hdr b' H_totalsize = data_end b' \<and>
    data_end b' = 40 + 16 * (int (length rs) + 1) + hdr b H_size_dt_struct + hdr b H_size_dt_strings"
proof -
  obtain ts where ts: "layout rs b" "TNop \<notin> set ts" "struct_items b ts (flat (ENode [] es))" using b by (auto simp: holds_tree_def)
  note d = layoutD [OF ts(1)] and r = rsv_fits [OF ts(1)]
  let ?R = "16 * (int (length rs) + 1)" and ?S = "hdr b H_size_dt_struct" and ?Z = "hdr b H_size_dt_strings"
  let ?n = "40 + ?R + ?S + ?Z"
  obtain c where c: "fdt_packblocks_i b 0 0 ?R ?S ?Z = Some c" "40 \<le> blen c" "blen c = blen b" "blob_addr c = blob_addr b"
    "hdr c H_off_mem_rsvmap = 40" "hdr c H_off_dt_struct = 40 + ?R" "hdr c H_off_dt_strings = 40 + ?R + ?S"
    "\<And>g. g \<notin> {H_off_mem_rsvmap, H_off_dt_struct, H_off_dt_strings} \<Longrightarrow> hdr c g = hdr b g"
    "block_moved b c H_off_mem_rsvmap ?R" "block_moved b c H_off_dt_struct ?S" "block_moved b c H_off_dt_strings ?Z"
    using packblocks_moves [OF ts(1)] by blast
  have nn: "0 \<le> ?S" "0 \<le> ?Z" by simp_all
  have n: "?n \<le> hdr b H_totalsize" "0 \<le> ?n" using d(4,6,7) r(1,2) nn by linarith+
  have u: "s32 ?S = ?S" "s32 ?Z = ?Z" "u32 ?n = ?n" using d(8) n nn r(2) by (intro s32_id u32_id; linarith)+
  have hz: "hdr c H_size_dt_strings = ?Z" by (rule c(8)) simp
  have ds: "fdt_data_size_i c = Some ?n" using c(2,7) hz u(3) by (simp add: fdt_data_size_i_def fdt_get_header_hdr)
  obtain e where w: "with_header c H_totalsize ?n e" by (rule set_header_with [OF c(2)])
  note e = with_headerD [OF w]
  have he: "hdr e H_totalsize = ?n" "hdr e H_off_mem_rsvmap = 40" "hdr e H_off_dt_struct = 40 + ?R" "hdr e H_off_dt_strings = 40 + ?R + ?S"
    "\<And>g. g \<notin> {H_totalsize, H_off_mem_rsvmap, H_off_dt_struct, H_off_dt_strings} \<Longrightarrow> hdr e g = hdr b g"
    using e(5) c(5-8) u(3) by simp_all
  have call: "fdt_pack b = Some (0, e)"
    using rw_probe_ok [OF ts(1)] num_mem_rsv_layout [OF ts(1)] d(2) r(3) u(1,2) c(1) ds e(1) by (simp add: fdt_pack_def FDT_RW_PROBE_def)
  have m: "block_moved b e f k" if "block_moved b c f k" "f \<noteq> H_totalsize" "40 \<le> hdr c f" for f k
  proof -
    have "hdr e f = hdr c f" using e(5) that(2) by simp
    then show ?thesis using moved_then [OF that(1) e(3)] e(6) that(3) by simp
  qed
  have "layout rs e" "struct_items e ts (flat (ENode [] es))"
    by (rule relocated [OF ts(1,3)]; (rule m)?; use c(3-7,9-11) e(3,4) he d(3,8,9) n r(2) nn layout_aligned [OF ts(1)] in \<open>simp; linarith?\<close>)+
  then have "holds_tree e rs es" using ts(2) by (auto simp: holds_tree_def)
  moreover have "data_end e = ?n" using he by simp
  ultimately show ?thesis using call he(1) e(3) c(3) by simp
qed

text \<open>C16: Opening and packing keep what a blob holds. \<open>fdt_open_into\<close>, in place, with a buffer that is large enough always succeeds, and
  the blob then has the size of the buffer; \<open>fdt_pack\<close> always succeeds, and the blob is then as long as the header, the reserve map
  with its end, the structure block and the strings together, which is not more than before. The tree and the reserve map stay, though the
  blocks are moved over each other.\<close>

theorem open_and_pack_keep_tree:
  assumes "holds_tree b rs es"
  shows "(\<forall>n. hdr b H_totalsize \<le> n \<and> n < INT_MAX \<and> n \<le> blen b \<longrightarrow>
      (\<exists>b'. fdt_open_into b 0 0 n = Some (0, b') \<and> holds_tree b' rs es \<and> hdr b' H_totalsize = n)) \<and>
    (\<exists>b'. fdt_pack b = Some (0, b') \<and> holds_tree b' rs es \<and> hdr b' H_totalsize \<le> hdr b H_totalsize \<and>
      hdr b' H_totalsize = 40 + 16 * (int (length rs) + 1) + hdr b H_size_dt_struct + hdr b H_size_dt_strings)"
proof (intro conjI allI impI; (elim conjE)?)
  fix n
  show "\<exists>b'. fdt_open_into b 0 0 n = Some (0, b') \<and> holds_tree b' rs es \<and> hdr b' H_totalsize = n"
    if "hdr b H_totalsize \<le> n" "n < INT_MAX" "n \<le> blen b"
    using open_into_tree [OF assms that] by blast
next
  have l: "layout rs b" using assms by (simp add: holds_tree_def)
  note d = layoutD [OF l]
  have "40 + 16 * (int (length rs) + 1) + hdr b H_size_dt_struct + hdr b H_size_dt_strings \<le> hdr b H_totalsize" using d(4,6,7,12) by linarith
  then show "\<exists>b'. fdt_pack b = Some (0, b') \<and> holds_tree b' rs es \<and> hdr b' H_totalsize \<le> hdr b H_totalsize \<and>
      hdr b' H_totalsize = 40 + 16 * (int (length rs) + 1) + hdr b H_size_dt_struct + hdr b H_size_dt_strings"
    using pack_tree [OF assms] by auto
qed

theorem open_and_pack_keep_tree_witness:
  "(\<exists>b'. fdt_open_into (file_blob (sample_rw 0 @ replicate 16 0)) 0 0 120 = Some (0, b') \<and> holds_tree b' [] rw_tree) \<and>
   (\<exists>b'. fdt_pack (file_blob (sample_rw 32)) = Some (0, b') \<and> holds_tree b' [] rw_tree \<and> hdr b' H_totalsize = 104)"
proof -
  let ?b = "file_blob (sample_rw 0 @ replicate 16 0)"
  have h: "hdr ?b H_totalsize = 104" "hdr (file_blob (sample_rw 32)) H_size_dt_struct = 44" "hdr (file_blob (sample_rw 32)) H_size_dt_strings = 4"
    "hdr (file_blob (sample_rw 0)) H_totalsize = 104" "blen ?b = 120" by code_simp+
  have "holds_tree ?b [] rw_tree"
  proof -
    let ?ts = "[TBegin [], TProp 0 [0x11, 0x22, 0x33, 0x44], TBegin (cstr ''a''), TEnd, TEnd]"
    have "layout [] ?b" "struct_items ?b ?ts (flat (ENode [] rw_tree))" by code_simp+
    then show ?thesis unfolding holds_tree_def by (intro conjI exI [of _ ?ts]; simp)
  qed
  from conjunct1 [OF open_and_pack_keep_tree [OF this], rule_format, of 120] conjunct2 [OF open_and_pack_keep_tree [OF sample_holds(2)]]
  show ?thesis using h by auto
qed

end
