(* ===== verification/Dtc_Util.thy ===== *)
theory Dtc_Util
  imports C_Library
begin

text \<open>
  The string helpers of dtc's \<open>util.c\<close>: escape sequences, \<open>join_path\<close> and
  \<open>util_is_printable_string\<close>. A \<open>const char *\<close> that is indexed is the list of the bytes its
  pointer can reach; reading behind them is \<open>None\<close>, and so are \<open>die\<close> and a failed
  \<open>assert\<close>, which end the program.
\<close>

section \<open>Escape sequences\<close>

text \<open>The character and the index behind its encoding.\<close>

definition get_oct_char :: "u8 list \<Rightarrow> int \<Rightarrow> (u8 \<times> int) option" where
  "get_oct_char s i = do {
     x \<leftarrow> strncpy s i 3;
     let (val, n) = strtol x 8;
     if n > 0 then Some (word_of_int val, i + n) else None }"

definition get_hex_char :: "u8 list \<Rightarrow> int \<Rightarrow> (u8 \<times> int) option" where
  "get_hex_char s i = do {
     x \<leftarrow> strncpy s i 2;
     let (val, n) = strtol x 16;
     if n > 0 then Some (word_of_int val, i + n) else None }"

definition get_escape_char :: "u8 list \<Rightarrow> int \<Rightarrow> (u8 \<times> int) option" where
  "get_escape_char s i = do {
     c \<leftarrow> at s i;
     let j = i + 1;
     if c = chr (CHR ''a'') then Some (7, j)
     else if c = chr (CHR ''b'') then Some (8, j)
     else if c = chr (CHR ''t'') then Some (9, j)
     else if c = chr (CHR ''n'') then Some (10, j)
     else if c = chr (CHR ''v'') then Some (11, j)
     else if c = chr (CHR ''f'') then Some (12, j)
     else if c = chr (CHR ''r'') then Some (13, j)
     else if chr (CHR ''0'') \<le> c \<and> c \<le> chr (CHR ''7'') then get_oct_char s (j - 1)
     else if c = chr (CHR ''x'') then get_hex_char s j
     else Some (c, j) }"

section \<open>Paths and printable strings\<close>

definition join_path :: "cstring \<Rightarrow> cstring \<Rightarrow> cstring" where
  "join_path path name =
     (let needslash = \<not> (length path > 0 \<and> last path = chr (CHR ''/''))
      in path @ (if needslash then [chr (CHR ''/'')] else []) @ name)"

text \<open>The inner \<open>while\<close> of \<open>util_is_printable_string\<close>: the first index from \<open>s\<close> on that is \<open>se\<close>, a NUL or
  not printable.\<close>

function skip_printable :: "u8 list \<Rightarrow> int \<Rightarrow> int \<Rightarrow> int option" where
  "skip_printable data s se =
     (if s < se then do {
        c \<leftarrow> at data s;
        if c \<noteq> 0 \<and> isprint c then skip_printable data (s + 1) se else Some s }
      else Some s)"
  by pat_completeness auto
termination
  by (relation "measure (\<lambda>(data, s, se). nat (se - s))") auto

declare skip_printable.simps [simp del]

partial_function (option) printable_loop :: "u8 list \<Rightarrow> int \<Rightarrow> int \<Rightarrow> bool option" where
  "printable_loop data s se =
     (if s < se then do {
        s' \<leftarrow> skip_printable data s se;
        c \<leftarrow> at data s';
        if c \<noteq> 0 \<or> s' = s then Some False else printable_loop data (s' + 1) se }
      else Some True)"

definition util_is_printable_string :: "u8 list \<Rightarrow> int \<Rightarrow> bool option" where
  "util_is_printable_string data len =
     (if len = 0 then Some False
      else do {
        c \<leftarrow> at data (len - 1);
        if c \<noteq> 0 then Some False else printable_loop data 0 len })"

declare printable_loop.simps [code]

end
