(* ===== verification/Dtc_Data.thy ===== *)
theory Dtc_Data
  imports Dtc_Util
begin

text \<open>
  dtc's property values, \<open>data.c\<close>: a growing allocation, its used length and the list of markers
  into it. A byte of the allocation that has not been written yet is \<open>None\<close>; a store
  outside the allocation, a loop that does not end and \<open>die\<close> give \<open>None\<close> as the result
  of the operation. \<open>xmalloc\<close> and \<open>xrealloc\<close> end the program instead of failing, so an
  allocation always succeeds here.
\<close>

section \<open>The data type\<close>

datatype markertype = TYPE_NONE | REF_PHANDLE | REF_PATH | LABEL | TYPE_UINT8 | TYPE_UINT16
  | TYPE_UINT32 | TYPE_UINT64 | TYPE_STRING

record marker =
  mtype :: markertype
  moffset :: int
  mref :: "cstring option"

type_synonym raw = "u8 option list"

record data =
  dlen :: int
  dval :: raw
  dmarkers :: "marker list"

definition empty_data :: data where
  "empty_data = \<lparr>dlen = 0, dval = [], dmarkers = []\<rparr>"

text \<open>\<open>memcpy\<close> into the allocation, and \<open>xrealloc\<close>.\<close>

definition poke :: "raw \<Rightarrow> int \<Rightarrow> raw \<Rightarrow> raw option" where
  "poke v p xs = (if 0 \<le> p \<and> p + int (length xs) \<le> int (length v)
     then Some (take (nat p) v @ xs @ drop (nat p + length xs) v) else None)"

definition peek :: "raw \<Rightarrow> int \<Rightarrow> int \<Rightarrow> raw option" where
  "peek v p n = (if 0 \<le> p \<and> 0 \<le> n \<and> p + n \<le> int (length v)
     then Some (take (nat n) (drop (nat p) v)) else None)"

definition xrealloc :: "raw \<Rightarrow> int \<Rightarrow> raw" where
  "xrealloc v n = take (nat n) v @ replicate (nat n - length v) None"

section \<open>Growing\<close>

partial_function (option) grow_loop :: "int \<Rightarrow> int \<Rightarrow> int option" where
  "grow_loop need newsize =
     (if need > newsize then grow_loop need (u32 (newsize * 2)) else Some newsize)"

definition data_grow_for :: "data \<Rightarrow> int \<Rightarrow> data option" where
  "data_grow_for d xlen =
     (if xlen = 0 then Some d
      else do {
        newsize \<leftarrow> grow_loop (u32 (dlen d + xlen)) xlen;
        Some (d\<lparr>dval := xrealloc (dval d) newsize\<rparr>) })"

section \<open>Appending\<close>

definition data_copy_mem :: "raw \<Rightarrow> int \<Rightarrow> data option" where
  "data_copy_mem mem len = do {
     d \<leftarrow> data_grow_for empty_data (u32 len);
     src \<leftarrow> peek mem 0 len;
     v \<leftarrow> poke (dval d) 0 src;
     Some (d\<lparr>dval := v, dlen := u32 len\<rparr>) }"

definition data_append_data :: "data \<Rightarrow> raw \<Rightarrow> int \<Rightarrow> data option" where
  "data_append_data d p len = do {
     d \<leftarrow> data_grow_for d (u32 len);
     src \<leftarrow> peek p 0 len;
     v \<leftarrow> poke (dval d) (dlen d) src;
     Some (d\<lparr>dval := v, dlen := u32 (dlen d + len)\<rparr>) }"

text \<open>\<open>data_insert_at_marker\<close>: the marker is given by its index in the list.\<close>

definition data_insert_at_marker :: "data \<Rightarrow> nat \<Rightarrow> raw \<Rightarrow> int \<Rightarrow> data option" where
  "data_insert_at_marker d k p len = do {
     d \<leftarrow> data_grow_for d (u32 len);
     m \<leftarrow> at (dmarkers d) (int k);
     moved \<leftarrow> peek (dval d) (moffset m) (u32 (dlen d - moffset m));
     v \<leftarrow> poke (dval d) (moffset m + len) moved;
     src \<leftarrow> peek p 0 len;
     v \<leftarrow> poke v (moffset m) src;
     Some (d\<lparr>dval := v, dlen := u32 (dlen d + len),
             dmarkers := take (Suc k) (dmarkers d) @
               map (\<lambda>m. m\<lparr>moffset := u32 (moffset m + len)\<rparr>) (drop (Suc k) (dmarkers d))\<rparr>) }"

definition data_append_markers :: "data \<Rightarrow> marker list \<Rightarrow> data" where
  "data_append_markers d m = d\<lparr>dmarkers := dmarkers d @ m\<rparr>"

definition data_merge :: "data \<Rightarrow> data \<Rightarrow> data option" where
  "data_merge d1 d2 = do {
     d \<leftarrow> data_append_data d1 (dval d2) (s32 (dlen d2));
     let m2 = map (\<lambda>m. m\<lparr>moffset := u32 (moffset m + dlen d1)\<rparr>) (dmarkers d2);
     Some (data_append_markers d m2) }"

text \<open>The big-endian bytes of a literal of the given width.\<close>

definition bytes16 :: "int \<Rightarrow> u8 list" where
  "bytes16 v = [word_of_int (v div 256), word_of_int v]"

definition data_append_integer :: "data \<Rightarrow> int \<Rightarrow> int \<Rightarrow> data option" where
  "data_append_integer d value bits =
     (if bits = 8 then data_append_data d [Some (word_of_int value)] 1
      else if bits = 16 then data_append_data d (map Some (bytes16 value)) 2
      else if bits = 32 then data_append_data d (map Some (bytes32 value)) 4
      else if bits = 64 then data_append_data d (map Some (bytes64 value)) 8
      else None)"

definition data_append_re :: "data \<Rightarrow> int \<Rightarrow> int \<Rightarrow> data option" where
  "data_append_re d address sz =
     data_append_data d (map Some (bytes64 address @ bytes64 sz)) 16"

definition data_append_cell :: "data \<Rightarrow> int \<Rightarrow> data option" where
  "data_append_cell d w = data_append_integer d w (4 * 8)"

definition data_append_addr :: "data \<Rightarrow> int \<Rightarrow> data option" where
  "data_append_addr d addr = data_append_integer d addr (8 * 8)"

definition data_append_byte :: "data \<Rightarrow> u8 \<Rightarrow> data option" where
  "data_append_byte d byte = data_append_data d [Some byte] 1"

definition data_append_zeroes :: "data \<Rightarrow> int \<Rightarrow> data option" where
  "data_append_zeroes d len = do {
     d \<leftarrow> data_grow_for d (u32 len);
     v \<leftarrow> (if len < 0 then None else poke (dval d) (dlen d) (replicate (nat len) (Some 0)));
     Some (d\<lparr>dval := v, dlen := u32 (dlen d + len)\<rparr>) }"

text \<open>\<open>ALIGN (d.len, align)\<close> is an \<open>unsigned int\<close>, stored in an \<open>int\<close>.\<close>

definition data_append_align :: "data \<Rightarrow> int \<Rightarrow> data option" where
  "data_append_align d align =
     (let newlen = s32 (u32 (dlen d + align - 1) AND NOT (align - 1))
      in data_append_zeroes d (s32 (newlen - dlen d)))"

definition data_add_marker :: "data \<Rightarrow> markertype \<Rightarrow> cstring option \<Rightarrow> data" where
  "data_add_marker d type ref =
     data_append_markers d [\<lparr>mtype = type, moffset = dlen d, mref = ref\<rparr>]"

section \<open>Strings and files\<close>

partial_function (option) escape_loop :: "data \<Rightarrow> u8 list \<Rightarrow> int \<Rightarrow> int \<Rightarrow> data option" where
  "escape_loop d s i len =
     (if i < len then do {
        c \<leftarrow> at s i;
        (c, i) \<leftarrow> (if c = chr (CHR 0x5C) then get_escape_char s (i + 1) else Some (c, i + 1));
        v \<leftarrow> poke (dval d) (dlen d) [Some c];
        escape_loop (d\<lparr>dval := v, dlen := u32 (dlen d + 1)\<rparr>) s i len }
      else do {
        v \<leftarrow> poke (dval d) (dlen d) [Some 0];
        Some (d\<lparr>dval := v, dlen := u32 (dlen d + 1)\<rparr>) })"

definition data_copy_escape_string :: "u8 list \<Rightarrow> int \<Rightarrow> data option" where
  "data_copy_escape_string s len = do {
     let d = data_add_marker empty_data TYPE_STRING None;
     d \<leftarrow> data_grow_for d (u32 (len + 1));
     escape_loop d s 0 len }"

text \<open>A file is what is left to read of it and whether a read has hit its end; reads do not fail.\<close>

record cfile =
  fbytes :: "u8 list"
  feof :: bool

definition fread :: "cfile \<Rightarrow> int \<Rightarrow> u8 list \<times> cfile" where
  "fread f n = (take (nat n) (fbytes f),
     \<lparr>fbytes = drop (nat n) (fbytes f), feof = feof f \<or> int (length (fbytes f)) < n\<rparr>)"

partial_function (option) copy_file_loop :: "data \<Rightarrow> cfile \<Rightarrow> int \<Rightarrow> data option" where
  "copy_file_loop d f maxlen =
     (if \<not> feof f \<and> dlen d < maxlen then do {
        let chunksize = (if maxlen = 18446744073709551615 then 4096 else maxlen - dlen d);
        d \<leftarrow> data_grow_for d (u32 chunksize);
        let (bytes, f) = fread f chunksize;
        v \<leftarrow> poke (dval d) (dlen d) (map Some bytes);
        let ret = int (length bytes);
        if u64 (dlen d + ret) < dlen d then None
        else copy_file_loop (d\<lparr>dval := v, dlen := u32 (dlen d + ret)\<rparr>) f maxlen }
      else Some d)"

definition data_copy_file :: "cfile \<Rightarrow> int \<Rightarrow> data option" where
  "data_copy_file f maxlen = copy_file_loop (data_add_marker empty_data TYPE_NONE None) f maxlen"

function one_string_loop :: "raw \<Rightarrow> int \<Rightarrow> int \<Rightarrow> bool option" where
  "one_string_loop v i len =
     (if i < len - 1 then do {
        b \<leftarrow> at v i;
        c \<leftarrow> b;
        if c = 0 then Some False else one_string_loop v (i + 1) len }
      else do {
        b \<leftarrow> at v (len - 1);
        c \<leftarrow> b;
        Some (c = 0) })"
  by pat_completeness auto
termination
  by (relation "measure (\<lambda>(v, i, len). nat (len - i))") auto

declare one_string_loop.simps [simp del]

definition data_is_one_string :: "data \<Rightarrow> bool option" where
  "data_is_one_string d =
     (let len = s32 (dlen d) in
      if len = 0 then Some False else one_string_loop (dval d) 0 len)"

declare grow_loop.simps [code] escape_loop.simps [code] copy_file_loop.simps [code]

section \<open>The bytes of a value\<close>

definition contents :: "data \<Rightarrow> raw" where
  "contents d = take (nat (dlen d)) (dval d)"

text \<open>The invariant of a value: the used length lies within the allocation, every used byte has been
  written, and the markers point into the used part.\<close>

definition data_ok :: "data \<Rightarrow> bool" where
  "data_ok d \<longleftrightarrow> 0 \<le> dlen d \<and> dlen d \<le> int (length (dval d)) \<and> None \<notin> set (contents d) \<and>
     list_all (\<lambda>m. 0 \<le> moffset m \<and> moffset m \<le> dlen d) (dmarkers d)"

abbreviation (input) DATA_MAX :: int where "DATA_MAX \<equiv> 2147483648"

lemma data_okD:
  assumes "data_ok d"
  shows "0 \<le> dlen d" "dlen d \<le> int (length (dval d))" "None \<notin> set (contents d)"
    "m \<in> set (dmarkers d) \<Longrightarrow> 0 \<le> moffset m \<and> moffset m \<le> dlen d"
    "length (contents d) = nat (dlen d)"
  using assms by (auto simp: data_ok_def list_all_iff contents_def)

lemma data_ok_empty [simp]: "data_ok empty_data"
  by (simp add: data_ok_def empty_data_def contents_def)

lemma contents_empty [simp]: "contents empty_data = []"
  by (simp add: contents_def empty_data_def)

lemma grow_loop_ends:
  assumes "1 \<le> newsize" "newsize < 4294967296" "need \<le> DATA_MAX"
  shows "\<exists>n. grow_loop need newsize = Some n \<and> need \<le> n \<and> newsize \<le> n"
  using assms
proof (induction "nat (need - newsize)" arbitrary: newsize rule: less_induct)
  case less
  show ?case
  proof (cases "need > newsize")
    case True
    then have u: "u32 (newsize * 2) = newsize * 2" using less.prems by (intro u32_id) auto
    then have "\<exists>n. grow_loop need (newsize * 2) = Some n \<and> need \<le> n \<and> newsize * 2 \<le> n"
      using less.hyps [of "newsize * 2"] less.prems True by auto
    then show ?thesis using True u less.prems by (subst grow_loop.simps) force
  next
    case False
    then show ?thesis by (subst grow_loop.simps) simp
  qed
qed

lemma contents_xrealloc:
  assumes "data_ok d" "dlen d \<le> n"
  shows "contents (d\<lparr>dval := xrealloc (dval d) n\<rparr>) = contents d"
  using assms by (auto simp: contents_def xrealloc_def data_ok_def min_def)

lemma data_grow_for_ok:
  assumes "data_ok d" "0 \<le> xlen" "dlen d + xlen \<le> DATA_MAX"
  obtains v where "data_grow_for d xlen = Some (d\<lparr>dval := v\<rparr>)"
    "dlen d + xlen \<le> int (length v)" "take (nat (dlen d)) v = contents d"
proof (cases "xlen = 0")
  case True
  then show ?thesis using that [of "dval d"] assms
    by (simp add: data_grow_for_def contents_def data_ok_def)
next
  case False
  have u: "u32 (dlen d + xlen) = dlen d + xlen"
    using assms by (intro u32_id) (auto simp: data_ok_def)
  obtain n where n: "grow_loop (dlen d + xlen) xlen = Some n" "dlen d + xlen \<le> n"
    using grow_loop_ends [of xlen "dlen d + xlen"] assms False by (auto simp: data_ok_def)
  have "int (length (xrealloc (dval d) n)) = n"
    using assms n by (auto simp: xrealloc_def data_ok_def)
  moreover have "take (nat (dlen d)) (xrealloc (dval d) n) = contents d"
    using contents_xrealloc [OF assms(1), of n] n assms by (simp add: contents_def)
  ultimately show ?thesis
    using that [of "xrealloc (dval d) n"] False u n by (simp add: data_grow_for_def)
qed

lemma poke_end:
  assumes "0 \<le> p" "p + int (length xs) \<le> int (length v)"
  obtains v' where "poke v p xs = Some v'" "take (nat p + length xs) v' = take (nat p) v @ xs"
    "length v' = length v"
  using assms by (auto simp: poke_def)

text \<open>\<open>appended d xs d'\<close>: the value \<open>d'\<close> is \<open>d\<close> with the bytes \<open>xs\<close> behind it.\<close>

definition appended :: "data \<Rightarrow> raw \<Rightarrow> data \<Rightarrow> bool" where
  "appended d xs d' \<longleftrightarrow> data_ok d' \<and> contents d' = contents d @ xs \<and>
     dmarkers d' = dmarkers d \<and> dlen d' = dlen d + int (length xs)"

text \<open>Every append has the same shape: grow, store behind the used part, move its end.\<close>

lemma append_shape:
  assumes d: "data_ok d" "None \<notin> set xs" "dlen d + int (length xs) \<le> DATA_MAX"
  obtains g v where "data_grow_for d (int (length xs)) = Some g"
    "poke (dval g) (dlen g) xs = Some v"
    "appended d xs (g\<lparr>dval := v, dlen := u32 (dlen g + int (length xs))\<rparr>)"
proof -
  obtain w where w: "data_grow_for d (int (length xs)) = Some (d\<lparr>dval := w\<rparr>)"
    "dlen d + int (length xs) \<le> int (length w)" "take (nat (dlen d)) w = contents d"
    using data_grow_for_ok [OF d(1), of "int (length xs)"] d(3) by auto
  obtain v where v: "poke w (dlen d) xs = Some v"
    "take (nat (dlen d) + length xs) v = contents d @ xs" "length v = length w"
    using poke_end [of "dlen d" xs w] w data_okD(1) [OF d(1)] by metis
  let ?d = "(d\<lparr>dval := w\<rparr>)\<lparr>dval := v, dlen := u32 (dlen d + int (length xs))\<rparr>"
  have u: "u32 (dlen d + int (length xs)) = dlen d + int (length xs)"
    using d data_okD(1) [OF d(1)] by (intro u32_id) auto
  have c: "contents ?d = contents d @ xs"
    using v u data_okD(1) [OF d(1)] by (simp add: contents_def nat_add_distrib)
  have "data_ok ?d"
    using d w v u c by (auto simp: data_ok_def list_all_iff)
  then show ?thesis using that [of "d\<lparr>dval := w\<rparr>" v] w v u c by (simp add: appended_def)
qed

lemma peek_all: "peek xs 0 (int (length xs)) = Some xs"
  by (simp add: peek_def)

lemma u32_length: "data_ok d \<Longrightarrow> dlen d + n \<le> DATA_MAX \<Longrightarrow> 0 \<le> n \<Longrightarrow> u32 n = n"
  using data_okD(1) [of d] by (intro u32_id) auto

lemma append_data_spec:
  assumes "data_ok d" "None \<notin> set p" "dlen d + int (length p) \<le> DATA_MAX"
  shows "\<exists>d'. data_append_data d p (int (length p)) = Some d' \<and> appended d p d'"
  using u32_length [OF assms(1,3)]
  by (rule_tac append_shape [OF assms]) (auto simp: data_append_data_def peek_all)

lemma append_zeroes_spec:
  assumes "data_ok d" "0 \<le> len" "dlen d + len \<le> DATA_MAX"
  shows "\<exists>d'. data_append_zeroes d len = Some d' \<and> appended d (replicate (nat len) (Some 0)) d'"
proof -
  have a: "None \<notin> set (replicate (nat len) (Some (0 :: u8)))"
    "dlen d + int (length (replicate (nat len) (Some (0 :: u8)))) \<le> DATA_MAX" using assms by auto
  show ?thesis
    using u32_length [OF assms(1,3,2)] assms(2)
    by (rule_tac append_shape [OF assms(1) a]) (auto simp: data_append_zeroes_def)
qed

text \<open>The bytes of an integer literal.\<close>

definition literal :: "int \<Rightarrow> int \<Rightarrow> u8 list" where
  "literal value bits =
     (if bits = 8 then [word_of_int value] else if bits = 16 then bytes16 value
      else if bits = 32 then bytes32 value else bytes64 value)"

lemma append_integer_spec:
  assumes "data_ok d" "bits \<in> {8, 16, 32, 64}" "dlen d + bits div 8 \<le> DATA_MAX"
  shows "\<exists>d'. data_append_integer d value bits = Some d' \<and> appended d (map Some (literal value bits)) d'"
proof -
  have "int (length (literal value bits)) = bits div 8"
    using assms(2) by (auto simp: literal_def bytes16_def)
  then have "\<exists>d'. data_append_data d (map Some (literal value bits))
      (int (length (map Some (literal value bits)))) = Some d' \<and> appended d (map Some (literal value bits)) d'"
    using assms by (intro append_data_spec) auto
  then show ?thesis
    using assms(2) by (auto simp: data_append_integer_def literal_def bytes16_def)
qed

text \<open>The big-endian value of a list of bytes.\<close>

definition be_value :: "u8 list \<Rightarrow> int" where
  "be_value bs = foldl (\<lambda>a b. a * 256 + uint b) 0 bs"

lemma be_value_literal:
  assumes "bits \<in> {8, 16, 32, 64}"
  shows "be_value (literal value bits) = value mod 2 ^ nat bits"
proof -
  have m16: "value div 256 mod 256 * 256 + value mod 256 = value mod 65536"
    using zmod_zmult2_eq [of 256 "value" 256] by simp
  have m64: "u32 (value div 4294967296) * 4294967296 + u32 value = u64 value"
    using zmod_zmult2_eq [of 4294967296 "value" 4294967296] by (simp add: u32_def u64_def)
  have horner: "(((x * 256 + a) * 256 + b) * 256 + c) * 256 + d =
      x * 4294967296 + (a * 16777216 + b * 65536 + c * 256 + d)" for x a b c d :: int
    by (simp add: algebra_simps)
  have app: "be_value (xs @ bytes32 v) = be_value xs * 4294967296 + u32 v" for xs v
    unfolding be_value_def bytes32_alt foldl_append foldl.simps uint_byte_of_int horner u32_digits ..
  have b32: "be_value (bytes32 v) = u32 v" for v
    using app [of "[]" v] by (simp add: be_value_def)
  have "be_value (bytes16 value) = value mod 65536"
    unfolding m16 [symmetric] by (simp add: be_value_def bytes16_def)
  moreover have "be_value (bytes64 value) = u64 value"
    unfolding m64 [symmetric] bytes64_alt app b32 ..
  moreover have "be_value [word_of_int value] = value mod 256" by (simp add: be_value_def)
  ultimately show ?thesis
    using assms b32 [of "value"] by (auto simp: literal_def u32_def u64_def)
qed

subsection \<open>Sequences of appends\<close>

text \<open>An operation that appends the encoding of an item. Whatever a caller appends item by item, the value
  ends up as the concatenation of the encodings.\<close>

fun append_all :: "(data \<Rightarrow> 'x \<Rightarrow> data option) \<Rightarrow> data \<Rightarrow> 'x list \<Rightarrow> data option" where
  "append_all app d [] = Some d"
| "append_all app d (x # xs) = do { d \<leftarrow> app d x; append_all app d xs }"

locale appender =
  fixes app :: "data \<Rightarrow> 'x \<Rightarrow> data option"
    and enc :: "'x \<Rightarrow> raw"
    and fits :: "'x \<Rightarrow> bool"
  assumes app_appends:
    "data_ok d \<Longrightarrow> fits x \<Longrightarrow> dlen d + int (length (enc x)) \<le> DATA_MAX \<Longrightarrow>
       \<exists>d'. app d x = Some d' \<and> appended d (enc x) d'"
begin

lemma append_all_concat:
  assumes "data_ok d" "list_all fits xs" "dlen d + int (length (concat (map enc xs))) \<le> DATA_MAX"
  shows "\<exists>d'. append_all app d xs = Some d' \<and> appended d (concat (map enc xs)) d'"
  using assms
proof (induction xs arbitrary: d)
  case Nil
  then show ?case by (simp add: appended_def)
next
  case (Cons x xs)
  then obtain d1 where d1: "app d x = Some d1" "appended d (enc x) d1"
    using app_appends [of d x] by fastforce
  then obtain d2 where "append_all app d1 xs = Some d2" "appended d1 (concat (map enc xs)) d2"
    using Cons.IH [of d1] Cons.prems by (auto simp: appended_def)
  then show ?case using d1 by (auto simp: appended_def)
qed

end

interpretation byte_appends: appender "\<lambda>d p. data_append_data d p (int (length p))" "\<lambda>p. p"
  "\<lambda>p. None \<notin> set p"
  by unfold_locales (rule append_data_spec)

interpretation cell_appends: appender data_append_cell "\<lambda>w. map Some (bytes32 w)" "\<lambda>w. True"
proof unfold_locales
  fix d w
  assume "data_ok d" "dlen d + int (length (map Some (bytes32 w))) \<le> DATA_MAX"
  then show "\<exists>d'. data_append_cell d w = Some d' \<and> appended d (map Some (bytes32 w)) d'"
    using append_integer_spec [of d 32 w] by (simp add: data_append_cell_def literal_def)
qed

lemma align_round_up:
  fixes n :: int
  assumes "0 \<le> n" "n + 2 ^ k - 1 < 4294967296"
  shows "u32 (n + 2 ^ k - 1) AND NOT (2 ^ k - 1) = 2 ^ k * ((n + 2 ^ k - 1) div 2 ^ k)"
proof -
  have "(1 :: int) \<le> 2 ^ k" by simp
  then have "0 \<le> n + 2 ^ k - 1" using assms(1) by linarith
  then have "u32 (n + 2 ^ k - 1) = n + 2 ^ k - 1" using assms by (intro u32_id) auto
  then show ?thesis by (simp add: and_not_mask)
qed

lemma append_align_spec:
  assumes d: "data_ok d" "dlen d + 2 ^ k \<le> 2147483647"
  shows "\<exists>d' n. data_append_align d (2 ^ k) = Some d' \<and> n < 2 ^ k \<and>
    appended d (replicate n (Some 0)) d' \<and> 2 ^ k dvd dlen d'"
proof -
  define a :: int where "a = 2 ^ k"
  define r where "r = a * ((dlen d + a - 1) div a)"
  have a: "1 \<le> a" by (simp add: a_def)
  have l: "0 \<le> dlen d" using data_okD(1) [OF d(1)] .
  have "r = dlen d + a - 1 - (dlen d + a - 1) mod a" unfolding r_def by (simp add: minus_mod_eq_mult_div)
  moreover have "0 \<le> (dlen d + a - 1) mod a" "(dlen d + a - 1) mod a < a" using a by auto
  ultimately have r: "dlen d \<le> r" "r < dlen d + a" by linarith+
  have n: "u32 (dlen d + a - 1) AND NOT (a - 1) = r"
    using align_round_up [of "dlen d" k] d(2) l by (simp add: a_def r_def)
  have s: "s32 r = r" "s32 (r - dlen d) = r - dlen d"
    using r l d(2) by (auto simp: a_def intro!: s32_id)
  obtain d' where d': "data_append_zeroes d (r - dlen d) = Some d'"
    "appended d (replicate (nat (r - dlen d)) (Some 0)) d'"
    using append_zeroes_spec [OF d(1), of "r - dlen d"] r l d(2) by (auto simp: a_def)
  have "a dvd dlen d'" using d'(2) r by (simp add: appended_def r_def)
  moreover have "int (nat (r - dlen d)) < a" using r by simp
  then have "nat (r - dlen d) < 2 ^ k" unfolding a_def by (metis of_nat_less_numeral_power_cancel_iff)
  moreover have "data_append_align d a = Some d'"
    using d'(1) n s by (simp add: data_append_align_def)
  ultimately show ?thesis using d'(2) unfolding a_def by blast
qed

definition shift_marker :: "int \<Rightarrow> marker \<Rightarrow> marker" where
  "shift_marker n m = m\<lparr>moffset := moffset m + n\<rparr>"

lemma shift_u32:
  assumes "0 \<le> moffset m" "moffset m + n \<le> DATA_MAX" "0 \<le> n"
  shows "m\<lparr>moffset := u32 (moffset m + n)\<rparr> = shift_marker n m"
  using assms by (simp add: shift_marker_def u32_id)

lemma merge_spec:
  assumes d: "data_ok d1" "data_ok d2" "dlen d1 + dlen d2 < DATA_MAX"
  shows "\<exists>d. data_merge d1 d2 = Some d \<and> data_ok d \<and> contents d = contents d1 @ contents d2 \<and>
    dmarkers d = dmarkers d1 @ map (shift_marker (dlen d1)) (dmarkers d2)"
proof -
  note o = data_okD [OF d(1)] data_okD [OF d(2)]
  have l: "int (length (contents d2)) = dlen d2" using o by simp
  have s: "s32 (dlen d2) = dlen d2" using o d by (intro s32_id) auto
  have p: "peek (dval d2) 0 (dlen d2) = Some (contents d2)"
    using o by (simp add: peek_def contents_def)
  have "peek (contents d2) 0 (dlen d2) = Some (contents d2)" using peek_all [of "contents d2"] l by simp
  moreover obtain d where a: "data_append_data d1 (contents d2) (dlen d2) = Some d" "appended d1 (contents d2) d"
    using append_data_spec [of d1 "contents d2"] d o l by auto
  ultimately have "data_append_data d1 (dval d2) (dlen d2) = Some d"
    using p by (simp add: data_append_data_def)
  moreover have "map (\<lambda>m. m\<lparr>moffset := u32 (moffset m + dlen d1)\<rparr>) (dmarkers d2) =
      map (shift_marker (dlen d1)) (dmarkers d2)"
    using o d by (intro map_cong refl shift_u32) force+
  ultimately show ?thesis
    using a(2) o l by (auto simp: data_merge_def s data_append_markers_def appended_def data_ok_def
        list_all_iff contents_def shift_marker_def)
qed

lemma poke_split:
  assumes "poke v p xs = Some v'"
  shows "v' = take (nat p) v @ xs @ drop (nat p + length xs) v" "0 \<le> p"
    "p + int (length xs) \<le> int (length v)"
  using assms by (auto simp: poke_def split: if_splits)

lemma insert_shape:
  fixes v :: raw
  assumes "off \<le> n" "n + len \<le> length v" "length p = len"
  shows "\<exists>w w'. peek v (int off) (int (n - off)) = Some (take (n - off) (drop off v)) \<and>
    poke v (int (off + len)) (take (n - off) (drop off v)) = Some w \<and>
    poke w (int off) p = Some w' \<and>
    take (n + len) w' = take off v @ p @ drop off (take n v) \<and> length w' = length v"
proof -
  let ?m = "take (n - off) (drop off v)"
  have m: "length ?m = n - off" using assms by simp
  have nt: "nat (int off + int len) = off + len" "off + len + n - off = n + len" by linarith+
  have ex: "\<exists>w. poke v (int (off + len)) ?m = Some w"
    using assms m by (auto simp: poke_def)
  then obtain w where w: "poke v (int (off + len)) ?m = Some w" by blast
  have wv: "w = take (off + len) v @ ?m @ drop (n + len) v" "length w = length v"
    using poke_split(1) [OF w] m assms nt by simp_all
  have "\<exists>w'. poke w (int off) p = Some w'" using assms wv(2) by (auto simp: poke_def)
  then obtain w' where w': "poke w (int off) p = Some w'" by blast
  have wd: "drop (off + len) w = ?m @ drop (n + len) v" using assms by (simp add: wv(1))
  have "take off w = take off v" using assms by (simp add: wv(1))
  then have w'v: "w' = take off v @ p @ ?m @ drop (n + len) v"
    using poke_split(1) [OF w'] assms(3) wd by simp
  then have "take (n + len) w' = take off v @ p @ ?m" using assms m by simp
  moreover have "length w' = length v" using w'v m assms by simp
  moreover have "peek v (int off) (int (n - off)) = Some ?m"
    using assms by (simp add: peek_def nat_diff_distrib)
  ultimately show ?thesis using w w' by (auto simp: drop_take)
qed

lemma insert_at_marker_spec:
  assumes d: "data_ok d" "k < length (dmarkers d)" "None \<notin> set p" "dlen d + int (length p) \<le> DATA_MAX"
  defines "off \<equiv> nat (moffset (dmarkers d ! k))"
  shows "\<exists>d'. data_insert_at_marker d k p (int (length p)) = Some d' \<and> data_ok d' \<and>
    contents d' = take off (contents d) @ p @ drop off (contents d) \<and>
    dmarkers d' = take (Suc k) (dmarkers d) @ map (shift_marker (int (length p))) (drop (Suc k) (dmarkers d))"
proof -
  let ?n = "nat (dlen d)" and ?len = "int (length p)"
  note o = data_okD [OF d(1)]
  have mk: "0 \<le> moffset (dmarkers d ! k)" "moffset (dmarkers d ! k) \<le> dlen d" using o(4) d(2) by auto
  have offi: "int off = moffset (dmarkers d ! k)" "off \<le> ?n" using mk o(1) by (auto simp: off_def)
  obtain v where v: "data_grow_for d ?len = Some (d\<lparr>dval := v\<rparr>)"
    "dlen d + ?len \<le> int (length v)" "take ?n v = contents d"
    using data_grow_for_ok [OF d(1), of ?len] d(4) by auto
  have nl: "?n + length p \<le> length v" using v(2) o(1) by linarith
  obtain w w' where w: "peek v (int off) (int (?n - off)) = Some (take (?n - off) (drop off v))"
    "poke v (int (off + length p)) (take (?n - off) (drop off v)) = Some w"
    "poke w (int off) p = Some w'"
    "take (?n + length p) w' = take off v @ p @ drop off (take ?n v)" "length w' = length v"
    using insert_shape [OF offi(2) nl refl] by blast
  have c: "take (?n + length p) w' = take off (contents d) @ p @ drop off (contents d)"
    using w(4) v(3) offi(2) by (metis min.absorb1 take_take)
  have u: "u32 (dlen d - int off) = int (?n - off)" "u32 (dlen d + ?len) = dlen d + ?len" "u32 ?len = ?len"
    using offi o(1) d(4) by (auto simp: u32_id of_nat_diff)
  have at: "at (dmarkers d) (int k) = Some (dmarkers d ! k)" using d(2) by (simp add: at_def)
  let ?ms = "take (Suc k) (dmarkers d) @ map (shift_marker ?len) (drop (Suc k) (dmarkers d))"
  have ms: "map (\<lambda>m. m\<lparr>moffset := u32 (moffset m + ?len)\<rparr>) (drop (Suc k) (dmarkers d)) =
      map (shift_marker ?len) (drop (Suc k) (dmarkers d))"
    using o(4) d(4) by (intro map_cong refl shift_u32) (force dest: in_set_dropD)+
  let ?d = "d\<lparr>dval := w', dlen := dlen d + ?len, dmarkers := ?ms\<rparr>"
  have "data_insert_at_marker d k p ?len = Some ?d"
    using v(1) w at offi u ms by (simp add: data_insert_at_marker_def peek_all add.commute)
  moreover have cd: "contents ?d = take off (contents d) @ p @ drop off (contents d)"
    using c o(1) by (simp add: contents_def nat_add_distrib)
  moreover have "data_ok ?d"
    using o v w(5) d(3) cd unfolding data_ok_def
    by (fastforce simp: list_all_iff shift_marker_def dest!: in_set_takeD in_set_dropD)
  ultimately show ?thesis by auto
qed

lemma grow_loop_zero: "0 < need \<Longrightarrow> grow_loop need 0 = None"
proof (rule ccontr)
  assume n: "0 < need" and "grow_loop need 0 \<noteq> None"
  then obtain r where r: "grow_loop need 0 = Some r" by blast
  have "\<not> (need = need \<and> (0::int) = 0)"
    by (rule grow_loop.raw_induct [where P = "\<lambda>a b r. \<not> (a = need \<and> b = 0)", OF _ r])
      (use n in \<open>fastforce simp: u32_def split: if_splits\<close>)
  then show False by simp
qed

lemma grow_loop_diverges:
  assumes "DATA_MAX < need" "need < 4294967296"
  shows "k \<le> 31 \<Longrightarrow> grow_loop need (2 ^ (31 - k)) = None"
proof (induction k)
  case 0
  then show ?case using assms grow_loop_zero [of need]
    by (subst grow_loop.simps) (simp add: u32_def)
next
  case (Suc k)
  then have e: "(2 :: int) ^ (31 - Suc k) * 2 = 2 ^ (31 - k)"
    by (metis Suc_diff_le diff_Suc_Suc mult.commute power_Suc)
  have "(2 :: int) ^ (31 - k) \<le> 2 ^ 31" by (intro power_increasing) auto
  then have p: "(2 :: int) ^ (31 - k) \<le> 2147483648" by simp
  then have "u32 (2 ^ (31 - Suc k) * 2) = 2 ^ (31 - k)" unfolding e by (intro u32_id) auto
  moreover have "(2 :: int) ^ (31 - Suc k) < need"
    using e p assms(1) zero_less_power [of "2 :: int" "31 - Suc k"] by linarith
  ultimately show ?case using Suc by (subst grow_loop.simps) simp
qed

lemma one_string_loop_iff:
  assumes "n \<le> length v" "None \<notin> set (take n v)" "i < n"
  shows "one_string_loop v (int i) (int n) =
    Some (v ! (n - 1) = Some 0 \<and> (\<forall>j. i \<le> j \<and> j < n - 1 \<longrightarrow> v ! j \<noteq> Some 0))"
  using assms(3)
proof (induction "n - i" arbitrary: i)
  case 0
  then show ?case by simp
next
  case (Suc m)
  have at: "at v (int j) = Some (v ! j)" "v ! j \<noteq> None" if "j < n" for j
  proof -
    show "at v (int j) = Some (v ! j)" using that assms(1) by (simp add: at_def)
    have "v ! j \<in> set (take n v)" using that assms(1) nth_mem [of j "take n v"] by simp
    then show "v ! j \<noteq> None" using assms(2) by metis
  qed
  show ?case
  proof (cases "i = n - 1")
    case True
    then have n: "n = Suc i" using Suc.prems by simp
    show ?thesis using at [OF Suc.prems] by (auto simp: n one_string_loop.simps [of v "int i"])
  next
    case False
    then have l: "int i < int n - 1" "Suc i < n" using Suc.prems by linarith+
    obtain c where c: "v ! i = Some c" using at(2) [OF Suc.prems] by auto
    have "one_string_loop v (int i + 1) (int n) = one_string_loop v (int (Suc i)) (int n)"
      by (simp add: add.commute)
    also have "\<dots> = Some (v ! (n - 1) = Some 0 \<and> (\<forall>j. Suc i \<le> j \<and> j < n - 1 \<longrightarrow> v ! j \<noteq> Some 0))"
      by (rule Suc.hyps(1)) (use Suc.hyps(2) l in auto)
    finally have r: "one_string_loop v (int i + 1) (int n) = \<dots>" .
    have sp: "(\<forall>j. i \<le> j \<and> j < n - 1 \<longrightarrow> v ! j \<noteq> Some 0) \<longleftrightarrow>
        c \<noteq> 0 \<and> (\<forall>j. Suc i \<le> j \<and> j < n - 1 \<longrightarrow> v ! j \<noteq> Some 0)"
    proof -
      have "i \<le> j \<longleftrightarrow> j = i \<or> Suc i \<le> j" for j by linarith
      then show ?thesis using c l(2) by auto
    qed
    show ?thesis unfolding sp
      using at(1) [OF Suc.prems] c l r by (subst one_string_loop.simps) auto
  qed
qed

lemma one_string_iff:
  assumes d: "data_ok d" "dlen d < DATA_MAX"
  shows "data_is_one_string d = Some (\<exists>s. contents d = map Some s @ [Some 0] \<and> 0 \<notin> set s)"
proof (cases "dlen d = 0")
  case True
  then have "contents d = []" by (simp add: contents_def)
  then show ?thesis using True by (simp add: data_is_one_string_def s32_def)
next
  case False
  note o = data_okD [OF d(1)]
  let ?n = "nat (dlen d)" and ?c = "contents d"
  have n: "0 < ?n" "?n \<le> length (dval d)" "int ?n = dlen d" using o False by auto
  have s: "s32 (dlen d) = dlen d" using o d by (intro s32_id) auto
  have "data_is_one_string d =
      Some (dval d ! (?n - 1) = Some 0 \<and> (\<forall>j. 0 \<le> j \<and> j < ?n - 1 \<longrightarrow> dval d ! j \<noteq> Some 0))"
    using one_string_loop_iff [of ?n "dval d" 0] n o(3) False s
    by (simp add: data_is_one_string_def contents_def Let_def)
  also have "dval d ! (?n - 1) = Some 0 \<and> (\<forall>j. 0 \<le> j \<and> j < ?n - 1 \<longrightarrow> dval d ! j \<noteq> Some 0) \<longleftrightarrow>
      last ?c = Some 0 \<and> Some 0 \<notin> set (butlast ?c)"
  proof -
    have "last ?c = dval d ! (?n - 1)"
      using n o(5) by (subst last_conv_nth) (auto simp: contents_def)
    then show ?thesis using n o(5) by (auto simp: contents_def in_set_conv_nth nth_butlast)
  qed
  also have "\<dots> \<longleftrightarrow> (\<exists>s. ?c = map Some s @ [Some 0] \<and> 0 \<notin> set s)"
  proof
    assume a: "last ?c = Some 0 \<and> Some 0 \<notin> set (butlast ?c)"
    have ne: "?c \<noteq> []" using n o(5) by auto
    then have nn: "None \<notin> set (butlast ?c)" using o(3) by (meson in_set_butlastD)
    have "map Some (map the (butlast ?c)) = butlast ?c"
      unfolding map_map by (rule map_idI) (use nn in \<open>metis comp_apply option.collapse\<close>)
    then have "?c = map Some (map the (butlast ?c)) @ [Some 0]"
      using a append_butlast_last_id [OF ne] by simp
    moreover have "0 \<notin> set (map the (butlast ?c))"
    proof
      assume "0 \<in> set (map the (butlast ?c))"
      then obtain x where "x \<in> set (butlast ?c)" "the x = 0" by auto
      then show False using a nn by (metis option.collapse)
    qed
    ultimately show "\<exists>s. ?c = map Some s @ [Some 0] \<and> 0 \<notin> set s" by blast
  qed auto
  finally show ?thesis .
qed

section \<open>Properties\<close>

text \<open>\<open>data_append_data\<close> grows the allocation as needed and puts the bytes behind the used part: the
  value is the concatenation, the markers stay, and the used length stays within the
  allocation; up to 2 GiB the growing loop returns.\<close>

theorem data_append_concatenates:
  assumes "data_ok d" "None \<notin> set p" "dlen d + int (length p) \<le> DATA_MAX"
  shows "\<exists>d'. data_append_data d p (int (length p)) = Some d' \<and> data_ok d' \<and>
    contents d' = contents d @ p \<and> dmarkers d' = dmarkers d"
  using append_data_spec [OF assms] by (auto simp: appended_def)

theorem data_append_concatenates_witness:
  "\<exists>d'. data_append_data empty_data [Some 7, Some 8] 2 = Some d' \<and> data_ok d' \<and>
    contents d' = [Some 7, Some 8] \<and> dmarkers d' = []"
proof -
  have "dlen empty_data = 0" "dmarkers empty_data = []" by (simp_all add: empty_data_def)
  then show ?thesis using data_append_concatenates [of empty_data "[Some 7, Some 8]"] by simp
qed

text \<open>Cells appended one by one with \<open>data_append_cell\<close> make the value grow by the concatenation of
  their big-endian encodings.\<close>

theorem data_append_cells_concatenates:
  assumes "data_ok d" "dlen d + 4 * int (length ws) \<le> DATA_MAX"
  shows "\<exists>d'. append_all data_append_cell d ws = Some d' \<and> data_ok d' \<and>
    contents d' = contents d @ map Some (concat (map bytes32 ws))"
proof -
  have "length (concat (map (\<lambda>w. map Some (bytes32 w)) ws)) = 4 * length ws"
    by (induction ws) auto
  moreover have "concat (map (\<lambda>w. map Some (bytes32 w)) ws) = map Some (concat (map bytes32 ws))"
    by (simp add: map_concat comp_def)
  ultimately show ?thesis
    using cell_appends.append_all_concat [of d ws] assms by (auto simp: appended_def list_all_iff)
qed

theorem data_append_cells_concatenates_witness:
  "\<exists>d'. append_all data_append_cell empty_data [1, 2] = Some d' \<and> data_ok d' \<and>
    contents d' = map Some [0, 0, 0, 1, 0, 0, 0, 2]"
proof -
  have "dlen empty_data = 0" "concat (map bytes32 [1, 2]) = [0, 0, 0, 1, 0, 0, 0, 2]"
    by (simp_all add: empty_data_def bytes32_alt)
  then show ?thesis using data_append_cells_concatenates [of empty_data "[1, 2]"] by simp
qed

text \<open>An integer literal of 8, 16, 32 or 64 bits is stored in that many bytes, and reading them back as
  a big-endian number gives the literal modulo its width.\<close>

theorem data_append_integer_roundtrip:
  assumes "data_ok d" "bits \<in> {8, 16, 32, 64}" "dlen d + bits div 8 \<le> DATA_MAX"
  shows "\<exists>d' bs. data_append_integer d value bits = Some d' \<and> contents d' = contents d @ map Some bs \<and>
    int (length bs) * 8 = bits \<and> be_value bs = value mod 2 ^ nat bits"
proof -
  have "int (length (literal value bits)) * 8 = bits"
    using assms(2) by (auto simp: literal_def bytes16_def)
  then show ?thesis
    using append_integer_spec [OF assms, of "value"] be_value_literal [OF assms(2), of "value"]
    by (auto simp: appended_def)
qed

theorem data_append_integer_roundtrip_witness:
  "\<exists>d' bs. data_append_integer empty_data 0x12345 16 = Some d' \<and> contents d' = map Some bs \<and>
    int (length bs) * 8 = 16 \<and> be_value bs = 0x2345"
proof -
  have "dlen empty_data = 0" by (simp add: empty_data_def)
  then show ?thesis using data_append_integer_roundtrip [of empty_data 16 "0x12345"] by simp
qed

text \<open>\<open>data_merge\<close> concatenates two values and moves the markers of the second by the length of the
  first, so that every marker keeps pointing at the same byte.\<close>

theorem data_merge_concatenates:
  assumes "data_ok d1" "data_ok d2" "dlen d1 + dlen d2 < DATA_MAX"
  shows "\<exists>d. data_merge d1 d2 = Some d \<and> data_ok d \<and> contents d = contents d1 @ contents d2 \<and>
    dmarkers d = dmarkers d1 @ map (shift_marker (dlen d1)) (dmarkers d2)"
  using assms by (rule merge_spec)

definition sample_data :: data where
  "sample_data = \<lparr>dlen = 2, dval = [Some 5, Some 6, None],
     dmarkers = [\<lparr>mtype = LABEL, moffset = 1, mref = None\<rparr>, \<lparr>mtype = LABEL, moffset = 2, mref = None\<rparr>]\<rparr>"

lemma sample_data_ok: "data_ok sample_data" "dlen sample_data = 2" "contents sample_data = [Some 5, Some 6]"
  by (simp_all add: sample_data_def data_ok_def contents_def)

theorem data_merge_concatenates_witness:
  "\<exists>d. data_merge sample_data sample_data = Some d \<and> data_ok d \<and>
    contents d = [Some 5, Some 6, Some 5, Some 6] \<and> map moffset (dmarkers d) = [1, 2, 3, 4]"
proof -
  have "map moffset (dmarkers sample_data @ map (shift_marker 2) (dmarkers sample_data)) = [1, 2, 3, 4]"
    by (simp add: sample_data_def shift_marker_def)
  then show ?thesis
    using data_merge_concatenates [of sample_data sample_data] sample_data_ok by auto
qed

text \<open>\<open>data_insert_at_marker\<close> splices the bytes in at the marker: what was in front and behind stays
  in order, and exactly the markers behind the given one move.\<close>

theorem data_insert_at_marker_splices:
  assumes "data_ok d" "k < length (dmarkers d)" "None \<notin> set p" "dlen d + int (length p) \<le> DATA_MAX"
    and "off = nat (moffset (dmarkers d ! k))"
  shows "\<exists>d'. data_insert_at_marker d k p (int (length p)) = Some d' \<and> data_ok d' \<and>
    contents d' = take off (contents d) @ p @ drop off (contents d) \<and>
    dmarkers d' = take (Suc k) (dmarkers d) @ map (shift_marker (int (length p))) (drop (Suc k) (dmarkers d))"
  using insert_at_marker_spec [OF assms(1-4)] assms(5) by simp

theorem data_insert_at_marker_splices_witness:
  "\<exists>d'. data_insert_at_marker sample_data 0 [Some 9] 1 = Some d' \<and>
    contents d' = [Some 5, Some 9, Some 6] \<and> map moffset (dmarkers d') = [1, 3]"
proof -
  have m: "length (dmarkers sample_data) = 2" "nat (moffset (dmarkers sample_data ! 0)) = 1"
    "map moffset (take (Suc 0) (dmarkers sample_data) @
       map (shift_marker 1) (drop (Suc 0) (dmarkers sample_data))) = [1, 3]"
    by (simp_all add: sample_data_def shift_marker_def)
  then show ?thesis
    using data_insert_at_marker_splices [of sample_data 0 "[Some 9]" 1] sample_data_ok by auto
qed

text \<open>\<open>data_append_align\<close> appends fewer zero bytes than the alignment and leaves a length that is a
  multiple of it, for every power of two.\<close>

theorem data_append_align_pads:
  assumes "data_ok d" "dlen d + 2 ^ k \<le> INT_MAX"
  shows "\<exists>d' n. data_append_align d (2 ^ k) = Some d' \<and> data_ok d' \<and> n < 2 ^ k \<and>
    contents d' = contents d @ replicate n (Some 0) \<and> 2 ^ k dvd dlen d'"
  using append_align_spec [OF assms] by (auto simp: appended_def)

theorem data_append_align_pads_witness:
  "\<exists>d' n. data_append_align sample_data 8 = Some d' \<and> n < (8 :: nat) \<and>
    contents d' = [Some 5, Some 6] @ replicate n (Some 0) \<and> 8 dvd dlen d'"
  using data_append_align_pads [of sample_data 3] sample_data_ok by auto

text \<open>\<open>data_is_one_string\<close> accepts exactly the values that are one C string: bytes without a NUL, and a
  NUL at the end.\<close>

theorem data_is_one_string_correct:
  assumes "data_ok d" "dlen d < DATA_MAX"
  shows "data_is_one_string d = Some (\<exists>s. contents d = map Some s @ [Some 0] \<and> 0 \<notin> set s)"
  using assms by (rule one_string_iff)

theorem data_is_one_string_correct_witness:
  "data_is_one_string sample_data =
     Some (\<exists>s. [Some 5, Some (6 :: u8)] = map Some s @ [Some 0] \<and> 0 \<notin> set s)"
  using data_is_one_string_correct [of sample_data] sample_data_ok by simp

text \<open>C38: The growing loop doubles an \<open>unsigned int\<close>: once a value has 2 GiB, appending a single byte never
  returns, since the doubled size wraps to 0.\<close>

theorem data_grow_for_diverges:
  assumes "DATA_MAX \<le> dlen d" "dlen d < UINT32_MAX"
  shows "data_grow_for d 1 = None"
  using grow_loop_diverges [of "dlen d + 1" 31] assms
  by (simp add: data_grow_for_def u32_id)

theorem data_grow_for_diverges_witness:
  "data_grow_for \<lparr>dlen = 2147483648, dval = [], dmarkers = []\<rparr> 1 = None"
  using data_grow_for_diverges [of "\<lparr>dlen = 2147483648, dval = [], dmarkers = []\<rparr>"] by simp

end
