(* ===== verification/Dtc_Livetree.thy ===== *)
theory Dtc_Livetree
  imports Dtc_Data
begin

text \<open>
  dtc's live trees, \<open>livetree.c\<close>. Linked lists are lists and a \<open>struct node\<close> owns its properties and
  children, so the links \<open>next\<close>, \<open>next_sibling\<close> and \<open>parent\<close> are implicit; source positions, which
  only messages use, are left out. Where the C code returns a pointer into a tree the
  model returns where it points: a node is the list of child indices that leads to it
  (\<open>noderef\<close>), a property or marker its index. A failed \<open>assert\<close>, \<open>die\<close> and the use of a
  \<open>NULL\<close> name are \<open>None\<close>. The flags of the command line are a record, static variables are
  arguments and results.
\<close>

section \<open>Types\<close>

record label =
  ldeleted :: bool
  llabel :: cstring

record property =
  pdeleted :: bool
  pname :: cstring
  pval :: data
  plabels :: "label list"

text \<open>The bus types of \<open>checks.c\<close>; a node points to one or to none.\<close>

datatype bus_type = pci_bus | simple_bus | i2c_bus | spi_bus | graph_port_bus | graph_ports_bus

record node_info =
  ndeleted :: bool
  nname :: "cstring option"
  nfullpath :: "cstring option"
  nbasenamelen :: int
  nphandle :: int
  naddr_cells :: int
  nsize_cells :: int
  nlabels :: "label list"
  nbus :: "bus_type option"
  nomit_if_unused :: bool
  nis_referenced :: bool

datatype node = Node (info: node_info) (proplist: "property list") (children: "node list")

type_synonym noderef = "nat list"

fun node_at :: "node \<Rightarrow> noderef \<Rightarrow> node option" where
  "node_at n [] = Some n"
| "node_at n (i # r) = (if i < length (children n) then node_at (children n ! i) r else None)"

fun map_at :: "(node \<Rightarrow> node) \<Rightarrow> noderef \<Rightarrow> node \<Rightarrow> node" where
  "map_at f [] n = f n"
| "map_at f (i # r) n =
     (if i < length (children n)
      then Node (info n) (proplist n) ((children n)[i := map_at f r (children n ! i)]) else n)"

definition set_info :: "(node_info \<Rightarrow> node_info) \<Rightarrow> node \<Rightarrow> node" where
  "set_info f n = Node (f (info n)) (proplist n) (children n)"

definition set_props :: "property list \<Rightarrow> node \<Rightarrow> node" where
  "set_props ps n = Node (info n) ps (children n)"

definition set_children :: "node list \<Rightarrow> node \<Rightarrow> node" where
  "set_children cs n = Node (info n) (proplist n) cs"

lemmas node_updates = set_info_def set_props_def set_children_def

lemma node_updates_sel [simp]:
  "info (set_info f n) = f (info n)" "proplist (set_info f n) = proplist n" "children (set_info f n) = children n"
  "info (set_props ps n) = info n" "proplist (set_props ps n) = ps" "children (set_props ps n) = children n"
  "info (set_children cs n) = info n" "proplist (set_children cs n) = proplist n" "children (set_children cs n) = cs"
  by (simp_all add: node_updates)

text \<open>\<open>xmalloc\<close> and \<open>memset\<close> of a node.\<close>

definition zero_info :: node_info where
  "zero_info = \<lparr>ndeleted = False, nname = None, nfullpath = None, nbasenamelen = 0, nphandle = 0,
     naddr_cells = 0, nsize_cells = 0, nlabels = [], nbus = None, nomit_if_unused = False, nis_referenced = False\<rparr>"

text \<open>The options of the command line the tree functions read.\<close>

record dtc_opts =
  phandle_format :: int
  generate_fixups :: bool

abbreviation (input) PHANDLE_LEGACY :: int where "PHANDLE_LEGACY \<equiv> 0x1"
abbreviation (input) PHANDLE_EPAPR :: int where "PHANDLE_EPAPR \<equiv> 0x2"

section \<open>Building\<close>

fun revive_label :: "label list \<Rightarrow> cstring \<Rightarrow> label list" where
  "revive_label [] l = []"
| "revive_label (x # xs) l =
     (if llabel x = l then x\<lparr>ldeleted := False\<rparr> # xs else x # revive_label xs l)"

definition add_label :: "label list \<Rightarrow> cstring \<Rightarrow> label list" where
  "add_label labels l =
     (if l \<in> llabel ` set labels then revive_label labels l
      else \<lparr>ldeleted = False, llabel = l\<rparr> # labels)"

definition delete_labels :: "label list \<Rightarrow> label list" where
  "delete_labels labels = map (\<lambda>l. if \<not> ldeleted l then l\<lparr>ldeleted := True\<rparr> else l) labels"

definition build_property :: "cstring \<Rightarrow> data \<Rightarrow> property" where
  "build_property name val = \<lparr>pdeleted = False, pname = name, pval = val, plabels = []\<rparr>"

definition build_property_delete :: "cstring \<Rightarrow> property" where
  "build_property_delete name = \<lparr>pdeleted = True, pname = name, pval = empty_data, plabels = []\<rparr>"

text \<open>\<open>first\<close> is the list its pointer starts.\<close>

definition chain_property :: "property list \<Rightarrow> property list \<Rightarrow> property list option" where
  "chain_property first lst = (case first of [p] \<Rightarrow> Some (p # lst) | _ \<Rightarrow> None)"

fun reverse_loop :: "property list \<Rightarrow> property list \<Rightarrow> property list" where
  "reverse_loop [] head = head"
| "reverse_loop (p # ps) head = reverse_loop ps (p # head)"

definition reverse_properties :: "property list \<Rightarrow> property list" where
  "reverse_properties first = reverse_loop first []"

definition build_node :: "property list \<Rightarrow> node list \<Rightarrow> node" where
  "build_node props cs = Node zero_info (reverse_properties props) cs"

definition build_node_delete :: node where
  "build_node_delete = Node (zero_info\<lparr>ndeleted := True\<rparr>) [] []"

definition name_node :: "node \<Rightarrow> cstring \<Rightarrow> node option" where
  "name_node n name =
     (if nname (info n) \<noteq> None then None else Some (set_info (\<lambda>i. i\<lparr>nname := Some name\<rparr>) n))"

definition omit_node_if_unused :: "node \<Rightarrow> node" where
  "omit_node_if_unused n = set_info (\<lambda>i. i\<lparr>nomit_if_unused := True\<rparr>) n"

definition reference_node :: "node \<Rightarrow> node" where
  "reference_node n = set_info (\<lambda>i. i\<lparr>nis_referenced := True\<rparr>) n"

definition chain_node :: "node list \<Rightarrow> node list \<Rightarrow> node list option" where
  "chain_node first lst = (case first of [n] \<Rightarrow> Some (n # lst) | _ \<Rightarrow> None)"

definition add_property :: "node \<Rightarrow> property \<Rightarrow> node" where
  "add_property n p = set_props (proplist n @ [p]) n"

definition add_child :: "node \<Rightarrow> node \<Rightarrow> node" where
  "add_child parent child = set_children (children parent @ [child]) parent"

section \<open>Deleting\<close>

definition delete_property :: "property \<Rightarrow> property" where
  "delete_property p = p\<lparr>pdeleted := True, plabels := delete_labels (plabels p)\<rparr>"

fun delete_first_prop :: "property list \<Rightarrow> cstring \<Rightarrow> property list" where
  "delete_first_prop [] name = []"
| "delete_first_prop (p # ps) name =
     (if pname p = name then delete_property p # ps else p # delete_first_prop ps name)"

definition delete_property_by_name :: "node \<Rightarrow> cstring \<Rightarrow> node" where
  "delete_property_by_name n name = set_props (delete_first_prop (proplist n) name) n"

fun delete_node :: "node \<Rightarrow> node" where
  "delete_node (Node i ps cs) =
     Node (i\<lparr>ndeleted := True, nlabels := delete_labels (nlabels i)\<rparr>)
       (map (\<lambda>p. if \<not> pdeleted p then delete_property p else p) ps)
       (map (\<lambda>c. if \<not> ndeleted (info c) then delete_node c else c) cs)"

text \<open>\<open>streq\<close> of two names that may be \<open>NULL\<close>.\<close>

definition name_eq :: "cstring option \<Rightarrow> cstring option \<Rightarrow> bool option" where
  "name_eq a b = do { x \<leftarrow> a; y \<leftarrow> b; Some (x = y) }"

text \<open>The first child, deleted or not, with the name.\<close>

fun find_named :: "node list \<Rightarrow> cstring option \<Rightarrow> nat option option" where
  "find_named [] name = Some None"
| "find_named (c # cs) name = do {
     eq \<leftarrow> name_eq (nname (info c)) name;
     if eq then Some (Some 0)
     else do { r \<leftarrow> find_named cs name; Some (map_option Suc r) } }"

definition delete_node_by_name :: "node \<Rightarrow> cstring option \<Rightarrow> node option" where
  "delete_node_by_name parent name = do {
     r \<leftarrow> find_named (children parent) name;
     Some (case r of
         None \<Rightarrow> parent
       | Some k \<Rightarrow> set_children ((children parent)[k := delete_node (children parent ! k)]) parent) }"

section \<open>Merging\<close>

definition add_labels :: "label list \<Rightarrow> label list \<Rightarrow> label list" where
  "add_labels old new = foldl (\<lambda>ls l. add_label ls (llabel l)) old new"

text \<open>The new value of the first property with the name, deleted or not; otherwise the property is added.\<close>

fun merge_prop :: "property list \<Rightarrow> property \<Rightarrow> property list" where
  "merge_prop [] new = [new]"
| "merge_prop (old # ps) new =
     (if pname old = pname new
      then old\<lparr>plabels := add_labels (plabels old) (plabels new), pval := pval new, pdeleted := False\<rparr> # ps
      else old # merge_prop ps new)"

fun merge_props :: "property list \<Rightarrow> property list \<Rightarrow> property list" where
  "merge_props old [] = old"
| "merge_props old (new # ps) =
     merge_props (if pdeleted new then delete_first_prop old (pname new) else merge_prop old new) ps"

function merge_nodes :: "node \<Rightarrow> node \<Rightarrow> node option"
  and merge_children :: "node \<Rightarrow> node list \<Rightarrow> node option" where
  "merge_nodes old new =
     (let old = set_info (\<lambda>i. i\<lparr>ndeleted := False, nlabels := add_labels (nlabels i) (nlabels (info new))\<rparr>) old;
          old = set_props (merge_props (proplist old) (proplist new)) old
      in merge_children old (children new))"
| "merge_children old [] = Some old"
| "merge_children old (c # cs) =
     (if ndeleted (info c) then do {
        old \<leftarrow> delete_node_by_name old (nname (info c));
        merge_children old cs }
      else do {
        r \<leftarrow> find_named (children old) (nname (info c));
        (case r of
           Some k \<Rightarrow> do {
             merged \<leftarrow> merge_nodes (children old ! k) c;
             merge_children (set_children ((children old)[k := merged]) old) cs }
         | None \<Rightarrow> merge_children (add_child old c) cs) })"
  by pat_completeness auto
termination
proof (relation "measure (\<lambda>x. case x of Inl (old, new) \<Rightarrow> 2 * size new
    | Inr (old, cs) \<Rightarrow> Suc (2 * size_list size cs))", goal_cases)
  case (2 old new x xa)
  then show ?case by (cases new) simp
qed auto

declare merge_nodes.simps [simp del] merge_children.simps [simp del]

text \<open>\<open>next_orphan_fragment\<close> is the static counter.\<close>

definition add_orphan_node :: "node \<Rightarrow> node \<Rightarrow> cstring \<Rightarrow> int \<Rightarrow> (node \<times> int) option" where
  "add_orphan_node dt new_node ref next_orphan_fragment = do {
     p \<leftarrow> (if ref \<noteq> [] \<and> hd ref = chr (CHR ''/'') then do {
             let d = data_add_marker empty_data TYPE_STRING (Some ref);
             d \<leftarrow> data_append_data d (map Some (ref @ [0])) (cstrlen ref + 1);
             Some (build_property (cstr ''target-path'') d) }
           else do {
             let d = data_add_marker empty_data REF_PHANDLE (Some ref);
             d \<leftarrow> data_append_integer d 0xffffffff 32;
             Some (build_property (cstr ''target'') d) });
     let name = cstr ''fragment@'' @ print_uint next_orphan_fragment;
     new_node \<leftarrow> name_node new_node (cstr ''__overlay__'');
     n \<leftarrow> name_node (build_node [p] [new_node]) name;
     Some (add_child dt n, u32 (next_orphan_fragment + 1)) }"

section \<open>Accessors\<close>

definition get_unitname :: "node \<Rightarrow> cstring option" where
  "get_unitname n = do {
     name \<leftarrow> nname (info n);
     c \<leftarrow> at (name @ [0]) (nbasenamelen (info n));
     Some (if c = 0 then [] else drop (nat (nbasenamelen (info n) + 1)) name) }"

fun find_prop :: "property list \<Rightarrow> cstring \<Rightarrow> nat option" where
  "find_prop [] name = None"
| "find_prop (p # ps) name =
     (if \<not> pdeleted p \<and> pname p = name then Some 0 else map_option Suc (find_prop ps name))"

definition get_property :: "node \<Rightarrow> cstring \<Rightarrow> nat option" where
  "get_property n propname = find_prop (proplist n) propname"

text \<open>A cell of a property value; a byte that was never written has no value.\<close>

definition load_cell :: "raw \<Rightarrow> int \<Rightarrow> int option" where
  "load_cell v p = do {
     xs \<leftarrow> peek v p 4;
     if None \<in> set xs then None
     else fdt32_ld \<lparr>blob_addr = 0, blob_mem = map the xs\<rparr> 0 }"

definition propval_cell :: "property \<Rightarrow> int option" where
  "propval_cell p = (if dlen (pval p) \<noteq> 4 then None else load_cell (dval (pval p)) 0)"

definition propval_cell_n :: "property \<Rightarrow> int \<Rightarrow> int option" where
  "propval_cell_n p n =
     (if dlen (pval p) div 4 \<ge> n then load_cell (dval (pval p)) (4 * n) else None)"

fun find_labelled :: "property list \<Rightarrow> cstring \<Rightarrow> nat option" where
  "find_labelled [] l = None"
| "find_labelled (p # ps) l =
     (if \<not> pdeleted p \<and> (\<exists>x \<in> set (plabels p). \<not> ldeleted x \<and> llabel x = l) then Some 0
      else map_option Suc (find_labelled ps l))"

text \<open>A search that tries the live children in order; the index of the child is put in front of what it
  found.\<close>

fun first_child :: "nat \<Rightarrow> (bool \<times> (noderef \<times> 'a) option) list \<Rightarrow> (noderef \<times> 'a) option" where
  "first_child k [] = None"
| "first_child k ((live, r) # rs) =
     (case r of
        Some (ref, x) \<Rightarrow> if live then Some (k # ref, x) else first_child (Suc k) rs
      | None \<Rightarrow> first_child (Suc k) rs)"

fun get_property_by_label :: "node \<Rightarrow> cstring \<Rightarrow> (noderef \<times> nat) option" where
  "get_property_by_label (Node i ps cs) l =
     (case find_labelled ps l of
        Some k \<Rightarrow> Some ([], k)
      | None \<Rightarrow> first_child 0 (map (\<lambda>c. (\<not> ndeleted (info c), get_property_by_label c l)) cs))"

definition marker_is :: "markertype \<Rightarrow> cstring \<Rightarrow> marker \<Rightarrow> bool" where
  "marker_is t l m \<longleftrightarrow> mtype m = t \<and> mref m = Some l"

fun find_index :: "('a \<Rightarrow> bool) \<Rightarrow> 'a list \<Rightarrow> nat option" where
  "find_index P [] = None"
| "find_index P (x # xs) = (if P x then Some 0 else map_option Suc (find_index P xs))"

fun find_marked :: "property list \<Rightarrow> cstring \<Rightarrow> (nat \<times> nat) option" where
  "find_marked [] l = None"
| "find_marked (p # ps) l =
     (case (if pdeleted p then None else find_index (marker_is LABEL l) (dmarkers (pval p))) of
        Some j \<Rightarrow> Some (0, j)
      | None \<Rightarrow> map_option (\<lambda>(k, j). (Suc k, j)) (find_marked ps l))"

text \<open>The labels inside values; every marker of type \<open>LABEL\<close> has a \<open>ref\<close>.\<close>

fun get_marker_label :: "node \<Rightarrow> cstring \<Rightarrow> (noderef \<times> nat \<times> nat) option" where
  "get_marker_label (Node i ps cs) l =
     (case find_marked ps l of
        Some k \<Rightarrow> Some ([], k)
      | None \<Rightarrow> first_child 0 (map (\<lambda>c. (\<not> ndeleted (info c), get_marker_label c l)) cs))"

fun find_subnode :: "nat \<Rightarrow> node list \<Rightarrow> cstring \<Rightarrow> nat option option" where
  "find_subnode k [] name = Some None"
| "find_subnode k (c # cs) name =
     (if ndeleted (info c) then find_subnode (Suc k) cs name
      else do {
        x \<leftarrow> nname (info c);
        if x = name then Some (Some k) else find_subnode (Suc k) cs name })"

definition get_subnode :: "node \<Rightarrow> cstring \<Rightarrow> nat option option" where
  "get_subnode n nodename = find_subnode 0 (children n) nodename"

text \<open>\<open>get_node_by_path\<close>: \<open>path\<close> is never \<open>NULL\<close> in the callers. The loop over the children has the slashes
  skipped and the position of the next slash at hand; \<open>strprefixeq\<close> compares the bytes before
  it with the whole name.\<close>

function get_node_by_path :: "node \<Rightarrow> cstring \<Rightarrow> noderef option option"
  and path_children :: "nat \<Rightarrow> node list \<Rightarrow> cstring \<Rightarrow> noderef option option" where
  "get_node_by_path tree path =
     (if path = [] then Some (if ndeleted (info tree) then None else Some [])
      else path_children 0 (children tree) (dropWhile (\<lambda>c. c = chr (CHR ''/'')) path))"
| "path_children k [] path = Some None"
| "path_children k (c # cs) path =
     (if ndeleted (info c) then path_children (Suc k) cs path
      else do {
        name \<leftarrow> nname (info c);
        let first = takeWhile (\<lambda>c. c \<noteq> chr (CHR ''/'')) path;
        if length first < length path \<and> first = name then do {
          r \<leftarrow> get_node_by_path c (drop (Suc (length first)) path);
          Some (map_option (\<lambda>ref. k # ref) r) }
        else if length first = length path \<and> path = name then Some (Some [k])
        else path_children (Suc k) cs path })"
  by pat_completeness auto
termination
proof (relation "measure (\<lambda>x. case x of Inl (tree, path) \<Rightarrow> 2 * size tree
    | Inr (k, cs, path) \<Rightarrow> Suc (2 * size_list size cs))", goal_cases)
  case (2 tree path)
  then show ?case by (cases tree) simp
qed auto

declare get_node_by_path.simps [simp del] path_children.simps [simp del]

definition has_label :: "label list \<Rightarrow> cstring \<Rightarrow> bool" where
  "has_label ls l \<longleftrightarrow> (\<exists>x \<in> set ls. \<not> ldeleted x \<and> llabel x = l)"

fun by_label :: "node \<Rightarrow> cstring \<Rightarrow> (noderef \<times> unit) option" where
  "by_label (Node i ps cs) l =
     (if has_label (nlabels i) l then Some ([], ())
      else first_child 0 (map (\<lambda>c. (\<not> ndeleted (info c), by_label c l)) cs))"

definition get_node_by_label :: "node \<Rightarrow> cstring \<Rightarrow> noderef option option" where
  "get_node_by_label tree l = (if l = [] then None else Some (map_option fst (by_label tree l)))"

fun by_phandle :: "node \<Rightarrow> int \<Rightarrow> (noderef \<times> unit) option" where
  "by_phandle (Node i ps cs) ph =
     (if nphandle i = ph then (if ndeleted i then None else Some ([], ()))
      else first_child 0 (map (\<lambda>c. (\<not> ndeleted (info c), by_phandle c ph)) cs))"

definition get_node_by_phandle :: "dtc_opts \<Rightarrow> node \<Rightarrow> int \<Rightarrow> noderef option option" where
  "get_node_by_phandle opts tree ph =
     (if ph = 0 \<or> ph = UINT32_MAX then (if generate_fixups opts then Some None else None)
      else Some (map_option fst (by_phandle tree ph)))"

definition get_node_by_ref :: "node \<Rightarrow> cstring \<Rightarrow> noderef option option" where
  "get_node_by_ref tree ref =
     (if ref = cstr ''/'' then Some (Some [])
      else if ref \<noteq> [] \<and> hd ref = chr (CHR ''/'') then get_node_by_path tree ref
      else get_node_by_label tree ref)"

section \<open>Phandles\<close>

text \<open>The search for a free value; \<open>phandle\<close> is the static counter of \<open>get_node_phandle\<close>.\<close>

partial_function (option) free_phandle :: "dtc_opts \<Rightarrow> node \<Rightarrow> int \<Rightarrow> int option" where
  "free_phandle opts root phandle = do {
     r \<leftarrow> get_node_by_phandle opts root phandle;
     (case r of None \<Rightarrow> Some phandle | Some ref \<Rightarrow> free_phandle opts root (u32 (phandle + 1))) }"

text \<open>The phandle of the node, the tree and the counter.\<close>

definition get_node_phandle :: "dtc_opts \<Rightarrow> node \<Rightarrow> noderef \<Rightarrow> int \<Rightarrow> (int \<times> node \<times> int) option" where
  "get_node_phandle opts root ref phandle = do {
     n \<leftarrow> node_at root ref;
     if nphandle (info n) \<noteq> 0 \<and> nphandle (info n) \<noteq> UINT32_MAX then Some (nphandle (info n), root, phandle)
     else do {
       phandle \<leftarrow> free_phandle opts root phandle;
       let n = set_info (\<lambda>i. i\<lparr>nphandle := phandle\<rparr>) n;
       d \<leftarrow> data_append_cell (data_add_marker empty_data TYPE_UINT32 None) phandle;
       let n = (if get_property n (cstr ''linux,phandle'') = None \<and> phandle_format opts AND PHANDLE_LEGACY \<noteq> 0
                then add_property n (build_property (cstr ''linux,phandle'') d) else n);
       let n = (if get_property n (cstr ''phandle'') = None \<and> phandle_format opts AND PHANDLE_EPAPR \<noteq> 0
                then add_property n (build_property (cstr ''phandle'') d) else n);
       Some (phandle, map_at (\<lambda>_. n) ref root, phandle) } }"

definition guess_boot_cpuid :: "node \<Rightarrow> int option" where
  "guess_boot_cpuid tree = do {
     r \<leftarrow> get_node_by_path tree (cstr ''/cpus'');
     (case r of
        None \<Rightarrow> Some 0
      | Some ref \<Rightarrow> do {
          cpus \<leftarrow> node_at tree ref;
          (case children cpus of
             [] \<Rightarrow> Some 0
           | bootcpu # _ \<Rightarrow>
               (case get_property bootcpu (cstr ''reg'') of
                  None \<Rightarrow> Some 0
                | Some k \<Rightarrow>
                    (let reg = proplist bootcpu ! k in
                     if dlen (pval reg) \<noteq> 4 then Some 0 else propval_cell reg))) }) }"

section \<open>Appending to a property\<close>

definition append_to_property :: "node \<Rightarrow> cstring \<Rightarrow> u8 list \<Rightarrow> int \<Rightarrow> markertype \<Rightarrow> node option" where
  "append_to_property n name bytes len type =
     (case get_property n name of
        Some k \<Rightarrow> do {
          let p = proplist n ! k;
          d \<leftarrow> data_append_data (data_add_marker (pval p) type (Some name)) (map Some bytes) len;
          Some (set_props ((proplist n)[k := p\<lparr>pval := d\<rparr>]) n) }
      | None \<Rightarrow> do {
          d \<leftarrow> data_append_data (data_add_marker empty_data type (Some name)) (map Some bytes) len;
          Some (add_property n (build_property name d)) })"

section \<open>The reserve list and the tree with its header\<close>

record reserve_info =
  raddress :: int
  rsize :: int
  rlabels :: "label list"

definition build_reserve_entry :: "int \<Rightarrow> int \<Rightarrow> reserve_info" where
  "build_reserve_entry address sz = \<lparr>raddress = address, rsize = sz, rlabels = []\<rparr>"

definition chain_reserve_entry :: "reserve_info list \<Rightarrow> reserve_info list \<Rightarrow> reserve_info list option" where
  "chain_reserve_entry first lst = (case first of [e] \<Rightarrow> Some (e # lst) | _ \<Rightarrow> None)"

definition add_reserve_entry :: "reserve_info list \<Rightarrow> reserve_info \<Rightarrow> reserve_info list" where
  "add_reserve_entry lst new = lst @ [new]"

record dt_info =
  dtsflags :: int
  reservelist :: "reserve_info list"
  boot_cpuid_phys :: int
  dt :: node

definition build_dt_info :: "int \<Rightarrow> reserve_info list \<Rightarrow> node \<Rightarrow> int \<Rightarrow> dt_info" where
  "build_dt_info flags rl tree cpuid =
     \<lparr>dtsflags = flags, reservelist = rl, boot_cpuid_phys = cpuid, dt = tree\<rparr>"

section \<open>Sorting\<close>

definition cmp_reserve_info :: "reserve_info \<Rightarrow> reserve_info \<Rightarrow> int" where
  "cmp_reserve_info a b =
     (if raddress a < raddress b then - 1
      else if raddress a > raddress b then 1
      else if rsize a < rsize b then - 1
      else if rsize a > rsize b then 1
      else 0)"

definition sort_reserve_entries :: "dt_info \<Rightarrow> dt_info" where
  "sort_reserve_entries dti = dti\<lparr>reservelist := qsort cmp_reserve_info (reservelist dti)\<rparr>"

definition cmp_prop :: "property \<Rightarrow> property \<Rightarrow> int" where
  "cmp_prop a b = strcmp (pname a) (pname b)"

definition sort_properties :: "node \<Rightarrow> node" where
  "sort_properties n = set_props (qsort cmp_prop (proplist n)) n"

text \<open>The names of the children are not \<open>NULL\<close> when this runs.\<close>

definition cmp_subnode :: "node \<Rightarrow> node \<Rightarrow> int" where
  "cmp_subnode a b = strcmp (the (nname (info a))) (the (nname (info b)))"

definition sort_subnodes :: "node \<Rightarrow> node option" where
  "sort_subnodes n =
     (if length (children n) > 1 \<and> list_ex (\<lambda>c. nname (info c) = None) (children n) then None
      else Some (set_children (qsort cmp_subnode (children n)) n))"

lemma sort_subnodes_children: "sort_subnodes n = Some m \<Longrightarrow> set (children m) = set (children n)"
  by (auto simp: sort_subnodes_def split: if_splits)

function sort_node :: "node \<Rightarrow> node option" where
  "sort_node n = do {
     n \<leftarrow> sort_subnodes (sort_properties n);
     cs \<leftarrow> those (map sort_node (children n));
     Some (set_children cs n) }"
  by pat_completeness auto
termination
proof (relation "measure size", goal_cases)
  case (2 n m c)
  then have "c \<in> set (children n)"
    using sort_subnodes_children [of "sort_properties n" m] by (simp add: sort_properties_def)
  then show ?case by (cases n) (auto dest: size_list_estimation' [where f = size])
qed simp

declare sort_node.simps [simp del]

definition sort_tree :: "dt_info \<Rightarrow> dt_info option" where
  "sort_tree dti = do {
     let dti = sort_reserve_entries dti;
     t \<leftarrow> sort_node (dt dti);
     Some (dti\<lparr>dt := t\<rparr>) }"

section \<open>Symbols and fixups\<close>

text \<open>The child is the last of the result.\<close>

definition build_and_name_child_node :: "node \<Rightarrow> cstring \<Rightarrow> node option" where
  "build_and_name_child_node parent name = do {
     n \<leftarrow> name_node (build_node [] []) name;
     Some (add_child parent n) }"

definition build_root_node :: "node \<Rightarrow> cstring \<Rightarrow> (node \<times> nat) option" where
  "build_root_node tree name = do {
     an \<leftarrow> get_subnode tree name;
     (case an of
        Some k \<Rightarrow> Some (tree, k)
      | None \<Rightarrow> do {
          tree' \<leftarrow> build_and_name_child_node tree name;
          Some (tree', length (children tree)) }) }"

fun any_label_tree :: "node \<Rightarrow> bool" where
  "any_label_tree (Node i ps cs) \<longleftrightarrow>
     nlabels i \<noteq> [] \<or> (\<exists>c \<in> set cs. \<not> ndeleted (info c) \<and> any_label_tree c)"

text \<open>The labels of the node at \<open>ref\<close>, each a property of the node at \<open>an\<close> with the full path as its value.
  A label that is there already gives a warning.\<close>

fun add_symbols :: "node \<Rightarrow> noderef \<Rightarrow> cstring option \<Rightarrow> label list \<Rightarrow> node option" where
  "add_symbols tree an path [] = Some tree"
| "add_symbols tree an path (l # ls) =
     (if ldeleted l then add_symbols tree an path ls
      else do {
        a \<leftarrow> node_at tree an;
        if get_property a (llabel l) \<noteq> None then add_symbols tree an path ls
        else do {
          fp \<leftarrow> path;
          d \<leftarrow> data_copy_escape_string (fp @ [0]) (cstrlen fp);
          add_symbols (map_at (\<lambda>a. add_property a (build_property (llabel l) d)) an tree) an path ls } })"

definition label_node ::
  "dtc_opts \<Rightarrow> node \<Rightarrow> noderef \<Rightarrow> noderef \<Rightarrow> bool \<Rightarrow> int \<Rightarrow> (node \<times> int) option" where
  "label_node opts tree an ref allocph phandle = do {
     n \<leftarrow> node_at tree ref;
     if nlabels (info n) = [] then Some (tree, phandle)
     else do {
       tree \<leftarrow> add_symbols tree an (nfullpath (info n)) (nlabels (info n));
       if allocph then do {
         (ph, tree, phandle) \<leftarrow> get_node_phandle opts tree ref phandle;
         Some (tree, phandle) }
       else Some (tree, phandle) } }"

text \<open>The children from \<open>k\<close> on; the tree changes on the way.\<close>

partial_function (option) label_children ::
  "dtc_opts \<Rightarrow> node \<Rightarrow> noderef \<Rightarrow> noderef \<Rightarrow> nat \<Rightarrow> bool \<Rightarrow> int \<Rightarrow> (node \<times> int) option" where
  "label_children opts tree an ref k allocph phandle = do {
     n \<leftarrow> node_at tree ref;
     if length (children n) \<le> k then Some (tree, phandle)
     else if ndeleted (info (children n ! k)) then label_children opts tree an ref (Suc k) allocph phandle
     else do {
       (tree, phandle) \<leftarrow> label_node opts tree an (ref @ [k]) allocph phandle;
       (tree, phandle) \<leftarrow> label_children opts tree an (ref @ [k]) 0 allocph phandle;
       label_children opts tree an ref (Suc k) allocph phandle } }"

definition generate_label_tree_internal ::
  "dtc_opts \<Rightarrow> node \<Rightarrow> noderef \<Rightarrow> noderef \<Rightarrow> bool \<Rightarrow> int \<Rightarrow> (node \<times> int) option" where
  "generate_label_tree_internal opts tree an ref allocph phandle = do {
     (tree, phandle) \<leftarrow> label_node opts tree an ref allocph phandle;
     label_children opts tree an ref 0 allocph phandle }"

definition generate_label_tree :: "dtc_opts \<Rightarrow> node \<Rightarrow> cstring \<Rightarrow> bool \<Rightarrow> int \<Rightarrow> (node \<times> int) option" where
  "generate_label_tree opts tree name allocph phandle =
     (if \<not> any_label_tree tree then Some (tree, phandle)
      else do {
        (tree, k) \<leftarrow> build_root_node tree name;
        generate_label_tree_internal opts tree [k] [] allocph phandle })"

text \<open>Whether a live property of a live node refers to a node that exists (\<open>found\<close>) or does not. A failing
  assertion, on an empty reference, is \<open>None\<close>.\<close>

definition ref_resolves :: "node \<Rightarrow> marker \<Rightarrow> bool option" where
  "ref_resolves tree m = do {
     ref \<leftarrow> mref m;
     r \<leftarrow> get_node_by_ref tree ref;
     Some (r \<noteq> None) }"

fun any_ref :: "node \<Rightarrow> bool \<Rightarrow> marker list \<Rightarrow> bool option" where
  "any_ref tree found [] = Some False"
| "any_ref tree found (m # ms) =
     (if mtype m \<noteq> REF_PHANDLE then any_ref tree found ms
      else do {
        r \<leftarrow> ref_resolves tree m;
        if r = found then Some True else any_ref tree found ms })"

text \<open>The first answer that is not \<open>False\<close>.\<close>

fun any_of :: "bool option list \<Rightarrow> bool option" where
  "any_of [] = Some False"
| "any_of (r # rs) = do { x \<leftarrow> r; if x then Some True else any_of rs }"

fun any_ref_tree :: "node \<Rightarrow> bool \<Rightarrow> node \<Rightarrow> bool option" where
  "any_ref_tree tree found (Node i ps cs) = do {
     x \<leftarrow> any_of (map (\<lambda>p. if pdeleted p then Some False else any_ref tree found (dmarkers (pval p))) ps);
     if x then Some True
     else any_of (map (\<lambda>c. if ndeleted (info c) then Some False else any_ref_tree tree found c) cs) }"

definition any_fixup_tree :: "node \<Rightarrow> node \<Rightarrow> bool option" where
  "any_fixup_tree tree n = any_ref_tree tree False n"

definition any_local_fixup_tree :: "node \<Rightarrow> node \<Rightarrow> bool option" where
  "any_local_fixup_tree tree n = any_ref_tree tree True n"

definition add_fixup_entry :: "node \<Rightarrow> noderef \<Rightarrow> node \<Rightarrow> property \<Rightarrow> marker \<Rightarrow> node option" where
  "add_fixup_entry tree fn n p m = do {
     path \<leftarrow> nfullpath (info n);
     if chr (CHR '':'') \<in> set path \<or> chr (CHR '':'') \<in> set (pname p) then None
     else do {
       let entry = path @ [chr (CHR '':'')] @ pname p @ [chr (CHR '':'')] @ print_uint (moffset m);
       ref \<leftarrow> mref m;
       f \<leftarrow> node_at tree fn;
       f \<leftarrow> append_to_property f ref (entry @ [0]) (cstrlen entry + 1) TYPE_STRING;
       Some (map_at (\<lambda>_. f) fn tree) } }"

text \<open>The names on the way to a node, without the root.\<close>

fun names_to :: "node \<Rightarrow> noderef \<Rightarrow> cstring option list" where
  "names_to n [] = []"
| "names_to n (i # r) =
     (if i < length (children n) then nname (info (children n ! i)) # names_to (children n ! i) r else [])"

fun walk_names :: "node \<Rightarrow> noderef \<Rightarrow> cstring option list \<Rightarrow> (node \<times> noderef) option" where
  "walk_names tree wn [] = Some (tree, wn)"
| "walk_names tree wn (name # names) = do {
     nm \<leftarrow> name;
     w \<leftarrow> node_at tree wn;
     (w, k) \<leftarrow> build_root_node w nm;
     walk_names (map_at (\<lambda>_. w) wn tree) (wn @ [k]) names }"

definition add_local_fixup_entry :: "node \<Rightarrow> noderef \<Rightarrow> noderef \<Rightarrow> property \<Rightarrow> marker \<Rightarrow> node option" where
  "add_local_fixup_entry tree lfn ref p m = do {
     (tree, wn) \<leftarrow> walk_names tree lfn (names_to tree ref);
     w \<leftarrow> node_at tree wn;
     w \<leftarrow> append_to_property w (pname p) (bytes32 (moffset m)) 4 TYPE_UINT32;
     Some (map_at (\<lambda>_. w) wn tree) }"

text \<open>
  The walk both fixup generators make: every marker \<open>j\<close> of type \<open>REF_PHANDLE\<close> of every live property
  \<open>i\<close> of the node, then the live children from \<open>k\<close> on. What the visit appends to the lists is
  walked as well.
\<close>

partial_function (option) walk_markers ::
  "(node \<Rightarrow> noderef \<Rightarrow> property \<Rightarrow> marker \<Rightarrow> node option) \<Rightarrow> node \<Rightarrow> noderef \<Rightarrow> nat \<Rightarrow> nat \<Rightarrow> node option" where
  "walk_markers visit tree ref i j = do {
     n \<leftarrow> node_at tree ref;
     if length (proplist n) \<le> i then Some tree
     else do {
       let p = proplist n ! i;
       if pdeleted p \<or> length (dmarkers (pval p)) \<le> j then walk_markers visit tree ref (Suc i) 0
       else if mtype (dmarkers (pval p) ! j) \<noteq> REF_PHANDLE then walk_markers visit tree ref i (Suc j)
       else do {
         tree \<leftarrow> visit tree ref p (dmarkers (pval p) ! j);
         walk_markers visit tree ref i (Suc j) } } }"

partial_function (option) walk_children ::
  "(node \<Rightarrow> noderef \<Rightarrow> property \<Rightarrow> marker \<Rightarrow> node option) \<Rightarrow> node \<Rightarrow> noderef \<Rightarrow> nat \<Rightarrow> node option" where
  "walk_children visit tree ref k = do {
     n \<leftarrow> node_at tree ref;
     if length (children n) \<le> k then Some tree
     else if ndeleted (info (children n ! k)) then walk_children visit tree ref (Suc k)
     else do {
       tree \<leftarrow> walk_markers visit tree (ref @ [k]) 0 0;
       tree \<leftarrow> walk_children visit tree (ref @ [k]) 0;
       walk_children visit tree ref (Suc k) } }"

definition fixup_visit :: "noderef \<Rightarrow> node \<Rightarrow> noderef \<Rightarrow> property \<Rightarrow> marker \<Rightarrow> node option" where
  "fixup_visit fn tree ref p m = do {
     r \<leftarrow> ref_resolves tree m;
     n \<leftarrow> node_at tree ref;
     if r then Some tree else add_fixup_entry tree fn n p m }"

definition generate_fixups_tree_internal :: "node \<Rightarrow> noderef \<Rightarrow> noderef \<Rightarrow> node option" where
  "generate_fixups_tree_internal tree fn ref = do {
     tree \<leftarrow> walk_markers (fixup_visit fn) tree ref 0 0;
     walk_children (fixup_visit fn) tree ref 0 }"

definition local_fixup_visit :: "noderef \<Rightarrow> node \<Rightarrow> noderef \<Rightarrow> property \<Rightarrow> marker \<Rightarrow> node option" where
  "local_fixup_visit lfn tree ref p m = do {
     r \<leftarrow> ref_resolves tree m;
     if r then add_local_fixup_entry tree lfn ref p m else Some tree }"

definition generate_local_fixups_tree_internal :: "node \<Rightarrow> noderef \<Rightarrow> noderef \<Rightarrow> node option" where
  "generate_local_fixups_tree_internal tree lfn ref = do {
     tree \<leftarrow> walk_markers (local_fixup_visit lfn) tree ref 0 0;
     walk_children (local_fixup_visit lfn) tree ref 0 }"

definition generate_fixups_tree :: "node \<Rightarrow> cstring \<Rightarrow> node option" where
  "generate_fixups_tree tree name = do {
     any \<leftarrow> any_fixup_tree tree tree;
     if \<not> any then Some tree
     else do {
       (tree, k) \<leftarrow> build_root_node tree name;
       generate_fixups_tree_internal tree [k] [] } }"

definition generate_local_fixups_tree :: "node \<Rightarrow> cstring \<Rightarrow> node option" where
  "generate_local_fixups_tree tree name = do {
     any \<leftarrow> any_local_fixup_tree tree tree;
     if \<not> any then Some tree
     else do {
       (tree, k) \<leftarrow> build_root_node tree name;
       generate_local_fixups_tree_internal tree [k] [] } }"

declare free_phandle.simps [code] label_children.simps [code] walk_markers.simps [code]
  walk_children.simps [code]

end
