(* ===== verification/Dtc_Flattree.thy ===== *)
theory Dtc_Flattree
  imports Dtc_Livetree Fdt_Search
begin

text \<open>
  dtc's flat trees, \<open>flattree.c\<close>: writing a live tree as a blob of any version or as assembler source,
  and reading a blob. The table of output functions, \<open>struct emitter\<close>, is a record of functions on
  the output: a value for the binary emitter, the text for the assembler one. \<open>die\<close>, a
  failed \<open>assert\<close> and reading memory that was never written are \<open>None\<close>.
\<close>

section \<open>Versions\<close>

abbreviation (input) FTF_FULLPATH :: int where "FTF_FULLPATH \<equiv> 0x1"
abbreviation (input) FTF_VARALIGN :: int where "FTF_VARALIGN \<equiv> 0x2"
abbreviation (input) FTF_NAMEPROPS :: int where "FTF_NAMEPROPS \<equiv> 0x4"
abbreviation (input) FTF_BOOTCPUID :: int where "FTF_BOOTCPUID \<equiv> 0x8"
abbreviation (input) FTF_STRTABSIZE :: int where "FTF_STRTABSIZE \<equiv> 0x10"
abbreviation (input) FTF_STRUCTSIZE :: int where "FTF_STRUCTSIZE \<equiv> 0x20"
abbreviation (input) FTF_NOPS :: int where "FTF_NOPS \<equiv> 0x40"

record version_info =
  vi_version :: int
  vi_last_comp_version :: int
  vi_hdr_size :: int
  vi_flags :: int

definition version_table :: "version_info list" where
  "version_table = [
     \<lparr>vi_version = 1, vi_last_comp_version = 1, vi_hdr_size = FDT_V1_SIZE,
      vi_flags = FTF_FULLPATH OR FTF_VARALIGN OR FTF_NAMEPROPS\<rparr>,
     \<lparr>vi_version = 2, vi_last_comp_version = 1, vi_hdr_size = FDT_V2_SIZE,
      vi_flags = FTF_FULLPATH OR FTF_VARALIGN OR FTF_NAMEPROPS OR FTF_BOOTCPUID\<rparr>,
     \<lparr>vi_version = 3, vi_last_comp_version = 1, vi_hdr_size = FDT_V3_SIZE,
      vi_flags = FTF_FULLPATH OR FTF_VARALIGN OR FTF_NAMEPROPS OR FTF_BOOTCPUID OR FTF_STRTABSIZE\<rparr>,
     \<lparr>vi_version = 16, vi_last_comp_version = 16, vi_hdr_size = FDT_V3_SIZE,
      vi_flags = FTF_BOOTCPUID OR FTF_STRTABSIZE OR FTF_NOPS\<rparr>,
     \<lparr>vi_version = 17, vi_last_comp_version = 16, vi_hdr_size = FDT_V17_SIZE,
      vi_flags = FTF_BOOTCPUID OR FTF_STRTABSIZE OR FTF_STRUCTSIZE OR FTF_NOPS\<rparr>]"

abbreviation flag :: "int \<Rightarrow> int \<Rightarrow> bool" where
  "flag flags f \<equiv> flags AND f \<noteq> 0"

text \<open>The last entry of the table with the version.\<close>

definition find_version :: "int \<Rightarrow> version_info option" where
  "find_version version = find (\<lambda>vi. vi_version vi = version) (rev version_table)"

section \<open>Emitters\<close>

record 'e emitter =
  em_cell :: "'e \<Rightarrow> int \<Rightarrow> 'e option"
  em_string :: "'e \<Rightarrow> cstring \<Rightarrow> int \<Rightarrow> 'e option"
  em_align :: "'e \<Rightarrow> int \<Rightarrow> 'e option"
  em_data :: "'e \<Rightarrow> data \<Rightarrow> 'e option"
  em_beginnode :: "'e \<Rightarrow> label list \<Rightarrow> 'e option"
  em_endnode :: "'e \<Rightarrow> label list \<Rightarrow> 'e option"
  em_property :: "'e \<Rightarrow> label list \<Rightarrow> 'e option"

definition bin_emit_cell :: "data \<Rightarrow> int \<Rightarrow> data option" where
  "bin_emit_cell e val = data_append_cell e val"

definition bin_emit_string :: "data \<Rightarrow> cstring \<Rightarrow> int \<Rightarrow> data option" where
  "bin_emit_string e str len = do {
     let len = (if len = 0 then cstrlen str else len);
     e \<leftarrow> data_append_data e (map Some (str @ [0])) len;
     data_append_byte e 0 }"

definition bin_emit_align :: "data \<Rightarrow> int \<Rightarrow> data option" where
  "bin_emit_align e a = data_append_align e a"

definition bin_emit_data :: "data \<Rightarrow> data \<Rightarrow> data option" where
  "bin_emit_data e d = data_append_data e (dval d) (s32 (dlen d))"

definition bin_emit_beginnode :: "data \<Rightarrow> label list \<Rightarrow> data option" where
  "bin_emit_beginnode e labels = bin_emit_cell e FDT_BEGIN_NODE"

definition bin_emit_endnode :: "data \<Rightarrow> label list \<Rightarrow> data option" where
  "bin_emit_endnode e labels = bin_emit_cell e FDT_END_NODE"

definition bin_emit_property :: "data \<Rightarrow> label list \<Rightarrow> data option" where
  "bin_emit_property e labels = bin_emit_cell e FDT_PROP"

definition bin_emitter :: "data emitter" where
  "bin_emitter = \<lparr>em_cell = bin_emit_cell, em_string = bin_emit_string, em_align = bin_emit_align,
     em_data = bin_emit_data, em_beginnode = bin_emit_beginnode, em_endnode = bin_emit_endnode,
     em_property = bin_emit_property\<rparr>"

section \<open>Assembler output\<close>

text \<open>The text written so far; \<open>tab\<close> and \<open>nl\<close> are the escapes of the format strings.\<close>

abbreviation (input) tab :: cstring where "tab \<equiv> [9]"
abbreviation (input) nl :: cstring where "nl \<equiv> [10]"

definition emit_label :: "cstring \<Rightarrow> cstring \<Rightarrow> cstring \<Rightarrow> cstring" where
  "emit_label f prfx l =
     f @ tab @ cstr ''.globl'' @ tab @ prfx @ cstr ''_'' @ l @ nl
       @ prfx @ cstr ''_'' @ l @ cstr '':'' @ nl
       @ cstr ''_'' @ prfx @ cstr ''_'' @ l @ cstr '':'' @ nl"

definition emit_offset_label :: "cstring \<Rightarrow> cstring \<Rightarrow> int \<Rightarrow> cstring" where
  "emit_offset_label f l offset =
     f @ tab @ cstr ''.globl'' @ tab @ l @ nl
       @ l @ tab @ cstr ''= . + '' @ print_int offset @ nl"

definition ASM_EMIT_BELONG :: "cstring \<Rightarrow> cstring \<Rightarrow> cstring" where
  "ASM_EMIT_BELONG f e =
     f @ tab @ cstr ''.byte'' @ tab @ cstr ''(('' @ e @ cstr '') >> 24) & 0xff'' @ nl
       @ tab @ cstr ''.byte'' @ tab @ cstr ''(('' @ e @ cstr '') >> 16) & 0xff'' @ nl
       @ tab @ cstr ''.byte'' @ tab @ cstr ''(('' @ e @ cstr '') >> 8) & 0xff'' @ nl
       @ tab @ cstr ''.byte'' @ tab @ cstr ''('' @ e @ cstr '') & 0xff'' @ nl"

definition asm_cell :: "cstring \<Rightarrow> int \<Rightarrow> cstring" where
  "asm_cell f val =
     f @ tab @ cstr ''.byte 0x'' @ print_hex 2 (drop_bit 24 (u32 val) AND 0xff)
       @ cstr ''; .byte 0x'' @ print_hex 2 (drop_bit 16 (u32 val) AND 0xff)
       @ cstr ''; .byte 0x'' @ print_hex 2 (drop_bit 8 (u32 val) AND 0xff)
       @ cstr ''; .byte 0x'' @ print_hex 2 (u32 val AND 0xff) @ nl"

definition asm_emit_cell :: "cstring \<Rightarrow> int \<Rightarrow> cstring option" where
  "asm_emit_cell f val = Some (asm_cell f val)"

definition asm_emit_string :: "cstring \<Rightarrow> cstring \<Rightarrow> int \<Rightarrow> cstring option" where
  "asm_emit_string f str len =
     Some (f @ tab @ cstr ''.string'' @ tab @ [34]
       @ (if len \<noteq> 0 \<and> 0 \<le> len then take (nat len) str else str) @ [34] @ nl)"

definition asm_emit_align :: "cstring \<Rightarrow> int \<Rightarrow> cstring option" where
  "asm_emit_align f a = Some (f @ tab @ cstr ''.balign'' @ tab @ print_int a @ cstr '', 0'' @ nl)"

fun asm_offset_labels :: "cstring \<Rightarrow> marker list \<Rightarrow> cstring option" where
  "asm_offset_labels f [] = Some f"
| "asm_offset_labels f (m # ms) =
     (if mtype m = LABEL then do {
        l \<leftarrow> mref m;
        asm_offset_labels (emit_offset_label f l (s32 (moffset m))) ms }
      else asm_offset_labels f ms)"

text \<open>The two loops of \<open>asm_emit_data\<close>: whole cells, then single bytes.\<close>

function asm_bytes :: "cstring \<Rightarrow> raw \<Rightarrow> int \<Rightarrow> int \<Rightarrow> cstring option" where
  "asm_bytes f v len off =
     (if len - off \<ge> 4 then do {
        c \<leftarrow> load_cell v off;
        asm_bytes (asm_cell f c) v len (off + 4) }
      else if len - off \<ge> 1 then do {
        b \<leftarrow> at v off;
        c \<leftarrow> b;
        asm_bytes (f @ tab @ cstr ''.byte'' @ tab @ cstr ''0x'' @ print_hex 1 (uint c) @ nl) v len (off + 1) }
      else Some f)"
  by pat_completeness auto
termination
  by (relation "measure (\<lambda>(f, v, len, off). nat (len - off))") auto

declare asm_bytes.simps [simp del]

definition asm_emit_data :: "cstring \<Rightarrow> data \<Rightarrow> cstring option" where
  "asm_emit_data f d = do {
     f \<leftarrow> asm_offset_labels f (dmarkers d);
     asm_bytes f (dval d) (dlen d) 0 }"

text \<open>The live labels, each declared with a suffix.\<close>

definition asm_labels :: "cstring \<Rightarrow> label list \<Rightarrow> cstring \<Rightarrow> cstring" where
  "asm_labels f labels suffx =
     foldl (\<lambda>f l. f @ tab @ cstr ''.globl'' @ tab @ llabel l @ suffx @ nl @ llabel l @ suffx @ cstr '':'' @ nl)
       f (filter (\<lambda>l. \<not> ldeleted l) labels)"

definition asm_emit_beginnode :: "cstring \<Rightarrow> label list \<Rightarrow> cstring option" where
  "asm_emit_beginnode f labels =
     asm_emit_cell (asm_labels f labels [] @ tab @ cstr ''/* FDT_BEGIN_NODE */'' @ nl) FDT_BEGIN_NODE"

definition asm_emit_endnode :: "cstring \<Rightarrow> label list \<Rightarrow> cstring option" where
  "asm_emit_endnode f labels = do {
     f \<leftarrow> asm_emit_cell (f @ tab @ cstr ''/* FDT_END_NODE */'' @ nl) FDT_END_NODE;
     Some (asm_labels f labels (cstr ''_end'')) }"

definition asm_emit_property :: "cstring \<Rightarrow> label list \<Rightarrow> cstring option" where
  "asm_emit_property f labels =
     asm_emit_cell (asm_labels f labels [] @ tab @ cstr ''/* FDT_PROP */'' @ nl) FDT_PROP"

definition asm_emitter :: "cstring emitter" where
  "asm_emitter = \<lparr>em_cell = asm_emit_cell, em_string = asm_emit_string, em_align = asm_emit_align,
     em_data = asm_emit_data, em_beginnode = asm_emit_beginnode, em_endnode = asm_emit_endnode,
     em_property = asm_emit_property\<rparr>"

section \<open>The strings block\<close>

text \<open>\<open>streq\<close> with the string at an address of the table: the bytes up to the first difference are read.\<close>

fun streq_at :: "u8 list \<Rightarrow> raw \<Rightarrow> bool option" where
  "streq_at [] v = None"
| "streq_at (c # cs) [] = None"
| "streq_at (c # cs) (b # v) = do {
     x \<leftarrow> b;
     if x \<noteq> c then Some False else if c = 0 then Some True else streq_at cs v }"

function stringtable_find :: "data \<Rightarrow> cstring \<Rightarrow> int \<Rightarrow> int option option" where
  "stringtable_find d str i =
     (if i < dlen d then do {
        eq \<leftarrow> streq_at (str @ [0]) (drop (nat i) (dval d));
        if eq then Some (Some i) else stringtable_find d str (i + 1) }
      else Some None)"
  by pat_completeness auto
termination
  by (relation "measure (\<lambda>(d, str, i). nat (dlen d - i))") auto

declare stringtable_find.simps [simp del]

definition stringtable_insert :: "data \<Rightarrow> cstring \<Rightarrow> (int \<times> data) option" where
  "stringtable_insert d str = do {
     r \<leftarrow> stringtable_find d str 0;
     (case r of
        Some i \<Rightarrow> Some (s32 i, d)
      | None \<Rightarrow> do {
          d' \<leftarrow> data_append_data d (map Some (str @ [0])) (cstrlen str + 1);
          Some (s32 (dlen d), d') }) }"

section \<open>Flattening\<close>

text \<open>One property: the output and the strings block.\<close>

definition flatten_property ::
  "'e emitter \<Rightarrow> 'e \<Rightarrow> data \<Rightarrow> version_info \<Rightarrow> property \<Rightarrow> ('e \<times> data) option" where
  "flatten_property emit e strbuf vi p = do {
     (nameoff, strbuf) \<leftarrow> stringtable_insert strbuf (pname p);
     e \<leftarrow> em_property emit e (plabels p);
     e \<leftarrow> em_cell emit e (dlen (pval p));
     e \<leftarrow> em_cell emit e nameoff;
     e \<leftarrow> (if flag (vi_flags vi) FTF_VARALIGN \<and> dlen (pval p) \<ge> 8 then em_align emit e 8 else Some e);
     e \<leftarrow> em_data emit e (pval p);
     e \<leftarrow> em_align emit e 4;
     Some (e, strbuf) }"

fun flatten_props ::
  "'e emitter \<Rightarrow> 'e \<Rightarrow> data \<Rightarrow> version_info \<Rightarrow> property list \<Rightarrow> ('e \<times> data) option" where
  "flatten_props emit e strbuf vi [] = Some (e, strbuf)"
| "flatten_props emit e strbuf vi (p # ps) =
     (if pdeleted p then flatten_props emit e strbuf vi ps
      else do {
        (e, strbuf) \<leftarrow> flatten_property emit e strbuf vi p;
        flatten_props emit e strbuf vi ps })"

text \<open>The \<open>name\<close> property old versions need.\<close>

definition flatten_name_prop ::
  "'e emitter \<Rightarrow> 'e \<Rightarrow> data \<Rightarrow> version_info \<Rightarrow> node_info \<Rightarrow> ('e \<times> data) option" where
  "flatten_name_prop emit e strbuf vi i = do {
     e \<leftarrow> em_property emit e [];
     e \<leftarrow> em_cell emit e (nbasenamelen i + 1);
     (nameoff, strbuf) \<leftarrow> stringtable_insert strbuf (cstr ''name'');
     e \<leftarrow> em_cell emit e nameoff;
     e \<leftarrow> (if flag (vi_flags vi) FTF_VARALIGN \<and> nbasenamelen i + 1 \<ge> 8 then em_align emit e 8 else Some e);
     name \<leftarrow> nname i;
     e \<leftarrow> em_string emit e name (nbasenamelen i);
     e \<leftarrow> em_align emit e 4;
     Some (e, strbuf) }"

function flatten_tree :: "'e emitter \<Rightarrow> 'e \<Rightarrow> data \<Rightarrow> version_info \<Rightarrow> node \<Rightarrow> ('e \<times> data) option"
  and flatten_children :: "'e emitter \<Rightarrow> 'e \<Rightarrow> data \<Rightarrow> version_info \<Rightarrow> node list \<Rightarrow> ('e \<times> data) option" where
  "flatten_tree emit e strbuf vi tree =
     (if ndeleted (info tree) then Some (e, strbuf)
      else do {
        e \<leftarrow> em_beginnode emit e (nlabels (info tree));
        name \<leftarrow> (if flag (vi_flags vi) FTF_FULLPATH then nfullpath (info tree) else nname (info tree));
        e \<leftarrow> em_string emit e name 0;
        e \<leftarrow> em_align emit e 4;
        (e, strbuf) \<leftarrow> flatten_props emit e strbuf vi (proplist tree);
        (e, strbuf) \<leftarrow>
          (if flag (vi_flags vi) FTF_NAMEPROPS
              \<and> \<not> list_ex (\<lambda>p. \<not> pdeleted p \<and> pname p = cstr ''name'') (proplist tree)
           then flatten_name_prop emit e strbuf vi (info tree)
           else Some (e, strbuf));
        (e, strbuf) \<leftarrow> flatten_children emit e strbuf vi (children tree);
        e \<leftarrow> em_endnode emit e (nlabels (info tree));
        Some (e, strbuf) })"
| "flatten_children emit e strbuf vi [] = Some (e, strbuf)"
| "flatten_children emit e strbuf vi (c # cs) =
     (if ndeleted (info c) then flatten_children emit e strbuf vi cs
      else do {
        (e, strbuf) \<leftarrow> flatten_tree emit e strbuf vi c;
        flatten_children emit e strbuf vi cs })"
  by pat_completeness auto
termination
proof (relation "measure (\<lambda>x. case x of Inl (emit, e, strbuf, vi, tree) \<Rightarrow> 2 * size tree
    | Inr (emit, e, strbuf, vi, cs) \<Rightarrow> Suc (2 * size_list size cs))", goal_cases)
  case 1
  then show ?case by simp
next
  case (2 emit e strbuf vi tree)
  then show ?case by (cases tree) simp
qed auto

declare flatten_tree.simps [simp del] flatten_children.simps [simp del]

section \<open>Writing a blob\<close>

text \<open>The options of the command line that shape the output.\<close>

record out_opts =
  reservenum :: int
  minsize :: int
  padsize :: int
  alignsize :: int

fun append_entries :: "data \<Rightarrow> reserve_info list \<Rightarrow> data option" where
  "append_entries d [] = Some d"
| "append_entries d (re # res) = do {
     d \<leftarrow> data_append_re d (raddress re) (rsize re);
     append_entries d res }"

fun append_empty_entries :: "data \<Rightarrow> nat \<Rightarrow> data option" where
  "append_empty_entries d 0 = Some d"
| "append_empty_entries d (Suc j) = do {
     d \<leftarrow> data_append_re d 0 0;
     append_empty_entries d j }"

definition flatten_reserve_list :: "out_opts \<Rightarrow> reserve_info list \<Rightarrow> data option" where
  "flatten_reserve_list opts rl = do {
     d \<leftarrow> append_entries empty_data rl;
     append_empty_entries d (nat (reservenum opts)) }"

text \<open>\<open>struct fdt_header\<close> as forty bytes of memory.\<close>

definition make_fdt_header :: "version_info \<Rightarrow> int \<Rightarrow> int \<Rightarrow> int \<Rightarrow> int \<Rightarrow> blob option" where
  "make_fdt_header vi reservesize dtsize strsize boot_cpuid = do {
     let reservesize = s32 (reservesize + 16);
     let fdt = \<lparr>blob_addr = 0, blob_mem = replicate 40 0xff\<rparr>;
     fdt \<leftarrow> fdt_set_magic fdt FDT_MAGIC;
     fdt \<leftarrow> fdt_set_version fdt (vi_version vi);
     fdt \<leftarrow> fdt_set_last_comp_version fdt (vi_last_comp_version vi);
     let reserve_off = FDT_ALIGN (vi_hdr_size vi) 8;
     fdt \<leftarrow> fdt_set_off_mem_rsvmap fdt reserve_off;
     fdt \<leftarrow> fdt_set_off_dt_struct fdt (reserve_off + reservesize);
     fdt \<leftarrow> fdt_set_off_dt_strings fdt (reserve_off + reservesize + dtsize);
     fdt \<leftarrow> fdt_set_totalsize fdt (reserve_off + reservesize + dtsize + strsize);
     fdt \<leftarrow> (if flag (vi_flags vi) FTF_BOOTCPUID then fdt_set_boot_cpuid_phys fdt boot_cpuid else Some fdt);
     fdt \<leftarrow> (if flag (vi_flags vi) FTF_STRTABSIZE then fdt_set_size_dt_strings fdt strsize else Some fdt);
     if flag (vi_flags vi) FTF_STRUCTSIZE then fdt_set_size_dt_struct fdt dtsize else Some fdt }"

text \<open>How many bytes of padding follow the strings.\<close>

definition blob_padding :: "out_opts \<Rightarrow> int \<Rightarrow> int" where
  "blob_padding opts tsize =
     (let padlen = 0;
          padlen = (if minsize opts > 0 then max 0 (s32 (minsize opts - tsize)) else padlen);
          padlen = (if padsize opts > 0 then padsize opts else padlen)
      in if alignsize opts > 0
         then s32 (u32 (FDT_ALIGN (tsize + padlen) (alignsize opts)) - tsize)
         else padlen)"

text \<open>The blob in its parts: header, reserve map and its end, structure, strings, padding.\<close>

definition assemble_blob :: "version_info \<Rightarrow> blob \<Rightarrow> data \<Rightarrow> data \<Rightarrow> data \<Rightarrow> int \<Rightarrow> data option" where
  "assemble_blob vi fdt reservebuf dtbuf strbuf padlen = do {
     blob \<leftarrow> data_append_data empty_data (map Some (blob_mem fdt)) (vi_hdr_size vi);
     blob \<leftarrow> data_append_align blob 8;
     blob \<leftarrow> data_merge blob reservebuf;
     blob \<leftarrow> data_append_zeroes blob 16;
     blob \<leftarrow> data_merge blob dtbuf;
     blob \<leftarrow> data_merge blob strbuf;
     if padlen > 0 then data_append_zeroes blob padlen else Some blob }"

text \<open>The bytes written to the file.\<close>

definition dt_to_blob :: "out_opts \<Rightarrow> dt_info \<Rightarrow> int \<Rightarrow> u8 list option" where
  "dt_to_blob opts dti version = do {
     vi \<leftarrow> find_version version;
     (dtbuf, strbuf) \<leftarrow> flatten_tree bin_emitter empty_data empty_data vi (dt dti);
     dtbuf \<leftarrow> bin_emit_cell dtbuf FDT_END;
     reservebuf \<leftarrow> flatten_reserve_list opts (reservelist dti);
     fdt \<leftarrow> make_fdt_header vi (s32 (dlen reservebuf)) (s32 (dlen dtbuf)) (s32 (dlen strbuf)) (boot_cpuid_phys dti);
     tsize \<leftarrow> fdt_totalsize fdt;
     let padlen = blob_padding opts tsize;
     fdt \<leftarrow> (if padlen > 0 then fdt_set_totalsize fdt (s32 tsize + padlen) else Some fdt);
     blob \<leftarrow> assemble_blob vi fdt reservebuf dtbuf strbuf padlen;
     out \<leftarrow> peek (dval blob) 0 (dlen blob);
     if None \<in> set out then None else Some (map the out) }"

section \<open>Writing assembler source\<close>

text \<open>The strings of the table one after the other; a string that runs past the allocation faults.\<close>

partial_function (option) dump_loop :: "cstring \<Rightarrow> data \<Rightarrow> int \<Rightarrow> cstring option" where
  "dump_loop f strbuf p =
     (if p < dlen strbuf then do {
        let rest = drop (nat p) (dval strbuf);
        let str = takeWhile (\<lambda>b. b \<noteq> Some 0) rest;
        if length str = length rest \<or> None \<in> set str then None
        else dump_loop (f @ tab @ cstr ''.string '' @ [34] @ map the str @ [34] @ nl) strbuf
               (p + int (length str) + 1) }
      else Some f)"

definition dump_stringtable_asm :: "cstring \<Rightarrow> data \<Rightarrow> cstring option" where
  "dump_stringtable_asm f strbuf = dump_loop f strbuf 0"

text \<open>The difference of two labels, a line of text, a cell in hexadecimal.\<close>

definition asm_diff :: "string \<Rightarrow> string \<Rightarrow> cstring" where
  "asm_diff l1 l2 = cstr ''_dt_'' @ cstr l1 @ cstr '' - _dt_'' @ cstr l2"

definition asm_line :: "cstring \<Rightarrow> string \<Rightarrow> cstring" where
  "asm_line f s = f @ cstr s @ nl"

definition asm_hex :: "cstring \<Rightarrow> int \<Rightarrow> cstring" where
  "asm_hex f v = ASM_EMIT_BELONG f (cstr ''0x'' @ print_hex 8 (u32 v))"

definition asm_reserve_entry :: "cstring \<Rightarrow> reserve_info \<Rightarrow> cstring" where
  "asm_reserve_entry f re =
     (let f = asm_labels f (rlabels re) [];
          f = asm_hex f (drop_bit 32 (raddress re));
          f = asm_hex f (raddress re AND 0xffffffff);
          f = asm_hex f (drop_bit 32 (rsize re))
      in asm_hex f (rsize re AND 0xffffffff))"

definition asm_empty_entry :: "cstring \<Rightarrow> cstring" where
  "asm_empty_entry f =
     f @ tab @ cstr ''.long'' @ tab @ cstr ''0, 0'' @ nl @ tab @ cstr ''.long'' @ tab @ cstr ''0, 0'' @ nl"

definition asm_header :: "version_info \<Rightarrow> int \<Rightarrow> cstring \<Rightarrow> cstring" where
  "asm_header vi boot_cpuid f =
     (let f = asm_line f ''/* autogenerated by dtc, do not edit */'' @ nl;
          f = emit_label f (cstr ''dt'') (cstr ''blob_start'');
          f = emit_label f (cstr ''dt'') (cstr ''header'');
          f = asm_cell (asm_line (f @ tab) ''/* magic */'') FDT_MAGIC;
          f = ASM_EMIT_BELONG (asm_line (f @ tab) ''/* totalsize */'') (asm_diff ''blob_abs_end'' ''blob_start'');
          f = ASM_EMIT_BELONG (asm_line (f @ tab) ''/* off_dt_struct */'') (asm_diff ''struct_start'' ''blob_start'');
          f = ASM_EMIT_BELONG (asm_line (f @ tab) ''/* off_dt_strings */'') (asm_diff ''strings_start'' ''blob_start'');
          f = ASM_EMIT_BELONG (asm_line (f @ tab) ''/* off_mem_rsvmap */'') (asm_diff ''reserve_map'' ''blob_start'');
          f = asm_cell (asm_line (f @ tab) ''/* version */'') (vi_version vi);
          f = asm_cell (asm_line (f @ tab) ''/* last_comp_version */'') (vi_last_comp_version vi);
          f = (if flag (vi_flags vi) FTF_BOOTCPUID
               then asm_cell (asm_line (f @ tab) ''/* boot_cpuid_phys */'') boot_cpuid else f);
          f = (if flag (vi_flags vi) FTF_STRTABSIZE
               then ASM_EMIT_BELONG (asm_line (f @ tab) ''/* size_dt_strings */'')
                      (asm_diff ''strings_end'' ''strings_start'') else f)
      in if flag (vi_flags vi) FTF_STRUCTSIZE
         then ASM_EMIT_BELONG (asm_line (f @ tab) ''/* size_dt_struct */'')
                (asm_diff ''struct_end'' ''struct_start'') else f)"

definition asm_padding :: "out_opts \<Rightarrow> cstring \<Rightarrow> cstring option" where
  "asm_padding opts f = do {
     let f = (if minsize opts > 0
              then f @ tab @ cstr ''.space'' @ tab @ print_int (minsize opts) @ cstr '' - (''
                   @ asm_diff ''blob_end'' ''blob_start'' @ cstr ''), 0'' @ nl else f);
     let f = (if padsize opts > 0
              then f @ tab @ cstr ''.space'' @ tab @ print_int (padsize opts) @ cstr '', 0'' @ nl else f);
     if alignsize opts > 0 then asm_emit_align f (alignsize opts) else Some f }"

definition dt_to_asm :: "out_opts \<Rightarrow> dt_info \<Rightarrow> int \<Rightarrow> cstring option" where
  "dt_to_asm opts dti version = do {
     vi \<leftarrow> find_version version;
     f \<leftarrow> asm_emit_align (asm_header vi (boot_cpuid_phys dti) []) 8;
     let f = emit_label f (cstr ''dt'') (cstr ''reserve_map'');
     let f = asm_line f ''/* Memory reserve map from source file */'';
     let f = foldl asm_reserve_entry f (reservelist dti);
     let f = (asm_empty_entry ^^ nat (u32 (reservenum opts))) f;
     let f = emit_label (asm_empty_entry f) (cstr ''dt'') (cstr ''struct_start'');
     (f, strbuf) \<leftarrow> flatten_tree asm_emitter f empty_data vi (dt dti);
     f \<leftarrow> asm_emit_cell (asm_line (f @ tab) ''/* FDT_END */'') FDT_END;
     let f = emit_label f (cstr ''dt'') (cstr ''struct_end'');
     let f = emit_label f (cstr ''dt'') (cstr ''strings_start'');
     f \<leftarrow> dump_stringtable_asm f strbuf;
     let f = emit_label f (cstr ''dt'') (cstr ''strings_end'');
     let f = emit_label f (cstr ''dt'') (cstr ''blob_end'');
     f \<leftarrow> asm_padding opts f;
     Some (emit_label f (cstr ''dt'') (cstr ''blob_abs_end'')) }"

section \<open>Reading a blob\<close>

text \<open>The pointers of an input buffer are offsets into the blob.\<close>

record inbuf =
  ibase :: int
  ilimit :: int
  iptr :: int

definition inbuf_init :: "int \<Rightarrow> int \<Rightarrow> inbuf" where
  "inbuf_init base limit = \<lparr>ibase = base, ilimit = limit, iptr = base\<rparr>"

definition flat_read_chunk :: "blob \<Rightarrow> inbuf \<Rightarrow> int \<Rightarrow> (u8 list \<times> inbuf) option" where
  "flat_read_chunk b inb len =
     (if iptr inb + len > ilimit inb then None
      else do {
        p \<leftarrow> rd b (iptr inb) len;
        Some (p, inb\<lparr>iptr := iptr inb + len\<rparr>) })"

text \<open>A big-endian value in bytes that were copied.\<close>

abbreviation (input) copied :: "u8 list \<Rightarrow> blob" where
  "copied bytes \<equiv> \<lparr>blob_addr = 0, blob_mem = bytes\<rparr>"

definition flat_read_word :: "blob \<Rightarrow> inbuf \<Rightarrow> (int \<times> inbuf) option" where
  "flat_read_word b inb =
     (if (iptr inb - ibase inb) mod 4 \<noteq> 0 then None
      else do {
        (val, inb) \<leftarrow> flat_read_chunk b inb 4;
        v \<leftarrow> fdt32_ld (copied val) 0;
        Some (v, inb) })"

definition flat_realign :: "inbuf \<Rightarrow> int \<Rightarrow> inbuf option" where
  "flat_realign inb align =
     (let off = s32 (iptr inb - ibase inb);
          p = ibase inb + s32 (FDT_ALIGN off align)
      in if p > ilimit inb then None else Some (inb\<lparr>iptr := p\<rparr>))"

text \<open>The position of the first \<open>NUL\<close> from \<open>p\<close> on and before the limit.\<close>

function scan_nul :: "blob \<Rightarrow> int \<Rightarrow> int \<Rightarrow> int option" where
  "scan_nul b p limit =
     (if p \<ge> limit then None
      else do {
        c \<leftarrow> ld8 b p;
        if c = 0 then Some p else scan_nul b (p + 1) limit })"
  by pat_completeness auto
termination
  by (relation "measure (\<lambda>(b, p, limit). nat (limit - p))") auto

declare scan_nul.simps [simp del]

definition flat_read_string :: "blob \<Rightarrow> inbuf \<Rightarrow> (cstring \<times> inbuf) option" where
  "flat_read_string b inb = do {
     p \<leftarrow> scan_nul b (iptr inb) (ilimit inb);
     str \<leftarrow> rd b (iptr inb) (p - iptr inb);
     inb \<leftarrow> flat_realign (inb\<lparr>iptr := p + 1\<rparr>) 4;
     Some (str, inb) }"

definition flat_read_data :: "blob \<Rightarrow> inbuf \<Rightarrow> int \<Rightarrow> (data \<times> inbuf) option" where
  "flat_read_data b inb len =
     (if len = 0 then Some (empty_data, inb)
      else do {
        d \<leftarrow> data_grow_for empty_data (u32 len);
        (bytes, inb) \<leftarrow> flat_read_chunk b inb len;
        v \<leftarrow> poke (dval d) 0 (map Some bytes);
        inb \<leftarrow> flat_realign inb 4;
        Some (d\<lparr>dlen := u32 len, dval := v\<rparr>, inb) })"

definition flat_read_stringtable :: "blob \<Rightarrow> inbuf \<Rightarrow> int \<Rightarrow> cstring option" where
  "flat_read_stringtable b inb offset =
     (if ibase inb + offset < ibase inb then None
      else do {
        p \<leftarrow> scan_nul b (ibase inb + offset) (ilimit inb);
        rd b (ibase inb + offset) (p - (ibase inb + offset)) })"

definition flat_read_property :: "blob \<Rightarrow> inbuf \<Rightarrow> inbuf \<Rightarrow> int \<Rightarrow> (property \<times> inbuf) option" where
  "flat_read_property b dtbuf strbuf flags = do {
     (len, dtbuf) \<leftarrow> flat_read_word b dtbuf;
     (stroff, dtbuf) \<leftarrow> flat_read_word b dtbuf;
     name \<leftarrow> flat_read_stringtable b strbuf (s32 stroff);
     dtbuf \<leftarrow> (if flag flags FTF_VARALIGN \<and> len \<ge> 8 then flat_realign dtbuf 8 else Some dtbuf);
     (val, dtbuf) \<leftarrow> flat_read_data b dtbuf (s32 len);
     Some (build_property name val, dtbuf) }"

partial_function (option) mem_reserve_loop ::
  "blob \<Rightarrow> inbuf \<Rightarrow> reserve_info list \<Rightarrow> (reserve_info list \<times> inbuf) option" where
  "mem_reserve_loop b inb rl = do {
     (re, inb) \<leftarrow> flat_read_chunk b inb 16;
     address \<leftarrow> fdt64_ld (copied re) 0;
     sz \<leftarrow> fdt64_ld (copied re) 8;
     if sz = 0 then Some (rl, inb)
     else mem_reserve_loop b inb (add_reserve_entry rl (build_reserve_entry address sz)) }"

definition flat_read_mem_reserve :: "blob \<Rightarrow> inbuf \<Rightarrow> (reserve_info list \<times> inbuf) option" where
  "flat_read_mem_reserve b inb = mem_reserve_loop b inb []"

text \<open>\<open>strstarts\<close> compares the prefix; copying from past the \<open>NUL\<close> of \<open>cpath\<close> faults.\<close>

definition nodename_from_path :: "cstring \<Rightarrow> cstring \<Rightarrow> cstring option" where
  "nodename_from_path ppath cpath =
     (if take (length ppath) cpath \<noteq> ppath then None
      else let plen = (if ppath \<noteq> cstr ''/'' then length ppath + 1 else length ppath)
           in if plen > length cpath then None else Some (drop plen cpath))"

text \<open>\<open>unflatten_tree\<close> up to its loop: the node, its name in the blob.\<close>

definition unflatten_start ::
  "blob \<Rightarrow> inbuf \<Rightarrow> cstring \<Rightarrow> int \<Rightarrow> (node \<times> cstring \<times> inbuf) option" where
  "unflatten_start b dtbuf parent_flatname flags = do {
     (flatname, dtbuf) \<leftarrow> flat_read_string b dtbuf;
     name \<leftarrow> (if flag flags FTF_FULLPATH then nodename_from_path parent_flatname flatname else Some flatname);
     Some (set_info (\<lambda>i. i\<lparr>nname := Some name\<rparr>) (build_node [] []), flatname, dtbuf) }"

partial_function (option) unflatten_loop ::
  "blob \<Rightarrow> inbuf \<Rightarrow> int \<Rightarrow> cstring \<Rightarrow> node \<Rightarrow> inbuf \<Rightarrow> (node \<times> inbuf) option" where
  "unflatten_loop b strbuf flags flatname node dtbuf = do {
     (val, dtbuf) \<leftarrow> flat_read_word b dtbuf;
     if val = FDT_PROP then do {
       (prop, dtbuf) \<leftarrow> flat_read_property b dtbuf strbuf flags;
       unflatten_loop b strbuf flags flatname (add_property node prop) dtbuf }
     else if val = FDT_BEGIN_NODE then do {
       (child, childname, dtbuf) \<leftarrow> unflatten_start b dtbuf flatname flags;
       (child, dtbuf) \<leftarrow> unflatten_loop b strbuf flags childname child dtbuf;
       unflatten_loop b strbuf flags flatname (add_child node child) dtbuf }
     else if val = FDT_END_NODE then Some (node, dtbuf)
     else if val = FDT_NOP then unflatten_loop b strbuf flags flatname node dtbuf
     else None }"

definition unflatten_tree :: "blob \<Rightarrow> inbuf \<Rightarrow> inbuf \<Rightarrow> cstring \<Rightarrow> int \<Rightarrow> (node \<times> inbuf) option" where
  "unflatten_tree b dtbuf strbuf parent_flatname flags = do {
     (node, flatname, dtbuf) \<leftarrow> unflatten_start b dtbuf parent_flatname flags;
     unflatten_loop b strbuf flags flatname node dtbuf }"

text \<open>The file from behind the two words read first, into an allocation of \<open>totalsize\<close> bytes. A
  negative \<open>sizeleft\<close> is a huge \<open>size_t\<close> for \<open>fread\<close>.\<close>

partial_function (option) read_loop :: "cfile \<Rightarrow> u8 list \<Rightarrow> int \<Rightarrow> int \<Rightarrow> u8 list option" where
  "read_loop f blob totalsize sizeleft =
     (if sizeleft = 0 then Some blob
      else if feof f then None
      else do {
        let (bytes, f) = fread f (u64 sizeleft);
        if int (length blob) + int (length bytes) > totalsize then None
        else read_loop f (blob @ bytes) totalsize (s32 (sizeleft - int (length bytes))) })"

definition read_blob :: "cfile \<Rightarrow> blob option" where
  "read_blob f = do {
     let (magic_buf, f) = fread f 4;
     magic \<leftarrow> fdt32_ld (copied magic_buf) 0;
     if magic \<noteq> FDT_MAGIC then None
     else do {
       let (totalsize_buf, f) = fread f 4;
       totalsize \<leftarrow> fdt32_ld (copied totalsize_buf) 0;
       if totalsize < FDT_V1_SIZE then None
       else do {
         mem \<leftarrow> read_loop f (magic_buf @ totalsize_buf) totalsize (s32 (totalsize - 8));
         Some \<lparr>blob_addr = 0, blob_mem = mem\<rparr> } } }"

abbreviation (input) DTSF_V1 :: int where "DTSF_V1 \<equiv> 0x0001"

definition dt_from_blob :: "cfile \<Rightarrow> dt_info option" where
  "dt_from_blob f = do {
     fdt \<leftarrow> read_blob f;
     totalsize \<leftarrow> fdt_totalsize fdt;
     off_dt \<leftarrow> fdt_off_dt_struct fdt;
     off_str \<leftarrow> fdt_off_dt_strings fdt;
     off_mem_rsvmap \<leftarrow> fdt_off_mem_rsvmap fdt;
     version \<leftarrow> fdt_version fdt;
     boot_cpuid \<leftarrow> fdt_boot_cpuid_phys fdt;
     if off_mem_rsvmap \<ge> totalsize \<or> off_dt \<ge> totalsize \<or> off_str > totalsize then None
     else do {
       strbuf \<leftarrow>
         (if version \<ge> 3 then do {
            size_str \<leftarrow> fdt_size_dt_strings fdt;
            if u32 (off_str + size_str) < off_str \<or> u32 (off_str + size_str) > totalsize then None
            else Some (inbuf_init off_str (off_str + size_str)) }
          else Some (inbuf_init off_str totalsize));
       ok \<leftarrow>
         (if version \<ge> 17 then do {
            size_dt \<leftarrow> fdt_size_dt_struct fdt;
            Some (\<not> (u32 (off_dt + size_dt) < off_dt \<or> u32 (off_dt + size_dt) > totalsize)) }
          else Some True);
       if \<not> ok then None
       else do {
         let flags = (if version < 16 then FTF_FULLPATH OR FTF_NAMEPROPS OR FTF_VARALIGN else FTF_NOPS);
         (rl, memresvbuf) \<leftarrow> flat_read_mem_reserve fdt (inbuf_init off_mem_rsvmap totalsize);
         (val, dtbuf) \<leftarrow> flat_read_word fdt (inbuf_init off_dt totalsize);
         if val \<noteq> FDT_BEGIN_NODE then None
         else do {
           (tree, dtbuf) \<leftarrow> unflatten_tree fdt dtbuf strbuf [] flags;
           (val, dtbuf) \<leftarrow> flat_read_word fdt dtbuf;
           if val \<noteq> FDT_END then None
           else Some (build_dt_info DTSF_V1 rl tree boot_cpuid) } } } }"

declare dump_loop.simps [code] mem_reserve_loop.simps [code] unflatten_loop.simps [code] read_loop.simps [code]

end
