(* ===== verification/Dtc_Blob.thy ===== *)
theory Dtc_Blob
  imports Dtc_Flattree Fdt_Check
begin

text \<open>
  What \<open>dt_to_blob\<close> writes: the encoding of tokens, the strings block, and that flattening a live tree appends the
  tokens of the nodes and properties that are not deleted. The result is a version 17 blob with the
  reserve entries and the items of the tree.
\<close>

section \<open>Bytes in a blob\<close>

definition holds :: "blob \<Rightarrow> int \<Rightarrow> u8 list \<Rightarrow> bool" where
  "holds b p xs \<longleftrightarrow> rd b p (int (length xs)) = Some xs"

lemma holds_append: "holds b p (xs @ ys) \<longleftrightarrow> holds b p xs \<and> holds b (p + int (length xs)) ys"
proof
  assume a: "holds b p (xs @ ys)"
  then have r: "rd b p (int (length (xs @ ys))) = Some (xs @ ys)" by (simp add: holds_def)
  show "holds b p xs \<and> holds b (p + int (length xs)) ys"
    using rd_sub [OF r, of 0 "int (length xs)"] rd_sub [OF r, of "int (length xs)" "int (length ys)"]
    by (simp add: holds_def)
next
  assume a: "holds b p xs \<and> holds b (p + int (length xs)) ys"
  then have i: "\<forall>i < length xs. ld8 b (p + int i) = Some (xs ! i)" "0 \<le> p"
      "\<forall>i < length ys. ld8 b (p + int (length xs) + int i) = Some (ys ! i)" 
      "p + int (length xs) + int (length ys) \<le> blen b"
    by (auto simp: holds_def rd_eq_iff)
  have "ld8 b (p + int j) = Some ((xs @ ys) ! j)" if "j < length (xs @ ys)" for j
  proof (cases "j < length xs")
    case False
    then obtain k where k: "j = length xs + k" using le_Suc_ex by (metis not_less)
    then show ?thesis using i(3) that by (simp add: nth_append add.assoc)
  qed (use i in \<open>simp add: nth_append\<close>)
  then show "holds b p (xs @ ys)" using i by (simp add: holds_def rd_eq_iff)
qed

lemma holds_cell: "holds b p (bytes32 v) \<Longrightarrow> fdt32_ld b p = Some (u32 v)"
  by (rule ld32_of_bytes32) (simp add: holds_def rd_eq_iff)

lemma holds_long: "holds b p (bytes64 v) \<Longrightarrow> fdt64_ld b p = Some (u64 v)"
proof -
  assume "holds b p (bytes64 v)"
  then have "fdt32_ld b p = Some (u32 (v div 4294967296))" "fdt32_ld b (p + 4) = Some (u32 v)"
    using holds_cell by (simp_all add: bytes64_alt holds_append)
  moreover have "u32 (v div 4294967296) * 4294967296 + u32 v = u64 v"
    using zmod_zmult2_eq [of 4294967296 v 4294967296] by (simp add: u32_def u64_def)
  ultimately show ?thesis by (simp add: fdt64_ld_alt)
qed

section \<open>The encoding of tokens\<close>

definition pad4 :: "u8 list \<Rightarrow> u8 list" where
  "pad4 xs = xs @ replicate (nat (FDT_TAGALIGN (int (length xs))) - length xs) 0"

lemma length_pad4: "int (length (pad4 xs)) = FDT_TAGALIGN (int (length xs))"
  using TAGALIGN_length(1,2) [of xs] by (simp add: pad4_def)

lemma holds_pad4: "holds b p (pad4 xs) \<Longrightarrow> holds b p xs"
  by (simp add: pad4_def holds_append)

fun tok_bytes :: "tok \<Rightarrow> u8 list" where
  "tok_bytes (TBegin n) = bytes32 FDT_BEGIN_NODE @ pad4 (n @ [0])"
| "tok_bytes (TProp no v) = bytes32 FDT_PROP @ bytes32 (int (length v)) @ bytes32 no @ pad4 v"
| "tok_bytes t = bytes32 (tok_tag t)"

abbreviation toks_bytes :: "tok list \<Rightarrow> u8 list" where
  "toks_bytes ts \<equiv> concat (map tok_bytes ts)"

fun tok_ok :: "tok \<Rightarrow> bool" where
  "tok_ok (TBegin n) \<longleftrightarrow> 0 \<notin> set n"
| "tok_ok (TProp no v) \<longleftrightarrow> 0 \<le> no \<and> no < 4294967296 \<and> int (length v) < 4294967296"
| "tok_ok t \<longleftrightarrow> True"

lemma length_tok_bytes: "int (length (tok_bytes t)) = tok_size t"
  by (cases t) (simp_all add: length_pad4 add.commute)

lemma length_toks_bytes: "int (length (toks_bytes ts)) = toks_size ts"
  by (induction ts) (simp_all add: length_tok_bytes)

lemma tok_bytes_at: "holds b p (tok_bytes t) \<Longrightarrow> tok_ok t \<Longrightarrow> tok_at b p t"
proof (cases t)
  case (TBegin n)
  assume a: "holds b p (tok_bytes t)" "tok_ok t"
  then have "holds b p (bytes32 FDT_BEGIN_NODE)" "holds b (p + 4) (n @ [0])"
    using holds_pad4 [of b "p + 4" "n @ [0]"] by (simp_all add: TBegin holds_append)
  then show ?thesis using holds_cell [of b p FDT_BEGIN_NODE] a by (simp add: TBegin u32_id holds_def add.commute)
next
  case (TProp no v)
  assume a: "holds b p (tok_bytes t)" "tok_ok t"
  then have "holds b p (bytes32 FDT_PROP)" "holds b (p + 4) (bytes32 (int (length v)))"
    "holds b (p + 8) (bytes32 no)" "holds b (p + 12) v"
    using holds_pad4 [of b "p + 12" v] by (simp_all add: TProp holds_append add.assoc)
  then show ?thesis
    using holds_cell [of b p FDT_PROP] holds_cell [of b "p + 4"] holds_cell [of b "p + 8"] a
    by (simp add: TProp u32_id holds_def)
qed (auto dest!: holds_cell simp: u32_id)

lemma toks_bytes_at: "holds b p (toks_bytes ts) \<Longrightarrow> list_all tok_ok ts \<Longrightarrow> toks_at b p ts"
proof (induction ts arbitrary: p)
  case (Cons t ts)
  then show ?case using tok_bytes_at [of b p t] by (simp add: holds_append length_tok_bytes)
qed simp

section \<open>The strings block\<close>

definition str_in :: "raw \<Rightarrow> int \<Rightarrow> cstring \<Rightarrow> bool" where
  "str_in tbl no nm \<longleftrightarrow> 0 \<le> no \<and> no + cstrlen nm + 1 \<le> int (length tbl) \<and> 0 \<notin> set nm \<and>
     take (length nm + 1) (drop (nat no) tbl) = map Some (nm @ [0])"

definition table_ok :: "data \<Rightarrow> bool" where
  "table_ok d \<longleftrightarrow> data_ok d \<and> (contents d = [] \<or> last (contents d) = Some 0)"

definition extends :: "data \<Rightarrow> data \<Rightarrow> bool" where
  "extends d d' \<longleftrightarrow> (\<exists>xs. contents d' = contents d @ xs)"

lemma extends_refl [simp]: "extends d d"
  by (simp add: extends_def)

lemma extends_trans: "extends d e \<Longrightarrow> extends e f \<Longrightarrow> extends d f"
  by (auto simp: extends_def)

lemma str_in_extends: "str_in (contents d) no nm \<Longrightarrow> extends d d' \<Longrightarrow> str_in (contents d') no nm"
  by (auto simp: str_in_def extends_def)

lemma streq_at_prefix:
  "0 \<notin> set s \<Longrightarrow> 0 \<in> set xs \<Longrightarrow> streq_at (s @ [0]) (map Some xs @ w) = Some (prefix (s @ [0]) xs)"
proof (induction s arbitrary: xs)
  case Nil
  then show ?case by (cases xs) auto
next
  case (Cons c s)
  then show ?case by (cases xs) auto
qed

lemma data_bytes:
  assumes "data_ok d"
  obtains xs w where "contents d = map Some xs" "dval d = map Some xs @ w" "int (length xs) = dlen d"
proof -
  note o = data_okD [OF assms]
  have "map Some (map the (contents d)) = contents d"
    unfolding map_map using o(3) by (intro map_idI) (auto simp: comp_def, metis option.collapse)
  then show ?thesis
    using that [of "map the (contents d)" "drop (nat (dlen d)) (dval d)"] o by (simp add: contents_def)
qed

lemma stringtable_find_spec:
  assumes "table_ok d" "0 \<notin> set s" "0 \<le> i" "i \<le> dlen d"
  shows "\<exists>r. stringtable_find d s i = Some r \<and> (\<forall>j. r = Some j \<longrightarrow> j < dlen d \<and> str_in (contents d) j s)"
  using assms(3,4)
proof (induction "nat (dlen d - i)" arbitrary: i)
  case 0
  then show ?case by (subst stringtable_find.simps) simp
next
  case (Suc n)
  obtain xs w where d: "contents d = map Some xs" "dval d = map Some xs @ w" "int (length xs) = dlen d"
    using data_bytes assms(1) unfolding table_ok_def by metis
  let ?ys = "drop (nat i) xs"
  have i: "i < dlen d" using Suc.hyps(2) by simp
  then have ys: "?ys \<noteq> []" "last ?ys = last xs" using d(3) Suc.prems by auto
  moreover have "xs \<noteq> []" using ys(1) by auto
  then have "last xs = 0" using assms(1) d by (auto simp: table_ok_def last_map)
  ultimately have "0 \<in> set ?ys" using last_in_set by metis
  then have e: "streq_at (s @ [0]) (drop (nat i) (dval d)) = Some (prefix (s @ [0]) ?ys)"
    using streq_at_prefix [OF assms(2), of ?ys w] d i by (simp add: drop_map)
  show ?case
  proof (cases "prefix (s @ [0]) ?ys")
    case True
    then obtain zs where z: "?ys = s @ 0 # zs" by (auto simp: prefix_def)
    then have "length ?ys \<ge> length s + 1" by simp
    then have "i + cstrlen s + 1 \<le> int (length (contents d))" using d i Suc.prems by simp
    then have "str_in (contents d) i s" using z Suc.prems assms(2) d by (simp add: str_in_def drop_map)
    then show ?thesis using e True i by (subst stringtable_find.simps) simp
  next
    case False
    then show ?thesis using Suc.hyps(1) [of "i + 1"] Suc.hyps(2) Suc.prems e i
      by (subst stringtable_find.simps) simp
  qed
qed

lemma stringtable_insert_spec:
  assumes d: "table_ok d" "0 \<notin> set s" "dlen d + cstrlen s + 1 < DATA_MAX"
  shows "\<exists>no d'. stringtable_insert d s = Some (no, d') \<and> table_ok d' \<and> str_in (contents d') no s \<and>
    extends d d' \<and> dlen d' \<le> dlen d + cstrlen s + 1"
proof -
  have o: "data_ok d" "0 \<le> dlen d" using d(1) by (auto simp: table_ok_def data_ok_def)
  obtain r where r: "stringtable_find d s 0 = Some r" "\<forall>j. r = Some j \<longrightarrow> j < dlen d \<and> str_in (contents d) j s"
    using stringtable_find_spec [OF d(1,2), of 0] o by auto
  show ?thesis
  proof (cases r)
    case (Some j)
    then have "j < dlen d" "str_in (contents d) j s" using r(2) by simp_all
    moreover have "s32 j = j" using calculation d(3) by (intro s32_id) (auto simp: str_in_def)
    ultimately show ?thesis using r Some d(1) by (auto simp: stringtable_insert_def)
  next
    case None
    obtain d' where d': "data_append_data d (map Some (s @ [0])) (cstrlen s + 1) = Some d'" "appended d (map Some (s @ [0])) d'"
      using append_data_spec [OF o(1), of "map Some (s @ [0])"] d(3) by (auto simp: add.commute)
    have "s32 (dlen d) = dlen d" using o d by (intro s32_id) auto
    moreover have "str_in (contents d') (dlen d) s" "table_ok d'" "extends d d'" "dlen d' = dlen d + cstrlen s + 1"
      using d' data_okD(5) [OF o(1)] o d(2) by (auto simp: str_in_def appended_def table_ok_def extends_def)
    ultimately show ?thesis using r None d' by (auto simp: stringtable_insert_def)
  qed
qed

section \<open>Emitting tokens\<close>

lemma appended_trans: "appended d xs d1 \<Longrightarrow> appended d1 ys d2 \<Longrightarrow> appended d (xs @ ys) d2"
  by (simp add: appended_def)

lemma appended_ok: "appended d xs d' \<Longrightarrow> data_ok d'" "appended d xs d' \<Longrightarrow> dlen d' = dlen d + int (length xs)"
  by (simp_all add: appended_def)

lemma append_prefix_spec:
  assumes "data_ok d" "None \<notin> set xs" "dlen d + int (length xs) \<le> DATA_MAX"
  shows "\<exists>d'. data_append_data d (xs @ ys) (int (length xs)) = Some d' \<and> appended d xs d'"
proof -
  have "data_append_data d (xs @ ys) (int (length xs)) = data_append_data d xs (int (length xs))"
    by (simp add: data_append_data_def peek_def)
  then show ?thesis using append_data_spec [OF assms] by simp
qed

lemma emit_cell_spec:
  assumes "data_ok d" "dlen d + 4 \<le> DATA_MAX"
  shows "\<exists>d'. bin_emit_cell d w = Some d' \<and> appended d (map Some (bytes32 w)) d'"
  using cell_appends.app_appends [OF assms(1), of w] assms(2) by (simp add: bin_emit_cell_def)

lemma emit_string_spec:
  assumes "data_ok d" "dlen d + cstrlen s + 1 \<le> DATA_MAX"
  shows "\<exists>d'. bin_emit_string d s 0 = Some d' \<and> appended d (map Some (s @ [0])) d'"
proof -
  obtain d1 where d1: "data_append_data d (map Some s @ [Some 0]) (cstrlen s) = Some d1" "appended d (map Some s) d1"
    using append_prefix_spec [OF assms(1), of "map Some s" "[Some 0]"] assms(2) by auto
  obtain d2 where "data_append_data d1 [Some 0] 1 = Some d2" "appended d1 [Some 0] d2"
    using append_data_spec [OF appended_ok(1) [OF d1(2)], of "[Some 0]"] appended_ok(2) [OF d1(2)] assms(2) by auto
  then show ?thesis
    using d1 appended_trans [OF d1(2)] by (simp add: bin_emit_string_def data_append_byte_def)
qed

lemma emit_data_spec:
  assumes "data_ok d" "data_ok v" "dlen d + dlen v < DATA_MAX"
  shows "\<exists>d'. bin_emit_data d v = Some d' \<and> appended d (contents v) d'"
proof -
  note o = data_okD [OF assms(2)]
  have "s32 (dlen v) = dlen v" using o(1) assms data_okD(1) [OF assms(1)] by (intro s32_id) auto
  moreover have "dval v = contents v @ drop (nat (dlen v)) (dval v)" by (simp add: contents_def)
  moreover have "int (length (contents v)) = dlen v" using o by simp
  ultimately show ?thesis
    using append_prefix_spec [OF assms(1) o(3), of "drop (nat (dlen v)) (dval v)"] assms(3)
    by (simp add: bin_emit_data_def)
qed

text \<open>Behind an aligned start, aligning to four completes the padding.\<close>

lemma emit_align_spec:
  assumes "4 dvd dlen d0" "4 dvd length ys" "appended d0 (map Some (ys @ xs)) d" "dlen d + 4 \<le> INT_MAX"
  shows "\<exists>d'. bin_emit_align d 4 = Some d' \<and> appended d0 (map Some (ys @ pad4 xs)) d'"
proof -
  obtain d' n where d': "data_append_align d 4 = Some d'" "n < 4" "appended d (replicate n (Some 0)) d'" "4 dvd dlen d'"
    using append_align_spec [of d 2] appended_ok(1) [OF assms(3)] assms(4) by auto
  have "int (length xs) + int n = dlen d' - dlen d0 - int (length ys)"
    using appended_ok(2) [OF assms(3)] appended_ok(2) [OF d'(3)] by simp
  moreover have "4 dvd int (length ys)" using assms(2) int_dvd_int_iff [of 4 "length ys"] by simp
  ultimately have "4 dvd int (length xs) + int n" using d'(4) assms(1) by simp
  then have "int n = FDT_TAGALIGN (int (length xs)) - int (length xs)"
    using d'(2) FDT_TAGALIGN_bounds [of "int (length xs)"] by presburger
  then have "n = nat (FDT_TAGALIGN (int (length xs))) - length xs" by linarith
  then show ?thesis
    using d'(1) appended_trans [OF assms(3) d'(3)] by (simp add: bin_emit_align_def pad4_def)
qed

section \<open>Flattening refines the items of the tree\<close>

fun tok_means :: "raw \<Rightarrow> tok \<Rightarrow> item \<Rightarrow> bool" where
  "tok_means tbl (TBegin n) (Begin m) \<longleftrightarrow> n = m \<and> 0 \<notin> set n"
| "tok_means tbl TEnd End \<longleftrightarrow> True"
| "tok_means tbl (TProp no v) (Prop nm w) \<longleftrightarrow> v = w \<and> str_in tbl no nm"
| "tok_means tbl t i \<longleftrightarrow> False"

lemma tok_means_extends: "tok_means (contents d) t i \<Longrightarrow> extends d d' \<Longrightarrow> tok_means (contents d') t i"
  by (cases t; cases i) (auto intro: str_in_extends)

fun item_names :: "item \<Rightarrow> int" where
  "item_names (Prop n v) = cstrlen n + 1"
| "item_names i = 0"

definition names_size :: "item list \<Rightarrow> int" where
  "names_size is = sum_list (map item_names is)"

lemma names_size_simps [simp]: "names_size [] = 0" "names_size (i # is) = item_names i + names_size is"
    "names_size (is @ js) = names_size is + names_size js"
  by (simp_all add: names_size_def)

lemma tok_means_size: "tok_means tbl t i \<Longrightarrow> tok_size t = item_size i"
  by (cases t; cases i) auto

lemma toks_mean_size: "list_all2 (tok_means tbl) ts is \<Longrightarrow> toks_size ts = items_size is"
  by (induction ts "is" rule: list_all2_induct) (auto simp: tok_means_size)

lemma sizes_nonneg: "0 \<le> items_size is" "0 \<le> names_size is"
proof -
  have "0 \<le> item_size i" for i
  proof (cases i)
    case (Begin n)
    then show ?thesis using TAGALIGN_length(4) [of n] by simp
  next
    case (Prop n v)
    then show ?thesis using TAGALIGN_length(2) [of v] by simp
  qed simp
  moreover have "0 \<le> item_names i" for i by (cases i) simp_all
  ultimately show "0 \<le> items_size is" "0 \<le> names_size is" by (induction "is") simp_all
qed

text \<open>Room for the items behind what is there already.\<close>

definition ready :: "data \<Rightarrow> data \<Rightarrow> item list \<Rightarrow> bool" where
  "ready e st is \<longleftrightarrow> data_ok e \<and> 4 dvd dlen e \<and> table_ok st \<and>
     dlen e + items_size is + 8 \<le> INT_MAX \<and> dlen st + names_size is \<le> INT_MAX"

definition flattened :: "data \<Rightarrow> data \<Rightarrow> item list \<Rightarrow> data \<Rightarrow> data \<Rightarrow> bool" where
  "flattened e st is e' st' \<longleftrightarrow> (\<exists>ts. appended e (map Some (toks_bytes ts)) e' \<and> table_ok st' \<and> extends st st' \<and>
     dlen st' \<le> dlen st + names_size is \<and> list_all2 (tok_means (contents st')) ts is)"

lemma flattened_refl: "ready e st [] \<Longrightarrow> flattened e st [] e st"
  unfolding flattened_def by (intro exI [of _ "[]"]) (auto simp: ready_def appended_def)

lemma flattened_trans:
  assumes "flattened e st is e1 st1" "flattened e1 st1 js e2 st2"
  shows "flattened e st (is @ js) e2 st2"
proof -
  obtain ts us where ts: "appended e (map Some (toks_bytes ts)) e1" "list_all2 (tok_means (contents st1)) ts is"
    and us: "appended e1 (map Some (toks_bytes us)) e2" "list_all2 (tok_means (contents st2)) us js"
    using assms by (auto simp: flattened_def)
  have x: "extends st1 st2" using assms(2) by (auto simp: flattened_def)
  then have "list_all2 (tok_means (contents st2)) ts is"
    using ts(2) tok_means_extends by (auto elim!: list_all2_mono)
  then have "list_all2 (tok_means (contents st2)) (ts @ us) (is @ js)" using us(2) by (simp add: list_all2_appendI)
  moreover have "appended e (map Some (toks_bytes (ts @ us))) e2" using appended_trans [OF ts(1) us(1)] by simp
  ultimately show ?thesis
    using assms x extends_trans unfolding flattened_def by (intro exI [of _ "ts @ us"]) auto
qed

lemma ready_after:
  assumes "ready e st (is @ js)" "flattened e st is e' st'"
  shows "ready e' st' js"
proof -
  obtain ts where ts: "appended e (map Some (toks_bytes ts)) e'" "list_all2 (tok_means (contents st')) ts is"
    "table_ok st'" "dlen st' \<le> dlen st + names_size is"
    using assms(2) by (auto simp: flattened_def)
  have "dlen e' = dlen e + items_size is"
    using appended_ok(2) [OF ts(1)] length_toks_bytes [of ts] toks_mean_size [OF ts(2)] by simp
  moreover have "4 dvd items_size is" using toks_size_nonneg(2) [of ts] toks_mean_size [OF ts(2)] by simp
  ultimately show ?thesis using assms(1) ts appended_ok(1) [OF ts(1)] by (auto simp: ready_def)
qed

lemma ready_prefix: "ready e st (is @ js) \<Longrightarrow> ready e st is"
  using sizes_nonneg [of js] by (auto simp: ready_def)

definition prop_bytes :: "property \<Rightarrow> u8 list" where
  "prop_bytes p = map the (contents (pval p))"

definition prop_entry :: "property \<Rightarrow> entry" where
  "prop_entry p = EProp (pname p) (prop_bytes p)"

lemma flat_prop_entry [simp]: "flat (prop_entry p) = [Prop (pname p) (prop_bytes p)]"
  by (simp add: prop_entry_def)

abbreviation live_props :: "property list \<Rightarrow> property list" where
  "live_props ps \<equiv> filter (\<lambda>p. \<not> pdeleted p) ps"

abbreviation live_nodes :: "node list \<Rightarrow> node list" where
  "live_nodes cs \<equiv> filter (\<lambda>c. \<not> ndeleted (info c)) cs"

fun live_entry :: "node \<Rightarrow> entry" where
  "live_entry (Node i ps cs) =
     ENode (the (nname i)) (map prop_entry (live_props ps) @ map live_entry (live_nodes cs))"

definition live_entries :: "node \<Rightarrow> entry list" where
  "live_entries n = map prop_entry (live_props (proplist n)) @ map live_entry (live_nodes (children n))"

lemma live_entry_node: "live_entry n = ENode (the (nname (info n))) (live_entries n)"
  by (cases n) (simp add: live_entries_def)

definition prop_ok :: "property \<Rightarrow> bool" where
  "prop_ok p \<longleftrightarrow> 0 \<notin> set (pname p) \<and> data_ok (pval p)"

fun tree_ok :: "node \<Rightarrow> bool" where
  "tree_ok (Node i ps cs) \<longleftrightarrow> (case nname i of None \<Rightarrow> False | Some n \<Rightarrow> 0 \<notin> set n) \<and>
     list_all prop_ok (live_props ps) \<and> (\<forall>c \<in> set (live_nodes cs). tree_ok c)"

definition modern :: "version_info \<Rightarrow> bool" where
  "modern vi \<longleftrightarrow> \<not> flag (vi_flags vi) FTF_FULLPATH \<and> \<not> flag (vi_flags vi) FTF_VARALIGN \<and>
     \<not> flag (vi_flags vi) FTF_NAMEPROPS"

lemma modern_versions: "find_version version = Some vi \<Longrightarrow> 16 \<le> version \<Longrightarrow> modern vi"
  by (auto simp: find_version_def version_table_def modern_def split: if_splits)

lemma data_map_the: "data_ok d \<Longrightarrow> map Some (map the (contents d)) = contents d"
proof -
  assume "data_ok d"
  then obtain xs where "contents d = map Some xs" using data_bytes by metis
  then show ?thesis by (simp add: comp_def)
qed

lemma flatten_property_spec:
  assumes r: "ready e st [Prop (pname p) (prop_bytes p)]" and p: "prop_ok p" and v: "modern vi"
  shows "\<exists>e' st'. flatten_property bin_emitter e st vi p = Some (e', st') \<and>
    flattened e st [Prop (pname p) (prop_bytes p)] e' st'"
proof -
  let ?v = "prop_bytes p"
  have pv: "0 \<notin> set (pname p)" "data_ok (pval p)" using p by (simp_all add: prop_ok_def)
  have l: "int (length ?v) = dlen (pval p)" "map Some ?v = contents (pval p)"
    using data_okD [OF pv(2)] data_map_the [OF pv(2)] by (simp_all add: prop_bytes_def)
  have e: "data_ok e" "4 dvd dlen e" "table_ok st" "dlen e + 12 + FDT_TAGALIGN (int (length ?v)) + 8 \<le> INT_MAX"
    "dlen st + cstrlen (pname p) + 1 \<le> INT_MAX" "0 \<le> dlen e" 
    using r data_okD(1) [of e] by (simp_all add: ready_def)
  note al = TAGALIGN_length(1) [of ?v]
  obtain no st' where st: "stringtable_insert st (pname p) = Some (no, st')" "table_ok st'"
    "str_in (contents st') no (pname p)" "extends st st'" "dlen st' \<le> dlen st + cstrlen (pname p) + 1"
    using stringtable_insert_spec [OF e(3) pv(1)] e(5) by auto
  obtain e1 where e1: "bin_emit_cell e FDT_PROP = Some e1" "appended e (map Some (bytes32 FDT_PROP)) e1"
    using emit_cell_spec [OF e(1), of FDT_PROP] e(4,6) al l(1) by fastforce
  obtain e2 where e2: "bin_emit_cell e1 (dlen (pval p)) = Some e2" "appended e1 (map Some (bytes32 (int (length ?v)))) e2"
    using emit_cell_spec [OF appended_ok(1) [OF e1(2)], of "dlen (pval p)"] appended_ok(2) [OF e1(2)] e(4,6) al l by auto
  obtain e3 where e3: "bin_emit_cell e2 no = Some e3" "appended e2 (map Some (bytes32 no)) e3"
    using emit_cell_spec [OF appended_ok(1) [OF e2(2)], of no] appended_ok(2) [OF e1(2)] appended_ok(2) [OF e2(2)] e(4,6) al l by auto
  let ?hd = "bytes32 FDT_PROP @ bytes32 (int (length ?v)) @ bytes32 no"
  have a3: "appended e (map Some ?hd) e3"
    using appended_trans [OF appended_trans [OF e1(2) e2(2)] e3(2)] by simp
  have l3: "dlen e3 = dlen e + 12" using appended_ok(2) [OF a3] by simp
  obtain e4 where e4: "bin_emit_data e3 (pval p) = Some e4" "appended e3 (map Some ?v) e4"
    using emit_data_spec [OF appended_ok(1) [OF a3] pv(2)] l3 l e(4) al by auto
  have a4: "appended e (map Some (?hd @ ?v)) e4" using appended_trans [OF a3 e4(2)] by simp
  have "dlen e4 = dlen e + 12 + int (length ?v)" using appended_ok(2) [OF a4] by simp
  then obtain e5 where e5: "bin_emit_align e4 4 = Some e5" "appended e (map Some (?hd @ pad4 ?v)) e5"
    using emit_align_spec [OF e(2) _ a4] e(4) al by auto
  have "flattened e st [Prop (pname p) ?v] e5 st'"
    using e5(2) st unfolding flattened_def by (intro exI [of _ "[TProp no ?v]"]) simp
  moreover have "flatten_property bin_emitter e st vi p = Some (e5, st')"
    using st(1) e1(1) e2(1) e3(1) e4(1) e5(1) v
    by (simp add: flatten_property_def bin_emitter_def bin_emit_property_def modern_def)
  ultimately show ?thesis by blast
qed

lemma flatten_props_spec:
  assumes "ready e st (flats (map prop_entry (live_props ps)))" "list_all prop_ok (live_props ps)" "modern vi"
  shows "\<exists>e' st'. flatten_props bin_emitter e st vi ps = Some (e', st') \<and>
    flattened e st (flats (map prop_entry (live_props ps))) e' st'"
  using assms
proof (induction ps arbitrary: e st)
  case Nil
  then show ?case using flattened_refl by simp
next
  case (Cons p ps)
  show ?case
  proof (cases "pdeleted p")
    case False
    let ?i = "[Prop (pname p) (prop_bytes p)]" and ?js = "flats (map prop_entry (live_props ps))"
    have r: "ready e st (?i @ ?js)" using Cons.prems(1) False by simp
    obtain e1 st1 where e1: "flatten_property bin_emitter e st vi p = Some (e1, st1)" "flattened e st ?i e1 st1"
      using flatten_property_spec [OF ready_prefix [OF r] _ Cons.prems(3)] Cons.prems(2) False by auto
    obtain e2 st2 where "flatten_props bin_emitter e1 st1 vi ps = Some (e2, st2)" "flattened e1 st1 ?js e2 st2"
      using Cons.IH [OF ready_after [OF r e1(2)]] Cons.prems False by auto
    then show ?thesis using e1 flattened_trans [OF e1(2)] False by simp
  qed (use Cons in simp)
qed

lemma emit_begin_spec:
  assumes r: "ready e st [Begin n]" and n: "0 \<notin> set n"
  shows "\<exists>e1 e2 e3. bin_emit_cell e FDT_BEGIN_NODE = Some e1 \<and> bin_emit_string e1 n 0 = Some e2 \<and>
    bin_emit_align e2 4 = Some e3 \<and> flattened e st [Begin n] e3 st"
proof -
  have e: "data_ok e" "4 dvd dlen e" "table_ok st" "dlen e + 4 + FDT_TAGALIGN (cstrlen n + 1) + 8 \<le> INT_MAX" "0 \<le> dlen e"
    using r data_okD(1) [of e] by (simp_all add: ready_def)
  note al = TAGALIGN_length(3) [of n]
  obtain e1 where e1: "bin_emit_cell e FDT_BEGIN_NODE = Some e1" "appended e (map Some (bytes32 FDT_BEGIN_NODE)) e1"
    using emit_cell_spec [OF e(1), of FDT_BEGIN_NODE] e(4) al by fastforce
  obtain e2 where e2: "bin_emit_string e1 n 0 = Some e2" "appended e1 (map Some (n @ [0])) e2"
    using emit_string_spec [OF appended_ok(1) [OF e1(2)], of n] appended_ok(2) [OF e1(2)] e(4) al by auto
  have a2: "appended e (map Some (bytes32 FDT_BEGIN_NODE @ (n @ [0]))) e2" using appended_trans [OF e1(2) e2(2)] by simp
  then obtain e3 where e3: "bin_emit_align e2 4 = Some e3" "appended e (map Some (bytes32 FDT_BEGIN_NODE @ pad4 (n @ [0]))) e3"
    using emit_align_spec [OF e(2) _ a2] appended_ok(2) [OF a2] e(4) al by auto
  then have "flattened e st [Begin n] e3 st"
    using e(3) n unfolding flattened_def by (intro exI [of _ "[TBegin n]"]) simp
  then show ?thesis using e1 e2 e3 by blast
qed

lemma emit_end_spec:
  assumes "ready e st [End]"
  shows "\<exists>e'. bin_emit_cell e FDT_END_NODE = Some e' \<and> flattened e st [End] e' st"
proof -
  have e: "data_ok e" "table_ok st" "dlen e + 4 + 8 \<le> INT_MAX" using assms by (simp_all add: ready_def)
  obtain e' where e': "bin_emit_cell e FDT_END_NODE = Some e'" "appended e (map Some (bytes32 FDT_END_NODE)) e'"
    using emit_cell_spec [OF e(1), of FDT_END_NODE] e(3) by fastforce
  then have "flattened e st [End] e' st"
    using e(2) unfolding flattened_def by (intro exI [of _ "[TEnd]"]) simp
  then show ?thesis using e' by blast
qed

definition flattens :: "version_info \<Rightarrow> node \<Rightarrow> bool" where
  "flattens vi n \<longleftrightarrow> (\<forall>e st. ready e st (flat (live_entry n)) \<longrightarrow>
     (\<exists>e' st'. flatten_tree bin_emitter e st vi n = Some (e', st') \<and> flattened e st (flat (live_entry n)) e' st'))"

lemma flatten_children_spec:
  assumes "ready e st (flats (map live_entry (live_nodes cs)))" "\<forall>c \<in> set (live_nodes cs). flattens vi c"
  shows "\<exists>e' st'. flatten_children bin_emitter e st vi cs = Some (e', st') \<and>
    flattened e st (flats (map live_entry (live_nodes cs))) e' st'"
  using assms
proof (induction cs arbitrary: e st)
  case Nil
  then show ?case using flattened_refl by (simp add: flatten_children.simps)
next
  case (Cons c cs)
  show ?case
  proof (cases "ndeleted (info c)")
    case False
    let ?is = "flat (live_entry c)" and ?js = "flats (map live_entry (live_nodes cs))"
    have r: "ready e st (?is @ ?js)" using Cons.prems(1) False by simp
    have c: "flattens vi c" using Cons.prems(2) False by simp
    obtain e1 st1 where e1: "flatten_tree bin_emitter e st vi c = Some (e1, st1)" "flattened e st ?is e1 st1"
      using c ready_prefix [OF r] unfolding flattens_def by blast
    obtain e2 st2 where "flatten_children bin_emitter e1 st1 vi cs = Some (e2, st2)" "flattened e1 st1 ?js e2 st2"
      using Cons.IH [OF ready_after [OF r e1(2)]] Cons.prems False by auto
    then show ?thesis using e1 flattened_trans [OF e1(2)] False by (simp add: flatten_children.simps)
  qed (use Cons in \<open>simp add: flatten_children.simps\<close>)
qed

lemma flatten_tree_spec:
  assumes "modern vi"
  shows "tree_ok n \<Longrightarrow> \<not> ndeleted (info n) \<Longrightarrow> flattens vi n"
proof (induction n)
  case (Node i ps cs)
  have c: "\<forall>c \<in> set (live_nodes cs). flattens vi c" using Node by auto
  obtain name where nm: "nname i = Some name" "0 \<notin> set name" using Node.prems(1) by (auto split: option.splits)
  let ?ps = "flats (map prop_entry (live_props ps))" and ?cs = "flats (map live_entry (live_nodes cs))"
  show ?case unfolding flattens_def
  proof (intro allI impI)
    fix e st
    assume r0: "ready e st (flat (live_entry (Node i ps cs)))"
    then have r: "ready e st ([Begin name] @ ?ps @ ?cs @ [End])" using nm by simp
    obtain e1 e2 e3 where e: "bin_emit_cell e FDT_BEGIN_NODE = Some e1" "bin_emit_string e1 name 0 = Some e2"
      "bin_emit_align e2 4 = Some e3" and f3: "flattened e st [Begin name] e3 st"
      using emit_begin_spec [OF ready_prefix [OF r] nm(2)] by blast
    note r3 = ready_after [OF r f3]
    obtain e4 st4 where e4: "flatten_props bin_emitter e3 st vi ps = Some (e4, st4)" "flattened e3 st ?ps e4 st4"
      using flatten_props_spec [OF ready_prefix [OF r3] _ assms] Node.prems(1) by auto
    note r4 = ready_after [OF r3 e4(2)]
    obtain e5 st5 where e5: "flatten_children bin_emitter e4 st4 vi cs = Some (e5, st5)" "flattened e4 st4 ?cs e5 st5"
      using flatten_children_spec [OF ready_prefix [OF r4] c] by blast
    obtain e6 where e6: "bin_emit_cell e5 FDT_END_NODE = Some e6" "flattened e5 st5 [End] e6 st5"
      using emit_end_spec [OF ready_after [OF r4 e5(2)]] by blast
    have "flatten_tree bin_emitter e st vi (Node i ps cs) = Some (e6, st5)"
      using e e4(1) e5(1) e6(1) nm assms Node.prems(2)
      by (simp add: flatten_tree.simps bin_emitter_def bin_emit_beginnode_def bin_emit_endnode_def modern_def)
    then show "\<exists>e' st'. flatten_tree bin_emitter e st vi (Node i ps cs) = Some (e', st') \<and>
        flattened e st (flat (live_entry (Node i ps cs))) e' st'"
      using flattened_trans [OF f3 flattened_trans [OF e4(2) flattened_trans [OF e5(2) e6(2)]]] nm by simp
  qed
qed

section \<open>The reserve map\<close>

definition rsv_bytes :: "(int \<times> int) list \<Rightarrow> u8 list" where
  "rsv_bytes es = concat (map (\<lambda>(a, z). bytes64 a @ bytes64 z) es)"

lemma length_rsv_bytes: "int (length (rsv_bytes es)) = 16 * int (length es)"
  by (induction es) (auto simp: rsv_bytes_def)

lemma rsv_bytes_at:
  "holds b p (rsv_bytes es) \<Longrightarrow> list_all (\<lambda>(a, z). u64 a = a \<and> u64 z = z) es \<Longrightarrow> rsv_at b p es"
proof (induction es arbitrary: p)
  case (Cons e es)
  obtain a z where e: "e = (a, z)" by (cases e)
  have "holds b p (bytes64 a)" "holds b (p + 8) (bytes64 z)" "holds b (p + 16) (rsv_bytes es)"
    using Cons.prems(1) by (simp_all add: rsv_bytes_def e holds_append add.assoc)
  then show ?case using holds_long [of b p a] holds_long [of b "p + 8" z] Cons by (simp add: e)
qed simp

definition rsv_entry :: "reserve_info \<Rightarrow> int \<times> int" where
  "rsv_entry re = (raddress re, rsize re)"

interpretation re_appends: appender "\<lambda>d e. data_append_re d (fst e) (snd e)"
  "\<lambda>e. map Some (bytes64 (fst e) @ bytes64 (snd e))" "\<lambda>e. True"
proof unfold_locales
  fix d and e :: "int \<times> int"
  assume "data_ok d" "dlen d + int (length (map Some (bytes64 (fst e) @ bytes64 (snd e)))) \<le> DATA_MAX"
  then show "\<exists>d'. data_append_re d (fst e) (snd e) = Some d' \<and> appended d (map Some (bytes64 (fst e) @ bytes64 (snd e))) d'"
    using append_data_spec [of d "map Some (bytes64 (fst e) @ bytes64 (snd e))"] by (auto simp: data_append_re_def)
qed

lemma append_entries_all:
  "append_entries d rl = append_all (\<lambda>d e. data_append_re d (fst e) (snd e)) d (map rsv_entry rl)"
  "append_empty_entries d n = append_all (\<lambda>d e. data_append_re d (fst e) (snd e)) d (replicate n (0, 0))"
proof -
  show "append_entries d rl = append_all (\<lambda>d e. data_append_re d (fst e) (snd e)) d (map rsv_entry rl)"
    by (induction rl arbitrary: d) (simp_all add: rsv_entry_def)
  show "append_empty_entries d n = append_all (\<lambda>d e. data_append_re d (fst e) (snd e)) d (replicate n (0, 0))"
    by (induction n arbitrary: d) simp_all
qed

lemma append_all_append: "append_all app d (xs @ ys) = do { d \<leftarrow> append_all app d xs; append_all app d ys }"
  by (induction xs arbitrary: d) simp_all

definition reserve_map :: "out_opts \<Rightarrow> reserve_info list \<Rightarrow> (int \<times> int) list" where
  "reserve_map opts rl = map rsv_entry rl @ replicate (nat (reservenum opts)) (0, 0)"

lemma flatten_reserve_list_spec:
  assumes "16 * int (length (reserve_map opts rl)) \<le> DATA_MAX"
  shows "\<exists>d. flatten_reserve_list opts rl = Some d \<and> appended empty_data (map Some (rsv_bytes (reserve_map opts rl))) d"
proof -
  let ?es = "reserve_map opts rl"
  have m: "concat (map (\<lambda>e. map Some (bytes64 (fst e) @ bytes64 (snd e))) es) = map Some (rsv_bytes es)" for es
    by (induction es) (auto simp: rsv_bytes_def)
  have l: "dlen empty_data + int (length (map Some (rsv_bytes ?es))) \<le> DATA_MAX"
    using assms length_rsv_bytes [of ?es] by (simp add: empty_data_def)
  have "flatten_reserve_list opts rl = append_all (\<lambda>d e. data_append_re d (fst e) (snd e)) empty_data ?es"
    by (simp add: flatten_reserve_list_def append_entries_all append_all_append reserve_map_def)
  then show ?thesis
    using re_appends.append_all_concat [of empty_data ?es, unfolded m] l by (simp add: list_all_iff)
qed

section \<open>The header\<close>

fun set_fields :: "blob \<Rightarrow> (hdr_field \<times> int) list \<Rightarrow> blob option" where
  "set_fields b [] = Some b"
| "set_fields b ((f, v) # fs) = do { b \<leftarrow> fdt_set_header b f v; set_fields b fs }"

lemma set_fields_spec:
  "40 \<le> blen b \<Longrightarrow> \<exists>b'. set_fields b fs = Some b' \<and> blen b' = blen b \<and>
     (\<forall>g. hdr b' g = (case map_of (rev fs) g of None \<Rightarrow> hdr b g | Some v \<Rightarrow> u32 v))"
proof (induction fs arbitrary: b)
  case (Cons x fs)
  obtain f v where x: "x = (f, v)" by (cases x)
  obtain b1 where b1: "fdt_set_header b f v = Some b1" "blen b1 = blen b" "\<And>g. hdr b1 g = (if g = f then u32 v else hdr b g)"
    using set_header_ok [OF Cons.prems, of f v] by metis
  obtain b2 where b2: "set_fields b1 fs = Some b2" "blen b2 = blen b1"
    "\<And>g. hdr b2 g = (case map_of (rev fs) g of None \<Rightarrow> hdr b1 g | Some v \<Rightarrow> u32 v)"
    using Cons.IH [of b1] Cons.prems b1(2) by auto
  have "hdr b2 g = (case map_of (rev (x # fs)) g of None \<Rightarrow> hdr b g | Some v \<Rightarrow> u32 v)" for g
    using b1(3) b2(3) by (auto simp: x map_add_def split: option.splits)
  then show ?case using b1 b2 by (simp add: x)
qed simp

definition vi17 :: version_info where
  "vi17 = \<lparr>vi_version = 17, vi_last_comp_version = 16, vi_hdr_size = FDT_V17_SIZE,
      vi_flags = FTF_BOOTCPUID OR FTF_STRTABSIZE OR FTF_STRUCTSIZE OR FTF_NOPS\<rparr>"

lemma find_version_17: "find_version 17 = Some vi17"
  by (simp add: find_version_def version_table_def vi17_def)

lemma modern_17: "modern vi17"
  using modern_versions [OF find_version_17] by simp

lemma make_fdt_header_17:
  "make_fdt_header vi17 rsz dtsz strsz cpu =
     set_fields \<lparr>blob_addr = 0, blob_mem = replicate 40 0xff\<rparr>
       [(H_magic, FDT_MAGIC), (H_version, 17), (H_last_comp_version, 16), (H_off_mem_rsvmap, 40),
        (H_off_dt_struct, 40 + s32 (rsz + 16)), (H_off_dt_strings, 40 + s32 (rsz + 16) + dtsz),
        (H_totalsize, 40 + s32 (rsz + 16) + dtsz + strsz), (H_boot_cpuid_phys, cpu),
        (H_size_dt_strings, strsz), (H_size_dt_struct, dtsz)]"
  by (simp add: make_fdt_header_def vi17_def Let_def FDT_ALIGN_8 cong: option.case_cong)

text \<open>The header of a version 17 blob with its blocks one after the other.\<close>

definition header_of :: "blob \<Rightarrow> int \<Rightarrow> int \<Rightarrow> int \<Rightarrow> int \<Rightarrow> int \<Rightarrow> bool" where
  "header_of h rsz dtsz strsz pad cpu \<longleftrightarrow>
     hdr h H_magic = FDT_MAGIC \<and> hdr h H_version = 17 \<and> hdr h H_last_comp_version = 16 \<and>
     hdr h H_off_mem_rsvmap = 40 \<and> hdr h H_off_dt_struct = 56 + rsz \<and>
     hdr h H_off_dt_strings = 56 + rsz + dtsz \<and> hdr h H_totalsize = 56 + rsz + dtsz + strsz + pad \<and>
     hdr h H_boot_cpuid_phys = cpu \<and> hdr h H_size_dt_strings = strsz \<and> hdr h H_size_dt_struct = dtsz"

lemma make_header_spec:
  assumes "0 \<le> rsz" "0 \<le> dtsz" "0 \<le> strsz" "56 + rsz + dtsz + strsz \<le> INT_MAX" "0 \<le> cpu" "cpu < 4294967296"
  shows "\<exists>h. make_fdt_header vi17 rsz dtsz strsz cpu = Some h \<and> blen h = 40 \<and> header_of h rsz dtsz strsz 0 cpu"
proof -
  have s: "s32 (rsz + 16) = rsz + 16" using assms by (intro s32_id) auto
  have u: "u32 (56 + rsz) = 56 + rsz" "u32 (56 + rsz + dtsz) = 56 + rsz + dtsz" "u32 dtsz = dtsz" "u32 strsz = strsz"
    "u32 (56 + rsz + dtsz + strsz) = 56 + rsz + dtsz + strsz" "u32 cpu = cpu"
    using assms by (intro u32_id; linarith)+
  show ?thesis
    unfolding make_fdt_header_17
    using set_fields_spec [of "\<lparr>blob_addr = 0, blob_mem = replicate 40 0xff\<rparr>", where fs =
       "[(H_magic, FDT_MAGIC), (H_version, 17), (H_last_comp_version, 16), (H_off_mem_rsvmap, 40),
        (H_off_dt_struct, 40 + s32 (rsz + 16)), (H_off_dt_strings, 40 + s32 (rsz + 16) + dtsz),
        (H_totalsize, 40 + s32 (rsz + 16) + dtsz + strsz), (H_boot_cpuid_phys, cpu),
        (H_size_dt_strings, strsz), (H_size_dt_struct, dtsz)]"] u
    by (auto simp: header_of_def s u32_id add.assoc add.left_commute [of 40] add.commute)
qed

lemma pad_header_spec:
  assumes h: "header_of h rsz dtsz strsz 0 cpu" "blen h = 40"
    and t: "0 \<le> rsz" "0 \<le> dtsz" "0 \<le> strsz" "56 + rsz + dtsz + strsz + max 0 pad \<le> INT_MAX"
  shows "\<exists>h'. (if pad > 0 then fdt_set_totalsize h (s32 (hdr h H_totalsize) + pad) else Some h) = Some h' \<and>
    blen h' = 40 \<and> header_of h' rsz dtsz strsz (max 0 pad) cpu"
proof (cases "pad > 0")
  case True
  have u: "s32 (56 + rsz + dtsz + strsz) = 56 + rsz + dtsz + strsz"
    "u32 (56 + rsz + dtsz + strsz + pad) = 56 + rsz + dtsz + strsz + pad"
    using t True by (intro s32_id u32_id; linarith)+
  have "40 \<le> blen h" using h(2) by simp
  then obtain h' where "fdt_set_totalsize h (s32 (hdr h H_totalsize) + pad) = Some h'" "blen h' = blen h"
    "\<And>g. hdr h' g = (if g = H_totalsize then u32 (s32 (hdr h H_totalsize) + pad) else hdr h g)"
    using set_header_ok by metis
  then show ?thesis using h u True unfolding header_of_def by (intro exI [of _ h']) simp
qed (use h in auto)

section \<open>Assembling\<close>

lemma appended_bytes: "appended d xs d' \<Longrightarrow> contents d' = contents d @ xs"
  by (simp add: appended_def)

lemma assemble_spec:
  assumes h: "length (blob_mem h) = 40"
    and d: "data_ok rb" "data_ok db" "data_ok sb" "contents rb = map Some rs" "contents db = map Some ds" "contents sb = map Some ss"
    and sz: "56 + int (length rs) + int (length ds) + int (length ss) + max 0 pad + 8 \<le> INT_MAX"
  shows "\<exists>out. assemble_blob vi17 h rb db sb pad = Some out \<and> data_ok out \<and>
    contents out = map Some (blob_mem h @ rs @ replicate 16 0 @ ds @ ss @ replicate (nat pad) 0)"
proof -
  have l: "dlen rb = int (length rs)" "dlen db = int (length ds)" "dlen sb = int (length ss)"
    using data_okD(1,5) [OF d(1)] data_okD(1,5) [OF d(2)] data_okD(1,5) [OF d(3)] d(4-6) by auto
  have e0: "dlen empty_data = 0" by (simp add: empty_data_def)
  obtain b1 where b1: "data_append_data empty_data (map Some (blob_mem h)) 40 = Some b1" "appended empty_data (map Some (blob_mem h)) b1"
    using append_data_spec [OF data_ok_empty, of "map Some (blob_mem h)"] h e0 by auto
  have l1: "dlen b1 = 40" using appended_ok(2) [OF b1(2)] h e0 by simp
  obtain b2 n where b2: "data_append_align b1 8 = Some b2" "n < 8" "appended b1 (replicate n (Some 0)) b2" "8 dvd dlen b2"
    using append_align_spec [of b1 3] appended_ok(1) [OF b1(2)] l1 by auto
  have "n = 0" using b2(2,4) appended_ok(2) [OF b2(3)] l1 by auto presburger
  then have c2: "contents b2 = map Some (blob_mem h)" "data_ok b2" "dlen b2 = 40"
    using appended_bytes [OF b2(3)] appended_bytes [OF b1(2)] appended_ok [OF b2(3)] l1 by simp_all
  have m3: "dlen b2 + dlen rb < DATA_MAX" unfolding c2(3) l using sz by linarith
  obtain b3 where b3: "data_merge b2 rb = Some b3" "data_ok b3" "contents b3 = contents b2 @ contents rb"
    using merge_spec [OF c2(2) d(1) m3] by auto
  have l3: "dlen b3 = 40 + int (length rs)" using data_okD(1,5) [OF b3(2)] b3(3) c2(1) d(4) h by simp
  have m4: "dlen b3 + 16 \<le> DATA_MAX" unfolding l3 using sz by linarith
  obtain b4 where b4: "data_append_zeroes b3 16 = Some b4" "appended b3 (replicate 16 (Some 0)) b4"
    using append_zeroes_spec [OF b3(2) _ m4] by auto
  have l4: "dlen b4 = 56 + int (length rs)" using appended_ok(2) [OF b4(2)] l3 by simp
  have m5: "dlen b4 + dlen db < DATA_MAX" unfolding l4 l using sz by linarith
  obtain b5 where b5: "data_merge b4 db = Some b5" "data_ok b5" "contents b5 = contents b4 @ contents db"
    using merge_spec [OF appended_ok(1) [OF b4(2)] d(2) m5] by auto
  have l5: "dlen b5 = 56 + int (length rs) + int (length ds)"
    using data_okD(1,5) [OF b5(2)] b5(3) appended_bytes [OF b4(2)] b3(3) c2(1) d(4,5) h by simp
  have m6: "dlen b5 + dlen sb < DATA_MAX" unfolding l5 l using sz by linarith
  obtain b6 where b6: "data_merge b5 sb = Some b6" "data_ok b6" "contents b6 = contents b5 @ contents sb"
    using merge_spec [OF b5(2) d(3) m6] by auto
  have c6: "contents b6 = map Some (blob_mem h @ rs @ replicate 16 0 @ ds @ ss)"
    using b6(3) b5(3) appended_bytes [OF b4(2)] b3(3) c2(1) d(4-6) by (simp add: map_replicate)
  have l6: "dlen b6 = 56 + int (length rs) + int (length ds) + int (length ss)"
    using data_okD(1,5) [OF b6(2)] c6 h by simp
  have v: "vi_hdr_size vi17 = 40" by (simp add: vi17_def)
  show ?thesis
  proof (cases "pad > 0")
    case True
    then have m7: "dlen b6 + pad \<le> DATA_MAX" unfolding l6 using sz by linarith
    from True obtain b7 where "data_append_zeroes b6 pad = Some b7" "appended b6 (replicate (nat pad) (Some 0)) b7"
      using append_zeroes_spec [OF b6(2) _ m7] by auto
    then show ?thesis
      using True b1(1) b2(1) b3(1) b4(1) b5(1) b6(1) c6 appended_bytes appended_ok(1)
      by (fastforce simp: assemble_blob_def v map_replicate)
  next
    case False
    then show ?thesis
      using b1(1) b2(1) b3(1) b4(1) b5(1) b6(1,2) c6 by (simp add: assemble_blob_def v)
  qed
qed

section \<open>Padding\<close>

definition pad_limit :: "out_opts \<Rightarrow> int" where
  "pad_limit opts = max 0 (max (minsize opts) (padsize opts)) + max 0 (alignsize opts)"

definition align_ok :: "out_opts \<Rightarrow> bool" where
  "align_ok opts \<longleftrightarrow> alignsize opts \<le> 0 \<or> (\<exists>k. alignsize opts = 2 ^ k)"

lemma FDT_ALIGN_power: "FDT_ALIGN x (2 ^ k) = 2 ^ k * ((x + 2 ^ k - 1) div 2 ^ k)"
  by (simp add: FDT_ALIGN_def and_not_mask)

lemma align_up:
  fixes x a :: int
  assumes "0 < a"
  shows "x \<le> a * ((x + a - 1) div a)" "a * ((x + a - 1) div a) < x + a"
proof -
  have "a * ((x + a - 1) div a) = x + a - 1 - (x + a - 1) mod a" by (simp add: minus_mod_eq_mult_div)
  moreover have "0 \<le> (x + a - 1) mod a" "(x + a - 1) mod a < a" using assms by auto
  ultimately show "x \<le> a * ((x + a - 1) div a)" "a * ((x + a - 1) div a) < x + a" by linarith+
qed

lemma padding_spec:
  assumes t: "0 \<le> t" "t + pad_limit opts \<le> INT_MAX" "align_ok opts"
  defines "n \<equiv> blob_padding opts t"
  shows "0 \<le> n" "n \<le> pad_limit opts" "minsize opts > 0 \<Longrightarrow> padsize opts \<le> 0 \<Longrightarrow> minsize opts \<le> t + n"
    "padsize opts > 0 \<Longrightarrow> t + padsize opts \<le> t + n" "alignsize opts > 0 \<Longrightarrow> alignsize opts dvd t + n"
proof -
  define p where "p = (if padsize opts > 0 then padsize opts else if minsize opts > 0 then max 0 (minsize opts - t) else 0)"
  have s: "minsize opts > 0 \<Longrightarrow> s32 (minsize opts - t) = minsize opts - t"
    using t by (intro s32_id) (auto simp: pad_limit_def)
  have n: "n = (if alignsize opts > 0 then s32 (u32 (FDT_ALIGN (t + p) (alignsize opts)) - t) else p)"
    using s by (simp add: n_def blob_padding_def p_def)
  have p: "0 \<le> p" "p \<le> max 0 (max (minsize opts) (padsize opts))" using t(1) by (auto simp: p_def)
  have "p \<le> n \<and> n \<le> pad_limit opts \<and> (alignsize opts > 0 \<longrightarrow> alignsize opts dvd t + n)"
  proof (cases "alignsize opts > 0")
    case True
    then obtain k where k: "alignsize opts = 2 ^ k" using t(3) by (auto simp: align_ok_def)
    define a where "a = FDT_ALIGN (t + p) (alignsize opts)"
    have a: "t + p \<le> a" "a < t + p + alignsize opts" "alignsize opts dvd a"
      using align_up [of "alignsize opts" "t + p"] True by (auto simp: a_def k FDT_ALIGN_power)
    have b: "p + alignsize opts \<le> pad_limit opts" using p True by (simp add: pad_limit_def)
    then have "u32 a = a" "s32 (a - t) = a - t" using a p t by (intro u32_id s32_id; linarith)+
    then show ?thesis using n a b True by (simp add: a_def)
  next
    case False
    then show ?thesis using n p by (simp add: pad_limit_def)
  qed
  then show "0 \<le> n" "n \<le> pad_limit opts" "minsize opts > 0 \<Longrightarrow> padsize opts \<le> 0 \<Longrightarrow> minsize opts \<le> t + n"
    "padsize opts > 0 \<Longrightarrow> t + padsize opts \<le> t + n" "alignsize opts > 0 \<Longrightarrow> alignsize opts dvd t + n"
    using p by (auto simp: p_def split: if_splits)
qed

section \<open>The blob\<close>

text \<open>A blob of version 17 with the reserve entries and the items, as \<open>dt_to_blob\<close> lays it out.\<close>

definition dtc_image :: "blob \<Rightarrow> (int \<times> int) list \<Rightarrow> item list \<Rightarrow> int \<Rightarrow> bool" where
  "dtc_image b es is cpu \<longleftrightarrow> (\<exists>ts. struct_items b ts is \<and> TNop \<notin> set ts) \<and>
     hdr b H_magic = FDT_MAGIC \<and> hdr b H_version = 17 \<and> hdr b H_last_comp_version = 16 \<and>
     hdr b H_off_mem_rsvmap = 40 \<and> hdr b H_off_dt_struct = 40 + 16 * (int (length es) + 1) \<and>
     rsv_at b 40 (es @ [(0, 0)]) \<and> hdr b H_boot_cpuid_phys = cpu \<and>
     hdr b H_off_dt_strings = hdr b H_off_dt_struct + hdr b H_size_dt_struct \<and>
     hdr b H_off_dt_strings + hdr b H_size_dt_strings \<le> hdr b H_totalsize \<and> hdr b H_totalsize = blen b"

lemma tok_means_facts:
  assumes "tok_means tbl t i" "int (length tbl) < 4294967296"
  shows "t \<noteq> TNop" "tok_size t < 4294967296 \<Longrightarrow> tok_ok t"
proof -
  show "t \<noteq> TNop" using assms(1) by auto
  show "tok_ok t" if s: "tok_size t < 4294967296"
  proof (cases t)
    case (TProp no v)
    then have "int (length v) < 4294967296" using s TAGALIGN_length(1) [of v] by simp
    moreover have "0 \<le> no \<and> no < 4294967296" using assms TProp by (cases i) (auto simp: str_in_def)
    ultimately show ?thesis using TProp by simp
  qed (use assms(1) in \<open>cases i; auto\<close>)+
qed

lemma tok_size_member: "t \<in> set ts \<Longrightarrow> tok_size t \<le> toks_size ts"
proof (induction ts)
  case (Cons u ts)
  then show ?case using tok_size_ge(1) [of u] toks_size_nonneg(1) [of ts] by auto
qed simp

lemma holds_self: "holds b 0 (blob_mem b)"
  by (simp add: holds_def rd_def)

lemma hdr_prefix:
  assumes "blob_mem b = blob_mem h @ xs" "length (blob_mem h) = 40"
  shows "hdr b f = hdr h f"
proof -
  have s: "ld8 b q = ld8 h q" if "0 \<le> q" "q < 40" for q
  proof -
    have "nat q < 40" using that by linarith
    then show ?thesis using assms that by (simp add: ld8_def nth_append)
  qed
  have "fdt32_ld b (hdr_off f) = fdt32_ld h (hdr_off f)"
  proof (rule ld32_cong)
    fix q assume "hdr_off f \<le> q" "q < hdr_off f + 4"
    then show "ld8 b q = ld8 h q" by (cases f) (intro s; simp)+
  qed
  then show ?thesis by (simp add: hdr_def fdt_get_header_def)
qed

lemma str_in_named:
  assumes "str_in (map Some ss) no nm" "holds b (hdr b H_off_dt_strings) ss" "hdr b H_size_dt_strings = int (length ss)"
  shows "named b no nm"
proof -
  have s: "0 \<le> no" "no + cstrlen nm + 1 \<le> int (length ss)" "0 \<notin> set nm" "take (length nm + 1) (drop (nat no) ss) = nm @ [0]"
    using assms(1) by (auto simp: str_in_def drop_map take_map simp flip: map_append list.map)
  have "rd b (hdr b H_off_dt_strings + no) (cstrlen nm + 1) = Some (nm @ [0])"
    using rd_sub [of b "hdr b H_off_dt_strings" "int (length ss)" ss no "cstrlen nm + 1"] assms(2) s
    by (simp add: holds_def nat_add_distrib)
  then show ?thesis using s assms(3) by (simp add: named_def)
qed

lemma tok_means_denotes:
  assumes "holds b (hdr b H_off_dt_strings) ss" "hdr b H_size_dt_strings = int (length ss)" "tok_means (map Some ss) t i"
  shows "denotes b t i"
  using assms(3) str_in_named [OF _ assms(1,2)] by (cases t; cases i) auto

lemma image_of_bytes:
  assumes b: "blob_mem b = blob_mem h @ rsv_bytes es @ replicate 16 0 @ (toks_bytes ts @ bytes32 FDT_END) @ ss @ replicate (nat pad) 0"
    and h: "length (blob_mem h) = 40"
      "header_of h (16 * int (length es)) (toks_size ts + 4) (int (length ss)) pad cpu" "0 \<le> pad"
    and t: "list_all2 (tok_means (map Some ss)) ts is"
    and e: "list_all (\<lambda>(a, z). u64 a = a \<and> u64 z = z) es"
    and sz: "56 + 16 * int (length es) + toks_size ts + 4 + int (length ss) + pad \<le> INT_MAX"
  shows "dtc_image b es is cpu"
proof -
  have f: "hdr b f = hdr h f" for f using hdr_prefix [OF b h(1)] .
  let ?s = "40 + 16 * (int (length es) + 1)"
  have nn: "0 \<le> toks_size ts" using toks_size_nonneg(1) .
  have bl: "blen b = 56 + 16 * int (length es) + toks_size ts + 4 + int (length ss) + pad"
    using length_rsv_bytes [of es] length_toks_bytes [of ts] h by (simp add: b)
  have hd: "hdr b H_magic = FDT_MAGIC" "hdr b H_version = 17" "hdr b H_last_comp_version = 16"
     "hdr b H_off_mem_rsvmap = 40" "hdr b H_off_dt_struct = ?s" "hdr b H_size_dt_struct = toks_size ts + 4"
     "hdr b H_off_dt_strings = ?s + toks_size ts + 4" "hdr b H_size_dt_strings = int (length ss)"
     "hdr b H_totalsize = blen b" "hdr b H_boot_cpuid_phys = cpu"
    using h(2) bl by (simp_all add: f header_of_def)
  have z: "replicate 16 (0 :: u8) = rsv_bytes [(0, 0)]" by (simp add: rsv_bytes_def) code_simp
  have hs: "holds b 40 (rsv_bytes (es @ [(0, 0)]))" "holds b ?s (toks_bytes (ts @ [TFinish]))"
    "holds b (?s + toks_size ts + 4) ss"
  proof -
    let ?pad = "replicate (nat pad) (0 :: u8)"
    have "blob_mem b = blob_mem h @ rsv_bytes (es @ [(0, 0)]) @ toks_bytes (ts @ [TFinish]) @ ss @ ?pad"
      unfolding b z by (simp add: rsv_bytes_def)
    then have "holds b 0 (blob_mem h @ rsv_bytes (es @ [(0, 0)]) @ toks_bytes (ts @ [TFinish]) @ ss @ ?pad)"
      using holds_self [of b] by simp
    then have "holds b 40 (rsv_bytes (es @ [(0, 0)]) @ toks_bytes (ts @ [TFinish]) @ ss @ ?pad)"
      using h(1) by (simp add: holds_append)
    then have r: "holds b 40 (rsv_bytes (es @ [(0, 0)]))" "holds b ?s (toks_bytes (ts @ [TFinish]) @ ss @ ?pad)"
      using length_rsv_bytes [of "es @ [(0, 0)]"] unfolding holds_append by simp_all
    then show "holds b 40 (rsv_bytes (es @ [(0, 0)]))" "holds b ?s (toks_bytes (ts @ [TFinish]))"
      "holds b (?s + toks_size ts + 4) ss"
      using length_toks_bytes [of "ts @ [TFinish]"] unfolding holds_append by (simp_all add: add.assoc)
  qed
  have "tok_ok t" if m: "t \<in> set ts" for t
  proof -
    obtain i where "tok_means (map Some ss) t i" using list_all2_member [OF t m] by blast
    moreover have "tok_size t < 4294967296" "int (length (map Some ss)) < 4294967296"
      unfolding length_map using tok_size_member [OF m] sz nn h(3) by linarith+
    ultimately show ?thesis using tok_means_facts(2) by blast
  qed
  then have "list_all tok_ok (ts @ [TFinish])" by (auto simp: list_all_iff)
  then have "toks_at b ?s (ts @ [TFinish])" using toks_bytes_at [OF hs(2)] by simp
  moreover have "list_all2 (denotes b) ts is"
    using t hs(3) hd(7,8) tok_means_denotes by (auto elim!: list_all2_mono)
  moreover have nop: "TNop \<notin> set ts"
    using t list_all2_member [of "tok_means (map Some ss)" ts "is" TNop] by auto
  moreover have "filter (\<lambda>t. t \<noteq> TNop) ts = ts" using nop by (auto intro: filter_True)
  ultimately have "struct_items b ts is"
    using hd bl sz nn h(3) by (simp add: struct_items_def readable_def backed_def)
  moreover have "rsv_at b 40 (es @ [(0, 0)])" using rsv_bytes_at [OF hs(1)] e by (simp add: u64_id)
  ultimately show ?thesis using nop hd bl h(3) unfolding dtc_image_def by auto
qed

definition reserve_ok :: "reserve_info list \<Rightarrow> bool" where
  "reserve_ok rl \<longleftrightarrow> list_all (\<lambda>re. u64 (raddress re) = raddress re \<and> u64 (rsize re) = rsize re) rl"

definition blob_needs :: "out_opts \<Rightarrow> dt_info \<Rightarrow> int" where
  "blob_needs opts dti = 60 + 16 * int (length (reserve_map opts (reservelist dti))) +
     items_size (flat (live_entry (dt dti))) + names_size (flat (live_entry (dt dti))) + pad_limit opts"

lemma flattened_blob:
  assumes "flattened empty_data empty_data is e st" "items_size is + 4 \<le> DATA_MAX"
  shows "\<exists>ts ss d. bin_emit_cell e FDT_END = Some d \<and> data_ok d \<and> contents d = map Some (toks_bytes ts @ bytes32 FDT_END) \<and>
    data_ok st \<and> contents st = map Some ss \<and> int (length ss) \<le> names_size is \<and> toks_size ts = items_size is \<and>
    list_all2 (tok_means (map Some ss)) ts is"
proof -
  obtain ts where ts: "appended empty_data (map Some (toks_bytes ts)) e" "table_ok st"
    "dlen st \<le> names_size is" "list_all2 (tok_means (contents st)) ts is"
    using assms(1) by (auto simp: flattened_def empty_data_def)
  have o: "data_ok st" using ts(2) by (simp add: table_ok_def)
  obtain ss where ss: "contents st = map Some ss" "int (length ss) = dlen st" using data_bytes [OF o] by metis
  have "dlen e = items_size is"
    using appended_ok(2) [OF ts(1)] length_toks_bytes [of ts] toks_mean_size [OF ts(4)] by (simp add: empty_data_def)
  then obtain d where d: "bin_emit_cell e FDT_END = Some d" "appended e (map Some (bytes32 FDT_END)) d"
    using emit_cell_spec [OF appended_ok(1) [OF ts(1)], of FDT_END] assms(2) by auto
  have "contents d = map Some (toks_bytes ts @ bytes32 FDT_END)"
    using appended_bytes [OF d(2)] appended_bytes [OF ts(1)] by simp
  then show ?thesis
    using d(1) appended_ok(1) [OF d(2)] o ss ts(3,4) toks_mean_size [OF ts(4)] by auto
qed

lemma out_bytes:
  assumes "data_ok d" "contents d = map Some xs"
  shows "peek (dval d) 0 (dlen d) = Some (map Some xs)"
  using assms by (simp add: peek_def contents_def data_ok_def)

text \<open>What \<open>dt_to_blob\<close> writes, from the three blocks.\<close>

lemma dt_to_blob_blocks:
  assumes f: "flatten_tree bin_emitter empty_data empty_data vi17 (dt dti) = Some (e, sb)"
      "bin_emit_cell e FDT_END = Some db" "flatten_reserve_list opts (reservelist dti) = Some rb"
    and d: "data_ok rb" "data_ok db" "data_ok sb" "contents rb = map Some rs" "contents db = map Some ds" "contents sb = map Some ss"
    and c: "0 \<le> boot_cpuid_phys dti" "boot_cpuid_phys dti < 4294967296" and a: "align_ok opts"
  defines "t \<equiv> 56 + int (length rs) + int (length ds) + int (length ss)"
  assumes sz: "t + pad_limit opts + 8 \<le> INT_MAX"
  defines "pad \<equiv> blob_padding opts t"
  shows "\<exists>h. dt_to_blob opts dti 17 = Some (blob_mem h @ rs @ replicate 16 0 @ ds @ ss @ replicate (nat pad) 0) \<and>
    length (blob_mem h) = 40 \<and> header_of h (int (length rs)) (int (length ds)) (int (length ss)) pad (boot_cpuid_phys dti)"
proof -
  let ?R = "int (length rs)" and ?D = "int (length ds)" and ?S = "int (length ss)" and ?cpu = "boot_cpuid_phys dti"
  have ld: "dlen rb = ?R" "dlen db = ?D" "dlen sb = ?S"
    using data_okD(1,5) [OF d(1)] data_okD(1,5) [OF d(2)] data_okD(1,5) [OF d(3)] d(4-6) by (auto simp: nat_eq_iff)
  have nn: "0 \<le> pad_limit opts" by (simp add: pad_limit_def)
  have s: "s32 (dlen rb) = ?R" "s32 (dlen db) = ?D" "s32 (dlen sb) = ?S"
    unfolding ld using sz nn unfolding t_def by (intro s32_id; linarith)+
  have tb: "0 \<le> t" "t + pad_limit opts \<le> INT_MAX" "?R \<ge> 0" "?D \<ge> 0" "?S \<ge> 0" "56 + ?R + ?D + ?S \<le> INT_MAX"
    using sz nn by (auto simp: t_def)
  note p = padding_spec(1,2) [OF tb(1,2) a, folded pad_def]
  have mp: "max 0 pad = pad" using p(1) by simp
  obtain h where h: "make_fdt_header vi17 ?R ?D ?S ?cpu = Some h" "blen h = 40" "header_of h ?R ?D ?S 0 ?cpu"
    using make_header_spec [OF tb(3-6) c] by blast
  have th: "fdt_totalsize h = Some (hdr h H_totalsize)" "blob_padding opts (hdr h H_totalsize) = pad"
    using h fdt_get_header_hdr [of h] by (simp_all add: header_of_def pad_def t_def)
  have h1: "56 + ?R + ?D + ?S + max 0 pad \<le> INT_MAX" unfolding mp using tb(2) p(2) unfolding t_def by linarith
  obtain h' where h': "(if pad > 0 then fdt_set_totalsize h (s32 (hdr h H_totalsize) + pad) else Some h) = Some h'"
    "blen h' = 40" "header_of h' ?R ?D ?S pad ?cpu"
    using pad_header_spec [OF h(3,2) tb(3-5) h1] unfolding mp by blast
  have l40: "length (blob_mem h') = 40" using h'(2) by simp
  have al: "56 + ?R + ?D + ?S + max 0 pad + 8 \<le> INT_MAX" unfolding mp using sz p(2) unfolding t_def by linarith
  define bytes where "bytes = blob_mem h' @ rs @ replicate 16 0 @ ds @ ss @ replicate (nat pad) 0"
  obtain out where o: "assemble_blob vi17 h' rb db sb pad = Some out" "data_ok out" "contents out = map Some bytes"
    using assemble_spec [OF l40 d al] unfolding bytes_def by blast
  have "dt_to_blob opts dti 17 = Some bytes"
    using f h(1) th h'(1) o(1) out_bytes [OF o(2,3)]
    by (simp add: dt_to_blob_def find_version_17 s Let_def) (auto simp: comp_def)
  then show ?thesis using l40 h'(3) unfolding bytes_def by blast
qed

lemma dt_to_blob_spec:
  assumes t: "tree_ok (dt dti)" "\<not> ndeleted (info (dt dti))" and r: "reserve_ok (reservelist dti)"
    and c: "0 \<le> boot_cpuid_phys dti" "boot_cpuid_phys dti < 4294967296" and a: "align_ok opts"
    and sz: "blob_needs opts dti + 16 \<le> INT_MAX"
  defines "es \<equiv> reserve_map opts (reservelist dti)" and "is \<equiv> flat (live_entry (dt dti))"
  shows "\<exists>bytes total. dt_to_blob opts dti 17 = Some bytes \<and>
    (\<forall>b. blob_mem b = bytes \<longrightarrow> dtc_image b es is (boot_cpuid_phys dti)) \<and>
    0 \<le> total \<and> int (length bytes) = total + blob_padding opts total \<and> total + pad_limit opts + 8 \<le> INT_MAX"
proof -
  have nn: "0 \<le> items_size is" "0 \<le> names_size is" "0 \<le> pad_limit opts"
    using sizes_nonneg [of "is"] by (auto simp: pad_limit_def)
  have sz': "60 + 16 * int (length es) + items_size is + names_size is + pad_limit opts + 16 \<le> INT_MAX"
    using sz by (simp add: blob_needs_def es_def is_def)
  have "ready empty_data empty_data is" using sz' nn by (simp add: ready_def table_ok_def) (simp add: empty_data_def)
  then obtain e st where f: "flatten_tree bin_emitter empty_data empty_data vi17 (dt dti) = Some (e, st)"
    "flattened empty_data empty_data is e st"
    using flatten_tree_spec [OF modern_17 t] unfolding flattens_def is_def by blast
  have i4: "items_size is + 4 \<le> DATA_MAX" and i16: "16 * int (length es) \<le> DATA_MAX" using sz' nn by linarith+
  obtain ts ss d where d: "bin_emit_cell e FDT_END = Some d" "data_ok d" "contents d = map Some (toks_bytes ts @ bytes32 FDT_END)"
    "data_ok st" "contents st = map Some ss" "int (length ss) \<le> names_size is" "toks_size ts = items_size is"
    "list_all2 (tok_means (map Some ss)) ts is"
    using flattened_blob [OF f(2) i4] by blast
  obtain rb where rb: "flatten_reserve_list opts (reservelist dti) = Some rb" "appended empty_data (map Some (rsv_bytes es)) rb"
    using flatten_reserve_list_spec [OF i16 [unfolded es_def]] unfolding es_def by blast
  have crb: "data_ok rb" "contents rb = map Some (rsv_bytes es)"
    using appended_ok(1) [OF rb(2)] appended_bytes [OF rb(2)] by simp_all
  have l: "int (length (rsv_bytes es)) = 16 * int (length es)" "int (length (toks_bytes ts @ bytes32 FDT_END)) = toks_size ts + 4"
    using length_rsv_bytes [of es] length_toks_bytes [of ts] by simp_all
  define total where "total = 56 + 16 * int (length es) + (toks_size ts + 4) + int (length ss)"
  have tb: "0 \<le> total" "total + pad_limit opts + 8 \<le> INT_MAX" using sz' nn d(6,7) unfolding total_def by linarith+
  define pad where "pad = blob_padding opts total"
  have p: "0 \<le> pad" "pad \<le> pad_limit opts" using padding_spec(1,2) [of total opts] tb a by (simp_all add: pad_def)
  obtain h where h: "dt_to_blob opts dti 17 = Some (blob_mem h @ rsv_bytes es @ replicate 16 0 @
      (toks_bytes ts @ bytes32 FDT_END) @ ss @ replicate (nat pad) 0)" "length (blob_mem h) = 40"
    "header_of h (16 * int (length es)) (toks_size ts + 4) (int (length ss)) pad (boot_cpuid_phys dti)"
    using dt_to_blob_blocks [OF f(1) d(1) rb(1) crb(1) d(2,4) crb(2) d(3,5) c a, unfolded l, folded total_def, OF tb(2)]
    unfolding pad_def by blast
  have e: "list_all (\<lambda>(a, z). u64 a = a \<and> u64 z = z) es"
    using r by (auto simp: es_def reserve_map_def reserve_ok_def list_all_iff rsv_entry_def u64_id)
  have "56 + 16 * int (length es) + toks_size ts + 4 + int (length ss) + pad \<le> INT_MAX"
    using tb p unfolding total_def by linarith
  then have im: "blob_mem b = the (dt_to_blob opts dti 17) \<Longrightarrow> dtc_image b es is (boot_cpuid_phys dti)" for b
    using image_of_bytes [OF _ h(2,3) p(1) d(8) e] h(1) by simp
  have "int (length (the (dt_to_blob opts dti 17))) = total + pad" using h(1,2) l p(1) by (simp add: total_def)
  then show ?thesis using h(1) im tb unfolding pad_def by (intro exI [of _ "the (dt_to_blob opts dti 17)"] exI [of _ total]) simp
qed

end
