(* ===== verification/Dtc_Roundtrip.thy ===== *)
theory Dtc_Roundtrip
  imports Dtc_Blob
begin

text \<open>
  Reading what \<open>dt_to_blob\<close> wrote, with libfdt and with \<open>dt_from_blob\<close>.
\<close>

section \<open>Reading the blob with libfdt\<close>

lemma image_layout:
  assumes "dtc_image b es is cpu"
  shows "56 + 16 * int (length es) \<le> hdr b H_totalsize" "hdr b H_off_dt_struct \<le> hdr b H_totalsize"
    "hdr b H_off_dt_struct + hdr b H_size_dt_struct \<le> hdr b H_totalsize"
    "hdr b H_off_dt_strings \<le> hdr b H_totalsize" "40 \<le> hdr b H_off_dt_struct" "40 \<le> hdr b H_off_dt_strings"
    "hdr b H_off_dt_strings + hdr b H_size_dt_strings \<le> hdr b H_totalsize" "hdr b H_totalsize = blen b"
proof -
  have l: "hdr b H_off_dt_struct = 56 + 16 * int (length es)"
    "hdr b H_off_dt_strings = hdr b H_off_dt_struct + hdr b H_size_dt_struct"
    "hdr b H_off_dt_strings + hdr b H_size_dt_strings \<le> hdr b H_totalsize" "hdr b H_totalsize = blen b"
    using assms by (simp_all add: dtc_image_def)
  note nn = hdr_bounds(1) [of b H_size_dt_struct] hdr_bounds(1) [of b H_size_dt_strings]
  show "56 + 16 * int (length es) \<le> hdr b H_totalsize" "hdr b H_off_dt_struct \<le> hdr b H_totalsize"
    "hdr b H_off_dt_struct + hdr b H_size_dt_struct \<le> hdr b H_totalsize"
    "hdr b H_off_dt_strings \<le> hdr b H_totalsize" "40 \<le> hdr b H_off_dt_struct" "40 \<le> hdr b H_off_dt_strings"
    "hdr b H_off_dt_strings + hdr b H_size_dt_strings \<le> hdr b H_totalsize" "hdr b H_totalsize = blen b"
    using l nn by linarith+
qed

lemma image_searchable:
  assumes i: "dtc_image b es is cpu" and a: "8 dvd blob_addr b" "hdr b H_totalsize < INT_MAX"
  shows "searchable b"
proof -
  obtain ts where s: "struct_items b ts is" using i by (auto simp: dtc_image_def)
  note l = image_layout [OF i]
  have v: "hdr b H_magic = FDT_MAGIC" "hdr b H_version = 17" "hdr b H_last_comp_version = 16" "hdr b H_off_mem_rsvmap = 40"
    using i by (simp_all add: dtc_image_def)
  have "40 \<le> hdr b H_totalsize" "hdr b H_totalsize \<le> INT_MAX" using l(2,5) a(2) by linarith+
  then have "header_ok b"
    using a(1) l(2-7) v by (simp add: header_ok_def fdt_header_size_i_def)
  then show ?thesis using i s a(2) by (auto simp: searchable_def struct_items_def readable_def dtc_image_def)
qed

lemma image_reads:
  assumes i: "dtc_image b es (flat (ENode [] tree)) cpu" and a: "8 dvd blob_addr b" "hdr b H_totalsize < INT_MAX"
  shows "fdt_check_full b (blen b) = Some 0" "reads_as b [] tree"
    "i < length es \<Longrightarrow> fdt_get_mem_rsv b (int i) = Some (0, Some (es ! i))"
proof -
  let ?is = "flat (ENode [] tree)"
  note s = image_searchable [OF assms]
  obtain ts where ts: "struct_items b ts ?is" "TNop \<notin> set ts" using i by (auto simp: dtc_image_def)
  have e: "rsv_at b (hdr b H_off_mem_rsvmap) (es @ [(0, 0)])"
    "hdr b H_off_mem_rsvmap + 16 * (int (length es) + 1) \<le> hdr b H_totalsize" "hdr b H_totalsize \<le> blen b"
    using i image_layout(1,8) [OF i] unfolding dtc_image_def by simp_all
  have "passing_items ?is" unfolding passing_items_def by (intro exI [of _ "[]"] exI [of _ tree]) simp
  then show "fdt_check_full b (blen b) = Some 0" using check_full_items [OF s ts e(3,1,2)] by simp
  show "reads_as b [] tree" by (rule node_reads_as [OF s struct_items_root [OF ts]])
  show "i < length es \<Longrightarrow> fdt_get_mem_rsv b (int i) = Some (0, Some (es ! i))" by (rule get_mem_rsv_in [OF s e(1,2)])
qed

section \<open>Reading the blob with dtc\<close>

lemma read_word_at:
  assumes "4 dvd iptr inb - ibase inb" "iptr inb + 4 \<le> ilimit inb" "fdt32_ld b (iptr inb) = Some v"
  shows "flat_read_word b inb = Some (v, inb\<lparr>iptr := iptr inb + 4\<rparr>)"
proof -
  have p: "0 \<le> iptr inb" "iptr inb + 4 \<le> blen b" using fdt32_ld_bounds [OF assms(3)] by simp_all
  obtain xs where xs: "rd b (iptr inb) 4 = Some xs" using rd_in_range [of "iptr inb" 4 b] p by auto
  have "rd (copied xs) 0 4 = rd b (iptr inb) 4" using rd_SomeD(4) [OF xs] xs by (simp add: rd_def)
  then have "fdt32_ld (copied xs) 0 = Some v"
    using rd_eq_imp_ld32_eq [of "copied xs" 0 4 b "iptr inb" 0] xs assms(3) by simp
  then show ?thesis using assms(1,2) xs by (simp add: flat_read_word_def flat_read_chunk_def dvd_eq_mod_eq_0)
qed

lemma scan_nul_string:
  assumes "rd b p (cstrlen s + 1) = Some (s @ [0])" "0 \<notin> set s" "p + cstrlen s + 1 \<le> limit"
  shows "scan_nul b p limit = Some (p + cstrlen s)"
  using assms
proof (induction s arbitrary: p)
  case Nil
  then have "ld8 b p = Some 0" by (simp add: rd_eq_iff)
  then show ?case using Nil.prems(3) by (subst scan_nul.simps) simp
next
  case (Cons c s)
  have h: "holds b p ([c] @ (s @ [0]))" using Cons.prems(1) by (simp add: holds_def add.commute)
  then have "holds b p [c]" unfolding holds_append by blast
  then have "ld8 b p = Some c" by (simp add: holds_def rd_eq_iff)
  moreover have "holds b (p + 1) (s @ [0])" using iffD1 [OF holds_append h] by simp
  then have "rd b (p + 1) (cstrlen s + 1) = Some (s @ [0])" by (simp add: holds_def add.commute)
  ultimately show ?case using Cons.IH [of "p + 1"] Cons.prems(2,3) by (subst scan_nul.simps) (simp add: add.assoc)
qed

lemma realign_4:
  assumes "0 \<le> iptr inb - ibase inb" "iptr inb - ibase inb + 4 \<le> INT_MAX"
    "ibase inb + FDT_TAGALIGN (iptr inb - ibase inb) \<le> ilimit inb"
  shows "flat_realign inb 4 = Some (inb\<lparr>iptr := ibase inb + FDT_TAGALIGN (iptr inb - ibase inb)\<rparr>)"
proof -
  have "s32 (iptr inb - ibase inb) = iptr inb - ibase inb" using assms by (intro s32_id) auto
  moreover have "s32 (FDT_TAGALIGN (iptr inb - ibase inb)) = FDT_TAGALIGN (iptr inb - ibase inb)"
    using FDT_TAGALIGN_bounds(1,2) [of "iptr inb - ibase inb"] assms by (intro s32_id) auto
  ultimately show ?thesis using assms(3) by (simp add: flat_realign_def)
qed

definition bytes_data :: "u8 list \<Rightarrow> data" where
  "bytes_data v = \<lparr>dlen = int (length v), dval = map Some v, dmarkers = []\<rparr>"

lemma read_string_at:
  assumes r: "rd b (iptr inb) (cstrlen s + 1) = Some (s @ [0])" "0 \<notin> set s"
    and p: "4 dvd iptr inb - ibase inb" "ibase inb \<le> iptr inb"
      "iptr inb + FDT_TAGALIGN (cstrlen s + 1) \<le> ilimit inb" "ilimit inb - ibase inb + 8 \<le> INT_MAX"
  shows "flat_read_string b inb = Some (s, inb\<lparr>iptr := iptr inb + FDT_TAGALIGN (cstrlen s + 1)\<rparr>)"
proof -
  let ?p = "iptr inb" and ?i = "inb\<lparr>iptr := iptr inb + cstrlen s + 1\<rparr>"
  note al = TAGALIGN_length(3) [of s]
  have "scan_nul b ?p (ilimit inb) = Some (?p + cstrlen s)" using al p(3) by (intro scan_nul_string [OF r]) linarith
  moreover have "rd b ?p (cstrlen s) = Some s" using rd_sub [OF r(1), of 0 "cstrlen s"] by simp
  moreover have "FDT_TAGALIGN (?p - ibase inb + (cstrlen s + 1)) = ?p - ibase inb + FDT_TAGALIGN (cstrlen s + 1)"
    by (rule FDT_TAGALIGN_add [OF p(1)])
  then have t: "ibase inb + FDT_TAGALIGN (iptr ?i - ibase ?i) = ?p + FDT_TAGALIGN (cstrlen s + 1)"
    by (simp add: algebra_simps)
  have "flat_realign ?i 4 = Some (?i\<lparr>iptr := ibase ?i + FDT_TAGALIGN (iptr ?i - ibase ?i)\<rparr>)"
    using p al t by (intro realign_4) auto
  ultimately show ?thesis using t by (simp add: flat_read_string_def)
qed

lemma read_data_at:
  assumes r: "rd b (iptr inb) (int (length v)) = Some v"
    and p: "4 dvd iptr inb - ibase inb" "ibase inb \<le> iptr inb"
      "iptr inb + FDT_TAGALIGN (int (length v)) \<le> ilimit inb" "ilimit inb - ibase inb + 8 \<le> INT_MAX"
  shows "flat_read_data b inb (int (length v)) = Some (bytes_data v, inb\<lparr>iptr := iptr inb + FDT_TAGALIGN (int (length v))\<rparr>)"
proof (cases "v = []")
  case True
  then show ?thesis by (simp add: flat_read_data_def empty_data_def bytes_data_def FDT_TAGALIGN_id)
next
  case False
  let ?l = "int (length v)" and ?p = "iptr inb" and ?i = "inb\<lparr>iptr := iptr inb + int (length v)\<rparr>"
  note al = TAGALIGN_length(1) [of v]
  have u: "u32 ?l = ?l" using al p by (intro u32_id) auto
  have "grow_loop ?l ?l = Some ?l" by (subst grow_loop.simps) simp
  then have g: "data_grow_for empty_data ?l = Some (empty_data\<lparr>dval := replicate (length v) None\<rparr>)"
    using False u by (simp add: data_grow_for_def empty_data_def xrealloc_def)
  have t: "ibase inb + FDT_TAGALIGN (iptr ?i - ibase ?i) = ?p + FDT_TAGALIGN ?l"
    using FDT_TAGALIGN_add [OF p(1), of ?l] by (simp add: algebra_simps)
  have "flat_realign ?i 4 = Some (?i\<lparr>iptr := ibase ?i + FDT_TAGALIGN (iptr ?i - ibase ?i)\<rparr>)"
    using p al t by (intro realign_4) auto
  moreover have "flat_read_chunk b inb ?l = Some (v, ?i)" using r p al by (simp add: flat_read_chunk_def)
  moreover have "poke (replicate (length v) None) 0 (map Some v) = Some (map Some v)" by (simp add: poke_def)
  ultimately show ?thesis using g u t False by (simp add: flat_read_data_def bytes_data_def empty_data_def)
qed

lemma read_stringtable_at:
  assumes "named b no nm"
  shows "flat_read_stringtable b (inbuf_init (hdr b H_off_dt_strings) (hdr b H_off_dt_strings + hdr b H_size_dt_strings)) no = Some nm"
proof -
  let ?o = "hdr b H_off_dt_strings"
  have n: "0 \<le> no" "no + cstrlen nm + 1 \<le> hdr b H_size_dt_strings" "0 \<notin> set nm"
    "rd b (?o + no) (cstrlen nm + 1) = Some (nm @ [0])" using assms by (simp_all add: named_def)
  have "scan_nul b (?o + no) (?o + hdr b H_size_dt_strings) = Some (?o + no + cstrlen nm)"
    using n by (intro scan_nul_string) auto
  moreover have "rd b (?o + no) (cstrlen nm) = Some nm" using rd_sub [OF n(4), of 0 "cstrlen nm"] by simp
  ultimately show ?thesis using n(1) by (simp add: flat_read_stringtable_def inbuf_init_def)
qed

text \<open>The tree an entry stands for, as \<open>unflatten_tree\<close> builds it.\<close>

definition data_prop :: "cstring \<Rightarrow> u8 list \<Rightarrow> property" where
  "data_prop n v = build_property n (bytes_data v)"

definition fresh_node :: "cstring \<Rightarrow> node" where
  "fresh_node n = Node (zero_info\<lparr>nname := Some n\<rparr>) [] []"

fun entry_props :: "entry list \<Rightarrow> property list" where
  "entry_props [] = []"
| "entry_props (EProp n v # es) = data_prop n v # entry_props es"
| "entry_props (ENode n fs # es) = entry_props es"

fun entry_node :: "entry \<Rightarrow> node" and entry_nodes :: "entry list \<Rightarrow> node list" where
  "entry_node (EProp n v) = fresh_node n"
| "entry_node (ENode n es) = Node (zero_info\<lparr>nname := Some n\<rparr>) (entry_props es) (entry_nodes es)"
| "entry_nodes [] = []"
| "entry_nodes (EProp n v # es) = entry_nodes es"
| "entry_nodes (ENode n fs # es) = entry_node (ENode n fs) # entry_nodes es"

definition add_entries :: "node \<Rightarrow> entry list \<Rightarrow> node" where
  "add_entries n es = Node (info n) (proplist n @ entry_props es) (children n @ entry_nodes es)"

lemma add_entries_simps:
  "add_entries n [] = n"
  "add_entries n (EProp nm v # es) = add_entries (add_property n (data_prop nm v)) es"
  "add_entries n (ENode nm fs # es) = add_entries (add_child n (entry_node (ENode nm fs))) es"
  "add_entries (fresh_node nm) es = entry_node (ENode nm es)"
  by (simp_all add: add_entries_def add_property_def add_child_def node_updates fresh_node_def)

text \<open>The loop of \<open>unflatten_tree\<close> at an offset of the structure block.\<close>

definition struct_pos :: "blob \<Rightarrow> int \<Rightarrow> inbuf" where
  "struct_pos b off = \<lparr>ibase = hdr b H_off_dt_struct, ilimit = hdr b H_totalsize, iptr = hdr b H_off_dt_struct + off\<rparr>"

definition unflatten_at :: "blob \<Rightarrow> cstring \<Rightarrow> node \<Rightarrow> inbuf \<Rightarrow> (node \<times> inbuf) option" where
  "unflatten_at b fl node pos = unflatten_loop b
     (inbuf_init (hdr b H_off_dt_strings) (hdr b H_off_dt_strings + hdr b H_size_dt_strings)) FTF_NOPS fl node pos"

definition unflattenable :: "blob \<Rightarrow> bool" where
  "unflattenable b \<longleftrightarrow> searchable b \<and> 40 \<le> hdr b H_off_dt_struct"

lemma no_flags: "\<not> flag FTF_NOPS FTF_FULLPATH" "\<not> flag FTF_NOPS FTF_VARALIGN"
  by simp_all

lemma tok_in_pos:
  assumes "unflattenable b" "tok_in b off t"
  shows "0 \<le> off" "4 dvd off" "hdr b H_off_dt_struct + off + tok_size t \<le> hdr b H_totalsize"
    "hdr b H_totalsize - hdr b H_off_dt_struct + 8 \<le> INT_MAX" "tok_at b (hdr b H_off_dt_struct + off) t"
    "off + tok_size t \<le> INT_MAX"
proof -
  show "0 \<le> off" "4 dvd off" "hdr b H_off_dt_struct + off + tok_size t \<le> hdr b H_totalsize"
    "tok_at b (hdr b H_off_dt_struct + off) t" using assms(2) by (auto simp: tok_in_def room_def)
  show "hdr b H_totalsize - hdr b H_off_dt_struct + 8 \<le> INT_MAX"
    using assms(1) searchableD(3) [of b] unfolding unflattenable_def by linarith
  show "off + tok_size t \<le> INT_MAX"
    using tok_in_bounds(3) [OF searchableD(2) assms(2)] assms(1) by (simp add: unflattenable_def)
qed

lemma word_in:
  assumes "0 \<le> off" "4 dvd off" "hdr b H_off_dt_struct + off + 4 \<le> hdr b H_totalsize"
    "fdt32_ld b (hdr b H_off_dt_struct + off) = Some v"
  shows "flat_read_word b (struct_pos b off) = Some (v, struct_pos b (off + 4))"
  using read_word_at [of "struct_pos b off" b v] assms by (simp add: struct_pos_def add.assoc)

lemma tag_in:
  assumes "unflattenable b" "tok_in b off t"
  shows "flat_read_word b (struct_pos b off) = Some (tok_tag t, struct_pos b (off + 4))"
proof -
  note p = tok_in_pos [OF assms]
  have "fdt32_ld b (hdr b H_off_dt_struct + off) = Some (tok_tag t)" using p(5) by (cases t) auto
  then show ?thesis using p(1-3) tok_size_ge(1) [of t] by (intro word_in) linarith+
qed

lemma unflatten_end: "unflattenable b \<Longrightarrow> tok_in b off TEnd \<Longrightarrow>
    unflatten_at b fl node (struct_pos b off) = Some (node, struct_pos b (off + 4))"
  using tag_in [of b off TEnd] by (simp add: unflatten_at_def unflatten_loop.simps)

lemma unflatten_prop:
  assumes b: "unflattenable b" "tok_in b off (TProp no v)" and n: "named b no nm"
  shows "unflatten_at b fl node (struct_pos b off) =
    unflatten_at b fl (add_property node (data_prop nm v)) (struct_pos b (off + tok_size (TProp no v)))"
proof -
  let ?l = "int (length v)" and ?s = "hdr b H_off_dt_struct"
  note p = tok_in_pos [OF b]
  note al = TAGALIGN_length(1) [of v]
  have sb: "searchable b" using b(1) by (simp add: unflattenable_def)
  have w: "flat_read_word b (struct_pos b (off + 4)) = Some (?l, struct_pos b (off + 8))"
    "flat_read_word b (struct_pos b (off + 8)) = Some (no, struct_pos b (off + 12))"
    using word_in [of "off + 4" b ?l] word_in [of "off + 8" b no] p al by (simp_all add: add.assoc)
  have r: "rd b (?s + (off + 12)) ?l = Some v" using p(5) by (simp add: add.assoc)
  have d: "flat_read_data b (struct_pos b (off + 12)) ?l = Some (bytes_data v, struct_pos b (off + tok_size (TProp no v)))"
    using read_data_at [of b "struct_pos b (off + 12)" v] r p al by (simp add: struct_pos_def add.assoc)
  have s: "s32 ?l = ?l" using p(1,6) al by (intro s32_id) auto
  have "flat_read_property b (struct_pos b (off + 4))
      (inbuf_init (hdr b H_off_dt_strings) (hdr b H_off_dt_strings + hdr b H_size_dt_strings)) FTF_NOPS =
      Some (data_prop nm v, struct_pos b (off + tok_size (TProp no v)))"
    unfolding flat_read_property_def data_prop_def
    using w d s read_stringtable_at [OF n] named_s32 [OF sb n] by (simp add: no_flags)
  then show ?thesis
    using tag_in [OF b] by (simp add: unflatten_at_def unflatten_loop.simps [of b _ _ _ node "struct_pos b off"])
qed

lemma start_in:
  assumes b: "unflattenable b" "tok_in b off (TBegin n)"
  shows "unflatten_start b (struct_pos b (off + 4)) fl FTF_NOPS =
    Some (fresh_node n, n, struct_pos b (off + tok_size (TBegin n)))"
proof -
  note p = tok_in_pos [OF b]
  have r: "rd b (hdr b H_off_dt_struct + (off + 4)) (cstrlen n + 1) = Some (n @ [0])" "0 \<notin> set n"
    using p(5) by (simp_all add: add.assoc)
  have "flat_read_string b (struct_pos b (off + 4)) = Some (n, struct_pos b (off + tok_size (TBegin n)))"
    using read_string_at [of b "struct_pos b (off + 4)" n] r p by (simp add: struct_pos_def add.assoc)
  then show ?thesis
    by (simp add: unflatten_start_def no_flags fresh_node_def build_node_def reverse_properties_def node_updates)
qed

lemma unflatten_begin:
  assumes b: "unflattenable b" "tok_in b off (TBegin n)"
  shows "unflatten_at b fl node (struct_pos b off) = do {
    (child, pos) \<leftarrow> unflatten_at b n (fresh_node n) (struct_pos b (off + tok_size (TBegin n)));
    unflatten_at b fl (add_child node child) pos }"
  using tag_in [OF b] start_in [OF b, of fl]
  by (simp add: unflatten_at_def unflatten_loop.simps [of b _ _ fl node])

text \<open>Reading the tokens of an entry adds the entry to the node.\<close>

definition unflattens :: "blob \<Rightarrow> entry \<Rightarrow> bool" where
  "unflattens b e \<longleftrightarrow> (\<forall>ts off fl node. list_all2 (denotes b) ts (flat e) \<longrightarrow> toks_in b off ts \<longrightarrow>
     unflatten_at b fl node (struct_pos b off) =
     unflatten_at b fl (add_entries node [e]) (struct_pos b (off + toks_size ts)))"

lemma unflatten_entries:
  assumes "\<forall>e \<in> set es. unflattens b e" "list_all2 (denotes b) ts (flats es)" "toks_in b off ts"
  shows "unflatten_at b fl node (struct_pos b off) =
    unflatten_at b fl (add_entries node es) (struct_pos b (off + toks_size ts))"
  using assms
proof (induction es arbitrary: node ts off)
  case Nil
  then show ?case by (simp add: add_entries_simps)
next
  case (Cons e es)
  obtain us vs where u: "ts = us @ vs" "list_all2 (denotes b) us (flat e)" "list_all2 (denotes b) vs (flats es)"
    using Cons.prems(2) by (auto simp: list_all2_append2)
  have "unflatten_at b fl node (struct_pos b off) =
      unflatten_at b fl (add_entries node [e]) (struct_pos b (off + toks_size us))"
    using Cons.prems(1,3) u unfolding unflattens_def by simp
  also have "\<dots> = unflatten_at b fl (add_entries (add_entries node [e]) es) (struct_pos b (off + toks_size us + toks_size vs))"
    using Cons.prems u by (intro Cons.IH) auto
  also have "add_entries (add_entries node [e]) es = add_entries node (e # es)"
    by (cases e) (simp_all add: add_entries_simps)
  finally show ?case using u(1) by (simp add: add.assoc)
qed

lemma unflatten_entry:
  assumes b: "unflattenable b"
  shows "unflattens b e"
proof (induction e)
  case (EProp n v)
  show ?case unfolding unflattens_def
  proof (intro allI impI)
    fix ts off fl node
    assume a: "list_all2 (denotes b) ts (flat (EProp n v))" "toks_in b off ts"
    then obtain t where t: "ts = [t]" "denotes b t (Prop n v)" by (auto simp: list_all2_Cons2)
    then obtain no where "t = TProp no v" "named b no n" by (cases t) auto
    then show "unflatten_at b fl node (struct_pos b off) =
        unflatten_at b fl (add_entries node [EProp n v]) (struct_pos b (off + toks_size ts))"
      using unflatten_prop [OF b, of off no v n] a(2) t(1) by (simp add: add_entries_simps)
  qed
next
  case (ENode n es)
  show ?case unfolding unflattens_def
  proof (intro allI impI)
    fix ts off fl node
    assume a: "list_all2 (denotes b) ts (flat (ENode n es))" "toks_in b off ts"
    then obtain t us u where t: "ts = t # us @ [u]" "denotes b t (Begin n)" "list_all2 (denotes b) us (flats es)" "denotes b u End"
      by (auto simp: list_all2_Cons2 list_all2_append2)
    have tu: "t = TBegin n" "u = TEnd" using denotes_tagD t by blast+
    let ?o = "off + tok_size (TBegin n)"
    have i: "tok_in b off (TBegin n)" "toks_in b ?o us" "tok_in b (?o + toks_size us) TEnd" using a(2) t(1) tu by simp_all
    have "unflatten_at b n (fresh_node n) (struct_pos b ?o) =
        unflatten_at b n (entry_node (ENode n es)) (struct_pos b (?o + toks_size us))"
      using unflatten_entries [OF _ t(3) i(2)] ENode.IH by (simp add: add_entries_simps)
    also have "\<dots> = Some (entry_node (ENode n es), struct_pos b (?o + toks_size us + 4))"
      by (rule unflatten_end [OF b i(3)])
    finally show "unflatten_at b fl node (struct_pos b off) =
        unflatten_at b fl (add_entries node [ENode n es]) (struct_pos b (off + toks_size ts))"
      using unflatten_begin [OF b i(1)] t(1) tu by (simp add: add_entries_simps add.assoc)
  qed
qed

lemma read_long_at:
  assumes "rd b p n = Some xs" "0 \<le> i" "i + 8 \<le> n"
  shows "fdt64_ld (copied xs) i = fdt64_ld b (p + i)"
proof -
  have r: "rd (copied xs) 0 n = rd b p n" using rd_SomeD(2,4) [OF assms(1)] assms(1) by (simp add: rd_def)
  have "fdt32_ld (copied xs) (0 + i) = fdt32_ld b (p + i)" "fdt32_ld (copied xs) (0 + (i + 4)) = fdt32_ld b (p + (i + 4))"
    using rd_eq_imp_ld32_eq [OF r, of i] rd_eq_imp_ld32_eq [OF r, of "i + 4"] assms by simp_all
  then show ?thesis by (simp add: fdt64_ld_alt add.assoc)
qed

definition reserve_entries :: "(int \<times> int) list \<Rightarrow> reserve_info list" where
  "reserve_entries es = map (\<lambda>(a, z). build_reserve_entry a z) (takeWhile (\<lambda>(a, z). z \<noteq> 0) es)"

lemma mem_reserve_loop_spec:
  assumes "rsv_at b (iptr inb) (es @ [(0, 0)])" "iptr inb + 16 * (int (length es) + 1) \<le> ilimit inb"
    "ilimit inb \<le> blen b" "0 \<le> iptr inb"
  shows "\<exists>inb'. mem_reserve_loop b inb rl = Some (rl @ reserve_entries es, inb')"
  using assms
proof (induction es arbitrary: inb rl)
  case Nil
  obtain re where re: "rd b (iptr inb) 16 = Some re" using rd_in_range [of "iptr inb" 16 b] Nil.prems by auto
  have "fdt64_ld (copied re) 0 = Some 0" "fdt64_ld (copied re) 8 = Some 0"
    using read_long_at [OF re, of 0] read_long_at [OF re, of 8] Nil.prems(1) by simp_all
  then show ?case using re Nil.prems(2)
    by (subst mem_reserve_loop.simps) (simp add: flat_read_chunk_def reserve_entries_def)
next
  case (Cons e es)
  obtain a z where e: "e = (a, z)" by (cases e)
  obtain re where re: "rd b (iptr inb) 16 = Some re" using rd_in_range [of "iptr inb" 16 b] Cons.prems by auto
  have l: "fdt64_ld (copied re) 0 = Some a" "fdt64_ld (copied re) 8 = Some z"
    using read_long_at [OF re, of 0] read_long_at [OF re, of 8] Cons.prems(1) e by simp_all
  let ?i = "inb\<lparr>iptr := iptr inb + 16\<rparr>"
  have c: "flat_read_chunk b inb 16 = Some (re, ?i)" using re Cons.prems(2) by (simp add: flat_read_chunk_def)
  obtain i' where i': "mem_reserve_loop b ?i (rl @ [build_reserve_entry a z]) = Some ((rl @ [build_reserve_entry a z]) @ reserve_entries es, i')"
    using Cons.IH [of ?i "rl @ [build_reserve_entry a z]"] Cons.prems e by (auto simp: algebra_simps)
  show ?case
    using c l i' e by (subst mem_reserve_loop.simps) (auto simp: reserve_entries_def add_reserve_entry_def)
qed

lemma read_blob_spec:
  assumes i: "blob_mem b = bytes" "blob_addr b = 0" "hdr b H_magic = FDT_MAGIC" "hdr b H_totalsize = blen b"
    "40 \<le> blen b" "blen b \<le> INT_MAX"
  shows "read_blob \<lparr>fbytes = bytes @ rest, feof = False\<rparr> = Some b"
proof -
  let ?n = "length bytes"
  have l: "40 \<le> ?n" "blen b = int ?n" using i by auto
  have m: "fdt32_ld (copied (take 4 bytes)) 0 = Some FDT_MAGIC" "fdt32_ld (copied (take 4 (drop 4 bytes))) 0 = Some (int ?n)"
  proof -
    have "fdt32_ld b 0 = Some FDT_MAGIC" "fdt32_ld b 4 = Some (int ?n)"
      using fdt_get_header_hdr [of b H_magic] fdt_get_header_hdr [of b H_totalsize] i l by (simp_all add: fdt_get_header_def)
    moreover have "fdt32_ld (copied (take 4 (drop k bytes))) 0 = fdt32_ld b (int k)" if "k + 4 \<le> ?n" for k
      using that i(1) rd_eq_imp_ld32_eq [of "copied (take 4 (drop k bytes))" 0 4 b "int k" 0] by (simp add: rd_def)
    from this [of 0] this [of 4] have "fdt32_ld (copied (take 4 bytes)) 0 = fdt32_ld b 0"
      "fdt32_ld (copied (take 4 (drop 4 bytes))) 0 = fdt32_ld b 4" using l by simp_all
    ultimately show "fdt32_ld (copied (take 4 bytes)) 0 = Some FDT_MAGIC"
      "fdt32_ld (copied (take 4 (drop 4 bytes))) 0 = Some (int ?n)" by simp_all
  qed
  have s: "s32 (int ?n - 8) = int ?n - 8" "u64 (int ?n - 8) = int ?n - 8"
    using l i(6) by (intro s32_id u64_id; linarith)+
  have nn: "nat (int ?n - 8) = ?n - 8" by simp
  have j: "take 4 bytes @ take 4 (drop 4 bytes) = take 8 bytes" using take_add [of 4 4 bytes] by simp
  have f: "fread \<lparr>fbytes = drop 8 bytes @ rest, feof = False\<rparr> (int ?n - 8) = (drop 8 bytes, \<lparr>fbytes = rest, feof = False\<rparr>)"
    using l by (simp add: fread_def nn)
  have "read_loop \<lparr>fbytes = drop 8 bytes @ rest, feof = False\<rparr> (take 8 bytes) (int ?n) (int ?n - 8) = Some bytes"
    using l f s by (subst read_loop.simps) (simp add: read_loop.simps s32_id of_nat_diff)
  moreover have "fread \<lparr>fbytes = bytes @ rest, feof = False\<rparr> 4 = (take 4 bytes, \<lparr>fbytes = drop 4 bytes @ rest, feof = False\<rparr>)"
    "fread \<lparr>fbytes = drop 4 bytes @ rest, feof = False\<rparr> 4 = (take 4 (drop 4 bytes), \<lparr>fbytes = drop 8 bytes @ rest, feof = False\<rparr>)"
    using l by (simp_all add: fread_def)
  ultimately show ?thesis
    using m l s j i(1,2) by (simp add: read_blob_def)
qed

lemma unflatten_root:
  assumes b: "unflattenable b" and ts: "struct_items b ts (flat (ENode n es))" "TNop \<notin> set ts"
  shows "flat_read_word b (struct_pos b 0) = Some (FDT_BEGIN_NODE, struct_pos b 4)"
    "unflatten_tree b (struct_pos b 4)
       (inbuf_init (hdr b H_off_dt_strings) (hdr b H_off_dt_strings + hdr b H_size_dt_strings)) [] FTF_NOPS =
     Some (entry_node (ENode n es), struct_pos b (toks_size ts))"
    "flat_read_word b (struct_pos b (toks_size ts)) = Some (FDT_END, struct_pos b (toks_size ts + 4))"
proof -
  have "filter (\<lambda>t. t \<noteq> TNop) ts = ts" using ts(2) by (auto intro: filter_True)
  then have "list_all2 (denotes b) ts (Begin n # flats es @ [End])" using ts(1) by (simp add: struct_items_def)
  then obtain t us u where t: "ts = t # us @ [u]" "denotes b t (Begin n)" "list_all2 (denotes b) us (flats es)" "denotes b u End"
    by (auto simp: list_all2_Cons2 list_all2_append2)
  have tu: "t = TBegin n" "u = TEnd" using denotes_tagD t by blast+
  let ?o = "tok_size (TBegin n)"
  have i: "tok_in b 0 (TBegin n)" "toks_in b ?o us" "tok_in b (?o + toks_size us) TEnd" "tok_in b (toks_size ts) TFinish"
    using struct_items_toks_in [OF ts(1)] t(1) tu by (simp_all add: add.assoc)
  show "flat_read_word b (struct_pos b 0) = Some (FDT_BEGIN_NODE, struct_pos b 4)" using tag_in [OF b i(1)] by simp
  show "flat_read_word b (struct_pos b (toks_size ts)) = Some (FDT_END, struct_pos b (toks_size ts + 4))"
    using tag_in [OF b i(4)] by simp
  have "unflatten_at b n (fresh_node n) (struct_pos b ?o) = unflatten_at b n (entry_node (ENode n es)) (struct_pos b (?o + toks_size us))"
    using unflatten_entries [OF _ t(3) i(2)] unflatten_entry [OF b] by (simp add: add_entries_simps)
  also have "\<dots> = Some (entry_node (ENode n es), struct_pos b (toks_size ts))"
    using unflatten_end [OF b i(3)] t(1) tu by (simp add: add.assoc)
  finally show "unflatten_tree b (struct_pos b 4)
       (inbuf_init (hdr b H_off_dt_strings) (hdr b H_off_dt_strings + hdr b H_size_dt_strings)) [] FTF_NOPS =
     Some (entry_node (ENode n es), struct_pos b (toks_size ts))"
    using start_in [OF b i(1), of "[]"] by (simp add: unflatten_tree_def unflatten_at_def)
qed

lemma dt_from_blob_spec:
  assumes i: "dtc_image b es (flat (ENode n fs)) cpu" "blob_addr b = 0" "hdr b H_totalsize < INT_MAX" 
  shows "dt_from_blob \<lparr>fbytes = blob_mem b @ rest, feof = False\<rparr> =
    Some (build_dt_info DTSF_V1 (reserve_entries es) (entry_node (ENode n fs)) cpu)"
proof -
  note l = image_layout [OF i(1)]
  have h: "hdr b H_magic = FDT_MAGIC" "hdr b H_version = 17" "hdr b H_off_mem_rsvmap = 40" "hdr b H_boot_cpuid_phys = cpu"
    "rsv_at b 40 (es @ [(0, 0)])" "hdr b H_off_dt_struct = 56 + 16 * int (length es)"
    using i(1) by (simp_all add: dtc_image_def)
  obtain ts where ts: "struct_items b ts (flat (ENode n fs))" "TNop \<notin> set ts" using i(1) by (auto simp: dtc_image_def)
  have sb: "searchable b" using image_searchable [OF i(1) _ i(3)] i(2) by simp
  then have b: "unflattenable b" using l(5) by (simp add: unflattenable_def)
  have bl: "40 \<le> blen b" "blen b \<le> INT_MAX" using l(2,5,8) i(3) by linarith+
  have g: "fdt_get_header b f = Some (hdr b f)" for f using fdt_get_header_hdr [OF bl(1)] .
  have rb: "read_blob \<lparr>fbytes = blob_mem b @ rest, feof = False\<rparr> = Some b"
    by (rule read_blob_spec [OF refl i(2) h(1) l(8) bl])
  have nn: "0 \<le> hdr b H_size_dt_strings" "0 \<le> hdr b H_size_dt_struct" "4 \<le> hdr b H_size_dt_struct"
    using ts(1) toks_size_nonneg(1) [of ts] by (simp_all add: struct_items_def)
  have u: "u32 (hdr b H_off_dt_strings + hdr b H_size_dt_strings) = hdr b H_off_dt_strings + hdr b H_size_dt_strings"
    "u32 (hdr b H_off_dt_struct + hdr b H_size_dt_struct) = hdr b H_off_dt_struct + hdr b H_size_dt_struct"
    using l(3,5,6,7) nn i(3) by (intro u32_id; linarith)+
  have o: "\<not> hdr b H_totalsize \<le> 40" "\<not> hdr b H_totalsize \<le> hdr b H_off_dt_struct" "\<not> hdr b H_totalsize < hdr b H_off_dt_strings"
    "\<not> hdr b H_totalsize < hdr b H_off_dt_strings + hdr b H_size_dt_strings"
    "\<not> hdr b H_totalsize < hdr b H_off_dt_struct + hdr b H_size_dt_struct"
    using l(3,4,5,7) nn by linarith+
  obtain inb where m: "mem_reserve_loop b (inbuf_init 40 (hdr b H_totalsize)) [] = Some (reserve_entries es, inb)"
    using mem_reserve_loop_spec [of b "inbuf_init 40 (hdr b H_totalsize)" es "[]"] h(5) l(1,8) by (auto simp: inbuf_init_def)
  have p: "inbuf_init (hdr b H_off_dt_struct) (hdr b H_totalsize) = struct_pos b 0"
    by (simp add: inbuf_init_def struct_pos_def)
  show ?thesis
    using rb m unflatten_root [OF b ts]
    by (simp add: dt_from_blob_def g p flat_read_mem_reserve_def Let_def h(2,3,4) u o)
qed

section \<open>Properties\<close>

definition blob_ok :: "out_opts \<Rightarrow> dt_info \<Rightarrow> bool" where
  "blob_ok opts dti \<longleftrightarrow> tree_ok (dt dti) \<and> \<not> ndeleted (info (dt dti)) \<and> reserve_ok (reservelist dti) \<and>
     0 \<le> boot_cpuid_phys dti \<and> boot_cpuid_phys dti < 4294967296 \<and> align_ok opts \<and>
     blob_needs opts dti + 16 \<le> INT_MAX"

lemma blob_written:
  assumes "blob_ok opts dti"
  obtains bytes total where "dt_to_blob opts dti 17 = Some bytes"
    "\<And>addr. dtc_image \<lparr>blob_addr = addr, blob_mem = bytes\<rparr> (reserve_map opts (reservelist dti))
       (flat (live_entry (dt dti))) (boot_cpuid_phys dti)"
    "\<And>addr. hdr \<lparr>blob_addr = addr, blob_mem = bytes\<rparr> H_totalsize < INT_MAX"
    "int (length bytes) = total + blob_padding opts total" "0 \<le> total" "total + pad_limit opts \<le> INT_MAX"
proof -
  obtain bytes total where b: "dt_to_blob opts dti 17 = Some bytes" "0 \<le> total"
    "\<forall>b. blob_mem b = bytes \<longrightarrow> dtc_image b (reserve_map opts (reservelist dti)) (flat (live_entry (dt dti))) (boot_cpuid_phys dti)"
    "int (length bytes) = total + blob_padding opts total" "total + pad_limit opts + 8 \<le> INT_MAX"
    using dt_to_blob_spec [of dti opts] assms unfolding blob_ok_def by blast
  have t: "total + pad_limit opts \<le> INT_MAX" and a: "align_ok opts" using b(5) assms by (simp_all add: blob_ok_def)
  have im: "dtc_image \<lparr>blob_addr = addr, blob_mem = bytes\<rparr> (reserve_map opts (reservelist dti))
       (flat (live_entry (dt dti))) (boot_cpuid_phys dti)" for addr using b(3) by simp
  have "int (length bytes) < INT_MAX" using b(4,5) padding_spec(2) [OF b(2) t a] by linarith
  then have "hdr \<lparr>blob_addr = addr, blob_mem = bytes\<rparr> H_totalsize < INT_MAX" for addr
    using image_layout(8) [OF im [of addr]] by simp
  then show ?thesis using that b t im by blast
qed

fun plain :: "node \<Rightarrow> node" where
  "plain (Node i ps cs) = Node (zero_info\<lparr>nname := nname i\<rparr>)
     (map (\<lambda>p. data_prop (pname p) (prop_bytes p)) (live_props ps)) (map plain (live_nodes cs))"

lemma entries_append:
  "entry_props (es @ fs) = entry_props es @ entry_props fs" "entry_nodes (es @ fs) = entry_nodes es @ entry_nodes fs"
proof -
  show "entry_props (es @ fs) = entry_props es @ entry_props fs" by (induction es rule: entry_props.induct) auto
  show "entry_nodes (es @ fs) = entry_nodes es @ entry_nodes fs"
  proof (induction es)
    case (Cons e es)
    then show ?case by (cases e) auto
  qed simp
qed

lemma entries_of_props: "entry_props (map prop_entry ps) = map (\<lambda>p. data_prop (pname p) (prop_bytes p)) ps"
    "entry_nodes (map prop_entry ps) = []"
  by (induction ps) (simp_all add: prop_entry_def)

lemma entries_of_nodes: "entry_props (map live_entry cs) = []" "entry_nodes (map live_entry cs) = map (\<lambda>c. entry_node (live_entry c)) cs"
  by (induction cs) (simp_all add: live_entry_node)

lemma plain_live: "tree_ok n \<Longrightarrow> entry_node (live_entry n) = plain n"
proof (induction n)
  case (Node i ps cs)
  have "map (\<lambda>c. entry_node (live_entry c)) (live_nodes cs) = map plain (live_nodes cs)" using Node by auto
  moreover have "Some (the (nname i)) = nname i" using Node.prems by (auto split: option.splits)
  ultimately show ?case by (simp add: entries_append entries_of_props entries_of_nodes)
qed

definition sample_node :: "cstring \<Rightarrow> property list \<Rightarrow> node list \<Rightarrow> node" where
  "sample_node n ps cs = Node (zero_info\<lparr>nname := Some n\<rparr>) ps cs"

definition sample_dt :: node where
  "sample_dt = sample_node []
     [data_prop (cstr ''model'') (cstr ''vmate'' @ [0]), build_property_delete (cstr ''serial'')]
     [build_node_delete,
      sample_node (cstr ''cpus'') [] [sample_node (cstr ''cpu@1'') [data_prop (cstr ''reg'') [0, 0, 0, 1]] []]]"

definition sample_info :: dt_info where
  "sample_info = build_dt_info DTSF_V1 [build_reserve_entry 4096 16] sample_dt 1"

definition sample_opts :: out_opts where
  "sample_opts = \<lparr>reservenum = 1, minsize = 500, padsize = 0, alignsize = 64\<rparr>"

lemma sample_blob_ok: "blob_ok sample_opts sample_info"
proof -
  have "align_ok sample_opts" unfolding align_ok_def by (intro disjI2 exI [of _ 6]) (simp add: sample_opts_def)
  moreover have "tree_ok (dt sample_info)" "\<not> ndeleted (info (dt sample_info))" "reserve_ok (reservelist sample_info)"
    "0 \<le> boot_cpuid_phys sample_info" "boot_cpuid_phys sample_info < 4294967296"
    "blob_needs sample_opts sample_info + 16 \<le> INT_MAX" by code_simp+
  ultimately show ?thesis by (simp add: blob_ok_def)
qed

lemma sample_facts:
  "nname (info (dt sample_info)) = Some []"
  "live_entries (dt sample_info) = [EProp (cstr ''model'') (cstr ''vmate'' @ [0]),
     ENode (cstr ''cpus'') [ENode (cstr ''cpu@1'') [EProp (cstr ''reg'') [0, 0, 0, 1]]]]"
  "components (cstr ''cpus/cpu'') = [cstr ''cpus'', cstr ''cpu'']"
  "plain (dt sample_info) = sample_node [] [data_prop (cstr ''model'') (cstr ''vmate'' @ [0])]
     [sample_node (cstr ''cpus'') [] [sample_node (cstr ''cpu@1'') [data_prop (cstr ''reg'') [0, 0, 0, 1]] []]]"
  "reserve_entries (reserve_map sample_opts (reservelist sample_info)) = [build_reserve_entry 4096 16]"
  by code_simp+

text \<open>C1: What dtc writes, libfdt reads. \<open>dt_to_blob\<close>, version 17, succeeds on every live tree whose values are
  well formed and whose blob stays below two gigabytes. Wherever the file is loaded at an address that is a
  multiple of eight, \<open>fdt_check_full\<close> accepts it, the reserve map has the entries, the boot CPU
  is the given one, and path lookups and property reads give the nodes and
  properties that are not deleted.\<close>

theorem dt_to_blob_read_by_libfdt:
  assumes "blob_ok opts dti" "nname (info (dt dti)) = Some []"
  shows "\<exists>bytes. dt_to_blob opts dti 17 = Some bytes \<and> (\<forall>addr. 8 dvd addr \<longrightarrow>
    (let b = \<lparr>blob_addr = addr, blob_mem = bytes\<rparr>; es = reserve_map opts (reservelist dti) in
     fdt_check_full b (blen b) = Some 0 \<and> fdt_boot_cpuid_phys b = Some (boot_cpuid_phys dti) \<and>
     (\<forall>i < length es. fdt_get_mem_rsv b (int i) = Some (0, Some (es ! i))) \<and>
     reads_as b [] (live_entries (dt dti))))"
proof -
  obtain bytes where b: "dt_to_blob opts dti 17 = Some bytes"
    "\<And>addr. dtc_image \<lparr>blob_addr = addr, blob_mem = bytes\<rparr> (reserve_map opts (reservelist dti))
       (flat (live_entry (dt dti))) (boot_cpuid_phys dti)"
    "\<And>addr. hdr \<lparr>blob_addr = addr, blob_mem = bytes\<rparr> H_totalsize < INT_MAX"
    using blob_written [OF assms(1)] by metis
  have e: "live_entry (dt dti) = ENode [] (live_entries (dt dti))" using assms(2) by (simp add: live_entry_node)
  show ?thesis
  proof (intro exI [of _ bytes] conjI allI impI)
    fix addr :: int assume a: "8 dvd addr"
    let ?b = "\<lparr>blob_addr = addr, blob_mem = bytes\<rparr>"
    have im: "dtc_image ?b (reserve_map opts (reservelist dti)) (flat (ENode [] (live_entries (dt dti)))) (boot_cpuid_phys dti)"
      using b(2) [of addr] unfolding e .
    have s: "searchable ?b" using image_searchable [OF im _ b(3)] a by simp
    have "fdt_boot_cpuid_phys ?b = Some (boot_cpuid_phys dti)"
      using searchableD(1) [OF s] im by (simp add: dtc_image_def)
    then show "let b = ?b; es = reserve_map opts (reservelist dti) in fdt_check_full b (blen b) = Some 0 \<and>
        fdt_boot_cpuid_phys b = Some (boot_cpuid_phys dti) \<and>
        (\<forall>i < length es. fdt_get_mem_rsv b (int i) = Some (0, Some (es ! i))) \<and> reads_as b [] (live_entries (dt dti))"
      using image_reads [OF im _ b(3)] a by (simp add: Let_def)
  qed (rule b(1))
qed

theorem dt_to_blob_read_by_libfdt_witness:
  "\<exists>bytes p. dt_to_blob sample_opts sample_info 17 = Some bytes \<and>
     fdt_path_offset \<lparr>blob_addr = 0, blob_mem = bytes\<rparr> (cstr ''/cpus/cpu'') = Some 40 \<and>
     fdt_getprop \<lparr>blob_addr = 0, blob_mem = bytes\<rparr> 40 (cstr ''reg'') = Some (Ptr p, 4) \<and>
     rd \<lparr>blob_addr = 0, blob_mem = bytes\<rparr> p 4 = Some [0, 0, 0, 1]"
proof -
  let ?t = "live_entries (dt sample_info)" and ?c = "cstr ''cpus/cpu''"
  obtain bytes where b: "dt_to_blob sample_opts sample_info 17 = Some bytes"
    "reads_as \<lparr>blob_addr = 0, blob_mem = bytes\<rparr> [] ?t"
    using dt_to_blob_read_by_libfdt [OF sample_blob_ok sample_facts(1)] by (auto simp: Let_def)
  have w: "walk_tree (components ?c) 0 [] ?t = Some (40, cstr ''cpu@1'', [EProp (cstr ''reg'') [0, 0, 0, 1]])"
    unfolding sample_facts(2,3) by code_simp
  have "cstr ''/cpus/cpu'' = chr (CHR ''/'') # ?c" by (simp add: cstr_def)
  then have "fdt_path_offset \<lparr>blob_addr = 0, blob_mem = bytes\<rparr> (cstr ''/cpus/cpu'') = Some 40"
    using reads_asD(1) [OF b(2), of ?c] w by (simp add: child_offset_def)
  then show ?thesis using b(1) reads_asD(2) [OF b(2) w, of "cstr ''reg''"] by (auto simp: prop_read_def)
qed

text \<open>C2: dtc reads back what it writes: \<open>dt_from_blob\<close> on a file that starts with what \<open>dt_to_blob\<close> wrote gives
  the tree without its deleted parts, labels, markers and computed fields, the boot CPU, and the reserve
  entries up to the first one of size 0.\<close>

theorem dt_blob_roundtrip:
  assumes "blob_ok opts dti"
  shows "\<exists>bytes. dt_to_blob opts dti 17 = Some bytes \<and>
    dt_from_blob \<lparr>fbytes = bytes @ rest, feof = False\<rparr> =
      Some (build_dt_info DTSF_V1 (reserve_entries (reserve_map opts (reservelist dti))) (plain (dt dti)) (boot_cpuid_phys dti))"
proof -
  obtain bytes where b: "dt_to_blob opts dti 17 = Some bytes"
    "dtc_image \<lparr>blob_addr = 0, blob_mem = bytes\<rparr> (reserve_map opts (reservelist dti))
       (flat (live_entry (dt dti))) (boot_cpuid_phys dti)"
    "hdr \<lparr>blob_addr = 0, blob_mem = bytes\<rparr> H_totalsize < INT_MAX"
    using blob_written [OF assms] by metis
  have "plain (dt dti) = entry_node (ENode (the (nname (info (dt dti)))) (live_entries (dt dti)))"
    using plain_live [of "dt dti"] assms by (simp add: blob_ok_def live_entry_node)
  then show ?thesis
    using b(1) dt_from_blob_spec [OF b(2) [unfolded live_entry_node] _ b(3)] by (auto simp del: entry_node.simps)
qed

theorem dt_blob_roundtrip_witness:
  "\<exists>bytes. dt_to_blob sample_opts sample_info 17 = Some bytes \<and>
    dt_from_blob \<lparr>fbytes = bytes, feof = False\<rparr> =
      Some (build_dt_info DTSF_V1 [build_reserve_entry 4096 16]
        (sample_node [] [data_prop (cstr ''model'') (cstr ''vmate'' @ [0])]
          [sample_node (cstr ''cpus'') [] [sample_node (cstr ''cpu@1'') [data_prop (cstr ''reg'') [0, 0, 0, 1]] []]]) 1)"
  using dt_blob_roundtrip [OF sample_blob_ok, of "[]"] unfolding sample_facts(4,5)
  by (simp add: sample_info_def build_dt_info_def)

text \<open>C34: The size of the blob \<open>dt_to_blob\<close> writes: at least the minimum size asked for, unless a padding is asked
  for, and a multiple of the alignment asked for.\<close>

theorem dt_to_blob_size:
  assumes "blob_ok opts dti"
  shows "\<exists>bytes. dt_to_blob opts dti 17 = Some bytes \<and>
    (padsize opts \<le> 0 \<longrightarrow> minsize opts \<le> int (length bytes)) \<and>
    (alignsize opts > 0 \<longrightarrow> alignsize opts dvd int (length bytes))"
proof -
  obtain bytes total where b: "dt_to_blob opts dti 17 = Some bytes"
    "int (length bytes) = total + blob_padding opts total" "0 \<le> total" "total + pad_limit opts \<le> INT_MAX"
    using blob_written [OF assms] by metis
  have "align_ok opts" using assms by (simp add: blob_ok_def)
  note p = padding_spec [OF b(3,4) this]
  have "minsize opts \<le> int (length bytes)" if "padsize opts \<le> 0"
    using p(1,3) that b by (cases "minsize opts > 0") auto
  then show ?thesis using b(1,2) p(5) by auto
qed

theorem dt_to_blob_size_witness:
  "\<exists>bytes. dt_to_blob sample_opts sample_info 17 = Some bytes \<and> 500 \<le> int (length bytes) \<and> 64 dvd int (length bytes)"
  using dt_to_blob_size [OF sample_blob_ok] by (simp add: sample_opts_def)

end
