(* ===== verification/Dtc_Merge.thy ===== *)
theory Dtc_Merge
  imports Dtc_Livetree
begin

text \<open>
  Merging live trees (\<open>merge_nodes\<close> of \<open>livetree.c\<close>): a tree is seen as the values of the properties at each path,
  and merging overrides that view. The well-formedness of trees is kept by everything the top level of a source
  file does (the \<open>devicetree\<close> rules of \<open>dtc-parser.y\<close>).
\<close>

section \<open>Properties by name\<close>

definition props_map :: "property list \<Rightarrow> cstring \<Rightarrow> data option" where
  "props_map ps s = map_option (\<lambda>k. pval (ps ! k)) (find_prop ps s)"

lemma props_map_simps [simp]:
  "props_map [] s = None"
  "props_map (p # ps) s = (if \<not> pdeleted p \<and> pname p = s then Some (pval p) else props_map ps s)"
  by (auto simp: props_map_def option.map_comp comp_def)

lemma props_map_member: "props_map ps s = Some v \<Longrightarrow> s \<in> pname ` set ps"
  by (induction ps) (auto split: if_splits)

lemma props_map_absent: "s \<notin> pname ` set ps \<Longrightarrow> props_map ps s = None"
  using props_map_member by fastforce

lemma props_map_deleted: "list_all pdeleted ps \<Longrightarrow> props_map ps = (\<lambda>s. None)"
  by (induction ps) (auto simp: fun_eq_iff)

text \<open>What a list of new and deleted properties does to the values.\<close>

definition override_props :: "(cstring \<Rightarrow> data option) \<Rightarrow> property list \<Rightarrow> cstring \<Rightarrow> data option" where
  "override_props m ps s = (if s \<in> pname ` set ps then props_map ps s else m s)"

abbreviation distinct_props :: "property list \<Rightarrow> bool" where
  "distinct_props ps \<equiv> distinct (map pname ps)"

lemma delete_first_prop_names [simp]: "map pname (delete_first_prop ps s) = map pname ps"
  by (induction ps) (auto simp: delete_property_def)

lemma delete_first_prop_map:
  "distinct_props ps \<Longrightarrow> props_map (delete_first_prop ps s) = (props_map ps)(s := None)"
proof (induction ps)
  case (Cons p ps)
  then show ?case using props_map_absent [of "pname p" ps]
    by (auto simp: delete_property_def fun_eq_iff)
qed (simp add: fun_eq_iff)

lemma merge_prop_names:
  "map pname (merge_prop ps new) = map pname ps @ (if pname new \<in> pname ` set ps then [] else [pname new])"
  by (induction ps) auto

lemma merge_prop_map:
  "distinct_props ps \<Longrightarrow> \<not> pdeleted new \<Longrightarrow> props_map (merge_prop ps new) = (props_map ps)(pname new \<mapsto> pval new)"
proof (induction ps)
  case (Cons p ps)
  then show ?case using props_map_absent [of "pname p" ps] by (auto simp: fun_eq_iff)
qed (auto simp: fun_eq_iff)

lemma merge_props_spec:
  assumes "distinct_props old" "distinct_props new"
  shows "distinct_props (merge_props old new)" "props_map (merge_props old new) = override_props (props_map old) new"
proof -
  have "distinct_props (merge_props old new) \<and> props_map (merge_props old new) = override_props (props_map old) new"
    using assms
  proof (induction new arbitrary: old)
    case Nil
    then show ?case by (simp add: override_props_def fun_eq_iff)
  next
    case (Cons p ps)
    let ?o = "if pdeleted p then delete_first_prop old (pname p) else merge_prop old p"
    have "distinct_props ?o" using Cons.prems(1) by (auto simp: merge_prop_names)
    moreover have "props_map ?o = (props_map old)(pname p := if pdeleted p then None else Some (pval p))"
      using delete_first_prop_map [OF Cons.prems(1)] merge_prop_map [OF Cons.prems(1)] by auto
    moreover have "override_props ((props_map old)(pname p := if pdeleted p then None else Some (pval p))) ps =
        override_props (props_map old) (p # ps)"
      using Cons.prems(2) props_map_absent by (auto simp: override_props_def fun_eq_iff)
    ultimately show ?case using Cons.IH [of ?o] Cons.prems(2) by (simp add: fun_upd_def)
  qed
  then show "distinct_props (merge_props old new)" "props_map (merge_props old new) = override_props (props_map old) new"
    by simp_all
qed

section \<open>Trees by path\<close>

definition child_named :: "node list \<Rightarrow> cstring \<Rightarrow> node option" where
  "child_named cs s = find (\<lambda>c. nname (info c) = Some s) cs"

fun view :: "node \<Rightarrow> cstring list \<Rightarrow> (cstring \<Rightarrow> data option) option" where
  "view n [] = Some (props_map (proplist n))"
| "view n (s # path) =
     (case child_named (children n) s of
        None \<Rightarrow> None
      | Some c \<Rightarrow> if ndeleted (info c) then None else view c path)"

fun merge_view :: "(cstring list \<Rightarrow> (cstring \<Rightarrow> data option) option) \<Rightarrow> node \<Rightarrow> cstring list \<Rightarrow> (cstring \<Rightarrow> data option) option" where
  "merge_view v n [] = Some (override_props (case v [] of None \<Rightarrow> (\<lambda>s. None) | Some m \<Rightarrow> m) (proplist n))"
| "merge_view v n (s # path) =
     (case child_named (children n) s of
        None \<Rightarrow> v (s # path)
      | Some c \<Rightarrow> if ndeleted (info c) then None else merge_view (\<lambda>p. v (s # p)) c path)"

text \<open>A node whose contents are deleted.\<close>

definition dead :: "node \<Rightarrow> bool" where
  "dead n \<longleftrightarrow> list_all pdeleted (proplist n) \<and> list_all (\<lambda>c. ndeleted (info c)) (children n)"

fun wf_node :: "node \<Rightarrow> bool" where
  "wf_node (Node i ps cs) \<longleftrightarrow> distinct_props ps \<and> distinct (map (\<lambda>c. nname (info c)) cs) \<and>
     (\<forall>c \<in> set cs. nname (info c) \<noteq> None \<and> (ndeleted (info c) \<longrightarrow> dead c) \<and> wf_node c)"

lemma wf_nodeD:
  assumes "wf_node n"
  shows "distinct_props (proplist n)" "distinct (map (\<lambda>c. nname (info c)) (children n))"
    "c \<in> set (children n) \<Longrightarrow> nname (info c) \<noteq> None \<and> (ndeleted (info c) \<longrightarrow> dead c) \<and> wf_node c"
  using assms by (cases n; auto)+

lemma wf_nodeI:
  assumes "distinct_props (proplist n)" "distinct (map (\<lambda>c. nname (info c)) (children n))"
    "\<And>c. c \<in> set (children n) \<Longrightarrow> nname (info c) \<noteq> None \<and> (ndeleted (info c) \<longrightarrow> dead c) \<and> wf_node c"
  shows "wf_node n"
  using assms by (cases n) auto

lemma child_named_SomeD: "child_named cs s = Some c \<Longrightarrow> c \<in> set cs \<and> nname (info c) = Some s"
  unfolding child_named_def by (auto simp: find_Some_iff)

lemma child_named_None_iff: "child_named cs s = None \<longleftrightarrow> Some s \<notin> (\<lambda>c. nname (info c)) ` set cs"
  unfolding child_named_def find_None_iff by (auto simp: image_iff)

lemma child_named_append: "child_named (cs @ [c]) s =
    (case child_named cs s of Some x \<Rightarrow> Some x | None \<Rightarrow> if nname (info c) = Some s then Some c else None)"
  by (induction cs) (auto simp: child_named_def)

lemma child_named_update:
  assumes "distinct (map (\<lambda>c. nname (info c)) cs)" "k < length cs" "nname (info (cs ! k)) = Some t" "nname (info c) = Some t"
  shows "child_named (cs[k := c]) s = (if s = t then Some c else child_named cs s)"
  using assms
proof (induction cs arbitrary: k)
  case (Cons x cs)
  show ?case
  proof (cases k)
    case 0
    then show ?thesis using Cons.prems by (auto simp: child_named_def)
  next
    case (Suc j)
    then have "cs ! j \<in> set cs" "nname (info (cs ! j)) = Some t" using Cons.prems by auto
    then have "nname (info x) \<noteq> Some t" using Cons.prems(1) by (auto simp: image_iff)
    moreover have "child_named (cs[j := c]) s = (if s = t then Some c else child_named cs s)"
      using Cons.prems Suc by (intro Cons.IH) auto
    ultimately show ?thesis using Suc by (auto simp: child_named_def)
  qed
qed simp

lemma find_named_spec:
  assumes "\<forall>c \<in> set cs. nname (info c) \<noteq> None"
  shows "case child_named cs s of
      None \<Rightarrow> find_named cs (Some s) = Some None
    | Some c \<Rightarrow> \<exists>k. find_named cs (Some s) = Some (Some k) \<and> k < length cs \<and> cs ! k = c"
  using assms
proof (induction cs)
  case (Cons x cs)
  then obtain nm where nm: "nname (info x) = Some nm" by auto
  then show ?case using Cons
    by (cases "nm = s") (auto simp: child_named_def name_eq_def split: option.splits)
qed (simp add: child_named_def)


lemma dead_view: "dead n \<Longrightarrow> view n path = (if path = [] then Some (\<lambda>s. None) else None)"
proof (cases path)
  case Nil
  assume "dead n"
  then show ?thesis using Nil props_map_deleted by (auto simp: dead_def)
next
  case (Cons s p)
  assume "dead n"
  then show ?thesis using Cons child_named_SomeD [of "children n" s]
    by (auto simp: dead_def list_all_iff split: option.splits)
qed


lemma merge_view_empty: "wf_node n \<Longrightarrow> merge_view (\<lambda>p. None) n path = view n path"
proof (induction path arbitrary: n)
  case Nil
  have "override_props (\<lambda>s. None) (proplist n) = props_map (proplist n)"
    using props_map_absent by (auto simp: override_props_def fun_eq_iff)
  then show ?case by simp
next
  case (Cons s path)
  then show ?case using wf_nodeD(3) [OF Cons.prems] child_named_SomeD [of "children n" s]
    by (auto split: option.splits)
qed

lemma merge_view_dead: "dead x \<Longrightarrow> merge_view (view x) n = merge_view (\<lambda>p. None) n"
proof
  fix path assume "dead x"
  then show "merge_view (view x) n path = merge_view (\<lambda>p. None) n path"
  proof (cases path)
    case (Cons a p)
    have "view x (a # q) = None" for q using dead_view [OF \<open>dead x\<close>, of "a # q"] by (simp del: view.simps)
    then show ?thesis using Cons by (auto simp del: view.simps split: option.split)
  qed (simp add: dead_view del: view.simps)
qed

lemma delete_node_sel [simp]:
  "ndeleted (info (delete_node n))" "nname (info (delete_node n)) = nname (info n)"
  "proplist (delete_node n) = map (\<lambda>p. if \<not> pdeleted p then delete_property p else p) (proplist n)"
  "children (delete_node n) = map (\<lambda>c. if \<not> ndeleted (info c) then delete_node c else c) (children n)"
  by (cases n; simp)+

lemma delete_node_dead: "dead (delete_node n)"
  by (auto simp: dead_def list_all_iff delete_property_def)

lemma delete_node_wf: "wf_node n \<Longrightarrow> wf_node (delete_node n)"
proof (induction n)
  case (Node i ps cs)
  have nm: "nname (info (if \<not> ndeleted (info c) then delete_node c else c)) = nname (info c)" for c by simp
  have pn: "pname (if \<not> pdeleted p then delete_property p else p) = pname p" for p by (simp add: delete_property_def)
  show ?case
  proof (rule wf_nodeI)
    show "distinct_props (proplist (delete_node (Node i ps cs)))" using Node.prems by (simp add: comp_def pn)
    show "distinct (map (\<lambda>c. nname (info c)) (children (delete_node (Node i ps cs))))"
      using Node.prems by (simp add: comp_def nm)
    show "nname (info x) \<noteq> None \<and> (ndeleted (info x) \<longrightarrow> dead x) \<and> wf_node x"
      if "x \<in> set (children (delete_node (Node i ps cs)))" for x
      using that Node delete_node_dead by (auto split: if_splits)
  qed
qed

text \<open>A child replaced by another with the same name.\<close>

lemma wf_replace:
  assumes n: "wf_node n" "k < length (children n)" "nname (info c) = nname (info (children n ! k))"
    and c: "wf_node c" "ndeleted (info c) \<longrightarrow> dead c"
  shows "wf_node (set_children ((children n)[k := c]) n)"
proof (rule wf_nodeI)
  note w = wf_nodeD [OF n(1)]
  show "distinct_props (proplist (set_children ((children n)[k := c]) n))" using w(1) by simp
  have "map (\<lambda>c. nname (info c)) ((children n)[k := c]) = map (\<lambda>c. nname (info c)) (children n)"
    using n(2,3) by (simp add: map_update list_update_same_conv)
  then show "distinct (map (\<lambda>c. nname (info c)) (children (set_children ((children n)[k := c]) n)))" using w(2) by simp
  fix x assume "x \<in> set (children (set_children ((children n)[k := c]) n))"
  then have "x = c \<or> x \<in> set (children n)" using set_update_subset_insert [of "children n" k c] by auto
  moreover have "children n ! k \<in> set (children n)" using n(2) by simp
  ultimately show "nname (info x) \<noteq> None \<and> (ndeleted (info x) \<longrightarrow> dead x) \<and> wf_node x"
    using w(3) c n(3) by auto
qed

lemma view_replace:
  assumes "wf_node n" "k < length (children n)" "nname (info (children n ! k)) = Some t" "nname (info c) = Some t"
  shows "view (set_children ((children n)[k := c]) n) (s # p) =
    (if s = t then if ndeleted (info c) then None else view c p else view n (s # p))"
  using child_named_update [OF wf_nodeD(2) [OF assms(1)] assms(2-4), of s] by simp

lemma wf_add:
  assumes "wf_node n" "wf_node c" "nname (info c) = Some t" "\<not> ndeleted (info c)" "child_named (children n) t = None"
  shows "wf_node (add_child n c)"
proof (rule wf_nodeI)
  note w = wf_nodeD [OF assms(1)]
  show "distinct_props (proplist (add_child n c))" using w(1) by (simp add: add_child_def)
  show "distinct (map (\<lambda>c. nname (info c)) (children (add_child n c)))"
    using w(2) assms(3,5) by (simp add: add_child_def child_named_None_iff)
  show "\<And>x. x \<in> set (children (add_child n c)) \<Longrightarrow> nname (info x) \<noteq> None \<and> (ndeleted (info x) \<longrightarrow> dead x) \<and> wf_node x"
    using w(3) assms by (auto simp: add_child_def)
qed

lemma view_add:
  assumes "nname (info c) = Some t" "\<not> ndeleted (info c)" "child_named (children n) t = None"
  shows "view (add_child n c) (s # p) = (if s = t then view c p else view n (s # p))"
  using assms by (auto simp: add_child_def child_named_append split: option.splits)


section \<open>Merging\<close>

definition children_ok :: "node list \<Rightarrow> bool" where
  "children_ok cs \<longleftrightarrow> distinct (map (\<lambda>c. nname (info c)) cs) \<and>
     (\<forall>c \<in> set cs. nname (info c) \<noteq> None \<and> (ndeleted (info c) \<longrightarrow> dead c) \<and> wf_node c)"

definition child_view ::
  "(cstring list \<Rightarrow> (cstring \<Rightarrow> data option) option) \<Rightarrow> node list \<Rightarrow> cstring \<Rightarrow> cstring list \<Rightarrow> (cstring \<Rightarrow> data option) option" where
  "child_view v cs s path =
     (case child_named cs s of
        None \<Rightarrow> v (s # path)
      | Some c \<Rightarrow> if ndeleted (info c) then None else merge_view (\<lambda>p. v (s # p)) c path)"

lemma merge_view_child: "merge_view v n (s # path) = child_view v (children n) s path"
  by (simp add: child_view_def)

definition merged_into :: "node \<Rightarrow> node list \<Rightarrow> node \<Rightarrow> bool" where
  "merged_into old cs m \<longleftrightarrow> wf_node m \<and> info m = info old \<and> proplist m = proplist old \<and>
     (\<forall>s path. view m (s # path) = child_view (view old) cs s path)"

lemma merged_into_step:
  assumes m: "merged_into old' cs m" and o: "info old' = info old" "proplist old' = proplist old"
    and c: "nname (info c) = Some t" "Some t \<notin> (\<lambda>c. nname (info c)) ` set cs"
    and v: "\<And>s p. view old' (s # p) = (if s = t then if ndeleted (info c) then None else merge_view (\<lambda>p. view old (t # p)) c p
              else view old (s # p))"
  shows "merged_into old (c # cs) m"
proof -
  have t: "child_named cs t = None" using c(2) by (simp add: child_named_None_iff)
  have "view m (s # path) = child_view (view old) (c # cs) s path" for s path
  proof (cases "s = t")
    case True
    have "view m (s # path) = view old' (s # path)" using m True t by (simp add: merged_into_def child_view_def del: view.simps)
    then show ?thesis using v [of s path] True c(1) by (simp add: child_view_def child_named_def del: view.simps)
  next
    case False
    then have n: "child_named (c # cs) s = child_named cs s" using c(1) by (simp add: child_named_def)
    have "view old' (s # p) = view old (s # p)" for p using v [of s p] False by (simp del: view.simps)
    then show ?thesis using m n by (auto simp: merged_into_def child_view_def simp del: view.simps split: option.split)
  qed
  then show ?thesis using m o by (simp add: merged_into_def del: view.simps)
qed

lemma delete_node_by_name_spec:
  assumes "wf_node n"
  shows "\<exists>m. delete_node_by_name n (Some t) = Some m \<and> wf_node m \<and> info m = info n \<and> proplist m = proplist n \<and>
    (\<forall>s p. view m (s # p) = (if s = t then None else view n (s # p)))"
proof -
  note w = wf_nodeD [OF assms]
  have nn: "\<forall>c \<in> set (children n). nname (info c) \<noteq> None" using w(3) by blast
  show ?thesis
  proof (cases "child_named (children n) t")
    case None
    then show ?thesis using find_named_spec [OF nn, of t] assms by (auto simp: delete_node_by_name_def)
  next
    case (Some x)
    then obtain k where k: "find_named (children n) (Some t) = Some (Some k)" "k < length (children n)" "children n ! k = x"
      using find_named_spec [OF nn, of t] by auto
    have x: "nname (info x) = Some t" "wf_node x" using child_named_SomeD [OF Some] w(3) by auto
    have "wf_node (set_children ((children n)[k := delete_node x]) n)"
      using k x delete_node_dead delete_node_wf by (intro wf_replace [OF assms]) auto
    then show ?thesis
      using view_replace [OF assms k(2), of t "delete_node x"] k x by (simp add: delete_node_by_name_def del: view.simps)
  qed
qed

text \<open>The part of \<open>merge_nodes\<close> that does not descend.\<close>

definition merge_top :: "node \<Rightarrow> node \<Rightarrow> node" where
  "merge_top old new =
     (let old = set_info (\<lambda>i. i\<lparr>ndeleted := False, nlabels := add_labels (nlabels i) (nlabels (info new))\<rparr>) old
      in set_props (merge_props (proplist old) (proplist new)) old)"

lemma merge_nodes_top: "merge_nodes old new = merge_children (merge_top old new) (children new)"
  by (simp add: merge_nodes.simps merge_top_def Let_def)

lemma merge_top_spec:
  assumes "wf_node old" "wf_node new"
  shows "wf_node (merge_top old new)" "\<not> ndeleted (info (merge_top old new))"
    "nname (info (merge_top old new)) = nname (info old)"
    "merged_into (merge_top old new) (children new) m \<Longrightarrow> view m = merge_view (view old) new"
proof -
  note p = merge_props_spec [OF wf_nodeD(1) [OF assms(1)] wf_nodeD(1) [OF assms(2)]]
  show "wf_node (merge_top old new)" using p(1) wf_nodeD(2,3) [OF assms(1)] by (intro wf_nodeI) (auto simp: merge_top_def)
  show "\<not> ndeleted (info (merge_top old new))" "nname (info (merge_top old new)) = nname (info old)"
    by (simp_all add: merge_top_def)
  assume m: "merged_into (merge_top old new) (children new) m"
  show "view m = merge_view (view old) new"
  proof
    fix path
    show "view m path = merge_view (view old) new path"
    proof (cases path)
      case Nil
      then show ?thesis using m p(2) by (simp add: merged_into_def merge_top_def)
    next
      case (Cons s q)
      have "view (merge_top old new) (s # q) = view old (s # q)" for q by (simp add: merge_top_def)
      then show ?thesis using m Cons
        by (auto simp: merged_into_def merge_view_child child_view_def simp del: view.simps merge_view.simps split: option.split)
    qed
  qed
qed

lemma merge_nodes_spec:
  "wf_node old \<Longrightarrow> wf_node new \<Longrightarrow> \<exists>m. merge_nodes old new = Some m \<and> wf_node m \<and>
     nname (info m) = nname (info old) \<and> \<not> ndeleted (info m) \<and> view m = merge_view (view old) new"
  "wf_node old \<Longrightarrow> children_ok cs \<Longrightarrow> \<exists>m. merge_children old cs = Some m \<and> merged_into old cs m"
proof (induction old new and old cs rule: merge_nodes_merge_children.induct)
  case (1 old new)
  note s = merge_top_spec [OF 1(2,3)]
  have "children_ok (children new)" using wf_nodeD(2,3) [OF 1(3)] by (auto simp: children_ok_def)
  then obtain m where m: "merge_children (merge_top old new) (children new) = Some m" "merged_into (merge_top old new) (children new) m"
    using 1(1) [OF refl refl] s(1) unfolding merge_top_def Let_def by blast
  have "wf_node m" "info m = info (merge_top old new)" using m(2) by (simp_all add: merged_into_def)
  then show ?case using m(1) s(2,3) s(4) [OF m(2)] by (simp add: merge_nodes_top)
next
  case (2 old)
  then show ?case by (auto simp: merge_children.simps merged_into_def child_view_def child_named_def)
next
  case (3 old c cs)
  have ok: "children_ok cs" "wf_node c" using 3(6) by (auto simp: children_ok_def)
  obtain t where t: "nname (info c) = Some t" "Some t \<notin> (\<lambda>c. nname (info c)) ` set cs" using 3(6) by (auto simp: children_ok_def)
  note w = wf_nodeD [OF 3(5)]
  have nn: "\<forall>c \<in> set (children old). nname (info c) \<noteq> None" using w(3) by blast
  consider "ndeleted (info c)" | "\<not> ndeleted (info c)" "child_named (children old) t = None"
    | x where "\<not> ndeleted (info c)" "child_named (children old) t = Some x" by fastforce
  then show ?case
  proof cases
    case 1
    obtain d where d: "delete_node_by_name old (nname (info c)) = Some d" "wf_node d" "info d = info old" "proplist d = proplist old"
      "\<And>s p. view d (s # p) = (if s = t then None else view old (s # p))"
      using delete_node_by_name_spec [OF 3(5), of t] t by metis
    obtain m where m: "merge_children d cs = Some m" "merged_into d cs m" using 3(1) [OF 1 d(1,2) ok(1)] by blast
    have "merged_into old (c # cs) m" using d(5) 1 by (intro merged_into_step [OF m(2) d(3,4) t]) (simp del: view.simps)
    then show ?thesis using m 1 d(1) by (simp add: merge_children.simps)
  next
    case 2
    have f: "find_named (children old) (nname (info c)) = Some None" using find_named_spec [OF nn, of t] 2 t by simp
    have z: "view old (t # p) = None" for p using 2(2) by simp
    obtain m where m: "merge_children (add_child old c) cs = Some m" "merged_into (add_child old c) cs m"
      using 3(2) [OF 2(1) f refl wf_add [OF 3(5) ok(2) t(1) 2] ok(1)] by blast
    have "merged_into old (c # cs) m"
      using view_add [OF t(1) 2] 2(1) z merge_view_empty [OF ok(2)]
      by (intro merged_into_step [OF m(2) _ _ t]) (simp_all add: add_child_def del: view.simps)
    then show ?thesis using m 2 f by (simp add: merge_children.simps)
  next
    case x: (3 x)
    obtain k where k: "find_named (children old) (nname (info c)) = Some (Some k)" "k < length (children old)" "children old ! k = x"
      using find_named_spec [OF nn, of t] x(2) t by auto
    have n: "nname (info x) = Some t" "ndeleted (info x) \<longrightarrow> dead x" "wf_node x"
      using child_named_SomeD [OF x(2)] w(3) by auto
    obtain y where y: "merge_nodes x c = Some y" "wf_node y" "nname (info y) = Some t" "\<not> ndeleted (info y)"
      "view y = merge_view (view x) c"
      using 3(3) [OF x(1) k(1) refl] k(3) n ok(2) by auto
    let ?o = "set_children ((children old)[k := y]) old"
    have "wf_node ?o" using k n y by (intro wf_replace [OF 3(5)]) auto
    then obtain m where m: "merge_children ?o cs = Some m" "merged_into ?o cs m"
      using 3(4) [OF x(1) k(1) refl _ _ ok(1)] y(1) k(3) by blast
    have "merge_view (view x) c = merge_view (\<lambda>p. view old (t # p)) c"
      using x(2) n(2) merge_view_dead [of x c] by (cases "ndeleted (info x)") simp_all
    then have "merged_into old (c # cs) m"
      using view_replace [OF 3(5) k(2) _ y(3)] k(3) n(1) x(1) y(4,5)
      by (intro merged_into_step [OF m(2) _ _ t]) (simp_all del: view.simps)
    then show ?thesis using m x(1) k y(1) by (simp add: merge_children.simps)
  qed
qed

section \<open>The top level of a source file\<close>

text \<open>The rules of \<open>devicetree\<close> in \<open>dtc-parser.y\<close> for a file that is no plugin: a root node merged into the tree, a node merged at a reference,
  with or without a label, \<open>/delete-node/\<close> and \<open>/omit-if-no-ref/\<close>. \<open>True\<close> is the error that the reference
  was not found, which leaves the tree as it is.\<close>

datatype toplevel = RootNode node | Override "cstring option" cstring node | DeleteNode cstring | OmitNoRef cstring

definition at_ref :: "node \<Rightarrow> cstring \<Rightarrow> (node \<Rightarrow> node option) \<Rightarrow> (bool \<times> node) option" where
  "at_ref t ref f = do {
     r \<leftarrow> get_node_by_ref t ref;
     (case r of
        None \<Rightarrow> Some (True, t)
      | Some r \<Rightarrow> do {
          n \<leftarrow> node_at t r;
          n \<leftarrow> f n;
          Some (False, map_at (\<lambda>_. n) r t) }) }"

fun apply_toplevel :: "toplevel \<Rightarrow> node \<Rightarrow> (bool \<times> node) option" where
  "apply_toplevel (RootNode new) t = map_option (Pair False) (merge_nodes t new)"
| "apply_toplevel (Override l ref new) t = at_ref t ref (\<lambda>target.
     merge_nodes (case l of None \<Rightarrow> target | Some l \<Rightarrow> set_info (\<lambda>i. i\<lparr>nlabels := add_label (nlabels i) l\<rparr>) target) new)"
| "apply_toplevel (DeleteNode ref) t = at_ref t ref (\<lambda>target. Some (delete_node target))"
| "apply_toplevel (OmitNoRef ref) t = at_ref t ref (\<lambda>target. Some (omit_node_if_unused target))"

text \<open>A definition that has, by itself, no duplicate names. The grammar does not demand this: \<open>dtc-parser.y\<close> builds a node with two
  properties or two children of one name, which only the checks reject.\<close>

fun toplevel_ok :: "toplevel \<Rightarrow> bool" where
  "toplevel_ok (RootNode new) \<longleftrightarrow> wf_node new"
| "toplevel_ok (Override l ref new) \<longleftrightarrow> ref \<noteq> [] \<and> wf_node new"
| "toplevel_ok (DeleteNode ref) \<longleftrightarrow> ref \<noteq> []"
| "toplevel_ok (OmitNoRef ref) \<longleftrightarrow> ref \<noteq> []"

inductive parsed :: "node \<Rightarrow> node \<Rightarrow> bool" for start where
  parsed_start: "parsed start start"
| parsed_step: "parsed start t \<Longrightarrow> toplevel_ok d \<Longrightarrow> apply_toplevel d t = Some (e, t') \<Longrightarrow> parsed start t'"

text \<open>A reference along nodes that are not deleted.\<close>

fun live_ref :: "node \<Rightarrow> noderef \<Rightarrow> bool" where
  "live_ref n [] \<longleftrightarrow> True"
| "live_ref n (i # r) \<longleftrightarrow> i < length (children n) \<and> \<not> ndeleted (info (children n ! i)) \<and> live_ref (children n ! i) r"

lemma live_ref_node: "live_ref n r \<Longrightarrow> \<exists>m. node_at n r = Some m"
  by (induction n r rule: live_ref.induct) auto

lemma live_ref_wf: "wf_node n \<Longrightarrow> live_ref n r \<Longrightarrow> node_at n r = Some m \<Longrightarrow> wf_node m"
proof (induction n r rule: live_ref.induct)
  case (2 n i r)
  then show ?case using wf_nodeD(3) [OF 2(2), of "children n ! i"] by auto
qed simp

lemma first_child_live:
  "first_child k (map (\<lambda>c. (\<not> ndeleted (info c), f c)) cs) = Some (ref, x) \<Longrightarrow>
   \<exists>i r. ref = (k + i) # r \<and> i < length cs \<and> \<not> ndeleted (info (cs ! i)) \<and> f (cs ! i) = Some (r, x)"
proof (induction cs arbitrary: k)
  case (Cons c cs)
  show ?case
  proof (cases "\<exists>r y. f c = Some (r, y) \<and> \<not> ndeleted (info c)")
    case True
    then show ?thesis using Cons.prems by (intro exI [of _ 0]) auto
  next
    case False
    then have "first_child (Suc k) (map (\<lambda>c. (\<not> ndeleted (info c), f c)) cs) = Some (ref, x)"
      using Cons.prems by (auto split: option.splits)
    from Cons.IH [OF this] obtain i r where "ref = (Suc k + i) # r" "i < length cs" "\<not> ndeleted (info (cs ! i))" "f (cs ! i) = Some (r, x)"
      by blast
    then show ?thesis by (intro exI [of _ "Suc i"]) auto
  qed
qed simp

lemma by_label_live: "by_label n l = Some (r, x) \<Longrightarrow> live_ref n r"
proof (induction n arbitrary: r)
  case (Node i ps cs)
  then show ?case using first_child_live [of 0 "\<lambda>c. by_label c l" cs r] by (fastforce split: if_splits)
qed

definition live_child :: "nat \<Rightarrow> node list \<Rightarrow> noderef \<Rightarrow> bool" where
  "live_child k cs r \<longleftrightarrow> (\<exists>i q. r = (k + i) # q \<and> i < length cs \<and> \<not> ndeleted (info (cs ! i)) \<and> live_ref (cs ! i) q)"

lemma live_child_later: "live_child (Suc k) cs r \<Longrightarrow> live_child k (c # cs) r"
  unfolding live_child_def by (force intro: exI [of _ "Suc _"])

lemma live_child_here: "\<not> ndeleted (info c) \<Longrightarrow> live_ref c q \<Longrightarrow> live_child k (c # cs) (k # q)"
  unfolding live_child_def by (intro exI [of _ 0]) simp

lemma live_child_root: "live_child 0 (children n) r \<Longrightarrow> live_ref n r"
  by (auto simp: live_child_def)

lemma get_node_by_path_live:
  "get_node_by_path n path = Some (Some r) \<Longrightarrow> live_ref n r"
  "path_children k cs path = Some (Some r) \<Longrightarrow> live_child k cs r"
proof (induction n path and k cs path arbitrary: r and r rule: get_node_by_path_path_children.induct)
  case (1 tree path)
  then show ?case using live_child_root by (auto simp: get_node_by_path.simps split: if_splits)
next
  case (2 k path)
  then show ?case by (simp add: path_children.simps)
next
  case (3 k c cs path)
  let ?first = "takeWhile (\<lambda>c. c \<noteq> chr (CHR ''/'')) path"
  show ?case
  proof (cases "ndeleted (info c)")
    case True
    then show ?thesis using 3(1) 3(4) live_child_later by (simp add: path_children.simps)
  next
    case False
    then obtain nm where nm: "nname (info c) = Some nm" using 3(4) by (cases "nname (info c)") (auto simp: path_children.simps)
    consider "length ?first < length path \<and> ?first = nm" | "length ?first = length path \<and> path = nm"
      | "\<not> (length ?first < length path \<and> ?first = nm)" "\<not> (length ?first = length path \<and> path = nm)" by blast
    then show ?thesis
    proof cases
      case 1
      then obtain q where "r = k # q" "get_node_by_path c (drop (Suc (length ?first)) path) = Some (Some q)"
        using 3(4) False nm by (auto simp: path_children.simps Let_def split: bind_splits)
      then show ?thesis using 3(2) [OF False nm refl 1] live_child_here [OF False] by blast
    next
      case 2
      then have "r = [k]" using 3(4) False nm by (auto simp: path_children.simps Let_def)
      then show ?thesis using live_child_here [OF False, of "[]"] by simp
    next
      case 3
      then have "path_children (Suc k) cs path = Some (Some r)" using \<open>path_children k (c # cs) path = Some (Some r)\<close> False nm
        by (auto simp: path_children.simps Let_def)
      then show ?thesis using "3.IH"(3) [OF False nm refl 3] live_child_later by blast
    qed
  qed
qed

lemma get_node_by_ref_live: "get_node_by_ref t ref = Some (Some r) \<Longrightarrow> live_ref t r"
  using by_label_live get_node_by_path_live(1)
  by (fastforce simp: get_node_by_ref_def get_node_by_label_def split: if_splits)

text \<open>Replacing the node at a reference.\<close>

lemma wf_map_at:
  assumes "wf_node t" "live_ref t r" "node_at t r = Some n" "wf_node m" "nname (info m) = nname (info n)"
    "r \<noteq> [] \<Longrightarrow> ndeleted (info m) \<longrightarrow> dead m"
  shows "wf_node (map_at (\<lambda>_. m) r t) \<and> nname (info (map_at (\<lambda>_. m) r t)) = nname (info t) \<and>
    (r \<noteq> [] \<longrightarrow> ndeleted (info (map_at (\<lambda>_. m) r t)) = ndeleted (info t))"
  using assms(1-3,6)
proof (induction r arbitrary: t)
  case (Cons i r)
  let ?c = "children t ! i"
  have i: "i < length (children t)" "\<not> ndeleted (info ?c)" "live_ref ?c r" "node_at ?c r = Some n" using Cons.prems by simp_all
  have w: "wf_node ?c" using wf_nodeD(3) [OF Cons.prems(1)] i(1) by simp
  have h: "wf_node (map_at (\<lambda>_. m) r ?c)" "nname (info (map_at (\<lambda>_. m) r ?c)) = nname (info ?c)"
    "r \<noteq> [] \<longrightarrow> ndeleted (info (map_at (\<lambda>_. m) r ?c)) = ndeleted (info ?c)"
    using Cons.IH [OF w i(3,4)] Cons.prems(4) by simp_all
  have "ndeleted (info (map_at (\<lambda>_. m) r ?c)) \<longrightarrow> dead (map_at (\<lambda>_. m) r ?c)"
    using h(3) i(2) Cons.prems(4) by (cases "r = []") auto
  then have "wf_node (set_children ((children t)[i := map_at (\<lambda>_. m) r ?c]) t)"
    using h i by (intro wf_replace [OF Cons.prems(1)]) auto
  then show ?case using i(1) by (simp add: set_children_def)
qed (use assms(4,5) in auto)

lemma live_ref_target: "live_ref t r \<Longrightarrow> r \<noteq> [] \<Longrightarrow> node_at t r = Some n \<Longrightarrow> \<not> ndeleted (info n)"
proof (induction t r rule: live_ref.induct)
  case (2 t i r)
  then show ?case by (cases "r = []") auto
qed simp

lemma get_node_by_path_defined:
  "wf_node t \<Longrightarrow> get_node_by_path t path \<noteq> None"
  "\<forall>c \<in> set cs. nname (info c) \<noteq> None \<and> wf_node c \<Longrightarrow> path_children k cs path \<noteq> None"
proof (induction t path and k cs path rule: get_node_by_path_path_children.induct)
  case (1 tree path)
  then show ?case using wf_nodeD(3) [OF 1(2)] by (auto simp: get_node_by_path.simps)
next
  case (2 k path)
  then show ?case by (simp add: path_children.simps)
next
  case (3 k c cs path)
  then obtain nm where nm: "nname (info c) = Some nm" by auto
  let ?first = "takeWhile (\<lambda>c. c \<noteq> chr (CHR ''/'')) path"
  have wf: "wf_node c" "\<forall>c \<in> set cs. nname (info c) \<noteq> None \<and> wf_node c" using 3(4) by auto
  show ?case
  proof (cases "ndeleted (info c) \<or> \<not> (length ?first < length path \<and> ?first = nm) \<and> \<not> (length ?first = length path \<and> path = nm)")
    case True
    then have "path_children (Suc k) cs path \<noteq> None" using 3(1) [OF _ wf(2)] 3(3) [OF _ nm refl _ _ wf(2)] by blast
    then show ?thesis using True nm by (auto simp: path_children.simps Let_def)
  next
    case False
    then have "get_node_by_path c (drop (Suc (length ?first)) path) \<noteq> None" if "length ?first < length path \<and> ?first = nm"
      using 3(2) [OF _ nm refl that wf(1)] by blast
    then show ?thesis using False nm by (auto simp: path_children.simps Let_def)
  qed
qed

lemma get_node_by_ref_defined: "wf_node t \<Longrightarrow> ref \<noteq> [] \<Longrightarrow> get_node_by_ref t ref \<noteq> None"
  using get_node_by_path_defined(1) by (auto simp: get_node_by_ref_def get_node_by_label_def)

lemma at_ref_spec:
  assumes t: "wf_node t" "ref \<noteq> []"
    and f: "\<And>n. wf_node n \<Longrightarrow> \<exists>m. f n = Some m \<and> wf_node m \<and> nname (info m) = nname (info n) \<and>
      (ndeleted (info m) \<longrightarrow> dead m \<or> ndeleted (info n))"
  shows "\<exists>e t'. at_ref t ref f = Some (e, t') \<and> wf_node t'"
proof -
  obtain r where r: "get_node_by_ref t ref = Some r" using get_node_by_ref_defined [OF t] by blast
  show ?thesis
  proof (cases r)
    case None
    then show ?thesis using r t by (intro exI [of _ True] exI [of _ t]) (simp add: at_ref_def)
  next
    case (Some q)
    then have l: "live_ref t q" using r get_node_by_ref_live by blast
    then obtain n where n: "node_at t q = Some n" using live_ref_node by blast
    obtain m where m: "f n = Some m" "wf_node m" "nname (info m) = nname (info n)" "ndeleted (info m) \<longrightarrow> dead m \<or> ndeleted (info n)"
      using f [OF live_ref_wf [OF t(1) l n]] by blast
    have "wf_node (map_at (\<lambda>_. m) q t)"
      using wf_map_at [OF t(1) l n m(2,3)] m(4) live_ref_target [OF l _ n] by blast
    then show ?thesis using r Some n m by (intro exI [of _ False] exI [of _ "map_at (\<lambda>_. m) q t"]) (simp add: at_ref_def)
  qed
qed

lemma apply_toplevel_spec:
  assumes "wf_node t" "toplevel_ok d"
  shows "\<exists>e t'. apply_toplevel d t = Some (e, t') \<and> wf_node t'"
proof (cases d)
  case (RootNode new)
  then show ?thesis using merge_nodes_spec(1) [OF assms(1), of new] assms(2) by auto
next
  case (Override l ref new)
  show ?thesis unfolding Override apply_toplevel.simps
  proof (rule at_ref_spec [OF assms(1)])
    show "ref \<noteq> []" using assms(2) Override by simp
    fix n assume n: "wf_node n"
    let ?n = "case l of None \<Rightarrow> n | Some l \<Rightarrow> set_info (\<lambda>i. i\<lparr>nlabels := add_label (nlabels i) l\<rparr>) n"
    have "wf_node ?n" "nname (info ?n) = nname (info n)" using n by (cases n; auto simp: node_updates split: option.splits)+
    then show "\<exists>m. merge_nodes ?n new = Some m \<and> wf_node m \<and> nname (info m) = nname (info n) \<and>
        (ndeleted (info m) \<longrightarrow> dead m \<or> ndeleted (info n))"
      using merge_nodes_spec(1) [of ?n new] assms(2) Override by auto
  qed
next
  case (DeleteNode ref)
  then show ?thesis
    using at_ref_spec [OF assms(1), of ref "\<lambda>n. Some (delete_node n)"] assms(2) delete_node_dead delete_node_wf by simp
next
  case (OmitNoRef ref)
  have "wf_node (omit_node_if_unused n)" if "wf_node n" for n using that by (cases n) (simp add: omit_node_if_unused_def node_updates)
  then show ?thesis
    using OmitNoRef at_ref_spec [OF assms(1), of ref "\<lambda>n. Some (omit_node_if_unused n)"] assms(2)
    by (simp add: omit_node_if_unused_def)
qed


section \<open>Properties\<close>

definition sample_data :: data where
  "sample_data = \<lparr>dlen = 1, dval = [Some 7], dmarkers = []\<rparr>"

definition plain_node :: "cstring \<Rightarrow> property list \<Rightarrow> node list \<Rightarrow> node" where
  "plain_node n ps cs = Node (zero_info\<lparr>nname := Some n\<rparr>) ps cs"

definition base_tree :: node where
  "base_tree = plain_node [] [build_property (cstr ''model'') empty_data]
     [plain_node (cstr ''cpus'') [build_property (cstr ''x'') empty_data] [], plain_node (cstr ''memory'') [] []]"

definition overlay_tree :: node where
  "overlay_tree = plain_node [] [build_property_delete (cstr ''model'')]
     [plain_node (cstr ''cpus'') [build_property (cstr ''reg'') sample_data] [],
      Node (zero_info\<lparr>nname := Some (cstr ''memory''), ndeleted := True\<rparr>) [] []]"

lemma sample_trees_wf: "wf_node base_tree" "wf_node overlay_tree"
  by (simp_all add: base_tree_def overlay_tree_def plain_node_def dead_def build_property_def build_property_delete_def cstr_def zero_info_def)

text \<open>C9: Merging a tree over another one overrides it: \<open>merge_nodes\<close> always succeeds on well-formed trees,
  keeps them well formed, and the merged tree has at every path what the new tree
  says there, a new value, a deletion of a property or of a whole node, and otherwise what
  the old tree had. A deleted node that comes back starts empty.\<close>

theorem merge_nodes_overlays:
  assumes "wf_node old" "wf_node new"
  shows "\<exists>m. merge_nodes old new = Some m \<and> wf_node m \<and> nname (info m) = nname (info old) \<and>
    \<not> ndeleted (info m) \<and> (\<forall>path. view m path = merge_view (view old) new path)"
  using merge_nodes_spec(1) [OF assms] by auto

theorem merge_nodes_overlays_witness:
  "\<exists>m vs. merge_nodes base_tree overlay_tree = Some m \<and> view m [cstr ''cpus''] = Some vs \<and>
     vs (cstr ''x'') = Some empty_data \<and> vs (cstr ''reg'') = Some sample_data \<and> view m [cstr ''memory''] = None"
proof -
  obtain m where m: "merge_nodes base_tree overlay_tree = Some m" "\<And>p. view m p = merge_view (view base_tree) overlay_tree p"
    using merge_nodes_overlays [OF sample_trees_wf] by auto
  have "\<exists>vs. merge_view (view base_tree) overlay_tree [cstr ''cpus''] = Some vs \<and>
      vs (cstr ''x'') = Some empty_data \<and> vs (cstr ''reg'') = Some sample_data"
    "merge_view (view base_tree) overlay_tree [cstr ''memory''] = None"
    by (simp_all add: base_tree_def overlay_tree_def plain_node_def child_named_def cstr_def override_props_def
        build_property_def build_property_delete_def zero_info_def)
  then show ?thesis using m(1) m(2) [symmetric] by metis
qed

text \<open>C10: Putting the definitions of a source file together introduces no duplicates. If the first tree and each
  definition that is merged into it have, taken by themselves, no two properties and no two children of a node with the same name (the
  grammar accepts such definitions; the checks reject them later), and each deleted node in them has only deleted contents, then after any sequence of nodes
  merged at the root or at references, labelled, deleted or marked, the same holds for the whole tree, although the definitions may well name the same properties and
  nodes; and the next definition of this kind can be applied without failing.\<close>

theorem parsed_tree_wf:
  assumes "parsed start t" "wf_node start"
  shows "wf_node t \<and> (\<forall>d. toplevel_ok d \<longrightarrow> (\<exists>e t'. apply_toplevel d t = Some (e, t')))"
proof -
  have "wf_node t" using assms
  proof (induction rule: parsed.induct)
    case (parsed_step t d e t')
    then show ?case using apply_toplevel_spec [of t d] by auto
  qed
  then show ?thesis using apply_toplevel_spec by blast
qed

theorem parsed_tree_wf_witness:
  "\<exists>e t. apply_toplevel (DeleteNode (cstr ''/cpus'')) base_tree = Some (e, t) \<and> parsed base_tree t \<and> wf_node t"
proof -
  have ok: "toplevel_ok (DeleteNode (cstr ''/cpus''))" by (simp add: cstr_def)
  have p: "parsed base_tree base_tree" by (rule parsed_start)
  obtain e t where t: "apply_toplevel (DeleteNode (cstr ''/cpus'')) base_tree = Some (e, t)"
    using parsed_tree_wf [OF p sample_trees_wf(1)] ok by blast
  have "parsed base_tree t" by (rule parsed_step [OF p ok t])
  then show ?thesis using t parsed_tree_wf [OF _ sample_trees_wf(1)] by blast
qed

end
