(* ===== verification/Dtc_Sort.thy ===== *)
theory Dtc_Sort
  imports Dtc_Merge "HOL-Library.Multiset"
begin

text \<open>
  Sorting a live tree (\<open>sort_tree\<close> of \<open>livetree.c\<close>): what \<open>qsort\<close> needs of the comparison functions, and that only
  the order changes.
\<close>

section \<open>Comparison functions\<close>

text \<open>What \<open>qsort\<close> relies on: on the elements it is given, the comparison is total and transitive.\<close>

locale comparator =
  fixes cmp :: "'a \<Rightarrow> 'a \<Rightarrow> int" and ok :: "'a \<Rightarrow> bool"
  assumes cmp_total: "ok x \<Longrightarrow> ok y \<Longrightarrow> cmp x y \<le> 0 \<or> cmp y x \<le> 0"
    and cmp_trans: "ok x \<Longrightarrow> ok y \<Longrightarrow> ok z \<Longrightarrow> cmp x y \<le> 0 \<Longrightarrow> cmp y z \<le> 0 \<Longrightarrow> cmp x z \<le> 0"
begin

lemma insert_by_sorted:
  "sorted_wrt (\<lambda>x y. cmp x y \<le> 0) ys \<Longrightarrow> ok x \<Longrightarrow> list_all ok ys \<Longrightarrow>
   sorted_wrt (\<lambda>x y. cmp x y \<le> 0) (insert_by cmp x ys)"
proof (induction ys)
  case (Cons y ys)
  show ?case
  proof (cases "cmp x y \<le> 0")
    case True
    then have "cmp x z \<le> 0" if "z \<in> set ys" for z
      using cmp_trans [of x y z] Cons.prems that by (auto simp: list_all_iff)
    then show ?thesis using True Cons.prems by simp
  next
    case False
    then have "cmp y x \<le> 0" using cmp_total [of x y] Cons.prems by simp
    then show ?thesis using False Cons by (simp add: set_insert_by)
  qed
qed simp

lemma qsort_sorted: "list_all ok xs \<Longrightarrow> sorted_wrt (\<lambda>x y. cmp x y \<le> 0) (qsort cmp xs)"
proof (induction xs)
  case (Cons x xs)
  moreover have "list_all ok (qsort cmp xs)" using Cons.prems set_qsort [of cmp xs] by (simp add: list_all_iff)
  ultimately show ?case using insert_by_sorted by (simp add: qsort_def)
qed (simp add: qsort_def)

end

lemma mset_insert_by: "mset (insert_by cmp x ys) = add_mset x (mset ys)"
  by (induction ys) auto

lemma mset_qsort: "mset (qsort cmp xs) = mset xs"
  by (induction xs) (simp_all add: qsort_def mset_insert_by)

lemma strcmp_sign:
  "0 \<notin> set s \<Longrightarrow> 0 \<notin> set t \<Longrightarrow> (strcmp s t < 0 \<longleftrightarrow> strcmp t s > 0) \<and> (strcmp s t = 0 \<longleftrightarrow> s = t)"
proof (induction s t rule: strcmp.induct)
  case (2 y ys)
  then have "uint y \<noteq> 0" by (simp add: uint_0_iff)
  then show ?case using byte_range(1) [of y] by auto
next
  case (3 x xs)
  then have "uint x \<noteq> 0" by (simp add: uint_0_iff)
  then show ?case using byte_range(1) [of x] by auto
next
  case (4 x xs y ys)
  then show ?case by (cases "x = y") (auto simp: word_uint_eq_iff)
qed simp

lemma strcmp_trans:
  "0 \<notin> set s \<Longrightarrow> 0 \<notin> set t \<Longrightarrow> 0 \<notin> set u \<Longrightarrow> strcmp s t \<le> 0 \<Longrightarrow> strcmp t u \<le> 0 \<Longrightarrow> strcmp s u \<le> 0"
proof (induction s arbitrary: t u)
  case Nil
  then show ?case by (cases t; cases u) auto
next
  case (Cons x xs)
  show ?case
  proof (cases t)
    case Nil
    then show ?thesis using Cons.prems byte_range(1) [of x] by (simp add: uint_0_iff order_antisym)
  next
    case t: (Cons y ys)
    show ?thesis
    proof (cases u)
      case Nil
      then show ?thesis using Cons.prems t byte_range(1) [of y] by (simp add: uint_0_iff order_antisym)
    next
      case u: (Cons z zs)
      then show ?thesis using Cons.prems t Cons.IH [of ys zs] by (auto simp: word_uint_eq_iff split: if_splits)
    qed
  qed
qed


lemma strcmp_total: "0 \<notin> set s \<Longrightarrow> 0 \<notin> set t \<Longrightarrow> strcmp s t \<le> 0 \<or> strcmp t s \<le> 0"
  using strcmp_sign [of s t] by linarith

definition node_name_ok :: "node \<Rightarrow> bool" where
  "node_name_ok n \<longleftrightarrow> (case nname (info n) of None \<Rightarrow> False | Some s \<Rightarrow> 0 \<notin> set s)"

interpretation by_address: comparator cmp_reserve_info "\<lambda>r. True"
  by unfold_locales (auto simp: cmp_reserve_info_def split: if_splits)

interpretation by_prop_name: comparator cmp_prop "\<lambda>p. 0 \<notin> set (pname p)"
proof unfold_locales
  fix x y z :: property
  assume ok: "0 \<notin> set (pname x)" "0 \<notin> set (pname y)"
  then show "cmp_prop x y \<le> 0 \<or> cmp_prop y x \<le> 0" unfolding cmp_prop_def by (rule strcmp_total)
  assume "0 \<notin> set (pname z)" "cmp_prop x y \<le> 0" "cmp_prop y z \<le> 0"
  then show "cmp_prop x z \<le> 0" using ok strcmp_trans unfolding cmp_prop_def by blast
qed

interpretation by_node_name: comparator cmp_subnode node_name_ok
proof unfold_locales
  fix x y z
  assume "node_name_ok x" "node_name_ok y"
  then have ok: "0 \<notin> set (the (nname (info x)))" "0 \<notin> set (the (nname (info y)))"
    by (auto simp: node_name_ok_def split: option.splits)
  then show "cmp_subnode x y \<le> 0 \<or> cmp_subnode y x \<le> 0" unfolding cmp_subnode_def by (rule strcmp_total)
  assume "node_name_ok z" and c: "cmp_subnode x y \<le> 0" "cmp_subnode y z \<le> 0"
  then have "0 \<notin> set (the (nname (info z)))" by (auto simp: node_name_ok_def split: option.splits)
  then show "cmp_subnode x z \<le> 0" using strcmp_trans [OF ok] c by (simp add: cmp_subnode_def)
qed

section \<open>Sorting a tree\<close>

fun names_ok :: "node \<Rightarrow> bool" where
  "names_ok (Node i ps cs) \<longleftrightarrow> list_all (\<lambda>p. 0 \<notin> set (pname p)) ps \<and> (\<forall>c \<in> set cs. node_name_ok c \<and> names_ok c)"

fun sorted_node :: "node \<Rightarrow> bool" where
  "sorted_node (Node i ps cs) \<longleftrightarrow> sorted_wrt (\<lambda>a b. cmp_prop a b \<le> 0) ps \<and>
     sorted_wrt (\<lambda>a b. cmp_subnode a b \<le> 0) cs \<and> (\<forall>c \<in> set cs. sorted_node c)"

lemma option_eqI: "(\<And>v. x = Some v \<longleftrightarrow> y = Some v) \<Longrightarrow> x = y"
  by (metis option.exhaust)

lemma props_map_iff:
  "distinct_props ps \<Longrightarrow> props_map ps s = Some v \<longleftrightarrow> (\<exists>p \<in> set ps. \<not> pdeleted p \<and> pname p = s \<and> pval p = v)"
proof (induction ps)
  case (Cons p ps)
  then show ?case using props_map_absent [of "pname p" ps] by auto
qed simp

lemma props_map_perm:
  assumes "mset ps = mset qs" "distinct_props ps"
  shows "props_map ps = props_map qs"
proof
  fix s
  have "mset (map pname ps) = mset (map pname qs)" using assms(1) by simp
  then have d: "distinct_props qs" using assms(2) mset_eq_imp_distinct_iff by blast
  have "set ps = set qs" using assms(1) by (metis set_mset_mset)
  then have "props_map ps s = Some v \<longleftrightarrow> props_map qs s = Some v" for v
    unfolding props_map_iff [OF assms(2)] props_map_iff [OF d] by simp
  then show "props_map ps s = props_map qs s" by (rule option_eqI)
qed

lemma child_named_iff:
  assumes "distinct (map (\<lambda>c. nname (info c)) cs)"
  shows "child_named cs s = Some c \<longleftrightarrow> c \<in> set cs \<and> nname (info c) = Some s"
  using assms
proof (induction cs)
  case (Cons x cs)
  then show ?case by (auto simp: child_named_def image_iff)
qed (simp add: child_named_def)


text \<open>\<open>sort_node\<close> on a node: the node that comes out.\<close>

definition sorts_to :: "node \<Rightarrow> node \<Rightarrow> bool" where
  "sorts_to n m \<longleftrightarrow> sorted_node m \<and> wf_node m \<and> info m = info n \<and> (dead n \<longrightarrow> dead m) \<and> view m = view n"

lemma sorted_children:
  assumes "list_all2 sorts_to cs ds" "sorted_wrt (\<lambda>a b. cmp_subnode a b \<le> 0) cs"
  shows "sorted_wrt (\<lambda>a b. cmp_subnode a b \<le> 0) ds" "map info ds = map info cs" "\<forall>d \<in> set ds. sorted_node d \<and> wf_node d"
proof -
  show i: "map info ds = map info cs"
    using assms(1) by (induction cs ds rule: list_all2_induct) (auto simp: sorts_to_def)
  have "cmp_subnode a b = strcmp (the (nname (info a))) (the (nname (info b)))" for a b by (simp add: cmp_subnode_def)
  then have "sorted_wrt (\<lambda>a b. cmp_subnode a b \<le> 0) xs \<longleftrightarrow>
      sorted_wrt (\<lambda>i j. strcmp (the (nname i)) (the (nname j)) \<le> 0) (map info xs)" for xs
    by (simp add: sorted_wrt_map)
  then show "sorted_wrt (\<lambda>a b. cmp_subnode a b \<le> 0) ds" using assms(2) i by simp
  show "\<forall>d \<in> set ds. sorted_node d \<and> wf_node d"
    using assms(1) by (induction cs ds rule: list_all2_induct) (auto simp: sorts_to_def)
qed

lemma sorted_view:
  assumes "list_all2 sorts_to cs ds" "distinct (map (\<lambda>c. nname (info c)) cs)"
  shows "(case child_named ds s of None \<Rightarrow> None | Some d \<Rightarrow> if ndeleted (info d) then None else view d p) =
    (case child_named cs s of None \<Rightarrow> None | Some c \<Rightarrow> if ndeleted (info c) then None else view c p)"
  using assms
proof (induction cs ds rule: list_all2_induct)
  case (Cons c cs d ds)
  then have "info d = info c" "view d = view c" by (simp_all add: sorts_to_def)
  then show ?case using Cons by (auto simp: child_named_def)
qed (simp add: child_named_def)

lemma those_sorted: "\<forall>c \<in> set cs. \<exists>m. sort_node c = Some m \<and> sorts_to c m \<Longrightarrow>
    \<exists>ds. those (map sort_node cs) = Some ds \<and> list_all2 sorts_to cs ds"
  by (induction cs) auto

lemma child_named_perm:
  assumes "mset cs = mset ds" "distinct (map (\<lambda>c. nname (info c)) cs)"
  shows "child_named cs s = child_named ds s"
proof -
  have "mset (map (\<lambda>c. nname (info c)) cs) = mset (map (\<lambda>c. nname (info c)) ds)" using assms(1) by simp
  then have d: "distinct (map (\<lambda>c. nname (info c)) ds)" using assms(2) mset_eq_imp_distinct_iff by blast
  have "set cs = set ds" using assms(1) by (metis set_mset_mset)
  then have "child_named cs s = Some c \<longleftrightarrow> child_named ds s = Some c" for c
    unfolding child_named_iff [OF assms(2)] child_named_iff [OF d] by simp
  then show ?thesis by (rule option_eqI)
qed

lemma map_by_info: "map (\<lambda>c. nname (info c)) cs = map nname (map info cs)"
  by simp

lemma list_all2_right: "list_all2 P xs ys \<Longrightarrow> y \<in> set ys \<Longrightarrow> \<exists>x \<in> set xs. P x y"
  by (induction xs ys rule: list_all2_induct) auto

lemma sort_node_spec: "wf_node n \<Longrightarrow> names_ok n \<Longrightarrow> \<exists>m. sort_node n = Some m \<and> sorts_to n m"
proof (induction n)
  case (Node i ps cs)
  let ?ps = "qsort cmp_prop ps" and ?cs = "qsort cmp_subnode cs"
  have w: "distinct_props ps" "distinct (map (\<lambda>c. nname (info c)) cs)"
    "\<forall>c \<in> set cs. nname (info c) \<noteq> None \<and> (ndeleted (info c) \<longrightarrow> dead c) \<and> wf_node c"
    using Node.prems(1) by auto
  have mp: "mset ?ps = mset ps" and mc: "mset ?cs = mset cs" by (rule mset_qsort)+
  have n: "list_all (\<lambda>p. 0 \<notin> set (pname p)) ps" "list_all node_name_ok cs" "\<forall>c \<in> set cs. names_ok c"
    using Node.prems(2) by (auto simp: list_all_iff)
  have "\<forall>c \<in> set ?cs. \<exists>m. sort_node c = Some m \<and> sorts_to c m" using Node.IH w(3) n(3) by auto
  then obtain ds where ds: "those (map sort_node ?cs) = Some ds" "list_all2 sorts_to ?cs ds" using those_sorted by blast
  note s = sorted_children [OF ds(2) by_node_name.qsort_sorted [OF n(2)]]
  have dc: "distinct (map (\<lambda>c. nname (info c)) ?cs)"
    using w(2) mc mset_eq_imp_distinct_iff [of "map (\<lambda>c. nname (info c)) ?cs" "map (\<lambda>c. nname (info c)) cs"] by simp
  have dp: "distinct_props ?ps" using w(1) mp mset_eq_imp_distinct_iff [of "map pname ?ps" "map pname ps"] by simp
  let ?m = "Node i ?ps ds"
  have "view ?m path = view (Node i ps cs) path" for path
  proof (cases path)
    case Nil
    then show ?thesis using props_map_perm [OF mp dp] by simp
  next
    case (Cons t p)
    then show ?thesis using sorted_view [OF ds(2) dc, where s = t and p = p] child_named_perm [OF mc dc, of t] by simp
  qed
  moreover have "wf_node ?m"
  proof (rule wf_nodeI)
    show "distinct (map (\<lambda>c. nname (info c)) (children ?m))" using dc s(2) by (simp add: map_by_info)
    show "nname (info d) \<noteq> None \<and> (ndeleted (info d) \<longrightarrow> dead d) \<and> wf_node d" if "d \<in> set (children ?m)" for d
    proof -
      obtain c where "c \<in> set cs" "sorts_to c d" using list_all2_right [OF ds(2)] \<open>d \<in> set (children ?m)\<close> by auto
      then show ?thesis using w(3) by (auto simp: sorts_to_def)
    qed
  qed (use dp in simp)
  moreover have "dead ?m" if "dead (Node i ps cs)"
  proof -
    have "ndeleted (info d)" if "d \<in> set ds" for d
      using list_all2_right [OF ds(2) that] \<open>dead (Node i ps cs)\<close> by (auto simp: dead_def list_all_iff sorts_to_def)
    then show ?thesis using that by (auto simp: dead_def list_all_iff)
  qed
  ultimately have "sorts_to (Node i ps cs) ?m"
    using by_prop_name.qsort_sorted [OF n(1)] s by (auto simp: sorts_to_def)
  moreover have "list_ex (\<lambda>c. nname (info c) = None) cs = False" using w(3) by (auto simp: list_ex_iff)
  then have "sort_node (Node i ps cs) = Some ?m"
    using ds(1) by (simp add: sort_node.simps sort_properties_def sort_subnodes_def node_updates)
  ultimately show ?case by blast
qed

text \<open>C33: \<open>sort_tree\<close> (\<open>dtc -s\<close>) changes only the order. For a tree whose names are C strings and whose nodes are
  well-formed it does not fault; the reserve entries come out ordered by address and size and are the
  same ones with the same multiplicity, every property list and every list of subnodes in the tree is ordered by
  name, and every path leads to the same properties with the same values as before.\<close>

theorem sort_tree_only_reorders:
  assumes "wf_node (dt dti)" "names_ok (dt dti)"
  shows "\<exists>dti'. sort_tree dti = Some dti' \<and> view (dt dti') = view (dt dti) \<and> sorted_node (dt dti') \<and>
    mset (reservelist dti') = mset (reservelist dti) \<and> sorted_wrt (\<lambda>a b. cmp_reserve_info a b \<le> 0) (reservelist dti')"
proof -
  obtain m where m: "sort_node (dt dti) = Some m" "sorts_to (dt dti) m" using sort_node_spec [OF assms] by blast
  moreover have "list_all (\<lambda>r. True) (reservelist dti)" by (simp add: list_all_iff)
  note by_address.qsort_sorted [OF this]
  ultimately show ?thesis by (simp add: sort_tree_def sort_reserve_entries_def sorts_to_def mset_qsort)
qed

definition unsorted_info :: dt_info where
  "unsorted_info = build_dt_info 0
     [\<lparr>raddress = 4096, rsize = 16, rlabels = []\<rparr>, \<lparr>raddress = 0, rsize = 8, rlabels = []\<rparr>]
     (Node (zero_info\<lparr>nname := Some []\<rparr>)
       [build_property (cstr ''b'') empty_data, build_property (cstr ''a'') sample_data]
       [Node (zero_info\<lparr>nname := Some (cstr ''n2'')\<rparr>) [] [], Node (zero_info\<lparr>nname := Some (cstr ''n1'')\<rparr>) [] []]) 0"

theorem sort_tree_only_reorders_witness:
  "\<exists>dti'. sort_tree unsorted_info = Some dti' \<and> view (dt dti') [] = view (dt unsorted_info) [] \<and> sorted_node (dt dti') \<and>
     dt dti' \<noteq> dt unsorted_info"
proof -
  have "wf_node (dt unsorted_info)" "names_ok (dt unsorted_info)"
    by (simp_all add: unsorted_info_def build_dt_info_def build_property_def zero_info_def cstr_def node_name_ok_def)
  then obtain dti' where d: "sort_tree unsorted_info = Some dti'" "view (dt dti') = view (dt unsorted_info)" "sorted_node (dt dti')"
    using sort_tree_only_reorders [of unsorted_info] by blast
  moreover have "\<not> sorted_node (dt unsorted_info)"
    by (simp add: unsorted_info_def build_dt_info_def build_property_def zero_info_def cstr_def cmp_prop_def)
  ultimately show ?thesis by metis
qed

end
