(* ===== verification/Dtc_Srcpos.thy ===== *)
theory Dtc_Srcpos
  imports Dtc_Util
begin

text \<open>
  Source files and positions, \<open>srcpos.c\<close>: the stack of included files, the search path, positions and the comments made from
  them, and the states the program can reach by opening and leaving files.
\<close>

section \<open>Source files\<close>

record srcfile =
  sname :: cstring
  sdir :: "cstring option"
  lineno :: int
  colno :: int

text \<open>The static variables: the stack of open files (the first is \<open>current_srcfile\<close>, the others are behind its \<open>prev\<close>), the
  depth counter, the search path, what is known of the first file, and the text of the dependency file if there is one.\<close>

record src_state =
  srcfiles :: "srcfile list"
  srcfile_depth :: int
  search_path :: "cstring list"
  initial_path :: "cstring option"
  initial_pathlen :: int
  initial_cpp :: bool
  depfile :: "cstring option"

definition src_init :: src_state where
  "src_init = \<lparr>srcfiles = [], srcfile_depth = 0, search_path = [], initial_path = None, initial_pathlen = 0, initial_cpp = True, depfile = None\<rparr>"

abbreviation (input) MAX_SRCFILE_DEPTH :: int where "MAX_SRCFILE_DEPTH \<equiv> 200"

definition get_dirname :: "cstring \<Rightarrow> cstring option" where
  "get_dirname path = map_option fst (split_last (chr (CHR ''/'')) path)"

definition set_initial_path :: "cstring \<Rightarrow> src_state \<Rightarrow> src_state" where
  "set_initial_path fname st =
     st\<lparr>initial_path := Some fname, initial_pathlen := int (length (filter (\<lambda>c. c = chr (CHR ''/'')) fname))\<rparr>"

text \<open>The common start of two strings.\<close>

fun common :: "cstring \<Rightarrow> cstring \<Rightarrow> cstring" where
  "common (a # s) (b # t) = (if a = b then a # common s t else [])"
| "common _ _ = []"

text \<open>\<open>NULL\<close> when the two paths have no directory in common; without a first file the loop reads through \<open>NULL\<close>.\<close>

definition shorten_to_initial_path :: "src_state \<Rightarrow> cstring \<Rightarrow> cstring option option" where
  "shorten_to_initial_path st fname = do {
     ip \<leftarrow> initial_path st;
     let pre = common fname ip;
     let slashes = int (length (filter (\<lambda>c. c = chr (CHR ''/'')) pre));
     Some (case split_last (chr (CHR ''/'')) pre of
         None \<Rightarrow> None
       | Some (dir, rest) \<Rightarrow>
           Some (concat (replicate (nat (initial_pathlen st - slashes)) (cstr ''../'')) @ drop (length dir + 1) fname)) }"

text \<open>Opening a file: \<open>opens\<close> says which names can be opened. The result is the full name.\<close>

definition try_open :: "(cstring \<Rightarrow> bool) \<Rightarrow> cstring option \<Rightarrow> cstring \<Rightarrow> cstring option" where
  "try_open opens dirname fname =
     (let fullname = (case dirname of
            Some d \<Rightarrow> if fname \<noteq> [] \<and> hd fname = chr (CHR ''/'') then fname else join_path d fname
          | None \<Rightarrow> fname)
      in if opens fullname then Some fullname else None)"

fun try_path :: "(cstring \<Rightarrow> bool) \<Rightarrow> cstring list \<Rightarrow> cstring \<Rightarrow> cstring option" where
  "try_path opens [] fname = None"
| "try_path opens (d # ds) fname = (case try_open opens (Some d) fname of Some f \<Rightarrow> Some f | None \<Rightarrow> try_path opens ds fname)"

definition fopen_any_on_path :: "(cstring \<Rightarrow> bool) \<Rightarrow> cstring \<Rightarrow> src_state \<Rightarrow> cstring option" where
  "fopen_any_on_path opens fname st =
     (let cur_dir = (case srcfiles st of [] \<Rightarrow> None | f # fs \<Rightarrow> sdir f)
      in case try_open opens cur_dir fname of Some f \<Rightarrow> Some f | None \<Rightarrow> try_path opens (search_path st) fname)"

definition srcfile_relative_open :: "(cstring \<Rightarrow> bool) \<Rightarrow> cstring \<Rightarrow> src_state \<Rightarrow> (cstring \<times> src_state) option" where
  "srcfile_relative_open opens fname st = do {
     fullname \<leftarrow> (if fname = cstr ''-'' then Some (cstr ''<stdin>'') else fopen_any_on_path opens fname st);
     Some (fullname, st\<lparr>depfile := map_option (\<lambda>t. t @ cstr '' '' @ fullname) (depfile st)\<rparr>) }"

definition srcfile_push :: "(cstring \<Rightarrow> bool) \<Rightarrow> cstring \<Rightarrow> src_state \<Rightarrow> src_state option" where
  "srcfile_push opens fname st =
     (if srcfile_depth st \<ge> MAX_SRCFILE_DEPTH then None
      else do {
        let st = st\<lparr>srcfile_depth := srcfile_depth st + 1\<rparr>;
        (name, st) \<leftarrow> srcfile_relative_open opens fname st;
        let st = st\<lparr>srcfiles := \<lparr>sname = name, sdir = get_dirname name, lineno = 1, colno = 1\<rparr> # srcfiles st\<rparr>;
        Some (if srcfile_depth st = 1 then set_initial_path name st else st) })"

text \<open>Closing a file does not fail.\<close>

definition srcfile_pop :: "src_state \<Rightarrow> (bool \<times> src_state) option" where
  "srcfile_pop st = (case srcfiles st of [] \<Rightarrow> None | f # fs \<Rightarrow> Some (fs \<noteq> [], st\<lparr>srcfiles := fs\<rparr>))"

definition srcfile_add_search_path :: "cstring \<Rightarrow> src_state \<Rightarrow> src_state" where
  "srcfile_add_search_path dirname st = st\<lparr>search_path := search_path st @ [dirname]\<rparr>"

section \<open>Positions\<close>

text \<open>A chain of positions, linked by \<open>next\<close>, is a list. The file of a position is kept as it was when the position was taken,
  which is what \<open>srcpos_copy\<close> arranges.\<close>

record srcpos =
  first_line :: int
  first_column :: int
  last_line :: int
  last_column :: int
  pfile :: "srcfile option"

fun count_text :: "cstring \<Rightarrow> int \<times> int \<Rightarrow> int \<times> int" where
  "count_text [] (l, c) = (l, c)"
| "count_text (x # xs) (l, c) = count_text xs (if x = 10 then (l + 1, 1) else (l, c + 1))"

definition srcpos_update :: "cstring \<Rightarrow> src_state \<Rightarrow> (srcpos \<times> src_state) option" where
  "srcpos_update txt st =
     (case srcfiles st of
        [] \<Rightarrow> None
      | f # fs \<Rightarrow>
          let (l, c) = count_text txt (lineno f, colno f); f' = f\<lparr>lineno := l, colno := c\<rparr>
          in Some (\<lparr>first_line = lineno f, first_column = colno f, last_line = l, last_column = c, pfile = Some f'\<rparr>,
                   st\<lparr>srcfiles := f' # fs\<rparr>))"

definition srcpos_copy :: "srcpos list \<Rightarrow> srcpos list option" where
  "srcpos_copy pos = (case pos of [] \<Rightarrow> Some [] | [p] \<Rightarrow> if pfile p = None then None else Some [p] | _ \<Rightarrow> None)"

definition srcpos_extend :: "srcpos list \<Rightarrow> srcpos list \<Rightarrow> srcpos list" where
  "srcpos_extend pos newtail = pos @ newtail"

definition srcpos_string :: "srcpos \<Rightarrow> cstring" where
  "srcpos_string p =
     (let fname = (case pfile p of Some f \<Rightarrow> sname f | None \<Rightarrow> cstr ''<no-file>'')
      in if first_line p \<noteq> last_line p then
           fname @ cstr '':'' @ print_int (first_line p) @ cstr ''.'' @ print_int (first_column p) @ cstr ''-'' @
           print_int (last_line p) @ cstr ''.'' @ print_int (last_column p)
         else if first_column p \<noteq> last_column p then
           fname @ cstr '':'' @ print_int (first_line p) @ cstr ''.'' @ print_int (first_column p) @ cstr ''-'' @ print_int (last_column p)
         else fname @ cstr '':'' @ print_int (first_line p) @ cstr ''.'' @ print_int (first_column p))"

definition comment_part :: "src_state \<Rightarrow> bool \<Rightarrow> int \<Rightarrow> srcpos \<Rightarrow> cstring option" where
  "comment_part st first level p = do {
     fname \<leftarrow> (case pfile p of
         None \<Rightarrow> Some (cstr ''<no-file>'')
       | Some f \<Rightarrow>
           if level > 1 then Some (sname f)
           else do {
             short \<leftarrow> shorten_to_initial_path st (sname f);
             Some (case short of Some s \<Rightarrow> s | None \<Rightarrow> sname f) });
     Some (if level > 1 then
         fname @ cstr '':'' @ print_int (first_line p) @ cstr '':'' @ print_int (first_column p) @ cstr ''-'' @
         print_int (last_line p) @ cstr '':'' @ print_int (last_column p)
       else fname @ cstr '':'' @ print_int (if first then first_line p else last_line p)) }"

fun comment_parts :: "src_state \<Rightarrow> bool \<Rightarrow> int \<Rightarrow> srcpos list \<Rightarrow> cstring option" where
  "comment_parts st first level [] = Some []"
| "comment_parts st first level (p # ps) = do {
     x \<leftarrow> comment_part st first level p;
     if ps = [] then Some x
     else do { rest \<leftarrow> comment_parts st first level ps; Some (x @ cstr '', '' @ rest) } }"

text \<open>The outer \<open>None\<close> is a fault, the inner one the result \<open>NULL\<close>.\<close>

definition srcpos_string_comment :: "src_state \<Rightarrow> srcpos list \<Rightarrow> bool \<Rightarrow> int \<Rightarrow> cstring option option" where
  "srcpos_string_comment st pos first level =
     (if pos = [] then Some (if level > 1 then Some (cstr ''<no-file>:<no-line>'') else None)
      else map_option Some (comment_parts st first level pos))"

definition srcpos_string_first :: "src_state \<Rightarrow> srcpos list \<Rightarrow> int \<Rightarrow> cstring option option" where
  "srcpos_string_first st pos level = srcpos_string_comment st pos True level"

definition srcpos_string_last :: "src_state \<Rightarrow> srcpos list \<Rightarrow> int \<Rightarrow> cstring option option" where
  "srcpos_string_last st pos level = srcpos_string_comment st pos False level"

definition srcpos_set_line :: "cstring \<Rightarrow> int \<Rightarrow> src_state \<Rightarrow> src_state option" where
  "srcpos_set_line name l st =
     (case srcfiles st of
        [] \<Rightarrow> None
      | f # fs \<Rightarrow>
          let st = st\<lparr>srcfiles := f\<lparr>sname := name, lineno := l\<rparr> # fs\<rparr>
          in Some (if initial_cpp st then set_initial_path name (st\<lparr>initial_cpp := False\<rparr>) else st))"

section \<open>A run of the lexer over its files\<close>

text \<open>The steps the program takes: \<open>-i\<close> options, files that are opened by \<open>/include/\<close> and left at their end, tokens, and line markers; each
  with the number of files it opens.\<close>

inductive src_step :: "(cstring \<Rightarrow> bool) \<Rightarrow> src_state \<Rightarrow> nat \<Rightarrow> src_state \<Rightarrow> bool" for opens where
  step_path: "src_step opens st 0 (srcfile_add_search_path d st)"
| step_push: "srcfile_push opens f st = Some st' \<Longrightarrow> src_step opens st 1 st'"
| step_pop: "srcfile_pop st = Some (open_files, st') \<Longrightarrow> src_step opens st 0 st'"
| step_token: "srcpos_update txt st = Some (pos, st') \<Longrightarrow> src_step opens st 0 st'"
| step_line: "srcpos_set_line name l st = Some st' \<Longrightarrow> src_step opens st 0 st'"

inductive_cases src_stepE: "src_step opens st k st'"

text \<open>The states that can be reached, with the number of files that have been opened.\<close>

inductive src_run :: "(cstring \<Rightarrow> bool) \<Rightarrow> nat \<Rightarrow> src_state \<Rightarrow> bool" for opens where
  run_start: "src_run opens 0 src_init"
| run_step: "src_run opens n st \<Longrightarrow> src_step opens st k st' \<Longrightarrow> src_run opens (n + k) st'"

section \<open>Counting lines and files\<close>

lemma count_text_append: "count_text (xs @ ys) p = count_text ys (count_text xs p)"
  by (induction xs p rule: count_text.induct) auto

text \<open>The position behind a text: lines are counted by newlines, columns from the last one.\<close>

lemma count_text_spec: "count_text xs (l, c) =
    (l + int (length (filter (\<lambda>x. x = 10) xs)),
     if 10 \<in> set xs then 1 + int (length (takeWhile (\<lambda>x. x \<noteq> 10) (rev xs))) else c + int (length xs))"
proof (induction xs rule: rev_induct)
  case (snoc x xs)
  then show ?case by (auto simp: count_text_append)
qed simp

lemma push_facts:
  assumes "srcfile_push opens f st = Some st'"
  shows "srcfile_depth st < 200" "srcfile_depth st' = srcfile_depth st + 1" "length (srcfiles st') = length (srcfiles st) + 1"
    "srcfile_depth st = 0 \<or> initial_path st \<noteq> None \<Longrightarrow> initial_path st' \<noteq> None"
  using assms by (auto simp: srcfile_push_def srcfile_relative_open_def set_initial_path_def Let_def split: if_splits Option.bind_splits)

lemma step_facts:
  assumes "src_step opens st k st'"
  shows "srcfile_depth st' = srcfile_depth st + int k" "length (srcfiles st') \<le> length (srcfiles st) + k"
    "k \<noteq> 0 \<Longrightarrow> srcfile_depth st < 200" "srcfile_depth st = 0 \<and> k \<noteq> 0 \<or> initial_path st \<noteq> None \<Longrightarrow> initial_path st' \<noteq> None"
proof -
  have "srcfile_depth st' = srcfile_depth st + int k \<and> length (srcfiles st') \<le> length (srcfiles st) + k \<and>
      (k \<noteq> 0 \<longrightarrow> srcfile_depth st < 200) \<and> (srcfile_depth st = 0 \<and> k \<noteq> 0 \<or> initial_path st \<noteq> None \<longrightarrow> initial_path st' \<noteq> None)"
    using assms
  proof cases
    case (step_push f)
    then show ?thesis using push_facts [OF step_push(2)] by auto
  qed (auto simp: srcfile_add_search_path_def srcfile_pop_def srcpos_update_def srcpos_set_line_def set_initial_path_def Let_def
      split: list.splits prod.splits if_splits)
  then show "srcfile_depth st' = srcfile_depth st + int k" "length (srcfiles st') \<le> length (srcfiles st) + k"
    "k \<noteq> 0 \<Longrightarrow> srcfile_depth st < 200" "srcfile_depth st = 0 \<and> k \<noteq> 0 \<or> initial_path st \<noteq> None \<Longrightarrow> initial_path st' \<noteq> None" by auto
qed

text \<open>C31: The counter that guards against endless inclusion counts the files that were ever opened, not the ones that are open: in
  every reachable state it is the number of files opened so far, at least the number of open files and at most 200, and
  once 200 files were opened the next one is refused, however few are still open. Once a file was opened, the path that names in comments are
  shortened against is set.\<close>

theorem include_depth_counts_files:
  assumes "src_run opens n st"
  shows "srcfile_depth st = int n \<and> length (srcfiles st) \<le> n \<and> n \<le> 200 \<and> (n \<noteq> 0 \<longrightarrow> initial_path st \<noteq> None) \<and>
    (n = 200 \<longrightarrow> (\<forall>f. srcfile_push opens f st = None))"
proof -
  have "srcfile_depth st = int n \<and> length (srcfiles st) \<le> n \<and> n \<le> 200 \<and> (n \<noteq> 0 \<longrightarrow> initial_path st \<noteq> None)"
    using assms
  proof (induction rule: src_run.induct)
    case run_start
    then show ?case by (simp add: src_init_def)
  next
    case (run_step n st k st')
    note s = step_facts [OF run_step.hyps(2)]
    have "n + k \<le> 200" using s(3) run_step.IH run_step.hyps(2) by (auto elim!: src_stepE)
    then show ?case using run_step.IH s(1,2,4) by auto
  qed
  then show ?thesis by (auto simp: srcfile_push_def)
qed

text \<open>A main file with up to 199 includes, each at its end before the next one starts.\<close>

lemma push_any:
  assumes "srcfile_depth st < 200"
  shows "\<exists>f st'. srcfile_push (\<lambda>_. True) (cstr ''f'') st = Some st' \<and> srcfiles st' = f # srcfiles st"
proof -
  obtain nm where "fopen_any_on_path (\<lambda>_. True) (cstr ''f'') (st\<lparr>srcfile_depth := srcfile_depth st + 1\<rparr>) = Some nm"
    by (simp add: fopen_any_on_path_def try_open_def Let_def)
  moreover have "cstr ''f'' \<noteq> cstr ''-''" by (simp add: cstr_def)
  ultimately show ?thesis using assms
    by (simp add: srcfile_push_def srcfile_relative_open_def Let_def set_initial_path_def)
qed

lemma run_in_sequence: "n < 200 \<Longrightarrow> \<exists>st f. src_run (\<lambda>_. True) (Suc n) st \<and> srcfiles st = [f] \<and> srcfile_depth st = int (Suc n)"
proof (induction n)
  case 0
  obtain f st where 1: "srcfile_push (\<lambda>_. True) (cstr ''f'') src_init = Some st" "srcfiles st = [f]"
    using push_any [of src_init] by (auto simp: src_init_def)
  have "src_run (\<lambda>_. True) (0 + 1) st" by (rule run_step [OF run_start step_push [OF 1(1)]])
  then show ?case using 1(2) push_facts(2) [OF 1(1)] by (auto simp: src_init_def)
next
  case (Suc n)
  then obtain st f where st: "src_run (\<lambda>_. True) (Suc n) st" "srcfiles st = [f]" "srcfile_depth st = int (Suc n)" by auto
  obtain g st' where 1: "srcfile_push (\<lambda>_. True) (cstr ''f'') st = Some st'" "srcfiles st' = [g, f]"
    using push_any [of st] Suc.prems st(2,3) by auto
  have "src_run (\<lambda>_. True) (Suc n + 1) st'" by (rule run_step [OF st(1) step_push [OF 1(1)]])
  moreover have "srcfile_pop st' = Some (True, st'\<lparr>srcfiles := [f]\<rparr>)" using 1(2) by (simp add: srcfile_pop_def)
  ultimately have "src_run (\<lambda>_. True) (Suc n + 1 + 0) (st'\<lparr>srcfiles := [f]\<rparr>)" using run_step step_pop by blast
  then show ?case using push_facts(2) [OF 1(1)] st(3) by (intro exI [of _ "st'\<lparr>srcfiles := [f]\<rparr>"] exI [of _ f]) simp
qed

theorem include_depth_counts_files_witness:
  "\<exists>st f. src_run (\<lambda>_. True) 200 st \<and> srcfiles st = [f] \<and> srcfile_push (\<lambda>_. True) (cstr ''last.dtsi'') st = None"
proof -
  obtain st f where st: "src_run (\<lambda>_. True) 200 st" "srcfiles st = [f]" using run_in_sequence [of 199] by auto
  then show ?thesis using include_depth_counts_files [OF st(1)] by blast
qed

end
