(* ===== verification/Dtc_Fstree.thy ===== *)
theory Dtc_Fstree
  imports Dtc_Livetree
begin

text \<open>
  Reading a tree from a directory, \<open>fstree.c\<close>: files are properties, directories are nodes.
\<close>

text \<open>What \<open>readdir\<close> finds, in its order: a file with its bytes, or none if it cannot be opened; a directory with its entries, or none if it
  cannot be opened; anything else.\<close>

datatype fs_entry = Reg cstring "u8 list option" | Dir cstring "fs_entry list option" | Special cstring

definition is_dot :: "cstring \<Rightarrow> bool" where
  "is_dot name \<longleftrightarrow> name = cstr ''.'' \<or> name = cstr ''..''"

text \<open>The loop of \<open>read_fstree\<close> over the entries of one directory; \<open>None\<close> is \<open>die\<close>.\<close>

fun read_entries :: "node \<Rightarrow> fs_entry list \<Rightarrow> node option" where
  "read_entries tree [] = Some tree"
| "read_entries tree (Reg name bytes # es) =
     (if is_dot name then read_entries tree es
      else (case bytes of
              None \<Rightarrow> read_entries tree es
            | Some xs \<Rightarrow> do {
                d \<leftarrow> data_copy_file \<lparr>fbytes = xs, feof = False\<rparr> (int (length xs));
                read_entries (add_property tree (build_property name d)) es }))"
| "read_entries tree (Dir name sub # es) =
     (if is_dot name then read_entries tree es
      else (case sub of
              None \<Rightarrow> None
            | Some xs \<Rightarrow> do {
                newchild \<leftarrow> read_entries (build_node [] []) xs;
                newchild \<leftarrow> name_node newchild name;
                read_entries (add_child tree newchild) es }))"
| "read_entries tree (Special name # es) = read_entries tree es"

definition read_fstree :: "fs_entry list option \<Rightarrow> node option" where
  "read_fstree dir = do { es \<leftarrow> dir; read_entries (build_node [] []) es }"

abbreviation (input) FS_DTSF_V1 :: int where "FS_DTSF_V1 \<equiv> 1"

definition dt_from_fs :: "fs_entry list option \<Rightarrow> dt_info option" where
  "dt_from_fs dir = do {
     tree \<leftarrow> read_fstree dir;
     tree \<leftarrow> name_node tree [];
     cpu \<leftarrow> guess_boot_cpuid tree;
     Some (build_dt_info FS_DTSF_V1 [] tree cpu) }"

end
