(* ===== verification/Dtc_Treesource.thy ===== *)
theory Dtc_Treesource
  imports Dtc_Livetree
begin

text \<open>
  Source output, \<open>treesource.c\<close>, without annotations: what is written is a list of bytes, \<open>None\<close> is a failed assertion or a read outside of
  a value. Strings that are written are read back by the lexer's \<open>data_copy_escape_string\<close>.
\<close>

section \<open>Characters and numbers\<close>

definition write_prefix :: "nat \<Rightarrow> cstring" where
  "write_prefix level = replicate level 9"

definition isstring :: "u8 \<Rightarrow> bool" where
  "isstring c \<longleftrightarrow> isprint c \<or> c = 0 \<or> c \<in> set [7, 8, 9, 10, 11, 12, 13]"

text \<open>The conversion \<open>%0<width>x\<close> of a number of up to 64 bits.\<close>

definition hex_text :: "nat \<Rightarrow> int \<Rightarrow> cstring" where
  "hex_text width n = (let ds = digits 16 (nat n) in replicate (width - length ds) (chr (CHR ''0'')) @ ds)"

abbreviation (input) BACKSLASH :: u8 where "BACKSLASH \<equiv> 0x5c"
abbreviation (input) QUOTE :: u8 where "QUOTE \<equiv> 0x22"

text \<open>One character of a string. The last case is \<open>fprintf(f, "\\x%02"PRIx8, c)\<close> with a plain \<open>char\<close>. As on x86, a \<open>char\<close> is
  signed, and as in glibc \<open>PRIx8\<close> is \<open>"x"\<close>: a byte from 0x80 on is a negative \<open>int\<close>, and is written with the eight
  digits of its 32 bits.\<close>

definition write_char :: "u8 \<Rightarrow> cstring" where
  "write_char c =
     (if c = 7 then BACKSLASH # cstr ''a''
      else if c = 8 then BACKSLASH # cstr ''b''
      else if c = 9 then BACKSLASH # cstr ''t''
      else if c = 10 then BACKSLASH # cstr ''n''
      else if c = 11 then BACKSLASH # cstr ''v''
      else if c = 12 then BACKSLASH # cstr ''f''
      else if c = 13 then BACKSLASH # cstr ''r''
      else if c = BACKSLASH then [BACKSLASH, BACKSLASH]
      else if c = QUOTE then [BACKSLASH, QUOTE]
      else if c = 0 then BACKSLASH # cstr ''0''
      else if isprint c then [c]
      else BACKSLASH # chr (CHR ''x'') # hex_text 2 (u32 (sint c)))"

definition write_propval_string :: "u8 list \<Rightarrow> cstring option" where
  "write_propval_string s =
     (if s = [] then Some []
      else if last s \<noteq> 0 then None
      else Some (QUOTE # concat (map write_char (butlast s)) @ [QUOTE]))"

definition big_endian :: "u8 list \<Rightarrow> int" where
  "big_endian = foldl (\<lambda>a b. a * 256 + uint b) 0"

definition int_text :: "nat \<Rightarrow> u8 list \<Rightarrow> cstring" where
  "int_text width s = (if width = 1 then hex_text 2 (big_endian s) else cstr ''0x'' @ hex_text 2 (big_endian s))"

fun ints_loop :: "nat \<Rightarrow> u8 list \<Rightarrow> cstring" where
  "ints_loop width s =
     (if s = [] \<or> width = 0 then []
      else int_text width (take width s) @ (if width < length s then [chr (CHR '' '')] else []) @ ints_loop width (drop width s))"

declare ints_loop.simps [simp del]

definition write_propval_int :: "u8 list \<Rightarrow> nat \<Rightarrow> cstring option" where
  "write_propval_int s width = (if length s mod width \<noteq> 0 then None else Some (ints_loop width s))"

section \<open>The type of a value\<close>

definition has_data_type_information :: "marker \<Rightarrow> bool" where
  "has_data_type_information m \<longleftrightarrow> mtype m \<in> set [TYPE_UINT8, TYPE_UINT16, TYPE_UINT32, TYPE_UINT64, TYPE_STRING]"

fun next_type_marker :: "marker list \<Rightarrow> marker option" where
  "next_type_marker [] = None"
| "next_type_marker (m # ms) = (if has_data_type_information m then Some m else next_type_marker ms)"

text \<open>The marker \<open>m\<close> and the markers behind it.\<close>

definition type_marker_length :: "marker \<Rightarrow> marker list \<Rightarrow> int" where
  "type_marker_length m rest = (case next_type_marker rest of Some n \<Rightarrow> u32 (moffset n - moffset m) | None \<Rightarrow> 0)"

fun delim_start :: "markertype \<Rightarrow> cstring" where
  "delim_start TYPE_UINT8 = cstr ''[''"
| "delim_start TYPE_UINT16 = cstr ''/bits/ 16 <''"
| "delim_start TYPE_UINT32 = cstr ''<''"
| "delim_start TYPE_UINT64 = cstr ''/bits/ 64 <''"
| "delim_start _ = []"

fun delim_end :: "markertype \<Rightarrow> cstring" where
  "delim_end TYPE_UINT8 = cstr '']''"
| "delim_end TYPE_UINT16 = cstr ''>''"
| "delim_end TYPE_UINT32 = cstr ''>''"
| "delim_end TYPE_UINT64 = cstr ''>''"
| "delim_end _ = []"

text \<open>Bytes of a value; reading a byte that was never written is a fault, like reading outside of the allocation.\<close>

definition bytes_at :: "raw \<Rightarrow> int \<Rightarrow> int \<Rightarrow> u8 list option" where
  "bytes_at v p n = do {
     xs \<leftarrow> peek v p n;
     if None \<in> set xs then None else Some (map the xs) }"

definition byte_at :: "raw \<Rightarrow> int \<Rightarrow> u8 option" where
  "byte_at v p = do { b \<leftarrow> at v p; b }"

text \<open>The number of labels that do not follow a NUL, and of those not at a cell.\<close>

fun count_labels :: "raw \<Rightarrow> marker list \<Rightarrow> (nat \<times> nat) option" where
  "count_labels v [] = Some (0, 0)"
| "count_labels v (m # ms) =
     (if mtype m \<noteq> LABEL then count_labels v ms
      else do {
        str \<leftarrow> (if moffset m > 0 then do { c \<leftarrow> byte_at v (moffset m - 1); Some (c \<noteq> 0) } else Some False);
        (nnotstringlbl, nnotcelllbl) \<leftarrow> count_labels v ms;
        Some ((if str then nnotstringlbl + 1 else nnotstringlbl),
              (if moffset m mod 4 \<noteq> 0 then nnotcelllbl + 1 else nnotcelllbl)) })"

definition guess_value_type :: "property \<Rightarrow> markertype option" where
  "guess_value_type p = do {
     let len = s32 (dlen (pval p));
     s \<leftarrow> (if len < 0 then Some [] else bytes_at (dval (pval p)) 0 len);
     let nnotstring = length (filter (\<lambda>c. \<not> isstring c) s);
     let nnul = length (filter (\<lambda>c. c = 0) s);
     (nnotstringlbl, nnotcelllbl) \<leftarrow> count_labels (dval (pval p)) (dmarkers (pval p));
     z \<leftarrow> byte_at (dval (pval p)) (len - 1);
     Some (if z = 0 \<and> nnotstring = 0 \<and> int nnul \<le> len - int nnul \<and> nnotstringlbl = 0 then TYPE_STRING
           else if u64 len mod 4 = 0 \<and> nnotcelllbl = 0 then TYPE_UINT32
           else TYPE_UINT8) }"

section \<open>Values\<close>

definition write_chunk :: "markertype \<Rightarrow> u8 list \<Rightarrow> cstring option" where
  "write_chunk emit_type s =
     (case emit_type of
        TYPE_UINT16 \<Rightarrow> write_propval_int s 2
      | TYPE_UINT32 \<Rightarrow> write_propval_int s 4
      | TYPE_UINT64 \<Rightarrow> write_propval_int s 8
      | TYPE_STRING \<Rightarrow> write_propval_string s
      | _ \<Rightarrow> write_propval_int s 1)"

text \<open>What is written in front of the chunk of a marker.\<close>

definition marker_head :: "marker \<Rightarrow> cstring option" where
  "marker_head m =
     (if has_data_type_information m then Some (chr (CHR '' '') # delim_start (mtype m))
      else if mtype m = LABEL then do { l \<leftarrow> mref m; Some (chr (CHR '' '') # l @ cstr '':'') }
      else Some (if moffset m \<noteq> 0 then [chr (CHR '' '')] else []))"

fun propval_loop :: "data \<Rightarrow> markertype \<Rightarrow> marker list \<Rightarrow> cstring option" where
  "propval_loop d emit_type [] = Some []"
| "propval_loop d emit_type (m # ms) = do {
     let chunk_len = u64 ((case ms of [] \<Rightarrow> dlen d | n # _ \<Rightarrow> moffset n) - moffset m);
     let data_len = (if type_marker_length m ms \<noteq> 0 then type_marker_length m ms else u64 (dlen d - moffset m));
     let emit_type = (if has_data_type_information m then mtype m else emit_type);
     start \<leftarrow> marker_head m;
     if emit_type = TYPE_NONE then
       if chunk_len = 0 then do {
         rest \<leftarrow> propval_loop d TYPE_NONE ms;
         Some (start @ rest) }
       else None
     else do {
       s \<leftarrow> bytes_at (dval d) (moffset m) chunk_len;
       txt \<leftarrow> write_chunk emit_type s;
       if chunk_len = data_len then do {
         rest \<leftarrow> propval_loop d TYPE_NONE ms;
         Some (start @ txt @ delim_end emit_type @ (if u64 (moffset m + chunk_len) = dlen d then [] else cstr '','') @ rest) }
       else do {
         rest \<leftarrow> propval_loop d emit_type ms;
         Some (start @ txt @ rest) } } }"

definition write_propval :: "property \<Rightarrow> cstring option" where
  "write_propval p =
     (if dlen (pval p) = 0 then Some (cstr '';'' @ [10])
      else do {
        ms \<leftarrow> (if next_type_marker (dmarkers (pval p)) = None then do {
               t \<leftarrow> guess_value_type p;
               Some (\<lparr>mtype = t, moffset = 0, mref = None\<rparr> # dmarkers (pval p)) }
             else Some (dmarkers (pval p)));
        body \<leftarrow> propval_loop (pval p) TYPE_NONE ms;
        Some (cstr '' ='' @ body @ cstr '';'' @ [10]) })"

section \<open>Nodes and the file\<close>

definition write_labels :: "label list \<Rightarrow> cstring" where
  "write_labels ls = concat (map (\<lambda>l. llabel l @ cstr '': '') (filter (\<lambda>l. \<not> ldeleted l) ls))"

text \<open>The texts of a list, one after the other, as long as none of them fails.\<close>

fun texts :: "cstring option list \<Rightarrow> cstring option" where
  "texts [] = Some []"
| "texts (t # ts) = do { x \<leftarrow> t; xs \<leftarrow> texts ts; Some (x @ xs) }"

definition write_property :: "nat \<Rightarrow> property \<Rightarrow> cstring option" where
  "write_property level p = do {
     v \<leftarrow> write_propval p;
     Some (write_prefix (level + 1) @ write_labels (plabels p) @ pname p @ v) }"

fun write_tree_source_node :: "node \<Rightarrow> nat \<Rightarrow> cstring option" where
  "write_tree_source_node (Node i ps cs) level = do {
     let title = (case nname i of Some nm \<Rightarrow> if nm \<noteq> [] then nm @ cstr '' {'' else cstr ''/ {'' | None \<Rightarrow> cstr ''/ {'');
     props \<leftarrow> texts (map (write_property level) (filter (\<lambda>p. \<not> pdeleted p) ps));
     nodes \<leftarrow> texts (map (\<lambda>(live, t). if live then map_option (\<lambda>x. 10 # x) t else Some [])
                    (map (\<lambda>c. (\<not> ndeleted (info c), write_tree_source_node c (level + 1))) cs));
     Some (write_prefix level @ write_labels (nlabels i) @ title @ [10] @ props @ nodes @ write_prefix level @ cstr ''};'' @ [10]) }"

definition write_memreserve :: "reserve_info \<Rightarrow> cstring" where
  "write_memreserve re = write_labels (rlabels re) @ cstr ''/memreserve/'' @ [9] @
     cstr ''0x'' @ hex_text 16 (raddress re) @ cstr '' 0x'' @ hex_text 16 (rsize re) @ cstr '';'' @ [10]"

definition dt_to_source :: "dt_info \<Rightarrow> cstring option" where
  "dt_to_source dti = do {
     tree \<leftarrow> write_tree_source_node (dt dti) 0;
     Some (cstr ''/dts-v1/;'' @ [10, 10] @ concat (map write_memreserve (reservelist dti)) @ tree) }"

section \<open>Strings are read back\<close>

text \<open>What the lexer takes as the inside of a string: \<open>([^\"]|\.)*\<close>.\<close>

fun string_body :: "u8 list \<Rightarrow> bool" where
  "string_body [] \<longleftrightarrow> True"
| "string_body (c # cs) \<longleftrightarrow>
     (if c = BACKSLASH then (case cs of [] \<Rightarrow> False | d # ds \<Rightarrow> d \<noteq> 10 \<and> string_body ds)
      else c \<noteq> QUOTE \<and> string_body cs)"

definition octal :: "u8 \<Rightarrow> bool" where
  "octal c \<longleftrightarrow> 48 \<le> c \<and> c \<le> 55"

lemma byte_cases: "(\<And>n. n < 256 \<Longrightarrow> P (of_nat n)) \<Longrightarrow> P (c :: u8)"
proof -
  assume p: "\<And>n. n < 256 \<Longrightarrow> P (of_nat n)"
  have "unat c < 256" using unsigned_less [of c, where 'a = nat] by simp
  then have "P (of_nat (unat c))" by (rule p)
  then show "P c" by simp
qed

lemma is_digit_octal: "is_digit 8 c = octal c"
proof (rule byte_cases [of _ c])
  fix n :: nat assume "n < 256"
  moreover have "\<forall>n \<in> set [0..<256]. is_digit 8 (of_nat n) = octal (of_nat n)" by code_simp
  ultimately show "is_digit 8 (of_nat n) = octal (of_nat n)" by simp
qed

lemma hex_two: "n < 256 \<Longrightarrow> hex_text 2 (int n) = [digit_char (n div 16), digit_char (n mod 16)]"
  by (cases "n < 16") (simp_all add: hex_text_def digits.simps [of 16] digit_char_def Let_def)

lemma strtol_hex_two:
  assumes "a < 16" "b < 16"
  shows "strtol [digit_char a, digit_char b] 16 = (int (16 * a + b), 2)"
  using digit_char_facts [OF assms(1)] digit_char_facts [OF assms(2)] assms
  by (simp add: strtol_def scan_number_def)

lemma hex_pair: "\<exists>x y. hex_text 2 (uint c) = [x, y] \<and> x \<notin> {0, BACKSLASH, QUOTE} \<and> y \<notin> {0, BACKSLASH, QUOTE} \<and> strtol [x, y] 16 = (uint c, 2)" for c :: u8
proof (rule byte_cases [of _ c])
  fix n :: nat assume n: "n < 256"
  have u: "uint (of_nat n :: u8) = int n" using n by (simp add: uint_nat unat_of_nat)
  have d: "n div 16 < 16" "n mod 16 < 16" using n by auto
  show "\<exists>x y. hex_text 2 (uint (of_nat n :: u8)) = [x, y] \<and> x \<notin> {0, BACKSLASH, QUOTE} \<and> y \<notin> {0, BACKSLASH, QUOTE} \<and> strtol [x, y] 16 = (uint (of_nat n :: u8), 2)"
    unfolding u using hex_two [OF n] strtol_hex_two [OF d] digit_char_facts(4,7,8) [OF d(1)] digit_char_facts(4,7,8) [OF d(2)] by auto
qed

lemma sint_byte: "sint c = (if c < 0x80 then uint c else uint c - 256)" for c :: u8
proof (rule byte_cases [of _ c])
  fix n :: nat assume "n < 256"
  moreover have "\<forall>n \<in> set [0..<256]. sint (of_nat n :: u8) = (if (of_nat n :: u8) < 0x80 then uint (of_nat n :: u8) else uint (of_nat n :: u8) - 256)"
    by code_simp
  ultimately show "sint (of_nat n :: u8) = (if (of_nat n :: u8) < 0x80 then uint (of_nat n :: u8) else uint (of_nat n :: u8) - 256)" by simp
qed

lemma digits_step: "m < 16 \<Longrightarrow> 0 < k \<Longrightarrow> digits 16 (16 * k + m) = digits 16 k @ [digit_char m]"
  by (subst digits.simps) simp

lemma hex_high: "n < 256 \<Longrightarrow> hex_text 2 (4294967040 + int n) = cstr ''ffffff'' @ [digit_char (n div 16), digit_char (n mod 16)]"
proof -
  assume n: "n < 256"
  have e: "4294967040 + n = 16 * (16 * 16777215 + n div 16) + n mod 16" by simp
  have f: "digits 16 16777215 = cstr ''ffffff''" by (simp add: digits.simps [of 16] digit_char_def cstr_def)
  have "digits 16 (4294967040 + n) = cstr ''ffffff'' @ [digit_char (n div 16), digit_char (n mod 16)]"
    unfolding e using n by (simp only: digits_step f) (simp add: digits_step f)
  moreover have "nat (4294967040 + int n) = 4294967040 + n" by simp
  ultimately show ?thesis by (simp add: hex_text_def cstr_def)
qed

lemma hex_signed:
  "c < 0x80 \<Longrightarrow> hex_text 2 (u32 (sint c)) = hex_text 2 (uint c)"
  "\<not> c < 0x80 \<Longrightarrow> hex_text 2 (u32 (sint c)) = cstr ''ffffff'' @ hex_text 2 (uint c)" for c :: u8
proof -
  have c: "uint c = int (unat c)" "unat c < 256" using unsigned_less [of c, where 'a = nat] by simp_all
  show "c < 0x80 \<Longrightarrow> hex_text 2 (u32 (sint c)) = hex_text 2 (uint c)"
  proof -
    have "u32 (uint c) = uint c" by (rule u32_id) (use c in linarith)+
    then show "c < 0x80 \<Longrightarrow> hex_text 2 (u32 (sint c)) = hex_text 2 (uint c)" by (simp add: sint_byte)
  qed
  assume "\<not> c < 0x80"
  moreover have "u32 (uint c - 256) = u32 (4294967040 + uint c)"
  proof -
    have e: "4294967040 + uint c = (uint c - 256) + 4294967296" by simp
    show ?thesis unfolding e u32_def by (simp only: mod_add_self2)
  qed
  moreover have "u32 (4294967040 + uint c) = 4294967040 + uint c" by (rule u32_id) (use c in linarith)+
  ultimately have "u32 (sint c) = 4294967040 + uint c" by (simp add: sint_byte)
  then show "hex_text 2 (u32 (sint c)) = cstr ''ffffff'' @ hex_text 2 (uint c)" using hex_high [OF c(2)] hex_two [OF c(2)] by simp
qed

text \<open>The value of octal digits, and what \<open>get_oct_char\<close> reads at a \<open>0\<close> in front of two characters.\<close>

definition octal_value :: "u8 list \<Rightarrow> u8" where
  "octal_value = foldl (\<lambda>a c. 8 * a + (c - 48)) 0"

lemma octal_facts:
  assumes "octal c"
  shows "digit_value c = Some (uint c - 48)" "48 \<le> uint c" "uint c \<le> 55" "c \<noteq> 0" "write_char c = [c]" "c \<noteq> BACKSLASH" "c < 0x80"
proof -
  have "\<forall>n \<in> set [0..<256]. octal (of_nat n) \<longrightarrow> of_nat n \<in> set [48, 49, 50, 51, 52, 53, 54, 55 :: u8]" by code_simp
  then have c: "c \<in> set [48, 49, 50, 51, 52, 53, 54, 55]" using assms by (induction c rule: byte_cases) (auto simp del: set_simps)
  have "\<forall>c \<in> set [48, 49, 50, 51, 52, 53, 54, 55]. digit_value c = Some (uint c - 48) \<and> 48 \<le> uint c \<and> uint c \<le> 55 \<and> c \<noteq> 0 \<and>
      write_char c = [c] \<and> c \<noteq> BACKSLASH \<and> c < 0x80" by code_simp
  then show "digit_value c = Some (uint c - 48)" "48 \<le> uint c" "uint c \<le> 55" "c \<noteq> 0" "write_char c = [c]" "c \<noteq> BACKSLASH" "c < 0x80"
    using c by (simp_all del: set_simps)
qed

lemma strtol_octal:
  "\<exists>v. strtol (48 # takeWhile (\<lambda>c. c \<noteq> 0) [x, y]) 8 = (v, int (Suc (length (takeWhile octal [x, y])))) \<and>
     word_of_int v = octal_value (takeWhile octal [x, y])"
proof -
  define ds where "ds = takeWhile octal [x, y]"
  have "takeWhile octal (takeWhile (\<lambda>c. c \<noteq> 0) [x, y]) = ds" using octal_facts(4) by (auto simp: ds_def)
  moreover have "is_digit 8 = octal" using is_digit_octal by (simp add: fun_eq_iff)
  ultimately have "scan_number (48 # takeWhile (\<lambda>c. c \<noteq> 0) [x, y]) 8 = (False, foldl (\<lambda>a c. a * 8 + the (digit_value c)) 0 ds, int (Suc (length ds)))"
    by (simp add: scan_number_def isspace_def octal_def digit_value_def Let_def)
  moreover have "0 \<le> foldl (\<lambda>a c. a * 8 + the (digit_value c)) 0 ds \<and> foldl (\<lambda>a c. a * 8 + the (digit_value c)) 0 ds \<le> 63 \<and>
      word_of_int (foldl (\<lambda>a c. a * 8 + the (digit_value c)) 0 ds) = octal_value ds"
    using octal_facts(1-3) [of x] octal_facts(1-3) [of y] by (auto simp: ds_def octal_value_def)
  ultimately show ?thesis by (auto simp: strtol_def ds_def)
qed

section \<open>One character\<close>

text \<open>One step of the loop that reads a string.\<close>

definition next_char :: "u8 list \<Rightarrow> int \<Rightarrow> (u8 \<times> int) option" where
  "next_char s i = do { c \<leftarrow> at s i; if c = chr (CHR 0x5C) then get_escape_char s (i + 1) else Some (c, i + 1) }"

lemma at_append: "at (pre @ xs) (int (length pre)) = at xs 0" "at (pre @ x # xs) (int (length pre) + 1) = at xs 0"
  by (auto simp: at_def nth_append nat_add_distrib)

lemma strncpy_append: "strncpy (pre @ xs) (int (length pre)) n = strncpy xs 0 n"
  by (simp add: strncpy_def)

lemma next_char_plain: "c \<noteq> BACKSLASH \<Longrightarrow> next_char (pre @ c # rest) (int (length pre)) = Some (c, int (length pre) + 1)"
  by (simp add: next_char_def at_append at_def)

lemma next_char_escape: "next_char (pre @ BACKSLASH # xs) (int (length pre)) = get_escape_char (pre @ BACKSLASH # xs) (int (length (pre @ [BACKSLASH])))"
  by (simp add: next_char_def at_append at_def add.commute)

lemma get_escape_append: "get_escape_char (pre @ xs) (int (length pre)) = map_option (\<lambda>(c, j). (c, int (length pre) + j)) (get_escape_char xs 0)"
proof -
  have "strncpy (pre @ xs) (int (length pre) + 1) n = strncpy xs 1 n" for n by (auto simp: strncpy_def nat_add_distrib)
  then show ?thesis
    by (auto simp: get_escape_char_def at_append Let_def get_oct_char_def get_hex_char_def strncpy_append split: prod.splits Option.bind_splits)
qed

text \<open>The characters that the loop reads between two places.\<close>

fun chars :: "u8 list \<Rightarrow> int \<Rightarrow> u8 list \<Rightarrow> int \<Rightarrow> bool" where
  "chars s i [] j \<longleftrightarrow> i = j"
| "chars s i (c # cs) j \<longleftrightarrow> (\<exists>k. next_char s i = Some (c, k) \<and> i < k \<and> chars s k cs j)"

lemma chars_append: "chars s i xs k \<Longrightarrow> chars s k ys j \<Longrightarrow> chars s i (xs @ ys) j"
  by (induction xs arbitrary: i) auto

lemma chars_mono: "chars s i xs j \<Longrightarrow> i + int (length xs) \<le> j"
  by (induction xs arbitrary: i) fastforce+

lemma chars_plain: "BACKSLASH \<notin> set xs \<Longrightarrow> chars (pre @ xs @ rest) (int (length pre)) xs (int (length (pre @ xs)))"
proof (induction xs arbitrary: pre)
  case (Cons c xs)
  have "chars ((pre @ [c]) @ xs @ rest) (int (length (pre @ [c]))) xs (int (length ((pre @ [c]) @ xs)))" using Cons by (intro Cons.IH) simp
  then show ?case using next_char_plain [of c pre "xs @ rest"] Cons.prems by (auto intro!: exI [of _ "int (length pre) + 1"] simp: add.commute)
qed simp

text \<open>What the loop reads where \<open>write_char\<close> has written.\<close>

lemma next_char_nul:
  "next_char (pre @ write_char 0 @ x # y # rest) (int (length pre)) =
     Some (octal_value (takeWhile octal [x, y]), int (length (pre @ write_char 0) + length (takeWhile octal [x, y])))"
proof -
  have w: "write_char 0 = [BACKSLASH, 48]" by (simp add: write_char_def cstr_def)
  obtain v where v: "strtol (48 # takeWhile (\<lambda>c. c \<noteq> 0) [x, y]) 8 = (v, int (Suc (length (takeWhile octal [x, y]))))"
    "word_of_int v = octal_value (takeWhile octal [x, y])" using strtol_octal by blast
  have "strncpy (48 # x # y # rest) 0 3 = Some (48 # takeWhile (\<lambda>c. c \<noteq> 0) [x, y])" by (simp add: strncpy_def)
  then have "get_escape_char (48 # x # y # rest) 0 = Some (octal_value (takeWhile octal [x, y]), int (Suc (length (takeWhile octal [x, y]))))"
    using v by (simp add: get_escape_char_def at_def get_oct_char_def del: takeWhile.simps)
  then show ?thesis
    using next_char_escape [of pre "48 # x # y # rest"] get_escape_append [of "pre @ [BACKSLASH]"] w by (simp del: takeWhile.simps)
qed

lemma next_char_write:
  assumes "c \<noteq> 0" "c < 0x80"
  shows "next_char (pre @ write_char c @ x # y # rest) (int (length pre)) = Some (c, int (length (pre @ write_char c)))"
proof -
  consider "c \<in> set [7, 8, 9, 10, 11, 12, 13, BACKSLASH, QUOTE]" | "c \<notin> set [7, 8, 9, 10, 11, 12, 13, BACKSLASH, QUOTE, 0]" "isprint c"
    | "c \<notin> set [7, 8, 9, 10, 11, 12, 13, BACKSLASH, QUOTE, 0]" "\<not> isprint c" using assms(1) by auto
  then show ?thesis
  proof cases
    case 1
    then obtain d where d: "write_char c = [BACKSLASH, d]" "\<And>xs. get_escape_char (d # xs) 0 = Some (c, 1)"
      by (fastforce simp: write_char_def cstr_def get_escape_char_def at_def)
    show ?thesis using next_char_escape [of pre "d # x # y # rest"] get_escape_append [of "pre @ [BACKSLASH]"] d by simp
  next
    case 2
    then have "write_char c = [c]" by (simp add: write_char_def)
    then show ?thesis using next_char_plain [of c pre "x # y # rest"] 2 by simp
  next
    case 3
    obtain a b where ab: "hex_text 2 (uint c) = [a, b]" "a \<noteq> 0" "b \<noteq> 0" "strtol [a, b] 16 = (uint c, 2)" using hex_pair [of c] by blast
    then have w: "write_char c = [BACKSLASH, 120, a, b]" using 3 hex_signed(1) [OF assms(2)] by (simp add: write_char_def cstr_def)
    have "get_escape_char (120 # a # b # x # y # rest) 0 = Some (c, 3)"
      using ab by (simp add: get_escape_char_def at_def get_hex_char_def strncpy_def)
    then show ?thesis using next_char_escape [of pre "120 # a # b # x # y # rest"] get_escape_append [of "pre @ [BACKSLASH]"] w by simp
  qed
qed

lemma high_char: "\<not> c < 0x80 \<Longrightarrow> \<not> isprint c \<and> c \<notin> set [7, 8, 9, 10, 11, 12, 13, BACKSLASH, QUOTE, 0]"
proof -
  assume c: "\<not> c < 0x80"
  have "\<forall>n \<in> set [0..<256]. \<not> (of_nat n :: u8) < 0x80 \<longrightarrow> \<not> isprint (of_nat n)" by code_simp
  then have "\<not> isprint c" using c by (induction c rule: byte_cases) (auto simp del: set_simps)
  then show ?thesis using c by auto
qed

lemma write_char_high: "\<not> c < 0x80 \<Longrightarrow> write_char c = BACKSLASH # 120 # cstr ''ffffff'' @ hex_text 2 (uint c)"
  using high_char [of c] hex_signed(2) [of c] by (simp add: write_char_def cstr_def)

lemma chars_high:
  assumes "\<not> c < 0x80"
  shows "chars (pre @ write_char c @ rest) (int (length pre)) (0xff # cstr ''ffff'' @ hex_text 2 (uint c)) (int (length (pre @ write_char c)))"
proof -
  let ?h = "BACKSLASH # 120 # cstr ''ff''"
  let ?t = "cstr ''ffff'' @ hex_text 2 (uint c)"
  have w: "write_char c = ?h @ ?t" using write_char_high [OF assms] by (simp add: cstr_def)
  have "strtol [102, 102] 16 = (255, 2)" by (simp add: strtol_def scan_number_def isspace_def is_digit_def digit_value_def)
  then have "get_escape_char (120 # cstr ''ff'' @ xs) 0 = Some (0xff, 3)" for xs
    by (simp add: get_escape_char_def at_def get_hex_char_def strncpy_def cstr_def)
  then have "next_char (pre @ ?h @ ?t @ rest) (int (length pre)) = Some (0xff, int (length (pre @ ?h)))"
    using next_char_escape [of pre "120 # cstr ''ff'' @ ?t @ rest"] get_escape_append [of "pre @ [BACKSLASH]"] by (simp add: cstr_def)
  moreover obtain a b where "hex_text 2 (uint c) = [a, b]" "a \<notin> {0, BACKSLASH, QUOTE}" "b \<notin> {0, BACKSLASH, QUOTE}" using hex_pair [of c] by blast
  then have "chars ((pre @ ?h) @ ?t @ rest) (int (length (pre @ ?h))) ?t (int (length ((pre @ ?h) @ ?t)))"
    by (intro chars_plain) (auto simp: cstr_def)
  ultimately show ?thesis unfolding w by (auto intro!: exI [of _ "int (length (pre @ ?h))"])
qed

lemma string_body_write: "string_body (write_char c @ xs) = string_body xs"
proof -
  obtain a b where "hex_text 2 (uint c) = [a, b]" "a \<notin> {0, BACKSLASH, QUOTE}" "b \<notin> {0, BACKSLASH, QUOTE}" using hex_pair [of c] by blast
  then show ?thesis using hex_signed [of c] by (cases "c < 0x80") (simp_all add: write_char_def cstr_def)
qed

lemma string_body_text: "string_body (concat (map write_char s))"
  by (induction s) (simp_all add: string_body_write)

section \<open>The whole string\<close>

text \<open>The bytes that come back: a NUL takes up to two octal digits behind it with it, and a byte from 0x80 on comes back as seven.\<close>

fun reread :: "u8 list \<Rightarrow> u8 list" where
  "reread [] = []"
| "reread (c # s) =
     (if c = 0 then octal_value (takeWhile octal (take 2 s)) # reread (drop (length (takeWhile octal (take 2 s))) s)
      else if c < 0x80 then c # reread s
      else 0xff # cstr ''ffff'' @ hex_text 2 (uint c) @ reread s)"

text \<open>No NUL is directly followed by an octal digit.\<close>

fun nul_safe :: "u8 list \<Rightarrow> bool" where
  "nul_safe (a # b # s) \<longleftrightarrow> (a = 0 \<longrightarrow> \<not> octal b) \<and> nul_safe (b # s)"
| "nul_safe _ \<longleftrightarrow> True"

lemma write_char_head: "\<exists>x xs. write_char c = x # xs \<and> (octal x \<longrightarrow> x = c)"
  by (simp add: write_char_def octal_def)

abbreviation text_of :: "u8 list \<Rightarrow> u8 list" where
  "text_of s \<equiv> concat (map write_char s)"

lemma text_behind: "\<exists>x y zs. text_of s @ QUOTE # 0 # rest = x # y # zs"
proof (cases s)
  case (Cons d s')
  obtain x xs where "write_char d = x # xs" using write_char_head [of d] by blast
  then show ?thesis using Cons by (cases "xs @ text_of s' @ QUOTE # 0 # rest") auto
qed simp

lemma text_digits: "takeWhile octal (take n (text_of s @ QUOTE # rest)) = takeWhile octal (take n s)"
proof (induction n arbitrary: s)
  case (Suc n)
  have q: "\<not> octal QUOTE" by (simp add: octal_def)
  show ?case
  proof (cases s)
    case Nil
    then show ?thesis using q by simp
  next
    case (Cons c s')
    obtain x xs where x: "write_char c = x # xs" "octal x \<longrightarrow> x = c" using write_char_head [of c] by blast
    show ?thesis
    proof (cases "octal c")
      case True
      then show ?thesis using Suc.IH [of s'] Cons octal_facts(5) [OF True] by simp
    next
      case False
      then show ?thesis using x Cons by auto
    qed
  qed
qed simp

lemma text_octal: "list_all octal ds \<Longrightarrow> text_of ds = ds"
  by (induction ds) (auto dest: octal_facts(5))

lemma octal_takeWhile: "list_all octal (takeWhile octal xs)"
  by (simp add: list_all_iff) (metis set_takeWhileD)

lemma reread_length: "length (reread s) \<le> length (text_of s)"
proof (induction s rule: reread.induct)
  case (2 c s)
  let ?ds = "takeWhile octal (take 2 s)"
  have w: "1 \<le> length (write_char c)" using write_char_head [of c] by auto
  consider "c = 0" | "c \<noteq> 0" "c < 0x80" | "c \<noteq> 0" "\<not> c < 0x80" by blast
  then show ?case
  proof cases
    case 1
    have "s = ?ds @ drop (length ?ds) s" by (metis append_take_drop_id takeWhile_eq_take take_take min.cobounded1 length_takeWhile_le length_take min_absorb1)
    then have "text_of s = text_of ?ds @ text_of (drop (length ?ds) s)" by (metis concat_append map_append)
    then show ?thesis using 1 2(1) w by simp
  next
    case 2
    then show ?thesis using w "2.IH"(2) by simp
  next
    case 3
    then show ?thesis using "2.IH"(3) by (simp add: write_char_high cstr_def)
  qed
qed simp

lemma chars_text: "chars (pre @ text_of s @ QUOTE # 0 # rest) (int (length pre)) (reread s) (int (length (pre @ text_of s)))"
proof (induction s arbitrary: pre rule: reread.induct)
  case (2 c s)
  let ?S = "pre @ text_of (c # s) @ QUOTE # 0 # rest"
  have nxt: "chars ((pre @ write_char c) @ text_of s @ QUOTE # 0 # rest) (int (length (pre @ write_char c))) (reread s)
      (int (length ((pre @ write_char c) @ text_of s)))" if "c \<noteq> 0" using that "2.IH"(2,3) by (cases "c < 0x80") blast+
  consider "c = 0" | "c \<noteq> 0" "c < 0x80" | "c \<noteq> 0" "\<not> c < 0x80" by blast
  then show ?case
  proof cases
    case 1
    define ds where "ds = takeWhile octal (take 2 s)"
    have s: "s = ds @ drop (length ds) s"
      unfolding ds_def by (metis append_take_drop_id takeWhile_eq_take take_take min.cobounded1 length_takeWhile_le length_take min_absorb1)
    have ds: "text_of ds = ds" unfolding ds_def by (intro text_octal octal_takeWhile)
    obtain x y zs where b: "text_of s @ QUOTE # 0 # rest = x # y # zs" using text_behind by blast
    have "takeWhile octal [x, y] = takeWhile octal (take 2 (text_of s @ QUOTE # 0 # rest))" unfolding b by simp
    then have o: "takeWhile octal [x, y] = ds" unfolding text_digits ds_def .
    have n: "next_char ?S (int (length pre)) = Some (octal_value ds, int (length (pre @ write_char c @ ds)))"
      using next_char_nul [of pre x y zs] b 1 o by simp
    have t: "text_of s = ds @ text_of (drop (length ds) s)" by (subst s) (simp add: ds)
    have "chars ((pre @ write_char c @ ds) @ text_of (drop (length ds) s) @ QUOTE # 0 # rest) (int (length (pre @ write_char c @ ds)))
        (reread (drop (length ds) s)) (int (length ((pre @ write_char c @ ds) @ text_of (drop (length ds) s))))"
      unfolding ds_def by (rule "2.IH"(1) [OF 1])
    moreover have "int (length pre) < int (length (pre @ write_char c @ ds))" using write_char_head [of c] by auto
    ultimately show ?thesis using n 1 t by (auto simp: ds_def [symmetric])
  next
    case 2
    obtain x y zs where b: "text_of s @ QUOTE # 0 # rest = x # y # zs" using text_behind by blast
    have "next_char ?S (int (length pre)) = Some (c, int (length (pre @ write_char c)))" using next_char_write [OF 2, of pre x y zs] b by simp
    moreover have "int (length pre) < int (length (pre @ write_char c))" using write_char_head [of c] by auto
    ultimately show ?thesis using 2 nxt by auto
  next
    case 3
    have "chars (pre @ write_char c @ text_of s @ QUOTE # 0 # rest) (int (length pre)) (0xff # cstr ''ffff'' @ hex_text 2 (uint c)) (int (length (pre @ write_char c)))"
      by (rule chars_high [OF 3(2)])
    from chars_append [OF this, of "reread s"] show ?thesis using nxt 3 by simp
  qed
qed simp

lemma escape_loop_step:
  "i < len \<Longrightarrow> next_char s i = Some (c, j) \<Longrightarrow> poke (dval d) (dlen d) [Some c] = Some v \<Longrightarrow>
   escape_loop d s i len = escape_loop (d\<lparr>dval := v, dlen := u32 (dlen d + 1)\<rparr>) s j len"
  by (subst escape_loop.simps) (auto simp: next_char_def split: Option.bind_splits)

lemma poke_byte:
  assumes "j < length v"
  shows "poke v (int j) [Some c] = Some (v[j := Some c])"
  using assms by (simp add: poke_def upd_conv_take_nth_drop)

lemma escape_loop_chars:
  assumes "chars s i cs len" "dlen d = int j" "j + length cs < length (dval d)" "length (dval d) < 2 ^ 31"
  shows "\<exists>d'. escape_loop d s i len = Some d' \<and>
    dlen d' = int (j + length cs + 1) \<and> take (j + length cs + 1) (dval d') = take j (dval d) @ map Some (cs @ [0]) \<and> dmarkers d' = dmarkers d"
  using assms
proof (induction cs arbitrary: i d j)
  case Nil
  have u: "u32 (int j + 1) = int (Suc j)" using Nil by (simp add: u32_id)
  show ?case using Nil poke_byte [of j "dval d" 0] u by (subst escape_loop.simps) (simp add: take_Suc_conv_app_nth)
next
  case (Cons c cs)
  obtain k where k: "next_char s i = Some (c, k)" "i < k" "chars s k cs len" using Cons.prems(1) by auto
  let ?d = "d\<lparr>dval := (dval d)[j := Some c], dlen := u32 (dlen d + 1)\<rparr>"
  have p: "poke (dval d) (dlen d) [Some c] = Some ((dval d)[j := Some c])" using poke_byte [of j "dval d" c] Cons.prems(2,3) by simp
  have l: "i < len" using k(2) chars_mono [OF k(3)] by simp
  have "dlen ?d = int (Suc j)" using Cons.prems by (simp add: u32_id)
  then obtain d' where "escape_loop ?d s k len = Some d'" "dlen d' = int (Suc j + length cs + 1)"
    "take (Suc j + length cs + 1) (dval d') = take (Suc j) (dval ?d) @ map Some (cs @ [0])" "dmarkers d' = dmarkers ?d"
    using Cons.IH [OF k(3), of ?d "Suc j"] Cons.prems(3,4) by auto
  then show ?case using escape_loop_step [OF l k(1) p] Cons.prems(3) by (simp add: take_Suc_conv_app_nth)
qed

lemma text_read:
  assumes "10 * length s < 2 ^ 31 - 1"
  shows "\<exists>d. data_copy_escape_string (text_of s @ QUOTE # 0 # rest) (int (length (text_of s))) = Some d \<and>
    contents d = map Some (reread s @ [0]) \<and> dmarkers d = [\<lparr>mtype = TYPE_STRING, moffset = 0, mref = None\<rparr>]"
proof -
  let ?body = "text_of s"
  let ?m = "[\<lparr>mtype = TYPE_STRING, moffset = 0, mref = None\<rparr>]"
  have l: "length ?body \<le> 10 * length s"
  proof (induction s)
    case (Cons c s)
    have "length (write_char c) \<le> 10"
      using hex_pair [of c] hex_signed [of c] by (cases "c < 0x80") (auto simp: write_char_def cstr_def)
    then show ?case using Cons by simp
  qed simp
  define k where "k = Suc (length ?body)"
  let ?d = "\<lparr>dlen = 0, dval = replicate k None, dmarkers = ?m\<rparr>"
  have u: "u32 (int (length ?body) + 1) = int k" "u32 (int k) = int k" "k \<noteq> 0" using l assms by (simp_all add: u32_id k_def)
  have g: "data_grow_for (data_add_marker empty_data TYPE_STRING None) (u32 (int (length ?body) + 1)) = Some ?d"
    using u grow_loop.simps [of "int k" "int k"]
    by (simp add: data_grow_for_def data_add_marker_def data_append_markers_def empty_data_def xrealloc_def)
  have b: "0 + length (reread s) < length (dval ?d)" "length (dval ?d) < 2 ^ 31"
    using reread_length [of s] l assms by (simp_all add: k_def)
  obtain d' where d': "escape_loop ?d (?body @ QUOTE # 0 # rest) 0 (int (length ?body)) = Some d'" "dlen d' = int (length (reread s) + 1)"
    "take (length (reread s) + 1) (dval d') = map Some (reread s @ [0])" "dmarkers d' = ?m"
    using escape_loop_chars [OF chars_text [of "[]" s rest, simplified] _ b] by auto
  have "data_copy_escape_string (?body @ QUOTE # 0 # rest) (int (length ?body)) = Some d'"
    using g d'(1) by (simp add: data_copy_escape_string_def)
  moreover have "contents d' = map Some (reread s @ [0])" using d'(2,3) by (simp add: contents_def nat_add_distrib)
  ultimately show ?thesis using d'(4) by blast
qed

subsection \<open>When the same bytes come back\<close>

definition ascii :: "u8 list \<Rightarrow> bool" where
  "ascii s \<longleftrightarrow> (\<forall>c \<in> set s. c < 0x80)"

lemma nul_safe_Cons: "nul_safe (c # s) \<longleftrightarrow> (c = 0 \<longrightarrow> takeWhile octal (take 2 s) = []) \<and> nul_safe s"
  by (cases s) auto

lemma reread_safe: "nul_safe s \<Longrightarrow> ascii s \<Longrightarrow> reread s = s"
  by (induction s) (auto simp: nul_safe_Cons ascii_def octal_value_def)

lemma reread_longer: "nul_safe s \<Longrightarrow> length s \<le> length (reread s) \<and> (\<not> ascii s \<longrightarrow> length s < length (reread s))"
  by (induction s) (auto simp: nul_safe_Cons ascii_def cstr_def)

lemma reread_shorter: "ascii s \<Longrightarrow> length (reread s) \<le> length s \<and> (\<not> nul_safe s \<longrightarrow> length (reread s) < length s)"
proof (induction s rule: reread.induct)
  case (2 c s)
  let ?ds = "takeWhile octal (take 2 s)"
  have c: "c < 0x80" "ascii s" "ascii (drop (length ?ds) s)" using 2(4) set_drop_subset [of "length ?ds" s] by (auto simp: ascii_def)
  show ?case
  proof (cases "c = 0")
    case False
    then show ?thesis using "2.IH"(2) c by (auto simp: nul_safe_Cons)
  next
    case True
    have "length ?ds \<le> length s" by (metis length_takeWhile_le le_trans length_take min.cobounded1)
    moreover have "0 < length ?ds" if "?ds \<noteq> []" using that by blast
    moreover have r: "length (reread (drop (length ?ds) s)) \<le> length s - length ?ds \<and> (?ds = [] \<longrightarrow> \<not> nul_safe s \<longrightarrow> length (reread s) < length s)"
      using "2.IH"(1) [OF True c(3)] by auto
    ultimately have "length (reread (drop (length ?ds) s)) < length s" if "?ds \<noteq> []" using that by linarith
    then show ?thesis using r True by (cases "?ds = []") (simp_all add: nul_safe_Cons)
  qed
qed simp

lemma reread_same: "ascii s \<Longrightarrow> reread s = s \<longleftrightarrow> nul_safe s" "nul_safe s \<Longrightarrow> reread s = s \<longleftrightarrow> ascii s"
  using reread_safe [of s] reread_longer [of s] reread_shorter [of s] by auto

text \<open>C12: A string that is written as source text is one string token, and the lexer's \<open>data_copy_escape_string\<close> reads it
  back; \<open>reread\<close> says as what. For any bytes, control characters, quotes, backslashes and NULs in the middle included: an ASCII string comes back as the same
  bytes exactly when no NUL in it is directly followed by an octal digit, and a string without such a NUL
  exactly when all its bytes are ASCII. A byte from 0x80 on is written as \<open>\xffffff..\<close> and comes back as seven bytes (with a
  signed \<open>char\<close>).\<close>

theorem propval_string_roundtrip:
  assumes "10 * length s < 2 ^ 31 - 1"
  shows "\<exists>body d. write_propval_string (s @ [0]) = Some (QUOTE # body @ [QUOTE]) \<and> string_body body \<and>
    data_copy_escape_string (body @ QUOTE # 0 # rest) (int (length body)) = Some d \<and>
    contents d = map Some (reread s @ [0]) \<and> dmarkers d = [\<lparr>mtype = TYPE_STRING, moffset = 0, mref = None\<rparr>] \<and>
    (ascii s \<longrightarrow> (reread s = s \<longleftrightarrow> nul_safe s)) \<and> (nul_safe s \<longrightarrow> (reread s = s \<longleftrightarrow> ascii s))"
proof -
  have "write_propval_string (s @ [0]) = Some (QUOTE # text_of s @ [QUOTE])" by (simp add: write_propval_string_def)
  then show ?thesis using text_read [OF assms, of rest] string_body_text [of s] reread_same [of s] by blast
qed

theorem propval_string_roundtrip_witness:
  "\<exists>body d. write_propval_string (cstr ''a'' @ [QUOTE, 0, 2, 10, 0]) = Some (QUOTE # body @ [QUOTE]) \<and> string_body body \<and>
    data_copy_escape_string (body @ [QUOTE, 0]) (int (length body)) = Some d \<and>
    contents d = map Some (cstr ''a'' @ [QUOTE, 0, 2, 10, 0])"
proof -
  let ?s = "cstr ''a'' @ [QUOTE, 0, 2, 10]"
  have "10 * length ?s < 2 ^ 31 - 1" "nul_safe ?s" "ascii ?s" by (simp_all add: cstr_def octal_def ascii_def)
  then show ?thesis using propval_string_roundtrip [of ?s "[]"] by (metis append.assoc append_Cons append_Nil)
qed

section \<open>Values without type information\<close>

text \<open>The values of a tree that was read from a blob: no markers.\<close>

definition untyped :: "property \<Rightarrow> bool" where
  "untyped p \<longleftrightarrow> data_ok (pval p) \<and> dmarkers (pval p) = [] \<and> dlen (pval p) < 2 ^ 31"

fun untyped_tree :: "node \<Rightarrow> bool" where
  "untyped_tree (Node i ps cs) \<longleftrightarrow> (\<forall>p \<in> set ps. \<not> pdeleted p \<longrightarrow> untyped p) \<and> (\<forall>c \<in> set cs. \<not> ndeleted (info c) \<longrightarrow> untyped_tree c)"

text \<open>What it means for bytes to be of a type.\<close>

definition has_type :: "markertype \<Rightarrow> u8 list \<Rightarrow> bool" where
  "has_type t s \<longleftrightarrow> (case t of
      TYPE_STRING \<Rightarrow> s \<noteq> [] \<and> last s = 0 \<and> list_all isstring s
    | TYPE_UINT32 \<Rightarrow> length s mod 4 = 0
    | TYPE_UINT8 \<Rightarrow> True
    | _ \<Rightarrow> False)"

lemma untyped_bytes:
  assumes "untyped p" "dlen (pval p) \<noteq> 0"
  obtains s where "bytes_at (dval (pval p)) 0 (dlen (pval p)) = Some s" "int (length s) = dlen (pval p)" "s \<noteq> []"
    "byte_at (dval (pval p)) (dlen (pval p) - 1) = Some (last s)"
proof -
  have ok: "data_ok (pval p)" using assms(1) by (simp add: untyped_def)
  note d = data_okD(1-3) [OF ok]
  let ?n = "nat (dlen (pval p))"
  let ?xs = "take ?n (dval (pval p))"
  have n: "0 < ?n" "?n \<le> length (dval (pval p))" using d assms(2) by linarith+
  have "None \<notin> set ?xs" using d(3) by (simp add: contents_def)
  then have s: "map Some (map the ?xs) = ?xs" unfolding map_map by (intro map_idI) (metis comp_apply not_None_eq option.sel)
  have b: "bytes_at (dval (pval p)) 0 (dlen (pval p)) = Some (map the ?xs)"
    using d \<open>None \<notin> set ?xs\<close> by (simp add: bytes_at_def peek_def)
  have "dval (pval p) ! (?n - 1) = Some (last (map the ?xs))"
  proof -
    have "?xs ! (?n - 1) = map Some (map the ?xs) ! (?n - 1)" by (simp only: s)
    moreover have "last (map the ?xs) = map the ?xs ! (?n - 1)" using n last_conv_nth [of "map the ?xs"] by (cases "dval (pval p)") auto
    ultimately show ?thesis using n by simp
  qed
  then have "byte_at (dval (pval p)) (dlen (pval p) - 1) = Some (last (map the ?xs))"
    using d n by (simp add: byte_at_def at_def nat_diff_distrib)
  then show ?thesis using that [OF b] n d by (cases "dval (pval p) = []") simp_all
qed

lemma guess_sound:
  assumes "untyped p" "bytes_at (dval (pval p)) 0 (dlen (pval p)) = Some s" "int (length s) = dlen (pval p)" "s \<noteq> []"
    "byte_at (dval (pval p)) (dlen (pval p) - 1) = Some (last s)"
  shows "\<exists>t. guess_value_type p = Some t \<and> has_type t s"
proof -
  have "s32 (dlen (pval p)) = dlen (pval p)" "u64 (dlen (pval p)) = dlen (pval p)" using assms(1,3) by (auto simp: untyped_def s32_id u64_id)
  moreover have "length s mod 4 = 0" if "dlen (pval p) mod 4 = 0" using that assms(3) by presburger
  ultimately show ?thesis using assms
    by (auto simp: guess_value_type_def untyped_def has_type_def list_all_iff filter_empty_conv Let_def)
qed

lemma typed_chunk: "has_type t s \<Longrightarrow> \<exists>x. write_chunk t s = Some x"
  by (auto simp: has_type_def write_chunk_def write_propval_int_def write_propval_string_def split: markertype.splits)

lemma write_propval_untyped: "untyped p \<Longrightarrow> \<exists>x. write_propval p = Some x"
proof (cases "dlen (pval p) = 0")
  case False
  assume u: "untyped p"
  obtain s where s: "bytes_at (dval (pval p)) 0 (dlen (pval p)) = Some s" "int (length s) = dlen (pval p)" "s \<noteq> []"
    "byte_at (dval (pval p)) (dlen (pval p) - 1) = Some (last s)" by (rule untyped_bytes [OF u False])
  obtain t where t: "guess_value_type p = Some t" "has_type t s" using guess_sound [OF u s] by blast
  obtain x where x: "write_chunk t s = Some x" using typed_chunk [OF t(2)] by blast
  have "u64 (dlen (pval p)) = dlen (pval p)" "has_data_type_information \<lparr>mtype = t, moffset = 0, mref = None\<rparr>" "t \<noteq> TYPE_NONE"
    using u t(2) s(2) by (auto simp: untyped_def u64_id has_type_def has_data_type_information_def split: markertype.splits)
  then show ?thesis using False u t(1) s(1) x by (auto simp: write_propval_def untyped_def type_marker_length_def marker_head_def)
qed (simp add: write_propval_def)

text \<open>A value without markers that is taken for a string.\<close>

lemma write_propval_string_value:
  assumes "untyped p" "guess_value_type p = Some TYPE_STRING" "contents (pval p) = map Some (s @ [0])"
  shows "write_propval p = Some (cstr '' = '' @ QUOTE # text_of s @ QUOTE # cstr '';'' @ [10])" "ascii s"
proof -
  have n: "dlen (pval p) \<noteq> 0" using assms(3) by (auto simp: contents_def)
  obtain s' where s': "bytes_at (dval (pval p)) 0 (dlen (pval p)) = Some s'" "int (length s') = dlen (pval p)" "s' \<noteq> []"
    "byte_at (dval (pval p)) (dlen (pval p) - 1) = Some (last s')" by (rule untyped_bytes [OF assms(1) n])
  have "peek (dval (pval p)) 0 (dlen (pval p)) = Some (contents (pval p))"
    using data_okD(1,2) assms(1) by (simp add: peek_def contents_def untyped_def)
  then have e: "s' = s @ [0]" using s'(1) assms(3) by (auto simp: bytes_at_def)
  have t: "has_type TYPE_STRING (s @ [0])" using guess_sound [OF assms(1) s'] assms(2) e by simp
  have u: "u64 (dlen (pval p)) = dlen (pval p)" using assms(1) s'(2) by (auto simp: untyped_def u64_id)
  show "write_propval p = Some (cstr '' = '' @ QUOTE # text_of s @ QUOTE # cstr '';'' @ [10])"
    using n u assms(1,2) s'(1) e
    by (simp add: write_propval_def untyped_def type_marker_length_def marker_head_def has_data_type_information_def write_chunk_def
        write_propval_string_def cstr_def)
  have "isstring c \<longrightarrow> c < 0x80" for c using high_char [of c] by (auto simp: isstring_def)
  then show "ascii s" using t by (auto simp: has_type_def ascii_def list_all_iff)
qed


definition nul_prop :: property where
  "nul_prop = \<lparr>pdeleted = False, pname = cstr ''p'', pval = \<lparr>dlen = 4, dval = map Some [120, 0, 49, 0], dmarkers = []\<rparr>, plabels = []\<rparr>"


lemma texts_total: "(\<And>t. t \<in> set ts \<Longrightarrow> \<exists>x. t = Some x) \<Longrightarrow> \<exists>x. texts ts = Some x"
proof (induction ts)
  case (Cons t ts)
  then obtain x y where "t = Some x" "texts ts = Some y" by (metis list.set_intros)
  then show ?case by simp
qed simp



end
