(* ===== verification/Dtc_Checks.thy ===== *)
theory Dtc_Checks
  imports Dtc_Livetree
begin

text \<open>
  The check functions of \<open>checks.c\<close>. A check function gets a node and may change the tree, the static counter of
  phandles and the list of the failures it reported (\<open>FAIL\<close> and \<open>FAIL_PROP\<close>, which set the status
  of the check to \<open>FAILED\<close>); a failed assertion, a read outside of a value or through \<open>NULL\<close> and
  a loop that does not end give \<open>None\<close>. Messages are kept as their format, without arguments and source positions.
  Strings in values are read byte by byte; where a function goes on to search a
  string, the whole string has to be there.
\<close>

section \<open>The state of a check\<close>

text \<open>A call of \<open>FAIL\<close> or \<open>FAIL_PROP\<close>: the node, the property and the format of the message.\<close>

record fail =
  fnode :: noderef
  fprop :: "cstring option"
  ftext :: string

record chk_state =
  cdti :: dt_info
  ccounter :: int
  cfails :: "fail list"

record check_opts =
  copts :: dtc_opts
  quiet :: int
  generate_symbols :: bool

abbreviation (input) DTSF_PLUGIN :: int where "DTSF_PLUGIN \<equiv> 2"

type_synonym check_fn = "check_opts \<Rightarrow> noderef \<Rightarrow> chk_state \<Rightarrow> chk_state option"

abbreviation root_of :: "chk_state \<Rightarrow> node" where
  "root_of st \<equiv> dt (cdti st)"

definition nd :: "chk_state \<Rightarrow> noderef \<Rightarrow> node option" where
  "nd st ref = node_at (root_of st) ref"

definition set_root :: "node \<Rightarrow> chk_state \<Rightarrow> chk_state" where
  "set_root t st = st\<lparr>cdti := (cdti st)\<lparr>dt := t\<rparr>\<rparr>"

definition upd :: "noderef \<Rightarrow> (node \<Rightarrow> node) \<Rightarrow> chk_state \<Rightarrow> chk_state" where
  "upd ref f st = set_root (map_at f ref (root_of st)) st"

definition FAIL :: "noderef \<Rightarrow> string \<Rightarrow> chk_state \<Rightarrow> chk_state" where
  "FAIL ref text st = st\<lparr>cfails := cfails st @ [\<lparr>fnode = ref, fprop = None, ftext = text\<rparr>]\<rparr>"

definition FAIL_PROP :: "noderef \<Rightarrow> property option \<Rightarrow> string \<Rightarrow> chk_state \<Rightarrow> chk_state" where
  "FAIL_PROP ref p text st =
     st\<lparr>cfails := cfails st @ [\<lparr>fnode = ref, fprop = map_option pname p, ftext = text\<rparr>]\<rparr>"

text \<open>A loop over a list that no step of the loop changes.\<close>

fun for_each :: "('a \<Rightarrow> 's \<Rightarrow> 's option) \<Rightarrow> 'a list \<Rightarrow> 's \<Rightarrow> 's option" where
  "for_each f [] s = Some s"
| "for_each f (x # xs) s = do { s \<leftarrow> f x s; for_each f xs s }"

definition live_props :: "node \<Rightarrow> property list" where
  "live_props n = filter (\<lambda>p. \<not> pdeleted p) (proplist n)"

definition live_children :: "node \<Rightarrow> nat list" where
  "live_children n = filter (\<lambda>k. \<not> ndeleted (info (children n ! k))) [0..<length (children n)]"

definition prop_of :: "node \<Rightarrow> cstring \<Rightarrow> property option" where
  "prop_of n name = map_option (\<lambda>k. proplist n ! k) (get_property n name)"

definition parent_of :: "chk_state \<Rightarrow> noderef \<Rightarrow> node option option" where
  "parent_of st ref = (if ref = [] then Some None else map_option Some (nd st (butlast ref)))"

section \<open>Strings in values\<close>

fun raw_string :: "raw \<Rightarrow> cstring option" where
  "raw_string [] = None"
| "raw_string (b # bs) = do { c \<leftarrow> b; if c = 0 then Some [] else map_option (Cons c) (raw_string bs) }"

fun raw_streq :: "raw \<Rightarrow> cstring \<Rightarrow> bool option" where
  "raw_streq [] s = None"
| "raw_streq (b # bs) s = do {
     c \<leftarrow> b;
     (case s of [] \<Rightarrow> Some (c = 0) | x # xs \<Rightarrow> if c \<noteq> x then Some False else raw_streq bs xs) }"

function raw_strnlen :: "raw \<Rightarrow> int \<Rightarrow> int \<Rightarrow> int option" where
  "raw_strnlen v p n =
     (if n \<le> 0 then Some 0
      else do { b \<leftarrow> at v p; c \<leftarrow> b; if c = 0 then Some 0 else map_option (\<lambda>l. l + 1) (raw_strnlen v (p + 1) (n - 1)) })"
  by pat_completeness auto
termination
  by (relation "measure (\<lambda>(v, p, n). nat n)") auto

declare raw_strnlen.simps [simp del]

definition strspn :: "cstring \<Rightarrow> cstring \<Rightarrow> nat" where
  "strspn s accept = length (takeWhile (\<lambda>c. c \<in> set accept) s)"

definition strends :: "cstring \<Rightarrow> cstring \<Rightarrow> bool" where
  "strends str suffix \<longleftrightarrow> length suffix \<le> length str \<and> drop (length str - length suffix) str = suffix"

definition strprefixeq :: "cstring \<Rightarrow> int \<Rightarrow> cstring \<Rightarrow> bool" where
  "strprefixeq a n b \<longleftrightarrow> cstrlen b = n \<and> take (length b) a = b"

definition LOWERCASE :: cstring where "LOWERCASE = cstr ''abcdefghijklmnopqrstuvwxyz''"
definition UPPERCASE :: cstring where "UPPERCASE = cstr ''ABCDEFGHIJKLMNOPQRSTUVWXYZ''"
definition DIGITS :: cstring where "DIGITS = cstr ''0123456789''"
definition NODECHARS :: cstring where "NODECHARS = LOWERCASE @ UPPERCASE @ DIGITS @ cstr '',._+-@''"
definition PROPCHARS :: cstring where "PROPCHARS = LOWERCASE @ UPPERCASE @ DIGITS @ cstr '',._+*#?-''"
definition PROPNODECHARSSTRICT :: cstring where "PROPNODECHARSSTRICT = LOWERCASE @ UPPERCASE @ DIGITS @ cstr '',-''"

definition is_multiple_of :: "int \<Rightarrow> int \<Rightarrow> bool" where
  "is_multiple_of multiple divisor = (if divisor = 0 then multiple = 0 else multiple mod divisor = 0)"

section \<open>Utility check functions\<close>

definition check_always_fail :: check_fn where
  "check_always_fail opts ref st = Some (FAIL ref ''always_fail check'' st)"

definition check_is_string :: "cstring \<Rightarrow> check_fn" where
  "check_is_string propname opts ref st = do {
     n \<leftarrow> nd st ref;
     (case prop_of n propname of
        None \<Rightarrow> Some st
      | Some p \<Rightarrow> do {
          one \<leftarrow> data_is_one_string (pval p);
          Some (if one then st else FAIL_PROP ref (Some p) ''property is not a string'' st) }) }"

partial_function (option) string_list_loop :: "raw \<Rightarrow> int \<Rightarrow> int \<Rightarrow> bool option" where
  "string_list_loop v str rem =
     (if rem > 0 then do {
        l \<leftarrow> raw_strnlen v str rem;
        if l = rem then Some False else string_list_loop v (str + (l + 1)) (rem - (l + 1)) }
      else Some True)"

definition check_is_string_list :: "cstring \<Rightarrow> check_fn" where
  "check_is_string_list propname opts ref st = do {
     n \<leftarrow> nd st ref;
     (case prop_of n propname of
        None \<Rightarrow> Some st
      | Some p \<Rightarrow> do {
          ok \<leftarrow> string_list_loop (dval (pval p)) 0 (s32 (dlen (pval p)));
          Some (if ok then st else FAIL_PROP ref (Some p) ''property is not a string list'' st) }) }"

definition check_is_cell :: "cstring \<Rightarrow> check_fn" where
  "check_is_cell propname opts ref st = do {
     n \<leftarrow> nd st ref;
     Some (case prop_of n propname of
        None \<Rightarrow> st
      | Some p \<Rightarrow> if dlen (pval p) \<noteq> 4 then FAIL_PROP ref (Some p) ''property is not a single cell'' st else st) }"

section \<open>Structural check functions\<close>

text \<open>The siblings from number \<open>k\<close> on, deleted or not, against a name; then every live child against the siblings
  behind it.\<close>

fun same_name_after :: "noderef \<Rightarrow> nat \<Rightarrow> cstring option \<Rightarrow> node list \<Rightarrow> chk_state \<Rightarrow> chk_state option" where
  "same_name_after ref k name [] st = Some st"
| "same_name_after ref k name (c # cs) st = do {
     eq \<leftarrow> name_eq name (nname (info c));
     same_name_after ref (Suc k) name cs (if eq then FAIL (ref @ [k]) ''Duplicate node name'' st else st) }"

fun duplicate_names_loop :: "noderef \<Rightarrow> nat \<Rightarrow> node list \<Rightarrow> chk_state \<Rightarrow> chk_state option" where
  "duplicate_names_loop ref k [] st = Some st"
| "duplicate_names_loop ref k (c # cs) st = do {
     st \<leftarrow> (if ndeleted (info c) then Some st else same_name_after ref (Suc k) (nname (info c)) cs st);
     duplicate_names_loop ref (Suc k) cs st }"

definition check_duplicate_node_names :: check_fn where
  "check_duplicate_node_names opts ref st = do {
     n \<leftarrow> nd st ref;
     duplicate_names_loop ref 0 (children n) st }"

fun duplicate_props_loop :: "noderef \<Rightarrow> property list \<Rightarrow> chk_state \<Rightarrow> chk_state" where
  "duplicate_props_loop ref [] st = st"
| "duplicate_props_loop ref (p # ps) st =
     duplicate_props_loop ref ps
       (if pdeleted p then st
        else foldl (\<lambda>st q. if \<not> pdeleted q \<and> pname p = pname q
                          then FAIL_PROP ref (Some p) ''Duplicate property name'' st else st) st ps)"

definition check_duplicate_property_names :: check_fn where
  "check_duplicate_property_names opts ref st = do {
     n \<leftarrow> nd st ref;
     Some (duplicate_props_loop ref (proplist n) st) }"

definition check_node_name_chars :: "cstring \<Rightarrow> check_fn" where
  "check_node_name_chars chars opts ref st = do {
     n \<leftarrow> nd st ref;
     name \<leftarrow> nname (info n);
     Some (if strspn name chars < length name then FAIL ref ''Bad character '%c' in node name'' st else st) }"

definition check_node_name_chars_strict :: "cstring \<Rightarrow> check_fn" where
  "check_node_name_chars_strict chars opts ref st = do {
     n \<leftarrow> nd st ref;
     name \<leftarrow> nname (info n);
     Some (if int (strspn name chars) < nbasenamelen (info n)
           then FAIL ref ''Character '%c' not recommended in node name'' st else st) }"

definition check_node_name_format :: check_fn where
  "check_node_name_format opts ref st = do {
     n \<leftarrow> nd st ref;
     unitname \<leftarrow> get_unitname n;
     Some (if chr (CHR ''@'') \<in> set unitname then FAIL ref ''multiple '@' characters in node name'' st else st) }"

definition check_node_name_vs_property_name :: check_fn where
  "check_node_name_vs_property_name opts ref st = do {
     n \<leftarrow> nd st ref;
     p \<leftarrow> parent_of st ref;
     (case p of
        None \<Rightarrow> Some st
      | Some p \<Rightarrow> do {
          name \<leftarrow> nname (info n);
          Some (if get_property p name \<noteq> None
                then FAIL ref ''node name and property name conflict'' st else st) }) }"

definition check_unit_address_vs_reg :: check_fn where
  "check_unit_address_vs_reg opts ref st = do {
     n \<leftarrow> nd st ref;
     unitname \<leftarrow> get_unitname n;
     overlay \<leftarrow> get_subnode n (cstr ''__overlay__'');
     if overlay \<noteq> None then Some st
     else do {
       let prop = (case prop_of n (cstr ''reg'') of
           Some p \<Rightarrow> Some p
         | None \<Rightarrow> (case prop_of n (cstr ''ranges'') of
               Some p \<Rightarrow> if dlen (pval p) = 0 then None else Some p
             | None \<Rightarrow> None));
       Some (if prop \<noteq> None
         then if unitname = [] then FAIL ref ''node has a reg or ranges property, but no unit name'' st else st
         else if unitname \<noteq> [] then FAIL ref ''node has a unit name, but no reg or ranges property'' st else st) } }"

definition check_property_name_chars :: "cstring \<Rightarrow> check_fn" where
  "check_property_name_chars chars opts ref st = do {
     n \<leftarrow> nd st ref;
     Some (foldl (\<lambda>st p. if strspn (pname p) chars < length (pname p)
        then FAIL_PROP ref (Some p) ''Bad character '%c' in property name'' st else st) st (live_props n)) }"

definition strict_prop_name :: "cstring \<Rightarrow> cstring \<Rightarrow> bool" where
  "strict_prop_name chars name =
     (let n = strspn name chars in
      if n = length name then True
      else if name = cstr ''device_type'' then True
      else
        let (name, n) = (if name ! n = chr (CHR ''#'') \<and> (n = 0 \<or> name ! (n - 1) = chr (CHR '',''))
                         then (drop (n + 1) name, strspn (drop (n + 1) name) chars) else (name, n))
        in \<not> n < length name)"

definition check_property_name_chars_strict :: "cstring \<Rightarrow> check_fn" where
  "check_property_name_chars_strict chars opts ref st = do {
     n \<leftarrow> nd st ref;
     Some (foldl (\<lambda>st p. if strict_prop_name chars (pname p) then st
        else FAIL_PROP ref (Some p) ''Character '%c' not recommended in property name'' st) st (live_props n)) }"

section \<open>Labels and phandles\<close>

text \<open>A label is compared with the first place in the tree that has it: a node, a property of a node or a marker
  in a value, given by their indices.\<close>

definition check_duplicate_label ::
  "cstring \<Rightarrow> noderef \<Rightarrow> nat option \<Rightarrow> nat option \<Rightarrow> chk_state \<Rightarrow> chk_state option" where
  "check_duplicate_label label ref prop mark st = do {
     r \<leftarrow> get_node_by_label (root_of st) label;
     let other = (case r of
         Some n \<Rightarrow> Some (n, None, None)
       | None \<Rightarrow>
           (case get_property_by_label (root_of st) label of
              Some (n, k) \<Rightarrow> Some (n, Some k, None)
            | None \<Rightarrow>
                (case get_marker_label (root_of st) label of
                   Some (n, k, j) \<Rightarrow> Some (n, Some k, Some j)
                 | None \<Rightarrow> None)));
     Some (case other of
         None \<Rightarrow> st
       | Some x \<Rightarrow> if x \<noteq> (ref, prop, mark) then FAIL ref ''Duplicate label '%s' on '' st else st) }"

definition check_labels :: "label list \<Rightarrow> noderef \<Rightarrow> nat option \<Rightarrow> chk_state \<Rightarrow> chk_state option" where
  "check_labels ls ref prop st =
     for_each (\<lambda>l. check_duplicate_label (llabel l) ref prop None) (filter (\<lambda>l. \<not> ldeleted l) ls) st"

definition check_marker_labels :: "marker list \<Rightarrow> noderef \<Rightarrow> nat \<Rightarrow> chk_state \<Rightarrow> chk_state option" where
  "check_marker_labels ms ref k st =
     for_each (\<lambda>j st.
       if mtype (ms ! j) = LABEL then do {
         l \<leftarrow> mref (ms ! j);
         check_duplicate_label l ref (Some k) (Some j) st }
       else Some st) [0..<length ms] st"

definition check_duplicate_label_node :: check_fn where
  "check_duplicate_label_node opts ref st = do {
     n \<leftarrow> nd st ref;
     st \<leftarrow> check_labels (nlabels (info n)) ref None st;
     for_each (\<lambda>k st.
       let p = proplist n ! k in
       if pdeleted p then Some st
       else do {
         st \<leftarrow> check_labels (plabels p) ref (Some k) st;
         check_marker_labels (dmarkers (pval p)) ref k st }) [0..<length (proplist n)] st }"

text \<open>The phandle a property gives, or 0.\<close>

definition check_phandle_prop :: "cstring \<Rightarrow> noderef \<Rightarrow> chk_state \<Rightarrow> (int \<times> chk_state) option" where
  "check_phandle_prop propname ref st = do {
     n \<leftarrow> nd st ref;
     (case prop_of n propname of
        None \<Rightarrow> Some (0, st)
      | Some p \<Rightarrow>
          if dlen (pval p) \<noteq> 4 then Some (0, FAIL_PROP ref (Some p) ''bad length (%d) %s property'' st)
          else
            (case find (\<lambda>m. mtype m = REF_PHANDLE) (dmarkers (pval p)) of
               Some m \<Rightarrow>
                 if moffset m \<noteq> 0 then None
                 else do {
                   l \<leftarrow> mref m;
                   r \<leftarrow> get_node_by_ref (root_of st) l;
                   Some (0, if r \<noteq> Some ref then FAIL ref ''%s is a reference to another node'' st else st) }
             | None \<Rightarrow> do {
                 phandle \<leftarrow> propval_cell p;
                 Some (if phandle = 0 \<or> phandle = UINT32_MAX
                       then (0, FAIL_PROP ref (Some p) ''bad value (0x%x) in %s property'' st)
                       else (phandle, st)) })) }"

definition check_explicit_phandles :: check_fn where
  "check_explicit_phandles opts ref st = do {
     n \<leftarrow> nd st ref;
     if nphandle (info n) \<noteq> 0 then None
     else do {
       (phandle, st) \<leftarrow> check_phandle_prop (cstr ''phandle'') ref st;
       (linux_phandle, st) \<leftarrow> check_phandle_prop (cstr ''linux,phandle'') ref st;
       if phandle = 0 \<and> linux_phandle = 0 then Some st
       else do {
         let st = (if linux_phandle \<noteq> 0 \<and> phandle \<noteq> 0 \<and> phandle \<noteq> linux_phandle
                   then FAIL ref ''mismatching 'phandle' and 'linux,phandle' properties'' st else st);
         let phandle = (if linux_phandle \<noteq> 0 \<and> phandle = 0 then linux_phandle else phandle);
         other \<leftarrow> get_node_by_phandle (copts opts) (root_of st) phandle;
         Some (if other \<noteq> None \<and> other \<noteq> Some ref
               then FAIL ref ''duplicated phandle 0x%x (seen before at %s)'' st
               else upd ref (set_info (\<lambda>i. i\<lparr>nphandle := phandle\<rparr>)) st) } } }"

text \<open>The first property named \<open>name\<close>, deleted or not. A correct one is taken out of the list.\<close>

definition check_name_properties :: check_fn where
  "check_name_properties opts ref st = do {
     n \<leftarrow> nd st ref;
     (case find_index (\<lambda>p. pname p = cstr ''name'') (proplist n) of
        None \<Rightarrow> Some st
      | Some k \<Rightarrow> do {
          let p = proplist n ! k;
          name \<leftarrow> nname (info n);
          wrong \<leftarrow> (if dlen (pval p) \<noteq> u32 (nbasenamelen (info n) + 1) then Some True
                  else do {
                    a \<leftarrow> peek (dval (pval p)) 0 (nbasenamelen (info n));
                    b \<leftarrow> peek (map Some (name @ [0])) 0 (nbasenamelen (info n));
                    Some (a \<noteq> b) });
          Some (if wrong then FAIL ref ''name property is incorrect (%s instead of base node name)'' st
                else upd ref (\<lambda>n. set_props (take k (proplist n) @ drop (Suc k) (proplist n)) n) st) }) }"

section \<open>Reference fixup functions\<close>

text \<open>A store of four bytes into the value of property number \<open>k\<close> of a node.\<close>

definition store_cell :: "noderef \<Rightarrow> nat \<Rightarrow> int \<Rightarrow> int \<Rightarrow> chk_state \<Rightarrow> chk_state option" where
  "store_cell ref k offset x st = do {
     n \<leftarrow> nd st ref;
     p \<leftarrow> at (proplist n) (int k);
     v \<leftarrow> poke (dval (pval p)) offset (map Some (bytes32 x));
     Some (upd ref (\<lambda>n. set_props ((proplist n)[k := p\<lparr>pval := (pval p)\<lparr>dval := v\<rparr>\<rparr>]) n) st) }"

definition fixup_phandle_marker :: "check_opts \<Rightarrow> noderef \<Rightarrow> nat \<Rightarrow> marker \<Rightarrow> chk_state \<Rightarrow> chk_state option" where
  "fixup_phandle_marker opts ref k m st =
     (if mtype m \<noteq> REF_PHANDLE then Some st
      else do {
        n \<leftarrow> nd st ref;
        p \<leftarrow> at (proplist n) (int k);
        if \<not> moffset m + 4 \<le> dlen (pval p) then None
        else do {
          l \<leftarrow> mref m;
          r \<leftarrow> get_node_by_ref (root_of st) l;
          (case r of
             None \<Rightarrow>
               if dtsflags (cdti st) AND DTSF_PLUGIN = 0
               then Some (FAIL ref ''Reference to non-existent node or label'' st)
               else store_cell ref k (moffset m) 0xffffffff st
           | Some refnode \<Rightarrow> do {
               (phandle, t, counter) \<leftarrow> get_node_phandle (copts opts) (root_of st) refnode (ccounter st);
               st \<leftarrow> store_cell ref k (moffset m) phandle ((set_root t st)\<lparr>ccounter := counter\<rparr>);
               Some (upd refnode reference_node st) }) } })"

text \<open>The properties from number \<open>k\<close> on; a new phandle property of the node itself joins the list on the way.\<close>

partial_function (option) fixup_phandle_props :: "check_opts \<Rightarrow> noderef \<Rightarrow> nat \<Rightarrow> chk_state \<Rightarrow> chk_state option" where
  "fixup_phandle_props opts ref k st = do {
     n \<leftarrow> nd st ref;
     if length (proplist n) \<le> k then Some st
     else do {
       let p = proplist n ! k;
       st \<leftarrow> (if pdeleted p then Some st
             else for_each (fixup_phandle_marker opts ref k) (dmarkers (pval p)) st);
       fixup_phandle_props opts ref (Suc k) st } }"

definition fixup_phandle_references :: check_fn where
  "fixup_phandle_references opts ref st = fixup_phandle_props opts ref 0 st"

definition fixup_path_marker :: "noderef \<Rightarrow> nat \<Rightarrow> nat \<Rightarrow> chk_state \<Rightarrow> chk_state option" where
  "fixup_path_marker ref k j st = do {
     n \<leftarrow> nd st ref;
     p \<leftarrow> at (proplist n) (int k);
     m \<leftarrow> at (dmarkers (pval p)) (int j);
     if mtype m \<noteq> REF_PATH then Some st
     else if \<not> moffset m \<le> dlen (pval p) then None
     else do {
       l \<leftarrow> mref m;
       r \<leftarrow> get_node_by_ref (root_of st) l;
       (case r of
          None \<Rightarrow> Some (FAIL ref ''Reference to non-existent node or label'' st)
        | Some refnode \<Rightarrow> do {
            rn \<leftarrow> nd st refnode;
            path \<leftarrow> nfullpath (info rn);
            d \<leftarrow> data_insert_at_marker (pval p) j (map Some (path @ [0])) (cstrlen path + 1);
            let st = upd ref (\<lambda>n. set_props ((proplist n)[k := p\<lparr>pval := d\<rparr>]) n) st;
            Some (upd refnode reference_node st) }) } }"

definition fixup_path_references :: check_fn where
  "fixup_path_references opts ref st = do {
     n \<leftarrow> nd st ref;
     for_each (\<lambda>k st.
       let p = proplist n ! k in
       if pdeleted p then Some st
       else for_each (fixup_path_marker ref k) [0..<length (dmarkers (pval p))] st) [0..<length (proplist n)] st }"

definition fixup_omit_unused_nodes :: check_fn where
  "fixup_omit_unused_nodes opts ref st = do {
     n \<leftarrow> nd st ref;
     Some (if generate_symbols opts \<and> nlabels (info n) \<noteq> [] then st
           else if nomit_if_unused (info n) \<and> \<not> nis_referenced (info n) then upd ref delete_node st
           else st) }"

section \<open>Names, aliases and cell counts\<close>

definition check_names_is_string_list :: check_fn where
  "check_names_is_string_list opts ref st = do {
     n \<leftarrow> nd st ref;
     for_each (\<lambda>p. check_is_string_list (pname p) opts ref)
       (filter (\<lambda>p. strends (pname p) (cstr ''-names'')) (live_props n)) st }"

definition check_alias :: "noderef \<Rightarrow> property \<Rightarrow> chk_state \<Rightarrow> chk_state option" where
  "check_alias ref p st =
     (if pname p = cstr ''phandle'' \<or> pname p = cstr ''linux,phandle'' then Some st
      else do {
        valid \<leftarrow> (if dval (pval p) = [] then Some False
                 else do {
                   path \<leftarrow> raw_string (dval (pval p));
                   r \<leftarrow> get_node_by_path (root_of st) path;
                   Some (r \<noteq> None) });
        Some (if \<not> valid then FAIL_PROP ref (Some p) ''aliases property is not a valid node (%s)'' st
              else if strspn (pname p) (LOWERCASE @ DIGITS @ cstr ''-'') \<noteq> length (pname p)
              then FAIL ref ''aliases property name must include only lowercase and '-' '' st
              else st) })"

definition check_alias_paths :: check_fn where
  "check_alias_paths opts ref st = do {
     n \<leftarrow> nd st ref;
     name \<leftarrow> nname (info n);
     if name \<noteq> cstr ''aliases'' then Some st else for_each (check_alias ref) (live_props n) st }"

definition cells_or_unset :: "node \<Rightarrow> cstring \<Rightarrow> int option" where
  "cells_or_unset n name =
     (case prop_of n name of None \<Rightarrow> Some (- 1) | Some p \<Rightarrow> map_option s32 (propval_cell p))"

definition fixup_addr_size_cells :: check_fn where
  "fixup_addr_size_cells opts ref st = do {
     n \<leftarrow> nd st ref;
     a \<leftarrow> cells_or_unset n (cstr ''#address-cells'');
     s \<leftarrow> cells_or_unset n (cstr ''#size-cells'');
     Some (upd ref (set_info (\<lambda>i. i\<lparr>naddr_cells := a, nsize_cells := s\<rparr>)) st) }"

definition node_addr_cells :: "node \<Rightarrow> int" where
  "node_addr_cells n = (if naddr_cells (info n) = - 1 then 2 else naddr_cells (info n))"

definition node_size_cells :: "node \<Rightarrow> int" where
  "node_size_cells n = (if nsize_cells (info n) = - 1 then 1 else nsize_cells (info n))"

definition check_reg_format :: check_fn where
  "check_reg_format opts ref st = do {
     n \<leftarrow> nd st ref;
     par \<leftarrow> parent_of st ref;
     Some (case prop_of n (cstr ''reg'') of
         None \<Rightarrow> st
       | Some p \<Rightarrow>
           (case par of
              None \<Rightarrow> FAIL ref ''Root node has a reg property'' st
            | Some par \<Rightarrow>
                let st = (if dlen (pval p) = 0 then FAIL_PROP ref (Some p) ''property is empty'' st else st);
                    entrylen = s32 (s32 (node_addr_cells par + node_size_cells par) * 4)
                in if \<not> is_multiple_of (s32 (dlen (pval p))) entrylen
                   then FAIL_PROP ref (Some p) ''property has invalid length (%d bytes) (#address-cells == %d, #size-cells == %d)'' st
                   else st)) }"

definition check_ranges_format :: "cstring \<Rightarrow> check_fn" where
  "check_ranges_format ranges opts ref st = do {
     n \<leftarrow> nd st ref;
     par \<leftarrow> parent_of st ref;
     Some (case prop_of n ranges of
         None \<Rightarrow> st
       | Some p \<Rightarrow>
           (case par of
              None \<Rightarrow> FAIL_PROP ref (Some p) ''Root node has a property'' st
            | Some par \<Rightarrow>
                let entrylen = s32 (s32 (node_addr_cells par + node_addr_cells n + node_size_cells n) * 4)
                in if dlen (pval p) = 0 then
                     let st = (if node_addr_cells par \<noteq> node_addr_cells n
                               then FAIL_PROP ref (Some p) ''empty property but its #address-cells (%d) differs from %s (%d)'' st else st)
                     in if node_size_cells par \<noteq> node_size_cells n
                        then FAIL_PROP ref (Some p) ''empty property but its #size-cells (%d) differs from %s (%d)'' st else st
                   else if \<not> is_multiple_of (s32 (dlen (pval p))) entrylen
                   then FAIL_PROP ref (Some p) ''property has invalid length (%d bytes)'' st else st)) }"

section \<open>Bus checks\<close>

definition set_bus :: "bus_type \<Rightarrow> node \<Rightarrow> node" where
  "set_bus b = set_info (\<lambda>i. i\<lparr>nbus := Some b\<rparr>)"

text \<open>The parent, if it has the given bus.\<close>

definition parent_on :: "bus_type \<Rightarrow> chk_state \<Rightarrow> noderef \<Rightarrow> node option option" where
  "parent_on b st ref = do {
     p \<leftarrow> parent_of st ref;
     Some (case p of None \<Rightarrow> None | Some p \<Rightarrow> if nbus (info p) = Some b then Some p else None) }"

text \<open>\<open>cells [k]\<close> of a value, in the order of the CPU.\<close>

definition cell_of :: "property \<Rightarrow> int \<Rightarrow> int option" where
  "cell_of p k = load_cell (dval (pval p)) (4 * k)"

definition check_bus_range :: "noderef \<Rightarrow> property \<Rightarrow> chk_state \<Rightarrow> chk_state option" where
  "check_bus_range ref p st =
     (if dlen (pval p) \<noteq> 4 * 2 then Some (FAIL_PROP ref (Some p) ''value must be 2 cells'' st)
      else do {
        c0 \<leftarrow> cell_of p 0;
        c1 \<leftarrow> cell_of p 1;
        let st = (if c0 > c1 then FAIL_PROP ref (Some p) ''1st cell must be less than or equal to 2nd cell'' st else st);
        Some (if c1 > 0xff then FAIL_PROP ref (Some p) ''maximum bus number must be less than 256'' st else st) })"

definition check_pci_bridge :: check_fn where
  "check_pci_bridge opts ref st = do {
     n \<leftarrow> nd st ref;
     is_pci \<leftarrow> (case prop_of n (cstr ''device_type'') of
         None \<Rightarrow> Some False
       | Some p \<Rightarrow> raw_streq (dval (pval p)) (cstr ''pci''));
     if \<not> is_pci then Some st
     else do {
       name \<leftarrow> nname (info n);
       let st = upd ref (set_bus pci_bus) st;
       let st = (if \<not> strprefixeq name (nbasenamelen (info n)) (cstr ''pci'') \<and> \<not> strprefixeq name (nbasenamelen (info n)) (cstr ''pcie'')
                 then FAIL ref ''node name is not pci or pcie'' st else st);
       let st = (if prop_of n (cstr ''ranges'') = None then FAIL ref ''missing ranges for PCI bridge (or not a bridge)'' st else st);
       let st = (if node_addr_cells n \<noteq> 3 then FAIL ref ''incorrect #address-cells for PCI bridge'' st else st);
       let st = (if node_size_cells n \<noteq> 2 then FAIL ref ''incorrect #size-cells for PCI bridge'' st else st);
       (case prop_of n (cstr ''bus-range'') of
          None \<Rightarrow> Some st
        | Some p \<Rightarrow> check_bus_range ref p st) } }"

definition check_pci_device_bus_num :: check_fn where
  "check_pci_device_bus_num opts ref st = do {
     n \<leftarrow> nd st ref;
     par \<leftarrow> parent_on pci_bus st ref;
     (case (par, prop_of n (cstr ''reg'')) of
        (Some par, Some reg) \<Rightarrow> do {
          c0 \<leftarrow> cell_of reg 0;
          let bus_num = drop_bit 16 (c0 AND 0x00ff0000);
          let prop = prop_of par (cstr ''bus-range'');
          (min_bus, max_bus) \<leftarrow> (case prop of
              None \<Rightarrow> Some (0, 0)
            | Some p \<Rightarrow> do { lo \<leftarrow> cell_of p 0; hi \<leftarrow> cell_of p 0; Some (lo, hi) });
          Some (if bus_num < min_bus \<or> bus_num > max_bus
                then FAIL_PROP ref prop ''PCI bus number %d out of range, expected (%d - %d)'' st else st) }
      | _ \<Rightarrow> Some st) }"

definition check_pci_device_reg :: check_fn where
  "check_pci_device_reg opts ref st = do {
     n \<leftarrow> nd st ref;
     unitname \<leftarrow> get_unitname n;
     par \<leftarrow> parent_on pci_bus st ref;
     (case (par, prop_of n (cstr ''reg'')) of
        (Some par, Some p) \<Rightarrow> do {
          c1 \<leftarrow> cell_of p 1;
          c2 \<leftarrow> (if c1 \<noteq> 0 then Some 0 else cell_of p 2);
          let st = (if c1 \<noteq> 0 \<or> c2 \<noteq> 0
                    then FAIL_PROP ref (Some p) ''PCI reg config space address cells 2 and 3 must be 0'' st else st);
          reg \<leftarrow> cell_of p 0;
          let dev = drop_bit 11 (reg AND 0xf800);
          let func = drop_bit 8 (reg AND 0x700);
          let st = (if reg AND 0xff000000 \<noteq> 0 then FAIL_PROP ref (Some p) ''PCI reg address is not configuration space'' st else st);
          let st = (if reg AND 0x000000ff \<noteq> 0
                    then FAIL_PROP ref (Some p) ''PCI reg config space address register number must be 0'' st else st);
          Some (if func = 0 \<and> unitname = print_hex 0 dev then st
                else if unitname = print_hex 0 dev @ cstr '','' @ print_hex 0 func then st
                else FAIL ref ''PCI unit address format error'' st) }
      | _ \<Rightarrow> Some st) }"

partial_function (option) compatible_loop :: "raw \<Rightarrow> int \<Rightarrow> int \<Rightarrow> cstring \<Rightarrow> bool option" where
  "compatible_loop v str stop wanted =
     (if str < stop then do {
        eq \<leftarrow> raw_streq (drop (nat str) v) wanted;
        if eq then Some True
        else do {
          l \<leftarrow> raw_strnlen v str (stop - str);
          compatible_loop v (str + (l + 1)) stop wanted } }
      else Some False)"

definition node_is_compatible :: "node \<Rightarrow> cstring \<Rightarrow> bool option" where
  "node_is_compatible n wanted =
     (case prop_of n (cstr ''compatible'') of
        None \<Rightarrow> Some False
      | Some p \<Rightarrow> compatible_loop (dval (pval p)) 0 (dlen (pval p)) wanted)"

definition check_simple_bus_bridge :: check_fn where
  "check_simple_bus_bridge opts ref st = do {
     n \<leftarrow> nd st ref;
     c \<leftarrow> node_is_compatible n (cstr ''simple-bus'');
     Some (if c then upd ref (set_bus simple_bus) st else st) }"

fun read_cells :: "property \<Rightarrow> int \<Rightarrow> nat \<Rightarrow> int \<Rightarrow> int option" where
  "read_cells p k 0 reg = Some reg"
| "read_cells p k (Suc n) reg = do {
     c \<leftarrow> cell_of p k;
     read_cells p (k + 1) n (u64 (push_bit 32 reg) OR c) }"

definition check_simple_bus_reg :: check_fn where
  "check_simple_bus_reg opts ref st = do {
     n \<leftarrow> nd st ref;
     unitname \<leftarrow> get_unitname n;
     par \<leftarrow> parent_on simple_bus st ref;
     (case par of
        None \<Rightarrow> Some st
      | Some par \<Rightarrow> do {
          let cells = (case prop_of n (cstr ''reg'') of
              Some p \<Rightarrow> if dval (pval p) = [] then None else Some (p, 0)
            | None \<Rightarrow>
                (case prop_of n (cstr ''ranges'') of
                   Some p \<Rightarrow> if dlen (pval p) = 0 then None else Some (p, node_addr_cells n)
                 | None \<Rightarrow> None));
          (case cells of
             None \<Rightarrow> Some (if length ref > 1 \<and> nbus (info n) \<noteq> Some simple_bus
                           then FAIL ref ''missing or empty reg/ranges property'' st else st)
           | Some (p, k) \<Rightarrow> do {
               reg \<leftarrow> read_cells p k (nat (u32 (node_addr_cells par))) 0;
               Some (if unitname \<noteq> digits 16 (nat reg)
                     then FAIL ref ''simple-bus unit address format error'' st else st) }) }) }"

definition i2c_child :: "node \<Rightarrow> nat \<Rightarrow> bool option" where
  "i2c_child n k = do {
     name \<leftarrow> nname (info (children n ! k));
     Some (strprefixeq name (nbasenamelen (info n)) (cstr ''i2c-bus'')) }"

text \<open>Whether a live child has a name that a test accepts; the loop stops at the first one.\<close>

fun any_child :: "(nat \<Rightarrow> bool option) \<Rightarrow> nat list \<Rightarrow> bool option" where
  "any_child f [] = Some False"
| "any_child f (k # ks) = do { b \<leftarrow> f k; if b then Some True else any_child f ks }"

definition check_i2c_bus_bridge :: check_fn where
  "check_i2c_bus_bridge opts ref st = do {
     n \<leftarrow> nd st ref;
     name \<leftarrow> nname (info n);
     let len = nbasenamelen (info n);
     on_bus \<leftarrow>
       (if strprefixeq name len (cstr ''i2c-bus'') \<or> strprefixeq name len (cstr ''i2c-arb'') then Some True
        else if strprefixeq name len (cstr ''i2c'') then map_option Not (any_child (i2c_child n) (live_children n))
        else Some False);
     if \<not> on_bus then Some st
     else do {
       let st = upd ref (set_bus i2c_bus) st;
       if children n = [] then Some st
       else do {
         let st = (if node_addr_cells n \<noteq> 1 then FAIL ref ''incorrect #address-cells for I2C bus'' st else st);
         Some (if node_size_cells n \<noteq> 0 then FAIL ref ''incorrect #size-cells for I2C bus'' st else st) } } }"

abbreviation (input) I2C_OWN_SLAVE_ADDRESS :: int where "I2C_OWN_SLAVE_ADDRESS \<equiv> 0x40000000"
abbreviation (input) I2C_TEN_BIT_ADDRESS :: int where "I2C_TEN_BIT_ADDRESS \<equiv> 0x80000000"

definition without :: "int \<Rightarrow> int \<Rightarrow> int" where
  "without reg bits = reg AND (UINT32_MAX XOR bits)"

definition check_i2c_address :: "noderef \<Rightarrow> property \<Rightarrow> int \<Rightarrow> chk_state \<Rightarrow> chk_state" where
  "check_i2c_address ref p reg st =
     (if reg AND I2C_TEN_BIT_ADDRESS \<noteq> 0 \<and> without reg I2C_TEN_BIT_ADDRESS > 0x3ff
      then FAIL_PROP ref (Some p) ''I2C address must be less than 10-bits, got 0x%x'' st
      else if reg > 0x7f
      then FAIL_PROP ref (Some p) ''I2C address must be less than 7-bits, got 0x%x. Set I2C_TEN_BIT_ADDRESS for 10 bit addresses or fix the property'' st
      else st)"

function i2c_addresses_loop :: "noderef \<Rightarrow> property \<Rightarrow> int \<Rightarrow> int \<Rightarrow> chk_state \<Rightarrow> chk_state option" where
  "i2c_addresses_loop ref p k len st =
     (if len > 0 then do {
        reg \<leftarrow> cell_of p k;
        i2c_addresses_loop ref p (k + 1) (len - 4) (check_i2c_address ref p (without reg I2C_OWN_SLAVE_ADDRESS) st) }
      else Some st)"
  by pat_completeness auto
termination
  by (relation "measure (\<lambda>(ref, p, k, len, st). nat len)") auto

declare i2c_addresses_loop.simps [simp del]

definition check_i2c_bus_reg :: check_fn where
  "check_i2c_bus_reg opts ref st = do {
     n \<leftarrow> nd st ref;
     unitname \<leftarrow> get_unitname n;
     par \<leftarrow> parent_on i2c_bus st ref;
     if par = None then Some st
     else
       (case prop_of n (cstr ''reg'') of
          None \<Rightarrow> Some (FAIL ref ''missing or empty reg property'' st)
        | Some p \<Rightarrow>
            if dval (pval p) = [] then Some (FAIL ref ''missing or empty reg property'' st)
            else do {
              reg \<leftarrow> cell_of p 0;
              let st = (if unitname \<noteq> print_hex 0 (without reg I2C_OWN_SLAVE_ADDRESS)
                        then FAIL ref ''I2C bus unit address format error'' st else st);
              i2c_addresses_loop ref p 0 (s32 (dlen (pval p))) st }) }"

definition has_spi_property :: "node \<Rightarrow> bool" where
  "has_spi_property c \<longleftrightarrow> (\<exists>p \<in> set (live_props c). strprefixeq (pname p) 4 (cstr ''spi-''))"

definition check_spi_cells :: "noderef \<Rightarrow> chk_state \<Rightarrow> chk_state option" where
  "check_spi_cells ref st = do {
     n \<leftarrow> nd st ref;
     if nbus (info n) \<noteq> Some spi_bus \<or> children n = [] then Some st
     else do {
       let spi_addr_cells = (if prop_of n (cstr ''spi-slave'') \<noteq> None then 0 else 1);
       let st = (if node_addr_cells n \<noteq> spi_addr_cells then FAIL ref ''incorrect #address-cells for SPI bus'' st else st);
       Some (if node_size_cells n \<noteq> 0 then FAIL ref ''incorrect #size-cells for SPI bus'' st else st) } }"

definition check_spi_bus_bridge :: check_fn where
  "check_spi_bus_bridge opts ref st = do {
     n \<leftarrow> nd st ref;
     name \<leftarrow> nname (info n);
     if strprefixeq name (nbasenamelen (info n)) (cstr ''spi'') then check_spi_cells ref (upd ref (set_bus spi_bus) st)
     else if node_addr_cells n \<noteq> 1 \<or> node_size_cells n \<noteq> 0 then Some st
     else do {
       let found = list_ex (\<lambda>k. has_spi_property (children n ! k)) (live_children n);
       let st = (if found then upd ref (set_bus spi_bus) st else st);
       let on_spi = (found \<or> nbus (info n) = Some spi_bus);
       let st = (if on_spi \<and> prop_of n (cstr ''reg'') \<noteq> None
                 then FAIL ref ''node name for SPI buses should be 'spi' '' st else st);
       check_spi_cells ref st } }"

definition check_spi_bus_reg :: check_fn where
  "check_spi_bus_reg opts ref st = do {
     n \<leftarrow> nd st ref;
     unitname \<leftarrow> get_unitname n;
     par \<leftarrow> parent_on spi_bus st ref;
     (case par of
        None \<Rightarrow> Some st
      | Some par \<Rightarrow>
          if prop_of par (cstr ''spi-slave'') \<noteq> None then Some st
          else
            (case prop_of n (cstr ''reg'') of
               None \<Rightarrow> Some (FAIL ref ''missing or empty reg property'' st)
             | Some p \<Rightarrow>
                 if dval (pval p) = [] then Some (FAIL ref ''missing or empty reg property'' st)
                 else do {
                   reg \<leftarrow> cell_of p 0;
                   Some (if unitname \<noteq> print_hex 0 reg
                         then FAIL ref ''SPI bus unit address format error'' st else st) })) }"

definition isxdigit :: "u8 \<Rightarrow> bool" where
  "isxdigit c \<longleftrightarrow> is_digit 16 c"

definition check_unit_address_format :: check_fn where
  "check_unit_address_format opts ref st = do {
     n \<leftarrow> nd st ref;
     unitname \<leftarrow> get_unitname n;
     par \<leftarrow> parent_of st ref;
     if (case par of None \<Rightarrow> False | Some p \<Rightarrow> nbus (info p) \<noteq> None) then Some st
     else if unitname = [] then Some st
     else do {
       let hex = (take 2 unitname = cstr ''0x'');
       let st = (if hex then FAIL ref ''unit name should not have leading 0x'' st else st);
       let unitname = (if hex then drop 2 unitname else unitname);
       Some (if length unitname > 1 \<and> unitname ! 0 = chr (CHR ''0'') \<and> isxdigit (unitname ! 1)
             then FAIL ref ''unit name should not have leading 0s'' st else st) } }"

section \<open>Style checks\<close>

definition check_avoid_default_addr_size :: check_fn where
  "check_avoid_default_addr_size opts ref st = do {
     n \<leftarrow> nd st ref;
     par \<leftarrow> parent_of st ref;
     Some (case par of
         None \<Rightarrow> st
       | Some par \<Rightarrow>
           if prop_of n (cstr ''reg'') = None \<and> prop_of n (cstr ''ranges'') = None then st
           else
             let st = (if naddr_cells (info par) = - 1 then FAIL ref ''Relying on default #address-cells value'' st else st)
             in if nsize_cells (info par) = - 1 then FAIL ref ''Relying on default #size-cells value'' st else st) }"

definition check_avoid_unnecessary_addr_size :: check_fn where
  "check_avoid_unnecessary_addr_size opts ref st = do {
     n \<leftarrow> nd st ref;
     Some (if ref = [] \<or> naddr_cells (info n) < 0 \<or> nsize_cells (info n) < 0 then st
           else if prop_of n (cstr ''ranges'') \<noteq> None \<or> children n = [] then st
           else if list_ex (\<lambda>k. prop_of (children n ! k) (cstr ''reg'') \<noteq> None) (live_children n) then st
           else FAIL ref ''unnecessary #address-cells/#size-cells without ranges or child reg property'' st) }"

definition node_is_disabled :: "node \<Rightarrow> bool option" where
  "node_is_disabled n =
     (case prop_of n (cstr ''status'') of
        None \<Rightarrow> Some False
      | Some p \<Rightarrow> raw_streq (dval (pval p)) (cstr ''disabled''))"

definition disabled_if :: "bool \<Rightarrow> node \<Rightarrow> bool option" where
  "disabled_if disable_check n = (if disable_check then node_is_disabled n else Some False)"

text \<open>The live children in front of child \<open>a\<close>.\<close>

fun same_address_before :: "bool \<Rightarrow> node \<Rightarrow> noderef \<Rightarrow> nat \<Rightarrow> cstring \<Rightarrow> nat list \<Rightarrow> chk_state \<Rightarrow> chk_state option" where
  "same_address_before disable_check n ref a addr_a [] st = Some st"
| "same_address_before disable_check n ref a addr_a (b # bs) st = do {
     addr_b \<leftarrow> get_unitname (children n ! b);
     if a = b then Some st
     else do {
       skip \<leftarrow> disabled_if disable_check (children n ! b);
       same_address_before disable_check n ref a addr_a bs
         (if \<not> skip \<and> addr_a = addr_b
          then FAIL (ref @ [b]) ''duplicate unit-address (also used in node %s)'' st else st) } }"

definition check_unique_unit_address_common :: "bool \<Rightarrow> noderef \<Rightarrow> chk_state \<Rightarrow> chk_state option" where
  "check_unique_unit_address_common disable_check ref st = do {
     n \<leftarrow> nd st ref;
     if naddr_cells (info n) < 0 \<or> nsize_cells (info n) < 0 then Some st
     else if children n = [] then Some st
     else for_each (\<lambda>a st. do {
         addr_a \<leftarrow> get_unitname (children n ! a);
         if addr_a = [] then Some st
         else do {
           skip \<leftarrow> disabled_if disable_check (children n ! a);
           if skip then Some st else same_address_before disable_check n ref a addr_a (live_children n) st } })
       (live_children n) st }"

definition check_unique_unit_address :: check_fn where
  "check_unique_unit_address opts ref st = check_unique_unit_address_common False ref st"

definition check_unique_unit_address_if_enabled :: check_fn where
  "check_unique_unit_address_if_enabled opts ref st = check_unique_unit_address_common True ref st"

definition check_obsolete_chosen_interrupt_controller :: check_fn where
  "check_obsolete_chosen_interrupt_controller opts ref st =
     (if ref \<noteq> [] then Some st
      else do {
        r \<leftarrow> get_node_by_path (root_of st) (cstr ''/chosen'');
        (case r of
           None \<Rightarrow> Some st
         | Some c \<Rightarrow> do {
             chosen \<leftarrow> nd st c;
             Some (case prop_of chosen (cstr ''interrupt-controller'') of
                 None \<Rightarrow> st
               | Some p \<Rightarrow> FAIL_PROP ref (Some p) ''/chosen has obsolete interrupt-controller property'' st) }) })"

definition check_chosen_node_is_root :: check_fn where
  "check_chosen_node_is_root opts ref st = do {
     n \<leftarrow> nd st ref;
     name \<leftarrow> nname (info n);
     Some (if name \<noteq> cstr ''chosen'' then st
           else if length ref \<noteq> 1 then FAIL ref ''chosen node must be at root node'' st else st) }"

definition check_chosen_node_bootargs :: check_fn where
  "check_chosen_node_bootargs opts ref st = do {
     n \<leftarrow> nd st ref;
     name \<leftarrow> nname (info n);
     if name \<noteq> cstr ''chosen'' then Some st
     else (case prop_of n (cstr ''bootargs'') of
         None \<Rightarrow> Some st
       | Some p \<Rightarrow> check_is_string (pname p) opts ref st) }"

definition check_chosen_node_stdout_path :: check_fn where
  "check_chosen_node_stdout_path opts ref st = do {
     n \<leftarrow> nd st ref;
     name \<leftarrow> nname (info n);
     if name \<noteq> cstr ''chosen'' then Some st
     else (case prop_of n (cstr ''stdout-path'') of
         Some p \<Rightarrow> check_is_string (pname p) opts ref st
       | None \<Rightarrow>
           (case prop_of n (cstr ''linux,stdout-path'') of
              None \<Rightarrow> Some st
            | Some p \<Rightarrow> check_is_string (pname p) opts ref (FAIL_PROP ref (Some p) ''Use 'stdout-path' instead'' st))) }"

section \<open>Providers\<close>

record provider =
  prop_name :: cstring
  cell_name :: cstring
  optional :: bool

definition phandle_marker_at :: "property \<Rightarrow> int \<Rightarrow> bool" where
  "phandle_marker_at p cl \<longleftrightarrow> (\<exists>m \<in> set (dmarkers (pval p)). mtype m = REF_PHANDLE \<and> moffset m = cl * 4)"

text \<open>The loop of \<open>check_property_phandle_args\<close>; \<open>cell\<close> and \<open>cellsize\<close> are \<open>int\<close>, the lengths are \<open>size_t\<close>.\<close>

partial_function (option) phandle_args_loop ::
  "check_opts \<Rightarrow> noderef \<Rightarrow> property \<Rightarrow> provider \<Rightarrow> int \<Rightarrow> chk_state \<Rightarrow> chk_state option" where
  "phandle_args_loop opts ref p provider cl st =
     (if \<not> u64 cl < dlen (pval p) div 4 then Some st
      else do {
        phandle \<leftarrow> propval_cell_n p (u32 cl);
        if phandle = 0 \<or> phandle = UINT32_MAX then
          if dtsflags (cdti st) AND DTSF_PLUGIN \<noteq> 0 then Some st
          else phandle_args_loop opts ref p provider (s32 (cl + 1)) st
        else do {
          let st = (if dmarkers (pval p) \<noteq> [] \<and> \<not> phandle_marker_at p cl
                    then FAIL_PROP ref (Some p) ''cell %d is not a phandle reference'' st else st);
          r \<leftarrow> get_node_by_phandle (copts opts) (root_of st) phandle;
          (case r of
             None \<Rightarrow> Some (FAIL_PROP ref (Some p) ''Could not get phandle node for (cell %d)'' st)
           | Some provider_node \<Rightarrow> do {
               pn \<leftarrow> nd st provider_node;
               size \<leftarrow> (case prop_of pn (cell_name provider) of
                   Some cellprop \<Rightarrow> map_option (\<lambda>c. Some (s32 c)) (propval_cell cellprop)
                 | None \<Rightarrow> Some (if optional provider then Some 0 else None));
               (case size of
                  None \<Rightarrow> Some (FAIL ref ''Missing property '%s' in node %s or bad phandle (referred from %s[%d])'' st)
                | Some cellsize \<Rightarrow>
                    phandle_args_loop opts ref p provider (s32 (cl + (cellsize + 1)))
                      (if dlen (pval p) < u64 (s32 (cl + cellsize + 1) * 4)
                       then FAIL_PROP ref (Some p) ''property size (%d) too small for cell size %d'' st else st)) }) } })"

definition check_property_phandle_args ::
  "check_opts \<Rightarrow> noderef \<Rightarrow> property \<Rightarrow> provider \<Rightarrow> chk_state \<Rightarrow> chk_state option" where
  "check_property_phandle_args opts ref p provider st =
     (if \<not> is_multiple_of (s32 (dlen (pval p))) 4
      then Some (FAIL_PROP ref (Some p) ''property size (%d) is invalid, expected multiple of %zu'' st)
      else phandle_args_loop opts ref p provider 0 st)"

definition check_provider_cells_property :: "provider \<Rightarrow> check_fn" where
  "check_provider_cells_property provider opts ref st = do {
     n \<leftarrow> nd st ref;
     (case prop_of n (prop_name provider) of
        None \<Rightarrow> Some st
      | Some p \<Rightarrow> check_property_phandle_args opts ref p provider st) }"

definition prop_is_gpio :: "property \<Rightarrow> bool" where
  "prop_is_gpio p =
     (if strends (pname p) (cstr '',nr-gpios'') then False
      else strends (pname p) (cstr ''-gpios'') \<or> pname p = cstr ''gpios'' \<or>
           strends (pname p) (cstr ''-gpio'') \<or> pname p = cstr ''gpio'')"

definition check_gpios_property :: check_fn where
  "check_gpios_property opts ref st = do {
     n \<leftarrow> nd st ref;
     if get_property n (cstr ''gpio-hog'') \<noteq> None then Some st
     else for_each (\<lambda>p. check_property_phandle_args opts ref p
         \<lparr>prop_name = pname p, cell_name = cstr ''#gpio-cells'', optional = False\<rparr>)
       (filter prop_is_gpio (live_props n)) st }"

definition check_deprecated_gpio_property :: check_fn where
  "check_deprecated_gpio_property opts ref st = do {
     n \<leftarrow> nd st ref;
     Some (foldl (\<lambda>st p. if prop_is_gpio p \<and> strends (pname p) (cstr ''gpio'')
        then FAIL_PROP ref (Some p) ''[*-]gpio is deprecated, use [*-]gpios instead'' st else st) st (live_props n)) }"

section \<open>Interrupts\<close>

definition node_is_interrupt_provider :: "node \<Rightarrow> bool" where
  "node_is_interrupt_provider n \<longleftrightarrow>
     get_property n (cstr ''interrupt-controller'') \<noteq> None \<or> get_property n (cstr ''interrupt-map'') \<noteq> None"

definition check_interrupt_provider :: check_fn where
  "check_interrupt_provider opts ref st = do {
     n \<leftarrow> nd st ref;
     Some (if \<not> node_is_interrupt_provider n then st
       else
         let st = (if get_property n (cstr ''#interrupt-cells'') = None
                   then FAIL ref ''Missing #interrupt-cells in interrupt provider'' st else st)
         in if get_property n (cstr ''#address-cells'') = None
            then FAIL ref ''Missing #address-cells in interrupt provider'' st else st) }"

text \<open>The walk towards the root. \<open>None\<close> as the second result: the check returned.\<close>

function irq_parent_loop ::
  "check_opts \<Rightarrow> noderef \<Rightarrow> noderef \<Rightarrow> chk_state \<Rightarrow> (chk_state \<times> noderef option option) option" where
  "irq_parent_loop opts ref par st = do {
     n \<leftarrow> nd st par;
     if par \<noteq> ref \<and> node_is_interrupt_provider n then Some (st, Some (Some par))
     else
       (case prop_of n (cstr ''interrupt-parent'') of
          None \<Rightarrow> if par = [] then Some (st, Some None) else irq_parent_loop opts ref (butlast par) st
        | Some p \<Rightarrow> do {
            phandle \<leftarrow> propval_cell p;
            if phandle = 0 \<or> phandle = UINT32_MAX then
              Some (if dtsflags (cdti st) AND DTSF_PLUGIN \<noteq> 0 then (st, None)
                    else (FAIL_PROP par (Some p) ''Invalid phandle'' st, Some None))
            else do {
              r \<leftarrow> get_node_by_phandle (copts opts) (root_of st) phandle;
              (case r of
                 None \<Rightarrow> Some (FAIL_PROP par (Some p) ''Bad phandle'' st, None)
               | Some irq \<Rightarrow> do {
                   irq_node \<leftarrow> nd st irq;
                   Some (if node_is_interrupt_provider irq_node then st
                         else FAIL irq ''Missing interrupt-controller or interrupt-map property'' st, Some (Some irq)) }) } }) }"
  by pat_completeness auto
termination
  by (relation "measure (\<lambda>(opts, ref, par, st). length par)") auto

declare irq_parent_loop.simps [simp del]

definition check_interrupts_property :: check_fn where
  "check_interrupts_property opts ref st = do {
     n \<leftarrow> nd st ref;
     (case prop_of n (cstr ''interrupts'') of
        None \<Rightarrow> Some st
      | Some irq_prop \<Rightarrow> do {
          let st = (if \<not> is_multiple_of (s32 (dlen (pval irq_prop))) 4
                    then FAIL_PROP ref (Some irq_prop) ''size (%d) is invalid, expected multiple of %zu'' st else st);
          (st, r) \<leftarrow> irq_parent_loop opts ref ref st;
          (case r of
             None \<Rightarrow> Some st
           | Some None \<Rightarrow> Some (FAIL ref ''Missing interrupt-parent'' st)
           | Some (Some irq) \<Rightarrow> do {
               irq_node \<leftarrow> nd st irq;
               (case prop_of irq_node (cstr ''#interrupt-cells'') of
                  None \<Rightarrow> Some st
                | Some p \<Rightarrow> do {
                    irq_cells \<leftarrow> propval_cell p;
                    Some (if \<not> is_multiple_of (s32 (dlen (pval irq_prop))) (s32 (s32 irq_cells * 4))
                          then FAIL_PROP ref (Some p) ''size is (%d), expected multiple of %d'' st else st) }) }) }) }"

section \<open>Graphs\<close>

definition graph_endpoint_child :: "node \<Rightarrow> bool option" where
  "graph_endpoint_child c = do {
     name \<leftarrow> nname (info c);
     Some (strprefixeq name (nbasenamelen (info c)) (cstr ''endpoint'') \<or>
           get_property c (cstr ''remote-endpoint'') \<noteq> None) }"

definition check_graph_nodes :: check_fn where
  "check_graph_nodes opts ref st = do {
     n \<leftarrow> nd st ref;
     found \<leftarrow> any_child (\<lambda>k. graph_endpoint_child (children n ! k)) (live_children n);
     if \<not> found then Some st
     else do {
       let st = upd ref (set_bus graph_port_bus) st;
       par \<leftarrow> parent_of st ref;
       p \<leftarrow> par;
       if nbus (info p) \<noteq> None then Some st
       else do {
         name \<leftarrow> nname (info p);
         Some (if name = cstr ''ports'' \<or> get_property n (cstr ''reg'') \<noteq> None
               then upd (butlast ref) (set_bus graph_ports_bus) st else st) } } }"

text \<open>The number of live children, or \<open>None\<close> when one of them has a unit address that is not 0.\<close>

fun count_zero_addresses :: "node \<Rightarrow> nat list \<Rightarrow> int \<Rightarrow> int option option" where
  "count_zero_addresses n [] cnt = Some (Some cnt)"
| "count_zero_addresses n (k # ks) cnt = do {
     x \<leftarrow> (case prop_of (children n ! k) (cstr ''reg'') of None \<Rightarrow> Some 0 | Some p \<Rightarrow> propval_cell p);
     if x \<noteq> 0 then Some None else count_zero_addresses n ks (cnt + 1) }"

definition check_graph_child_address :: check_fn where
  "check_graph_child_address opts ref st = do {
     n \<leftarrow> nd st ref;
     if nbus (info n) \<noteq> Some graph_ports_bus \<and> nbus (info n) \<noteq> Some graph_port_bus then Some st
     else do {
       cnt \<leftarrow> count_zero_addresses n (live_children n) 0;
       Some (if cnt = Some 1 \<and> naddr_cells (info n) \<noteq> - 1
             then FAIL ref ''graph node has single child node, #address-cells/#size-cells are not necessary'' st else st) } }"

definition check_graph_reg :: "noderef \<Rightarrow> chk_state \<Rightarrow> chk_state option" where
  "check_graph_reg ref st = do {
     n \<leftarrow> nd st ref;
     unitname \<leftarrow> get_unitname n;
     (case prop_of n (cstr ''reg'') of
        None \<Rightarrow> Some st
      | Some p \<Rightarrow>
          if \<not> (dval (pval p) \<noteq> [] \<and> dlen (pval p) = 4) then Some (FAIL ref ''graph node malformed 'reg' property'' st)
          else do {
            reg \<leftarrow> propval_cell p;
            let st = (if unitname \<noteq> print_hex 0 reg then FAIL ref ''graph node unit address error'' st else st);
            par \<leftarrow> parent_of st ref;
            par \<leftarrow> par;
            let st = (if naddr_cells (info par) \<noteq> 1
                      then FAIL_PROP ref (prop_of n (cstr ''#address-cells'')) ''graph node '#address-cells' is %d, must be 1'' st else st);
            Some (if nsize_cells (info par) \<noteq> 0
                  then FAIL_PROP ref (prop_of n (cstr ''#size-cells'')) ''graph node '#size-cells' is %d, must be 0'' st else st) }) }"

definition check_graph_port :: check_fn where
  "check_graph_port opts ref st = do {
     n \<leftarrow> nd st ref;
     if nbus (info n) \<noteq> Some graph_port_bus then Some st
     else do {
       name \<leftarrow> nname (info n);
       check_graph_reg ref
         (if \<not> strprefixeq name (nbasenamelen (info n)) (cstr ''port'')
          then FAIL ref ''graph port node name should be 'port' '' st else st) } }"

definition get_remote_endpoint :: "check_opts \<Rightarrow> noderef \<Rightarrow> chk_state \<Rightarrow> (noderef option \<times> chk_state) option" where
  "get_remote_endpoint opts ref st = do {
     n \<leftarrow> nd st ref;
     (case prop_of n (cstr ''remote-endpoint'') of
        None \<Rightarrow> Some (None, st)
      | Some p \<Rightarrow> do {
          phandle \<leftarrow> propval_cell p;
          if phandle = 0 \<or> phandle = UINT32_MAX then Some (None, st)
          else do {
            r \<leftarrow> get_node_by_phandle (copts opts) (root_of st) phandle;
            Some (r, if r = None then FAIL_PROP ref (Some p) ''graph phandle is not valid'' st else st) } }) }"

definition check_graph_endpoint :: check_fn where
  "check_graph_endpoint opts ref st = do {
     n \<leftarrow> nd st ref;
     par \<leftarrow> parent_on graph_port_bus st ref;
     if par = None then Some st
     else do {
       name \<leftarrow> nname (info n);
       st \<leftarrow> check_graph_reg ref
         (if \<not> strprefixeq name (nbasenamelen (info n)) (cstr ''endpoint'')
          then FAIL ref ''graph endpoint node name should be 'endpoint' '' st else st);
       (remote, st) \<leftarrow> get_remote_endpoint opts ref st;
       (case remote of
          None \<Rightarrow> Some st
        | Some r \<Rightarrow> do {
            (back, st) \<leftarrow> get_remote_endpoint opts r st;
            Some (if back \<noteq> Some ref then FAIL ref ''graph connection to node '%s' is not bidirectional'' st else st) }) } }"

declare string_list_loop.simps [code] fixup_phandle_props.simps [code] compatible_loop.simps [code]
  phandle_args_loop.simps [code]

end
