(* ===== verification/Dtc_Yaml.thy ===== *)
theory Dtc_Yaml
  imports Dtc_Treesource Dtc_Checks
begin

text \<open>
  YAML output, \<open>yamltree.c\<close>. What a function emits is a list of events of libyaml, with the arguments that the source gives them; the emitter
  is not part of the program and is a parameter of \<open>dt_to_yaml\<close>. \<open>None\<close> is \<open>die\<close>, a failed assertion or a read outside of a value.
\<close>

section \<open>Events\<close>

datatype yaml_tag = YAML_STR_TAG | YAML_INT_TAG | YAML_BOOL_TAG | YAML_SEQ_TAG | YAML_MAP_TAG | Tag string

datatype yaml_style = YAML_PLAIN_SCALAR_STYLE | YAML_DOUBLE_QUOTED_SCALAR_STYLE | YAML_ANY_SEQUENCE_STYLE | YAML_FLOW_SEQUENCE_STYLE
  | YAML_ANY_MAPPING_STYLE

text \<open>A scalar has its tag, its text, and whether the tag may be left out in the plain and in a quoted style.\<close>

datatype yaml_event = Stream_Start | Stream_End | Document_Start bool | Document_End bool
  | Scalar yaml_tag cstring bool bool yaml_style
  | Sequence_Start yaml_tag bool yaml_style | Sequence_End
  | Mapping_Start yaml_tag bool yaml_style | Mapping_End

text \<open>The emitter of libyaml: its first state, one event, which may be refused, and the text written so far.\<close>

record 'e yaml_emitter =
  emitter_initialize :: 'e
  emitter_emit :: "yaml_event \<Rightarrow> 'e \<Rightarrow> 'e option"
  emitter_written :: "'e \<Rightarrow> cstring"

section \<open>Values\<close>

definition width_tag :: "nat \<Rightarrow> string option" where
  "width_tag width =
     (if width = 1 then Some ''!u8'' else if width = 2 then Some ''!u16'' else if width = 4 then Some ''!u32''
      else if width = 8 then Some ''!u64'' else None)"

text \<open>The scalar of one integer; \<open>pos\<close> is where it starts in the value.\<close>

definition yaml_int :: "marker list \<Rightarrow> int \<Rightarrow> nat \<Rightarrow> u8 list \<Rightarrow> yaml_event" where
  "yaml_int markers pos width s =
     (let buf = cstr ''0x'' @ hex_text 0 (big_endian s);
          is_phandle = (width = 4 \<and> (\<exists>m \<in> set markers. mtype m = REF_PHANDLE \<and> moffset m = u32 pos))
      in if is_phandle then Scalar (Tag ''!phandle'') buf False False YAML_PLAIN_SCALAR_STYLE
         else Scalar YAML_INT_TAG buf True True YAML_PLAIN_SCALAR_STYLE)"

fun yaml_ints_loop :: "marker list \<Rightarrow> int \<Rightarrow> nat \<Rightarrow> u8 list \<Rightarrow> yaml_event list" where
  "yaml_ints_loop markers pos width s =
     (if s = [] \<or> width = 0 then []
      else yaml_int markers pos width (take width s) # yaml_ints_loop markers (pos + int width) width (drop width s))"

declare yaml_ints_loop.simps [simp del]

definition yaml_propval_int :: "marker list \<Rightarrow> u8 list \<Rightarrow> int \<Rightarrow> nat \<Rightarrow> yaml_event list option" where
  "yaml_propval_int markers s seq_offset width = do {
     tag \<leftarrow> width_tag width;
     if length s mod width \<noteq> 0 then None
     else Some (Sequence_Start (Tag tag) (width = 4) YAML_FLOW_SEQUENCE_STYLE # yaml_ints_loop markers seq_offset width s @ [Sequence_End]) }"

definition yaml_propval_string :: "u8 list \<Rightarrow> yaml_event list option" where
  "yaml_propval_string str =
     (if str = [] \<or> last str \<noteq> 0 \<or> \<not> list_all (\<lambda>c. c < 128) str then None
      else Some [Scalar YAML_STR_TAG (butlast str) False True YAML_DOUBLE_QUOTED_SCALAR_STYLE])"

fun yaml_chunks :: "data \<Rightarrow> int \<Rightarrow> marker list \<Rightarrow> yaml_event list option" where
  "yaml_chunks d len [] = Some []"
| "yaml_chunks d len (m # ms) =
     (if \<not> has_data_type_information m then yaml_chunks d len ms
      else do {
        let chunk_len = s32 (if type_marker_length m ms \<noteq> 0 then type_marker_length m ms else len);
        if chunk_len \<le> 0 then None
        else do {
          s \<leftarrow> bytes_at (dval d) (moffset m) chunk_len;
          evs \<leftarrow> (case mtype m of
               TYPE_UINT16 \<Rightarrow> yaml_propval_int (dmarkers d) s (moffset m) 2
             | TYPE_UINT32 \<Rightarrow> yaml_propval_int (dmarkers d) s (moffset m) 4
             | TYPE_UINT64 \<Rightarrow> yaml_propval_int (dmarkers d) s (moffset m) 8
             | TYPE_STRING \<Rightarrow> yaml_propval_string s
             | _ \<Rightarrow> yaml_propval_int (dmarkers d) s (moffset m) 1);
          rest \<leftarrow> yaml_chunks d (u32 (len - chunk_len)) ms;
          Some (evs @ rest) } })"

definition yaml_propval :: "property \<Rightarrow> yaml_event list option" where
  "yaml_propval prop = do {
     let name = Scalar YAML_STR_TAG (pname prop) True True YAML_PLAIN_SCALAR_STYLE;
     if dlen (pval prop) = 0 then Some [name, Scalar YAML_BOOL_TAG (cstr ''true'') True False YAML_PLAIN_SCALAR_STYLE]
     else if dmarkers (pval prop) = [] then None
     else do {
       evs \<leftarrow> yaml_chunks (pval prop) (dlen (pval prop)) (dmarkers (pval prop));
       Some (name # Sequence_Start YAML_SEQ_TAG True YAML_FLOW_SEQUENCE_STYLE # evs @ [Sequence_End]) } }"

section \<open>Nodes and the document\<close>

text \<open>The events of a list, one after the other, as long as none of them fails.\<close>

fun events :: "yaml_event list option list \<Rightarrow> yaml_event list option" where
  "events [] = Some []"
| "events (e # es) = do { x \<leftarrow> e; xs \<leftarrow> events es; Some (x @ xs) }"

text \<open>A child with its name, which must not be \<open>NULL\<close>; deleted children are left out.\<close>

fun yaml_child :: "bool \<times> cstring option \<times> yaml_event list option \<Rightarrow> yaml_event list option" where
  "yaml_child (live, name, tree) =
     (if live then do { name \<leftarrow> name; evs \<leftarrow> tree; Some (Scalar YAML_STR_TAG name True False YAML_PLAIN_SCALAR_STYLE # evs) }
      else Some [])"

fun yaml_tree :: "node \<Rightarrow> yaml_event list option" where
  "yaml_tree (Node i ps cs) =
     (if ndeleted i then Some []
      else do {
        props \<leftarrow> events (map yaml_propval (filter (\<lambda>p. \<not> pdeleted p) ps));
        nodes \<leftarrow> events (map yaml_child (map (\<lambda>c. (\<not> ndeleted (info c), nname (info c), yaml_tree c)) cs));
        Some (Mapping_Start YAML_MAP_TAG True YAML_ANY_MAPPING_STYLE # props @ nodes @ [Mapping_End]) })"

definition yaml_events :: "dt_info \<Rightarrow> yaml_event list option" where
  "yaml_events dti = do {
     evs \<leftarrow> yaml_tree (dt dti);
     Some ([Stream_Start, Document_Start False, Sequence_Start YAML_SEQ_TAG True YAML_ANY_SEQUENCE_STYLE] @ evs @
           [Sequence_End, Document_End False, Stream_End]) }"

definition dt_to_yaml :: "'e yaml_emitter \<Rightarrow> dt_info \<Rightarrow> cstring option" where
  "dt_to_yaml emitter dti = do {
     evs \<leftarrow> yaml_events dti;
     e \<leftarrow> for_each (emitter_emit emitter) evs (emitter_initialize emitter);
     Some (emitter_written emitter e) }"

section \<open>The events form a document\<close>

text \<open>The grammar that libyaml documents for events. Lists of nodes, with their number.\<close>

inductive yaml_nodes :: "nat \<Rightarrow> yaml_event list \<Rightarrow> bool" where
  no_node: "yaml_nodes 0 []"
| scalar: "yaml_nodes n es \<Longrightarrow> yaml_nodes (Suc n) (Scalar tag v p q st # es)"
| sequence: "yaml_nodes k items \<Longrightarrow> yaml_nodes n es \<Longrightarrow> yaml_nodes (Suc n) (Sequence_Start tag im st # items @ Sequence_End # es)"
| mapping: "yaml_nodes (2 * k) pairs \<Longrightarrow> yaml_nodes n es \<Longrightarrow> yaml_nodes (Suc n) (Mapping_Start tag im st # pairs @ Mapping_End # es)"

lemma yaml_nodes_append: "yaml_nodes m xs \<Longrightarrow> yaml_nodes n ys \<Longrightarrow> yaml_nodes (m + n) (xs @ ys)"
  by (induction rule: yaml_nodes.induct) (auto intro: yaml_nodes.intros)

lemma yaml_ints_nodes: "\<exists>n. yaml_nodes n (yaml_ints_loop ms pos width s)"
proof (induction ms pos width s rule: yaml_ints_loop.induct)
  case (1 ms pos width s)
  have "\<exists>tag v p q st. yaml_int ms pos width (take width s) = Scalar tag v p q st" by (auto simp: yaml_int_def Let_def)
  then show ?case using 1 scalar no_node by (subst yaml_ints_loop.simps) (auto, blast)
qed

lemma yaml_propval_int_node: "yaml_propval_int ms s off width = Some evs \<Longrightarrow> yaml_nodes 1 evs"
  using yaml_ints_nodes [of ms off width s] sequence [OF _ no_node]
  by (auto simp: yaml_propval_int_def split: Option.bind_splits if_splits)

lemma yaml_propval_string_node: "yaml_propval_string s = Some evs \<Longrightarrow> yaml_nodes 1 evs"
  using scalar [OF no_node] by (auto simp: yaml_propval_string_def split: if_splits)

lemma yaml_chunks_nodes: "yaml_chunks d len ms = Some evs \<Longrightarrow> \<exists>n. yaml_nodes n evs"
proof (induction d len ms arbitrary: evs rule: yaml_chunks.induct)
  case (1 d len)
  then show ?case by (auto intro: no_node)
next
  case (2 d len m ms)
  show ?case
  proof (cases "has_data_type_information m")
    case False
    then show ?thesis using 2 by simp
  next
    case True
    define chunk_len where "chunk_len = s32 (if type_marker_length m ms \<noteq> 0 then type_marker_length m ms else len)"
    obtain s a rest where f: "\<not> chunk_len \<le> 0" "bytes_at (dval d) (moffset m) chunk_len = Some s"
        "(case mtype m of
               TYPE_UINT16 \<Rightarrow> yaml_propval_int (dmarkers d) s (moffset m) 2
             | TYPE_UINT32 \<Rightarrow> yaml_propval_int (dmarkers d) s (moffset m) 4
             | TYPE_UINT64 \<Rightarrow> yaml_propval_int (dmarkers d) s (moffset m) 8
             | TYPE_STRING \<Rightarrow> yaml_propval_string s
             | _ \<Rightarrow> yaml_propval_int (dmarkers d) s (moffset m) 1) = Some a"
        "yaml_chunks d (u32 (len - chunk_len)) ms = Some rest" "evs = a @ rest"
      using 2(3) True unfolding yaml_chunks.simps Let_def chunk_len_def [symmetric]
      by (auto simp: bind_eq_Some_conv split: if_splits)
    have "yaml_nodes 1 a" using f(3) yaml_propval_int_node yaml_propval_string_node by (auto split: markertype.splits)
    moreover have "\<exists>n. yaml_nodes n rest" using 2(2) True f unfolding chunk_len_def by blast
    ultimately show ?thesis using yaml_nodes_append f(5) by blast
  qed
qed

lemma yaml_propval_nodes: "yaml_propval p = Some evs \<Longrightarrow> yaml_nodes 2 evs"
proof -
  assume a: "yaml_propval p = Some evs"
  have two: "yaml_nodes 2 (x @ y)" if "yaml_nodes 1 x" "yaml_nodes 1 y" for x y using yaml_nodes_append [OF that] by (simp add: numeral_2_eq_2)
  have key: "yaml_nodes 1 [Scalar t v a b st]" for t v a b st using scalar [OF no_node] by simp
  have sq: "yaml_nodes 1 (Sequence_Start t i st # es @ [Sequence_End])" if "\<exists>n. yaml_nodes n es" for t i st es
    using that sequence [OF _ no_node] by auto
  show ?thesis using a two [OF key key] two [OF key sq] yaml_chunks_nodes
    by (fastforce simp: yaml_propval_def Let_def bind_eq_Some_conv split: if_splits)
qed

lemma events_nodes:
  assumes "events es = Some evs" "\<And>x. Some x \<in> set es \<Longrightarrow> \<exists>k. yaml_nodes (2 * k) x"
  shows "\<exists>k. yaml_nodes (2 * k) evs"
  using assms
proof (induction es arbitrary: evs)
  case Nil
  then show ?case using no_node by (auto intro!: exI [of _ 0])
next
  case (Cons e es)
  obtain x xs where f: "e = Some x" "events es = Some xs" "evs = x @ xs" using Cons.prems(1) by (auto simp: bind_eq_Some_conv)
  obtain k where k: "yaml_nodes (2 * k) x" using Cons.prems(2) f(1) by auto
  obtain l where l: "yaml_nodes (2 * l) xs" using Cons.IH [OF f(2)] Cons.prems(2) by auto
  show ?case using yaml_nodes_append [OF k l] f(3) by (auto intro!: exI [of _ "k + l"] simp: algebra_simps)
qed

lemma yaml_child_nodes:
  assumes "yaml_child (live, name, tree) = Some x" "\<And>es. live \<Longrightarrow> tree = Some es \<Longrightarrow> yaml_nodes 1 es"
  shows "\<exists>k. yaml_nodes (2 * k) x"
proof (cases live)
  case True
  then obtain nm es where e: "tree = Some es" "x = Scalar YAML_STR_TAG nm True False YAML_PLAIN_SCALAR_STYLE # es"
    using assms(1) by (auto simp: bind_eq_Some_conv)
  have "yaml_nodes (Suc 1) x" unfolding e(2) by (rule scalar, rule assms(2) [OF True e(1)])
  then show ?thesis by (intro exI [of _ 1]) (simp add: numeral_2_eq_2)
next
  case False
  then show ?thesis using assms(1) no_node by (auto intro!: exI [of _ 0])
qed

lemma yaml_tree_node: "yaml_tree t = Some evs \<Longrightarrow> \<not> ndeleted (info t) \<Longrightarrow> yaml_nodes 1 evs"
proof (induction t arbitrary: evs rule: yaml_tree.induct)
  case (1 i ps cs)
  let ?kids = "map (\<lambda>c. (\<not> ndeleted (info c), nname (info c), yaml_tree c)) cs"
  obtain props nodes where f: "events (map yaml_propval (filter (\<lambda>p. \<not> pdeleted p) ps)) = Some props"
      "events (map yaml_child ?kids) = Some nodes" "evs = Mapping_Start YAML_MAP_TAG True YAML_ANY_MAPPING_STYLE # props @ nodes @ [Mapping_End]"
    using 1(2,3) by (auto simp: bind_eq_Some_conv)
  have live: "\<not> ndeleted i" using 1(3) by simp
  have "\<exists>k. yaml_nodes (2 * k) props"
  proof (rule events_nodes [OF f(1)])
    fix x assume "Some x \<in> set (map yaml_propval (filter (\<lambda>p. \<not> pdeleted p) ps))"
    then obtain p where "yaml_propval p = Some x" by (metis (no_types, lifting) imageE list.set_map)
    then show "\<exists>k. yaml_nodes (2 * k) x" using yaml_propval_nodes by (intro exI [of _ 1]) simp
  qed
  moreover have "\<exists>k. yaml_nodes (2 * k) nodes"
  proof (rule events_nodes [OF f(2)])
    fix x assume "Some x \<in> set (map yaml_child ?kids)"
    then obtain c where c: "c \<in> set cs" "yaml_child (\<not> ndeleted (info c), nname (info c), yaml_tree c) = Some x"
      by (auto simp del: yaml_child.simps)
    show "\<exists>k. yaml_nodes (2 * k) x" by (rule yaml_child_nodes [OF c(2)]) (rule 1(1) [OF live f(1) c(1)])
  qed
  ultimately obtain k l where kl: "yaml_nodes (2 * k) props" "yaml_nodes (2 * l) nodes" by blast
  have "yaml_nodes (2 * (k + l)) (props @ nodes)" using yaml_nodes_append [OF kl] by (simp add: algebra_simps)
  from mapping [OF this no_node] show ?case using f(3) by simp
qed

text \<open>Whatever the values are, a live tree gives one node in the sequence of the document.\<close>

lemma yaml_events_document:
  assumes "yaml_events dti = Some evs" "\<not> ndeleted (info (dt dti))"
  shows "\<exists>root. yaml_nodes 1 root \<and>
    evs = [Stream_Start, Document_Start False, Sequence_Start YAML_SEQ_TAG True YAML_ANY_SEQUENCE_STYLE] @ root @
      [Sequence_End, Document_End False, Stream_End]"
  using assms yaml_tree_node by (auto simp: yaml_events_def bind_eq_Some_conv)

section \<open>Values are read back\<close>

text \<open>A reader of the events of a value: the parts of the value with their types.\<close>

definition hex_value :: "cstring \<Rightarrow> int" where
  "hex_value s = foldl (\<lambda>a c. a * 16 + the (digit_value c)) 0 s"

fun be_bytes :: "nat \<Rightarrow> int \<Rightarrow> u8 list" where
  "be_bytes 0 x = []"
| "be_bytes (Suc n) x = be_bytes n (x div 256) @ [word_of_int x]"

fun read_int :: "nat \<Rightarrow> yaml_event \<Rightarrow> u8 list" where
  "read_int width (Scalar tag v p q st) = be_bytes width (hex_value (drop 2 v))"
| "read_int width _ = []"

definition tag_type :: "string \<Rightarrow> markertype \<times> nat" where
  "tag_type t = (if t = ''!u16'' then (TYPE_UINT16, 2) else if t = ''!u32'' then (TYPE_UINT32, 4)
     else if t = ''!u64'' then (TYPE_UINT64, 8) else (TYPE_UINT8, 1))"

abbreviation is_scalar :: "yaml_event \<Rightarrow> bool" where
  "is_scalar e \<equiv> (case e of Scalar _ _ _ _ _ \<Rightarrow> True | _ \<Rightarrow> False)"

function read_items :: "yaml_event list \<Rightarrow> (markertype \<times> u8 list) list" where
  "read_items [] = []"
| "read_items (e # es) =
     (case e of
        Scalar tag v p q st \<Rightarrow> (TYPE_STRING, v @ [0]) # read_items es
      | Sequence_Start (Tag t) im st \<Rightarrow>
          (fst (tag_type t), concat (map (read_int (snd (tag_type t))) (takeWhile is_scalar es))) # read_items (dropWhile is_scalar es)
      | _ \<Rightarrow> read_items es)"
  by pat_completeness auto
termination by (relation "measure length") (auto simp: le_imp_less_Suc length_dropWhile_le)

text \<open>The type markers of a value that is made of typed parts, and parts that can be written.\<close>

fun place :: "int \<Rightarrow> (markertype \<times> u8 list) list \<Rightarrow> (markertype \<times> int) list" where
  "place off [] = []"
| "place off ((ty, s) # parts) = (ty, off) # place (off + int (length s)) parts"

fun part_ok :: "markertype \<times> u8 list \<Rightarrow> bool" where
  "part_ok (ty, s) \<longleftrightarrow> s \<noteq> [] \<and>
     (case ty of TYPE_UINT8 \<Rightarrow> True | TYPE_UINT16 \<Rightarrow> length s mod 2 = 0 | TYPE_UINT32 \<Rightarrow> length s mod 4 = 0
        | TYPE_UINT64 \<Rightarrow> length s mod 8 = 0 | TYPE_STRING \<Rightarrow> last s = 0 \<and> list_all (\<lambda>c. c < 128) s | _ \<Rightarrow> False)"

abbreviation type_markers :: "marker list \<Rightarrow> (markertype \<times> int) list" where
  "type_markers ms \<equiv> map (\<lambda>m. (mtype m, moffset m)) (filter has_data_type_information ms)"

lemma word_of_int_eq_byte: "take_bit 8 x = uint b \<Longrightarrow> word_of_int x = (b :: u8)"
proof -
  assume "take_bit 8 x = uint b"
  then have "uint (word_of_int x :: u8) = uint b" by (simp add: uint_word_of_int take_bit_eq_mod)
  then show ?thesis by (simp only: word_uint_eq_iff)
qed

lemma be_bytes_big_endian: "be_bytes (length s) (big_endian s) = s"
proof (induction s rule: rev_induct)
  case (snoc b s)
  have "big_endian (s @ [b]) = big_endian s * 256 + uint b" by (simp add: big_endian_def)
  moreover have "0 \<le> uint b" "uint b < 256" using uint_lt2p [of b] by simp_all
  moreover have "word_of_int (big_endian s * 256 + uint b) = b"
  proof -
    have "(big_endian s * 256 + uint b) mod 256 = uint b" using uint_lt2p [of b] by simp
    then have "take_bit 8 (big_endian s * 256 + uint b) = uint b" by (simp add: take_bit_eq_mod)
    then show ?thesis by (rule word_of_int_eq_byte)
  qed
  ultimately show ?case using snoc by simp
qed simp

lemma big_endian_nonneg: "0 \<le> big_endian s"
  by (induction s rule: rev_induct) (simp_all add: big_endian_def)

lemma read_yaml_int: "length s = width \<Longrightarrow> read_int width (yaml_int ms pos width s) = s \<and> is_scalar (yaml_int ms pos width s)"
proof -
  assume l: "length s = width"
  have "hex_value (hex_text 0 (big_endian s)) = big_endian s"
    using digits_value [of 16 "nat (big_endian s)"] big_endian_nonneg [of s] by (simp add: hex_value_def hex_text_def Let_def)
  then show ?thesis using l be_bytes_big_endian [of s] by (auto simp: yaml_int_def Let_def cstr_def)
qed

lemma read_yaml_ints:
  "0 < width \<Longrightarrow> length s mod width = 0 \<Longrightarrow>
   concat (map (read_int width) (yaml_ints_loop ms pos width s)) = s \<and> list_all is_scalar (yaml_ints_loop ms pos width s)"
proof (induction ms pos width s rule: yaml_ints_loop.induct)
  case (1 ms pos width s)
  show ?case
  proof (cases "s = []")
    case True
    then show ?thesis by (simp add: yaml_ints_loop.simps)
  next
    case False
    then have l: "width \<le> length s" using 1(2,3) by (metis mod_less not_le length_0_conv)
    then have "length (drop width s) mod width = 0" using 1(3) by (simp add: le_mod_geq)
    then show ?thesis using 1(1) 1(2) False l read_yaml_int [of "take width s" width ms pos]
      by (subst (1 2) yaml_ints_loop.simps) simp
  qed
qed

lemma read_ints_node:
  assumes "width_tag width = Some t" "length s mod width = 0"
  shows "\<exists>evs. yaml_propval_int ms s off width = Some evs \<and>
    (\<forall>rest. read_items (evs @ rest) = (fst (tag_type t), s) # read_items rest)"
proof -
  have w: "0 < width" "snd (tag_type t) = width" using assms(1) by (auto simp: width_tag_def tag_type_def split: if_splits)
  note r = read_yaml_ints [OF w(1) assms(2), of ms off]
  have "takeWhile is_scalar (yaml_ints_loop ms off width s @ Sequence_End # rest) = yaml_ints_loop ms off width s"
    "dropWhile is_scalar (yaml_ints_loop ms off width s @ Sequence_End # rest) = Sequence_End # rest" for rest
    using r by (simp_all add: list_all_iff takeWhile_append2 dropWhile_append2)
  then show ?thesis using assms w r by (simp add: yaml_propval_int_def)
qed

lemma next_type_markers: "next_type_marker ms = None \<and> type_markers ms = [] \<or>
    (\<exists>m. next_type_marker ms = Some m \<and> type_markers ms \<noteq> [] \<and> hd (type_markers ms) = (mtype m, moffset m))"
  by (induction ms) auto

lemma chunk_bytes:
  assumes "contents d = map Some (pre @ s @ post)" "dlen d = int (length (pre @ s @ post))"
  shows "bytes_at (dval d) (int (length pre)) (int (length s)) = Some s"
proof -
  have l: "length pre + length s + length post \<le> length (dval d)"
    using arg_cong [OF assms(1), of length] assms(2) by (simp add: contents_def)
  have "take (length s) (drop (length pre) (dval d)) = take (length s) (drop (length pre) (contents d))"
    using assms(2) by (simp add: contents_def take_drop min_def)
  then show ?thesis using l assms(1) by (auto simp: bytes_at_def peek_def)
qed

lemma read_part:
  assumes "part_ok (ty, s)"
  shows "\<exists>evs. (case ty of
       TYPE_UINT16 \<Rightarrow> yaml_propval_int ms s off 2
     | TYPE_UINT32 \<Rightarrow> yaml_propval_int ms s off 4
     | TYPE_UINT64 \<Rightarrow> yaml_propval_int ms s off 8
     | TYPE_STRING \<Rightarrow> yaml_propval_string s
     | _ \<Rightarrow> yaml_propval_int ms s off 1) = Some evs \<and> (\<forall>rest. read_items (evs @ rest) = (ty, s) # read_items rest)"
proof -
  have t: "width_tag 1 = Some ''!u8''" "width_tag 2 = Some ''!u16''" "width_tag 4 = Some ''!u32''" "width_tag 8 = Some ''!u64''"
    by (simp_all add: width_tag_def)
  have ty: "fst (tag_type ''!u8'') = TYPE_UINT8" "fst (tag_type ''!u16'') = TYPE_UINT16" "fst (tag_type ''!u32'') = TYPE_UINT32"
    "fst (tag_type ''!u64'') = TYPE_UINT64" by (simp_all add: tag_type_def)
  have str: "s \<noteq> [] \<Longrightarrow> last s = 0 \<Longrightarrow> butlast s @ [0] = s" by (metis append_butlast_last_id)
  show ?thesis using assms read_ints_node [OF t(1), of s ms off] read_ints_node [OF t(2), of s ms off] read_ints_node [OF t(3), of s ms off]
      read_ints_node [OF t(4), of s ms off] str unfolding ty
    by (cases ty) (simp_all add: yaml_propval_string_def)
qed

lemma place_types: "list_all part_ok parts \<Longrightarrow> place off parts = type_markers ms \<Longrightarrow> parts = [] \<longleftrightarrow> next_type_marker ms = None"
  using next_type_markers [of ms] by (cases parts) auto

lemma chunk_length:
  assumes "place (moffset m + int (length s)) parts = type_markers ms" "0 \<le> moffset m" "moffset m + int (length s) < 2 ^ 31" "s \<noteq> []"
  shows "type_marker_length m ms = (if parts = [] then 0 else int (length s))"
proof (cases parts)
  case Nil
  then show ?thesis using assms(1) next_type_markers [of ms] by (auto simp: type_marker_length_def)
next
  case (Cons q parts')
  obtain ty u where q: "q = (ty, u)" by (cases q)
  have "\<exists>n. next_type_marker ms = Some n \<and> moffset n = moffset m + int (length s)"
    using assms(1) next_type_markers [of ms] unfolding Cons q place.simps by (metis list.distinct(1) list.sel(1) snd_conv)
  then show ?thesis using assms Cons by (auto simp: type_marker_length_def intro!: u32_id)
qed

lemma read_yaml_chunks:
  assumes "contents d = map Some (pre @ concat (map snd parts))" "dlen d = int (length (pre @ concat (map snd parts)))" "dlen d < 2 ^ 31"
    "place (int (length pre)) parts = type_markers ms" "list_all part_ok parts"
  shows "\<exists>evs. yaml_chunks d (int (length (concat (map snd parts)))) ms = Some evs \<and> (\<forall>rest. read_items (evs @ rest) = parts @ read_items rest)"
  using assms
proof (induction ms arbitrary: pre parts)
  case Nil
  then show ?case by (cases parts rule: list.exhaust; cases "hd parts") auto
next
  case (Cons m ms)
  show ?case
  proof (cases "has_data_type_information m")
    case False
    then show ?thesis using Cons.IH [OF Cons.prems(1-3) _ Cons.prems(5)] Cons.prems(4) by simp
  next
    case True
    then obtain s parts' where p: "parts = (mtype m, s) # parts'" "moffset m = int (length pre)"
        "place (int (length (pre @ s))) parts' = type_markers ms"
      using Cons.prems(4) by (cases parts rule: list.exhaust; cases "hd parts") auto
    define n where "n = int (length (concat (map snd parts')))"
    have s: "s \<noteq> []" "part_ok (mtype m, s)" "list_all part_ok parts'" using Cons.prems(5) p(1) by auto
    have len: "int (length pre) + int (length s) + n = dlen d" using Cons.prems(2) p(1) by (simp add: n_def)
    have b: "bytes_at (dval d) (moffset m) (int (length s)) = Some s"
      using chunk_bytes [of d pre s "concat (map snd parts')"] Cons.prems(1,2) p(1,2) by simp
    have tl: "type_marker_length m ms = (if parts' = [] then 0 else int (length s))"
      by (rule chunk_length) (use p(2,3) len Cons.prems(3) s(1) in \<open>simp_all add: n_def\<close>)
    have c: "s32 (if type_marker_length m ms \<noteq> 0 then type_marker_length m ms else int (length s) + n) = int (length s)"
      using tl s(1) len Cons.prems(3) by (auto simp: n_def intro!: s32_id)
    have r: "u32 (int (length s) + n - int (length s)) = n" using len Cons.prems(3) by (simp add: u32_id n_def)
    obtain evs where evs: "yaml_chunks d n ms = Some evs" "\<And>rest. read_items (evs @ rest) = parts' @ read_items rest"
      using Cons.IH [of "pre @ s" parts'] Cons.prems(1-3) p s(3) unfolding n_def by auto
    obtain xs where xs: "(case mtype m of
         TYPE_UINT16 \<Rightarrow> yaml_propval_int (dmarkers d) s (moffset m) 2
       | TYPE_UINT32 \<Rightarrow> yaml_propval_int (dmarkers d) s (moffset m) 4
       | TYPE_UINT64 \<Rightarrow> yaml_propval_int (dmarkers d) s (moffset m) 8
       | TYPE_STRING \<Rightarrow> yaml_propval_string s
       | _ \<Rightarrow> yaml_propval_int (dmarkers d) s (moffset m) 1) = Some xs" "\<And>rest. read_items (xs @ rest) = (mtype m, s) # read_items rest"
      using read_part [OF s(2), of "dmarkers d" "moffset m"] by blast
    have "yaml_chunks d (int (length s) + n) (m # ms) = Some (xs @ evs)"
      using True s(1) b c r xs(1) evs(1) unfolding yaml_chunks.simps Let_def c by simp
    then show ?thesis using xs(2) evs(2) p(1) by (simp add: n_def)
  qed
qed

text \<open>C13: The YAML output keeps every byte of a value and its type. On a value made of typed parts, not empty, the integers of
  full width and the strings in ASCII with their final NUL, the events of the property are its name and a sequence, and reading
  that sequence gives back the parts, whatever other markers (labels, references) the value has.\<close>

theorem yaml_value_roundtrip:
  assumes "contents (pval p) = map Some (concat (map snd parts))" "dlen (pval p) = int (length (concat (map snd parts)))"
    "dlen (pval p) < 2 ^ 31" "place 0 parts = type_markers (dmarkers (pval p))" "list_all part_ok parts" "parts \<noteq> []"
  shows "\<exists>evs. yaml_propval p = Some (Scalar YAML_STR_TAG (pname p) True True YAML_PLAIN_SCALAR_STYLE #
      Sequence_Start YAML_SEQ_TAG True YAML_FLOW_SEQUENCE_STYLE # evs @ [Sequence_End]) \<and> read_items evs = parts"
proof -
  obtain evs where evs: "yaml_chunks (pval p) (dlen (pval p)) (dmarkers (pval p)) = Some evs" "\<And>rest. read_items (evs @ rest) = parts @ read_items rest"
    using read_yaml_chunks [of "pval p" "[]" parts "dmarkers (pval p)"] assms by auto
  have "dlen (pval p) \<noteq> 0" using assms(2,5,6) by (cases parts rule: list.exhaust; cases "hd parts") (auto simp: add_nonneg_eq_0_iff)
  moreover have "dmarkers (pval p) \<noteq> []" using assms(4,6) by (cases parts rule: list.exhaust; cases "hd parts") auto
  ultimately show ?thesis using evs(1) evs(2) [of "[]"] by (simp add: yaml_propval_def)
qed

definition sample_typed :: property where
  "sample_typed = \<lparr>pdeleted = False, pname = cstr ''p'', pval = \<lparr>dlen = 10, dval = map Some [0, 0, 0, 1, 0, 0, 0, 2, 97, 0],
     dmarkers = [\<lparr>mtype = TYPE_UINT32, moffset = 0, mref = None\<rparr>, \<lparr>mtype = REF_PHANDLE, moffset = 4, mref = Some (cstr ''l'')\<rparr>,
       \<lparr>mtype = TYPE_STRING, moffset = 8, mref = None\<rparr>]\<rparr>, plabels = []\<rparr>"

theorem yaml_value_roundtrip_witness:
  "\<exists>evs. yaml_propval sample_typed = Some (Scalar YAML_STR_TAG (cstr ''p'') True True YAML_PLAIN_SCALAR_STYLE #
      Sequence_Start YAML_SEQ_TAG True YAML_FLOW_SEQUENCE_STYLE # evs @ [Sequence_End]) \<and>
    read_items evs = [(TYPE_UINT32, [0, 0, 0, 1, 0, 0, 0, 2]), (TYPE_STRING, [97, 0])]"
  using yaml_value_roundtrip [of sample_typed "[(TYPE_UINT32, [0, 0, 0, 1, 0, 0, 0, 2]), (TYPE_STRING, [97, 0])]"]
  by (simp add: sample_typed_def contents_def has_data_type_information_def)

text \<open>An empty part, which the grammar allows, is a failed assertion.\<close>

lemma yaml_empty_part:
  assumes "mtype m = TYPE_UINT32" "mtype m' = TYPE_UINT32" "moffset m = 0" "moffset m' = 4" "dlen d = 4"
  shows "yaml_chunks d 4 [m, m'] = None"
  using assms by (simp add: type_marker_length_def has_data_type_information_def u32_def s32_def Let_def bind_eq_None_conv)

end
