(* ===== verification/Dtc_Check_Table.thy ===== *)
theory Dtc_Check_Table
  imports Dtc_Checks
begin

text \<open>
  The table of the checks, the driver that runs them and the options that choose them, from \<open>checks.c\<close>.
\<close>

section \<open>The table of checks\<close>

datatype checkstatus = UNCHECKED | PREREQ | PASSED | FAILED

text \<open>A \<open>struct check\<close>, with \<open>data\<close> given to the function already. Pointers to checks are their names, which are
  different.\<close>

record check =
  cname :: string
  cfn :: check_fn
  cwarn :: bool
  cerror :: bool
  cstatus :: checkstatus
  inprogress :: bool
  prereq :: "string list"

definition CHECK_ENTRY :: "string \<Rightarrow> check_fn \<Rightarrow> bool \<Rightarrow> bool \<Rightarrow> string list \<Rightarrow> check" where
  "CHECK_ENTRY nm fn w e pre =
     \<lparr>cname = nm, cfn = fn, cwarn = w, cerror = e, cstatus = UNCHECKED, inprogress = False, prereq = pre\<rparr>"

definition WARNING :: "string \<Rightarrow> check_fn \<Rightarrow> string list \<Rightarrow> check" where
  "WARNING nm fn pre = CHECK_ENTRY nm fn True False pre"

definition ERROR :: "string \<Rightarrow> check_fn \<Rightarrow> string list \<Rightarrow> check" where
  "ERROR nm fn pre = CHECK_ENTRY nm fn False True pre"

definition CHECK :: "string \<Rightarrow> check_fn \<Rightarrow> string list \<Rightarrow> check" where
  "CHECK nm fn pre = CHECK_ENTRY nm fn False False pre"

definition WARNING_PROPERTY_PHANDLE_CELLS :: "string \<Rightarrow> cstring \<Rightarrow> cstring \<Rightarrow> bool \<Rightarrow> check list" where
  "WARNING_PROPERTY_PHANDLE_CELLS nm propname cells_name opt =
     [WARNING (nm @ ''_property'')
        (check_provider_cells_property \<lparr>prop_name = propname, cell_name = cells_name, optional = opt\<rparr>)
        [nm @ ''_is_cell'', ''phandle_references''],
      WARNING (nm @ ''_is_cell'') (check_is_cell cells_name) []]"

text \<open>\<open>check_table\<close>, in its order: the checks up to those of \<open>/chosen\<close>, the pairs for the properties with
  phandles, and the rest. The third argument of \<open>WARNING (interrupts_property, ...)\<close> is its \<open>data\<close>, so it has no prerequisite.\<close>

definition early_checks :: "check list" where
  "early_checks =
    [ERROR ''duplicate_node_names'' check_duplicate_node_names [],
     ERROR ''duplicate_property_names'' check_duplicate_property_names [],
     ERROR ''node_name_chars'' (check_node_name_chars NODECHARS) [],
     ERROR ''node_name_format'' check_node_name_format [''node_name_chars''],
     ERROR ''property_name_chars'' (check_property_name_chars PROPCHARS) [],
     ERROR ''name_is_string'' (check_is_string (cstr ''name'')) [],
     ERROR ''name_properties'' check_name_properties [''name_is_string''],
     WARNING ''node_name_vs_property_name'' check_node_name_vs_property_name [''node_name_chars''],
     ERROR ''duplicate_label'' check_duplicate_label_node [],
     ERROR ''explicit_phandles'' check_explicit_phandles [],
     ERROR ''phandle_references'' fixup_phandle_references [''duplicate_node_names'', ''explicit_phandles''],
     ERROR ''path_references'' fixup_path_references [''duplicate_node_names''],
     ERROR ''omit_unused_nodes'' fixup_omit_unused_nodes [''phandle_references'', ''path_references''],
     WARNING ''address_cells_is_cell'' (check_is_cell (cstr ''#address-cells'')) [],
     WARNING ''size_cells_is_cell'' (check_is_cell (cstr ''#size-cells'')) [],
     WARNING ''device_type_is_string'' (check_is_string (cstr ''device_type'')) [],
     WARNING ''model_is_string'' (check_is_string (cstr ''model'')) [],
     WARNING ''status_is_string'' (check_is_string (cstr ''status'')) [],
     WARNING ''label_is_string'' (check_is_string (cstr ''label'')) [],
     WARNING ''compatible_is_string_list'' (check_is_string_list (cstr ''compatible'')) [],
     WARNING ''names_is_string_list'' check_names_is_string_list [],
     CHECK ''property_name_chars_strict'' (check_property_name_chars_strict PROPNODECHARSSTRICT) [],
     CHECK ''node_name_chars_strict'' (check_node_name_chars_strict PROPNODECHARSSTRICT) [],
     WARNING ''addr_size_cells'' fixup_addr_size_cells [''address_cells_is_cell'', ''size_cells_is_cell''],
     WARNING ''reg_format'' check_reg_format [''addr_size_cells''],
     WARNING ''ranges_format'' (check_ranges_format (cstr ''ranges'')) [''addr_size_cells''],
     WARNING ''dma_ranges_format'' (check_ranges_format (cstr ''dma-ranges'')) [''addr_size_cells''],
     WARNING ''unit_address_vs_reg'' check_unit_address_vs_reg [],
     WARNING ''unit_address_format'' check_unit_address_format [''node_name_format'', ''pci_bridge'', ''simple_bus_bridge''],
     WARNING ''pci_bridge'' check_pci_bridge [''device_type_is_string'', ''addr_size_cells''],
     WARNING ''pci_device_reg'' check_pci_device_reg [''reg_format'', ''pci_bridge''],
     WARNING ''pci_device_bus_num'' check_pci_device_bus_num [''reg_format'', ''pci_bridge''],
     WARNING ''simple_bus_bridge'' check_simple_bus_bridge [''addr_size_cells'', ''compatible_is_string_list''],
     WARNING ''simple_bus_reg'' check_simple_bus_reg [''reg_format'', ''simple_bus_bridge''],
     WARNING ''i2c_bus_bridge'' check_i2c_bus_bridge [''addr_size_cells''],
     WARNING ''i2c_bus_reg'' check_i2c_bus_reg [''reg_format'', ''i2c_bus_bridge''],
     WARNING ''spi_bus_bridge'' check_spi_bus_bridge [''addr_size_cells''],
     WARNING ''spi_bus_reg'' check_spi_bus_reg [''reg_format'', ''spi_bus_bridge''],
     WARNING ''avoid_default_addr_size'' check_avoid_default_addr_size [''addr_size_cells''],
     WARNING ''avoid_unnecessary_addr_size'' check_avoid_unnecessary_addr_size [''avoid_default_addr_size''],
     WARNING ''unique_unit_address'' check_unique_unit_address [''avoid_default_addr_size''],
     CHECK ''unique_unit_address_if_enabled'' check_unique_unit_address_if_enabled [''avoid_default_addr_size''],
     WARNING ''obsolete_chosen_interrupt_controller'' check_obsolete_chosen_interrupt_controller [],
     WARNING ''chosen_node_is_root'' check_chosen_node_is_root [],
     WARNING ''chosen_node_bootargs'' check_chosen_node_bootargs [],
     WARNING ''chosen_node_stdout_path'' check_chosen_node_stdout_path []]"

definition provider_table :: "(string \<times> cstring \<times> cstring \<times> bool) list" where
  "provider_table =
    [(''clocks'', cstr ''clocks'', cstr ''#clock-cells'', False),
     (''cooling_device'', cstr ''cooling-device'', cstr ''#cooling-cells'', False),
     (''dmas'', cstr ''dmas'', cstr ''#dma-cells'', False),
     (''hwlocks'', cstr ''hwlocks'', cstr ''#hwlock-cells'', False),
     (''interrupts_extended'', cstr ''interrupts-extended'', cstr ''#interrupt-cells'', False),
     (''io_channels'', cstr ''io-channels'', cstr ''#io-channel-cells'', False),
     (''iommus'', cstr ''iommus'', cstr ''#iommu-cells'', False),
     (''mboxes'', cstr ''mboxes'', cstr ''#mbox-cells'', False),
     (''msi_parent'', cstr ''msi-parent'', cstr ''#msi-cells'', True),
     (''mux_controls'', cstr ''mux-controls'', cstr ''#mux-control-cells'', False),
     (''phys'', cstr ''phys'', cstr ''#phy-cells'', False),
     (''power_domains'', cstr ''power-domains'', cstr ''#power-domain-cells'', False),
     (''pwms'', cstr ''pwms'', cstr ''#pwm-cells'', False),
     (''resets'', cstr ''resets'', cstr ''#reset-cells'', False),
     (''sound_dai'', cstr ''sound-dai'', cstr ''#sound-dai-cells'', False),
     (''thermal_sensors'', cstr ''thermal-sensors'', cstr ''#thermal-sensor-cells'', False)]"

definition late_checks :: "check list" where
  "late_checks =
    [CHECK ''deprecated_gpio_property'' check_deprecated_gpio_property [],
     WARNING ''gpios_property'' check_gpios_property [''phandle_references''],
     WARNING ''interrupts_property'' check_interrupts_property [],
     WARNING ''interrupt_provider'' check_interrupt_provider [],
     WARNING ''alias_paths'' check_alias_paths [],
     WARNING ''graph_nodes'' check_graph_nodes [],
     WARNING ''graph_child_address'' check_graph_child_address [''graph_nodes''],
     WARNING ''graph_port'' check_graph_port [''graph_nodes''],
     WARNING ''graph_endpoint'' check_graph_endpoint [''graph_nodes''],
     CHECK ''always_fail'' check_always_fail []]"

definition check_table :: "check list" where
  "check_table = early_checks @
     concat (map (\<lambda>(nm, propname, cells_name, opt). WARNING_PROPERTY_PHANDLE_CELLS nm propname cells_name opt) provider_table) @
     late_checks"

section \<open>Running the checks\<close>

text \<open>A message names the check and the failure; a failed prerequisite is \<open>Inr\<close>. Messages are not printed when
  they are switched off or \<open>quiet\<close> is high enough.\<close>

type_synonym message = "string \<times> bool \<times> (fail + string)"

record checker =
  checks :: "check list"
  chk :: chk_state
  messages :: "message list"

definition check_msg :: "check_opts \<Rightarrow> check \<Rightarrow> (fail + string) list \<Rightarrow> checker \<Rightarrow> checker" where
  "check_msg opts c ms s =
     (if \<not> (cwarn c \<and> quiet opts < 1) \<and> \<not> (cerror c \<and> quiet opts < 2) then s
      else s\<lparr>messages := messages s @ map (\<lambda>m. (cname c, cerror c, m)) ms\<rparr>)"

definition check_at :: "checker \<Rightarrow> string \<Rightarrow> check option" where
  "check_at s nm = find (\<lambda>c. cname c = nm) (checks s)"

definition set_check :: "string \<Rightarrow> (check \<Rightarrow> check) \<Rightarrow> checker \<Rightarrow> checker" where
  "set_check nm f s = s\<lparr>checks := map (\<lambda>c. if cname c = nm then f c else c) (checks s)\<rparr>"

text \<open>The children from number \<open>k\<close> on; the check function may change the tree.\<close>

partial_function (option) check_children ::
  "(noderef \<Rightarrow> chk_state \<Rightarrow> chk_state option) \<Rightarrow> noderef \<Rightarrow> nat \<Rightarrow> chk_state \<Rightarrow> chk_state option" where
  "check_children f ref k st = do {
     n \<leftarrow> nd st ref;
     if length (children n) \<le> k then Some st
     else if ndeleted (info (children n ! k)) then check_children f ref (Suc k) st
     else do {
       st \<leftarrow> f (ref @ [k]) st;
       st \<leftarrow> check_children f (ref @ [k]) 0 st;
       check_children f ref (Suc k) st } }"

definition check_nodes_props :: "(noderef \<Rightarrow> chk_state \<Rightarrow> chk_state option) \<Rightarrow> noderef \<Rightarrow> chk_state \<Rightarrow> chk_state option" where
  "check_nodes_props f ref st = do { st \<leftarrow> f ref st; check_children f ref 0 st }"

text \<open>The part of \<open>run_check\<close> at \<open>out\<close>.\<close>

definition run_out :: "string \<Rightarrow> bool \<Rightarrow> checker \<Rightarrow> (bool \<times> checker) option" where
  "run_out nm error s = do {
     c \<leftarrow> check_at s nm;
     Some (error \<or> (cstatus c \<noteq> PASSED \<and> cerror c), set_check nm (\<lambda>c. c\<lparr>inprogress := False\<rparr>) s) }"

text \<open>The check itself, once its prerequisites have been looked at.\<close>

definition run_fn :: "check_opts \<Rightarrow> string \<Rightarrow> checker \<Rightarrow> checker option" where
  "run_fn opts nm s = do {
     c \<leftarrow> check_at s nm;
     if cstatus c \<noteq> UNCHECKED then Some s
     else do {
       st \<leftarrow> check_nodes_props (cfn c opts) [] ((chk s)\<lparr>cfails := []\<rparr>);
       let s = check_msg opts c (map Inl (cfails st)) (s\<lparr>chk := st\<rparr>);
       Some (set_check nm (\<lambda>c. c\<lparr>cstatus := if cfails st = [] then PASSED else FAILED\<rparr>) s) } }"

definition note_prereq :: "check_opts \<Rightarrow> string \<Rightarrow> string \<Rightarrow> checker \<Rightarrow> checker option" where
  "note_prereq opts nm prq s = do {
     c \<leftarrow> check_at s nm;
     p \<leftarrow> check_at s prq;
     Some (if cstatus p \<noteq> PASSED
           then check_msg opts c [Inr prq] (set_check nm (\<lambda>c. c\<lparr>cstatus := PREREQ\<rparr>) s) else s) }"

lemma for_each_mono [partial_function_mono]:
  assumes "\<And>x s. mono_option (\<lambda>f. g f x s)"
  shows "mono_option (\<lambda>f. for_each (g f) xs s)"
proof (induction xs arbitrary: s)
  case (Cons x xs)
  then show ?case using assms by (simp add: bind_mono)
qed (simp add: option.const_mono)

partial_function (option) run_check :: "check_opts \<Rightarrow> string \<Rightarrow> checker \<Rightarrow> (bool \<times> checker) option" where
  "run_check opts nm s = do {
     c \<leftarrow> check_at s nm;
     if inprogress c then None
     else if cstatus c \<noteq> UNCHECKED then run_out nm False s
     else do {
       (error, s) \<leftarrow> for_each (\<lambda>prq (error, s). do {
           (error, s) \<leftarrow> (if error then Some (True, s) else run_check opts prq s);
           s \<leftarrow> note_prereq opts nm prq s;
           Some (error, s) }) (prereq c) (False, set_check nm (\<lambda>c. c\<lparr>inprogress := True\<rparr>) s);
       s \<leftarrow> run_fn opts nm s;
       run_out nm error s } }"

text \<open>\<open>process_checks\<close>: whether the program exits, and the state.\<close>

definition process_step :: "check_opts \<Rightarrow> string \<Rightarrow> bool \<times> checker \<Rightarrow> (bool \<times> checker) option" where
  "process_step opts nm = (\<lambda>(error, s). do {
     c \<leftarrow> check_at s nm;
     if cwarn c \<or> cerror c then (if error then Some (True, s) else run_check opts nm s)
     else Some (error, s) })"

definition process_checks :: "check_opts \<Rightarrow> bool \<Rightarrow> checker \<Rightarrow> (bool \<times> checker) option" where
  "process_checks opts force s = do {
     (error, s) \<leftarrow> for_each (process_step opts) (map cname (checks s)) (False, s);
     Some (error \<and> \<not> force, s) }"

section \<open>Choosing the checks\<close>

partial_function (option) enable_warning_error :: "bool \<Rightarrow> bool \<Rightarrow> string \<Rightarrow> checker \<Rightarrow> checker option" where
  "enable_warning_error warn error nm s = do {
     c \<leftarrow> check_at s nm;
     s \<leftarrow> (if (warn \<and> \<not> cwarn c) \<or> (error \<and> \<not> cerror c)
          then for_each (\<lambda>p s. enable_warning_error warn error p s) (prereq c) s else Some s);
     Some (set_check nm (\<lambda>c. c\<lparr>cwarn := cwarn c \<or> warn, cerror := cerror c \<or> error\<rparr>) s) }"

partial_function (option) disable_warning_error :: "bool \<Rightarrow> bool \<Rightarrow> string \<Rightarrow> checker \<Rightarrow> checker option" where
  "disable_warning_error warn error nm s = do {
     c \<leftarrow> check_at s nm;
     s \<leftarrow> (if (warn \<and> cwarn c) \<or> (error \<and> cerror c)
          then for_each (\<lambda>cc s. for_each (\<lambda>p s. if p = nm then disable_warning_error warn error (cname cc) s else Some s)
                 (prereq cc) s) (checks s) s
          else Some s);
     Some (set_check nm (\<lambda>c. c\<lparr>cwarn := cwarn c \<and> \<not> warn, cerror := cerror c \<and> \<not> error\<rparr>) s) }"

definition parse_checks_option :: "bool \<Rightarrow> bool \<Rightarrow> string \<Rightarrow> checker \<Rightarrow> checker option" where
  "parse_checks_option warn error arg s =
     (let no = (take 3 arg = ''no-'' \<or> take 3 arg = ''no_'');
          name = (if no then drop 3 arg else arg)
      in if name \<notin> cname ` set (checks s) then None
         else if no then disable_warning_error warn error name s
         else enable_warning_error warn error name s)"

declare check_children.simps [code] run_check.simps [code] enable_warning_error.simps [code]
  disable_warning_error.simps [code]

end
