(* ===== verification/Dtc_Check_Driver.thy ===== *)
theory Dtc_Check_Driver
  imports Dtc_Check_Table
begin

text \<open>
  The driver of the checks: statuses, prerequisites and errors. The driver needs an order of the prerequisites (the
  locale \<open>ranked_table\<close>, interpreted by dtc's table); then it is sound and complete with respect to what the check
  functions report.
\<close>

section \<open>States of the checker\<close>

definition stat :: "checker \<Rightarrow> string \<Rightarrow> checkstatus option" where
  "stat s nm = map_option cstatus (check_at s nm)"

text \<open>What running checks does not change.\<close>

definition fixed :: "check \<Rightarrow> check" where
  "fixed c = c\<lparr>cstatus := UNCHECKED, inprogress := False\<rparr>"

definition same_table :: "checker \<Rightarrow> checker \<Rightarrow> bool" where
  "same_table s s' \<longleftrightarrow> map fixed (checks s) = map fixed (checks s')"

lemma same_table_refl [simp]: "same_table s s"
  by (simp add: same_table_def)

lemma same_table_trans: "same_table s t \<Longrightarrow> same_table t u \<Longrightarrow> same_table s u"
  by (simp add: same_table_def)

lemma fixed_eqD:
  assumes "fixed c = fixed d"
  shows "cname c = cname d" "cfn c = cfn d" "cwarn c = cwarn d" "cerror c = cerror d" "prereq c = prereq d"
proof -
  have "cname (fixed c) = cname (fixed d)" "cfn (fixed c) = cfn (fixed d)" "cwarn (fixed c) = cwarn (fixed d)"
    "cerror (fixed c) = cerror (fixed d)" "prereq (fixed c) = prereq (fixed d)" using assms by simp_all
  then show "cname c = cname d" "cfn c = cfn d" "cwarn c = cwarn d" "cerror c = cerror d" "prereq c = prereq d"
    by (simp_all add: fixed_def)
qed

lemma find_fixed: "map fixed cs = map fixed ds \<Longrightarrow>
    rel_option (\<lambda>c d. fixed c = fixed d) (find (\<lambda>c. cname c = nm) cs) (find (\<lambda>c. cname c = nm) ds)"
proof (induction cs arbitrary: ds)
  case (Cons c cs)
  then obtain d es where d: "ds = d # es" "fixed c = fixed d" "map fixed cs = map fixed es" by (cases ds) auto
  then show ?case using Cons.IH [OF d(3)] fixed_eqD(1) [OF d(2)] by auto
qed simp

lemma same_table_at: "same_table s s' \<Longrightarrow> rel_option (\<lambda>c d. fixed c = fixed d) (check_at s nm) (check_at s' nm)"
  unfolding same_table_def check_at_def by (rule find_fixed)

lemma same_table_atD: "same_table s s' \<Longrightarrow> check_at s nm = Some c \<Longrightarrow> \<exists>d. check_at s' nm = Some d \<and> fixed c = fixed d"
  using same_table_at [of s s' nm] by (auto simp: option_rel_Some1)

lemma check_at_name: "check_at s nm = Some c \<Longrightarrow> cname c = nm"
  unfolding check_at_def by (auto simp: find_Some_iff)

lemma check_at_set_check:
  assumes "\<And>c. cname (f c) = cname c"
  shows "check_at (set_check nm f s) x = map_option (\<lambda>c. if x = nm then f c else c) (check_at s x)"
proof -
  have "find (\<lambda>c. cname c = x) (map (\<lambda>c. if cname c = nm then f c else c) cs) =
      map_option (\<lambda>c. if x = nm then f c else c) (find (\<lambda>c. cname c = x) cs)" for cs
    by (induction cs) (auto simp: assms)
  then show ?thesis by (simp add: check_at_def set_check_def)
qed

lemma same_table_set_check: "(\<And>c. fixed (f c) = fixed c) \<Longrightarrow> same_table s (set_check nm f s)"
  by (auto simp: same_table_def set_check_def)

lemma check_msg_checks [simp]:
  "checks (check_msg opts c ms s) = checks s" "check_at (check_msg opts c ms s) nm = check_at s nm"
  "same_table s' (check_msg opts c ms s) = same_table s' s"
  by (simp_all add: check_msg_def check_at_def same_table_def)

lemma chk_update [simp]: "check_at (s\<lparr>chk := st\<rparr>) nm = check_at s nm" "same_table s' (s\<lparr>chk := st\<rparr>) = same_table s' s"
  by (simp_all add: check_at_def same_table_def)

lemma chk_updates [simp]: "chk (set_check nm f s) = chk s" "chk (check_msg opts c ms s) = chk s"
  by (simp_all add: set_check_def check_msg_def)

text \<open>The three kinds of updates.\<close>

lemma updates [simp]:
  "check_at (set_check nm (\<lambda>c. c\<lparr>inprogress := b\<rparr>) s) x = (if x = nm then map_option (\<lambda>c. c\<lparr>inprogress := b\<rparr>) (check_at s x) else check_at s x)"
  "check_at (set_check nm (\<lambda>c. c\<lparr>cstatus := v\<rparr>) s) x = (if x = nm then map_option (\<lambda>c. c\<lparr>cstatus := v\<rparr>) (check_at s x) else check_at s x)"
  by (simp_all add: check_at_set_check option.map_ident)

lemma update_table [simp]:
  "same_table s (set_check nm (\<lambda>c. c\<lparr>inprogress := b\<rparr>) s)" "same_table s (set_check nm (\<lambda>c. c\<lparr>cstatus := v\<rparr>) s)"
  by (simp_all add: same_table_set_check fixed_def)

lemma stat_updates [simp]:
  "stat (set_check nm (\<lambda>c. c\<lparr>inprogress := b\<rparr>) s) x = stat s x"
  "stat (set_check nm (\<lambda>c. c\<lparr>cstatus := v\<rparr>) s) x = (if x = nm then map_option (\<lambda>_. v) (stat s x) else stat s x)"
  "stat (check_msg opts c ms s) x = stat s x" "stat (s\<lparr>chk := st\<rparr>) x = stat s x"
  by (auto simp: stat_def option.map_comp comp_def intro!: option.map_cong0)

text \<open>What the checks do to a tree, as a relation: starting with the tree \<open>st0\<close>, checks run one after the other, each of them
  once, after its prerequisites, and only if those all passed; each goes over the whole tree the one before has left, and it
  passed exactly when it reported nothing.\<close>

inductive checks_run :: "check_opts \<Rightarrow> checker \<Rightarrow> chk_state \<Rightarrow> (string \<times> bool) list \<Rightarrow> chk_state \<Rightarrow> bool"
  for opts s st0 where
  checks_run_start: "checks_run opts s st0 [] st0"
| checks_run_step: "checks_run opts s st0 rs st \<Longrightarrow> check_at s nm = Some c \<Longrightarrow> nm \<notin> fst ` set rs \<Longrightarrow>
    \<forall>p \<in> set (prereq c). (p, True) \<in> set rs \<Longrightarrow>
    check_nodes_props (cfn c opts) [] (st\<lparr>cfails := []\<rparr>) = Some st' \<Longrightarrow>
    checks_run opts s st0 (rs @ [(nm, cfails st' = [])]) st'"

text \<open>The statuses tell which checks ran and which of them passed.\<close>

definition outcomes :: "(string \<times> bool) list \<Rightarrow> checker \<Rightarrow> bool" where
  "outcomes rs s \<longleftrightarrow> (\<forall>x b. (x, b) \<in> set rs \<longleftrightarrow> stat s x = Some (if b then PASSED else FAILED))"

definition sound :: "check_opts \<Rightarrow> chk_state \<Rightarrow> checker \<Rightarrow> bool" where
  "sound opts st0 s \<longleftrightarrow> (\<exists>rs. checks_run opts s st0 rs (chk s) \<and> outcomes rs s)"

text \<open>Outside of \<open>N\<close>, no check that counts as an error has failed.\<close>

definition clean_but :: "string set \<Rightarrow> checker \<Rightarrow> bool" where
  "clean_but N s \<longleftrightarrow> (\<forall>c \<in> set (checks s). cname c \<notin> N \<longrightarrow> cerror c \<longrightarrow> stat s (cname c) \<in> {Some UNCHECKED, Some PASSED})"

definition persists :: "checker \<Rightarrow> checker \<Rightarrow> bool" where
  "persists s s' \<longleftrightarrow> (\<forall>x. stat s x \<noteq> Some UNCHECKED \<longrightarrow> stat s' x = stat s x)"

lemma same_table_member: "same_table s s' \<Longrightarrow> c \<in> set (checks s') \<Longrightarrow> \<exists>d \<in> set (checks s). fixed c = fixed d"
  unfolding same_table_def by (metis in_set_conv_nth length_map nth_map)

lemma clean_by_stat:
  assumes "same_table s s'" "clean_but N s"
    "\<And>x. x \<notin> N \<Longrightarrow> stat s' x = stat s x \<or> stat s' x = Some PASSED"
  shows "clean_but N s'"
  unfolding clean_but_def
proof (intro ballI impI)
  fix c assume c: "c \<in> set (checks s')" "cname c \<notin> N" "cerror c"
  obtain d where d: "d \<in> set (checks s)" "fixed c = fixed d" using same_table_member [OF assms(1) c(1)] by blast
  then show "stat s' (cname c) \<in> {Some UNCHECKED, Some PASSED}"
    using assms(2,3) c fixed_eqD [OF d(2)] unfolding clean_but_def by fastforce
qed

lemma checks_run_table:
  assumes "checks_run opts s st0 rs st" "same_table s s'"
  shows "checks_run opts s' st0 rs st"
  using assms(1)
proof induction
  case (checks_run_step rs st nm c st')
  obtain d where d: "check_at s' nm = Some d" "fixed c = fixed d"
    using same_table_atD [OF assms(2) checks_run_step.hyps(2)] by blast
  show ?case
    using checks_run_step.hyps(3-5) fixed_eqD(2,5) [OF d(2)] by (intro checks_run.checks_run_step [OF checks_run_step.IH d(1)]) simp_all
qed (rule checks_run_start)

lemma sound_by_stat:
  assumes "same_table s s'" "sound opts st0 s" "chk s' = chk s"
    "\<And>x v. v \<in> {PASSED, FAILED} \<Longrightarrow> stat s' x = Some v \<longleftrightarrow> stat s x = Some v"
  shows "sound opts st0 s'"
proof -
  obtain rs where r: "checks_run opts s st0 rs (chk s)" "outcomes rs s" using assms(2) by (auto simp: sound_def)
  have "outcomes rs s'" using r(2) assms(4) by (simp add: outcomes_def)
  then show ?thesis using checks_run_table [OF r(1) assms(1)] assms(3) by (auto simp: sound_def)
qed

section \<open>Running a check\<close>

definition run_post :: "check_opts \<Rightarrow> (string \<Rightarrow> nat) \<Rightarrow> string \<Rightarrow> checker \<Rightarrow> bool \<Rightarrow> checker \<Rightarrow> bool" where
  "run_post opts rank nm s err s' \<longleftrightarrow> same_table s s' \<and> persists s s' \<and>
     (\<forall>x. rank nm < rank x \<longrightarrow> check_at s' x = check_at s x) \<and> stat s' nm \<notin> {None, Some UNCHECKED} \<and>
     (\<forall>st0. sound opts st0 s \<longrightarrow> sound opts st0 s') \<and> (\<not> err \<longrightarrow> (\<forall>N. clean_but N s \<longrightarrow> clean_but N s'))"

text \<open>The loop over the prerequisites \<open>ps\<close> of \<open>nm\<close>.\<close>

definition loop_post :: "check_opts \<Rightarrow> (string \<Rightarrow> nat) \<Rightarrow> string \<Rightarrow> string list \<Rightarrow> bool \<times> checker \<Rightarrow> bool \<times> checker \<Rightarrow> bool" where
  "loop_post opts rank nm ps = (\<lambda>(e, s) (e', s').
     same_table s s' \<and> (\<forall>x. x \<noteq> nm \<longrightarrow> stat s x \<noteq> Some UNCHECKED \<longrightarrow> stat s' x = stat s x) \<and>
     (\<forall>x. rank nm < rank x \<longrightarrow> check_at s' x = check_at s x) \<and>
     stat s' nm \<in> {Some UNCHECKED, Some PREREQ} \<and> (stat s nm = Some PREREQ \<longrightarrow> stat s' nm = Some PREREQ) \<and>
     (stat s' nm = Some UNCHECKED \<longrightarrow> (\<forall>p \<in> set ps. stat s' p = Some PASSED)) \<and>
     (\<forall>st0. sound opts st0 s \<longrightarrow> sound opts st0 s') \<and> (\<not> e' \<longrightarrow> \<not> e \<and> (\<forall>N. nm \<in> N \<longrightarrow> clean_but N s \<longrightarrow> clean_but N s')))"

definition prereq_step :: "check_opts \<Rightarrow> string \<Rightarrow> string \<Rightarrow> bool \<times> checker \<Rightarrow> (bool \<times> checker) option" where
  "prereq_step opts nm prq = (\<lambda>(error, s). do {
     (error, s) \<leftarrow> (if error then Some (True, s) else run_check opts prq s);
     s \<leftarrow> note_prereq opts nm prq s;
     Some (error, s) })"

lemma run_check_steps:
  "run_check opts nm s = do {
     c \<leftarrow> check_at s nm;
     if inprogress c then None
     else if cstatus c \<noteq> UNCHECKED then run_out nm False s
     else do {
       (error, s) \<leftarrow> for_each (prereq_step opts nm) (prereq c) (False, set_check nm (\<lambda>c. c\<lparr>inprogress := True\<rparr>) s);
       s \<leftarrow> run_fn opts nm s;
       run_out nm error s } }"
  unfolding prereq_step_def by (subst run_check.simps) simp

lemma note_prereq_spec:
  assumes "note_prereq opts nm p s = Some s'" "p \<noteq> nm" "stat s nm \<in> {Some UNCHECKED, Some PREREQ}"
  shows "same_table s s'" "x \<noteq> nm \<Longrightarrow> check_at s' x = check_at s x" "stat s' nm \<in> {Some UNCHECKED, Some PREREQ}"
    "stat s nm = Some PREREQ \<Longrightarrow> stat s' nm = Some PREREQ" "stat s' nm = Some UNCHECKED \<Longrightarrow> stat s' p = Some PASSED" "chk s' = chk s"
proof -
  obtain c d where c: "check_at s nm = Some c" "check_at s p = Some d"
    using assms(1) by (auto simp: note_prereq_def bind_eq_Some_conv)
  have "same_table s s' \<and> (\<forall>x. x \<noteq> nm \<longrightarrow> check_at s' x = check_at s x) \<and> stat s' nm \<in> {Some UNCHECKED, Some PREREQ} \<and>
      (stat s nm = Some PREREQ \<longrightarrow> stat s' nm = Some PREREQ) \<and> (stat s' nm = Some UNCHECKED \<longrightarrow> stat s' p = Some PASSED) \<and>
      chk s' = chk s"
  proof (cases "cstatus d = PASSED")
    case True
    then have "s' = s" using assms(1) c by (simp add: note_prereq_def)
    then show ?thesis using True assms(3) c by (simp add: stat_def)
  next
    case False
    then have "s' = check_msg opts c [Inr p] (set_check nm (\<lambda>c. c\<lparr>cstatus := PREREQ\<rparr>) s)"
      using assms(1) c by (simp add: note_prereq_def)
    then show ?thesis using c by (simp add: stat_def)
  qed
  then show "same_table s s'" "x \<noteq> nm \<Longrightarrow> check_at s' x = check_at s x" "stat s' nm \<in> {Some UNCHECKED, Some PREREQ}"
    "stat s nm = Some PREREQ \<Longrightarrow> stat s' nm = Some PREREQ" "stat s' nm = Some UNCHECKED \<Longrightarrow> stat s' p = Some PASSED"
    "chk s' = chk s"
    by blast+
qed

lemma stat_cong: "check_at s' x = check_at s x \<Longrightarrow> stat s' x = stat s x"
  by (simp add: stat_def)

lemma loop_step:
  assumes step: "prereq_step opts nm p (e, s) = Some (e', s')" and rank: "rank p < rank nm"
    and run: "\<And>err t. run_check opts p s = Some (err, t) \<Longrightarrow> run_post opts rank p s err t"
    and nm: "stat s nm \<in> {Some UNCHECKED, Some PREREQ}"
  shows "loop_post opts rank nm [p] (e, s) (e', s')"
proof -
  have ne: "p \<noteq> nm" using rank by auto
  obtain t where t: "(if e then Some (True, s) else run_check opts p s) = Some (e', t)" "note_prereq opts nm p t = Some s'"
    using step by (auto simp: prereq_step_def bind_eq_Some_conv split: prod.splits)
  have r: "same_table s t \<and> persists s t \<and> (\<forall>x. rank p < rank x \<longrightarrow> check_at t x = check_at s x) \<and>
      (\<forall>st0. sound opts st0 s \<longrightarrow> sound opts st0 t) \<and> (\<not> e' \<longrightarrow> \<not> e \<and> (\<forall>N. clean_but N s \<longrightarrow> clean_but N t))"
    using t(1) run [of e' t] by (cases e) (auto simp: run_post_def persists_def)
  then have "check_at t nm = check_at s nm" using rank by blast
  note n = stat_cong [OF this]
  have nt: "stat t nm \<in> {Some UNCHECKED, Some PREREQ}" using n nm by simp
  note q = note_prereq_spec [OF t(2) ne nt]
  have st: "x \<noteq> nm \<Longrightarrow> stat s' x = stat t x" for x by (rule stat_cong) (rule q(2))
  have k: "stat s' x = Some v \<longleftrightarrow> stat t x = Some v" if "v \<in> {PASSED, FAILED}" for x v
    using st that nt q(3) by (cases "x = nm") auto
  have "sound opts st0 s'" if "sound opts st0 t" for st0 by (rule sound_by_stat [OF q(1) that q(6) k])
  moreover have "clean_but N s'" if "clean_but N t" "nm \<in> N" for N
    using st that by (intro clean_by_stat [OF q(1) that(1)]) metis
  moreover have "check_at s' x = check_at s x" if "rank nm < rank x" for x
    using q(2) [of x] r that rank by auto
  moreover have "stat s' x = stat s x" if "x \<noteq> nm" "stat s x \<noteq> Some UNCHECKED" for x
    using st that r by (auto simp: persists_def)
  ultimately show ?thesis using r q(1,3-5) n same_table_trans [of s t s'] by (auto simp: loop_post_def)
qed

lemma loop_post_Nil: "stat s nm \<in> {Some UNCHECKED, Some PREREQ} \<Longrightarrow> loop_post opts rank nm [] (e, s) (e, s)"
  by (simp add: loop_post_def)

lemma loop_post_Cons:
  assumes "loop_post opts rank nm [p] (e, s) (e1, s1)" "loop_post opts rank nm ps (e1, s1) (e', s')" "p \<noteq> nm"
  shows "loop_post opts rank nm (p # ps) (e, s) (e', s')"
proof -
  have "stat s' p = Some PASSED" if "stat s' nm = Some UNCHECKED"
  proof -
    have "stat s1 nm = Some UNCHECKED" using that assms(1,2) by (auto simp: loop_post_def)
    then have "stat s1 p = Some PASSED" using assms(1) by (simp add: loop_post_def)
    then show ?thesis using assms(2,3) by (simp add: loop_post_def)
  qed
  then show ?thesis using assms same_table_trans [of s s1 s'] by (auto simp: loop_post_def)
qed

lemma loop_spec:
  assumes "for_each (prereq_step opts nm) ps (e, s) = Some (e', s')" "stat s nm \<in> {Some UNCHECKED, Some PREREQ}"
    and "\<And>p. p \<in> set ps \<Longrightarrow> rank p < rank nm"
    and "\<And>p t err t'. p \<in> set ps \<Longrightarrow> same_table s t \<Longrightarrow> run_check opts p t = Some (err, t') \<Longrightarrow> run_post opts rank p t err t'"
  shows "loop_post opts rank nm ps (e, s) (e', s')"
  using assms
proof (induction ps arbitrary: e s)
  case Nil
  then show ?case by (simp add: loop_post_Nil)
next
  case (Cons p ps)
  obtain e1 s1 where 1: "prereq_step opts nm p (e, s) = Some (e1, s1)" "for_each (prereq_step opts nm) ps (e1, s1) = Some (e', s')"
    using Cons.prems(1) by (auto simp: bind_eq_Some_conv)
  have a: "loop_post opts rank nm [p] (e, s) (e1, s1)"
    using Cons.prems(3) [of p] Cons.prems(4) [of p s] by (intro loop_step [OF 1(1) _ _ Cons.prems(2)]) auto
  have s: "same_table s s1" "stat s1 nm \<in> {Some UNCHECKED, Some PREREQ}" using a by (auto simp: loop_post_def)
  have "loop_post opts rank nm ps (e1, s1) (e', s')"
  proof (rule Cons.IH [OF 1(2) s(2)])
    show "\<And>p. p \<in> set ps \<Longrightarrow> rank p < rank nm" using Cons.prems(3) by simp
    show "\<And>p t err t'. p \<in> set ps \<Longrightarrow> same_table s1 t \<Longrightarrow> run_check opts p t = Some (err, t') \<Longrightarrow> run_post opts rank p t err t'"
      using Cons.prems(4) same_table_trans [OF s(1)] by (meson list.set_intros(2))
  qed
  then show ?case using loop_post_Cons [OF a] Cons.prems(3) [of p] by auto
qed

lemma run_fn_passes:
  assumes "check_at s nm = Some c" "cstatus c = UNCHECKED" "\<forall>p \<in> set (prereq c). stat s p = Some PASSED"
    "check_nodes_props (cfn c opts) [] ((chk s)\<lparr>cfails := []\<rparr>) = Some st" "sound opts st0 s"
    "same_table s s'" "chk s' = st" "\<And>x. stat s' x = (if x = nm then Some (if cfails st = [] then PASSED else FAILED) else stat s x)"
  shows "sound opts st0 s'"
proof -
  obtain rs where r: "checks_run opts s st0 rs (chk s)" "outcomes rs s" using assms(5) by (auto simp: sound_def)
  have "stat s nm = Some UNCHECKED" using assms(1,2) by (simp add: stat_def)
  then have "(nm, b) \<notin> set rs" for b using r(2) by (simp add: outcomes_def)
  then have nm: "nm \<notin> fst ` set rs" by auto
  moreover have "\<forall>p \<in> set (prereq c). (p, True) \<in> set rs" using r(2) assms(3) by (simp add: outcomes_def)
  ultimately have "checks_run opts s st0 (rs @ [(nm, cfails st = [])]) st" using assms(1,4) by (intro checks_run_step [OF r(1)])
  then have "checks_run opts s' st0 (rs @ [(nm, cfails st = [])]) (chk s')" using checks_run_table assms(6,7) by simp
  moreover have "outcomes (rs @ [(nm, cfails st = [])]) s'"
    unfolding outcomes_def
  proof (intro allI)
    fix x b
    have "(x, b) \<in> set rs \<longleftrightarrow> stat s x = Some (if b then PASSED else FAILED)" using r(2) by (simp add: outcomes_def)
    moreover have "x = nm \<Longrightarrow> (x, b) \<notin> set rs" using nm by force
    ultimately show "((x, b) \<in> set (rs @ [(nm, cfails st = [])])) = (stat s' x = Some (if b then PASSED else FAILED))"
      unfolding assms(8) by auto
  qed
  ultimately show ?thesis unfolding sound_def by blast
qed

lemma run_fn_spec:
  assumes "run_fn opts nm s = Some s'" "stat s nm \<in> {Some UNCHECKED, Some PREREQ}"
  shows "same_table s s'" "x \<noteq> nm \<Longrightarrow> check_at s' x = check_at s x" "stat s' nm \<notin> {None, Some UNCHECKED}"
    "(\<And>c. check_at s nm = Some c \<Longrightarrow> cstatus c = UNCHECKED \<Longrightarrow> \<forall>p \<in> set (prereq c). stat s p = Some PASSED) \<Longrightarrow>
       sound opts st0 s \<Longrightarrow> sound opts st0 s'"
proof -
  obtain c where c: "check_at s nm = Some c" using assms(1) by (auto simp: run_fn_def bind_eq_Some_conv)
  have "same_table s s' \<and> (\<forall>x. x \<noteq> nm \<longrightarrow> check_at s' x = check_at s x) \<and> stat s' nm \<notin> {None, Some UNCHECKED} \<and>
      ((cstatus c = UNCHECKED \<longrightarrow> (\<forall>p \<in> set (prereq c). stat s p = Some PASSED)) \<longrightarrow> sound opts st0 s \<longrightarrow> sound opts st0 s')"
  proof (cases "cstatus c = UNCHECKED")
    case False
    then have "s' = s" using assms(1) c by (simp add: run_fn_def)
    then show ?thesis using False assms(2) c by (auto simp: stat_def)
  next
    case True
    then obtain st where st: "check_nodes_props (cfn c opts) [] ((chk s)\<lparr>cfails := []\<rparr>) = Some st" and
      2: "s' = set_check nm (\<lambda>c. c\<lparr>cstatus := if cfails st = [] then PASSED else FAILED\<rparr>) (check_msg opts c (map Inl (cfails st)) (s\<lparr>chk := st\<rparr>))"
      using assms(1) c by (simp add: run_fn_def bind_eq_Some_conv Let_def) metis
    have "same_table s (check_msg opts c (map Inl (cfails st)) (s\<lparr>chk := st\<rparr>))" by simp
    then have t: "same_table s s'" unfolding 2 by (rule same_table_trans) simp
    have k: "chk s' = st" "stat s' x = (if x = nm then Some (if cfails st = [] then PASSED else FAILED) else stat s x)" for x
      using c unfolding 2 by (simp_all add: stat_def)
    have "check_at s' x = check_at s x" if "x \<noteq> nm" for x using that unfolding 2 by simp
    then show ?thesis using t k(2) [of nm] run_fn_passes [OF c True _ st _ t k] True by auto
  qed
  then show "same_table s s'" "x \<noteq> nm \<Longrightarrow> check_at s' x = check_at s x" "stat s' nm \<notin> {None, Some UNCHECKED}"
    "(\<And>c. check_at s nm = Some c \<Longrightarrow> cstatus c = UNCHECKED \<Longrightarrow> \<forall>p \<in> set (prereq c). stat s p = Some PASSED) \<Longrightarrow>
       sound opts st0 s \<Longrightarrow> sound opts st0 s'"
    using c by blast+
qed

lemma run_out_spec:
  assumes "run_out nm e s = Some (e', s')"
  shows "same_table s s'" "x \<noteq> nm \<Longrightarrow> check_at s' x = check_at s x" "stat s' x = stat s x"
    "check_at s nm = Some c \<Longrightarrow> e' \<longleftrightarrow> e \<or> (cstatus c \<noteq> PASSED \<and> cerror c)" "chk s' = chk s"
  using assms by (auto simp: run_out_def bind_eq_Some_conv)

lemma check_at_member: "distinct (map cname (checks s)) \<Longrightarrow> c \<in> set (checks s) \<Longrightarrow> check_at s (cname c) = Some c"
proof -
  have "distinct (map cname cs) \<Longrightarrow> c \<in> set cs \<Longrightarrow> find (\<lambda>d. cname d = cname c) cs = Some c" for cs
    by (induction cs) auto
  then show "distinct (map cname (checks s)) \<Longrightarrow> c \<in> set (checks s) \<Longrightarrow> check_at s (cname c) = Some c"
    by (simp add: check_at_def)
qed

lemma check_at_in: "check_at s nm = Some c \<Longrightarrow> c \<in> set (checks s)"
  unfolding check_at_def by (auto simp: find_Some_iff)

text \<open>A state whose checks are those of a table, with any flags and statuses.\<close>

definition over_table :: "check list \<Rightarrow> checker \<Rightarrow> bool" where
  "over_table tbl s \<longleftrightarrow> map (\<lambda>c. (cname c, prereq c)) (checks s) = map (\<lambda>c. (cname c, prereq c)) tbl"

lemma over_table_same: "over_table tbl s \<Longrightarrow> same_table s s' \<Longrightarrow> over_table tbl s'"
proof -
  assume o: "over_table tbl s" and s: "same_table s s'"
  have "map (\<lambda>c. (cname c, prereq c)) cs = map (\<lambda>c. (cname c, prereq c)) (map fixed cs)" for cs by (simp add: fixed_def)
  then have "map (\<lambda>c. (cname c, prereq c)) (checks s') = map (\<lambda>c. (cname c, prereq c)) (checks s)"
    using s unfolding same_table_def by metis
  then show ?thesis using o by (simp add: over_table_def)
qed

text \<open>What the driver relies on: different names, and no check is among its own prerequisites' prerequisites, which a
  rank shows.\<close>

locale ranked_table =
  fixes tbl :: "check list" and rank :: "string \<Rightarrow> nat"
  assumes names_distinct: "distinct (map cname tbl)"
    and prereq_known: "c \<in> set tbl \<Longrightarrow> p \<in> set (prereq c) \<Longrightarrow> p \<in> cname ` set tbl"
    and prereq_lower: "c \<in> set tbl \<Longrightarrow> p \<in> set (prereq c) \<Longrightarrow> rank p < rank (cname c)"
begin

lemma over_names: "over_table tbl s \<Longrightarrow> map cname (checks s) = map cname tbl"
proof -
  assume "over_table tbl s"
  then have "map fst (map (\<lambda>c. (cname c, prereq c)) (checks s)) = map fst (map (\<lambda>c. (cname c, prereq c)) tbl)"
    by (simp add: over_table_def)
  then show ?thesis by (simp add: comp_def)
qed

lemma over_distinct: "over_table tbl s \<Longrightarrow> distinct (map cname (checks s))"
  using over_names names_distinct by simp

lemma over_member: "over_table tbl s \<Longrightarrow> c \<in> set (checks s) \<Longrightarrow> \<exists>d \<in> set tbl. cname d = cname c \<and> prereq d = prereq c"
proof -
  assume "over_table tbl s" "c \<in> set (checks s)"
  then have "(cname c, prereq c) \<in> set (map (\<lambda>c. (cname c, prereq c)) tbl)"
    unfolding over_table_def by (metis (mono_tags, lifting) image_eqI list.set_map)
  then show ?thesis by auto
qed

lemma over_lower: "over_table tbl s \<Longrightarrow> check_at s nm = Some c \<Longrightarrow> p \<in> set (prereq c) \<Longrightarrow> rank p < rank nm"
proof -
  assume o: "over_table tbl s" and c: "check_at s nm = Some c" and p: "p \<in> set (prereq c)"
  obtain d where d: "d \<in> set tbl" "cname d = cname c" "prereq d = prereq c" using over_member [OF o check_at_in [OF c]] by blast
  show "rank p < rank nm" using prereq_lower [OF d(1), of p] d p check_at_name [OF c] by simp
qed

lemma run_done_spec:
  assumes "over_table tbl s" "check_at s nm = Some c" "cstatus c \<noteq> UNCHECKED" "run_out nm False s = Some (err, s')"
  shows "run_post opts rank nm s err s'"
proof -
  note o = run_out_spec [OF assms(4)]
  have "sound opts st0 s'" if "sound opts st0 s" for st0 using o(3) by (intro sound_by_stat [OF o(1) that o(5)]) simp
  moreover have "clean_but N s'" if "clean_but N s" for N using o(3) by (intro clean_by_stat [OF o(1) that]) simp
  moreover have "stat s' nm \<notin> {None, Some UNCHECKED}" using assms(2,3) unfolding o(3) by (simp add: stat_def)
  moreover have "x \<noteq> nm" if "rank nm < rank x" for x using that by auto
  ultimately show ?thesis using o(1-3) by (auto simp: run_post_def persists_def)
qed

lemma run_new_spec:
  assumes over: "over_table tbl s" and c: "check_at s nm = Some c" "cstatus c = UNCHECKED"
    and loop: "loop_post opts rank nm (prereq c) (False, set_check nm (\<lambda>c. c\<lparr>inprogress := True\<rparr>) s) (e1, s1)"
    and "fn": "run_fn opts nm s1 = Some s2" and out: "run_out nm e1 s2 = Some (err, s')"
  shows "run_post opts rank nm s err s'"
proof -
  let ?s0 = "set_check nm (\<lambda>c. c\<lparr>inprogress := True\<rparr>) s"
  have s1: "same_table ?s0 s1" "\<And>x. x \<noteq> nm \<Longrightarrow> stat s x \<noteq> Some UNCHECKED \<Longrightarrow> stat s1 x = stat s x"
    "\<And>x. rank nm < rank x \<Longrightarrow> check_at s1 x = check_at s x" "stat s1 nm \<in> {Some UNCHECKED, Some PREREQ}"
    "stat s1 nm = Some UNCHECKED \<Longrightarrow> \<forall>p \<in> set (prereq c). stat s1 p = Some PASSED" "\<And>st0. sound opts st0 ?s0 \<Longrightarrow> sound opts st0 s1"
    "\<And>N. \<not> e1 \<Longrightarrow> nm \<in> N \<Longrightarrow> clean_but N ?s0 \<Longrightarrow> clean_but N s1"
    using loop by (auto simp: loop_post_def)
  note r = run_fn_spec [OF "fn" s1(4)] and o = run_out_spec [OF out]
  have st: "same_table s s1" using s1(1) same_table_trans [of s ?s0 s1] by simp
  have t: "same_table s s'" by (rule same_table_trans [OF st same_table_trans [OF r(1) o(1)]])
  have same: "stat s' x = stat s1 x" if "x \<noteq> nm" for x using stat_cong [OF r(2) [OF that]] o(3) by simp
  have s0: "stat ?s0 x = stat s x" for x by simp
  have "stat s nm = Some UNCHECKED" using c by (simp add: stat_def)
  then have "persists s s'" using same s1(2) unfolding persists_def by metis
  moreover have "check_at s' x = check_at s x" if "rank nm < rank x" for x
  proof -
    have "x \<noteq> nm" using that by auto
    then show ?thesis using o(2) [of x] r(2) [of x] s1(3) [OF that] by simp
  qed
  moreover have "stat s' nm \<notin> {None, Some UNCHECKED}" using r(3) o(3) by simp
  moreover have "sound opts st0 s'" if "sound opts st0 s" for st0
  proof -
    have "sound opts st0 ?s0" by (rule sound_by_stat [OF update_table(1) that]) (simp_all add: s0)
    then have "sound opts st0 s1" by (rule s1(6))
    moreover have "\<forall>p \<in> set (prereq d). stat s1 p = Some PASSED" if d: "check_at s1 nm = Some d" "cstatus d = UNCHECKED" for d
    proof -
      have "prereq d = prereq c" using same_table_atD [OF st c(1)] d(1) by (auto dest: fixed_eqD(5))
      then show ?thesis using s1(5) d by (simp add: stat_def)
    qed
    ultimately have "sound opts st0 s2" using r(4) by blast
    then show ?thesis using o(3) by (intro sound_by_stat [OF o(1) _ o(5)]) simp_all
  qed
  moreover have "clean_but N s'" if "\<not> err" "clean_but N s" for N
  proof -
    obtain d where d: "check_at s2 nm = Some d" using out by (auto simp: run_out_def bind_eq_Some_conv)
    have e: "\<not> e1" "cstatus d = PASSED \<or> \<not> cerror d" using o(4) [OF d] that(1) by auto
    have "clean_but (insert nm N) s" using that(2) by (auto simp: clean_but_def)
    then have "clean_but (insert nm N) ?s0" by (rule clean_by_stat [OF update_table(1)]) simp
    then have "clean_but (insert nm N) s1" using s1(7) [OF e(1)] by blast
    then have k: "clean_but (insert nm N) s'" using same by (intro clean_by_stat [OF same_table_trans [OF r(1) o(1)]]) auto
    show ?thesis unfolding clean_but_def
    proof (intro ballI impI)
      fix x assume x: "x \<in> set (checks s')" "cname x \<notin> N" "cerror x"
      show "stat s' (cname x) \<in> {Some UNCHECKED, Some PASSED}"
      proof (cases "cname x = nm")
        case True
        then have "check_at s' nm = Some x" using check_at_member [OF over_distinct [OF over_table_same [OF over t]] x(1)] by simp
        then have "cerror d" using same_table_atD [OF o(1) d] x(3) by (auto dest: fixed_eqD(4))
        then show ?thesis using e(2) d True o(3) by (simp add: stat_def)
      next
        case False
        then show ?thesis using k x by (auto simp: clean_but_def)
      qed
    qed
  qed
  ultimately show ?thesis using t by (auto simp: run_post_def)
qed

lemma run_check_spec:
  "over_table tbl s \<Longrightarrow> run_check opts nm s = Some (err, s') \<Longrightarrow> run_post opts rank nm s err s'"
proof (induction "rank nm" arbitrary: nm s err s' rule: less_induct)
  case less
  obtain c where c: "check_at s nm = Some c" "\<not> inprogress c"
    using less.prems(2) by (subst (asm) run_check_steps) (auto simp: bind_eq_Some_conv split: if_splits)
  show ?case
  proof (cases "cstatus c = UNCHECKED")
    case False
    then show ?thesis
      using less.prems(2) c by (intro run_done_spec [OF less.prems(1) c(1)]) (auto simp: run_check_steps [of opts nm s])
  next
    case True
    let ?s0 = "set_check nm (\<lambda>c. c\<lparr>inprogress := True\<rparr>) s"
    obtain e1 s1 s2 where r: "for_each (prereq_step opts nm) (prereq c) (False, ?s0) = Some (e1, s1)"
      "run_fn opts nm s1 = Some s2" "run_out nm e1 s2 = Some (err, s')"
      using less.prems(2) c True by (auto simp: run_check_steps [of opts nm s] bind_eq_Some_conv split: prod.splits)
    have "stat ?s0 nm \<in> {Some UNCHECKED, Some PREREQ}" using c True by (simp add: stat_def)
    then have "loop_post opts rank nm (prereq c) (False, ?s0) (e1, s1)"
    proof (rule loop_spec [OF r(1)])
      show "\<And>p. p \<in> set (prereq c) \<Longrightarrow> rank p < rank nm" by (rule over_lower [OF less.prems(1) c(1)])
      fix p t err' t' assume p: "p \<in> set (prereq c)" "same_table ?s0 t" "run_check opts p t = Some (err', t')"
      have "over_table tbl t" using over_table_same [OF over_table_same [OF less.prems(1) update_table(1)] p(2)] .
      then show "run_post opts rank p t err' t'" using less.hyps [OF over_lower [OF less.prems(1) c(1) p(1)] _ p(3)] by simp
    qed
    then show ?thesis by (rule run_new_spec [OF less.prems(1) c(1) True _ r(2,3)])
  qed
qed

end

section \<open>The driver\<close>

definition process_post :: "check_opts \<Rightarrow> string list \<Rightarrow> bool \<times> checker \<Rightarrow> bool \<times> checker \<Rightarrow> bool" where
  "process_post opts nms = (\<lambda>(e, s) (e', s').
     same_table s s' \<and> persists s s' \<and> (\<forall>st0. sound opts st0 s \<longrightarrow> sound opts st0 s') \<and>
     (\<not> e' \<longrightarrow> \<not> e \<and> (clean_but {} s \<longrightarrow> clean_but {} s') \<and>
       (\<forall>nm \<in> set nms. \<forall>c. check_at s nm = Some c \<longrightarrow> cwarn c \<or> cerror c \<longrightarrow> stat s' nm \<notin> {None, Some UNCHECKED})))"

lemma process_post_Cons:
  assumes "process_post opts [nm] (e, s) (e1, s1)" "process_post opts nms (e1, s1) (e', s')"
  shows "process_post opts (nm # nms) (e, s) (e', s')"
proof -
  have t: "same_table s s1" using assms(1) by (simp add: process_post_def)
  have "stat s' x \<notin> {None, Some UNCHECKED}"
    if x: "\<not> e'" "x \<in> set (nm # nms)" "check_at s x = Some c" "cwarn c \<or> cerror c" for x c
  proof (cases "x \<in> set nms")
    case True
    obtain d where "check_at s1 x = Some d" "fixed c = fixed d" using same_table_atD [OF t x(3)] by blast
    then show ?thesis using True x assms(2) fixed_eqD(3,4) [of c d] by (auto simp: process_post_def)
  next
    case False
    then have "stat s1 x \<notin> {None, Some UNCHECKED}" using x assms by (auto simp: process_post_def)
    then show ?thesis using assms(2) by (auto simp: process_post_def persists_def)
  qed
  then show ?thesis using assms same_table_trans [of s s1 s'] by (auto simp: process_post_def persists_def)
qed

context ranked_table
begin

lemma process_step_spec:
  assumes "over_table tbl s" "process_step opts nm (e, s) = Some (e', s')"
  shows "process_post opts [nm] (e, s) (e', s')"
proof -
  obtain c where c: "check_at s nm = Some c" using assms(2) by (auto simp: process_step_def bind_eq_Some_conv)
  show ?thesis
  proof (cases "(cwarn c \<or> cerror c) \<and> \<not> e")
    case True
    then have "run_check opts nm s = Some (e', s')" using assms(2) c by (simp add: process_step_def)
    then have "run_post opts rank nm s e' s'" by (rule run_check_spec [OF assms(1)])
    then show ?thesis using True by (auto simp: run_post_def process_post_def)
  next
    case False
    then have "e' = e" "s' = s" using assms(2) c by (auto simp: process_step_def split: if_splits)
    then show ?thesis using False c by (auto simp: process_post_def persists_def)
  qed
qed

lemma process_loop_spec:
  "over_table tbl s \<Longrightarrow> for_each (process_step opts) nms (e, s) = Some (e', s') \<Longrightarrow> process_post opts nms (e, s) (e', s')"
proof (induction nms arbitrary: e s)
  case (Cons nm nms)
  obtain e1 s1 where 1: "process_step opts nm (e, s) = Some (e1, s1)" "for_each (process_step opts) nms (e1, s1) = Some (e', s')"
    using Cons.prems(2) by (auto simp: bind_eq_Some_conv)
  have p: "process_post opts [nm] (e, s) (e1, s1)" by (rule process_step_spec [OF Cons.prems(1) 1(1)])
  then have "over_table tbl s1" using over_table_same [OF Cons.prems(1)] by (simp add: process_post_def)
  then show ?case using process_post_Cons [OF p Cons.IH [OF _ 1(2)]] by blast
qed (simp add: process_post_def persists_def)

lemma process_checks_spec:
  assumes "over_table tbl s" "\<forall>c \<in> set (checks s). cstatus c = UNCHECKED" "process_checks opts False s = Some (False, s')"
  shows "same_table s s'" "sound opts (chk s) s'"
    "c \<in> set (checks s') \<Longrightarrow> cwarn c \<or> cerror c \<Longrightarrow> cstatus c \<noteq> UNCHECKED"
    "c \<in> set (checks s') \<Longrightarrow> cerror c \<Longrightarrow> cstatus c = PASSED"
proof -
  have "for_each (process_step opts) (map cname (checks s)) (False, s) = Some (False, s')"
    using assms(3) by (auto simp: process_checks_def bind_eq_Some_conv)
  note p = process_loop_spec [OF assms(1) this]
  have un: "stat s x \<in> {None, Some UNCHECKED}" for x
    using assms(2) by (cases "check_at s x") (auto simp: stat_def dest: check_at_in)
  have "stat s x = Some v \<longleftrightarrow> False" if "v \<noteq> UNCHECKED" for x v using un [of x] that by auto
  then have "outcomes [] s" by (simp add: outcomes_def)
  then have s: "sound opts (chk s) s" unfolding sound_def using checks_run_start by blast
  have k: "clean_but {} s"
    using assms(2) check_at_member [OF over_distinct [OF assms(1)]] by (simp add: clean_but_def stat_def)
  show t: "same_table s s'" and "sound opts (chk s) s'" using p s by (simp_all add: process_post_def)
  assume c: "c \<in> set (checks s')"
  have "check_at s' (cname c) = Some c"
    by (rule check_at_member [OF over_distinct [OF over_table_same [OF assms(1) t]] c])
  then have st: "stat s' (cname c) = Some (cstatus c)" by (simp add: stat_def)
  obtain d where d: "d \<in> set (checks s)" "fixed c = fixed d" using same_table_member [OF t c] by blast
  show on: "cstatus c \<noteq> UNCHECKED" if "cwarn c \<or> cerror c"
    using p d check_at_member [OF over_distinct [OF assms(1)] d(1)] fixed_eqD(1,3,4) [OF d(2)] that st by (auto simp: process_post_def)
  show "cstatus c = PASSED" if "cerror c"
  proof -
    have "clean_but {} s'" using p k by (simp add: process_post_def)
    then show ?thesis using on c that st by (auto simp: clean_but_def)
  qed
qed

end

section \<open>The order of dtc's checks\<close>

definition check_rank :: "string \<Rightarrow> nat" where
  "check_rank nm =
     (if nm \<in> {''unit_address_format'', ''pci_device_reg'', ''pci_device_bus_num'', ''simple_bus_reg'', ''i2c_bus_reg'',
         ''spi_bus_reg'', ''avoid_unnecessary_addr_size'', ''unique_unit_address'', ''unique_unit_address_if_enabled''} then 3
      else if nm \<in> {''node_name_format'', ''name_properties'', ''node_name_vs_property_name'', ''phandle_references'',
         ''path_references'', ''addr_size_cells'', ''graph_child_address'', ''graph_port'', ''graph_endpoint''} then 1
      else if nm \<in> {''duplicate_node_names'', ''node_name_chars'', ''name_is_string'', ''explicit_phandles'',
         ''address_cells_is_cell'', ''size_cells_is_cell'', ''device_type_is_string'', ''compatible_is_string_list'', ''graph_nodes''}
        \<or> drop (length nm - 8) nm = ''_is_cell'' then 0
      else 2)"

text \<open>The names are different because a polynomial in their characters is.\<close>

fun name_hash :: "string \<Rightarrow> nat" where
  "name_hash [] = 0"
| "name_hash (c # s) = of_char c + 2 * name_hash s"

lemmas check_table_defs =
  early_checks_def late_checks_def provider_table_def ERROR_def WARNING_def CHECK_def CHECK_ENTRY_def WARNING_PROPERTY_PHANDLE_CELLS_def

lemma check_hashes: "distinct (map (\<lambda>c. name_hash (cname c)) check_table)"
  by (simp add: check_table_def check_table_defs)

lemma check_names_distinct: "distinct (map cname check_table)"
proof -
  have "distinct (map name_hash (map cname check_table))" using check_hashes by (simp add: comp_def)
  then show ?thesis using distinct_map by blast
qed

lemma early_prereqs: "set (concat (map prereq early_checks)) \<subseteq> cname ` set early_checks"
  by (simp add: check_table_defs)

lemma late_prereqs: "set (concat (map prereq late_checks)) \<subseteq> insert ''phandle_references'' (cname ` set late_checks)"
  by (simp add: check_table_defs)

lemma phandle_references_early: "''phandle_references'' \<in> cname ` set early_checks"
  by (simp add: check_table_defs)

lemma early_ranks: "list_all (\<lambda>c. list_all (\<lambda>p. check_rank p < check_rank (cname c)) (prereq c)) early_checks"
  by (simp add: check_table_defs check_rank_def)

lemma late_ranks: "list_all (\<lambda>c. list_all (\<lambda>p. check_rank p < check_rank (cname c)) (prereq c)) late_checks"
  by (simp add: check_table_defs check_rank_def)

lemma provider_ranks:
  "list_all (\<lambda>(nm, p, c, opt). check_rank (nm @ ''_is_cell'') < check_rank (nm @ ''_property'') \<and> 1 < check_rank (nm @ ''_property'')) provider_table"
  by (simp add: provider_table_def check_rank_def)

lemma check_table_cases:
  assumes "c \<in> set check_table"
  obtains "c \<in> set early_checks" | "c \<in> set late_checks"
    | nm p cells opt where "(nm, p, cells, opt) \<in> set provider_table" "c \<in> set (WARNING_PROPERTY_PHANDLE_CELLS nm p cells opt)"
  using assms by (auto simp: check_table_def)

lemma check_prereqs:
  assumes "c \<in> set check_table" "p \<in> set (prereq c)"
  shows "p \<in> cname ` set check_table \<and> check_rank p < check_rank (cname c)"
  using assms(1)
proof (cases rule: check_table_cases)
  case 1
  then have "p \<in> cname ` set early_checks" using early_prereqs assms(2) by auto
  then show ?thesis using 1 early_ranks assms(2) by (auto simp: list_all_iff check_table_def)
next
  case 2
  then have "p \<in> cname ` set early_checks \<or> p \<in> cname ` set late_checks"
    using late_prereqs phandle_references_early assms(2) by auto
  then show ?thesis using 2 late_ranks assms(2) by (auto simp: list_all_iff check_table_def)
next
  case (3 nm pr cells opt)
  have c: "cname c = nm @ ''_property''" "p = nm @ ''_is_cell'' \<or> p = ''phandle_references''"
    using 3(2) assms(2) by (auto simp: WARNING_PROPERTY_PHANDLE_CELLS_def WARNING_def CHECK_ENTRY_def)
  have "WARNING (nm @ ''_is_cell'') (check_is_cell cells) [] \<in> set check_table"
    using 3(1) by (force simp: check_table_def WARNING_PROPERTY_PHANDLE_CELLS_def)
  then have "nm @ ''_is_cell'' \<in> cname ` set check_table" by (force simp: WARNING_def CHECK_ENTRY_def)
  moreover have "check_rank ''phandle_references'' = 1" by (simp add: check_rank_def)
  moreover have "''phandle_references'' \<in> cname ` set check_table"
    using phandle_references_early by (auto simp: check_table_def)
  ultimately show ?thesis using c 3(1) provider_ranks by (fastforce simp: list_all_iff)
qed

interpretation dtc_checks: ranked_table check_table check_rank
  using check_names_distinct check_prereqs by unfold_locales auto

section \<open>Checks that hold are accepted\<close>

definition prog :: "checker \<Rightarrow> string \<Rightarrow> bool option" where
  "prog s nm = map_option inprogress (check_at s nm)"

lemma prog_updates [simp]:
  "prog (set_check nm (\<lambda>c. c\<lparr>inprogress := b\<rparr>) s) x = (if x = nm then map_option (\<lambda>_. b) (prog s x) else prog s x)"
  "prog (set_check nm (\<lambda>c. c\<lparr>cstatus := v\<rparr>) s) x = prog s x"
  "prog (check_msg opts c ms s) x = prog s x" "prog (s\<lparr>chk := st\<rparr>) x = prog s x"
  by (auto simp: prog_def option.map_comp comp_def)

text \<open>The state before and after running checks of \<open>A\<close> that hold whenever the invariant \<open>I\<close> of the tree does.\<close>

definition good :: "string set \<Rightarrow> (chk_state \<Rightarrow> bool) \<Rightarrow> checker \<Rightarrow> bool" where
  "good A I s \<longleftrightarrow> I (chk s) \<and> (\<forall>x \<in> A. stat s x \<in> {Some UNCHECKED, Some PASSED})"

definition holds_on :: "check_opts \<Rightarrow> string set \<Rightarrow> (chk_state \<Rightarrow> bool) \<Rightarrow> checker \<Rightarrow> bool" where
  "holds_on opts A I s \<longleftrightarrow> (\<forall>c \<in> set (checks s). cname c \<in> A \<longrightarrow>
     set (prereq c) \<subseteq> A \<and>
     (\<forall>st. I st \<longrightarrow> (\<exists>st'. check_nodes_props (cfn c opts) [] (st\<lparr>cfails := []\<rparr>) = Some st' \<and> I st' \<and> cfails st' = [])))"

lemma holds_on_same:
  assumes "holds_on opts A I s" "same_table s s'"
  shows "holds_on opts A I s'"
  unfolding holds_on_def
proof (intro ballI impI)
  fix c assume c: "c \<in> set (checks s')" "cname c \<in> A"
  obtain d where d: "d \<in> set (checks s)" "fixed c = fixed d" using same_table_member [OF assms(2) c(1)] by blast
  note e = fixed_eqD [OF d(2)]
  have "set (prereq d) \<subseteq> A \<and> (\<forall>st. I st \<longrightarrow> (\<exists>st'. check_nodes_props (cfn d opts) [] (st\<lparr>cfails := []\<rparr>) = Some st' \<and> I st' \<and> cfails st' = []))"
    using assms(1) d(1) c(2) e(1) unfolding holds_on_def by auto
  then show "set (prereq c) \<subseteq> A \<and> (\<forall>st. I st \<longrightarrow> (\<exists>st'. check_nodes_props (cfn c opts) [] (st\<lparr>cfails := []\<rparr>) = Some st' \<and> I st' \<and> cfails st' = []))"
    by (simp add: e)
qed

text \<open>A step from \<open>s\<close> to \<open>s'\<close> that ran checks of \<open>A\<close>.\<close>

definition good_step :: "string set \<Rightarrow> (chk_state \<Rightarrow> bool) \<Rightarrow> checker \<Rightarrow> checker \<Rightarrow> bool" where
  "good_step A I s s' \<longleftrightarrow> same_table s s' \<and> good A I s' \<and> prog s' = prog s \<and>
     (\<forall>x. stat s x = Some PASSED \<longrightarrow> stat s' x = Some PASSED)"

lemma good_step_trans: "good_step A I s t \<Longrightarrow> good_step A I t u \<Longrightarrow> good_step A I s u"
  using same_table_trans by (auto simp: good_step_def)

lemma note_prereq_passed:
  "check_at s nm \<noteq> None \<Longrightarrow> stat s p = Some PASSED \<Longrightarrow> note_prereq opts nm p s = Some s"
  by (auto simp: note_prereq_def stat_def)

lemma prereq_loop_good:
  assumes "\<And>p t. p \<in> set ps \<Longrightarrow> same_table s t \<Longrightarrow> good A I t \<Longrightarrow> prog t = prog s \<Longrightarrow>
      \<exists>t'. run_check opts p t = Some (False, t') \<and> good_step A I t t' \<and> stat t' p = Some PASSED"
    and "good A I s" "check_at s nm \<noteq> None"
  shows "\<exists>s'. for_each (prereq_step opts nm) ps (False, s) = Some (False, s') \<and> good_step A I s s' \<and>
    (\<forall>p \<in> set ps. stat s' p = Some PASSED)"
  using assms
proof (induction ps arbitrary: s)
  case Nil
  then show ?case by (simp add: good_step_def)
next
  case (Cons p ps)
  obtain t where t: "run_check opts p s = Some (False, t)" "good_step A I s t" "stat t p = Some PASSED"
    using Cons.prems(1) [of p s] Cons.prems(2) by auto
  have s: "same_table s t" "good A I t" "prog t = prog s" using t(2) by (simp_all add: good_step_def)
  have nm: "check_at t nm \<noteq> None" using same_table_atD [OF s(1)] Cons.prems(3) by auto
  have "\<exists>s'. for_each (prereq_step opts nm) ps (False, t) = Some (False, s') \<and> good_step A I t s' \<and> (\<forall>p \<in> set ps. stat s' p = Some PASSED)"
  proof (rule Cons.IH [OF _ s(2) nm])
    fix q u assume "q \<in> set ps" "same_table t u" "good A I u" "prog u = prog t"
    then show "\<exists>t'. run_check opts q u = Some (False, t') \<and> good_step A I u t' \<and> stat t' q = Some PASSED"
      using Cons.prems(1) [of q u] same_table_trans [OF s(1)] s(3) by simp
  qed
  then obtain s' where s': "for_each (prereq_step opts nm) ps (False, t) = Some (False, s')" "good_step A I t s'"
    "\<forall>p \<in> set ps. stat s' p = Some PASSED" by blast
  moreover have "stat s' p = Some PASSED" using s'(2) t(3) by (simp add: good_step_def)
  moreover have "prereq_step opts nm p (False, s) = Some (False, t)"
    using t(1) note_prereq_passed [OF nm t(3)] by (simp add: prereq_step_def)
  ultimately show ?case using good_step_trans [OF t(2)] by auto
qed

context ranked_table
begin


lemma run_check_good:
  assumes "over_table tbl s" "holds_on opts A I s" "good A I s" "nm \<in> A" "nm \<in> cname ` set tbl"
    "\<And>x. rank x \<le> rank nm \<Longrightarrow> prog s x \<noteq> Some True"
  shows "\<exists>s'. run_check opts nm s = Some (False, s') \<and> good_step A I s s' \<and> stat s' nm = Some PASSED"
  using assms
proof (induction "rank nm" arbitrary: nm s rule: less_induct)
  case less
  have "nm \<in> cname ` set (checks s)" using less.prems(5) over_names [OF less.prems(1)] by (metis list.set_map)
  then obtain c where c: "c \<in> set (checks s)" "cname c = nm" by blast
  have at: "check_at s nm = Some c" using check_at_member [OF over_distinct [OF less.prems(1)] c(1)] c(2) by simp
  have np: "\<not> inprogress c" using less.prems(6) [of nm] at by (simp add: prog_def)
  have st: "stat s nm = Some (cstatus c)" using at by (simp add: stat_def)
  then have "cstatus c \<in> {UNCHECKED, PASSED}" using less.prems(3,4) by (auto simp: good_def)
  then show ?case
  proof (cases "cstatus c = UNCHECKED")
    case False
    then have p: "cstatus c = PASSED" using \<open>cstatus c \<in> _\<close> by simp
    let ?s = "set_check nm (\<lambda>c. c\<lparr>inprogress := False\<rparr>) s"
    have "run_check opts nm s = Some (False, ?s)" using at np p by (simp add: run_check_steps [of opts nm s] run_out_def)
    moreover have "prog ?s = prog s" using at np by (auto simp: prog_def fun_eq_iff)
    moreover have "good A I ?s" using less.prems(3) by (simp add: good_def)
    ultimately show ?thesis using st p by (auto simp: good_step_def)
  next
    case True
    let ?s0 = "set_check nm (\<lambda>c. c\<lparr>inprogress := True\<rparr>) s"
    have h: "set (prereq c) \<subseteq> A" "\<And>st. I st \<Longrightarrow> \<exists>st'. check_nodes_props (cfn c opts) [] (st\<lparr>cfails := []\<rparr>) = Some st' \<and> I st' \<and> cfails st' = []"
      using less.prems(2,4) c unfolding holds_on_def by auto
    have g0: "good A I ?s0" using less.prems(3) by (simp add: good_def)
    have "\<exists>s1. for_each (prereq_step opts nm) (prereq c) (False, ?s0) = Some (False, s1) \<and> good_step A I ?s0 s1 \<and>
        (\<forall>p \<in> set (prereq c). stat s1 p = Some PASSED)"
    proof (rule prereq_loop_good [OF _ g0])
      fix p t assume p: "p \<in> set (prereq c)" "same_table ?s0 t" "good A I t" "prog t = prog ?s0"
      have lower: "rank p < rank nm" by (rule over_lower [OF less.prems(1) at p(1)])
      have t: "same_table s t" using same_table_trans [OF update_table(1) p(2)] .
      obtain d where d: "d \<in> set tbl" "prereq d = prereq c" using over_member [OF less.prems(1) c(1)] by auto
      show "\<exists>t'. run_check opts p t = Some (False, t') \<and> good_step A I t t' \<and> stat t' p = Some PASSED"
      proof (rule less.hyps [OF lower over_table_same [OF less.prems(1) t] holds_on_same [OF less.prems(2) t] p(3)])
        show "p \<in> A" using h(1) p(1) by auto
        show "p \<in> cname ` set tbl" using prereq_known [OF d(1), of p] d(2) p(1) by simp
        show "prog t x \<noteq> Some True" if "rank x \<le> rank p" for x
          using less.prems(6) [of x] that lower p(4) by auto
      qed
    qed (use at in simp)
    then obtain s1 where s1: "for_each (prereq_step opts nm) (prereq c) (False, ?s0) = Some (False, s1)" "good_step A I ?s0 s1" by blast
    have r: "loop_post opts rank nm (prereq c) (False, ?s0) (False, s1)"
    proof (rule loop_spec [OF s1(1)])
      show "stat ?s0 nm \<in> {Some UNCHECKED, Some PREREQ}" using st True by simp
      show "\<And>p. p \<in> set (prereq c) \<Longrightarrow> rank p < rank nm" by (rule over_lower [OF less.prems(1) at])
      show "\<And>p t err t'. p \<in> set (prereq c) \<Longrightarrow> same_table ?s0 t \<Longrightarrow> run_check opts p t = Some (err, t') \<Longrightarrow> run_post opts rank p t err t'"
        using run_check_spec over_table_same [OF over_table_same [OF less.prems(1) update_table(1)]] by blast
    qed
    have g1: "good A I s1" "same_table s s1" "prog s1 = prog ?s0"
      using s1(2) same_table_trans [OF update_table(1)] by (auto simp: good_step_def)
    obtain d where d: "check_at s1 nm = Some d" "fixed c = fixed d" using same_table_atD [OF g1(2) at] by blast
    have "stat s1 nm = Some UNCHECKED" using r g1(1) less.prems(4) by (auto simp: loop_post_def good_def)
    then have u: "cstatus d = UNCHECKED" using d(1) by (simp add: stat_def)
    obtain st' where st': "check_nodes_props (cfn d opts) [] ((chk s1)\<lparr>cfails := []\<rparr>) = Some st'" "I st'" "cfails st' = []"
      using h(2) [of "chk s1"] g1(1) fixed_eqD(2) [OF d(2)] by (auto simp: good_def)
    let ?s2 = "set_check nm (\<lambda>c. c\<lparr>cstatus := PASSED\<rparr>) (check_msg opts d [] (s1\<lparr>chk := st'\<rparr>))"
    let ?s3 = "set_check nm (\<lambda>c. c\<lparr>inprogress := False\<rparr>) ?s2"
    have "run_fn opts nm s1 = Some ?s2" using d(1) u st' by (simp add: run_fn_def)
    moreover have "run_out nm False ?s2 = Some (False, ?s3)" using d(1) by (simp add: run_out_def)
    ultimately have "run_check opts nm s = Some (False, ?s3)"
      using at np True s1(1) by (simp add: run_check_steps [of opts nm s])
    moreover have "stat ?s3 nm = Some PASSED" using d(1) by (simp add: stat_def)
    moreover have "good_step A I s ?s3"
    proof -
      have "same_table s (check_msg opts d [] (s1\<lparr>chk := st'\<rparr>))" using g1(2) by simp
      then have "same_table s ?s3" using same_table_trans update_table by metis
      moreover have "prog s nm = Some False" using at np by (simp add: prog_def)
      then have "prog ?s3 = prog s" using g1(3) by (auto simp: fun_eq_iff)
      moreover have "good A I ?s3" using g1(1) st'(2) d(1) by (auto simp: good_def stat_def)
      moreover have "stat ?s3 x = Some PASSED" if "stat s x = Some PASSED" for x
        using s1(2) that d(1) by (auto simp: good_step_def stat_def)
      ultimately show ?thesis by (simp add: good_step_def)
    qed
    ultimately show ?thesis by blast
  qed
qed

lemma process_loop_good:
  assumes "over_table tbl s" "holds_on opts A I s" "good A I s" "\<And>x. prog s x \<noteq> Some True" "set nms \<subseteq> cname ` set tbl"
    "\<And>c. c \<in> set (checks s) \<Longrightarrow> cwarn c \<or> cerror c \<Longrightarrow> cname c \<in> A"
  shows "\<exists>s'. for_each (process_step opts) nms (False, s) = Some (False, s') \<and> good_step A I s s' \<and>
    (\<forall>c \<in> set (checks s). cname c \<in> set nms \<longrightarrow> cwarn c \<or> cerror c \<longrightarrow> stat s' (cname c) = Some PASSED)"
  using assms
proof (induction nms arbitrary: s)
  case Nil
  then show ?case by (simp add: good_step_def)
next
  case (Cons nm nms)
  have "nm \<in> cname ` set (checks s)" using Cons.prems(5) over_names [OF Cons.prems(1)] by (metis list.set_intros(1) list.set_map subsetD)
  then obtain c where c: "c \<in> set (checks s)" "cname c = nm" by blast
  note dist = over_distinct [OF Cons.prems(1)]
  have at: "check_at s nm = Some c" using check_at_member [OF dist c(1)] c(2) by simp
  have "\<exists>t. process_step opts nm (False, s) = Some (False, t) \<and> good_step A I s t \<and> (cwarn c \<or> cerror c \<longrightarrow> stat t nm = Some PASSED)"
  proof (cases "cwarn c \<or> cerror c")
    case True
    then obtain t where "run_check opts nm s = Some (False, t)" "good_step A I s t" "stat t nm = Some PASSED"
      using run_check_good [OF Cons.prems(1-3), of nm] Cons.prems(4,5) Cons.prems(6) [OF c(1)] c(2) by auto
    then show ?thesis using True at by (simp add: process_step_def)
  next
    case False
    then show ?thesis using at Cons.prems(3) by (simp add: process_step_def good_step_def)
  qed
  then obtain t where t: "process_step opts nm (False, s) = Some (False, t)" "good_step A I s t"
    "cwarn c \<or> cerror c \<longrightarrow> stat t nm = Some PASSED" by blast
  have s: "same_table s t" "good A I t" "prog t = prog s" using t(2) by (simp_all add: good_step_def)
  have "\<exists>s'. for_each (process_step opts) nms (False, t) = Some (False, s') \<and> good_step A I t s' \<and>
    (\<forall>c \<in> set (checks t). cname c \<in> set nms \<longrightarrow> cwarn c \<or> cerror c \<longrightarrow> stat s' (cname c) = Some PASSED)"
  proof (rule Cons.IH [OF over_table_same [OF Cons.prems(1) s(1)] holds_on_same [OF Cons.prems(2) s(1)] s(2)])
    show "\<And>x. prog t x \<noteq> Some True" using Cons.prems(4) s(3) by simp
    show "set nms \<subseteq> cname ` set tbl" using Cons.prems(5) by simp
    fix d assume "d \<in> set (checks t)" "cwarn d \<or> cerror d"
    then show "cname d \<in> A" using same_table_member [OF s(1)] Cons.prems(6) fixed_eqD by metis
  qed
  then obtain s' where s': "for_each (process_step opts) nms (False, t) = Some (False, s')" "good_step A I t s'"
    "\<forall>c \<in> set (checks t). cname c \<in> set nms \<longrightarrow> cwarn c \<or> cerror c \<longrightarrow> stat s' (cname c) = Some PASSED" by blast
  have "stat s' (cname d) = Some PASSED"
    if d: "d \<in> set (checks s)" "cname d \<in> set (nm # nms)" "cwarn d \<or> cerror d" for d
  proof (cases "cname d = nm")
    case True
    then have "d = c" using at check_at_member [OF dist d(1)] by simp
    then show ?thesis using t(3) d(3) s'(2) True by (auto simp: good_step_def)
  next
    case False
    obtain e where e: "check_at t (cname d) = Some e" "fixed d = fixed e"
      using same_table_atD [OF s(1) check_at_member [OF dist d(1)]] by blast
    then show ?thesis using s'(3) check_at_in [OF e(1)] fixed_eqD(1,3,4) [OF e(2)] d False by auto
  qed
  then show ?case using t(1) s'(1) good_step_trans [OF t(2) s'(2)] by auto
qed

lemma process_checks_good:
  assumes "over_table tbl s" "\<forall>c \<in> set (checks s). cstatus c = UNCHECKED \<and> \<not> inprogress c"
    "\<forall>c \<in> set (checks s). cwarn c \<or> cerror c \<longrightarrow> cname c \<in> A" "A \<subseteq> cname ` set tbl" "holds_on opts A I s" "I (chk s)"
  shows "\<exists>s'. process_checks opts force s = Some (False, s') \<and> I (chk s') \<and>
    (\<forall>c \<in> set (checks s'). cwarn c \<or> cerror c \<longrightarrow> cstatus c = PASSED)"
proof -
  note dist = over_distinct [OF assms(1)]
  have at: "check_at s (cname c) = Some c" if "c \<in> set (checks s)" for c by (rule check_at_member [OF dist that])
  have "stat s x = Some UNCHECKED" if "x \<in> A" for x
  proof -
    have "x \<in> cname ` set (checks s)" using that assms(4) over_names [OF assms(1)] by (metis list.set_map subsetD)
    then show ?thesis using at assms(2) by (auto simp: stat_def)
  qed
  then have "good A I s" using assms(6) by (simp add: good_def)
  moreover have "prog s x \<noteq> Some True" for x using assms(2) check_at_in [of s x] by (auto simp: prog_def)
  moreover have "set (map cname (checks s)) \<subseteq> cname ` set tbl" using over_names [OF assms(1)] by simp
  ultimately obtain s' where s': "for_each (process_step opts) (map cname (checks s)) (False, s) = Some (False, s')" "good_step A I s s'"
    "\<forall>c \<in> set (checks s). cname c \<in> set (map cname (checks s)) \<longrightarrow> cwarn c \<or> cerror c \<longrightarrow> stat s' (cname c) = Some PASSED"
    using process_loop_good [OF assms(1,5), of "map cname (checks s)"] assms(3) by blast
  have t: "same_table s s'" "I (chk s')" using s'(2) by (simp_all add: good_step_def good_def)
  have "cstatus c = PASSED" if c: "c \<in> set (checks s')" "cwarn c \<or> cerror c" for c
  proof -
    obtain d where d: "d \<in> set (checks s)" "fixed c = fixed d" using same_table_member [OF t(1) c(1)] by blast
    have "stat s' (cname d) = Some PASSED" using s'(3) d(1) c(2) fixed_eqD(3,4) [OF d(2)] by auto
    moreover have "check_at s' (cname c) = Some c" by (rule check_at_member [OF over_distinct [OF over_table_same [OF assms(1) t(1)]] c(1)])
    ultimately show ?thesis using fixed_eqD(1) [OF d(2)] by (simp add: stat_def)
  qed
  then show ?thesis using s'(1) t(2) by (simp add: process_checks_def)
qed

end

section \<open>A tree with only a root\<close>

definition blank_info :: node_info where
  "blank_info = zero_info\<lparr>nname := Some [], nfullpath := Some (cstr ''/'')\<rparr>"

definition blank :: "chk_state \<Rightarrow> bool" where
  "blank st \<longleftrightarrow> (\<exists>a b. root_of st = Node (blank_info\<lparr>naddr_cells := a, nsize_cells := b\<rparr>) [] [])"

definition blank_state :: chk_state where
  "blank_state = \<lparr>cdti = build_dt_info 1 [] (Node blank_info [] []) 0, ccounter = 1, cfails = []\<rparr>"

definition default_checker :: "chk_state \<Rightarrow> checker" where
  "default_checker st = \<lparr>checks = check_table, chk = st, messages = []\<rparr>"

lemma blank_leaf: "blank st \<Longrightarrow> f [] st = Some st' \<Longrightarrow> blank st' \<Longrightarrow> check_nodes_props f [] st = Some st'"
  by (auto simp: check_nodes_props_def check_children.simps [of f "[]" 0] nd_def blank_def)

lemmas check_defs = nd_def prop_of_def get_property_def live_props_def live_children_def parent_of_def parent_on_def
  get_unitname_def at_def get_subnode_def

lemma blank_checks:
  assumes "blank st"
  shows "check_duplicate_node_names opts [] st = Some st" "check_duplicate_property_names opts [] st = Some st"
    "check_node_name_chars chars opts [] st = Some st" "check_node_name_format opts [] st = Some st"
    "check_property_name_chars chars opts [] st = Some st" "check_is_string nm opts [] st = Some st"
    "check_name_properties opts [] st = Some st" "check_node_name_vs_property_name opts [] st = Some st"
    "check_duplicate_label_node opts [] st = Some st" "check_explicit_phandles opts [] st = Some st"
    "fixup_phandle_references opts [] st = Some st" "fixup_path_references opts [] st = Some st"
    "fixup_omit_unused_nodes opts [] st = Some st" "check_is_cell nm opts [] st = Some st" "check_is_string_list nm opts [] st = Some st"
    "check_names_is_string_list opts [] st = Some st" "check_reg_format opts [] st = Some st" "check_ranges_format nm opts [] st = Some st"
    "check_unit_address_vs_reg opts [] st = Some st" "check_unit_address_format opts [] st = Some st"
    "check_pci_bridge opts [] st = Some st" "check_pci_device_reg opts [] st = Some st" "check_pci_device_bus_num opts [] st = Some st"
    "check_simple_bus_bridge opts [] st = Some st" "check_simple_bus_reg opts [] st = Some st" "check_i2c_bus_bridge opts [] st = Some st"
    "check_i2c_bus_reg opts [] st = Some st" "check_spi_bus_bridge opts [] st = Some st" "check_spi_bus_reg opts [] st = Some st"
    "check_avoid_default_addr_size opts [] st = Some st" "check_avoid_unnecessary_addr_size opts [] st = Some st"
    "check_unique_unit_address opts [] st = Some st" "check_obsolete_chosen_interrupt_controller opts [] st = Some st"
    "check_chosen_node_is_root opts [] st = Some st" "check_chosen_node_bootargs opts [] st = Some st"
    "check_chosen_node_stdout_path opts [] st = Some st" "check_provider_cells_property pr opts [] st = Some st"
    "check_gpios_property opts [] st = Some st" "check_interrupts_property opts [] st = Some st" "check_interrupt_provider opts [] st = Some st"
    "check_alias_paths opts [] st = Some st" "check_graph_nodes opts [] st = Some st" "check_graph_child_address opts [] st = Some st"
    "check_graph_port opts [] st = Some st" "check_graph_endpoint opts [] st = Some st"
proof -
  obtain a b where r: "root_of st = Node (blank_info\<lparr>naddr_cells := a, nsize_cells := b\<rparr>) [] []" using assms by (auto simp: blank_def)
  note d = r check_defs blank_info_def zero_info_def cstr_def
  show "check_duplicate_node_names opts [] st = Some st" by (simp add: d check_duplicate_node_names_def)
  show "check_duplicate_property_names opts [] st = Some st" by (simp add: d check_duplicate_property_names_def)
  show "check_node_name_chars chars opts [] st = Some st" by (simp add: d check_node_name_chars_def)
  show "check_node_name_format opts [] st = Some st" by (simp add: d check_node_name_format_def)
  show "check_property_name_chars chars opts [] st = Some st" by (simp add: d check_property_name_chars_def)
  show "check_is_string nm opts [] st = Some st" by (simp add: d check_is_string_def)
  show "check_name_properties opts [] st = Some st" by (simp add: d check_name_properties_def)
  show "check_node_name_vs_property_name opts [] st = Some st" by (simp add: d check_node_name_vs_property_name_def)
  show "check_duplicate_label_node opts [] st = Some st" by (simp add: d check_duplicate_label_node_def check_labels_def)
  show "check_explicit_phandles opts [] st = Some st" by (simp add: d check_explicit_phandles_def check_phandle_prop_def)
  show "fixup_phandle_references opts [] st = Some st"
    by (simp add: d fixup_phandle_references_def fixup_phandle_props.simps [of opts "[]" 0])
  show "fixup_path_references opts [] st = Some st" by (simp add: d fixup_path_references_def)
  show "fixup_omit_unused_nodes opts [] st = Some st" by (simp add: d fixup_omit_unused_nodes_def)
  show "check_is_cell nm opts [] st = Some st" by (simp add: d check_is_cell_def)
  show "check_is_string_list nm opts [] st = Some st" by (simp add: d check_is_string_list_def)
  show "check_names_is_string_list opts [] st = Some st" by (simp add: d check_names_is_string_list_def)
  show "check_reg_format opts [] st = Some st" by (simp add: d check_reg_format_def)
  show "check_ranges_format nm opts [] st = Some st" by (simp add: d check_ranges_format_def)
  show "check_unit_address_vs_reg opts [] st = Some st" by (simp add: d check_unit_address_vs_reg_def)
  show "check_unit_address_format opts [] st = Some st" by (simp add: d check_unit_address_format_def)
  show "check_pci_bridge opts [] st = Some st" by (simp add: d check_pci_bridge_def)
  show "check_pci_device_reg opts [] st = Some st" by (simp add: d check_pci_device_reg_def)
  show "check_pci_device_bus_num opts [] st = Some st" by (simp add: d check_pci_device_bus_num_def)
  show "check_simple_bus_bridge opts [] st = Some st" by (simp add: d check_simple_bus_bridge_def node_is_compatible_def)
  show "check_simple_bus_reg opts [] st = Some st" by (simp add: d check_simple_bus_reg_def)
  show "check_i2c_bus_bridge opts [] st = Some st" by (simp add: d check_i2c_bus_bridge_def strprefixeq_def)
  show "check_i2c_bus_reg opts [] st = Some st" by (simp add: d check_i2c_bus_reg_def)
  show "check_spi_bus_bridge opts [] st = Some st" by (simp add: d check_spi_bus_bridge_def check_spi_cells_def strprefixeq_def)
  show "check_spi_bus_reg opts [] st = Some st" by (simp add: d check_spi_bus_reg_def)
  show "check_avoid_default_addr_size opts [] st = Some st" by (simp add: d check_avoid_default_addr_size_def)
  show "check_avoid_unnecessary_addr_size opts [] st = Some st" by (simp add: d check_avoid_unnecessary_addr_size_def)
  show "check_unique_unit_address opts [] st = Some st" by (simp add: d check_unique_unit_address_def check_unique_unit_address_common_def)
  show "check_obsolete_chosen_interrupt_controller opts [] st = Some st"
    by (simp add: d check_obsolete_chosen_interrupt_controller_def get_node_by_path.simps path_children.simps)
  show "check_chosen_node_is_root opts [] st = Some st" by (simp add: d check_chosen_node_is_root_def)
  show "check_chosen_node_bootargs opts [] st = Some st" by (simp add: d check_chosen_node_bootargs_def)
  show "check_chosen_node_stdout_path opts [] st = Some st" by (simp add: d check_chosen_node_stdout_path_def)
  show "check_provider_cells_property pr opts [] st = Some st" by (simp add: d check_provider_cells_property_def)
  show "check_gpios_property opts [] st = Some st" by (simp add: d check_gpios_property_def)
  show "check_interrupts_property opts [] st = Some st" by (simp add: d check_interrupts_property_def)
  show "check_interrupt_provider opts [] st = Some st" by (simp add: d check_interrupt_provider_def node_is_interrupt_provider_def)
  show "check_alias_paths opts [] st = Some st" by (simp add: d check_alias_paths_def)
  show "check_graph_nodes opts [] st = Some st" by (simp add: d check_graph_nodes_def)
  show "check_graph_child_address opts [] st = Some st" by (simp add: d check_graph_child_address_def)
  show "check_graph_port opts [] st = Some st" by (simp add: d check_graph_port_def)
  show "check_graph_endpoint opts [] st = Some st" by (simp add: d check_graph_endpoint_def)
qed

lemma blank_addr_size_cells:
  assumes "blank st"
  shows "\<exists>st'. fixup_addr_size_cells opts [] st = Some st' \<and> blank st' \<and> cfails st' = cfails st"
proof -
  obtain a b where r: "root_of st = Node (blank_info\<lparr>naddr_cells := a, nsize_cells := b\<rparr>) [] []" using assms by (auto simp: blank_def)
  then show ?thesis
    by (auto simp: blank_def fixup_addr_size_cells_def cells_or_unset_def check_defs upd_def set_root_def node_updates)
qed

definition enabled_names :: "string set" where
  "enabled_names = cname ` {c \<in> set check_table. cwarn c \<or> cerror c}"

definition passes :: "(chk_state \<Rightarrow> bool) \<Rightarrow> check_opts \<Rightarrow> check \<Rightarrow> bool" where
  "passes I opts c \<longleftrightarrow> (\<forall>st. I st \<longrightarrow> cfails st = [] \<longrightarrow> (\<exists>st'. cfn c opts [] st = Some st' \<and> I st' \<and> cfails st' = []))"

lemma passes_same: "(\<And>st. blank st \<Longrightarrow> cfn c opts [] st = Some st) \<Longrightarrow> passes blank opts c"
  by (auto simp: passes_def)

lemma passes_same': "(\<And>st. blank st \<Longrightarrow> fn opts [] st = Some st) \<Longrightarrow> passes blank opts (CHECK_ENTRY nm fn w e ps)"
  by (rule passes_same) (simp add: CHECK_ENTRY_def)

lemma check_entry_sel:
  "cwarn (CHECK_ENTRY nm fn w e ps) = w" "cerror (CHECK_ENTRY nm fn w e ps) = e" "cname (CHECK_ENTRY nm fn w e ps) = nm"
  "prereq (CHECK_ENTRY nm fn w e ps) = ps"
  by (simp_all add: CHECK_ENTRY_def)

lemma addr_size_cells_pass: "passes blank opts (CHECK_ENTRY nm fixup_addr_size_cells w e ps)"
  using blank_addr_size_cells by (fastforce simp: passes_def CHECK_ENTRY_def)

lemma early_pass: "list_all (\<lambda>c. cwarn c \<or> cerror c \<longrightarrow> passes blank opts c) early_checks"
  by (simp add: early_checks_def ERROR_def WARNING_def CHECK_def check_entry_sel passes_same' blank_checks addr_size_cells_pass)

lemma late_pass: "list_all (\<lambda>c. cwarn c \<or> cerror c \<longrightarrow> passes blank opts c) late_checks"
  by (simp add: late_checks_def ERROR_def WARNING_def CHECK_def check_entry_sel passes_same' blank_checks)

lemma blank_passes:
  assumes "c \<in> set check_table" "cwarn c \<or> cerror c"
  shows "passes blank opts c"
  using assms(1)
proof (cases rule: check_table_cases)
  case (3 nm pr cells opt)
  then show ?thesis
    by (auto simp: WARNING_PROPERTY_PHANDLE_CELLS_def WARNING_def intro!: passes_same' blank_checks)
qed (use early_pass late_pass assms(2) in \<open>auto simp: list_all_iff\<close>)

lemma enabled_known: "set (concat (map prereq early_checks)) \<subseteq> cname ` set (filter (\<lambda>c. cwarn c \<or> cerror c) early_checks)"
  "set (concat (map prereq late_checks)) \<subseteq> insert ''phandle_references'' (cname ` set (filter (\<lambda>c. cwarn c \<or> cerror c) late_checks))"
  "''phandle_references'' \<in> cname ` set (filter (\<lambda>c. cwarn c \<or> cerror c) early_checks)"
  by (simp_all add: check_table_defs)

lemma enabled_prereqs:
  assumes "c \<in> set check_table" "p \<in> set (prereq c)"
  shows "p \<in> enabled_names"
proof -
  have e: "cname ` set (filter (\<lambda>c. cwarn c \<or> cerror c) early_checks) \<subseteq> enabled_names"
    "cname ` set (filter (\<lambda>c. cwarn c \<or> cerror c) late_checks) \<subseteq> enabled_names"
    by (auto simp: enabled_names_def check_table_def)
  from assms(1) show ?thesis
  proof (cases rule: check_table_cases)
    case 1
    then have "p \<in> set (concat (map prereq early_checks))" using assms(2) by auto
    then show ?thesis using enabled_known(1) e(1) by blast
  next
    case 2
    then have "p \<in> set (concat (map prereq late_checks))" using assms(2) by auto
    then show ?thesis using enabled_known(2,3) e by blast
  next
    case (3 nm pr cells opt)
    let ?c = "WARNING (nm @ ''_is_cell'') (check_is_cell cells) []"
    have "?c \<in> set check_table" using 3(1) by (force simp: check_table_def WARNING_PROPERTY_PHANDLE_CELLS_def)
    then have "cname ?c \<in> enabled_names" unfolding enabled_names_def by (intro imageI) (simp add: WARNING_def CHECK_ENTRY_def)
    then have "nm @ ''_is_cell'' \<in> enabled_names" by (simp add: WARNING_def CHECK_ENTRY_def)
    moreover have "p = nm @ ''_is_cell'' \<or> p = ''phandle_references''"
      using 3(2) assms(2) by (auto simp: WARNING_PROPERTY_PHANDLE_CELLS_def WARNING_def CHECK_ENTRY_def)
    ultimately show ?thesis using enabled_known(3) e(1) by blast
  qed
qed

lemma default_holds: "holds_on opts enabled_names blank (default_checker blank_state)"
  unfolding holds_on_def
proof (intro ballI impI conjI allI)
  fix c assume "c \<in> set (checks (default_checker blank_state))" "cname c \<in> enabled_names"
  then have c: "c \<in> set check_table" "cwarn c \<or> cerror c"
    using check_names_distinct by (auto simp: default_checker_def enabled_names_def distinct_map inj_on_def)
  show "set (prereq c) \<subseteq> enabled_names" using enabled_prereqs [OF c(1)] by blast
  fix st assume "blank st"
  then have b: "blank (st\<lparr>cfails := []\<rparr>)" by (simp add: blank_def)
  then obtain st' where "cfn c opts [] (st\<lparr>cfails := []\<rparr>) = Some st'" "blank st'" "cfails st' = []"
    using blank_passes [OF c, of opts] unfolding passes_def by fastforce
  then show "\<exists>st'. check_nodes_props (cfn c opts) [] (st\<lparr>cfails := []\<rparr>) = Some st' \<and> blank st' \<and> cfails st' = []"
    using blank_leaf [OF b] by blast
qed

definition fresh :: "check \<Rightarrow> bool" where
  "fresh c \<longleftrightarrow> cstatus c = UNCHECKED \<and> \<not> inprogress c"

lemma fresh_entry: "fresh (CHECK_ENTRY nm fn w e ps)"
  by (simp add: fresh_def CHECK_ENTRY_def)

lemma table_fresh: "list_all fresh early_checks" "list_all fresh late_checks" "list_all fresh (WARNING_PROPERTY_PHANDLE_CELLS nm p c opt)"
  by (simp_all add: early_checks_def late_checks_def ERROR_def WARNING_def CHECK_def WARNING_PROPERTY_PHANDLE_CELLS_def fresh_entry)

lemma default_checker_start:
  "over_table check_table (default_checker st)" "\<forall>c \<in> set (checks (default_checker st)). cstatus c = UNCHECKED \<and> \<not> inprogress c"
proof -
  have "fresh c" if "c \<in> set check_table" for c
    using that table_fresh by (cases rule: check_table_cases) (auto simp: list_all_iff)
  then show "\<forall>c \<in> set (checks (default_checker st)). cstatus c = UNCHECKED \<and> \<not> inprogress c"
    by (simp add: default_checker_def fresh_def)
qed (simp add: default_checker_def over_table_def)

lemma default_accepts:
  "\<exists>s'. process_checks opts force (default_checker blank_state) = Some (False, s') \<and> blank (chk s') \<and>
     (\<forall>c \<in> set (checks s'). cwarn c \<or> cerror c \<longrightarrow> cstatus c = PASSED)"
proof (rule dtc_checks.process_checks_good [OF default_checker_start _ _ default_holds])
  show "\<forall>c \<in> set (checks (default_checker blank_state)). cwarn c \<or> cerror c \<longrightarrow> cname c \<in> enabled_names"
    by (auto simp: default_checker_def enabled_names_def)
  show "enabled_names \<subseteq> cname ` set check_table" by (auto simp: enabled_names_def)
  show "blank (chk (default_checker blank_state))"
    by (auto simp: default_checker_def blank_state_def build_dt_info_def blank_def blank_info_def zero_info_def)
qed

section \<open>The driver of the checks is sound and complete\<close>

text \<open>C6: dtc goes on only with a tree that passed. Whatever checks are switched on and whatever they do to the
  tree, when \<open>process_checks\<close> without \<open>force\<close> lets the program continue then every check that is an
  error has passed, and every check that is switched on has been tried. The driver has run a sequence of checks that starts on
  the tree it was given and ends with the tree it leaves: each check ran once, over the whole tree that the check before it left,
  after all its prerequisites had passed, and it has the status passed exactly when it reported no failure there
  (\<open>checks_run\<close>, \<open>outcomes\<close>). The table itself stays as it was.\<close>

theorem process_checks_sound:
  assumes "over_table check_table s" "\<forall>c \<in> set (checks s). cstatus c = UNCHECKED"
    "process_checks opts False s = Some (False, s')"
  shows "same_table s s' \<and> (\<exists>rs. checks_run opts s (chk s) rs (chk s') \<and> outcomes rs s') \<and>
    (\<forall>c \<in> set (checks s'). (cwarn c \<or> cerror c \<longrightarrow> cstatus c \<noteq> UNCHECKED) \<and> (cerror c \<longrightarrow> cstatus c = PASSED))"
proof -
  note p = dtc_checks.process_checks_spec [OF assms]
  obtain rs where rs: "checks_run opts s' (chk s) rs (chk s')" "outcomes rs s'" using p(2) by (auto simp: sound_def)
  have "same_table s' s" using p(1) by (simp add: same_table_def)
  then have "checks_run opts s (chk s) rs (chk s')" by (rule checks_run_table [OF rs(1)])
  then show ?thesis using rs(2) p(1,3,4) by blast
qed

definition plain_opts :: check_opts where
  "plain_opts = \<lparr>copts = \<lparr>phandle_format = 2, generate_fixups = False\<rparr>, quiet = 0, generate_symbols = False\<rparr>"

theorem process_checks_sound_witness:
  "\<exists>s'. process_checks plain_opts False (default_checker blank_state) = Some (False, s') \<and>
     (\<exists>rs. checks_run plain_opts (default_checker blank_state) (chk (default_checker blank_state)) rs (chk s') \<and> outcomes rs s') \<and>
     (\<forall>c \<in> set (checks s'). cerror c \<longrightarrow> cstatus c = PASSED)"
proof -
  obtain s' where s': "process_checks plain_opts False (default_checker blank_state) = Some (False, s')"
    using default_accepts by blast
  have "\<forall>c \<in> set (checks (default_checker blank_state)). cstatus c = UNCHECKED" using default_checker_start(2) by blast
  note process_checks_sound [OF default_checker_start(1) this s']
  then show ?thesis using s' by blast
qed

text \<open>C7: The driver itself never gets stuck and does not reject a tree on its own: the prerequisites have no cycle,
  so no check is started while it is in progress. If, as long as an invariant of the tree
  holds, each check of a set closed under prerequisites ends, keeps the invariant and reports nothing, and every check that
  is switched on is in this set, then \<open>process_checks\<close> ends, lets the program continue,
  and each check that is switched on has passed.\<close>

theorem process_checks_accepts:
  assumes "over_table check_table s" "\<forall>c \<in> set (checks s). cstatus c = UNCHECKED \<and> \<not> inprogress c"
    "\<forall>c \<in> set (checks s). cwarn c \<or> cerror c \<longrightarrow> cname c \<in> A" "A \<subseteq> cname ` set check_table"
    "holds_on opts A I s" "I (chk s)"
  shows "\<exists>s'. process_checks opts force s = Some (False, s') \<and> I (chk s') \<and>
    (\<forall>c \<in> set (checks s'). cwarn c \<or> cerror c \<longrightarrow> cstatus c = PASSED)"
  by (rule dtc_checks.process_checks_good [OF assms])

theorem process_checks_accepts_witness:
  "\<exists>s'. process_checks plain_opts False (default_checker blank_state) = Some (False, s') \<and>
     (\<forall>c \<in> set (checks s'). cwarn c \<or> cerror c \<longrightarrow> cstatus c = PASSED)"
proof -
  have "\<forall>c \<in> set (checks (default_checker blank_state)). cwarn c \<or> cerror c \<longrightarrow> cname c \<in> enabled_names"
    by (auto simp: default_checker_def enabled_names_def)
  moreover have "enabled_names \<subseteq> cname ` set check_table" by (auto simp: enabled_names_def)
  moreover have "blank (chk (default_checker blank_state))"
    by (auto simp: default_checker_def blank_state_def build_dt_info_def blank_def blank_info_def zero_info_def)
  ultimately show ?thesis using process_checks_accepts [OF default_checker_start _ _ default_holds] by blast
qed

end
