(* ===== verification/Dtc_Phandles.thy ===== *)
theory Dtc_Phandles
  imports Dtc_Check_Driver Dtc_Merge
begin

text \<open>
  The fixup of phandle references (\<open>fixup_phandle_references\<close> of \<open>checks.c\<close> with
  \<open>get_node_phandle\<close> of \<open>livetree.c\<close>): the shape of the tree that names and labels refer to stays, and every
  reference gets the phandle of its node.
\<close>

section \<open>What a reference depends on\<close>

definition skel_info :: "node_info \<Rightarrow> node_info" where
  "skel_info i = zero_info\<lparr>nname := nname i, nlabels := nlabels i, ndeleted := ndeleted i\<rparr>"

fun skel :: "node \<Rightarrow> node" where
  "skel (Node i ps cs) = Node (skel_info i) [] (map skel cs)"

lemma skel_sel [simp]:
  "info (skel n) = skel_info (info n)" "children (skel n) = map skel (children n)" "proplist (skel n) = []"
  by (cases n; simp)+

lemma skel_info_sel [simp]: "nname (skel_info i) = nname i" "nlabels (skel_info i) = nlabels i" "ndeleted (skel_info i) = ndeleted i"
  by (simp_all add: skel_info_def)

lemma skel_eqI: "skel_info (info n) = skel_info (info m) \<Longrightarrow> map skel (children n) = map skel (children m) \<Longrightarrow> skel n = skel m"
  by (cases n; cases m) simp

lemma node_at_skel: "node_at (skel t) r = map_option skel (node_at t r)"
  by (induction t r rule: node_at.induct) simp_all

lemma skel_map_at: "(\<And>n. skel (f n) = skel n) \<Longrightarrow> skel (map_at f r t) = skel t"
proof (induction f r t rule: map_at.induct)
  case (2 f i r n)
  have "map skel ((children n)[i := map_at f r (children n ! i)]) = map skel (children n)" if "i < length (children n)"
    using 2 that by (simp add: map_update list_update_same_conv)
  then show ?case by (cases n) (auto simp del: map_update)
qed simp

lemma by_label_skel: "by_label (skel t) l = by_label t l"
proof (induction t)
  case (Node i ps cs)
  then have "map (\<lambda>c. (\<not> ndeleted (info c), by_label c l)) (map skel cs) = map (\<lambda>c. (\<not> ndeleted (info c), by_label c l)) cs"
    by simp
  then show ?case by (simp del: map_map)
qed

lemma path_skel:
  "get_node_by_path (skel t) path = get_node_by_path t path"
  "path_children k (map skel cs) path = path_children k cs path"
proof (induction t path and k cs path rule: get_node_by_path_path_children.induct)
  case (1 tree path)
  then show ?case by (subst (1 2) get_node_by_path.simps) simp
next
  case (2 k path)
  then show ?case by (simp add: path_children.simps)
next
  case (3 k c cs path)
  show ?case
  proof (cases "nname (info c)")
    case None
    then show ?thesis using 3 by (simp add: path_children.simps(2))
  next
    case (Some nm)
    define fs where "fs = takeWhile (\<lambda>c. c \<noteq> chr (CHR ''/'')) path"
    have e: "path_children k (c # cs) path = (if ndeleted (info c) then path_children (Suc k) cs path
        else if length fs < length path \<and> fs = nm then do {
          r \<leftarrow> get_node_by_path c (drop (Suc (length fs)) path);
          Some (map_option (\<lambda>ref. k # ref) r) }
        else if length fs = length path \<and> path = nm then Some (Some [k])
        else path_children (Suc k) cs path)" if "nname (info c) = Some nm" for c cs
      by (simp only: path_children.simps that Option.bind.simps Let_def fs_def)
    consider "ndeleted (info c)" | "\<not> ndeleted (info c)" "length fs < length path \<and> fs = nm"
      | "\<not> ndeleted (info c)" "\<not> (length fs < length path \<and> fs = nm)" "length fs = length path \<and> path = nm"
      | "\<not> ndeleted (info c)" "\<not> (length fs < length path \<and> fs = nm)" "\<not> (length fs = length path \<and> path = nm)" by blast
    moreover have c: "nname (info (skel c)) = Some nm" "ndeleted (info (skel c)) = ndeleted (info c)" using Some by simp_all
    ultimately show ?thesis
    proof cases
      case 1
      then show ?thesis using 3(1) [OF 1] unfolding list.map e [OF c(1)] e [OF Some] c(2) by (simp only: if_True)
    next
      case 2
      then show ?thesis using 3(2) [OF 2(1) Some fs_def 2(2)] unfolding list.map e [OF c(1)] e [OF Some] c(2) if_P [OF 2(2)] by (simp only: if_False simp_thms)
    next
      case b: 3
      then show ?thesis unfolding list.map e [OF c(1)] e [OF Some] c(2) by (simp only: if_True if_False simp_thms)
    next
      case 4
      then show ?thesis using 3(3) [OF 4(1) Some fs_def 4(2,3)] unfolding list.map e [OF c(1)] e [OF Some] c(2) by (simp only: if_True if_False simp_thms)
    qed
  qed
qed

lemma get_node_by_ref_skel: "skel t = skel t' \<Longrightarrow> get_node_by_ref t l = get_node_by_ref t' l"
  using by_label_skel [of t l] by_label_skel [of t' l] path_skel(1) [of t l] path_skel(1) [of t' l]
  by (simp add: get_node_by_ref_def get_node_by_label_def)

section \<open>The nodes of a tree, one by one\<close>

definition local_view :: "node \<Rightarrow> noderef \<Rightarrow> (node_info \<times> property list) option" where
  "local_view t r = map_option (\<lambda>n. (info n, proplist n)) (node_at t r)"

lemma local_view_map_at:
  assumes "\<And>n. children (f n) = children n"
  shows "local_view (map_at f r t) x = (if x = r then map_option (\<lambda>n. (info (f n), proplist (f n))) (node_at t r) else local_view t x)"
  using assms
proof (induction f r t arbitrary: x rule: map_at.induct)
  case (1 f n)
  then show ?case by (cases x) (auto simp: local_view_def)
next
  case (2 f i r n)
  show ?case
  proof (cases x)
    case Nil
    then show ?thesis by (simp add: local_view_def)
  next
    case (Cons j s)
    show ?thesis
    proof (cases "i < length (children n) \<and> j = i")
      case True
      then show ?thesis using 2(1) [of s] 2(2) Cons by (auto simp: local_view_def)
    next
      case False
      then show ?thesis using Cons by (auto simp: local_view_def nth_list_update)
    qed
  qed
qed

fun all_nodes :: "node \<Rightarrow> node list" where
  "all_nodes (Node i ps cs) = Node i ps cs # concat (map all_nodes cs)"

lemma node_at_all: "node_at t r = Some n \<Longrightarrow> n \<in> set (all_nodes t)"
proof (induction t r rule: node_at.induct)
  case (1 n)
  then show ?case by (cases n) auto
next
  case (2 m i r)
  then show ?case by (cases m) (auto split: if_splits dest: nth_mem)
qed

lemma all_node_at: "n \<in> set (all_nodes t) \<Longrightarrow> \<exists>r. node_at t r = Some n"
proof (induction t)
  case (Node i ps cs)
  show ?case
  proof (cases "n = Node i ps cs")
    case True
    then show ?thesis by (intro exI [of _ "[]"]) simp
  next
    case False
    then obtain c where c: "c \<in> set cs" "n \<in> set (all_nodes c)" using Node.prems by auto
    then obtain r where "node_at c r = Some n" using Node.IH by blast
    moreover obtain k where "k < length cs" "cs ! k = c" using c(1) by (auto simp: in_set_conv_nth)
    ultimately show ?thesis by (intro exI [of _ "k # r"]) simp
  qed
qed

lemma all_nodes_skel: "length (all_nodes (skel t)) = length (all_nodes t)"
proof (induction t)
  case (Node i ps cs)
  then show ?case by (simp add: length_concat comp_def cong: map_cong)
qed

section \<open>Phandles in use\<close>

definition used :: "node \<Rightarrow> int set" where
  "used t = {nphandle i | r i ps. local_view t r = Some (i, ps)}"

lemma used_nodes: "used t = (\<lambda>n. nphandle (info n)) ` set (all_nodes t)"
  using node_at_all all_node_at by (force simp: used_def local_view_def)

lemma used_card: "finite (used t)" "card (used t) \<le> length (all_nodes t)"
  unfolding used_nodes using card_image_le [of "set (all_nodes t)"] card_length [of "all_nodes t"] by (auto intro: le_trans)

lemma first_child_Some: "first_child k rs = Some (ref, x) \<Longrightarrow> \<exists>j r. ref = (k + j) # r \<and> j < length rs \<and> snd (rs ! j) = Some (r, x)"
proof (induction rs arbitrary: k)
  case (Cons a rs)
  obtain live r where a: "a = (live, r)" by (cases a)
  show ?case
  proof (cases "first_child (Suc k) rs = Some (ref, x)")
    case True
    then obtain j q where "ref = (Suc k + j) # q" "j < length rs" "snd (rs ! j) = Some (q, x)" using Cons.IH by blast
    then show ?thesis by (intro exI [of _ "Suc j"] exI [of _ q]) simp
  next
    case False
    then obtain q where "r = Some (q, x)" "ref = k # q" using Cons.prems a by (auto split: option.splits if_splits)
    then show ?thesis using a by (intro exI [of _ 0] exI [of _ q]) simp
  qed
qed simp

lemma by_phandle_used: "by_phandle t ph = Some (ref, x) \<Longrightarrow> ph \<in> used t"
proof -
  have "by_phandle t ph = Some (ref, x) \<Longrightarrow> \<exists>n. node_at t ref = Some n \<and> nphandle (info n) = ph" for ref
  proof (induction t arbitrary: ref)
    case (Node i ps cs)
    show ?case
    proof (cases "nphandle i = ph")
      case True
      then show ?thesis using Node.prems by (auto split: if_splits)
    next
      case False
      then have "first_child 0 (map (\<lambda>c. (\<not> ndeleted (info c), by_phandle c ph)) cs) = Some (ref, x)" using Node.prems by simp
      then obtain j r where j: "ref = j # r" "j < length cs" "by_phandle (cs ! j) ph = Some (r, x)"
        using first_child_Some by fastforce
      then show ?thesis using Node.IH [of "cs ! j" r] by auto
    qed
  qed
  then show "by_phandle t ph = Some (ref, x) \<Longrightarrow> ph \<in> used t" by (force simp: used_def local_view_def)
qed

lemma first_child_None:
  assumes "first_child k rs = None" "j < length rs" "fst (rs ! j)"
  shows "snd (rs ! j) = None"
  using assms
proof (induction rs arbitrary: k j)
  case (Cons a rs)
  obtain live r where "a = (live, r)" by (cases a)
  then show ?case using Cons.prems Cons.IH [of "Suc k" "j - 1"] by (cases j) (auto split: option.splits if_splits)
qed simp

text \<open>A search that finds nothing says that no live node has the phandle, unless the root itself is deleted.\<close>

lemma by_phandle_None:
  "by_phandle t ph = None \<Longrightarrow> \<not> ndeleted (info t) \<Longrightarrow> live_ref t y \<Longrightarrow> node_at t y = Some n \<Longrightarrow> nphandle (info n) \<noteq> ph"
proof (induction t arbitrary: y)
  case (Node i ps cs)
  have i: "nphandle i \<noteq> ph" and none: "first_child 0 (map (\<lambda>c. (\<not> ndeleted (info c), by_phandle c ph)) cs) = None"
    using Node.prems(1,2) by (auto split: if_splits)
  show ?case
  proof (cases y)
    case Nil
    then show ?thesis using Node.prems(4) i by auto
  next
    case (Cons j s)
    then have j: "j < length cs" "\<not> ndeleted (info (cs ! j))" "live_ref (cs ! j) s" "node_at (cs ! j) s = Some n"
      using Node.prems(3,4) by (auto split: if_splits)
    have "by_phandle (cs ! j) ph = None" using first_child_None [OF none, of j] j by simp
    then show ?thesis using Node.IH [OF nth_mem [OF j(1)] _ j(2-4)] by blast
  qed
qed

text \<open>The search for a free phandle: everything from where it starts up to its result is in use.\<close>

lemma free_phandle_spec:
  assumes "1 \<le> c" "{c0..<c} \<subseteq> used t" "c0 \<le> c" "c0 + int (length (all_nodes t)) < UINT32_MAX"
  shows "\<exists>p. free_phandle opts t c = Some p \<and> c \<le> p \<and> p < UINT32_MAX \<and> {c0..<p} \<subseteq> used t \<and> by_phandle t p = None"
  using assms
proof (induction "nat (UINT32_MAX - c)" arbitrary: c rule: less_induct)
  case less
  have "card {c0..<c} \<le> card (used t)" using less.prems(2) used_card(1) by (rule card_mono [rotated])
  then have "c - c0 \<le> int (length (all_nodes t))" using used_card(2) [of t] less.prems(3) by simp
  then have lt: "c < UINT32_MAX" using less.prems(4) by linarith
  have g: "get_node_by_phandle opts t c = Some (map_option fst (by_phandle t c))"
    using less.prems(1) lt by (simp add: get_node_by_phandle_def)
  show ?case
  proof (cases "by_phandle t c")
    case None
    then show ?thesis using g less.prems lt by (subst free_phandle.simps) auto
  next
    case (Some x)
    then have "c \<in> used t" using by_phandle_used by (cases x) auto
    then have "{c0..<c + 1} \<subseteq> used t" using less.prems(2) by (metis Un_subset_iff atLeastLessThanPlusOne_atLeastAtMost_int empty_subsetI insert_subset ivl_disj_un_two_touch(2) ivl_disj_un_singleton(6) less.prems(3))
    moreover have u: "u32 (c + 1) = c + 1" using less.prems(1) lt by (intro u32_id) linarith+
    ultimately obtain p where "free_phandle opts t (c + 1) = Some p" "c + 1 \<le> p" "p < UINT32_MAX" "{c0..<p} \<subseteq> used t" "by_phandle t p = None"
      using less.hyps [of "c + 1"] less.prems(1,3,4) lt by auto
    then show ?thesis using g Some u by (subst free_phandle.simps) auto
  qed
qed

section \<open>Walking a tree whose shape stays\<close>

lemma nd_skel: "skel (root_of st) = skel (root_of st') \<Longrightarrow> nd st r = Some n \<Longrightarrow> \<exists>m. nd st' r = Some m \<and> skel m = skel n"
  using node_at_skel [of "root_of st" r] node_at_skel [of "root_of st'" r] by (auto simp: nd_def)

lemma skel_children: "skel m = skel n \<Longrightarrow> length (children m) = length (children n) \<and>
    (k < length (children n) \<longrightarrow> skel (children m ! k) = skel (children n ! k) \<and> ndeleted (info (children m ! k)) = ndeleted (info (children n ! k)))"
proof -
  assume "skel m = skel n"
  then have e: "map skel (children m) = map skel (children n)" by (metis skel_sel(2))
  then have l: "length (children m) = length (children n)" using map_eq_imp_length_eq by blast
  moreover have "skel (children m ! k) = skel (children n ! k)" if "k < length (children n)" using e l that by (metis nth_map)
  moreover have "ndeleted (info (children m ! k)) = ndeleted (info (children n ! k))" if "k < length (children n)"
    using calculation(2) [OF that] by (metis skel_info_sel(3) skel_sel(1))
  ultimately show ?thesis by blast
qed

lemma live_ref_skel: "skel m = skel n \<Longrightarrow> live_ref m r = live_ref n r"
proof (induction n r arbitrary: m rule: live_ref.induct)
  case (2 n i r)
  note s = skel_children [OF 2(2), of i]
  show ?case
  proof (cases "i < length (children n)")
    case True
    then show ?thesis using s 2(1) [of "children m ! i"] by simp
  qed (use s in simp)
qed simp

text \<open>A function called at every live node, with an invariant that collects the nodes it has been called at.\<close>

definition visits :: "(noderef set \<Rightarrow> chk_state \<Rightarrow> bool) \<Rightarrow> (noderef \<Rightarrow> chk_state \<Rightarrow> chk_state option) \<Rightarrow> bool" where
  "visits I f \<longleftrightarrow> (\<forall>S st r n. I S st \<longrightarrow> nd st r = Some n \<longrightarrow>
     (\<exists>st'. f r st = Some st' \<and> I (insert r S) st' \<and> skel (root_of st') = skel (root_of st)))"

lemma node_at_append: "node_at t (r @ s) = do { n \<leftarrow> node_at t r; node_at n s }"
  by (induction t r rule: node_at.induct) simp_all

lemma nd_child: "nd st r = Some n \<Longrightarrow> k < length (children n) \<Longrightarrow> nd st (r @ [k]) = Some (children n ! k)"
  by (simp add: nd_def node_at_append)

abbreviation weight :: "node list \<Rightarrow> nat" where
  "weight cs \<equiv> length (concat (map all_nodes cs))"

lemma weight_children: "length (all_nodes n) = Suc (weight (children n))"
  by (cases n) simp

lemma weight_skel: "skel m = skel n \<Longrightarrow> length (all_nodes m) = length (all_nodes n)"
  by (metis all_nodes_skel)

lemma check_children_visits:
  assumes f: "visits I f"
  shows "I S st \<Longrightarrow> nd st r = Some n \<Longrightarrow> k \<le> length (children n) \<Longrightarrow>
    \<exists>st' S'. check_children f r k st = Some st' \<and> I S' st' \<and> skel (root_of st') = skel (root_of st) \<and> S \<subseteq> S' \<and>
      (\<forall>j s. k \<le> j \<longrightarrow> live_ref n (j # s) \<longrightarrow> r @ j # s \<in> S')"
proof (induction "weight (drop k (children n))" arbitrary: S st r n k rule: less_induct)
  case less
  show ?case
  proof (cases "k < length (children n)")
    case False
    then show ?thesis using less.prems by (subst check_children.simps) auto
  next
    case True
    let ?c = "children n ! k"
    have d: "drop k (children n) = ?c # drop (Suc k) (children n)" using True by (rule Cons_nth_drop_Suc [symmetric])
    have m: "weight (drop (Suc k) (children n)) < weight (drop k (children n))" unfolding d using weight_children [of ?c] by simp
    show ?thesis
    proof (cases "ndeleted (info ?c)")
      case del: True
      obtain st' S' where *: "check_children f r (Suc k) st = Some st'" "I S' st'" "skel (root_of st') = skel (root_of st)" "S \<subseteq> S'"
        "\<forall>j s. Suc k \<le> j \<longrightarrow> live_ref n (j # s) \<longrightarrow> r @ j # s \<in> S'"
        using less.hyps [OF m less.prems(1,2)] True by auto
      have "r @ j # s \<in> S'" if "k \<le> j" "live_ref n (j # s)" for j s
        using *(5) that del by (cases "j = k") auto
      moreover have "check_children f r k st = Some st'" using *(1) less.prems(2) True del by (subst check_children.simps) simp
      ultimately show ?thesis using *(2-4) by blast
    next
      case live: False
      have c: "nd st (r @ [k]) = Some ?c" by (rule nd_child [OF less.prems(2) True])
      obtain s1 where 1: "f (r @ [k]) st = Some s1" "I (insert (r @ [k]) S) s1" "skel (root_of s1) = skel (root_of st)"
        using f less.prems(1) c unfolding visits_def by blast
      obtain c1 where c1: "nd s1 (r @ [k]) = Some c1" "skel c1 = skel ?c" using nd_skel [OF 1(3) [symmetric] c] by auto
      have "weight (drop 0 (children c1)) < weight (drop k (children n))"
        unfolding d using weight_children [of c1] weight_skel [OF c1(2)] by simp
      then obtain s2 S2 where 2: "check_children f (r @ [k]) 0 s1 = Some s2" "I S2 s2" "skel (root_of s2) = skel (root_of s1)"
        "insert (r @ [k]) S \<subseteq> S2" "\<forall>j s. live_ref c1 (j # s) \<longrightarrow> (r @ [k]) @ j # s \<in> S2"
        using less.hyps [OF _ 1(2) c1(1), of 0] by auto
      obtain n2 where n2: "nd s2 r = Some n2" "skel n2 = skel n" using nd_skel [OF _ less.prems(2), of s2] 1(3) 2(3) by auto
      note sk = skel_children [OF n2(2)]
      have "weight (drop (Suc k) (children n2)) = weight (drop (Suc k) (children n))"
      proof -
        have "map skel (children n2) = map skel (children n)" using n2(2) by (metis skel_sel(2))
        then have "map (\<lambda>c. length (all_nodes c)) (map skel (drop (Suc k) (children n2))) =
            map (\<lambda>c. length (all_nodes c)) (map skel (drop (Suc k) (children n)))" by (metis drop_map)
        then show ?thesis by (simp add: length_concat comp_def all_nodes_skel)
      qed
      then obtain s3 S3 where 3: "check_children f r (Suc k) s2 = Some s3" "I S3 s3" "skel (root_of s3) = skel (root_of s2)" "S2 \<subseteq> S3"
        "\<forall>j s. Suc k \<le> j \<longrightarrow> live_ref n2 (j # s) \<longrightarrow> r @ j # s \<in> S3"
        using less.hyps [OF _ 2(2) n2(1), of "Suc k"] m sk True by auto
      have "r @ j # s \<in> S3" if j: "k \<le> j" "live_ref n (j # s)" for j s
      proof (cases "j = k")
        case True
        have "live_ref c1 s" using j True live_ref_skel [OF c1(2)] by simp
        then show ?thesis using 2(4,5) 3(4) True by (cases s) auto
      next
        case False
        have "live_ref n2 (j # s)" using j(2) live_ref_skel [OF n2(2)] by blast
        then show ?thesis using 3(5) j(1) False by simp
      qed
      moreover have "check_children f r k st = Some s3"
        using 1(1) 2(1) 3(1) less.prems(2) True live by (subst check_children.simps) simp
      moreover have "S \<subseteq> S3" using 2(4) 3(4) by blast
      ultimately show ?thesis using 3(2,3) 2(3) 1(3) by auto
    qed
  qed
qed

lemma check_nodes_props_visits:
  assumes "visits I f" "I {} st"
  shows "\<exists>st' S. check_nodes_props f [] st = Some st' \<and> I S st' \<and> skel (root_of st') = skel (root_of st) \<and>
    (\<forall>r. live_ref (root_of st) r \<longrightarrow> r \<in> S)"
proof -
  have n: "nd st [] = Some (root_of st)" by (simp add: nd_def)
  obtain s1 where 1: "f [] st = Some s1" "I {[]} s1" "skel (root_of s1) = skel (root_of st)"
    using assms n unfolding visits_def by blast
  have "nd s1 [] = Some (root_of s1)" by (simp add: nd_def)
  then obtain s2 S2 where 2: "check_children f [] 0 s1 = Some s2" "I S2 s2" "skel (root_of s2) = skel (root_of s1)" "{[]} \<subseteq> S2"
    "\<forall>j s. live_ref (root_of s1) (j # s) \<longrightarrow> j # s \<in> S2"
    using check_children_visits [OF assms(1) 1(2), of "[]" "root_of s1" 0] by auto
  have "r \<in> S2" if "live_ref (root_of st) r" for r
    using that 2(4,5) live_ref_skel [OF 1(3), of r] by (cases r) (auto simp del: live_ref.simps)
  then show ?thesis using 1 2 by (auto simp: check_nodes_props_def)
qed

section \<open>Trees whose references can be resolved\<close>

abbreviation valid_ph :: "int \<Rightarrow> bool" where
  "valid_ph p \<equiv> p \<noteq> 0 \<and> p \<noteq> UINT32_MAX"

definition ref_markers :: "property \<Rightarrow> marker set" where
  "ref_markers p = (if pdeleted p then {} else {m \<in> set (dmarkers (pval p)). mtype m = REF_PHANDLE})"

definition refers :: "node \<Rightarrow> marker \<Rightarrow> noderef \<Rightarrow> bool" where
  "refers t m rn \<longleftrightarrow> (\<exists>l. mref m = Some l \<and> get_node_by_ref t l = Some (Some rn))"

text \<open>The references of a property: each has four bytes of its own and the node it refers to is in the tree.\<close>

definition refs_ok :: "node \<Rightarrow> property \<Rightarrow> bool" where
  "refs_ok t p \<longleftrightarrow> (\<not> pdeleted p \<longrightarrow> data_ok (pval p)) \<and>
     (\<forall>m \<in> ref_markers p. moffset m + 4 \<le> dlen (pval p) \<and> (\<exists>rn. refers t m rn)) \<and>
     (\<forall>m \<in> ref_markers p. \<forall>m' \<in> ref_markers p. m = m' \<or> moffset m + 4 \<le> moffset m' \<or> moffset m' + 4 \<le> moffset m)"

definition refs_tree :: "node \<Rightarrow> bool" where
  "refs_tree t \<longleftrightarrow> (\<forall>r i ps. local_view t r = Some (i, ps) \<longrightarrow> (\<forall>p \<in> set ps. refs_ok t p))"

text \<open>The marker \<open>m\<close> of property \<open>k\<close> of the node at \<open>r\<close> has its value: the phandle of the node it refers to, which
  is marked as referenced.\<close>

definition resolved :: "node \<Rightarrow> noderef \<Rightarrow> nat \<Rightarrow> marker \<Rightarrow> bool" where
  "resolved t r k m \<longleftrightarrow> (\<exists>i ps rn i' ps'. local_view t r = Some (i, ps) \<and> k < length ps \<and> m \<in> ref_markers (ps ! k) \<and>
     refers t m rn \<and> local_view t rn = Some (i', ps') \<and> valid_ph (nphandle i') \<and> nis_referenced i' \<and>
     peek (dval (pval (ps ! k))) (moffset m) 4 = Some (map Some (bytes32 (nphandle i'))))"

lemma refers_skel:
  assumes "skel t = skel t'"
  shows "refers t = refers t'"
proof -
  have "get_node_by_ref t = get_node_by_ref t'" by (rule ext) (rule get_node_by_ref_skel [OF assms])
  then show ?thesis by (simp add: refers_def fun_eq_iff)
qed

lemma local_view_skel: "skel t = skel t' \<Longrightarrow> local_view t r = Some (i, ps) \<Longrightarrow> \<exists>i' ps'. local_view t' r = Some (i', ps')"
  using node_at_skel [of t r] node_at_skel [of t' r] by (auto simp: local_view_def)

lemma refers_local: "refers t m rn \<Longrightarrow> \<exists>i ps. local_view t rn = Some (i, ps)"
  using get_node_by_ref_live live_ref_node by (fastforce simp: refers_def local_view_def)

section \<open>What a fixup may change\<close>

text \<open>Of a property that is there already, only the bytes of the cells that references stand for.\<close>

definition set_val :: "raw \<Rightarrow> property \<Rightarrow> property" where
  "set_val v p = p\<lparr>pval := (pval p)\<lparr>dval := v\<rparr>\<rparr>"

definition cell_byte :: "property \<Rightarrow> nat \<Rightarrow> bool" where
  "cell_byte p j \<longleftrightarrow> (\<exists>m \<in> ref_markers p. moffset m \<le> int j \<and> int j < moffset m + 4)"

definition same_prop :: "property \<Rightarrow> property \<Rightarrow> bool" where
  "same_prop p q \<longleftrightarrow> (\<exists>v. q = set_val v p \<and> length v = length (dval (pval p)) \<and>
     (\<forall>j < length v. \<not> cell_byte p j \<longrightarrow> v ! j = dval (pval p) ! j)) \<and> (data_ok (pval p) \<longrightarrow> data_ok (pval q))"

text \<open>The properties \<open>get_node_phandle\<close> adds: those of the chosen formats that the node does not have, each with the phandle
  as its only cell.\<close>

definition missing_names :: "dtc_opts \<Rightarrow> property list \<Rightarrow> cstring list" where
  "missing_names opts ps = filter (\<lambda>nm. \<forall>p \<in> set ps. pdeleted p \<or> pname p \<noteq> nm)
     ((if phandle_format opts AND PHANDLE_LEGACY \<noteq> 0 then [cstr ''linux,phandle''] else []) @
      (if phandle_format opts AND PHANDLE_EPAPR \<noteq> 0 then [cstr ''phandle''] else []))"

definition phandle_prop :: "int \<Rightarrow> property \<Rightarrow> bool" where
  "phandle_prop ph q \<longleftrightarrow> \<not> pdeleted q \<and> plabels q = [] \<and> data_ok (pval q) \<and> contents (pval q) = map Some (bytes32 ph) \<and>
     dmarkers (pval q) = [\<lparr>mtype = TYPE_UINT32, moffset = 0, mref = None\<rparr>]"

text \<open>Of a node, the phandle if it had no valid one, together with the properties for it, and the mark that it is referenced.\<close>

definition node_evolves :: "dtc_opts \<Rightarrow> node_info \<times> property list \<Rightarrow> node_info \<times> property list \<Rightarrow> bool" where
  "node_evolves opts = (\<lambda>(i, ps) (i', ps').
     i' = i\<lparr>nphandle := nphandle i', nis_referenced := nis_referenced i'\<rparr> \<and> (nis_referenced i \<longrightarrow> nis_referenced i') \<and>
     length ps \<le> length ps' \<and> (\<forall>k < length ps. same_prop (ps ! k) (ps' ! k)) \<and>
     (if nphandle i' = nphandle i then length ps' = length ps
      else \<not> valid_ph (nphandle i) \<and> valid_ph (nphandle i') \<and> map pname (drop (length ps) ps') = missing_names opts ps \<and>
        (\<forall>q \<in> set (drop (length ps) ps'). phandle_prop (nphandle i') q)))"

definition referred :: "node \<Rightarrow> noderef \<Rightarrow> bool" where
  "referred t y \<longleftrightarrow> (\<exists>r i ps k m. local_view t r = Some (i, ps) \<and> k < length ps \<and> m \<in> ref_markers (ps ! k) \<and> refers t m y)"

text \<open>No other live node has the phandle of the node at \<open>y\<close>.\<close>

definition sole :: "node \<Rightarrow> noderef \<Rightarrow> bool" where
  "sole t y \<longleftrightarrow> (\<forall>x i ps j qs. live_ref t x \<longrightarrow> x \<noteq> y \<longrightarrow> local_view t x = Some (i, ps) \<longrightarrow> local_view t y = Some (j, qs) \<longrightarrow>
     nphandle i \<noteq> nphandle j)"

text \<open>The names, labels, deleted flags and children stay; only nodes that a reference refers to change their phandle or their mark,
  and a phandle that is given to a node is not the one of another.\<close>

definition evolves :: "dtc_opts \<Rightarrow> node \<Rightarrow> node \<Rightarrow> bool" where
  "evolves opts t t' \<longleftrightarrow> skel t' = skel t \<and> (\<forall>y i ps. local_view t y = Some (i, ps) \<longrightarrow>
     (\<exists>i' ps'. local_view t' y = Some (i', ps') \<and> node_evolves opts (i, ps) (i', ps') \<and> (i' \<noteq> i \<longrightarrow> referred t y) \<and>
        (nphandle i' \<noteq> nphandle i \<longrightarrow> \<not> ndeleted (info t) \<longrightarrow> sole t' y)))"

subsection \<open>Properties\<close>

lemma set_val_sel [simp]: "pname (set_val v p) = pname p" "pdeleted (set_val v p) = pdeleted p" "plabels (set_val v p) = plabels p"
  "dlen (pval (set_val v p)) = dlen (pval p)" "dmarkers (pval (set_val v p)) = dmarkers (pval p)" "dval (pval (set_val v p)) = v"
  "pval (set_val v p) = (pval p)\<lparr>dval := v\<rparr>" "set_val w (set_val v p) = set_val w p" "ref_markers (set_val v p) = ref_markers p"
  by (simp_all add: set_val_def ref_markers_def)

lemma cell_byte_set_val [simp]: "cell_byte (set_val v p) = cell_byte p"
  by (simp add: cell_byte_def fun_eq_iff)

lemma set_val_same [simp]: "set_val (dval (pval p)) p = p"
  by (simp add: set_val_def)

lemma same_prop_refl [simp]: "same_prop p p"
  by (auto simp: same_prop_def intro!: exI [of _ "dval (pval p)"])

lemma same_prop_trans:
  assumes "same_prop p q" "same_prop q s"
  shows "same_prop p s"
proof -
  obtain v w where v: "q = set_val v p" "length v = length (dval (pval p))" "\<forall>j < length v. \<not> cell_byte p j \<longrightarrow> v ! j = dval (pval p) ! j"
    and w: "s = set_val w q" "length w = length (dval (pval q))" "\<forall>j < length w. \<not> cell_byte q j \<longrightarrow> w ! j = dval (pval q) ! j"
    using assms unfolding same_prop_def by blast
  have "data_ok (pval p) \<longrightarrow> data_ok (pval s)" using assms by (simp add: same_prop_def)
  then show ?thesis using v w unfolding same_prop_def by (intro conjI exI [of _ w]) auto
qed

lemma same_propD:
  assumes "same_prop p q"
  shows "pname q = pname p" "pdeleted q = pdeleted p" "plabels q = plabels p" "dlen (pval q) = dlen (pval p)"
    "dmarkers (pval q) = dmarkers (pval p)" "data_ok (pval p) \<Longrightarrow> data_ok (pval q)"
  using assms by (auto simp: same_prop_def)

lemma same_prop_markers: "same_prop p q \<Longrightarrow> ref_markers q = ref_markers p"
  by (auto simp: same_prop_def)

lemma same_prop_eq: "same_prop p q \<Longrightarrow> ref_markers p = {} \<Longrightarrow> q = p"
proof -
  assume a: "same_prop p q" "ref_markers p = {}"
  obtain v where v: "q = set_val v p" "length v = length (dval (pval p))" "\<forall>j < length v. v ! j = dval (pval p) ! j"
    using a by (auto simp: same_prop_def cell_byte_def)
  then have "v = dval (pval p)" by (simp add: list_eq_iff_nth_eq)
  then show ?thesis using v(1) by simp
qed

definition plain_prop :: "property \<Rightarrow> bool" where
  "plain_prop p \<longleftrightarrow> data_ok (pval p) \<and> ref_markers p = {}"

lemma phandle_prop_plain: "phandle_prop ph q \<Longrightarrow> plain_prop q"
  by (auto simp: phandle_prop_def plain_prop_def ref_markers_def)

definition lengthens :: "property list \<Rightarrow> property list \<Rightarrow> bool" where
  "lengthens ps qs \<longleftrightarrow> length ps \<le> length qs \<and> (\<forall>k < length ps. same_prop (ps ! k) (qs ! k)) \<and>
     (\<forall>k. length ps \<le> k \<longrightarrow> k < length qs \<longrightarrow> plain_prop (qs ! k))"

lemma missing_names_length: "length (missing_names opts ps) \<le> 2"
  unfolding missing_names_def by (rule le_trans [OF length_filter_le]) simp

lemma missing_names_same:
  assumes "length qs = length ps" "\<forall>k < length ps. same_prop (ps ! k) (qs ! k)"
  shows "missing_names opts qs = missing_names opts ps"
proof -
  have e: "pname (qs ! k) = pname (ps ! k)" "pdeleted (qs ! k) = pdeleted (ps ! k)" if "k < length ps" for k
    using assms(2) that same_propD by blast+
  have "(\<forall>p \<in> set qs. pdeleted p \<or> pname p \<noteq> nm) \<longleftrightarrow> (\<forall>p \<in> set ps. pdeleted p \<or> pname p \<noteq> nm)" for nm
    unfolding all_set_conv_all_nth assms(1) using e by auto
  then show ?thesis by (simp add: missing_names_def)
qed

subsection \<open>Nodes\<close>

lemma node_evolves_view:
  assumes "node_evolves opts (i, ps) (i', ps')"
  shows "lengthens ps ps'" "length ps' \<le> length ps + 2" "valid_ph (nphandle i) \<longrightarrow> nphandle i' = nphandle i \<and> length ps' = length ps"
    "length ps' \<noteq> length ps \<longrightarrow> valid_ph (nphandle i')" "nis_referenced i \<longrightarrow> nis_referenced i'"
proof -
  have n: "length ps \<le> length ps'" "\<forall>k < length ps. same_prop (ps ! k) (ps' ! k)"
    and c: "length ps' = length ps \<or> map pname (drop (length ps) ps') = missing_names opts ps \<and> (\<forall>q \<in> set (drop (length ps) ps'). phandle_prop (nphandle i') q)"
    using assms by (auto simp: node_evolves_def split: if_splits)
  have "plain_prop (ps' ! k)" if "length ps \<le> k" "k < length ps'" for k
  proof -
    have "ps' ! k \<in> set (drop (length ps) ps')" using that by (auto simp: in_set_conv_nth intro!: exI [of _ "k - length ps"])
    then show ?thesis using c that phandle_prop_plain by auto
  qed
  then show "lengthens ps ps'" using n by (simp add: lengthens_def)
  have "length (drop (length ps) ps') \<le> 2" using c missing_names_length [of opts ps] by (metis diff_is_0_eq' le_refl length_drop length_map zero_le)
  then show "length ps' \<le> length ps + 2" by simp
qed (use assms in \<open>auto simp: node_evolves_def split: if_splits\<close>)

lemma node_evolves_refl [simp]: "node_evolves opts x x"
  by (cases x) (simp add: node_evolves_def)

lemma node_evolves_trans:
  assumes 1: "node_evolves opts (i, ps) (j, qs)" and 2: "node_evolves opts (j, qs) (l, ss)"
  shows "node_evolves opts (i, ps) (l, ss)"
proof -
  have q: "\<forall>k < length ps. same_prop (ps ! k) (qs ! k)" "\<forall>k < length qs. same_prop (qs ! k) (ss ! k)" "length ps \<le> length qs" "length qs \<le> length ss"
    and r: "nis_referenced i \<longrightarrow> nis_referenced j" "nis_referenced j \<longrightarrow> nis_referenced l"
    using 1 2 unfolding node_evolves_def by blast+
  have n: "length ps \<le> length ss" "\<forall>k < length ps. same_prop (ps ! k) (ss ! k)" using q same_prop_trans by (simp, meson less_le_trans)
  obtain a b c d where e: "j = i\<lparr>nphandle := a, nis_referenced := b\<rparr>" "l = j\<lparr>nphandle := c, nis_referenced := d\<rparr>"
    using 1 2 unfolding node_evolves_def by blast
  have i: "l = i\<lparr>nphandle := nphandle l, nis_referenced := nis_referenced l\<rparr>" "nis_referenced i \<longrightarrow> nis_referenced l"
    using r by (simp_all add: e)
  show ?thesis
  proof (cases "nphandle j = nphandle i")
    case True
    then have "length qs = length ps" using 1 by (simp add: node_evolves_def)
    then show ?thesis using 2 True i n missing_names_same [OF _ q(1), of opts] by (auto simp: node_evolves_def)
  next
    case False
    then have c: "\<not> valid_ph (nphandle i)" "valid_ph (nphandle j)" "map pname (drop (length ps) qs) = missing_names opts ps"
      "\<forall>x \<in> set (drop (length ps) qs). phandle_prop (nphandle j) x" using 1 by (auto simp: node_evolves_def)
    then have l: "nphandle l = nphandle j" "length ss = length qs" using node_evolves_view(3) [OF 2] by auto
    have "ss ! k = qs ! k" if "length ps \<le> k" "k < length qs" for k
      using same_prop_eq q(2) node_evolves_view(1) [OF 1] that by (auto simp: lengthens_def plain_prop_def)
    then have "drop (length ps) ss = drop (length ps) qs" using l(2) by (auto intro!: nth_equalityI)
    then show ?thesis using c l(1) False i n by (simp add: node_evolves_def)
  qed
qed

subsection \<open>Trees\<close>

lemma evolves_view:
  assumes "evolves opts t t'" "local_view t r = Some (i, ps)"
  obtains i' ps' where "local_view t' r = Some (i', ps')" "lengthens ps ps'" "length ps' \<le> length ps + 2"
    "valid_ph (nphandle i) \<longrightarrow> nphandle i' = nphandle i \<and> length ps' = length ps"
    "length ps' \<noteq> length ps \<longrightarrow> valid_ph (nphandle i')" "nis_referenced i \<longrightarrow> nis_referenced i'"
proof -
  obtain i' ps' where v: "local_view t' r = Some (i', ps')" "node_evolves opts (i, ps) (i', ps')"
    using assms unfolding evolves_def by blast
  show ?thesis by (rule that [OF v(1) node_evolves_view [OF v(2)]])
qed

lemma refers_live: "refers t m y \<Longrightarrow> live_ref t y"
  using get_node_by_ref_live by (auto simp: refers_def)

lemma referred_back:
  assumes "evolves opts t u" "referred u y"
  shows "referred t y"
proof -
  obtain r i ps k m where 1: "local_view u r = Some (i, ps)" "k < length ps" "m \<in> ref_markers (ps ! k)" "refers u m y"
    using assms(2) unfolding referred_def by blast
  have sk: "skel u = skel t" using assms(1) by (simp add: evolves_def)
  obtain i0 ps0 where 0: "local_view t r = Some (i0, ps0)" using local_view_skel [OF sk 1(1)] by blast
  have l: "lengthens ps0 ps" using evolves_view [OF assms(1) 0] 1(1) by (metis option.inject prod.inject)
  then have k: "k < length ps0" using 1(2,3) by (auto simp: lengthens_def plain_prop_def not_less [symmetric])
  then have "m \<in> ref_markers (ps0 ! k)" using l 1(3) same_prop_markers by (auto simp: lengthens_def)
  then show ?thesis using 0 k 1(4) refers_skel [OF sk] unfolding referred_def by metis
qed

lemma evolves_refl [simp]: "evolves opts t t"
  by (auto simp: evolves_def)

lemma sole_later:
  assumes "evolves opts u v" "\<not> ndeleted (info u)" "sole u y" "live_ref u y" "local_view u y = Some (j, qs)" "valid_ph (nphandle j)"
  shows "sole v y"
  unfolding sole_def
proof (intro allI impI)
  fix x i ps j' qs' assume x: "live_ref v x" "x \<noteq> y" "local_view v x = Some (i, ps)" "local_view v y = Some (j', qs')"
  have sk: "skel v = skel u" using assms(1) by (simp add: evolves_def)
  obtain i0 ps0 where 0: "local_view u x = Some (i0, ps0)" using local_view_skel [OF sk x(3)] by blast
  have y: "nphandle j' = nphandle j" using evolves_view [OF assms(1,5)] x(4) assms(6) by (metis option.inject prod.inject)
  show "nphandle i \<noteq> nphandle j'"
  proof (cases "nphandle i = nphandle i0")
    case True
    then show ?thesis using assms(3,5) x(1,2) 0 y live_ref_skel [OF sk] unfolding sole_def by metis
  next
    case False
    then have "sole v x" using assms(1,2) 0 x(3) unfolding evolves_def by fastforce
    moreover have "live_ref v y" using assms(4) live_ref_skel [OF sk] by blast
    ultimately show ?thesis using x(2-4) unfolding sole_def by metis
  qed
qed

lemma skel_deleted: "skel t = skel u \<Longrightarrow> ndeleted (info t) = ndeleted (info u)"
  by (metis skel_info_sel(3) skel_sel(1))

lemma evolves_trans:
  assumes "evolves opts t u" "evolves opts u v"
  shows "evolves opts t v"
  unfolding evolves_def
proof (intro conjI allI impI)
  have sk: "skel u = skel t" "skel v = skel u" using assms by (simp_all add: evolves_def)
  then show "skel v = skel t" by simp
  fix y i ps assume l: "local_view t y = Some (i, ps)"
  obtain j qs where 1: "local_view u y = Some (j, qs)" "node_evolves opts (i, ps) (j, qs)" "j \<noteq> i \<longrightarrow> referred t y"
    "nphandle j \<noteq> nphandle i \<longrightarrow> \<not> ndeleted (info t) \<longrightarrow> sole u y"
    using assms(1) l unfolding evolves_def by blast
  obtain k ss where 2: "local_view v y = Some (k, ss)" "node_evolves opts (j, qs) (k, ss)" "k \<noteq> j \<longrightarrow> referred u y"
    "nphandle k \<noteq> nphandle j \<longrightarrow> \<not> ndeleted (info u) \<longrightarrow> sole v y"
    using assms(2) 1(1) unfolding evolves_def by blast
  have r: "k \<noteq> i \<longrightarrow> referred t y" using 1(3) 2(3) referred_back [OF assms(1)] by blast
  have "sole v y" if c: "nphandle k \<noteq> nphandle i" "\<not> ndeleted (info t)"
  proof (cases "nphandle k = nphandle j")
    case False
    then show ?thesis using 2(4) c skel_deleted [OF sk(1)] by blast
  next
    case True
    then have "sole u y" "valid_ph (nphandle j)" using 1(2,4) c by (auto simp: node_evolves_def split: if_splits)
    moreover have "live_ref u y" using 1(3) True c refers_live live_ref_skel [OF sk(1)] unfolding referred_def by metis
    ultimately show ?thesis using sole_later [OF assms(2) _ _ _ 1(1)] c(2) skel_deleted [OF sk(1)] by blast
  qed
  then show "\<exists>i' ps'. local_view v y = Some (i', ps') \<and> node_evolves opts (i, ps) (i', ps') \<and> (i' \<noteq> i \<longrightarrow> referred t y) \<and>
      (nphandle i' \<noteq> nphandle i \<longrightarrow> \<not> ndeleted (info t) \<longrightarrow> sole v y)"
    using 2(1) node_evolves_trans [OF 1(2) 2(2)] r by blast
qed

lemma refs_ok_same:
  assumes "refs_ok t p" "same_prop p q" "skel t = skel t'"
  shows "refs_ok t' q"
  using assms(1,2) unfolding refs_ok_def same_prop_markers [OF assms(2)] refers_skel [OF assms(3)]
  using same_propD [OF assms(2)] by auto

lemma refs_ok_plain: "plain_prop p \<Longrightarrow> refs_ok t p"
  by (simp add: plain_prop_def refs_ok_def)

lemma evolves_refs:
  assumes "refs_tree t" "evolves opts t t'"
  shows "refs_tree t'"
  unfolding refs_tree_def
proof (intro allI impI ballI)
  fix r i' ps' q assume l: "local_view t' r = Some (i', ps')" "q \<in> set ps'"
  have sk: "skel t' = skel t" using assms(2) by (simp add: evolves_def)
  obtain i ps where t: "local_view t r = Some (i, ps)" using local_view_skel [OF sk l(1)] by blast
  have e: "lengthens ps ps'" using evolves_view [OF assms(2) t] l(1) by (metis option.inject prod.inject)
  obtain k where k: "k < length ps'" "q = ps' ! k" using l(2) by (auto simp: in_set_conv_nth)
  show "refs_ok t' q"
  proof (cases "k < length ps")
    case True
    then have "refs_ok t (ps ! k)" using assms(1) t unfolding refs_tree_def by (meson nth_mem)
    then show ?thesis using refs_ok_same [OF _ _ sk [symmetric]] e True k(2) by (auto simp: lengthens_def)
  next
    case False
    then show ?thesis using refs_ok_plain e k by (auto simp: lengthens_def)
  qed
qed

section \<open>Giving a node its phandle\<close>

text \<open>The static counter: all values from \<open>c0\<close>, where it started, up to it are in use, and there are enough values.\<close>

definition counter_ok :: "int \<Rightarrow> int \<Rightarrow> node \<Rightarrow> bool" where
  "counter_ok c0 c t \<longleftrightarrow> 1 \<le> c0 \<and> c0 \<le> c \<and> {c0..<c} \<subseteq> used t \<and> c0 + int (length (all_nodes t)) < UINT32_MAX"

lemma phandle_data:
  obtains d where "data_append_cell (data_add_marker empty_data TYPE_UINT32 None) ph = Some d" "\<And>nm. phandle_prop ph (build_property nm d)"
proof -
  let ?e = "data_add_marker empty_data TYPE_UINT32 None"
  have e: "data_ok ?e" "dmarkers ?e = [\<lparr>mtype = TYPE_UINT32, moffset = 0, mref = None\<rparr>]" "dlen ?e = 0" "contents ?e = []"
    by (simp_all add: data_ok_def data_add_marker_def data_append_markers_def empty_data_def contents_def)
  obtain d where "data_append_data ?e (map Some (bytes32 ph)) 4 = Some d" "appended ?e (map Some (bytes32 ph)) d"
    using append_data_spec [OF e(1), of "map Some (bytes32 ph)"] e(3) by auto
  then show ?thesis using that [of d] e(2,4) by (simp add: data_append_cell_def data_append_integer_def appended_def phandle_prop_def build_property_def)
qed

lemma used_update:
  assumes "local_view t r = Some (i, ps)" "\<not> valid_ph (nphandle i)" "\<And>x. x \<noteq> r \<Longrightarrow> local_view t' x = local_view t x"
    "local_view t' r = Some (i', ps')" "v \<in> used t" "valid_ph v"
  shows "v \<in> used t'"
proof -
  obtain x j qs where x: "local_view t x = Some (j, qs)" "v = nphandle j" using assms(5) by (auto simp: used_def)
  then have "x \<noteq> r" using assms(1,2,6) by auto
  then have "local_view t' x = Some (j, qs)" using assms(3) x(1) by simp
  then show ?thesis using x(2) by (auto simp: used_def)
qed

definition phandle_props :: "dtc_opts \<Rightarrow> node \<Rightarrow> data \<Rightarrow> property list" where
  "phandle_props opts n d =
     (let ps = (if get_property n (cstr ''linux,phandle'') = None \<and> phandle_format opts AND PHANDLE_LEGACY \<noteq> 0
                then [build_property (cstr ''linux,phandle'') d] else []) in
      ps @ (if get_property (set_props (proplist n @ ps) n) (cstr ''phandle'') = None \<and> phandle_format opts AND PHANDLE_EPAPR \<noteq> 0
            then [build_property (cstr ''phandle'') d] else []))"

lemma find_prop_None: "find_prop ps nm = None \<longleftrightarrow> (\<forall>p \<in> set ps. pdeleted p \<or> pname p \<noteq> nm)"
  by (induction ps) auto

lemma phandle_props_names: "map pname (phandle_props opts n d) = missing_names opts (proplist n)"
proof -
  have "cstr ''linux,phandle'' \<noteq> cstr ''phandle''" by (simp add: cstr_def)
  then show ?thesis
    by (auto simp: phandle_props_def missing_names_def Let_def get_property_def find_prop_None build_property_def)
qed

lemma phandle_props_cells: "(\<And>nm. phandle_prop ph (build_property nm d)) \<Longrightarrow> \<forall>q \<in> set (phandle_props opts n d). phandle_prop ph q"
  by (auto simp: phandle_props_def Let_def)

lemma get_node_phandle_new:
  assumes "node_at t r = Some n" "\<not> valid_ph (nphandle (info n))" "free_phandle opts t c = Some ph"
    "data_append_cell (data_add_marker empty_data TYPE_UINT32 None) ph = Some d"
  shows "get_node_phandle opts t r c = Some (ph, map_at (\<lambda>_. set_props (proplist n @ phandle_props opts n d)
      (set_info (\<lambda>i. i\<lparr>nphandle := ph\<rparr>) n)) r t, ph)"
  using assms by (auto simp: get_node_phandle_def phandle_props_def add_property_def node_updates get_property_def Let_def)

lemma map_at_const: "node_at t r = Some n \<Longrightarrow> map_at (\<lambda>_. f n) r t = map_at f r t"
  by (induction t r rule: node_at.induct) (auto split: if_splits)

lemma get_node_phandle_spec:
  assumes t: "local_view t r = Some (i, ps)" and c: "counter_ok c0 c t"
  shows "\<exists>ph t' c' new. get_node_phandle opts t r c = Some (ph, t', c') \<and> valid_ph ph \<and> skel t' = skel t \<and>
    (\<forall>x. x \<noteq> r \<longrightarrow> local_view t' x = local_view t x) \<and> local_view t' r = Some (i\<lparr>nphandle := ph\<rparr>, ps @ new) \<and>
    (if valid_ph (nphandle i) then ph = nphandle i \<and> new = []
     else by_phandle t ph = None \<and> map pname new = missing_names opts ps \<and> (\<forall>q \<in> set new. phandle_prop ph q)) \<and> counter_ok c0 c' t'"
proof -
  obtain n where n: "node_at t r = Some n" "info n = i" "proplist n = ps" using t by (auto simp: local_view_def)
  show ?thesis
  proof (cases "valid_ph (nphandle i)")
    case True
    then have "get_node_phandle opts t r c = Some (nphandle i, t, c)" using n by (simp add: get_node_phandle_def)
    then show ?thesis using True t c by (intro exI [of _ "nphandle i"] exI [of _ t] exI [of _ c] exI [of _ "[]"]) simp
  next
    case False
    obtain ph where ph: "free_phandle opts t c = Some ph" "c \<le> ph" "ph < UINT32_MAX" "{c0..<ph} \<subseteq> used t" "by_phandle t ph = None"
      using free_phandle_spec [of c c0 t opts] c by (auto simp: counter_ok_def)
    obtain d where d: "data_append_cell (data_add_marker empty_data TYPE_UINT32 None) ph = Some d" "\<And>nm. phandle_prop ph (build_property nm d)"
      by (rule phandle_data) blast
    let ?new = "phandle_props opts n d"
    let ?f = "\<lambda>n. set_props (proplist n @ phandle_props opts n d) (set_info (\<lambda>i. i\<lparr>nphandle := ph\<rparr>) n)"
    let ?t = "map_at ?f r t"
    have g: "get_node_phandle opts t r c = Some (ph, ?t, ph)"
      using get_node_phandle_new [OF n(1) _ ph(1) d(1)] False n(2) map_at_const [OF n(1), of ?f] by simp
    have l: "local_view ?t x = (if x = r then Some (i\<lparr>nphandle := ph\<rparr>, ps @ ?new) else local_view t x)" for x
      using local_view_map_at [of ?f r t x] n by simp
    have sk: "skel ?t = skel t" by (rule skel_map_at) (auto intro!: skel_eqI simp: skel_info_def)
    have v: "valid_ph ph" using ph(2,3) c by (auto simp: counter_ok_def)
    have "{c0..<ph} \<subseteq> used ?t"
    proof
      fix x assume x: "x \<in> {c0..<ph}"
      then have "x \<in> used t" "valid_ph x" using ph(3,4) c by (auto simp: counter_ok_def)
      then show "x \<in> used ?t" using used_update [OF t False, of ?t] l by (simp split: if_splits)
    qed
    then have "counter_ok c0 ph ?t"
      using c ph(2) weight_skel [OF sk] by (auto simp: counter_ok_def)
    moreover have "map pname ?new = missing_names opts ps" "\<forall>q \<in> set ?new. phandle_prop ph q"
      using phandle_props_names [of opts n d] n(3) phandle_props_cells [OF d(2)] by auto
    ultimately show ?thesis using g v sk l False ph(5)
      by (intro exI [of _ ph] exI [of _ ?t] exI [of _ ?new]) auto
  qed
qed

section \<open>One reference\<close>

lemma local_view_upd:
  "(\<And>n. children (f n) = children n) \<Longrightarrow>
   local_view (root_of (upd r f st)) x = (if x = r then map_option (\<lambda>n. (info (f n), proplist (f n))) (node_at (root_of st) r) else local_view (root_of st) x)"
  by (simp add: upd_def set_root_def local_view_map_at)

lemma upd_sel [simp]:
  "root_of (upd r f st) = map_at f r (root_of st)" "ccounter (upd r f st) = ccounter st" "cfails (upd r f st) = cfails st"
  by (simp_all add: upd_def set_root_def)

lemma local_view_node: "local_view t r = Some (i, ps) \<Longrightarrow> \<exists>n. node_at t r = Some n \<and> info n = i \<and> proplist n = ps"
  by (auto simp: local_view_def)

lemma store_cell_spec:
  assumes "local_view (root_of st) r = Some (i, ps)" "k < length ps" "poke (dval (pval (ps ! k))) off (map Some (bytes32 x)) = Some v"
  shows "\<exists>st'. store_cell r k off x st = Some st' \<and> skel (root_of st') = skel (root_of st) \<and> ccounter st' = ccounter st \<and> cfails st' = cfails st \<and>
    (\<forall>y. local_view (root_of st') y = (if y = r then Some (i, ps[k := set_val v (ps ! k)]) else local_view (root_of st) y))"
proof -
  obtain n where n: "node_at (root_of st) r = Some n" "info n = i" "proplist n = ps" using local_view_node [OF assms(1)] by blast
  let ?f = "\<lambda>n. set_props ((proplist n)[k := set_val v (ps ! k)]) n"
  have "store_cell r k off x st = Some (upd r ?f st)"
    using assms(2,3) n by (simp add: store_cell_def nd_def at_def set_val_def)
  moreover have "local_view (root_of (upd r ?f st)) y = (if y = r then Some (i, ps[k := set_val v (ps ! k)]) else local_view (root_of st) y)" for y
    using local_view_upd [of ?f r st y] n by simp
  moreover have "skel (root_of (upd r ?f st)) = skel (root_of st)"
    unfolding upd_sel by (rule skel_map_at) (rule skel_eqI; simp)
  ultimately show ?thesis by auto
qed

lemma poke_cell:
  assumes "data_ok d" "0 \<le> off" "off + 4 \<le> dlen d"
  obtains v where "poke (dval d) off (map Some (bytes32 x)) = Some v" "data_ok (d\<lparr>dval := v\<rparr>)"
    "length v = length (dval d)" "\<And>j. j < length v \<Longrightarrow> \<not> (off \<le> int j \<and> int j < off + 4) \<Longrightarrow> v ! j = dval d ! j"
    "peek v off 4 = Some (map Some (bytes32 x))"
    "\<And>o'. 0 \<le> o' \<Longrightarrow> o' + 4 \<le> dlen d \<Longrightarrow> off + 4 \<le> o' \<or> o' + 4 \<le> off \<Longrightarrow> peek v o' 4 = peek (dval d) o' 4"
proof -
  note d = data_okD [OF assms(1)]
  let ?b = "map Some (bytes32 x)"
  define v where "v = take (nat off) (dval d) @ ?b @ drop (nat off + 4) (dval d)"
  have p: "poke (dval d) off ?b = Some v" using d(2) assms by (simp add: poke_def v_def)
  have l: "length v = length (dval d)" using d(2) assms by (simp add: v_def)
  have nth: "v ! j = (if nat off \<le> j \<and> j < nat off + 4 then ?b ! (j - nat off) else dval d ! j)" if "j < length (dval d)" for j
    using that d(2) assms by (auto simp: nth_append min_def v_def)
  have pk: "peek w o' 4 = Some (map (\<lambda>j. w ! (nat o' + j)) [0..<4])" if "0 \<le> o'" "o' + 4 \<le> int (length w)" for w :: raw and o'
    using that by (auto simp: peek_def intro!: nth_equalityI)
  have "None \<notin> set (contents (d\<lparr>dval := v\<rparr>))"
  proof
    assume "None \<in> set (contents (d\<lparr>dval := v\<rparr>))"
    then obtain j where j: "j < nat (dlen d)" "v ! j = None" using l d(2) by (auto simp: contents_def in_set_conv_nth)
    then have "j < length (dval d)" using d(2) by linarith
    then have "dval d ! j = None" using nth [of j] j(2) by (auto split: if_splits simp: nth_map)
    then have "None \<in> set (contents d)" using j(1) d(2) by (auto simp: contents_def in_set_conv_nth intro!: exI [of _ j])
    then show False using d(3) by blast
  qed
  then have ok: "data_ok (d\<lparr>dval := v\<rparr>)" using assms(1) l by (simp add: data_ok_def)
  have 1: "peek v off 4 = Some ?b"
    using pk [of off v] nth d(2) assms l by (auto intro!: nth_equalityI)
  have 2: "peek v o' 4 = peek (dval d) o' 4" if "0 \<le> o'" "o' + 4 \<le> dlen d" "off + 4 \<le> o' \<or> o' + 4 \<le> off" for o'
    using pk [of o' v] pk [of o' "dval d"] nth that d(2) assms l by (auto intro!: nth_equalityI)
  have 3: "v ! j = dval d ! j" if "j < length v" "\<not> (off \<le> int j \<and> int j < off + 4)" for j
    using nth [of j] that l assms(2) by auto
  show ?thesis by (rule that [OF p ok l 3 1 2])
qed

text \<open>The invariant of the fixup: references can be resolved, the counter is ahead of the values it gave, and the references in
  \<open>D\<close> have been resolved.\<close>

definition ref_inv :: "int \<Rightarrow> (noderef \<times> nat \<times> marker) set \<Rightarrow> chk_state \<Rightarrow> bool" where
  "ref_inv c0 D st \<longleftrightarrow> refs_tree (root_of st) \<and> counter_ok c0 (ccounter st) (root_of st) \<and>
     (\<forall>(r, k, m) \<in> D. resolved (root_of st) r k m)"

lemma resolved_keep:
  assumes "resolved t r k m" "evolves opts t t'"
    "\<And>i ps i' ps'. local_view t r = Some (i, ps) \<Longrightarrow> local_view t' r = Some (i', ps') \<Longrightarrow> k < length ps \<Longrightarrow> m \<in> ref_markers (ps ! k) \<Longrightarrow>
       peek (dval (pval (ps' ! k))) (moffset m) 4 = peek (dval (pval (ps ! k))) (moffset m) 4"
  shows "resolved t' r k m"
proof -
  obtain i ps rn j qs where 1: "local_view t r = Some (i, ps)" "k < length ps" "m \<in> ref_markers (ps ! k)" "refers t m rn"
    "local_view t rn = Some (j, qs)" "valid_ph (nphandle j)" "nis_referenced j" "peek (dval (pval (ps ! k))) (moffset m) 4 = Some (map Some (bytes32 (nphandle j)))"
    using assms(1) unfolding resolved_def by blast
  have sk: "skel t = skel t'" using assms(2) by (simp add: evolves_def)
  obtain i' ps' where 2: "local_view t' r = Some (i', ps')" "lengthens ps ps'" by (rule evolves_view [OF assms(2) 1(1)])
  obtain j' qs' where 3: "local_view t' rn = Some (j', qs')" "nphandle j' = nphandle j" "nis_referenced j'"
    by (rule evolves_view [OF assms(2) 1(5)]) (use 1(6,7) in blast)
  have "k < length ps'" "m \<in> ref_markers (ps' ! k)"
    using 2(2) 1(2,3) same_prop_markers [of "ps ! k" "ps' ! k"] by (auto simp: lengthens_def)
  moreover have "refers t' m rn" using 1(4) refers_skel [OF sk] by simp
  moreover have "peek (dval (pval (ps' ! k))) (moffset m) 4 = Some (map Some (bytes32 (nphandle j')))"
    using assms(3) [OF 1(1) 2(1) 1(2,3)] 1(8) 3(2) by simp
  ultimately show ?thesis using 2(1) 3 1(6) unfolding resolved_def by (metis)
qed

lemma used_view: "used s = {v. \<exists>y. map_option (\<lambda>(i, ps). nphandle i) (local_view s y) = Some v}"
  by (auto simp: used_def)

lemma used_same: "(\<And>y. map_option (\<lambda>(i, ps). nphandle i) (local_view t' y) = map_option (\<lambda>(i, ps). nphandle i) (local_view t y)) \<Longrightarrow> used t' = used t"
  unfolding used_view by (simp only:)

lemma ref_marker_facts:
  assumes "refs_tree t" "local_view t r = Some (i, ps)" "k < length ps" "m \<in> ref_markers (ps ! k)"
  shows "data_ok (pval (ps ! k))" "0 \<le> moffset m" "moffset m + 4 \<le> dlen (pval (ps ! k))" "\<exists>rn. refers t m rn"
    "m' \<in> ref_markers (ps ! k) \<Longrightarrow> m = m' \<or> moffset m + 4 \<le> moffset m' \<or> moffset m' + 4 \<le> moffset m"
proof -
  have ok: "refs_ok t (ps ! k)" using assms(1-3) unfolding refs_tree_def by (meson nth_mem)
  have live: "\<not> pdeleted (ps ! k)" "m \<in> set (dmarkers (pval (ps ! k)))" using assms(4) by (auto simp: ref_markers_def split: if_splits)
  show d: "data_ok (pval (ps ! k))" using ok live by (simp add: refs_ok_def)
  show "0 \<le> moffset m" using data_okD(4) [OF d live(2)] by simp
  show "moffset m + 4 \<le> dlen (pval (ps ! k))" "\<exists>rn. refers t m rn" using ok assms(4) by (auto simp: refs_ok_def)
  show "m' \<in> ref_markers (ps ! k) \<Longrightarrow> m = m' \<or> moffset m + 4 \<le> moffset m' \<or> moffset m' + 4 \<le> moffset m"
    using ok assms(4) unfolding refs_ok_def by blast
qed

lemma fixup_marker_view:
  assumes cnt: "counter_ok c0 (ccounter st) (root_of st)" and v: "local_view (root_of st) r = Some (i, ps)" "k < length ps" "m \<in> ref_markers (ps ! k)"
    and mf: "data_ok (pval (ps ! k))" "0 \<le> moffset m" "moffset m + 4 \<le> dlen (pval (ps ! k))"
    and rn: "refers (root_of st) m rn" and a: "local_view (root_of st) rn = Some (a, as)"
  obtains st' ph w new where "fixup_phandle_marker opts r k m st = Some st'" "cfails st' = cfails st" "skel (root_of st') = skel (root_of st)"
    "counter_ok c0 (ccounter st') (root_of st')" "valid_ph ph"
    "if valid_ph (nphandle a) then ph = nphandle a \<and> new = []
     else by_phandle (root_of st) ph = None \<and> map pname new = missing_names (copts opts) as \<and> (\<forall>q \<in> set new. phandle_prop ph q)"
    "poke (dval (pval (ps ! k))) (moffset m) (map Some (bytes32 ph)) = Some w"
    "\<And>y i0 ps0. local_view (root_of st) y = Some (i0, ps0) \<Longrightarrow> local_view (root_of st') y =
       Some (if y = rn then i0\<lparr>nphandle := ph, nis_referenced := True\<rparr> else i0,
         (if y = r then ps0[k := set_val w (ps ! k)] else ps0) @ (if y = rn then new else []))"
proof -
  obtain ph t1 c1 new where g: "get_node_phandle (copts opts) (root_of st) rn (ccounter st) = Some (ph, t1, c1)" "valid_ph ph"
    "skel t1 = skel (root_of st)" "\<And>x. x \<noteq> rn \<Longrightarrow> local_view t1 x = local_view (root_of st) x"
    "local_view t1 rn = Some (a\<lparr>nphandle := ph\<rparr>, as @ new)" "if valid_ph (nphandle a) then ph = nphandle a \<and> new = []
     else by_phandle (root_of st) ph = None \<and> map pname new = missing_names (copts opts) as \<and> (\<forall>q \<in> set new. phandle_prop ph q)"
    "counter_ok c0 c1 t1"
    using get_node_phandle_spec [OF a cnt, of "copts opts"] by blast
  let ?st1 = "(set_root t1 st)\<lparr>ccounter := c1\<rparr>"
  have r1: "root_of ?st1 = t1" "ccounter ?st1 = c1" "cfails ?st1 = cfails st" by (simp_all add: set_root_def)
  obtain j qs where q: "local_view t1 r = Some (j, qs)" "k < length qs" "qs ! k = ps ! k"
    using g(4) [of r] g(5) a v by (cases "r = rn") (auto simp: nth_append)
  obtain w where w: "poke (dval (pval (ps ! k))) (moffset m) (map Some (bytes32 ph)) = Some w"
    using poke_cell [OF mf, of ph] by blast
  let ?p = "set_val w (ps ! k)"
  obtain st2 where s2: "store_cell r k (moffset m) ph ?st1 = Some st2" "skel (root_of st2) = skel t1" "ccounter st2 = c1" "cfails st2 = cfails st"
    "\<And>y. local_view (root_of st2) y = (if y = r then Some (j, qs[k := ?p]) else local_view t1 y)"
    using store_cell_spec [of ?st1 r j qs k "moffset m" ph w] q w r1 by auto
  let ?st3 = "upd rn reference_node st2"
  have l3: "local_view (root_of ?st3) y = map_option (\<lambda>(i, ps). (if y = rn then i\<lparr>nis_referenced := True\<rparr> else i, ps)) (local_view (root_of st2) y)" for y
    using local_view_upd [of reference_node rn st2 y] by (auto simp: reference_node_def local_view_def option.map_comp comp_def option.map_ident)
  have f: "fixup_phandle_marker opts r k m st = Some ?st3"
  proof -
    obtain n where "nd st r = Some n" "proplist n = ps" using local_view_node [OF v(1)] by (auto simp: nd_def)
    moreover obtain l where "mref m = Some l" "get_node_by_ref (root_of st) l = Some (Some rn)" using rn by (auto simp: refers_def)
    moreover have "mtype m = REF_PHANDLE" using v(3) by (auto simp: ref_markers_def split: if_splits)
    ultimately show ?thesis using v(2) mf(3) g(1) s2(1) by (simp add: fixup_phandle_marker_def at_def)
  qed
  have "skel (root_of ?st3) = skel (root_of st2)" unfolding upd_sel
    by (rule skel_map_at) (rule skel_eqI; simp add: reference_node_def skel_info_def)
  then have sk3: "skel (root_of ?st3) = skel (root_of st)" using s2(2) g(3) by simp
  have "used (root_of ?st3) = used t1"
  proof (rule used_same)
    fix y show "map_option (\<lambda>(i, ps). nphandle i) (local_view (root_of ?st3) y) = map_option (\<lambda>(i, ps). nphandle i) (local_view t1 y)"
      using l3 [of y] s2(5) [of y] q(1) by (cases "y = r"; cases "y = rn"; cases "local_view t1 y") auto
  qed
  then have c: "counter_ok c0 (ccounter ?st3) (root_of ?st3)"
    using g(7) s2(3) weight_skel [OF sk3] weight_skel [OF g(3)] by (simp add: counter_ok_def)
  have vw: "local_view (root_of ?st3) y = Some (if y = rn then i0\<lparr>nphandle := ph, nis_referenced := True\<rparr> else i0,
      (if y = r then ps0[k := ?p] else ps0) @ (if y = rn then new else []))" if y: "local_view (root_of st) y = Some (i0, ps0)" for y i0 ps0
  proof -
    have 1: "local_view t1 y = Some (if y = rn then i0\<lparr>nphandle := ph\<rparr> else i0, ps0 @ (if y = rn then new else []))"
      using g(4) [of y] g(5) a y by auto
    have "y = r \<Longrightarrow> k < length ps0" using y v by auto
    then have 2: "local_view (root_of st2) y = Some (if y = rn then i0\<lparr>nphandle := ph\<rparr> else i0,
        (if y = r then ps0[k := ?p] else ps0) @ (if y = rn then new else []))"
      using s2(5) [of y] q(1) 1 by (auto simp: list_update_append)
    show ?thesis using l3 [of y] unfolding 2 by simp
  qed
  have "cfails ?st3 = cfails st" using s2(4) by simp
  then show ?thesis by (rule that [OF f _ sk3 c g(2,6) w vw])
qed

lemma marker_evolves:
  assumes sk: "skel t' = skel t" and r: "local_view t r = Some (i, ps)" "k < length ps" and a: "local_view t rn = Some (a, as)"
    and same: "same_prop (ps ! k) p" and ph: "valid_ph ph" and ref: "referred t rn"
    and new: "if valid_ph (nphandle a) then ph = nphandle a \<and> new = []
     else by_phandle t ph = None \<and> map pname new = missing_names opts as \<and> (\<forall>q \<in> set new. phandle_prop ph q)"
    and view: "\<And>y i0 ps0. local_view t y = Some (i0, ps0) \<Longrightarrow> local_view t' y =
       Some (if y = rn then i0\<lparr>nphandle := ph, nis_referenced := True\<rparr> else i0,
         (if y = r then ps0[k := p] else ps0) @ (if y = rn then new else []))"
  shows "evolves opts t t'"
  unfolding evolves_def
proof (intro conjI allI impI)
  show "skel t' = skel t" by (rule sk)
  fix y i0 ps0 assume y: "local_view t y = Some (i0, ps0)"
  define qs where "qs = (if y = r then ps0[k := p] else ps0)"
  define j where "j = (if y = rn then i0\<lparr>nphandle := ph, nis_referenced := True\<rparr> else i0)"
  have l: "local_view t' y = Some (j, qs @ (if y = rn then new else []))" using view [OF y] by (simp add: qs_def j_def)
  have q: "length qs = length ps0" "\<forall>h < length ps0. same_prop (ps0 ! h) (qs ! h)"
    using same y r by (auto simp: qs_def nth_list_update)
  have "node_evolves opts (i0, ps0) (j, qs @ (if y = rn then new else []))"
  proof (cases "y = rn")
    case False
    then show ?thesis using q by (simp add: node_evolves_def j_def)
  next
    case True
    then have "i0 = a" "ps0 = as" using y a by auto
    then show ?thesis using True q new ph by (auto simp: node_evolves_def j_def nth_append split: if_splits)
  qed
  moreover have "j \<noteq> i0 \<longrightarrow> referred t y" using ref by (auto simp: j_def)
  moreover have "sole t' y" if c: "nphandle j \<noteq> nphandle i0" "\<not> ndeleted (info t)"
    unfolding sole_def
  proof (intro allI impI)
    fix x i1 ps1 j1 qs1 assume x: "live_ref t' x" "x \<noteq> y" "local_view t' x = Some (i1, ps1)" "local_view t' y = Some (j1, qs1)"
    have yr: "y = rn" "i0 = a" using c(1) y a by (auto simp: j_def split: if_splits)
    then have f: "by_phandle t ph = None" "j1 = j" "nphandle j = ph" using new c(1) x(4) l by (auto simp: j_def split: if_splits)
    obtain i2 ps2 where 2: "local_view t x = Some (i2, ps2)" using local_view_skel [OF sk x(3)] by blast
    then have "i1 = i2" using view [OF 2] x(2,3) yr by auto
    moreover have "live_ref t x" using x(1) live_ref_skel [OF sk] by blast
    then have "nphandle i2 \<noteq> ph" using by_phandle_None [OF f(1) c(2)] 2 by (auto simp: local_view_def)
    ultimately show "nphandle i1 \<noteq> nphandle j1" using f by simp
  qed
  ultimately show "\<exists>i' ps'. local_view t' y = Some (i', ps') \<and> node_evolves opts (i0, ps0) (i', ps') \<and> (i' \<noteq> i0 \<longrightarrow> referred t y) \<and>
      (nphandle i' \<noteq> nphandle i0 \<longrightarrow> \<not> ndeleted (info t) \<longrightarrow> sole t' y)"
    using l by blast
qed

lemma marker_step:
  assumes inv: "ref_inv c0 D st" and v: "local_view (root_of st) r = Some (i, ps)" "k < length ps" "m \<in> ref_markers (ps ! k)"
  shows "\<exists>st'. fixup_phandle_marker opts r k m st = Some st' \<and> ref_inv c0 (insert (r, k, m) D) st' \<and>
    evolves (copts opts) (root_of st) (root_of st') \<and> cfails st' = cfails st"
proof -
  have tree: "refs_tree (root_of st)" and cnt: "counter_ok c0 (ccounter st) (root_of st)"
    and res: "\<And>r k m. (r, k, m) \<in> D \<Longrightarrow> resolved (root_of st) r k m" using inv by (auto simp: ref_inv_def)
  note mf = ref_marker_facts [OF tree v]
  obtain rn where rn: "refers (root_of st) m rn" using mf(4) by blast
  obtain a as where a: "local_view (root_of st) rn = Some (a, as)" using refers_local [OF rn] by blast
  obtain st3 ph w new where s: "fixup_phandle_marker opts r k m st = Some st3" "cfails st3 = cfails st" "skel (root_of st3) = skel (root_of st)"
    "counter_ok c0 (ccounter st3) (root_of st3)" and ph: "valid_ph ph"
    and new: "if valid_ph (nphandle a) then ph = nphandle a \<and> new = []
     else by_phandle (root_of st) ph = None \<and> map pname new = missing_names (copts opts) as \<and> (\<forall>q \<in> set new. phandle_prop ph q)"
    and poke: "poke (dval (pval (ps ! k))) (moffset m) (map Some (bytes32 ph)) = Some w"
    and view: "\<And>y i0 ps0. local_view (root_of st) y = Some (i0, ps0) \<Longrightarrow> local_view (root_of st3) y =
       Some (if y = rn then i0\<lparr>nphandle := ph, nis_referenced := True\<rparr> else i0,
         (if y = r then ps0[k := set_val w (ps ! k)] else ps0) @ (if y = rn then new else []))"
    by (rule fixup_marker_view [OF cnt v mf(1-3) rn a, where opts = opts]) blast
  let ?p = "set_val w (ps ! k)"
  have w: "data_ok ((pval (ps ! k))\<lparr>dval := w\<rparr>)" "length w = length (dval (pval (ps ! k)))"
    "\<And>j. j < length w \<Longrightarrow> \<not> (moffset m \<le> int j \<and> int j < moffset m + 4) \<Longrightarrow> w ! j = dval (pval (ps ! k)) ! j"
    "peek w (moffset m) 4 = Some (map Some (bytes32 ph))"
    "\<And>o'. 0 \<le> o' \<Longrightarrow> o' + 4 \<le> dlen (pval (ps ! k)) \<Longrightarrow> moffset m + 4 \<le> o' \<or> o' + 4 \<le> moffset m \<Longrightarrow>
       peek w o' 4 = peek (dval (pval (ps ! k))) o' 4"
    by (rule poke_cell [OF mf(1-3), of ph], use poke in simp)+
  have same: "same_prop (ps ! k) ?p"
    using w(1-3) v(3) unfolding same_prop_def cell_byte_def by (intro conjI exI [of _ w]) auto
  have "referred (root_of st) rn" using rn v unfolding referred_def by blast
  then have ev: "evolves (copts opts) (root_of st) (root_of st3)" by (rule marker_evolves [OF s(3) v(1,2) a same ph _ new view])
  have this_one: "resolved (root_of st3) r k m"
  proof -
    obtain i' ps' where 1: "local_view (root_of st3) r = Some (i', ps')" "k < length ps'" "ps' ! k = ?p"
      using view [OF v(1)] v(2) by (auto simp: nth_append)
    obtain j' qs' where 2: "local_view (root_of st3) rn = Some (j', qs')" "nphandle j' = ph" "nis_referenced j'" using view [OF a] by auto
    have "m \<in> ref_markers ?p" using v(3) by simp
    moreover have "refers (root_of st3) m rn" using rn refers_skel [OF s(3)] by simp
    moreover have "dval (pval ?p) = w" by simp
    ultimately show ?thesis using 1 2 ph w(4) unfolding resolved_def by metis
  qed
  have old: "resolved (root_of st3) r' k' m'" if "(r', k', m') \<in> D" for r' k' m'
  proof (cases "(r', k', m') = (r, k, m)")
    case False
    show ?thesis
    proof (rule resolved_keep [OF res [OF that] ev])
      fix i0 ps0 i' ps' assume 1: "local_view (root_of st) r' = Some (i0, ps0)" "local_view (root_of st3) r' = Some (i', ps')"
        "k' < length ps0" "m' \<in> ref_markers (ps0 ! k')"
      have e: "ps' ! k' = (if r' = r \<and> k' = k then ?p else ps0 ! k')" using view [OF 1(1)] 1(2,3) by (auto simp: nth_append)
      show "peek (dval (pval (ps' ! k'))) (moffset m') 4 = peek (dval (pval (ps0 ! k'))) (moffset m') 4"
      proof (cases "r' = r \<and> k' = k")
        case True
        then have "ps0 = ps" "m \<noteq> m'" using 1(1) v(1) False by auto
        then have "moffset m + 4 \<le> moffset m' \<or> moffset m' + 4 \<le> moffset m" using mf(5) [of m'] 1(4) True by auto
        then show ?thesis using w(5) [of "moffset m'"] ref_marker_facts(2,3) [OF tree 1(1,3,4)] True e \<open>ps0 = ps\<close> by simp
      qed (use e in auto)
    qed
  qed (use this_one in simp)
  have "ref_inv c0 (insert (r, k, m) D) st3"
    using evolves_refs [OF tree ev] this_one old s(4) by (auto simp: ref_inv_def)
  then show ?thesis using s(1,2) ev by auto
qed

section \<open>All references of a node, and of the tree\<close>

lemma lengthens_nth: "lengthens ps ps' \<Longrightarrow> k < length ps \<Longrightarrow> k < length ps' \<and> same_prop (ps ! k) (ps' ! k)"
  by (simp add: lengthens_def)

lemma markers_loop:
  assumes "ref_inv c0 D st" "local_view (root_of st) r = Some (i, ps)" "k < length ps" "\<not> pdeleted (ps ! k)"
    "set ms \<subseteq> set (dmarkers (pval (ps ! k)))"
  shows "\<exists>st'. for_each (fixup_phandle_marker opts r k) ms st = Some st' \<and>
    ref_inv c0 (D \<union> {(r, k, m) | m. m \<in> set ms \<and> mtype m = REF_PHANDLE}) st' \<and> evolves (copts opts) (root_of st) (root_of st') \<and> cfails st' = cfails st"
  using assms
proof (induction ms arbitrary: D st i ps)
  case (Cons m ms)
  show ?case
  proof (cases "mtype m = REF_PHANDLE")
    case False
    then have e: "{(r, k, x) | x. x \<in> set (m # ms) \<and> mtype x = REF_PHANDLE} = {(r, k, x) | x. x \<in> set ms \<and> mtype x = REF_PHANDLE}" by auto
    have "fixup_phandle_marker opts r k m st = Some st" using False by (simp add: fixup_phandle_marker_def)
    moreover have "set ms \<subseteq> set (dmarkers (pval (ps ! k)))" using Cons.prems(5) by simp
    ultimately show ?thesis using Cons.IH [OF Cons.prems(1-4)] unfolding e by simp
  next
    case True
    then have "m \<in> ref_markers (ps ! k)" using Cons.prems(4,5) by (simp add: ref_markers_def)
    then obtain s1 where 1: "fixup_phandle_marker opts r k m st = Some s1" "ref_inv c0 (insert (r, k, m) D) s1"
      "evolves (copts opts) (root_of st) (root_of s1)" "cfails s1 = cfails st"
      using marker_step [OF Cons.prems(1-3)] by blast
    obtain i' ps' where v: "local_view (root_of s1) r = Some (i', ps')" "lengthens ps ps'"
      by (rule evolves_view [OF 1(3) Cons.prems(2)])
    then have "k < length ps'" "same_prop (ps ! k) (ps' ! k)" using lengthens_nth Cons.prems(3) by blast+
    then have k: "k < length ps'" "\<not> pdeleted (ps' ! k)" "set ms \<subseteq> set (dmarkers (pval (ps' ! k)))"
      using Cons.prems(4,5) same_propD(2,5) by auto
    obtain s2 where 2: "for_each (fixup_phandle_marker opts r k) ms s1 = Some s2"
      "ref_inv c0 (insert (r, k, m) D \<union> {(r, k, m) | m. m \<in> set ms \<and> mtype m = REF_PHANDLE}) s2"
      "evolves (copts opts) (root_of s1) (root_of s2)" "cfails s2 = cfails s1"
      using Cons.IH [OF 1(2) v(1) k] by blast
    have e: "insert (r, k, m) D \<union> {(r, k, m) | m. m \<in> set ms \<and> mtype m = REF_PHANDLE} =
        D \<union> {(r, k, x) | x. x \<in> set (m # ms) \<and> mtype x = REF_PHANDLE}" using True by auto
    show ?thesis using 1 2 evolves_trans [OF 1(3) 2(3)] unfolding e by simp
  qed
qed simp

text \<open>The markers of the properties of a node from number \<open>k\<close> on.\<close>

definition node_refs :: "node \<Rightarrow> noderef \<Rightarrow> nat \<Rightarrow> (noderef \<times> nat \<times> marker) set" where
  "node_refs t r k = {(r, h, m) | h m i ps. local_view t r = Some (i, ps) \<and> k \<le> h \<and> h < length ps \<and> m \<in> ref_markers (ps ! h)}"

lemma node_refs_evolves:
  assumes "evolves opts t t'" "local_view t r = Some (i, ps)"
  shows "node_refs t' r k \<subseteq> node_refs t r k"
proof
  fix x assume "x \<in> node_refs t' r k"
  then obtain h m i' ps' where x: "x = (r, h, m)" "local_view t' r = Some (i', ps')" "k \<le> h" "h < length ps'" "m \<in> ref_markers (ps' ! h)"
    by (auto simp: node_refs_def)
  then have e: "lengthens ps ps'" using evolves_view [OF assms] by (metis option.inject prod.inject)
  then have "h < length ps" using x(4,5) by (auto simp: lengthens_def plain_prop_def not_less [symmetric])
  moreover have "m \<in> ref_markers (ps ! h)" using e calculation x(5) same_prop_markers by (auto simp: lengthens_def)
  ultimately show "x \<in> node_refs t r k" using x(1,3) assms(2) by (auto simp: node_refs_def)
qed

lemma node_refs_later: "(r', h, m) \<in> node_refs t r k \<Longrightarrow> h = k \<or> (r', h, m) \<in> node_refs t r (Suc k)"
  by (auto simp: node_refs_def)

lemma props_loop:
  assumes "ref_inv c0 D st" "local_view (root_of st) r = Some (i, ps)"
  shows "\<exists>st' D'. fixup_phandle_props opts r k st = Some st' \<and> ref_inv c0 D' st' \<and> D \<subseteq> D' \<and> node_refs (root_of st') r k \<subseteq> D' \<and>
    evolves (copts opts) (root_of st) (root_of st') \<and> cfails st' = cfails st"
  using assms
proof (induction "length ps - k + (if valid_ph (nphandle i) then 0 else 2)" arbitrary: D st i ps k rule: less_induct)
  case less
  obtain n where n: "nd st r = Some n" "proplist n = ps" using local_view_node [OF less.prems(2)] by (auto simp: nd_def)
  show ?case
  proof (cases "k < length ps")
    case False
    then have "node_refs (root_of st) r k = {}" using less.prems(2) by (auto simp: node_refs_def)
    moreover have "fixup_phandle_props opts r k st = Some st" using n False by (subst fixup_phandle_props.simps) simp
    ultimately show ?thesis using less.prems(1) by (intro exI [of _ st] exI [of _ D]) simp
  next
    case True
    let ?body = "if pdeleted (ps ! k) then Some st else for_each (fixup_phandle_marker opts r k) (dmarkers (pval (ps ! k))) st"
    let ?E = "D \<union> {(r, k, m) | m. m \<in> ref_markers (ps ! k)}"
    obtain s1 where 1: "?body = Some s1" "ref_inv c0 ?E s1" "evolves (copts opts) (root_of st) (root_of s1)" "cfails s1 = cfails st"
    proof (cases "pdeleted (ps ! k)")
      case True
      then show ?thesis using that [of st] less.prems(1) by (simp add: ref_markers_def)
    next
      case False
      then have "{(r, k, m) | m. m \<in> set (dmarkers (pval (ps ! k))) \<and> mtype m = REF_PHANDLE} = {(r, k, m) | m. m \<in> ref_markers (ps ! k)}"
        by (auto simp: ref_markers_def)
      then show ?thesis using that markers_loop [OF less.prems \<open>k < length ps\<close> False order_refl, of opts] False by auto
    qed
    obtain i' ps' where v: "local_view (root_of s1) r = Some (i', ps')" "lengthens ps ps'" "length ps' \<le> length ps + 2"
      "valid_ph (nphandle i) \<longrightarrow> nphandle i' = nphandle i \<and> length ps' = length ps"
      "length ps' \<noteq> length ps \<longrightarrow> valid_ph (nphandle i')"
      by (rule evolves_view [OF 1(3) less.prems(2)])
    have m: "length ps' - Suc k + (if valid_ph (nphandle i') then 0 else 2) < length ps - k + (if valid_ph (nphandle i) then 0 else 2)"
      using True v(3-5) by (cases "length ps' = length ps") auto
    obtain s2 D2 where 2: "fixup_phandle_props opts r (Suc k) s1 = Some s2" "ref_inv c0 D2 s2" "?E \<subseteq> D2"
      "node_refs (root_of s2) r (Suc k) \<subseteq> D2" "evolves (copts opts) (root_of s1) (root_of s2)" "cfails s2 = cfails s1"
      using less.hyps [OF m 1(2) v(1)] by (elim exE conjE)
    have ev: "evolves (copts opts) (root_of st) (root_of s2)" by (rule evolves_trans [OF 1(3) 2(5)])
    have "x \<in> D2" if x: "x \<in> node_refs (root_of s2) r k" for x
    proof (cases "x \<in> node_refs (root_of s2) r (Suc k)")
      case False
      then have "fst (snd x) = k" using node_refs_later [of _ _ _ "root_of s2" r k] x by (cases x) auto
      moreover have "x \<in> node_refs (root_of st) r k" using node_refs_evolves [OF ev less.prems(2)] x by (rule subsetD)
      ultimately have "x \<in> {(r, k, m) | m. m \<in> ref_markers (ps ! k)}" using less.prems(2) by (auto simp: node_refs_def)
      then show ?thesis using 2(3) by (meson UnI2 subsetD)
    qed (use 2(4) in blast)
    moreover have "fixup_phandle_props opts r k st = Some s2"
      using n True 1(1) 2(1) by (subst fixup_phandle_props.simps) (auto simp: Let_def)
    ultimately show ?thesis using 2(2,3,6) 1(4) ev by (intro exI [of _ s2] exI [of _ D2]) (simp add: subset_iff)
  qed
qed

definition walk_inv :: "check_opts \<Rightarrow> int \<Rightarrow> chk_state \<Rightarrow> noderef set \<Rightarrow> chk_state \<Rightarrow> bool" where
  "walk_inv opts c0 st0 S st \<longleftrightarrow> (\<exists>D. ref_inv c0 D st \<and> (\<forall>r \<in> S. node_refs (root_of st) r 0 \<subseteq> D)) \<and>
     evolves (copts opts) (root_of st0) (root_of st) \<and> cfails st = cfails st0"

lemma fixup_visits: "visits (walk_inv opts c0 st0) (fixup_phandle_references opts)"
  unfolding visits_def
proof (intro allI impI)
  fix S st r n assume a: "walk_inv opts c0 st0 S st" "nd st r = Some n"
  obtain D where D: "ref_inv c0 D st" "\<forall>r \<in> S. node_refs (root_of st) r 0 \<subseteq> D" using a(1) by (auto simp: walk_inv_def)
  have v: "local_view (root_of st) r = Some (info n, proplist n)" using a(2) by (simp add: local_view_def nd_def)
  obtain st' D' where 1: "fixup_phandle_props opts r 0 st = Some st'" "ref_inv c0 D' st'" "D \<subseteq> D'" "node_refs (root_of st') r 0 \<subseteq> D'"
    "evolves (copts opts) (root_of st) (root_of st')" "cfails st' = cfails st"
    using props_loop [OF D(1) v, of opts 0] by blast
  have sk: "skel (root_of st') = skel (root_of st)" using 1(5) by (simp add: evolves_def)
  have "node_refs (root_of st') y 0 \<subseteq> D'" if y: "y \<in> S" for y
  proof
    fix x assume x: "x \<in> node_refs (root_of st') y 0"
    then obtain i ps where "local_view (root_of st) y = Some (i, ps)" using local_view_skel [OF sk] unfolding node_refs_def by blast
    then show "x \<in> D'" using x node_refs_evolves [OF 1(5)] D(2) y 1(3) by blast
  qed
  then have "walk_inv opts c0 st0 (insert r S) st'"
    using 1 a(1) evolves_trans [OF _ 1(5)] by (auto simp: walk_inv_def)
  then show "\<exists>st'. fixup_phandle_references opts r st = Some st' \<and> walk_inv opts c0 st0 (insert r S) st' \<and> skel (root_of st') = skel (root_of st)"
    using 1(1) sk by (simp add: fixup_phandle_references_def)
qed

text \<open>C8: The fixup of phandle references does what the compiler promises for \<open>&label\<close> and \<open>&{/path}\<close>. On a
  tree whose references can be resolved, with as many free values above the static counter as there are nodes, the walk ends, reports
  nothing, and then every reference of every live node holds, in its four bytes, a valid phandle: the one of the node it refers
  to, which is marked as referenced. Nothing else changes (\<open>evolves\<close>): the names, labels, deleted flags and children of the nodes
  and all their other fields stay, and so does each property, labels and value included, but for the bytes of the references' own cells. Only a
  node that some reference refers to and that had no valid phandle gets one, with exactly the missing \<open>linux,phandle\<close> and
  \<open>phandle\<close> properties of the chosen format, which hold it; and no other live node has that phandle (if the root is not deleted).\<close>

theorem phandle_references_resolved:
  assumes "refs_tree (root_of st)" "1 \<le> ccounter st" "ccounter st + int (length (all_nodes (root_of st))) < UINT32_MAX"
  shows "\<exists>st'. check_nodes_props (fixup_phandle_references opts) [] st = Some st' \<and> cfails st' = cfails st \<and>
    evolves (copts opts) (root_of st) (root_of st') \<and>
    (\<forall>r i ps k m. live_ref (root_of st') r \<longrightarrow> local_view (root_of st') r = Some (i, ps) \<longrightarrow> k < length ps \<longrightarrow>
       m \<in> ref_markers (ps ! k) \<longrightarrow> resolved (root_of st') r k m)"
proof -
  have "walk_inv opts (ccounter st) st {} st" using assms by (auto simp: walk_inv_def ref_inv_def counter_ok_def)
  then obtain st' S where 1: "check_nodes_props (fixup_phandle_references opts) [] st = Some st'" "walk_inv opts (ccounter st) st S st'"
    "skel (root_of st') = skel (root_of st)" "\<forall>r. live_ref (root_of st) r \<longrightarrow> r \<in> S"
    using check_nodes_props_visits [OF fixup_visits] by blast
  obtain D where D: "ref_inv (ccounter st) D st'" "\<forall>r \<in> S. node_refs (root_of st') r 0 \<subseteq> D" using 1(2) by (auto simp: walk_inv_def)
  have "resolved (root_of st') r k m" if h: "live_ref (root_of st') r" "local_view (root_of st') r = Some (i, ps)" "k < length ps"
      "m \<in> ref_markers (ps ! k)" for r i ps k m
  proof -
    have "r \<in> S" using 1(4) h(1) live_ref_skel [OF 1(3)] by blast
    moreover have "(r, k, m) \<in> node_refs (root_of st') r 0" using h by (auto simp: node_refs_def)
    ultimately have "(r, k, m) \<in> D" using D(2) by blast
    then show ?thesis using D(1) unfolding ref_inv_def by auto
  qed
  then show ?thesis using 1(1,2) by (auto simp: walk_inv_def)
qed

lemma refs_tree_nodes: "(\<And>n p. n \<in> set (all_nodes t) \<Longrightarrow> p \<in> set (proplist n) \<Longrightarrow> refs_ok t p) \<Longrightarrow> refs_tree t"
  using node_at_all by (fastforce simp: refs_tree_def local_view_def)

definition sample_marker :: marker where
  "sample_marker = \<lparr>mtype = REF_PHANDLE, moffset = 0, mref = Some (cstr ''a'')\<rparr>"

definition sample_refs :: node where
  "sample_refs = Node (zero_info\<lparr>nname := Some []\<rparr>)
     [\<lparr>pdeleted = False, pname = cstr ''link'', pval = \<lparr>dlen = 4, dval = replicate 4 (Some 0xff), dmarkers = [sample_marker]\<rparr>, plabels = []\<rparr>]
     [Node (zero_info\<lparr>nname := Some (cstr ''dev''), nlabels := [\<lparr>ldeleted = False, llabel = cstr ''a''\<rparr>]\<rparr>) [] []]"

definition sample_state :: chk_state where
  "sample_state = \<lparr>cdti = build_dt_info 1 [] sample_refs 0, ccounter = 1, cfails = []\<rparr>"

theorem phandle_references_resolved_witness:
  "\<exists>st'. check_nodes_props (fixup_phandle_references plain_opts) [] sample_state = Some st' \<and> cfails st' = [] \<and>
     resolved (root_of st') [] 0 sample_marker"
proof -
  have sr: "root_of sample_state = sample_refs" "ccounter sample_state = 1" "cfails sample_state = []"
    by (simp_all add: sample_state_def build_dt_info_def)
  have "refers sample_refs sample_marker [0]"
    by (simp add: refers_def sample_marker_def sample_refs_def get_node_by_ref_def get_node_by_label_def has_label_def zero_info_def cstr_def)
  then have "refs_tree sample_refs"
    by (intro refs_tree_nodes) (auto simp: sample_refs_def refs_ok_def ref_markers_def sample_marker_def data_ok_def contents_def)
  moreover have "length (all_nodes sample_refs) = 2" by (simp add: sample_refs_def)
  ultimately obtain st' where st': "check_nodes_props (fixup_phandle_references plain_opts) [] sample_state = Some st'" "cfails st' = []"
    "evolves (copts plain_opts) sample_refs (root_of st')"
    "\<forall>r i ps k m. live_ref (root_of st') r \<longrightarrow> local_view (root_of st') r = Some (i, ps) \<longrightarrow> k < length ps \<longrightarrow>
       m \<in> ref_markers (ps ! k) \<longrightarrow> resolved (root_of st') r k m"
    using phandle_references_resolved [of sample_state plain_opts] sr by auto
  have "local_view sample_refs [] = Some (info sample_refs, proplist sample_refs)" by (simp add: local_view_def)
  then obtain i ps where ps: "local_view (root_of st') [] = Some (i, ps)" "lengthens (proplist sample_refs) ps"
    by (rule evolves_view [OF st'(3)])
  have "0 < length (proplist sample_refs)" "sample_marker \<in> ref_markers (proplist sample_refs ! 0)"
    by (simp_all add: sample_refs_def ref_markers_def sample_marker_def)
  then have "0 < length ps" "sample_marker \<in> ref_markers (ps ! 0)"
    using ps(2) lengthens_nth [OF ps(2), of 0] same_prop_markers by auto
  then have "resolved (root_of st') [] 0 sample_marker" using st'(4) ps(1) by (metis live_ref.simps(1))
  then show ?thesis using st'(1,2) by blast
qed

end
