(* ===== verification/Dtc_Main.thy ===== *)
theory Dtc_Main
  imports Dtc_Srcpos Dtc_Fstree Dtc_Flattree Dtc_Treesource Dtc_Yaml Dtc_Phandles
begin

text \<open>
  The compiler's \<open>dtc.c\<close>: full paths, the choice of formats, options, and the way of a tree through the other components from input to output. The
  parser and the emitter of libyaml are parameters; annotated output is left out.
\<close>

section \<open>Full paths\<close>

text \<open>A node without a name is a read through \<open>NULL\<close>.\<close>

fun fill_fullpaths :: "node \<Rightarrow> cstring \<Rightarrow> node option"
  and fill_children :: "node list \<Rightarrow> cstring \<Rightarrow> node list option" where
  "fill_fullpaths (Node i ps cs) pre = do {
     name \<leftarrow> nname i;
     let fullpath = join_path pre name;
     let base = takeWhile (\<lambda>c. c \<noteq> chr (CHR ''@'')) name;
     cs \<leftarrow> fill_children cs fullpath;
     Some (Node (i\<lparr>nfullpath := Some fullpath, nbasenamelen := int (length base)\<rparr>) ps cs) }"
| "fill_children [] pre = Some []"
| "fill_children (c # cs) pre = do {
     c \<leftarrow> (if ndeleted (info c) then Some c else fill_fullpaths c pre);
     cs \<leftarrow> fill_children cs pre;
     Some (c # cs) }"

section \<open>Formats\<close>

definition lower :: "cstring \<Rightarrow> cstring" where
  "lower s = map (\<lambda>c. if 65 \<le> c \<and> c \<le> 90 then c + 32 else c) s"

definition guess_type_by_name :: "cstring \<Rightarrow> string option \<Rightarrow> string option" where
  "guess_type_by_name fname fallback =
     (case split_last (chr (CHR ''.'')) fname of
        None \<Rightarrow> fallback
      | Some (base, ext) \<Rightarrow>
          if lower ext = cstr ''dts'' then Some ''dts''
          else if lower ext = cstr ''yaml'' then Some ''yaml''
          else if lower ext = cstr ''dtbo'' then Some ''dtb''
          else if lower ext = cstr ''dtb'' then Some ''dtb''
          else fallback)"

text \<open>What \<open>stat\<close> says of a name, with the bytes of a file that can be opened.\<close>

datatype file_kind = No_File | Directory "fs_entry list option" | Regular "u8 list option" | Other_File

definition guess_input_format :: "file_kind \<Rightarrow> cstring \<Rightarrow> string \<Rightarrow> string" where
  "guess_input_format kind fname fallback =
     (case kind of
        Directory es \<Rightarrow> ''fs''
      | Regular (Some bytes) \<Rightarrow>
          if length bytes < 4 then fallback
          else if fdt32_ld \<lparr>blob_addr = 0, blob_mem = bytes\<rparr> 0 = Some FDT_MAGIC then ''dtb''
          else the (guess_type_by_name fname (Some fallback))
      | _ \<Rightarrow> fallback)"

section \<open>Options\<close>

definition is_power_of_2 :: "int \<Rightarrow> bool" where
  "is_power_of_2 x \<longleftrightarrow> x > 0 \<and> x AND (x - 1) = 0"

text \<open>The variables that the options set.\<close>

record dtc_vars =
  inform :: "string option"
  outform :: "string option"
  outname :: cstring
  depname :: "cstring option"
  oforce :: bool
  osort :: bool
  outversion :: int
  cmdline_boot_cpuid :: int
  oquiet :: int
  oblob :: out_opts
  ophandle :: int
  symbols :: bool
  auto_label_aliases :: bool
  ochecks :: checker
  osrc :: src_state

abbreviation (input) DEFAULT_FDT_VERSION :: int where "DEFAULT_FDT_VERSION \<equiv> 17"

datatype dtc_option = opt_I string | opt_O string | opt_o cstring | opt_V cstring | opt_d cstring | opt_R cstring | opt_S cstring
  | opt_p cstring | opt_a cstring | opt_f | opt_q | opt_b cstring | opt_i cstring | opt_H string | opt_s | opt_W string | opt_E string
  | opt_at | opt_A

text \<open>One round of the option loop; \<open>None\<close> is \<open>die\<close>.\<close>

fun set_option :: "dtc_option \<Rightarrow> dtc_vars \<Rightarrow> dtc_vars option" where
  "set_option (opt_I a) v = Some (v\<lparr>inform := Some a\<rparr>)"
| "set_option (opt_O a) v = Some (v\<lparr>outform := Some a\<rparr>)"
| "set_option (opt_o a) v = Some (v\<lparr>outname := a\<rparr>)"
| "set_option (opt_V a) v = Some (v\<lparr>outversion := s32 (strtol0 a)\<rparr>)"
| "set_option (opt_d a) v = Some (v\<lparr>depname := Some a\<rparr>)"
| "set_option (opt_R a) v = Some (v\<lparr>oblob := (oblob v)\<lparr>reservenum := s32 (strtol0 a)\<rparr>\<rparr>)"
| "set_option (opt_S a) v = Some (v\<lparr>oblob := (oblob v)\<lparr>minsize := s32 (strtol0 a)\<rparr>\<rparr>)"
| "set_option (opt_p a) v = Some (v\<lparr>oblob := (oblob v)\<lparr>padsize := s32 (strtol0 a)\<rparr>\<rparr>)"
| "set_option (opt_a a) v =
     (let n = s32 (strtol0 a) in if \<not> is_power_of_2 n then None else Some (v\<lparr>oblob := (oblob v)\<lparr>alignsize := n\<rparr>\<rparr>))"
| "set_option opt_f v = Some (v\<lparr>oforce := True\<rparr>)"
| "set_option opt_q v = Some (v\<lparr>oquiet := oquiet v + 1\<rparr>)"
| "set_option (opt_b a) v = Some (v\<lparr>cmdline_boot_cpuid := strtol0 a\<rparr>)"
| "set_option (opt_i a) v = Some (v\<lparr>osrc := srcfile_add_search_path a (osrc v)\<rparr>)"
| "set_option (opt_H a) v =
     (if a = ''legacy'' then Some (v\<lparr>ophandle := 1\<rparr>)
      else if a = ''epapr'' then Some (v\<lparr>ophandle := 2\<rparr>)
      else if a = ''both'' then Some (v\<lparr>ophandle := 3\<rparr>)
      else None)"
| "set_option opt_s v = Some (v\<lparr>osort := True\<rparr>)"
| "set_option (opt_W a) v = do { c \<leftarrow> parse_checks_option True False a (ochecks v); Some (v\<lparr>ochecks := c\<rparr>) }"
| "set_option (opt_E a) v = do { c \<leftarrow> parse_checks_option False True a (ochecks v); Some (v\<lparr>ochecks := c\<rparr>) }"
| "set_option opt_at v = Some (v\<lparr>symbols := True\<rparr>)"
| "set_option opt_A v = Some (v\<lparr>auto_label_aliases := True\<rparr>)"

section \<open>The program\<close>

text \<open>The options of the checks; on a plugin, fixups are generated.\<close>

definition check_opts_of :: "dtc_vars \<Rightarrow> dt_info \<Rightarrow> check_opts" where
  "check_opts_of v dti =
     \<lparr>copts = \<lparr>phandle_format = ophandle v, generate_fixups = (dtsflags dti AND DTSF_PLUGIN \<noteq> 0)\<rparr>,
      quiet = oquiet v, generate_symbols = symbols v\<rparr>"

text \<open>From the tree that was read to the tree that is written: paths, checks and fixups, labels, symbols and fixup trees,
  sorting. \<open>Inl\<close> is the exit status when the checks fail.\<close>

definition dtc_transform :: "dtc_vars \<Rightarrow> dt_info \<Rightarrow> (int + dt_info) option" where
  "dtc_transform v dti = do {
     let dti = (if cmdline_boot_cpuid v \<noteq> - 1 then dti\<lparr>boot_cpuid_phys := u32 (cmdline_boot_cpuid v)\<rparr> else dti);
     t \<leftarrow> fill_fullpaths (dt dti) [];
     let dti = dti\<lparr>dt := t\<rparr>;
     let opts = check_opts_of v dti;
     (stop, c) \<leftarrow> process_checks opts (oforce v) ((ochecks v)\<lparr>chk := \<lparr>cdti = dti, ccounter = 1, cfails = []\<rparr>\<rparr>);
     if stop then Some (Inl 2)
     else do {
       let dti = cdti (chk c);
       (t, ph) \<leftarrow> (if auto_label_aliases v then generate_label_tree (copts opts) (dt dti) (cstr ''aliases'') False (ccounter (chk c))
                   else Some (dt dti, ccounter (chk c)));
       (t, ph) \<leftarrow> (if symbols v then generate_label_tree (copts opts) t (cstr ''__symbols__'') True ph else Some (t, ph));
       t \<leftarrow> (if generate_fixups (copts opts) then do {
              t \<leftarrow> generate_fixups_tree t (cstr ''__fixups__'');
              generate_local_fixups_tree t (cstr ''__local_fixups__'') }
            else Some t);
       let dti = dti\<lparr>dt := t\<rparr>;
       map_option Inr (if osort v then sort_tree dti else Some dti) } }"

text \<open>The output, in one of the formats; YAML only from source.\<close>

definition dtc_output :: "'e yaml_emitter \<Rightarrow> dtc_vars \<Rightarrow> string \<Rightarrow> string \<Rightarrow> dt_info \<Rightarrow> u8 list option" where
  "dtc_output emitter v infmt outfmt dti =
     (if outfmt = ''dts'' then dt_to_source dti
      else if outfmt = ''yaml'' then (if infmt \<noteq> ''dts'' then None else dt_to_yaml emitter dti)
      else if outfmt = ''dtb'' then dt_to_blob (oblob v) dti (outversion v)
      else if outfmt = ''asm'' then dt_to_asm (oblob v) dti (outversion v)
      else if outfmt = ''null'' then Some []
      else None)"

text \<open>The input; the parser is not part of the model.\<close>

definition dtc_input :: "(cstring \<Rightarrow> dt_info option) \<Rightarrow> (cstring \<Rightarrow> file_kind) \<Rightarrow> string \<Rightarrow> cstring \<Rightarrow> dt_info option" where
  "dtc_input dt_from_source files infmt arg =
     (if infmt = ''dts'' then dt_from_source arg
      else if infmt = ''fs'' then dt_from_fs (case files arg of Directory es \<Rightarrow> es | _ \<Rightarrow> None)
      else if infmt = ''dtb'' then (case files arg of Regular (Some bytes) \<Rightarrow> dt_from_blob \<lparr>fbytes = bytes, feof = False\<rparr> | _ \<Rightarrow> None)
      else None)"

definition dtc_formats :: "dtc_vars \<Rightarrow> file_kind \<Rightarrow> cstring \<Rightarrow> string \<times> string" where
  "dtc_formats v kind arg =
     (let infmt = (case inform v of Some f \<Rightarrow> f | None \<Rightarrow> guess_input_format kind arg ''dts'');
          outfmt = (case outform v of
              Some f \<Rightarrow> f
            | None \<Rightarrow> (case guess_type_by_name (outname v) None of Some f \<Rightarrow> f | None \<Rightarrow> if infmt = ''dts'' then ''dtb'' else ''dts''))
      in (infmt, outfmt))"

definition dtc_start :: dtc_vars where
  "dtc_start = \<lparr>inform = None, outform = None, outname = cstr ''-'', depname = None, oforce = False, osort = False,
     outversion = DEFAULT_FDT_VERSION, cmdline_boot_cpuid = - 1, oquiet = 0,
     oblob = \<lparr>reservenum = 0, minsize = 0, padsize = 0, alignsize = 0\<rparr>, ophandle = 2, symbols = False,
     auto_label_aliases = False,
     ochecks = \<lparr>checks = check_table, chk = \<lparr>cdti = build_dt_info 0 [] (build_node [] []) 0, ccounter = 1, cfails = []\<rparr>, messages = []\<rparr>,
     osrc = src_init\<rparr>"

text \<open>The exit status and what is written to the output. \<open>None\<close> is \<open>die\<close>, \<open>usage\<close> or a fault.\<close>

definition dtc_main :: "(cstring \<Rightarrow> dt_info option) \<Rightarrow> 'e yaml_emitter \<Rightarrow> (cstring \<Rightarrow> file_kind) \<Rightarrow>
    dtc_option list \<Rightarrow> cstring list \<Rightarrow> (int \<times> u8 list) option" where
  "dtc_main dt_from_source emitter files opts args = do {
     v \<leftarrow> for_each set_option opts dtc_start;
     arg \<leftarrow> (case args of [] \<Rightarrow> Some (cstr ''-'') | [a] \<Rightarrow> Some a | _ \<Rightarrow> None);
     if minsize (oblob v) \<noteq> 0 \<and> padsize (oblob v) \<noteq> 0 then None
     else do {
       let (infmt, outfmt) = dtc_formats v (files arg) arg;
       dti \<leftarrow> dtc_input dt_from_source files infmt arg;
       r \<leftarrow> dtc_transform v dti;
       (case r of
          Inl status \<Rightarrow> Some (status, [])
        | Inr dti \<Rightarrow> do { out \<leftarrow> dtc_output emitter v infmt outfmt dti; Some (0, out) }) } }"

section \<open>Full paths lead back to their nodes\<close>

abbreviation SLASH :: u8 where "SLASH \<equiv> chr (CHR ''/'')"

text \<open>Names as the grammar allows them: a live child has a name, not empty and without a slash. The grammar also allows two children
  with the same name; that they differ is a second condition.\<close>

fun path_names :: "node \<Rightarrow> bool" where
  "path_names (Node i ps cs) \<longleftrightarrow>
     (\<forall>c \<in> set cs. \<not> ndeleted (info c) \<longrightarrow> (\<exists>nm. nname (info c) = Some nm \<and> nm \<noteq> [] \<and> SLASH \<notin> set nm) \<and> path_names c)"

fun unique_siblings :: "node \<Rightarrow> bool" where
  "unique_siblings (Node i ps cs) \<longleftrightarrow> distinct (map (\<lambda>c. nname (info c)) (filter (\<lambda>c. \<not> ndeleted (info c)) cs)) \<and>
     (\<forall>c \<in> set cs. \<not> ndeleted (info c) \<longrightarrow> unique_siblings c)"

text \<open>Both together.\<close>

fun paths_ok :: "node \<Rightarrow> bool" where
  "paths_ok (Node i ps cs) \<longleftrightarrow> distinct (map (\<lambda>c. nname (info c)) (filter (\<lambda>c. \<not> ndeleted (info c)) cs)) \<and>
     (\<forall>c \<in> set cs. \<not> ndeleted (info c) \<longrightarrow> (\<exists>nm. nname (info c) = Some nm \<and> nm \<noteq> [] \<and> SLASH \<notin> set nm) \<and> paths_ok c)"

abbreviation node_name :: "node \<Rightarrow> cstring" where
  "node_name n \<equiv> the (nname (info n))"

fun rel_path :: "node \<Rightarrow> noderef \<Rightarrow> cstring" where
  "rel_path t [] = []"
| "rel_path t (i # r) = node_name (children t ! i) @ (if r = [] then [] else SLASH # rel_path (children t ! i) r)"

fun path_from :: "cstring \<Rightarrow> node \<Rightarrow> noderef \<Rightarrow> cstring" where
  "path_from pre t [] = join_path pre (node_name t)"
| "path_from pre t (i # r) = path_from (join_path pre (node_name t)) (children t ! i) r"

lemma paths_ok_both: "paths_ok t \<longleftrightarrow> path_names t \<and> unique_siblings t"
  by (induction t) auto

lemma paths_okD:
  assumes "paths_ok t" "i < length (children t)" "\<not> ndeleted (info (children t ! i))"
  shows "nname (info (children t ! i)) = Some (node_name (children t ! i))" "node_name (children t ! i) \<noteq> []"
    "SLASH \<notin> set (node_name (children t ! i))" "paths_ok (children t ! i)"
  using assms nth_mem [of i "children t"] by (cases t; fastforce)+

lemma takeWhile_slash: "SLASH \<notin> set nm \<Longrightarrow> takeWhile (\<lambda>c. c \<noteq> SLASH) (nm @ SLASH # rest) = nm"
    "SLASH \<notin> set nm \<Longrightarrow> takeWhile (\<lambda>c. c \<noteq> SLASH) nm = nm"
  by (induction nm) auto

lemma path_children_skip:
  assumes "ndeleted (info c) \<or> (\<exists>nm. nname (info c) = Some nm \<and> nm \<noteq> takeWhile (\<lambda>c. c \<noteq> SLASH) path)"
  shows "path_children k (c # cs) path = path_children (Suc k) cs path"
proof (cases "ndeleted (info c)")
  case True
  then show ?thesis by (simp add: path_children.simps(2))
next
  case False
  define fs where "fs = takeWhile (\<lambda>c. c \<noteq> SLASH) path"
  have "length fs = length path \<Longrightarrow> path = fs" unfolding fs_def by (metis takeWhile_eq_take take_all_iff le_refl)
  moreover obtain nm where "nname (info c) = Some nm" "nm \<noteq> fs" using assms False by (auto simp: fs_def)
  ultimately show ?thesis using False unfolding path_children.simps(2) fs_def [symmetric] by (auto simp: Let_def)
qed

lemma path_children_hit:
  assumes "j < length cs" "\<not> ndeleted (info (cs ! j))" "nname (info (cs ! j)) = Some nm" "SLASH \<notin> set nm"
    "distinct (map (\<lambda>c. nname (info c)) (filter (\<lambda>c. \<not> ndeleted (info c)) cs))"
    "\<forall>c \<in> set cs. \<not> ndeleted (info c) \<longrightarrow> nname (info c) \<noteq> None" "takeWhile (\<lambda>c. c \<noteq> SLASH) path = nm"
  shows "path_children k cs path = path_children (k + j) [cs ! j] path"
  using assms
proof (induction cs arbitrary: j k)
  case (Cons c cs)
  show ?case
  proof (cases j)
    case 0
    have "path_children (Suc k) cs path = path_children (Suc k) [] path"
    proof -
      have "ndeleted (info d) \<or> (\<exists>nm. nname (info d) = Some nm \<and> nm \<noteq> takeWhile (\<lambda>c. c \<noteq> SLASH) path)" if "d \<in> set cs" for d
        using Cons.prems 0 that by (auto simp: image_iff) (metis option.exhaust)
      then show ?thesis
      proof (induction cs arbitrary: k)
        case (Cons d ds)
        then show ?case using path_children_skip [of d path "Suc k" ds] by (simp add: path_children.simps(1))
      qed simp
    qed
    then have "path_children k (c # cs) path = path_children k [c] path"
      unfolding path_children.simps(2) [of k c] by (simp only:)
    then show ?thesis using 0 by simp
  next
    case (Suc j')
    have "ndeleted (info c) \<or> (\<exists>nm. nname (info c) = Some nm \<and> nm \<noteq> takeWhile (\<lambda>c. c \<noteq> SLASH) path)"
    proof (rule disjCI)
      assume live: "\<not> (\<exists>nm. nname (info c) = Some nm \<and> nm \<noteq> takeWhile (\<lambda>c. c \<noteq> SLASH) path)"
      show "ndeleted (info c)"
      proof (rule ccontr)
        assume d: "\<not> ndeleted (info c)"
        then have "nname (info c) = Some nm" using live Cons.prems(6,7) by auto
        moreover have "cs ! j' \<in> set (filter (\<lambda>c. \<not> ndeleted (info c)) cs)" using Cons.prems(1,2) Suc by auto
        ultimately show False using Cons.prems(3,5) d Suc by (auto simp: image_iff)
      qed
    qed
    then have "path_children k (c # cs) path = path_children (Suc k) cs path" by (rule path_children_skip)
    moreover have "distinct (map (\<lambda>c. nname (info c)) (filter (\<lambda>c. \<not> ndeleted (info c)) cs))" using Cons.prems(5) by (simp split: if_splits)
    ultimately show ?thesis using Cons.IH [of j' "Suc k"] Cons.prems Suc by simp
  qed
qed simp

lemma rel_path_found: "paths_ok t \<Longrightarrow> live_ref t r \<Longrightarrow> r \<noteq> [] \<Longrightarrow> get_node_by_path t (rel_path t r) = Some (Some r)"
proof (induction r arbitrary: t)
  case (Cons i r)
  let ?c = "children t ! i"
  let ?nm = "node_name ?c"
  have l: "i < length (children t)" "\<not> ndeleted (info ?c)" "live_ref ?c r" using Cons.prems(2) by auto
  note n = paths_okD [OF Cons.prems(1) l(1,2)]
  obtain nm where nm: "nname (info ?c) = Some nm" using n(1) by blast
  have fs: "takeWhile (\<lambda>c. c \<noteq> SLASH) (rel_path t (i # r)) = ?nm"
    using takeWhile_slash [OF n(3)] by (simp del: takeWhile_append)
  have d: "dropWhile (\<lambda>c. c = SLASH) (rel_path t (i # r)) = rel_path t (i # r)" "rel_path t (i # r) \<noteq> []"
    using n(2,3) by (cases ?nm; auto)+
  have dist: "distinct (map (\<lambda>c. nname (info c)) (filter (\<lambda>c. \<not> ndeleted (info c)) (children t)))"
    "\<forall>c \<in> set (children t). \<not> ndeleted (info c) \<longrightarrow> nname (info c) \<noteq> None" using Cons.prems(1) by (cases t; auto)+
  have "get_node_by_path t (rel_path t (i # r)) = path_children 0 (children t) (rel_path t (i # r))"
    unfolding get_node_by_path.simps [of t] d(1) using d(2) by (simp only: if_False)
  also have "\<dots> = path_children (0 + i) [?c] (rel_path t (i # r))"
    by (rule path_children_hit [OF l(1,2) n(1,3) dist fs])
  also have "\<dots> = Some (Some (i # r))"
  proof (cases "r = []")
    case True
    then show ?thesis using l(2) unfolding path_children.simps(2) fs nm by (simp add: nm)
  next
    case False
    have "get_node_by_path ?c (rel_path ?c r) = Some (Some r)" by (rule Cons.IH [OF n(4) l(3) False])
    moreover have "drop (Suc (length ?nm)) (rel_path t (i # r)) = rel_path ?c r" using False by simp
    moreover have "length ?nm < length (rel_path t (i # r))" using False by simp
    ultimately show ?thesis using l(2) unfolding path_children.simps(2) fs nm option.sel
      by (simp only: Option.bind.simps Let_def if_False if_True simp_thms option.map add_0)
  qed
  finally show ?case .
qed simp

lemma fill_skel:
  "fill_fullpaths t pre = Some t' \<Longrightarrow> skel t' = skel t"
  "fill_children cs pre = Some cs' \<Longrightarrow> map skel cs' = map skel cs"
proof (induction t pre and cs pre arbitrary: t' and cs' rule: fill_fullpaths_fill_children.induct)
  case (1 i ps cs pre)
  obtain nm cs' where f: "nname i = Some nm" "fill_children cs (join_path pre nm) = Some cs'"
    "t' = Node (i\<lparr>nfullpath := Some (join_path pre nm), nbasenamelen := int (length (takeWhile (\<lambda>c. c \<noteq> chr (CHR ''@'')) nm))\<rparr>) ps cs'"
    using 1(2) by (auto simp: Let_def bind_eq_Some_conv)
  have "map skel cs' = map skel cs" by (rule 1(1) [OF f(1) refl refl f(2)])
  then show ?case using f(3) by (simp add: skel_info_def)
next
  case (3 c cs pre)
  obtain c' ds where f: "(if ndeleted (info c) then Some c else fill_fullpaths c pre) = Some c'" "fill_children cs pre = Some ds" "cs' = c' # ds"
    using 3(3) by (auto simp: bind_eq_Some_conv)
  have "skel c' = skel c" using 3(1) f(1) by (cases "ndeleted (info c)") simp_all
  then show ?case using 3(2) [OF f(1,2)] f(3) by simp
qed simp

lemma fill_nth:
  assumes "fill_children cs pre = Some cs'" "i < length cs"
  shows "i < length cs'" "\<not> ndeleted (info (cs ! i)) \<Longrightarrow> fill_fullpaths (cs ! i) pre = Some (cs' ! i)"
proof -
  have "i < length cs' \<and> (\<not> ndeleted (info (cs ! i)) \<longrightarrow> fill_fullpaths (cs ! i) pre = Some (cs' ! i))" using assms
  proof (induction cs arbitrary: cs' i)
    case (Cons c cs)
    then show ?case by (cases i) (auto split: Option.bind_splits if_splits)
  qed simp
  then show "i < length cs'" "\<not> ndeleted (info (cs ! i)) \<Longrightarrow> fill_fullpaths (cs ! i) pre = Some (cs' ! i)" by auto
qed

lemma fill_total:
  "path_names t \<Longrightarrow> nname (info t) \<noteq> None \<Longrightarrow> \<exists>t'. fill_fullpaths t pre = Some t'"
  "(\<And>c. c \<in> set cs \<Longrightarrow> \<not> ndeleted (info c) \<Longrightarrow> path_names c \<and> nname (info c) \<noteq> None) \<Longrightarrow> \<exists>cs'. fill_children cs pre = Some cs'"
proof (induction t pre and cs pre rule: fill_fullpaths_fill_children.induct)
  case (1 i ps cs pre)
  obtain nm where nm: "nname i = Some nm" using 1(3) by auto
  have "\<exists>cs'. fill_children cs (join_path pre nm) = Some cs'" by (rule 1(1) [OF nm refl refl]) (use 1(2) in auto)
  then show ?case using nm by (auto simp: Let_def)
next
  case (3 c cs pre)
  have "\<exists>c'. (if ndeleted (info c) then Some c else fill_fullpaths c pre) = Some c'" using 3(1) 3(3) [of c] by auto
  moreover have "\<exists>cs'. fill_children cs pre = Some cs'" using 3(2) [OF _ ] 3(3) calculation by auto
  ultimately show ?case by auto
qed simp

lemma fill_paths:
  assumes "fill_fullpaths t pre = Some t'" "live_ref t r"
  shows "\<exists>n. node_at t' r = Some n \<and> nfullpath (info n) = Some (path_from pre t r)"
  using assms
proof (induction r arbitrary: t pre t')
  case Nil
  then show ?case by (cases t) (auto simp: Let_def split: Option.bind_splits)
next
  case (Cons k r)
  obtain i ps cs where t: "t = Node i ps cs" by (cases t)
  obtain nm cs' where f: "nname i = Some nm" "fill_children cs (join_path pre nm) = Some cs'" "children t' = cs'"
    using Cons.prems(1) t by (auto simp: Let_def split: Option.bind_splits)
  have k: "k < length cs" "\<not> ndeleted (info (cs ! k))" "live_ref (cs ! k) r" using Cons.prems(2) t by auto
  note c = fill_nth [OF f(2) k(1)]
  show ?case using Cons.IH [OF c(2) [OF k(2)] k(3)] c(1) f(1,3) t by simp
qed

lemma join_name: "nm \<noteq> [] \<Longrightarrow> SLASH \<notin> set nm \<Longrightarrow> join_path (join_path P nm) x = join_path P nm @ SLASH # x"
proof -
  assume nm: "nm \<noteq> []" "SLASH \<notin> set nm"
  then have "last (join_path P nm) = last nm" "join_path P nm \<noteq> []" by (auto simp: join_path_def Let_def)
  moreover have "last nm \<noteq> SLASH" using nm last_in_set by metis
  ultimately show ?thesis unfolding join_path_def [of "join_path P nm"] by simp
qed

lemma path_from_rel:
  "paths_ok c \<Longrightarrow> live_ref c r \<Longrightarrow> node_name c \<noteq> [] \<Longrightarrow> SLASH \<notin> set (node_name c) \<Longrightarrow>
   path_from P c r = join_path P (node_name c) @ (if r = [] then [] else SLASH # rel_path c r)"
proof (induction r arbitrary: P c)
  case (Cons i r)
  have l: "i < length (children c)" "\<not> ndeleted (info (children c ! i))" "live_ref (children c ! i) r" using Cons.prems(2) by auto
  note n = paths_okD [OF Cons.prems(1) l(1,2)]
  show ?case using Cons.IH [OF n(4) l(3) n(2,3)] join_name [OF Cons.prems(3,4)] by simp
qed simp

lemma slash_path: "p \<noteq> [] \<Longrightarrow> get_node_by_path t (SLASH # p) = get_node_by_path t p"
  unfolding get_node_by_path.simps [of t] by simp

lemma fullpath_found:
  assumes "paths_ok t" "nname (info t) = Some []" "fill_fullpaths t [] = Some t'" "live_ref t r"
  shows "get_node_by_ref t' (path_from [] t r) = Some (Some r)"
proof (cases r)
  case Nil
  then show ?thesis using assms(2) by (simp add: get_node_by_ref_def cstr_def join_path_def)
next
  case (Cons i s)
  have root: "join_path [] (node_name t) = [SLASH]" using assms(2) by (simp add: join_path_def)
  have l: "i < length (children t)" "\<not> ndeleted (info (children t ! i))" "live_ref (children t ! i) s" using assms(4) Cons by auto
  note n = paths_okD [OF assms(1) l(1,2)]
  have "path_from [] t r = join_path [SLASH] (node_name (children t ! i)) @ (if s = [] then [] else SLASH # rel_path (children t ! i) s)"
    using path_from_rel [OF n(4) l(3) n(2,3), of "[SLASH]"] Cons root by simp
  then have p: "path_from [] t r = SLASH # rel_path t r" using Cons by (simp add: join_path_def)
  have "rel_path t r \<noteq> []" using Cons n(2) by simp
  then have "get_node_by_ref t' (path_from [] t r) = get_node_by_path t' (rel_path t r)"
    using slash_path [of "rel_path t r" t'] unfolding p by (simp add: get_node_by_ref_def cstr_def)
  also have "\<dots> = get_node_by_path t (rel_path t r)"
    using path_skel(1) [of t'] path_skel(1) [of t] fill_skel(1) [OF assms(3)] by metis
  finally show ?thesis using rel_path_found [OF assms(1,4)] Cons by simp
qed

text \<open>Two siblings of the same name have the same path.\<close>

lemma not_distinct_nth: "\<not> distinct (map f (filter P xs)) \<Longrightarrow> \<exists>i j. i < j \<and> j < length xs \<and> P (xs ! i) \<and> P (xs ! j) \<and> f (xs ! i) = f (xs ! j)"
proof (induction xs)
  case (Cons x xs)
  show ?case
  proof (cases "distinct (map f (filter P xs))")
    case True
    then obtain y where "P x" "y \<in> set xs" "P y" "f x = f y" using Cons.prems by (auto split: if_splits)
    then obtain j where "j < length xs" "P (xs ! j)" "f x = f (xs ! j)" by (auto simp: in_set_conv_nth)
    then show ?thesis using \<open>P x\<close> by (intro exI [of _ 0] exI [of _ "Suc j"]) simp
  next
    case False
    then obtain i j where "i < j" "j < length xs" "P (xs ! i)" "P (xs ! j)" "f (xs ! i) = f (xs ! j)" using Cons.IH by blast
    then show ?thesis by (intro exI [of _ "Suc i"] exI [of _ "Suc j"]) simp
  qed
qed simp

lemma same_paths: "\<not> unique_siblings t \<Longrightarrow> \<exists>r s. r \<noteq> s \<and> live_ref t r \<and> live_ref t s \<and> (\<forall>pre. path_from pre t r = path_from pre t s)"
proof (induction t)
  case (Node i ps cs)
  show ?case
  proof (cases "distinct (map (\<lambda>c. nname (info c)) (filter (\<lambda>c. \<not> ndeleted (info c)) cs))")
    case False
    then obtain j k where "j < k" "k < length cs" "\<not> ndeleted (info (cs ! j))" "\<not> ndeleted (info (cs ! k))" "nname (info (cs ! j)) = nname (info (cs ! k))"
      using not_distinct_nth by blast
    then show ?thesis by (intro exI [of _ "[j]"] exI [of _ "[k]"]) simp
  next
    case True
    then obtain c where c: "c \<in> set cs" "\<not> ndeleted (info c)" "\<not> unique_siblings c" using Node.prems by auto
    obtain k where k: "k < length cs" "cs ! k = c" using c(1) by (auto simp: in_set_conv_nth)
    obtain r s where "r \<noteq> s" "live_ref c r" "live_ref c s" "\<forall>pre. path_from pre c r = path_from pre c s" using Node.IH [OF c(1,3)] by blast
    then show ?thesis using c(2) k by (intro exI [of _ "k # r"] exI [of _ "k # s"]) simp
  qed
qed

text \<open>C11: When the full paths that dtc computes lead back to their nodes. On a tree with a nameless root whose live nodes have names
  that are not empty and have no slash, \<open>fill_fullpaths\<close> succeeds; and the path of every live node, taken as a reference,
  finds exactly that node if and only if no two live children of a live node have the same name. The grammar accepts such
  duplicates, and \<open>fill_fullpaths\<close> runs before the check \<open>duplicate_node_names\<close> rejects them.\<close>

theorem fullpath_finds_node:
  assumes "path_names t" "nname (info t) = Some []"
  shows "\<exists>t'. fill_fullpaths t [] = Some t' \<and> ((\<forall>r. live_ref t r \<longrightarrow>
    (\<exists>n p. node_at t' r = Some n \<and> nfullpath (info n) = Some p \<and> get_node_by_ref t' p = Some (Some r))) \<longleftrightarrow> unique_siblings t)"
proof -
  obtain t' where t': "fill_fullpaths t [] = Some t'" using fill_total(1) [OF assms(1)] assms(2) by fastforce
  note paths = fill_paths [OF t']
  have "unique_siblings t" if f: "\<And>r. live_ref t r \<Longrightarrow> \<exists>n p. node_at t' r = Some n \<and> nfullpath (info n) = Some p \<and> get_node_by_ref t' p = Some (Some r)"
  proof (rule ccontr)
    assume "\<not> unique_siblings t"
    then obtain r s where rs: "r \<noteq> s" "live_ref t r" "live_ref t s" "path_from [] t r = path_from [] t s" using same_paths by blast
    have "get_node_by_ref t' (path_from [] t x) = Some (Some x)" if "live_ref t x" for x
      using paths [OF that] f [OF that] by auto
    then show False using rs by (metis option.inject)
  qed
  moreover have "\<exists>n p. node_at t' r = Some n \<and> nfullpath (info n) = Some p \<and> get_node_by_ref t' p = Some (Some r)"
    if "unique_siblings t" "live_ref t r" for r
    using paths [OF that(2)] fullpath_found [OF _ assms(2) t' that(2)] that(1) assms(1) paths_ok_both by blast
  ultimately show ?thesis using t' by blast
qed

definition sample_paths :: node where
  "sample_paths = Node (zero_info\<lparr>nname := Some []\<rparr>) []
     [Node (zero_info\<lparr>nname := Some (cstr ''soc'')\<rparr>) [] [Node (zero_info\<lparr>nname := Some (cstr ''uart@10'')\<rparr>) [] []]]"

theorem fullpath_finds_node_witness:
  "\<exists>t' n p. fill_fullpaths sample_paths [] = Some t' \<and> node_at t' [0, 0] = Some n \<and> nfullpath (info n) = Some p \<and>
     get_node_by_ref t' p = Some (Some [0, 0])"
proof -
  have "path_names sample_paths" "nname (info sample_paths) = Some []" by (simp_all add: sample_paths_def cstr_def)
  moreover have "unique_siblings sample_paths" "live_ref sample_paths [0, 0]" by (simp_all add: sample_paths_def zero_info_def)
  ultimately show ?thesis using fullpath_finds_node by blast
qed

end
