(* ===== verification/Dtc_Check_Props.thy ===== *)
theory Dtc_Check_Props
  imports Dtc_Check_Driver
begin

text \<open>
  What single checks of \<open>checks.c\<close> accept and where one does not end.
\<close>

section \<open>Arguments after a phandle\<close>

text \<open>The cell \<open>cl\<close> of a property refers to a node that says it takes \<open>0xffffffff\<close> cells.\<close>

definition endless_args :: "check_opts \<Rightarrow> property \<Rightarrow> provider \<Rightarrow> int \<Rightarrow> node \<Rightarrow> bool" where
  "endless_args opts p prov cl t \<longleftrightarrow> 0 \<le> cl \<and> cl < dlen (pval p) div 4 \<and> dlen (pval p) < 2 ^ 31 \<and>
     (\<exists>ph r n cp. propval_cell_n p cl = Some ph \<and> ph \<noteq> 0 \<and> ph \<noteq> UINT32_MAX \<and>
        get_node_by_phandle (copts opts) t ph = Some (Some r) \<and> node_at t r = Some n \<and>
        prop_of n (cell_name prov) = Some cp \<and> propval_cell cp = Some UINT32_MAX)"

lemma FAIL_PROP_root [simp]: "cdti (FAIL_PROP ref p text st) = cdti st" "cdti (FAIL ref text st) = cdti st"
  by (simp_all add: FAIL_PROP_def FAIL_def)

lemma endless_loop: "phandle_args_loop opts ref p prov cl st = Some st' \<Longrightarrow> \<not> endless_args opts p prov cl (root_of st)"
proof (erule phandle_args_loop.raw_induct [where P = "\<lambda>opts ref p prov cl st y. \<not> endless_args opts p prov cl (root_of st)", rotated])
  fix loop opts ref p prov cl st st'
  assume IH: "\<And>opts ref p prov cl st st'. loop opts ref p prov cl st = Some st' \<Longrightarrow> \<not> endless_args opts p prov cl (root_of st)"
    and step: "(if \<not> u64 cl < dlen (pval p) div 4 then Some st
      else do {
        phandle \<leftarrow> propval_cell_n p (u32 cl);
        if phandle = 0 \<or> phandle = UINT32_MAX then
          if dtsflags (cdti st) AND DTSF_PLUGIN \<noteq> 0 then Some st
          else loop opts ref p prov (s32 (cl + 1)) st
        else do {
          let st = (if dmarkers (pval p) \<noteq> [] \<and> \<not> phandle_marker_at p cl
                    then FAIL_PROP ref (Some p) ''cell %d is not a phandle reference'' st else st);
          r \<leftarrow> get_node_by_phandle (copts opts) (root_of st) phandle;
          (case r of
             None \<Rightarrow> Some (FAIL_PROP ref (Some p) ''Could not get phandle node for (cell %d)'' st)
           | Some provider_node \<Rightarrow> do {
               pn \<leftarrow> nd st provider_node;
               size \<leftarrow> (case prop_of pn (cell_name prov) of
                   Some cellprop \<Rightarrow> map_option (\<lambda>c. Some (s32 c)) (propval_cell cellprop)
                 | None \<Rightarrow> Some (if optional prov then Some 0 else None));
               (case size of
                  None \<Rightarrow> Some (FAIL ref ''Missing property '%s' in node %s or bad phandle (referred from %s[%d])'' st)
                | Some cellsize \<Rightarrow>
                    loop opts ref p prov (s32 (cl + (cellsize + 1)))
                      (if dlen (pval p) < u64 (s32 (cl + cellsize + 1) * 4)
                       then FAIL_PROP ref (Some p) ''property size (%d) too small for cell size %d'' st else st)) }) } }) = Some st'"
  show "\<not> endless_args opts p prov cl (root_of st)"
  proof
    assume "endless_args opts p prov cl (root_of st)"
    then obtain ph r n cp where e: "0 \<le> cl" "cl < dlen (pval p) div 4" "dlen (pval p) < 2 ^ 31" "propval_cell_n p cl = Some ph"
      "ph \<noteq> 0" "ph \<noteq> UINT32_MAX" "get_node_by_phandle (copts opts) (root_of st) ph = Some (Some r)" "node_at (root_of st) r = Some n"
      "prop_of n (cell_name prov) = Some cp" "propval_cell cp = Some UINT32_MAX" by (auto simp: endless_args_def)
    have u: "u64 cl = cl" "u32 cl = cl" "s32 cl = cl" "u64 (cl * 4) = cl * 4" using e(1-3) by (auto intro!: u64_id u32_id s32_id)
    have m: "s32 UINT32_MAX = - 1" by (simp add: s32_def)
    obtain st1 where "loop opts ref p prov cl st1 = Some st'" "root_of st1 = root_of st"
      using step e u m by (auto simp: nd_def Let_def split: if_splits)
    then show False using IH [of opts ref p prov cl st1] \<open>endless_args opts p prov cl (root_of st)\<close> by simp
  qed
qed

text \<open>C36: A specifier count of \<open>0xffffffff\<close> hangs the compiler. If the first cell of a property is the phandle of a
  node whose cell count property is \<open>0xffffffff\<close>, the check of the specifiers adds \<open>-1 + 1\<close> to its
  position: it never ends.\<close>

theorem phandle_args_endless:
  assumes "dlen (pval p) mod 4 = 0" "4 \<le> dlen (pval p)" "dlen (pval p) < 2 ^ 31" "propval_cell_n p 0 = Some ph" "ph \<noteq> 0" "ph \<noteq> UINT32_MAX"
    "get_node_by_phandle (copts opts) (root_of st) ph = Some (Some r)" "nd st r = Some n"
    "prop_of n (cell_name prov) = Some cp" "propval_cell cp = Some UINT32_MAX"
  shows "check_property_phandle_args opts ref p prov st = None"
proof -
  have "endless_args opts p prov 0 (root_of st)" using assms by (auto simp: endless_args_def nd_def)
  then have "phandle_args_loop opts ref p prov 0 st = None"
    using endless_loop by (cases "phandle_args_loop opts ref p prov 0 st") blast+
  moreover have "s32 (dlen (pval p)) = dlen (pval p)" using assms(2,3) by (intro s32_id) auto
  moreover have "is_multiple_of (dlen (pval p)) 4" using assms(1) by (simp add: is_multiple_of_def u64_def)
  ultimately show ?thesis by (simp add: check_property_phandle_args_def)
qed

definition clock_node :: node where
  "clock_node = Node (zero_info\<lparr>nname := Some [], nphandle := 1\<rparr>)
     [\<lparr>pdeleted = False, pname = cstr ''#clock-cells'', pval = \<lparr>dlen = 4, dval = replicate 4 (Some 0xff), dmarkers = []\<rparr>, plabels = []\<rparr>] []"

definition clock_prop :: property where
  "clock_prop = \<lparr>pdeleted = False, pname = cstr ''clocks'', pval = \<lparr>dlen = 4, dval = map Some [0, 0, 0, 1], dmarkers = []\<rparr>, plabels = []\<rparr>"

theorem phandle_args_endless_witness:
  "check_property_phandle_args plain_opts [] clock_prop \<lparr>prop_name = cstr ''clocks'', cell_name = cstr ''#clock-cells'', optional = False\<rparr>
     \<lparr>cdti = build_dt_info 1 [] clock_node 0, ccounter = 1, cfails = []\<rparr> = None"
proof (rule phandle_args_endless [where ph = 1 and r = "[]" and n = clock_node and cp = "hd (proplist clock_node)"])
  show "propval_cell_n clock_prop 0 = Some 1" "propval_cell (hd (proplist clock_node)) = Some UINT32_MAX" by code_simp+
qed (simp_all add: clock_prop_def clock_node_def build_dt_info_def nd_def get_node_by_phandle_def prop_of_def get_property_def zero_info_def)

section \<open>Addresses on an I2C bus\<close>

abbreviation i2c_reg :: "int \<Rightarrow> int" where
  "i2c_reg c \<equiv> without c I2C_OWN_SLAVE_ADDRESS"

lemma i2c_reg_nonneg: "0 \<le> c \<Longrightarrow> 0 \<le> i2c_reg c"
  by (simp add: without_def)

lemma i2c_address_fails:
  assumes "0 \<le> reg"
  shows "\<exists>fs. cfails (check_i2c_address ref p reg st) = cfails st @ fs \<and> (fs = [] \<longleftrightarrow> reg \<le> 0x7f)"
proof -
  have "without reg I2C_TEN_BIT_ADDRESS \<le> reg" unfolding without_def using assms by (rule AND_upper1)
  then show ?thesis by (auto simp: check_i2c_address_def FAIL_PROP_def)
qed

lemma i2c_loop:
  assumes "\<And>j. j < length regs \<Longrightarrow> cell_of p (k + int j) = Some (regs ! j)" "\<And>c. c \<in> set regs \<Longrightarrow> 0 \<le> c"
  shows "\<exists>st' fs. i2c_addresses_loop ref p k (4 * int (length regs)) st = Some st' \<and> cfails st' = cfails st @ fs \<and>
    (fs = [] \<longleftrightarrow> (\<forall>c \<in> set regs. i2c_reg c \<le> 0x7f))"
  using assms
proof (induction regs arbitrary: k st)
  case Nil
  then show ?case by (simp add: i2c_addresses_loop.simps)
next
  case (Cons c regs)
  have c: "cell_of p k = Some c" using Cons.prems(1) [of 0] by simp
  have r: "cell_of p (k + 1 + int j) = Some (regs ! j)" if "j < length regs" for j
    using Cons.prems(1) [of "Suc j"] that by (simp add: add.assoc)
  let ?st = "check_i2c_address ref p (i2c_reg c) st"
  obtain f1 where 1: "cfails ?st = cfails st @ f1" "f1 = [] \<longleftrightarrow> i2c_reg c \<le> 0x7f"
    using i2c_address_fails i2c_reg_nonneg Cons.prems(2) by (metis list.set_intros(1))
  obtain st' f2 where 2: "i2c_addresses_loop ref p (k + 1) (4 * int (length regs)) ?st = Some st'" "cfails st' = cfails ?st @ f2"
    "f2 = [] \<longleftrightarrow> (\<forall>c \<in> set regs. i2c_reg c \<le> 0x7f)"
    using Cons.IH [of "k + 1" ?st] r Cons.prems(2) by auto
  have "i2c_addresses_loop ref p k (4 * int (length (c # regs))) st = Some st'"
    using c 2(1) by (subst i2c_addresses_loop.simps) simp
  then show ?case using 1 2 by auto
qed

text \<open>C37: What the check of an I2C device accepts: the unit address is the first address in hexadecimal, and every address
  of \<open>reg\<close>, without the flag for the own address, is at most \<open>0x7f\<close>. So an address with
  \<open>I2C_TEN_BIT_ADDRESS\<close> (bit 31) is always reported, although the message tells the user to set this flag.\<close>

theorem check_i2c_bus_reg_accepts:
  assumes "nd st ref = Some n" "get_unitname n = Some u" "parent_on i2c_bus st ref = Some (Some par)" "prop_of n (cstr ''reg'') = Some p"
    "regs \<noteq> []" "dlen (pval p) = 4 * int (length regs)" "dlen (pval p) < 2 ^ 31"
    "\<forall>j < length regs. cell_of p (int j) = Some (regs ! j) \<and> 0 \<le> regs ! j"
  shows "\<exists>st'. check_i2c_bus_reg opts ref st = Some st' \<and>
    (cfails st' = cfails st \<longleftrightarrow> u = print_hex 0 (i2c_reg (hd regs)) \<and> (\<forall>c \<in> set regs. i2c_reg c \<le> 0x7f))"
proof -
  have c: "cell_of p 0 = Some (hd regs)" using assms(5,8) by (cases regs) auto
  then have nz: "dval (pval p) \<noteq> []" by (auto simp: cell_of_def load_cell_def peek_def)
  let ?st = "if u \<noteq> print_hex 0 (i2c_reg (hd regs)) then FAIL ref ''I2C bus unit address format error'' st else st"
  have "0 \<le> c" if "c \<in> set regs" for c using assms(8) that by (auto simp: in_set_conv_nth)
  then obtain st' fs where 1: "i2c_addresses_loop ref p 0 (4 * int (length regs)) ?st = Some st'" "cfails st' = cfails ?st @ fs"
    "fs = [] \<longleftrightarrow> (\<forall>c \<in> set regs. i2c_reg c \<le> 0x7f)"
    using i2c_loop [of regs p 0 ref ?st] assms(8) by auto
  have "s32 (dlen (pval p)) = 4 * int (length regs)" using assms(6,7) by (simp add: s32_id)
  then have "check_i2c_bus_reg opts ref st = Some st'"
    using assms(1-4) c nz 1(1) by (simp add: check_i2c_bus_reg_def Let_def)
  moreover have "cfails st' = cfails st \<longleftrightarrow> u = print_hex 0 (i2c_reg (hd regs)) \<and> fs = []" using 1(2) by (auto simp: FAIL_def)
  ultimately show ?thesis using 1(3) by auto
qed

definition i2c_device :: node where
  "i2c_device = Node (zero_info\<lparr>nname := Some (cstr ''dev@80000012''), nbasenamelen := 3\<rparr>)
     [\<lparr>pdeleted = False, pname = cstr ''reg'', pval = \<lparr>dlen = 4, dval = map Some [0x80, 0, 0, 0x12], dmarkers = []\<rparr>, plabels = []\<rparr>] []"

definition i2c_state :: chk_state where
  "i2c_state = \<lparr>cdti = build_dt_info 1 [] (Node (zero_info\<lparr>nname := Some [], nbus := Some i2c_bus\<rparr>) [] [i2c_device]) 0, ccounter = 1, cfails = []\<rparr>"

text \<open>The ten-bit address \<open>0x12\<close>: the check reports it.\<close>

theorem check_i2c_bus_reg_accepts_witness:
  "\<exists>st'. check_i2c_bus_reg plain_opts [0] i2c_state = Some st' \<and> cfails st' \<noteq> []"
proof -
  have "nd i2c_state [0] = Some i2c_device" "cfails i2c_state = []" "get_unitname i2c_device = Some (cstr ''80000012'')"
    "prop_of i2c_device (cstr ''reg'') = Some (hd (proplist i2c_device))"
    by code_simp+
  moreover have "\<exists>par. parent_on i2c_bus i2c_state [0] = Some (Some par)"
    by (simp add: parent_on_def parent_of_def i2c_state_def build_dt_info_def nd_def)
  moreover have "cell_of (hd (proplist i2c_device)) 0 = Some 0x80000012" by code_simp
  moreover have "dlen (pval (hd (proplist i2c_device))) = 4" by code_simp
  moreover have "\<not> i2c_reg 0x80000012 \<le> 0x7f" by code_simp
  ultimately show ?thesis
    using check_i2c_bus_reg_accepts [of i2c_state "[0]" i2c_device "cstr ''80000012''" _ "hd (proplist i2c_device)" "[0x80000012]" plain_opts] by auto
qed

end
