(* ===== verification/Tool_Util.thy ===== *)
theory Tool_Util
  imports Dtc_Util Fdt_Rw Fdt_Strerror
begin

text \<open>
  What the tools share of \<open>util.c\<close>: reading and writing blobs, the type argument, and printing values. A program that runs is a function of
  the files and arguments it gets; its result is what it returns, writes to standard output and to a file. Messages on standard error are left out.
\<close>

section \<open>Files\<close>

text \<open>The operating system: the error of opening a file for reading or its bytes, and the error of opening
  a file for writing, 0 when it succeeds. \<open>read\<close> returns what is asked for or what is left, \<open>write\<close> writes
  all. The bytes of fresh memory have the value \<open>fresh\<close> and an \<open>int\<close> without initialisation the value
  \<open>stack\<close>, whatever they are.\<close>

record system =
  infile :: "cstring \<Rightarrow> int + u8 list"
  outfile :: "cstring \<Rightarrow> int"
  fresh :: u8
  stack :: int

definition grow :: "system \<Rightarrow> u8 list \<Rightarrow> nat \<Rightarrow> u8 list" where
  "grow sys buf n = take n buf @ replicate (n - length buf) (fresh sys)"

text \<open>The loop of \<open>utilfdt_read_err\<close>: what has been read, what is left and the size of the buffer. The result is the buffer with
  its size.\<close>

function (sequential) read_file_loop :: "system \<Rightarrow> u8 list \<Rightarrow> u8 list \<Rightarrow> nat \<Rightarrow> u8 list \<times> nat" where
  "read_file_loop sys got rest bufsize =
     (let offset = length got;
          bufsize = (if offset = bufsize then 2 * bufsize else bufsize);
          chunk = take (bufsize - offset) rest
      in if chunk = [] then (grow sys got bufsize, bufsize)
         else read_file_loop sys (got @ chunk) (drop (bufsize - offset) rest) bufsize)"
  by pat_completeness auto
termination
  by (relation "measure (\<lambda>(sys, got, rest, bufsize). length rest)") (auto simp: Let_def neq_Nil_conv)

declare read_file_loop.simps [simp del]

definition utilfdt_read_err :: "system \<Rightarrow> cstring \<Rightarrow> int + (u8 list \<times> int)" where
  "utilfdt_read_err sys filename =
     (case infile sys filename of
        Inl errno \<Rightarrow> Inl errno
      | Inr bytes \<Rightarrow> let (buf, bufsize) = read_file_loop sys [] bytes 1024 in Inr (buf, int bufsize))"

definition utilfdt_read :: "system \<Rightarrow> cstring \<Rightarrow> (u8 list \<times> int) option" where
  "utilfdt_read sys filename = (case utilfdt_read_err sys filename of Inl ret \<Rightarrow> None | Inr r \<Rightarrow> Some r)"

text \<open>The result and what has been written to the file, if it could be opened.\<close>

definition utilfdt_write_err :: "system \<Rightarrow> cstring \<Rightarrow> blob \<Rightarrow> (int \<times> u8 list option) option" where
  "utilfdt_write_err sys filename b =
     (if filename \<noteq> cstr ''-'' \<and> outfile sys filename \<noteq> 0 then Some (outfile sys filename, None)
      else do {
        totalsize \<leftarrow> fdt_totalsize b;
        if 0 < s32 totalsize then do { xs \<leftarrow> rd b 0 (s32 totalsize); Some (0, Some xs) }
        else Some (0, Some []) })"

definition utilfdt_write :: "system \<Rightarrow> cstring \<Rightarrow> blob \<Rightarrow> (int \<times> u8 list option) option" where
  "utilfdt_write sys filename b = do {
     (ret, xs) \<leftarrow> utilfdt_write_err sys filename b;
     Some (if ret \<noteq> 0 then - 1 else 0, xs) }"

section \<open>Types and values on the command line\<close>

text \<open>A character of a string, with its NUL.\<close>

definition char_at :: "cstring \<Rightarrow> nat \<Rightarrow> u8" where
  "char_at s k = (if k < length s then s ! k else 0)"

text \<open>\<open>*type\<close> and \<open>*size\<close> are passed in and out; on failure they may or may not have been set.\<close>

definition utilfdt_decode_type :: "cstring \<Rightarrow> u8 \<Rightarrow> int \<Rightarrow> int \<times> u8 \<times> int" where
  "utilfdt_decode_type fmt type sz =
     (if char_at fmt 0 = 0 then (- 1, type, sz)
      else
        let sz = - 1;
            q = (char_at fmt 0 \<in> set (cstr ''hlLb''));
            doubled = (q \<and> char_at fmt 0 = char_at fmt 1);
            qualifier = (if \<not> q then 0 else if doubled \<and> char_at fmt 0 = chr (CHR ''h'') then chr (CHR ''b'') else char_at fmt 0);
            k = (if doubled then 2 else if q then 1 else 0);
            c = char_at fmt k
        in if c = 0 \<or> c \<notin> set (cstr ''iuxs'') then (- 1, type, sz)
           else
             let sz = (if c \<noteq> chr (CHR ''s'')
                       then (if qualifier = chr (CHR ''b'') then 1 else if qualifier = chr (CHR ''h'') then 2
                             else if qualifier = chr (CHR ''l'') then 4 else - 1)
                       else sz)
             in if char_at fmt (k + 1) \<noteq> 0 then (- 1, c, sz) else (0, c, sz))"

text \<open>A string inside a list of bytes, and the loop over the strings of a value.\<close>

definition string_at :: "u8 list \<Rightarrow> int \<Rightarrow> cstring option" where
  "string_at data s = (if s < 0 \<or> int (length data) < s \<or> 0 \<notin> set (drop (nat s) data) then None
     else Some (takeWhile (\<lambda>c. c \<noteq> 0) (drop (nat s) data)))"

partial_function (option) print_strings :: "u8 list \<Rightarrow> int \<Rightarrow> int \<Rightarrow> cstring option" where
  "print_strings data s len = do {
     x \<leftarrow> string_at data s;
     let s = s + cstrlen x + 1;
     let txt = cstr [CHR 0x22] @ x @ cstr [CHR 0x22];
     if s < len then do { rest \<leftarrow> print_strings data s len; Some (txt @ cstr '', '' @ rest) }
     else Some txt }"

definition cell_at :: "u8 list \<Rightarrow> nat \<Rightarrow> int option" where
  "cell_at data i = fdt32_ld \<lparr>blob_addr = 0, blob_mem = data\<rparr> (4 * int i)"

fun print_cells :: "u8 list \<Rightarrow> nat \<Rightarrow> nat \<Rightarrow> cstring option" where
  "print_cells data i 0 = Some []"
| "print_cells data i (Suc n) = do {
     x \<leftarrow> cell_at data i;
     rest \<leftarrow> print_cells data (Suc i) n;
     Some (cstr ''0x'' @ print_hex 8 x @ (if n \<noteq> 0 then cstr '' '' else []) @ rest) }"

fun print_bytes :: "u8 list \<Rightarrow> nat \<Rightarrow> nat \<Rightarrow> cstring option" where
  "print_bytes data i 0 = Some []"
| "print_bytes data i (Suc n) = do {
     x \<leftarrow> at data (int i);
     rest \<leftarrow> print_bytes data (Suc i) n;
     Some (print_hex 2 (uint x) @ (if n \<noteq> 0 then cstr '' '' else []) @ rest) }"

definition utilfdt_print_data :: "u8 list \<Rightarrow> int \<Rightarrow> cstring option" where
  "utilfdt_print_data data len =
     (if len = 0 then Some []
      else do {
        str \<leftarrow> util_is_printable_string data len;
        if str then do { x \<leftarrow> print_strings data 0 len; Some (cstr '' = '' @ x) }
        else if len mod 4 = 0 then do {
          x \<leftarrow> print_cells data 0 (nat (len div 4));
          Some (cstr '' = <'' @ x @ cstr ''>'') }
        else do {
          x \<leftarrow> print_bytes data 0 (nat len);
          Some (cstr '' = ['' @ x @ cstr '']'') } })"

declare print_strings.simps [code]

end
