(* ===== verification/Tool_Fdtget.thy ===== *)
theory Tool_Fdtget
  imports Tool_Util Fdt_Ro
begin

text \<open>
  The program \<open>fdtget.c\<close>.
\<close>

section \<open>\<open>fdtget\<close>: showing values\<close>

datatype display_mode = MODE_SHOW_VALUE | MODE_LIST_PROPS | MODE_LIST_SUBNODES

record display_info =
  dtype :: u8
  dsize :: int
  dmode :: display_mode
  default_val :: "cstring option"

text \<open>\<open>printf\<close> with the format \<open>%<type>\<close> and an \<open>int\<close>.\<close>

definition print_as :: "u8 \<Rightarrow> int \<Rightarrow> cstring" where
  "print_as type v =
     (if type = chr (CHR ''u'') then print_uint v
      else if type = chr (CHR ''x'') then print_hex 0 v
      else print_int (s32 v))"

definition show_value :: "u8 list \<Rightarrow> int \<Rightarrow> int \<Rightarrow> int option" where
  "show_value data i sz =
     (if sz = 4 then fdt32_ld \<lparr>blob_addr = 0, blob_mem = data\<rparr> i
      else if sz = 2 then do { a \<leftarrow> at data i; b \<leftarrow> at data (i + 1); Some (uint a * 256 + uint b) }
      else map_option uint (at data i))"

text \<open>The loop of \<open>show_cell_list\<close>; with a size that is not positive it would not move on.\<close>

partial_function (option) show_cells_loop :: "u8 \<Rightarrow> u8 list \<Rightarrow> int \<Rightarrow> int \<Rightarrow> int \<Rightarrow> cstring option" where
  "show_cells_loop type data i len sz =
     (if i < len then do {
        v \<leftarrow> show_value data i sz;
        rest \<leftarrow> show_cells_loop type data (i + sz) len sz;
        Some ((if i \<noteq> 0 then cstr '' '' else []) @ print_as type v @ rest) }
      else Some [])"

definition show_cell_list :: "display_info \<Rightarrow> u8 list \<Rightarrow> int \<Rightarrow> int \<Rightarrow> (int \<times> cstring) option" where
  "show_cell_list disp data len sz = do {
     txt \<leftarrow> show_cells_loop (if dtype disp \<noteq> 0 then dtype disp else chr (CHR ''d'')) data 0 len sz;
     Some (0, txt) }"

partial_function (option) show_strings_loop :: "u8 list \<Rightarrow> int \<Rightarrow> int \<Rightarrow> cstring option" where
  "show_strings_loop data s len =
     (if s < len then do {
        x \<leftarrow> string_at data s;
        rest \<leftarrow> show_strings_loop data (s + cstrlen x + 1) len;
        Some ((if s \<noteq> 0 then cstr '' '' else []) @ x @ rest) }
      else Some [])"

text \<open>The result and what goes to standard output. The remainder of \<open>%\<close> has the sign of the length in C; only whether it is 0 is looked at.\<close>

definition show_data :: "display_info \<Rightarrow> u8 list \<Rightarrow> int \<Rightarrow> (int \<times> cstring) option" where
  "show_data disp data len =
     (if len = 0 then Some (0, [])
      else do {
        is_string \<leftarrow> (if dtype disp = chr (CHR ''s'') then Some True
                     else if dtype disp = 0 then util_is_printable_string data len else Some False);
        if is_string then do {
          z \<leftarrow> at data (len - 1);
          if z \<noteq> 0 then Some (- 1, [])
          else do { txt \<leftarrow> show_strings_loop data 0 len; Some (0, txt) } }
        else if dsize disp = - 1 then show_cell_list disp data len (if len mod 4 = 0 then 4 else 1)
        else if dsize disp = 0 then None
        else if len mod dsize disp \<noteq> 0 then Some (- 1, [])
        else show_cell_list disp data len (dsize disp) })"

section \<open>\<open>fdtget\<close>: lists\<close>

definition text_at :: "blob \<Rightarrow> int \<Rightarrow> cstring option" where
  "text_at b p = string_at (blob_mem b) p"

text \<open>\<open>name\<close> keeps its value when \<open>fdt_getprop_by_offset\<close> does not set it; before the first property it has none.\<close>

definition prop_name_at :: "blob \<Rightarrow> int \<Rightarrow> ptr option \<Rightarrow> ptr option option" where
  "prop_name_at b prop name = do {
     (p, len) \<leftarrow> fdt_get_property_by_offset_i b prop;
     (v, nm, len) \<leftarrow> fdt_getprop_by_offset b prop;
     Some (if p = NULL then name else Some nm) }"

partial_function (option) list_properties_loop :: "blob \<Rightarrow> int \<Rightarrow> ptr option \<Rightarrow> cstring \<Rightarrow> (int \<times> cstring) option" where
  "list_properties_loop b prop name out =
     (if prop < 0 then Some (if prop = - FDT_ERR_NOTFOUND then 0 else prop, out)
      else do {
        name \<leftarrow> prop_name_at b prop name;
        nm \<leftarrow> name;
        txt \<leftarrow> (case nm of NULL \<Rightarrow> Some [] | Ptr p \<Rightarrow> map_option (\<lambda>x. x @ [10]) (text_at b p));
        prop \<leftarrow> fdt_next_property_offset b prop;
        list_properties_loop b prop name (out @ txt) })"

definition list_properties :: "blob \<Rightarrow> int \<Rightarrow> (int \<times> cstring) option" where
  "list_properties b node = do {
     prop \<leftarrow> fdt_first_property_offset b node;
     list_properties_loop b prop None [] }"

abbreviation (input) MAX_LEVEL :: int where "MAX_LEVEL \<equiv> 32"

definition subnode_text :: "blob \<Rightarrow> int \<Rightarrow> int \<Rightarrow> cstring option" where
  "subnode_text b node level = do {
     (pathp, len) \<leftarrow> fdt_get_name b node;
     if level \<le> 1 then do {
       txt \<leftarrow> (case pathp of NULL \<Rightarrow> Some (cstr ''/* NULL pointer error */'') | Ptr p \<Rightarrow> text_at b p);
       Some (if level = 1 then (if txt = [] then cstr ''/'' else txt) @ [10] else []) }
     else Some [] }"

partial_function (option) list_subnodes_loop :: "blob \<Rightarrow> int \<Rightarrow> int \<Rightarrow> cstring \<Rightarrow> (int \<times> cstring) option" where
  "list_subnodes_loop b node level out =
     (if level < 0 then Some (0, out)
      else do {
        (tag, nextoffset) \<leftarrow> fdt_next_tag b node;
        if tag = FDT_BEGIN_NODE then do {
          txt \<leftarrow> subnode_text b node level;
          if level + 1 \<ge> MAX_LEVEL then Some (1, out @ txt @ cstr ''Nested too deep, aborting.'' @ [10])
          else list_subnodes_loop b nextoffset (level + 1) (out @ txt) }
        else if tag = FDT_END_NODE then
          list_subnodes_loop b nextoffset (if level - 1 = 0 then - 1 else level - 1) out
        else if tag = FDT_END then Some (1, out)
        else if tag = FDT_PROP then list_subnodes_loop b nextoffset level out
        else Some (1, out @ (if level \<le> 1 then cstr ''Unknown tag 0x'' @ map (\<lambda>c. if 97 \<le> c then c - 32 else c) (print_hex 8 tag) @ [10] else [])) })"

definition list_subnodes :: "blob \<Rightarrow> int \<Rightarrow> (int \<times> cstring) option" where
  "list_subnodes b node = list_subnodes_loop b node 0 []"

section \<open>\<open>fdtget\<close>: the program\<close>

definition show_data_for_item :: "blob \<Rightarrow> display_info \<Rightarrow> int \<Rightarrow> cstring option \<Rightarrow> (int \<times> cstring) option" where
  "show_data_for_item b disp node property =
     (case dmode disp of
        MODE_LIST_PROPS \<Rightarrow> list_properties b node
      | MODE_LIST_SUBNODES \<Rightarrow> list_subnodes b node
      | MODE_SHOW_VALUE \<Rightarrow> do {
          property \<leftarrow> property;
          (v, len) \<leftarrow> fdt_getprop b node property;
          (case v of
             Ptr p \<Rightarrow> do {
               (err, txt) \<leftarrow> show_data disp (drop (nat p) (blob_mem b)) len;
               Some (if err \<noteq> 0 then (- 1, txt) else (0, txt @ [10])) }
           | NULL \<Rightarrow> Some (case default_val disp of Some d \<Rightarrow> (0, d @ [10]) | None \<Rightarrow> (- 1, []))) })"

text \<open>The loop over the arguments, \<open>args_per_step\<close> (1 or 2) at a time.\<close>

fun fdtget_loop :: "display_info \<Rightarrow> blob \<Rightarrow> cstring list \<Rightarrow> bool \<Rightarrow> cstring \<Rightarrow> (int \<times> cstring) option" where
  "fdtget_loop disp b [] pairs out = Some (0, out)"
| "fdtget_loop disp b (path # args) pairs out =
     (if pairs \<and> args = [] then Some (0, out)
      else do {
        let rest = (if pairs then tl args else args);
        node \<leftarrow> fdt_path_offset b path;
        if node < 0 then
          (case default_val disp of
             Some d \<Rightarrow> fdtget_loop disp b rest pairs (out @ d @ [10])
           | None \<Rightarrow> Some (- 1, out))
        else do {
          (err, txt) \<leftarrow> show_data_for_item b disp node (if pairs then Some (hd args) else None);
          if err \<noteq> 0 then Some (- 1, out @ txt)
          else fdtget_loop disp b rest pairs (out @ txt) } })"

definition do_fdtget :: "system \<Rightarrow> display_info \<Rightarrow> cstring \<Rightarrow> cstring list \<Rightarrow> bool \<Rightarrow> (int \<times> cstring) option" where
  "do_fdtget sys disp filename args pairs =
     (case utilfdt_read sys filename of
        None \<Rightarrow> Some (- 1, [])
      | Some (buf, len) \<Rightarrow> fdtget_loop disp \<lparr>blob_addr = 0, blob_mem = buf\<rparr> args pairs [])"

text \<open>The options \<open>getopt\<close> finds, in order; the other arguments follow. \<open>Inl\<close> is the message of \<open>usage\<close>, which ends the program.\<close>

datatype fdtget_option = opt_type cstring | opt_properties | opt_list | opt_default cstring

fun fdtget_options :: "fdtget_option list \<Rightarrow> display_info \<Rightarrow> bool \<Rightarrow> string + (display_info \<times> bool)" where
  "fdtget_options [] disp pairs = Inr (disp, pairs)"
| "fdtget_options (opt_type fmt # os) disp pairs =
     (let (ret, t, sz) = utilfdt_decode_type fmt (dtype disp) (dsize disp)
      in if ret \<noteq> 0 then Inl ''invalid type string'' else fdtget_options os (disp\<lparr>dtype := t, dsize := sz\<rparr>) pairs)"
| "fdtget_options (opt_properties # os) disp pairs = fdtget_options os (disp\<lparr>dmode := MODE_LIST_PROPS\<rparr>) False"
| "fdtget_options (opt_list # os) disp pairs = fdtget_options os (disp\<lparr>dmode := MODE_LIST_SUBNODES\<rparr>) False"
| "fdtget_options (opt_default d # os) disp pairs = fdtget_options os (disp\<lparr>default_val := Some d\<rparr>) pairs"

definition fdtget_main :: "system \<Rightarrow> fdtget_option list \<Rightarrow> cstring list \<Rightarrow> (string + int \<times> cstring) option" where
  "fdtget_main sys opts args =
     (case fdtget_options opts \<lparr>dtype = 0, dsize = - 1, dmode = MODE_SHOW_VALUE, default_val = None\<rparr> True of
        Inl msg \<Rightarrow> Some (Inl msg)
      | Inr (disp, pairs) \<Rightarrow>
          (case args of
             [] \<Rightarrow> Some (Inl ''missing filename'')
           | filename # args \<Rightarrow>
               if args = [] then Some (Inr (0, []))
               else if pairs \<and> odd (length args) then Some (Inl ''must have an even number of arguments'')
               else do {
                 (ret, out) \<leftarrow> do_fdtget sys disp filename args pairs;
                 Some (Inr (if ret \<noteq> 0 then 1 else 0, out)) }))"

declare show_cells_loop.simps [code] show_strings_loop.simps [code] list_properties_loop.simps [code] list_subnodes_loop.simps [code]

end
