(* ===== verification/Tool_Fdtput.thy ===== *)
theory Tool_Fdtput
  imports Tool_Util Fdt_Rw
begin

text \<open>
  The program \<open>fdtput.c\<close>.
\<close>

section \<open>\<open>fdtput\<close>: values\<close>

datatype oper_type = OPER_WRITE_PROP | OPER_CREATE_NODE | OPER_REMOVE_NODE | OPER_DELETE_PROP

record put_info =
  oper :: oper_type
  ptype :: u8
  psize :: int
  auto_path :: bool

text \<open>\<open>sscanf\<close> with the format \<open>%<type>\<close> for \<open>d\<close>, \<open>i\<close>, \<open>u\<close> or \<open>x\<close>, into an \<open>int\<close>; \<open>None\<close> when there is no number, so that
  nothing is stored.\<close>

definition hex_prefix :: "u8 \<Rightarrow> cstring \<Rightarrow> bool" where
  "hex_prefix type s \<longleftrightarrow> s \<noteq> [] \<and> hd s = chr (CHR ''0'') \<and> type \<in> set (cstr ''ix'') \<and> length s > 1 \<and> s ! 1 \<in> set (cstr ''xX'')"

definition scan_base :: "u8 \<Rightarrow> cstring \<Rightarrow> int" where
  "scan_base type s =
     (if type = chr (CHR ''x'') \<or> hex_prefix type s then 16
      else if type = chr (CHR ''i'') \<and> s \<noteq> [] \<and> hd s = chr (CHR ''0'') then 8 else 10)"

text \<open>The number is converted to a \<open>long\<close> or an \<open>unsigned long\<close>, which saturate, and stored in an \<open>int\<close>.\<close>

definition scan_result :: "u8 \<Rightarrow> int \<Rightarrow> int \<Rightarrow> int" where
  "scan_result type v sv =
     (if type \<in> set (cstr ''di'') then s32 (max (- 9223372036854775808) (min 9223372036854775807 sv))
      else s32 (if v > 18446744073709551615 then 18446744073709551615 else sv))"

definition scan_int :: "u8 \<Rightarrow> cstring \<Rightarrow> int option" where
  "scan_int type s =
     (let s1 = dropWhile isspace s;
          neg = (s1 \<noteq> [] \<and> hd s1 = chr (CHR ''-''));
          s2 = (if s1 \<noteq> [] \<and> (hd s1 = chr (CHR ''-'') \<or> hd s1 = chr (CHR ''+'')) then tl s1 else s1);
          base = scan_base type s2;
          ds = takeWhile (is_digit base) (if hex_prefix type s2 then drop 2 s2 else s2);
          v = foldl (\<lambda>a c. a * base + the (digit_value c)) 0 ds
      in if ds = [] \<and> \<not> hex_prefix type s2 then None
         else Some (scan_result type v (if neg then - v else v)))"

text \<open>The loop of \<open>encode_value\<close>: \<open>ival\<close> keeps its value when an argument is no number, and of an integer that is not four bytes long only
  the first byte is written.\<close>

fun encode_loop :: "system \<Rightarrow> put_info \<Rightarrow> cstring list \<Rightarrow> int \<Rightarrow> u8 list" where
  "encode_loop sys disp [] ival = []"
| "encode_loop sys disp (arg # args) ival =
     (if ptype disp = chr (CHR ''s'') then arg @ [0] @ encode_loop sys disp args ival
      else
        let len = (if psize disp = - 1 then 4 else psize disp);
            ival = (case scan_int (if ptype disp \<noteq> 0 then ptype disp else chr (CHR ''d'')) arg of Some v \<Rightarrow> v | None \<Rightarrow> ival)
        in (if len = 4 then bytes32 ival else word_of_int ival # replicate (nat len - 1) (fresh sys)) @ encode_loop sys disp args ival)"

definition encode_value :: "system \<Rightarrow> put_info \<Rightarrow> cstring list \<Rightarrow> u8 list \<times> int" where
  "encode_value sys disp args = (let v = encode_loop sys disp args (stack sys) in (v, int (length v)))"

section \<open>\<open>fdtput\<close>: changing the tree\<close>

definition ALIGN4 :: "int \<Rightarrow> int" where
  "ALIGN4 x = u64 (x + 4 - 1) AND NOT 3"

text \<open>The allocation gets the new size; the result of \<open>fdt_open_into\<close> is not looked at.\<close>

definition realloc_fdt :: "system \<Rightarrow> blob \<Rightarrow> int \<Rightarrow> blob option" where
  "realloc_fdt sys b delta = do {
     totalsize \<leftarrow> fdt_totalsize b;
     let new_sz = s32 (totalsize + delta);
     if new_sz < 0 then None
     else do {
       (err, m) \<leftarrow> fdt_open_into (b\<lparr>blob_mem := grow sys (blob_mem b) (nat new_sz)\<rparr>) 0 0 new_sz;
       Some m } }"

definition realloc_node :: "system \<Rightarrow> blob \<Rightarrow> cstring \<Rightarrow> blob option" where
  "realloc_node sys b name = realloc_fdt sys b (s32 (4 + ALIGN4 (cstrlen name + 1) + FDT_TAGSIZE))"

definition realloc_property :: "system \<Rightarrow> blob \<Rightarrow> int \<Rightarrow> cstring \<Rightarrow> int \<Rightarrow> blob option" where
  "realloc_property sys b nodeoffset name newlen = do {
     (prop, oldlen) \<leftarrow> fdt_get_property b nodeoffset name;
     let delta = (if prop = NULL then 12 + cstrlen name + 1 else 0);
     let delta = (if newlen > oldlen then s32 (delta + ALIGN4 newlen - ALIGN4 oldlen) else delta);
     realloc_fdt sys b delta }"

definition store_key_value :: "system \<Rightarrow> blob \<Rightarrow> cstring \<Rightarrow> cstring \<Rightarrow> u8 list \<Rightarrow> int \<Rightarrow> (int \<times> blob) option" where
  "store_key_value sys b node_name property buf len = do {
     node \<leftarrow> fdt_path_offset b node_name;
     if node < 0 then Some (- 1, b)
     else do {
       (err, b) \<leftarrow> fdt_setprop b node property buf len;
       (err, b) \<leftarrow> (if err = - FDT_ERR_NOSPACE then do {
                     b \<leftarrow> realloc_property sys b node property len;
                     fdt_setprop b node property buf len }
                   else Some (err, b));
       Some (if err \<noteq> 0 then - 1 else 0, b) } }"

text \<open>The loop of \<open>create_paths\<close>: the rest of the path, which starts with a component, and the node it is in.\<close>

function create_paths_loop :: "system \<Rightarrow> blob \<Rightarrow> cstring \<Rightarrow> int \<Rightarrow> (int \<times> blob) option" where
  "create_paths_loop sys b path offset = do {
     let comp = takeWhile (\<lambda>c. c \<noteq> chr (CHR ''/'')) path;
     node \<leftarrow> fdt_subnode_offset_namelen b offset path (cstrlen comp);
     (node, b) \<leftarrow> (if node = - FDT_ERR_NOTFOUND then do {
                    b \<leftarrow> realloc_node sys b path;
                    fdt_add_subnode_namelen b offset path (cstrlen comp) }
                  else Some (node, b));
     if node < 0 then Some (- 1, b)
     else if length comp = length path then Some (0, b)
     else create_paths_loop sys b (drop (Suc (length comp)) path) node }"
  by pat_completeness auto
termination
proof (relation "measure (\<lambda>(sys, b, path, offset). length path)")
  fix path comp :: cstring
  assume "comp = takeWhile (\<lambda>c. c \<noteq> chr (CHR ''/'')) path" "length comp \<noteq> length path"
  then have "length comp < length path" using length_takeWhile_le le_neq_implies_less by blast
  then show "((sys, b', drop (Suc (length comp)) path, node'), (sys', b, path, offset)) \<in> measure (\<lambda>(sys, b, path, offset). length path)"
    for sys b' node' sys' b offset by simp
qed simp

declare create_paths_loop.simps [simp del]

definition create_paths :: "system \<Rightarrow> blob \<Rightarrow> cstring \<Rightarrow> (int \<times> blob) option" where
  "create_paths sys b in_path =
     (let path = dropWhile (\<lambda>c. c = chr (CHR ''/'')) in_path
      in if path = [] then Some (0, b) else create_paths_loop sys b path 0)"

definition create_node :: "system \<Rightarrow> blob \<Rightarrow> cstring \<Rightarrow> (int \<times> blob) option" where
  "create_node sys b node_name =
     (case split_last (chr (CHR ''/'')) node_name of
        None \<Rightarrow> Some (- 1, b)
      | Some (parent, name) \<Rightarrow> do {
          b \<leftarrow> realloc_node sys b name;
          node \<leftarrow> (if parent \<noteq> [] then fdt_path_offset b parent else Some 0);
          if node < 0 then Some (- 1, b)
          else do {
            (node, b) \<leftarrow> fdt_add_subnode b node name;
            Some (if node < 0 then - 1 else 0, b) } })"

definition delete_prop :: "blob \<Rightarrow> cstring \<Rightarrow> cstring \<Rightarrow> (int \<times> blob) option" where
  "delete_prop b node_name prop_name = do {
     node \<leftarrow> fdt_path_offset b node_name;
     if node < 0 then Some (- 1, b)
     else do {
       (node, b) \<leftarrow> fdt_delprop b node prop_name;
       Some (if node < 0 then - 1 else 0, b) } }"

definition fdtput_delete_node :: "blob \<Rightarrow> cstring \<Rightarrow> (int \<times> blob) option" where
  "fdtput_delete_node b node_name = do {
     node \<leftarrow> fdt_path_offset b node_name;
     if node < 0 then Some (- 1, b)
     else do {
       (node, b) \<leftarrow> fdt_del_node b node;
       Some (if node < 0 then - 1 else 0, b) } }"

section \<open>\<open>fdtput\<close>: the program\<close>

text \<open>An operation on each argument, until one fails.\<close>

fun each_arg :: "(blob \<Rightarrow> cstring \<Rightarrow> (int \<times> blob) option) \<Rightarrow> cstring list \<Rightarrow> blob \<Rightarrow> (int \<times> blob) option" where
  "each_arg f [] b = Some (0, b)"
| "each_arg f (arg # args) b = do { (ret, b) \<leftarrow> f b arg; if ret \<ge> 0 then each_arg f args b else Some (ret, b) }"

definition put_oper :: "system \<Rightarrow> put_info \<Rightarrow> cstring list \<Rightarrow> blob \<Rightarrow> (int \<times> blob) option" where
  "put_oper sys disp args b =
     (case oper disp of
        OPER_WRITE_PROP \<Rightarrow>
          (case args of
             node # property # vals \<Rightarrow> do {
               (ret, b) \<leftarrow> (if auto_path disp then create_paths sys b node else Some (0, b));
               if ret \<noteq> 0 then Some (- 1, b)
               else let (v, len) = encode_value sys disp vals in store_key_value sys b node property v len }
           | _ \<Rightarrow> None)
      | OPER_CREATE_NODE \<Rightarrow> each_arg (if auto_path disp then create_paths sys else create_node sys) args b
      | OPER_REMOVE_NODE \<Rightarrow> each_arg fdtput_delete_node args b
      | OPER_DELETE_PROP \<Rightarrow>
          (case args of
             node # props \<Rightarrow> each_arg (\<lambda>b. delete_prop b node) props b
           | [] \<Rightarrow> None))"

text \<open>The result and what is written to the file. \<open>fdt_pack\<close> may fail; then the tree is written as it is.\<close>

definition do_fdtput :: "system \<Rightarrow> put_info \<Rightarrow> cstring \<Rightarrow> cstring list \<Rightarrow> (int \<times> u8 list option) option" where
  "do_fdtput sys disp filename args =
     (case utilfdt_read sys filename of
        None \<Rightarrow> Some (- 1, None)
      | Some (buf, len) \<Rightarrow> do {
          (ret, b) \<leftarrow> put_oper sys disp args \<lparr>blob_addr = 0, blob_mem = buf\<rparr>;
          if ret \<ge> 0 then do {
            (err, b) \<leftarrow> fdt_pack b;
            utilfdt_write sys filename b }
          else Some (ret, None) })"

datatype fdtput_option = put_create | put_remove | put_delete | put_auto_path | put_type cstring | put_verbose

fun fdtput_options :: "fdtput_option list \<Rightarrow> put_info \<Rightarrow> string + put_info" where
  "fdtput_options [] disp = Inr disp"
| "fdtput_options (put_create # os) disp = fdtput_options os (disp\<lparr>oper := OPER_CREATE_NODE\<rparr>)"
| "fdtput_options (put_remove # os) disp = fdtput_options os (disp\<lparr>oper := OPER_REMOVE_NODE\<rparr>)"
| "fdtput_options (put_delete # os) disp = fdtput_options os (disp\<lparr>oper := OPER_DELETE_PROP\<rparr>)"
| "fdtput_options (put_auto_path # os) disp = fdtput_options os (disp\<lparr>auto_path := True\<rparr>)"
| "fdtput_options (put_type fmt # os) disp =
     (let (ret, t, sz) = utilfdt_decode_type fmt (ptype disp) (psize disp)
      in if ret \<noteq> 0 then Inl ''Invalid type string'' else fdtput_options os (disp\<lparr>ptype := t, psize := sz\<rparr>))"
| "fdtput_options (put_verbose # os) disp = fdtput_options os disp"

definition fdtput_main :: "system \<Rightarrow> fdtput_option list \<Rightarrow> cstring list \<Rightarrow> (string + int \<times> u8 list option) option" where
  "fdtput_main sys opts args =
     (case fdtput_options opts \<lparr>oper = OPER_WRITE_PROP, ptype = 0, psize = - 1, auto_path = False\<rparr> of
        Inl msg \<Rightarrow> Some (Inl msg)
      | Inr disp \<Rightarrow>
          (case args of
             [] \<Rightarrow> Some (Inl ''missing filename'')
           | filename # args \<Rightarrow>
               if oper disp = OPER_WRITE_PROP \<and> length args < 1 then Some (Inl ''missing node'')
               else if oper disp = OPER_WRITE_PROP \<and> length args < 2 then Some (Inl ''missing property'')
               else if oper disp = OPER_DELETE_PROP \<and> length args < 1 then Some (Inl ''missing node'')
               else do {
                 (ret, file) \<leftarrow> do_fdtput sys disp filename args;
                 Some (Inr (if ret \<noteq> 0 then 1 else 0, file)) }))"

end
