(* ===== verification/Tool_Values.thy ===== *)
theory Tool_Values
  imports Tool_Fdtget Tool_Fdtput
begin

text \<open>
  Values on the command lines of the tools: numbers that are printed are read back, and \<open>fdtget\<close> shows what \<open>fdtput\<close> encodes.
\<close>

section \<open>Numbers on the command line\<close>

lemma digits_scan:
  assumes "2 \<le> b" "b \<le> 16"
  shows "takeWhile (is_digit (int b)) (digits b n) = digits b n" "dropWhile isspace (digits b n) = digits b n"
    "hd (digits b n) \<noteq> 45" "hd (digits b n) \<noteq> 43" "0x78 \<notin> set (digits b n)" "0x58 \<notin> set (digits b n)"
proof -
  have c: "is_digit (int b) c \<and> \<not> isspace c \<and> c \<notin> {43, 45, 0x78, 0x58}" if "c \<in> set (digits b n)" for c
  proof -
    obtain d where d: "d < b" "c = digit_char d" using digits_chars [OF assms(1) \<open>c \<in> set (digits b n)\<close>] by blast
    then show ?thesis using digit_char_facts [of d] assms(2) by (simp add: is_digit_def)
  qed
  show "takeWhile (is_digit (int b)) (digits b n) = digits b n" using c by (simp add: takeWhile_eq_all_conv)
  show "dropWhile isspace (digits b n) = digits b n" "hd (digits b n) \<noteq> 45" "hd (digits b n) \<noteq> 43"
    using c [of "hd (digits b n)"] by (cases "digits b n"; simp)+
  show "0x78 \<notin> set (digits b n)" "0x58 \<notin> set (digits b n)" using c by blast+
qed

lemma nth_in_digits: "1 < length (digits b n) \<Longrightarrow> digits b n ! 1 \<in> set (digits b n)"
  by simp

text \<open>Reading a sequence of digits, with or without a sign.\<close>

lemma scan_digits:
  assumes "ds \<noteq> []" and sp: "dropWhile isspace ds = ds" and sign: "hd ds \<noteq> 45" "hd ds \<noteq> 43" and x: "0x78 \<notin> set ds" "0x58 \<notin> set ds"
    and base: "base = (if type = chr (CHR ''x'') then 16 else if type = chr (CHR ''i'') \<and> hd ds = 48 then 8 else 10)"
    and tw: "takeWhile (is_digit base) ds = ds" and v: "foldl (\<lambda>a c. a * base + the (digit_value c)) 0 ds = v"
  shows "scan_int type ds = Some (scan_result type v v)" "scan_int type (45 # ds) = Some (scan_result type v (- v))"
proof -
  have h: "\<not> (1 < length ds \<and> ds ! 1 \<in> set (cstr ''xX''))" using x by (auto simp: cstr_def dest: nth_mem)
  then have hp: "hex_prefix type ds = False" by (auto simp: hex_prefix_def)
  then have b: "scan_base type ds = base" using base assms(1) by (simp add: scan_base_def)
  have i: "isspace 45 = False" by code_simp
  show "scan_int type ds = Some (scan_result type v v)"
    unfolding scan_int_def Let_def sp using assms(1) sign by (simp add: hp b tw v)
  show "scan_int type (45 # ds) = Some (scan_result type v (- v))"
    unfolding scan_int_def Let_def using assms(1) by (simp add: i hp b tw v)
qed

lemma scan_unsigned:
  assumes "type \<in> set (cstr ''ux'')" "b = (if type = chr (CHR ''x'') then 16 else 10)" "int n < 2 ^ 32"
  shows "scan_int type (digits b n) = Some (s32 (int n))"
proof -
  have b: "2 \<le> b" "b \<le> 16" using assms(2) by auto
  have base: "int b = (if type = chr (CHR ''x'') then 16 else if type = chr (CHR ''i'') \<and> hd (digits b n) = 48 then 8 else 10)"
    using assms(1,2) by (auto simp: cstr_def)
  have "scan_result type (int n) (int n) = s32 (int n)" using assms(1,3) by (auto simp: scan_result_def cstr_def)
  then show ?thesis using scan_digits(1) [OF digits_nonempty digits_scan(2-6) [OF b] base digits_scan(1) [OF b] digits_value [OF b]] by simp
qed

lemma scan_signed:
  assumes "- (2 ^ 31) \<le> v" "v < 2 ^ 31"
  shows "scan_int (chr (CHR ''i'')) (print_int v) = Some v"
proof (cases "v = 0")
  case True
  have "digits 10 0 = [48]" by (simp add: digits.simps [of 10 0] digit_char_def)
  moreover have "scan_int (chr (CHR ''i'')) [48] = Some 0" by code_simp
  ultimately show ?thesis using True by (simp add: print_int_def)
next
  case False
  have b: "(2::nat) \<le> 10" "(10::nat) \<le> 16" by simp_all
  define n where "n = nat \<bar>v\<bar>"
  have base: "int 10 = (if chr (CHR ''i'') = chr (CHR ''x'') then 16 else if chr (CHR ''i'') = chr (CHR ''i'') \<and> hd (digits 10 n) = 48 then 8 else 10)"
    using digits_hd [OF b, of n] False by (simp add: n_def)
  note s = scan_digits [OF digits_nonempty digits_scan(2-6) [OF b] base digits_scan(1) [OF b] digits_value [OF b]]
  have "print_int v = (if v < 0 then 45 # digits 10 n else digits 10 n)" "int n = (if v < 0 then - v else v)" by (auto simp: print_int_def n_def)
  moreover have "scan_result (chr (CHR ''i'')) (int n) v = v" using assms by (simp add: scan_result_def cstr_def s32_id)
  ultimately show ?thesis using s by (cases "v < 0") auto
qed

text \<open>A value of the range of an \<open>int\<close> is read as it was printed.\<close>

lemma scan_print:
  assumes "type \<in> set (cstr ''iux'')" "- (2 ^ 31) \<le> v" "v < 2 ^ 31"
  shows "scan_int type (print_as type v) = Some v"
proof -
  have r: "int (nat (u32 v)) < 2 ^ 32" "int (nat (u32 v)) = u32 v" using u32_range [of v] by simp_all
  have v: "s32 v = v" using assms(2,3) by (simp add: s32_id)
  consider "type = chr (CHR ''i'')" | "type = chr (CHR ''u'')" | "type = chr (CHR ''x'')" using assms(1) by (auto simp: cstr_def)
  then show ?thesis
  proof cases
    case 1
    then show ?thesis using scan_signed [OF assms(2,3)] v by (simp add: print_as_def)
  next
    case 2
    then show ?thesis using scan_unsigned [of type 10 "nat (u32 v)"] r v by (simp add: print_as_def print_uint_def cstr_def)
  next
    case 3
    then show ?thesis using scan_unsigned [of type 16 "nat (u32 v)"] r v by (simp add: print_as_def print_hex_def cstr_def)
  qed
qed

section \<open>Values\<close>

text \<open>The bytes of a value with one or four bytes, and the values that fit.\<close>

definition value_bytes :: "int \<Rightarrow> int \<Rightarrow> u8 list" where
  "value_bytes sz v = (if sz = 1 then [word_of_int v] else bytes32 v)"

definition fits :: "int \<Rightarrow> int \<Rightarrow> bool" where
  "fits sz v \<longleftrightarrow> (if sz = 1 then 0 \<le> v \<and> v < 256 else - (2 ^ 31) \<le> v \<and> v < 2 ^ 31)"

lemma fits_int: "fits sz v \<Longrightarrow> - (2 ^ 31) \<le> v \<and> v < 2 ^ 31"
  by (auto simp: fits_def split: if_splits)

lemma encode_ints:
  assumes "ptype disp \<in> set (cstr ''iux'')" "psize disp \<in> {- 1, 1, 4}" "\<forall>v \<in> set xs. fits (psize disp) v"
  shows "encode_loop sys disp (map (print_as (ptype disp)) xs) ival = concat (map (value_bytes (psize disp)) xs)"
  using assms(3)
proof (induction xs arbitrary: ival)
  case (Cons v xs)
  have t: "ptype disp \<noteq> chr (CHR ''s'')" "ptype disp \<noteq> 0" using assms(1) by (auto simp: cstr_def)
  have "scan_int (ptype disp) (print_as (ptype disp) v) = Some v" using scan_print [OF assms(1)] fits_int [of "psize disp" v] Cons.prems by simp
  then show ?case using Cons assms(2) t by (auto simp: Let_def value_bytes_def)
qed simp

lemma show_value_at:
  assumes "fits sz v" "w = (if sz = 1 then 1 else 4)"
  shows "\<exists>u. show_value (pre @ value_bytes sz v @ rest) (int (length pre)) w = Some u \<and> print_as type u = print_as type v"
proof (cases "sz = 1")
  case True
  have "at (pre @ word_of_int v # rest) (int (length pre)) = Some (word_of_int v)" by (simp add: at_def)
  moreover have "uint (word_of_int v :: u8) = v" using assms(1) True by (simp add: fits_def uint_word_of_int)
  ultimately show ?thesis using True assms(2) by (simp add: show_value_def value_bytes_def)
next
  case False
  let ?b = "\<lparr>blob_addr = 0, blob_mem = pre @ bytes32 v @ rest\<rparr>"
  have "fdt32_ld ?b (int (length pre)) = Some (u32 v)"
    by (rule ld32_of_bytes32) (auto simp: ld8_def nth_append nat_add_distrib)
  moreover have "print_as type (u32 v) = print_as type v" by (simp add: print_as_def print_uint_def print_hex_def)
  ultimately show ?thesis using False assms(2) by (simp add: show_value_def value_bytes_def)
qed

abbreviation spaced :: "cstring list \<Rightarrow> cstring" where
  "spaced xs \<equiv> concat (map (\<lambda>x. chr (CHR '' '') # x) xs)"

lemma show_cells:
  assumes "w = (if sz = 1 then 1 else 4)" "\<forall>v \<in> set xs. fits sz v"
  shows "show_cells_loop type (pre @ concat (map (value_bytes sz) xs) @ rest) (int (length pre)) (int (length pre) + w * int (length xs)) w =
    Some ((if pre = [] then tl else id) (spaced (map (print_as type) xs)))"
  using assms(2)
proof (induction xs arbitrary: pre)
  case Nil
  then show ?case by (subst show_cells_loop.simps) simp
next
  case (Cons v xs)
  let ?r = "concat (map (value_bytes sz) xs) @ rest"
  obtain u where u: "show_value (pre @ value_bytes sz v @ ?r) (int (length pre)) w = Some u" "print_as type u = print_as type v"
    using show_value_at [OF _ assms(1)] Cons.prems by (metis list.set_intros(1))
  have l: "int (length (value_bytes sz v)) = w" using assms(1) by (simp add: value_bytes_def)
  then have n: "value_bytes sz v \<noteq> []" using assms(1) by (auto split: if_splits)
  have ih: "show_cells_loop type ((pre @ value_bytes sz v) @ ?r) (int (length (pre @ value_bytes sz v)))
      (int (length (pre @ value_bytes sz v)) + w * int (length xs)) w = Some (spaced (map (print_as type) xs))"
    using Cons.IH [of "pre @ value_bytes sz v"] Cons.prems n by simp
  have "int (length pre) < int (length pre) + w * int (length (v # xs))" using assms(1) by (simp add: zero_less_mult_iff)
  then show ?case using ih u l
    by (subst show_cells_loop.simps) (simp add: cstr_def algebra_simps)
qed

lemma value_bytes_length: "sz \<in> {- 1, 1, 4} \<Longrightarrow> int (length (concat (map (value_bytes sz) xs))) = (if sz = 1 then 1 else 4) * int (length xs)"
  by (induction xs) (auto simp: value_bytes_def algebra_simps)

lemma show_data_cells:
  assumes "dtype get = t" "t \<noteq> chr (CHR ''s'')" "t \<noteq> 0"
    "dsize get = - 1 \<and> len mod 4 = 0 \<and> w = 4 \<or> dsize get = w \<and> 0 < w \<and> len mod w = 0" "show_cells_loop t data 0 len w = Some txt" "len \<noteq> 0"
  shows "show_data get data len = Some (0, txt)"
  using assms by (auto simp: show_data_def show_cell_list_def)

text \<open>What \<open>fdtput\<close> stores, \<open>fdtget\<close> shows: numbers that are given in the format of a type (\<open>i\<close>, \<open>u\<close> or \<open>x\<close>) and fit
  into the size (one byte, or four bytes, the default) are encoded such that \<open>fdtget\<close> with the same type and size
  prints exactly these numbers, with spaces between them. The numbers may be negative for type \<open>i\<close>.\<close>

lemma fdtput_values_shown:
  assumes "ptype put \<in> set (cstr ''iux'')" "psize put \<in> {- 1, 1, 4}" "dtype get = ptype put" "dsize get = psize put"
    "\<forall>v \<in> set (v # vs). fits (psize put) v"
  shows "\<exists>bytes len. encode_value sys put (map (print_as (ptype put)) (v # vs)) = (bytes, len) \<and>
    show_data get (bytes @ rest) len = Some (0, print_as (ptype put) v @ spaced (map (print_as (ptype put)) vs))"
proof -
  let ?xs = "v # vs"
  let ?bytes = "concat (map (value_bytes (psize put)) ?xs)"
  define w :: int where "w = (if psize put = 1 then 1 else 4)"
  have e: "encode_value sys put (map (print_as (ptype put)) ?xs) = (?bytes, w * int (length ?xs))"
    using encode_ints [OF assms(1,2,5)] value_bytes_length [OF assms(2), of ?xs] unfolding encode_value_def w_def
    by (simp only: Let_def)
  have t: "ptype put \<noteq> chr (CHR ''s'')" "ptype put \<noteq> 0" using assms(1) by (auto simp: cstr_def)
  have s: "show_cells_loop (ptype put) (?bytes @ rest) 0 (w * int (length ?xs)) w = Some (print_as (ptype put) v @ spaced (map (print_as (ptype put)) vs))"
    using show_cells [OF w_def assms(5), of "ptype put" "[]" rest] by simp
  have "show_data get (?bytes @ rest) (w * int (length ?xs)) = Some (0, print_as (ptype put) v @ spaced (map (print_as (ptype put)) vs))"
  proof (rule show_data_cells [OF _ _ _ _ s])
    show "dtype get = ptype put" "ptype put \<noteq> chr (CHR ''s'')" "ptype put \<noteq> 0" using assms(3) t by simp_all
    show "dsize get = - 1 \<and> w * int (length ?xs) mod 4 = 0 \<and> w = 4 \<or> dsize get = w \<and> 0 < w \<and> w * int (length ?xs) mod w = 0"
      using assms(2,4) by (auto simp: w_def)
  qed (simp add: w_def)
  then show ?thesis using e by blast
qed

text \<open>With two bytes per value only the first byte is written, with the low byte of the value; the second one is what the memory held.\<close>

lemma encode_two_bytes:
  "ptype put = chr (CHR ''x'') \<Longrightarrow> psize put = 2 \<Longrightarrow>
   encode_value sys put [cstr ''1234''] = ([0x34, fresh sys], 2)"
proof -
  have "scan_int (chr (CHR ''x'')) (cstr ''1234'') = Some 0x1234" by code_simp
  then show "ptype put = chr (CHR ''x'') \<Longrightarrow> psize put = 2 \<Longrightarrow> encode_value sys put [cstr ''1234''] = ([0x34, fresh sys], 2)"
    by (simp add: encode_value_def)
qed

end
