(* ===== verification/Tool_Fdtput_Props.thy ===== *)
theory Tool_Fdtput_Props
  imports Tool_Fdtput Fdt_Rw_Nodes Fdt_Pack_Props
begin

text \<open>
  The program \<^verbatim>\<open>fdtput.c\<close> as an operation on trees: reading the file, making space (\<open>realloc_fdt_tree\<close>), the four operations on the
  tree (\<open>put_oper_refines\<close>, three of them through the interface \<open>tree_operation\<close>), packing the blob and writing it.
\<close>

section \<open>More space\<close>

lemma hdr_bytes: "(\<And>q. 0 \<le> q \<Longrightarrow> q < 40 \<Longrightarrow> ld8 b' q = ld8 b q) \<Longrightarrow> hdr b' f = hdr b f"
  using ld32_cong [of "hdr_off f" b' b] hdr_off_range [of f] by (simp add: hdr_def fdt_get_header_def)

text \<open>The same bytes in another buffer.\<close>

lemma rebuffered:
  assumes b: "holds_tree b rs es" "8 dvd blob_addr b'" "\<And>q. 0 \<le> q \<Longrightarrow> q < hdr b H_totalsize \<Longrightarrow> ld8 b' q = ld8 b q" "hdr b H_totalsize \<le> blen b'"
  shows "holds_tree b' rs es" "hdr b' g = hdr b g"
proof -
  have l: "layout rs b" using b(1) by (simp add: holds_tree_def)
  note d = layoutD [OF l]
  have "40 \<le> hdr b H_totalsize" using d(4-7) hdr_bounds(1) [of b H_size_dt_struct] hdr_bounds(1) [of b H_size_dt_strings] by linarith
  then have h: "hdr b' g = hdr b g" for g by (intro hdr_bytes) (use b(3) in auto)
  show "hdr b' g = hdr b g" by (rule h)
  show "holds_tree b' rs es" by (rule resized [OF b(1,2)]) (use h b(3,4) d(7,8) in auto)
qed

lemma length_grow [simp]: "length (grow sys buf n) = n"
  by (auto simp: grow_def)

lemma realloc_fdt_tree:
  assumes b: "holds_tree b rs es" "0 \<le> delta" "hdr b H_totalsize + delta < INT_MAX"
  shows "\<exists>b'. realloc_fdt sys b delta = Some b' \<and> holds_tree b' rs es \<and> hdr b' H_totalsize = hdr b H_totalsize + delta \<and> data_end b' = data_end b"
proof -
  have l: "layout rs b" using b(1) by (simp add: holds_tree_def)
  note d = layoutD [OF l]
  let ?n = "hdr b H_totalsize + delta"
  let ?m = "b\<lparr>blob_mem := grow sys (blob_mem b) (nat ?n)\<rparr>"
  have t0: "0 \<le> hdr b H_totalsize" by simp
  have s: "s32 ?n = ?n" using b(2,3) t0 by (intro s32_id) linarith+
  have n0: "0 \<le> ?n" using t0 b(2) by linarith
  have ml: "blen ?m = ?n" using n0 by simp
  have "ld8 ?m q = ld8 b q" if "0 \<le> q" "q < hdr b H_totalsize" for q
    using that b(2) d(9) by (auto simp: ld8_def grow_def nth_append)
  note rb = rebuffered [OF b(1), of ?m, OF _ this]
  have h: "holds_tree ?m rs es" "\<And>g. hdr ?m g = hdr b g" using rb ml b(2) layout_aligned [OF l] by simp_all
  obtain b' where b': "fdt_open_into ?m 0 0 ?n = Some (0, b')" "holds_tree b' rs es" "hdr b' H_totalsize = ?n" "data_end b' = data_end ?m"
    by (rule open_into_tree [OF h(1), of ?n]) (use h(2) b(2,3) ml in auto)
  have "realloc_fdt sys b delta = Some b'" using s d(2) b'(1) n0 by (simp add: realloc_fdt_def Let_def)
  then show ?thesis using b'(2-4) h(2) by auto
qed

lemma ALIGN4_TAGALIGN: "0 \<le> x \<Longrightarrow> x < 0x80000000 \<Longrightarrow> ALIGN4 x = FDT_TAGALIGN x" "ALIGN4 (- 1) = 0"
proof -
  show "ALIGN4 x = FDT_TAGALIGN x" if "0 \<le> x" "x < 0x80000000"
    using that u64_id [of "3 + x"] by (simp add: ALIGN4_def FDT_ALIGN_def add.commute)
  show "ALIGN4 (- 1) = 0" by code_simp
qed

section \<open>Storing a property\<close>

lemma walk_tree_nonneg: "walk_tree cs 0 n es = Some (off, n', fs) \<Longrightarrow> 0 \<le> off"
proof -
  assume "walk_tree cs 0 n es = Some (off, n', fs)"
  then obtain pre where p: "off = 0 + items_size pre" using walk_tree_edit by blast
  have "0 \<le> item_size i" for i by (cases i) (auto intro!: add_nonneg_nonneg TAGALIGN_length(2) order_trans [OF _ TAGALIGN_length(4)])
  then have "0 \<le> items_size pre" by (induction pre) (simp_all add: add_nonneg_nonneg)
  then show ?thesis using p by simp
qed

lemma path_offset_tree:
  assumes "holds_tree b rs es"
  shows "walk_tree (components path) 0 [] es = Some (off, n, fs) \<Longrightarrow> fdt_path_offset b (chr (CHR ''/'') # path) = Some off"
    "walk_tree (components path) 0 [] es = None \<Longrightarrow> fdt_path_offset b (chr (CHR ''/'') # path) = Some (- FDT_ERR_NOTFOUND)"
  using reads_asD(1) [OF holds_tree_reads [OF assms], of path] by (simp_all add: child_offset_def)

lemma TAGALIGN_mono: "x \<le> y \<Longrightarrow> FDT_TAGALIGN x \<le> FDT_TAGALIGN y"
  unfolding FDT_ALIGN_4 by (intro mult_left_mono zdiv_mono1) simp_all

lemma realloc_property_need:
  assumes b: "holds_tree b rs es" "walk_tree cs 0 [] es = Some (off, n, fs)" "int (length w) < 0x40000000"
    "12 + FDT_TAGALIGN (int (length w)) + cstrlen s + 1 < INT_MAX" and need: "0 < setprop_need s w (own_props fs)"
  shows "realloc_property sys b off s (int (length w)) = realloc_fdt sys b (setprop_need s w (own_props fs))"
proof (cases "map_of (own_props fs) s")
  case None
  have g: "fdt_get_property b off s = Some (NULL, - FDT_ERR_NOTFOUND)" using get_property_tree [OF b(1,2), of s] None by simp
  let ?d = "12 + FDT_TAGALIGN (int (length w)) + cstrlen s + 1"
  have a: "ALIGN4 (int (length w)) = FDT_TAGALIGN (int (length w))" using b(3) by (intro ALIGN4_TAGALIGN(1)) auto
  have "s32 ?d = ?d" using s32_align(3) [of "int (length w)"] b(3,4) by (intro s32_id) linarith+
  then show ?thesis using g None a ALIGN4_TAGALIGN(2) by (simp add: realloc_property_def setprop_need_def Let_def algebra_simps)
next
  case (Some v)
  obtain p where g: "fdt_get_property b off s = Some (Ptr p, int (length v))" using get_property_tree [OF b(1,2), of s] Some by auto
  let ?d = "FDT_TAGALIGN (int (length w)) - FDT_TAGALIGN (int (length v))"
  have d: "0 < ?d" using need Some by (simp add: setprop_need_def)
  then have lt: "int (length v) < int (length w)" using TAGALIGN_mono [of "int (length w)" "int (length v)"] by linarith
  have a: "ALIGN4 (int (length w)) = FDT_TAGALIGN (int (length w))" "ALIGN4 (int (length v)) = FDT_TAGALIGN (int (length v))"
    using b(3) lt by (intro ALIGN4_TAGALIGN(1); linarith)+
  have "s32 ?d = ?d" using d s32_align(3) [of "int (length w)"] TAGALIGN_length(2) [of v] b(3) by (intro s32_id) auto
  then show ?thesis using g Some a lt by (simp add: realloc_property_def setprop_need_def Let_def)
qed

text \<open>The value is stored; where there is too little space, the blob grows.\<close>

lemma store_key_value_tree:
  assumes b: "holds_tree b rs es" "walk_tree (components path) 0 [] es = Some (off, n, fs)"
    and w: "int (length w) < 0x40000000" "0 \<notin> set s" "cstrlen s < 0x40000000"
    and sz: "hdr b H_totalsize + (12 + FDT_TAGALIGN (int (length w)) + cstrlen s + 1) < INT_MAX"
  shows "\<exists>b'. store_key_value sys b (chr (CHR ''/'') # path) s w (int (length w)) = Some (0, b') \<and>
    holds_tree b' rs (edit_tree (components path) (with_props (put_prop s w (own_props fs))) es)"
proof -
  let ?need = "setprop_need s w (own_props fs)"
  have po: "fdt_path_offset b (chr (CHR ''/'') # path) = Some off" "\<not> off < 0"
    using path_offset_tree(1) [OF b] walk_tree_nonneg [OF b(2)] by simp_all
  obtain err b1 where b1: "fdt_setprop b off s w (int (length w)) = Some (err, b1)"
    "if err = 0 then holds_tree b1 rs (edit_tree (components path) (with_props (put_prop s w (own_props fs))) es)
     else err = - FDT_ERR_NOSPACE \<and> holds_tree b1 rs es \<and> hdr b1 H_totalsize = hdr b H_totalsize \<and> hdr b H_totalsize < data_end b + ?need"
    using setprop_tree [OF b w] by blast
  show ?thesis
  proof (cases "err = 0")
    case True
    then show ?thesis using po b1 by (simp add: store_key_value_def)
  next
    case False
    then have e: "err = - FDT_ERR_NOSPACE" "holds_tree b1 rs es" "hdr b1 H_totalsize = hdr b H_totalsize" "hdr b H_totalsize < data_end b + ?need"
      using b1(2) by simp_all
    have l: "data_end b \<le> hdr b H_totalsize" "data_end b1 \<le> hdr b1 H_totalsize" using b(1) e(2) layoutD(7) by (auto simp: holds_tree_def)
    have n: "0 < ?need" using e(4) l(1) by linarith
    have le: "12 + FDT_TAGALIGN (int (length w)) + cstrlen s + 1 < INT_MAX" using sz hdr_bounds(1) [of b H_totalsize] by linarith
    have "?need \<le> 12 + FDT_TAGALIGN (int (length w)) + cstrlen s + 1"
    proof (cases "map_of (own_props fs) s")
      case (Some v)
      then show ?thesis using TAGALIGN_length(2) [of v] by (simp add: setprop_need_def)
    qed (simp add: setprop_need_def)
    then obtain b2 where b2: "realloc_fdt sys b1 ?need = Some b2" "holds_tree b2 rs es" "hdr b2 H_totalsize = hdr b1 H_totalsize + ?need" "data_end b2 = data_end b1"
      using realloc_fdt_tree [OF e(2), of ?need sys] n sz e(3) by auto
    obtain err' b3 where b3: "fdt_setprop b2 off s w (int (length w)) = Some (err', b3)"
      "if err' = 0 then holds_tree b3 rs (edit_tree (components path) (with_props (put_prop s w (own_props fs))) es)
       else err' = - FDT_ERR_NOSPACE \<and> holds_tree b3 rs es \<and> hdr b3 H_totalsize = hdr b2 H_totalsize \<and> hdr b2 H_totalsize < data_end b2 + ?need"
      using setprop_tree [OF b2(2) b(2) w] by blast
    have "err' = 0" using b3(2) b2(3,4) l(2) by (simp split: if_splits)
    then show ?thesis using po b1(1) e(1) b2(1) b3 realloc_property_need [OF e(2) b(2) w(1) le n] by (simp add: store_key_value_def)
  qed
qed

section \<open>Operations on trees\<close>

text \<open>An operation of \<open>fdtput\<close> that is applied to each argument, and what it does to trees: \<open>g\<close> is \<open>None\<close> where the operation fails.
  \<open>cost\<close> is the space that it may take.\<close>

fun fold_args :: "(entry list \<Rightarrow> cstring \<Rightarrow> entry list option) \<Rightarrow> cstring list \<Rightarrow> entry list \<Rightarrow> entry list option" where
  "fold_args g [] es = Some es"
| "fold_args g (arg # args) es = do { es \<leftarrow> g es arg; fold_args g args es }"

locale tree_operation =
  fixes f :: "blob \<Rightarrow> cstring \<Rightarrow> (int \<times> blob) option"
    and g :: "entry list \<Rightarrow> cstring \<Rightarrow> entry list option"
    and valid :: "cstring \<Rightarrow> bool"
    and cost :: "cstring \<Rightarrow> int"
  assumes cost_nonneg: "0 \<le> cost arg"
    and refines: "holds_tree b rs es \<Longrightarrow> valid arg \<Longrightarrow> hdr b H_totalsize + cost arg < INT_MAX \<Longrightarrow>
      (case g es arg of
         None \<Rightarrow> \<exists>r b'. f b arg = Some (r, b') \<and> r < 0
       | Some es' \<Rightarrow> \<exists>b'. f b arg = Some (0, b') \<and> holds_tree b' rs es' \<and> hdr b' H_totalsize \<le> hdr b H_totalsize + cost arg)"
begin

lemma sum_cost_nonneg: "0 \<le> sum_list (map cost args)"
  by (induction args) (simp_all add: cost_nonneg)

lemma each_arg_refines:
  "holds_tree b rs es \<Longrightarrow> list_all valid args \<Longrightarrow> hdr b H_totalsize + sum_list (map cost args) < INT_MAX \<Longrightarrow>
   (case fold_args g args es of
      None \<Rightarrow> \<exists>r b'. each_arg f args b = Some (r, b') \<and> r < 0
    | Some es' \<Rightarrow> \<exists>b'. each_arg f args b = Some (0, b') \<and> holds_tree b' rs es')"
proof (induction args arbitrary: b es)
  case (Cons arg args)
  have c: "hdr b H_totalsize + cost arg < INT_MAX" using Cons.prems(3) sum_cost_nonneg [of args] by simp
  note r = refines [OF Cons.prems(1) _ c]
  show ?case
  proof (cases "g es arg")
    case None
    then obtain ret b' where "f b arg = Some (ret, b')" "ret < 0" using r Cons.prems(2) by auto
    then show ?thesis using None by simp
  next
    case (Some es')
    then obtain b' where b': "f b arg = Some (0, b')" "holds_tree b' rs es'" "hdr b' H_totalsize \<le> hdr b H_totalsize + cost arg" using r Cons.prems(2) by auto
    have "hdr b' H_totalsize + sum_list (map cost args) < INT_MAX" using Cons.prems(3) b'(3) by simp
    then show ?thesis using Cons.IH [OF b'(2)] Cons.prems(2) b'(1) Some by (simp split: option.splits)
  qed
qed simp

end

text \<open>The paths that start at the root; others start with an alias.\<close>

definition from_root :: "cstring \<Rightarrow> bool" where
  "from_root path \<longleftrightarrow> path \<noteq> [] \<and> hd path = chr (CHR ''/'')"

lemma path_offset_from_root:
  assumes "holds_tree b rs es" "from_root path"
  shows "fdt_path_offset b path = Some (child_offset (walk_tree (components path) 0 [] es))"
proof -
  obtain p where p: "path = chr (CHR ''/'') # p" using assms(2) by (cases path) (auto simp: from_root_def)
  then have "components path = components p" by (simp add: components_def)
  then show ?thesis using reads_asD(1) [OF holds_tree_reads [OF assms(1)], of p] p by simp
qed

text \<open>Removing a node.\<close>

definition remove_path :: "entry list \<Rightarrow> cstring \<Rightarrow> entry list option" where
  "remove_path es path = (if walk_tree (components path) 0 [] es = None then None
     else Some (remove_node (butlast (components path)) (last (components path)) es))"

lemma delete_node_refines:
  assumes "holds_tree b rs es" "from_root path" "components path \<noteq> []"
  shows "case remove_path es path of
      None \<Rightarrow> \<exists>r b'. fdtput_delete_node b path = Some (r, b') \<and> r < 0
    | Some es' \<Rightarrow> \<exists>b'. fdtput_delete_node b path = Some (0, b') \<and> holds_tree b' rs es' \<and> hdr b' H_totalsize = hdr b H_totalsize"
proof (cases "walk_tree (components path) 0 [] es")
  case None
  then show ?thesis using path_offset_from_root [OF assms(1,2)] by (simp add: remove_path_def fdtput_delete_node_def child_offset_def)
next
  case (Some r)
  obtain off n fs where r: "r = (off, n, fs)" by (cases r)
  have w: "walk_tree (butlast (components path) @ [last (components path)]) 0 [] es = Some (off, n, fs)" using Some r assms(3) by simp
  show ?thesis using del_node_tree [OF assms(1) w] path_offset_from_root [OF assms(1,2)] Some r walk_tree_nonneg [OF w]
    by (auto simp: remove_path_def fdtput_delete_node_def child_offset_def)
qed

interpretation removing: tree_operation fdtput_delete_node remove_path "\<lambda>path. from_root path \<and> components path \<noteq> []" "\<lambda>_. 0"
  by unfold_locales (use delete_node_refines in \<open>fastforce split: option.splits\<close>)+

text \<open>Deleting a property.\<close>

definition delete_prop_at :: "cstring \<Rightarrow> entry list \<Rightarrow> cstring \<Rightarrow> entry list option" where
  "delete_prop_at path es s = (case walk_tree (components path) 0 [] es of
     None \<Rightarrow> None
   | Some (off, n, fs) \<Rightarrow> if map_of (own_props fs) s = None then None
       else Some (edit_tree (components path) (with_props (delete_first s (own_props fs))) es))"

lemma delete_prop_refines:
  assumes "holds_tree b rs es" "from_root path"
  shows "case delete_prop_at path es s of
      None \<Rightarrow> \<exists>r b'. delete_prop b path s = Some (r, b') \<and> r < 0
    | Some es' \<Rightarrow> \<exists>b'. delete_prop b path s = Some (0, b') \<and> holds_tree b' rs es' \<and> hdr b' H_totalsize = hdr b H_totalsize"
proof (cases "walk_tree (components path) 0 [] es")
  case None
  then show ?thesis using path_offset_from_root [OF assms] by (simp add: delete_prop_at_def delete_prop_def child_offset_def)
next
  case (Some r)
  obtain off n fs where r: "r = (off, n, fs)" by (cases r)
  note w = Some [unfolded r]
  show ?thesis using delprop_tree [OF assms(1) w, of s] path_offset_from_root [OF assms] w walk_tree_nonneg [OF w]
    by (cases "map_of (own_props fs) s") (auto simp: delete_prop_at_def delete_prop_def child_offset_def)
qed

interpretation deleting: tree_operation "\<lambda>b. delete_prop b path" "delete_prop_at path" "\<lambda>_. from_root path" "\<lambda>_. 0" for path
  by unfold_locales (use delete_prop_refines in \<open>fastforce split: option.splits\<close>)+

text \<open>Creating a node.\<close>

definition create_at :: "entry list \<Rightarrow> cstring \<Rightarrow> entry list option" where
  "create_at es path = (case split_last (chr (CHR ''/'')) path of
     None \<Rightarrow> None
   | Some (parent, name) \<Rightarrow>
       (case walk_tree (components parent) 0 [] es of
          None \<Rightarrow> None
        | Some (off, n, fs) \<Rightarrow> if find_child name (off + item_size (Begin n)) fs \<noteq> None then None
            else Some (edit_tree (components parent) (put_node name) es)))"

lemma split_last_SomeD:
  assumes "split_last c s = Some (p, n)"
  shows "s = p @ c # n" "c \<notin> set n"
proof -
  have c: "c \<in> set (rev s)" using assms by (auto simp: split_last_def split: if_splits)
  define tw where "tw = takeWhile (\<lambda>x. x \<noteq> c) (rev s)"
  have ntw: "c \<notin> set tw" by (auto simp: tw_def dest: set_takeWhileD)
  obtain r where "rev s = tw @ c # r"
  proof (cases "dropWhile (\<lambda>x. x \<noteq> c) (rev s)")
    case Nil
    then show ?thesis using c by (auto simp: dropWhile_eq_Nil_conv)
  next
    case (Cons x r)
    then have "x = c" using hd_dropWhile [of "\<lambda>x. x \<noteq> c" "rev s"] by simp
    then show ?thesis using that [of r] Cons takeWhile_dropWhile_id [of "\<lambda>x. x \<noteq> c" "rev s"] by (simp add: tw_def)
  qed
  from arg_cong [OF this, of rev] have s: "s = rev r @ c # rev tw" by simp
  have "p = take (length s - length tw - 1) s" "n = drop (length s - length tw) s" using assms c by (auto simp: split_last_def Let_def tw_def)
  then have "p = rev r" "n = rev tw" unfolding s by simp_all
  then show "s = p @ c # n" "c \<notin> set n" using s ntw by simp_all
qed

lemma create_node_refines:
  assumes b: "holds_tree b rs es" "from_root path" "0 \<notin> set path" "cstrlen path < 0x40000000"
    "hdr b H_totalsize + (8 + FDT_TAGALIGN (cstrlen path + 1)) < INT_MAX"
  shows "case create_at es path of
      None \<Rightarrow> \<exists>r b'. create_node sys b path = Some (r, b') \<and> r < 0
    | Some es' \<Rightarrow> \<exists>b'. create_node sys b path = Some (0, b') \<and> holds_tree b' rs es' \<and>
        hdr b' H_totalsize \<le> hdr b H_totalsize + (8 + FDT_TAGALIGN (cstrlen path + 1))"
proof (cases "split_last (chr (CHR ''/'')) path")
  case None
  then show ?thesis by (simp add: create_at_def create_node_def)
next
  case (Some r)
  obtain parent name where r: "r = (parent, name)" by (cases r)
  note sp = split_last_SomeD [OF Some [unfolded r]]
  have nm: "0 \<notin> set name" "cstrlen name < 0x40000000" "cstrlen name + 1 \<le> cstrlen path + 1" using b(3,4) sp(1) by auto
  let ?k = "8 + FDT_TAGALIGN (cstrlen name + 1)"
  have a: "ALIGN4 (cstrlen name + 1) = FDT_TAGALIGN (cstrlen name + 1)" using nm(2) by (intro ALIGN4_TAGALIGN(1)) auto
  have k: "0 \<le> ?k" "?k \<le> 8 + FDT_TAGALIGN (cstrlen path + 1)" using TAGALIGN_length(4) [of name] TAGALIGN_mono [OF nm(3)] by simp_all
  then have "s32 ?k = ?k" using b(5) hdr_bounds(1) [of b H_totalsize] by (intro s32_id) linarith+
  then have "realloc_node sys b name = realloc_fdt sys b ?k" using a by (simp add: realloc_node_def add.commute)
  then obtain b1 where b1: "realloc_node sys b name = Some b1" "holds_tree b1 rs es" "hdr b1 H_totalsize = hdr b H_totalsize + ?k" "data_end b1 = data_end b"
    using realloc_fdt_tree [OF b(1) k(1), of sys] k(2) b(5) by auto
  have po: "(if parent \<noteq> [] then fdt_path_offset b1 parent else Some 0) = Some (child_offset (walk_tree (components parent) 0 [] es))"
  proof (cases "parent = []")
    case False
    then have "from_root parent" using b(2) sp(1) by (cases parent) (auto simp: from_root_def)
    then show ?thesis using path_offset_from_root [OF b1(2)] False by simp
  qed (simp add: components_def child_offset_def)
  show ?thesis
  proof (cases "walk_tree (components parent) 0 [] es")
    case None
    then show ?thesis using Some r b1(1) po by (simp add: create_at_def create_node_def child_offset_def)
  next
    case (Some x)
    obtain off n fs where x: "x = (off, n, fs)" by (cases x)
    note w = Some [unfolded x] and sl = \<open>split_last _ path = Some r\<close>
    have de: "data_end b1 + ?k \<le> hdr b1 H_totalsize" using layoutD(7) [of rs b] b(1) b1(3,4) by (simp add: holds_tree_def)
    note add = add_subnode_tree [OF b1(2) w nm(1,2)]
    show ?thesis
    proof (cases "find_child name (off + item_size (Begin n)) fs")
      case None
      then obtain off' b2 where b2: "fdt_add_subnode b1 off name = Some (off', b2)" "hdr b2 H_totalsize = hdr b1 H_totalsize"
        "holds_tree b2 rs (edit_tree (components parent) (put_node name) es)"
        "walk_tree (components parent @ [name]) 0 [] (edit_tree (components parent) (put_node name) es) = Some (off', name, [])"
        using add de by auto
      then show ?thesis using None sl r b1(1,3) po w k(2) walk_tree_nonneg [OF w] walk_tree_nonneg [OF b2(4)]
        by (simp add: create_at_def create_node_def child_offset_def)
    next
      case (Some y)
      then show ?thesis using add sl r b1(1) po w walk_tree_nonneg [OF w] by (cases y) (simp add: create_at_def create_node_def child_offset_def)
    qed
  qed
qed

interpretation creating: tree_operation "create_node sys" create_at "\<lambda>path. from_root path \<and> 0 \<notin> set path \<and> cstrlen path < 0x40000000"
    "\<lambda>path. 8 + FDT_TAGALIGN (cstrlen path + 1)" for sys
proof unfold_locales
  show "0 \<le> 8 + FDT_TAGALIGN (cstrlen arg + 1)" for arg using TAGALIGN_length(4) [of arg] by linarith
qed (rule create_node_refines; simp)

section \<open>The program\<close>

lemma read_file_loop_bytes:
  "0 < n \<Longrightarrow> length got \<le> n \<Longrightarrow> \<exists>k. fst (read_file_loop sys got rest n) = got @ rest @ replicate k (fresh sys)"
proof (induction sys got rest n rule: read_file_loop.induct)
  case (1 sys got rest n)
  define m where "m = (if length got = n then 2 * n else n)"
  have m: "length got < m" "0 < m" using "1.prems" by (auto simp: m_def)
  let ?chunk = "take (m - length got) rest"
  have eq: "read_file_loop sys got rest n = (if ?chunk = [] then (grow sys got m, m)
      else read_file_loop sys (got @ ?chunk) (drop (m - length got) rest) m)"
    by (subst read_file_loop.simps) (simp only: Let_def m_def)
  show ?case
  proof (cases "?chunk = []")
    case True
    then have "rest = []" using m(1) by simp
    then show ?thesis using True eq m(1) by (auto simp: grow_def)
  next
    case False
    have "length (got @ ?chunk) \<le> m" using m(1) by simp
    then obtain k where "fst (read_file_loop sys (got @ ?chunk) (drop (m - length got) rest) m) =
        (got @ ?chunk) @ drop (m - length got) rest @ replicate k (fresh sys)"
      using "1.IH" [OF refl refl refl, folded m_def, OF False m(2)] by blast
    moreover have "?chunk @ drop (m - length got) rest @ replicate k (fresh sys) = rest @ replicate k (fresh sys)"
      unfolding append_assoc [symmetric] append_take_drop_id ..
    ultimately show ?thesis unfolding eq using False by auto
  qed
qed

lemma utilfdt_read_bytes: "infile sys filename = Inr bytes \<Longrightarrow> \<exists>k len. utilfdt_read sys filename = Some (bytes @ replicate k (fresh sys), len)"
  using read_file_loop_bytes [of 1024 "[]" sys bytes]
  by (auto simp: utilfdt_read_def utilfdt_read_err_def split: prod.splits)

text \<open>Whatever the memory behind the file holds.\<close>

lemma read_holds_tree:
  assumes "holds_tree (file_blob bytes) rs es"
  shows "holds_tree (file_blob (bytes @ xs)) rs es" "hdr (file_blob (bytes @ xs)) g = hdr (file_blob bytes) g"
proof -
  have t: "hdr (file_blob bytes) H_totalsize \<le> int (length bytes)" using layoutD(9) assms by (fastforce simp: holds_tree_def)
  have "ld8 (file_blob (bytes @ xs)) q = ld8 (file_blob bytes) q" if "0 \<le> q" "q < hdr (file_blob bytes) H_totalsize" for q
  proof -
    have "nat q < length bytes" "q < int (length bytes)" using that t by linarith+
    then show ?thesis by (simp add: ld8_def nth_append)
  qed
  then show "holds_tree (file_blob (bytes @ xs)) rs es" "hdr (file_blob (bytes @ xs)) g = hdr (file_blob bytes) g"
    using rebuffered [OF assms, of "file_blob (bytes @ xs)"] t by simp_all
qed

text \<open>Reading a file, changing the tree, packing the blob and writing it.\<close>

lemma do_fdtput_file:
  assumes f: "infile sys filename = Inr bytes" "outfile sys filename = 0" "holds_tree (file_blob bytes) rs es"
    and op: "\<And>b. holds_tree b rs es \<Longrightarrow> hdr b H_totalsize = hdr (file_blob bytes) H_totalsize \<Longrightarrow>
      (case t of None \<Rightarrow> \<exists>r b'. put_oper sys disp args b = Some (r, b') \<and> r < 0
       | Some es' \<Rightarrow> \<exists>b'. put_oper sys disp args b = Some (0, b') \<and> holds_tree b' rs es')"
  shows "case t of None \<Rightarrow> \<exists>r. do_fdtput sys disp filename args = Some (r, None) \<and> r < 0
    | Some es' \<Rightarrow> \<exists>out. do_fdtput sys disp filename args = Some (0, Some out) \<and> holds_tree (file_blob out) rs es' \<and>
        hdr (file_blob out) H_totalsize = int (length out)"
proof -
  obtain k len where rd: "utilfdt_read sys filename = Some (bytes @ replicate k (fresh sys), len)" using utilfdt_read_bytes [OF f(1)] by blast
  let ?b = "file_blob (bytes @ replicate k (fresh sys))"
  have b: "holds_tree ?b rs es" "hdr ?b H_totalsize = hdr (file_blob bytes) H_totalsize" by (rule read_holds_tree [OF f(3)])+
  show ?thesis
  proof (cases t)
    case None
    then obtain r b' where "put_oper sys disp args ?b = Some (r, b')" "r < 0" using op [OF b] by auto
    then show ?thesis using None rd by (simp add: do_fdtput_def)
  next
    case (Some es')
    then obtain b1 where b1: "put_oper sys disp args ?b = Some (0, b1)" "holds_tree b1 rs es'" using op [OF b] by auto
    obtain b2 where b2: "fdt_pack b1 = Some (0, b2)" "holds_tree b2 rs es'" using pack_tree [OF b1(2)] by blast
    have l: "layout rs b2" using b2(2) by (simp add: holds_tree_def)
    note d = layoutD [OF l]
    let ?T = "hdr b2 H_totalsize" let ?out = "take (nat ?T) (blob_mem b2)"
    have T: "0 < ?T" using d(4-7) hdr_bounds(1) [of b2 H_size_dt_struct] hdr_bounds(1) [of b2 H_size_dt_strings] by linarith
    have s: "s32 ?T = ?T" using T d(8) by (intro s32_id) linarith+
    have "rd b2 0 ?T = Some ?out" using T d(9) by (simp add: rd_def)
    then have "do_fdtput sys disp filename args = Some (0, Some ?out)"
      using rd b1(1) b2(1) f(2) d(2) s T by (simp add: do_fdtput_def utilfdt_write_def utilfdt_write_err_def)
    moreover have "ld8 (file_blob ?out) q = ld8 b2 q" if "0 \<le> q" "q < ?T" for q using that d(9) by (simp add: ld8_def)
    then have "holds_tree (file_blob ?out) rs es'" "hdr (file_blob ?out) H_totalsize = ?T"
      using rebuffered [OF b2(2), of "file_blob ?out"] T d(9) by simp_all
    moreover have "int (length ?out) = ?T" using T d(9) by simp
    ultimately show ?thesis using Some by auto
  qed
qed

text \<open>What the four operations do to a tree, and what their arguments have to be.\<close>

definition put_tree :: "system \<Rightarrow> put_info \<Rightarrow> cstring list \<Rightarrow> entry list \<Rightarrow> entry list option" where
  "put_tree sys disp args es =
     (case oper disp of
        OPER_WRITE_PROP \<Rightarrow>
          (case args of
             node # property # vals \<Rightarrow>
               (case walk_tree (components node) 0 [] es of
                  None \<Rightarrow> None
                | Some (off, n, fs) \<Rightarrow>
                    Some (edit_tree (components node) (with_props (put_prop property (fst (encode_value sys disp vals)) (own_props fs))) es))
           | _ \<Rightarrow> None)
      | OPER_CREATE_NODE \<Rightarrow> fold_args create_at args es
      | OPER_REMOVE_NODE \<Rightarrow> fold_args remove_path args es
      | OPER_DELETE_PROP \<Rightarrow> fold_args (delete_prop_at (hd args)) (tl args) es)"

definition put_valid :: "system \<Rightarrow> put_info \<Rightarrow> cstring list \<Rightarrow> int \<Rightarrow> bool" where
  "put_valid sys disp args size0 =
     (case oper disp of
        OPER_WRITE_PROP \<Rightarrow>
          (case args of
             node # property # vals \<Rightarrow>
               let len = int (length (fst (encode_value sys disp vals)))
               in from_root node \<and> 0 \<notin> set property \<and> cstrlen property < 0x40000000 \<and> len < 0x40000000 \<and>
                  size0 + (12 + FDT_TAGALIGN len + cstrlen property + 1) < INT_MAX
           | _ \<Rightarrow> False)
      | OPER_CREATE_NODE \<Rightarrow>
          list_all (\<lambda>path. from_root path \<and> 0 \<notin> set path \<and> cstrlen path < 0x40000000) args \<and>
          size0 + sum_list (map (\<lambda>path. 8 + FDT_TAGALIGN (cstrlen path + 1)) args) < INT_MAX
      | OPER_REMOVE_NODE \<Rightarrow> list_all (\<lambda>path. from_root path \<and> components path \<noteq> []) args
      | OPER_DELETE_PROP \<Rightarrow> args \<noteq> [] \<and> from_root (hd args))"

lemma tree_total: "holds_tree b rs es \<Longrightarrow> hdr b H_totalsize < INT_MAX"
  using layoutD(8) [of rs b] by (simp add: holds_tree_def)

lemma write_prop_refines:
  assumes b: "holds_tree b rs es" "\<not> auto_path disp" "put_valid sys disp args (hdr b H_totalsize)" "oper disp = OPER_WRITE_PROP"
  shows "case put_tree sys disp args es of
      None \<Rightarrow> \<exists>r b'. put_oper sys disp args b = Some (r, b') \<and> r < 0
    | Some es' \<Rightarrow> \<exists>b'. put_oper sys disp args b = Some (0, b') \<and> holds_tree b' rs es'"
proof -
  obtain node s vals where a: "args = node # s # vals" using b(3,4) by (auto simp: put_valid_def split: list.splits)
  let ?w = "fst (encode_value sys disp vals)"
  have v: "from_root node" "0 \<notin> set s" "cstrlen s < 0x40000000" "int (length ?w) < 0x40000000"
    "hdr b H_totalsize + (12 + FDT_TAGALIGN (int (length ?w)) + cstrlen s + 1) < INT_MAX"
    using b(3) b(4) a by (simp_all add: put_valid_def Let_def)
  have e: "snd (encode_value sys disp vals) = int (length ?w)" by (simp add: encode_value_def Let_def)
  have call: "put_oper sys disp args b = store_key_value sys b node s ?w (int (length ?w))"
    using b(4) a b(2) e by (simp add: put_oper_def split_beta)
  obtain path where p: "node = chr (CHR ''/'') # path" using v(1) by (cases node) (auto simp: from_root_def)
  have c: "components node = components path" using p by (simp add: components_def)
  show ?thesis
  proof (cases "walk_tree (components path) 0 [] es")
    case None
    then show ?thesis using call p c path_offset_tree(2) [OF b(1) None] b(4) a by (simp add: put_tree_def store_key_value_def)
  next
    case (Some x)
    then show ?thesis using store_key_value_tree [OF b(1) _ v(4,2,3,5), of path] call p c b(4) a
      by (cases x) (simp add: put_tree_def)
  qed
qed

lemma put_oper_refines:
  assumes b: "holds_tree b rs es" "\<not> auto_path disp" "put_valid sys disp args (hdr b H_totalsize)"
  shows "case put_tree sys disp args es of
      None \<Rightarrow> \<exists>r b'. put_oper sys disp args b = Some (r, b') \<and> r < 0
    | Some es' \<Rightarrow> \<exists>b'. put_oper sys disp args b = Some (0, b') \<and> holds_tree b' rs es'"
proof (cases "oper disp")
  case OPER_WRITE_PROP
  then show ?thesis by (rule write_prop_refines [OF b])
next
  case OPER_CREATE_NODE
  then have c: "put_oper sys disp args b = each_arg (create_node sys) args b" "put_tree sys disp args es = fold_args create_at args es"
    using b(2) by (simp_all add: put_oper_def put_tree_def)
  show ?thesis unfolding c by (rule creating.each_arg_refines [OF b(1)]) (use b(3) OPER_CREATE_NODE in \<open>simp_all add: put_valid_def\<close>)
next
  case OPER_REMOVE_NODE
  then have c: "put_oper sys disp args b = each_arg fdtput_delete_node args b" "put_tree sys disp args es = fold_args remove_path args es"
    by (simp_all add: put_oper_def put_tree_def)
  show ?thesis unfolding c by (rule removing.each_arg_refines [OF b(1)]) (use b(3) OPER_REMOVE_NODE tree_total [OF b(1)] in \<open>simp_all add: put_valid_def\<close>)
next
  case OPER_DELETE_PROP
  then obtain node props where a: "args = node # props" "from_root node" using b(3) by (cases args) (auto simp: put_valid_def)
  then have c: "put_oper sys disp args b = each_arg (\<lambda>b. delete_prop b node) props b"
      "put_tree sys disp args es = fold_args (delete_prop_at node) props es"
    using OPER_DELETE_PROP by (simp_all add: put_oper_def put_tree_def)
  show ?thesis unfolding c by (rule deleting.each_arg_refines [OF b(1)]) (use a(2) tree_total [OF b(1)] in \<open>simp_all add: list_all_iff\<close>)
qed

lemma fdtput_tree:
  assumes "infile sys filename = Inr bytes" "outfile sys filename = 0" "holds_tree (file_blob bytes) rs es"
    and "\<not> auto_path disp" "put_valid sys disp args (hdr (file_blob bytes) H_totalsize)"
  shows "case put_tree sys disp args es of
      None \<Rightarrow> \<exists>r. do_fdtput sys disp filename args = Some (r, None) \<and> r < 0
    | Some es' \<Rightarrow> \<exists>out. do_fdtput sys disp filename args = Some (0, Some out) \<and> holds_tree (file_blob out) rs es' \<and>
        hdr (file_blob out) H_totalsize = int (length out) \<and> reads_as (file_blob out) [] es'"
proof -
  have "case put_tree sys disp args es of
      None \<Rightarrow> \<exists>r. do_fdtput sys disp filename args = Some (r, None) \<and> r < 0
    | Some es' \<Rightarrow> \<exists>out. do_fdtput sys disp filename args = Some (0, Some out) \<and> holds_tree (file_blob out) rs es' \<and>
        hdr (file_blob out) H_totalsize = int (length out)"
    by (rule do_fdtput_file [OF assms(1-3)]) (use put_oper_refines assms(4,5) in auto)
  then show ?thesis using holds_tree_reads by (auto split: option.splits)
qed

text \<open>C3: fdtput does to the tree in the file what it is asked for. On a file that holds a tree and a reserve map, with paths that
  start at the root and less than 2 GiB to store, the program either refuses, with a negative result and no file written, exactly where
  the operation makes no sense (a node or a property that is not there, a node to create that is), or succeeds and writes a blob
  without slack that holds the same reserve map and the changed tree: the property set (the blob grows when there is no space), the
  nodes created in front of the subnodes of their parents, the nodes removed, or the properties deleted. The new tree is what the
  read functions of libfdt find in the file.\<close>

theorem fdtput_refines_tree:
  assumes "infile sys filename = Inr bytes" "outfile sys filename = 0" "holds_tree (file_blob bytes) rs es"
    and "\<not> auto_path disp" "put_valid sys disp args (hdr (file_blob bytes) H_totalsize)"
  shows "case put_tree sys disp args es of
      None \<Rightarrow> \<exists>r. do_fdtput sys disp filename args = Some (r, None) \<and> r < 0
    | Some es' \<Rightarrow> \<exists>out. do_fdtput sys disp filename args = Some (0, Some out) \<and> holds_tree (file_blob out) rs es' \<and>
        hdr (file_blob out) H_totalsize = int (length out) \<and> reads_as (file_blob out) [] es'"
  by (rule fdtput_tree [OF assms])

theorem fdtput_refines_tree_witness:
  "\<exists>out. do_fdtput \<lparr>infile = (\<lambda>_. Inr (sample_rw 0)), outfile = (\<lambda>_. 0), fresh = 0, stack = 0\<rparr>
      \<lparr>oper = OPER_WRITE_PROP, ptype = 0, psize = - 1, auto_path = False\<rparr> (cstr ''x'') [cstr ''/a'', cstr ''b'', cstr ''7''] = Some (0, Some out) \<and>
    reads_as (file_blob out) [] [EProp (cstr ''reg'') [0x11, 0x22, 0x33, 0x44], ENode (cstr ''a'') [EProp (cstr ''b'') [0, 0, 0, 7]]]"
proof -
  let ?sys = "\<lparr>infile = (\<lambda>_. Inr (sample_rw 0)), outfile = (\<lambda>_. 0), fresh = 0, stack = 0\<rparr>"
  let ?disp = "\<lparr>oper = OPER_WRITE_PROP, ptype = 0, psize = - 1, auto_path = False\<rparr>" and ?args = "[cstr ''/a'', cstr ''b'', cstr ''7'']"
  have t: "put_tree ?sys ?disp ?args rw_tree =
      Some [EProp (cstr ''reg'') [0x11, 0x22, 0x33, 0x44], ENode (cstr ''a'') [EProp (cstr ''b'') [0, 0, 0, 7]]]" by code_simp
  have v: "put_valid ?sys ?disp ?args (hdr (file_blob (sample_rw 0)) H_totalsize)" by code_simp
  show ?thesis using fdtput_refines_tree [of ?sys "cstr ''x''" "sample_rw 0" "[]" rw_tree ?disp ?args] sample_holds(1) t v by auto
qed

end
