(* ===== verification/Tool_Fdtdump.thy ===== *)
theory Tool_Fdtdump
  imports Tool_Util Fdt_Rw
begin

text \<open>
  The program \<open>fdtdump.c\<close>.
\<close>

section \<open>\<open>fdtdump\<close>\<close>

definition tagname :: "int \<Rightarrow> cstring" where
  "tagname tag =
     (if tag = FDT_BEGIN_NODE then cstr ''FDT_BEGIN_NODE''
      else if tag = FDT_END_NODE then cstr ''FDT_END_NODE''
      else if tag = FDT_PROP then cstr ''FDT_PROP''
      else if tag = FDT_NOP then cstr ''FDT_NOP''
      else if tag = FDT_END then cstr ''FDT_END''
      else cstr ''FDT_???'')"

text \<open>The conversions \<open>%*s\<close> with an empty string, and \<open>%#x\<close>.\<close>

definition blanks :: "int \<Rightarrow> cstring" where
  "blanks width = replicate (nat \<bar>width\<bar>) (chr (CHR '' ''))"

definition hex_alt :: "int \<Rightarrow> cstring" where
  "hex_alt n = (if n = 0 then cstr ''0'' else cstr ''0x'' @ digits 16 (nat n))"

text \<open>\<open>dumpf\<close> writes only when debugging.\<close>

definition dumpf :: "bool \<Rightarrow> cstring \<Rightarrow> cstring" where
  "dumpf debug txt = (if debug then cstr ''// '' @ txt else [])"

definition hex_pos :: "int \<Rightarrow> cstring" where
  "hex_pos p = (let ds = digits 16 (nat (u64 p)) in replicate (4 - length ds) (chr (CHR ''0'')) @ ds)"

partial_function (option) dump_rsvmap :: "blob \<Rightarrow> int \<Rightarrow> cstring \<Rightarrow> cstring option" where
  "dump_rsvmap b p out = do {
     addr \<leftarrow> fdt64_ld b p;
     sz \<leftarrow> fdt64_ld b (p + 8);
     if addr = 0 \<and> sz = 0 then Some out
     else dump_rsvmap b (p + 16) (out @ cstr ''/memreserve/ '' @ hex_alt addr @ cstr '' '' @ hex_alt sz @ cstr '';'' @ [10]) }"

text \<open>\<open>PALIGN\<close> aligns addresses.\<close>

definition PALIGN :: "blob \<Rightarrow> int \<Rightarrow> int \<Rightarrow> int" where
  "PALIGN b p a = (u64 (blob_addr b + p + (a - 1)) AND NOT (a - 1)) - blob_addr b"

text \<open>The property whose header is at \<open>p\<close>: its text and the position behind it.\<close>

definition dump_prop :: "blob \<Rightarrow> bool \<Rightarrow> int \<Rightarrow> int \<Rightarrow> int \<Rightarrow> int \<Rightarrow> (cstring \<times> int) option" where
  "dump_prop b debug version off_str depth p = do {
     n \<leftarrow> fdt32_ld b p;
     let sz = s32 n;
     nameoff \<leftarrow> fdt32_ld b (p + 4);
     let s = off_str + nameoff;
     let t = (if version < 16 \<and> sz \<ge> 8 then PALIGN b (p + 8) 8 else p + 8);
     name \<leftarrow> string_at (blob_mem b) s;
     v \<leftarrow> (if 0 \<le> t \<and> t \<le> blen b then utilfdt_print_data (drop (nat t) (blob_mem b)) sz else None);
     Some (dumpf debug (hex_pos s @ cstr '': string: '' @ name @ [10]) @ dumpf debug (hex_pos t @ cstr '': value'' @ [10]) @
           blanks (depth * 4) @ name @ v @ cstr '';'' @ [10], PALIGN b (t + sz) 4) }"

partial_function (option) dump_struct_loop :: "blob \<Rightarrow> bool \<Rightarrow> int \<Rightarrow> int \<Rightarrow> int \<Rightarrow> int \<Rightarrow> cstring \<Rightarrow> cstring option" where
  "dump_struct_loop b debug version off_str depth p out = do {
     tag \<leftarrow> fdt32_ld b p;
     if tag = FDT_END then Some out
     else do {
       let out = out @ dumpf debug (hex_pos p @ cstr '': tag: 0x'' @ print_hex 8 tag @ cstr '' ('' @ tagname tag @ cstr '')'' @ [10]);
       let p = p + 4;
       if tag = FDT_BEGIN_NODE then do {
         s \<leftarrow> string_at (blob_mem b) p;
         dump_struct_loop b debug version off_str (depth + 1) (PALIGN b (p + cstrlen s + 1) 4)
           (out @ blanks (depth * 4) @ (if s = [] then cstr ''/'' else s) @ cstr '' {'' @ [10]) }
       else if tag = FDT_END_NODE then
         dump_struct_loop b debug version off_str (depth - 1) p (out @ blanks ((depth - 1) * 4) @ cstr ''};'' @ [10])
       else if tag = FDT_NOP then
         dump_struct_loop b debug version off_str depth p (out @ blanks (depth * 4) @ cstr ''// [NOP]'' @ [10])
       else if tag \<noteq> FDT_PROP then Some out
       else do {
         (txt, p) \<leftarrow> dump_prop b debug version off_str depth p;
         dump_struct_loop b debug version off_str depth p (out @ txt) } } }"

definition dump_header :: "blob \<Rightarrow> cstring option" where
  "dump_header b = do {
     magic \<leftarrow> fdt_magic b;
     totalsize \<leftarrow> fdt_totalsize b;
     off_dt \<leftarrow> fdt_off_dt_struct b;
     off_str \<leftarrow> fdt_off_dt_strings b;
     off_mem_rsvmap \<leftarrow> fdt_off_mem_rsvmap b;
     version \<leftarrow> fdt_version b;
     last_comp_version \<leftarrow> fdt_last_comp_version b;
     boot_cpuid_phys \<leftarrow> (if version \<ge> 2 then fdt_boot_cpuid_phys b else Some 0);
     size_dt_strings \<leftarrow> (if version \<ge> 3 then fdt_size_dt_strings b else Some 0);
     size_dt_struct \<leftarrow> (if version \<ge> 17 then fdt_size_dt_struct b else Some 0);
     Some (cstr ''/dts-v1/;'' @ [10] @
       cstr ''// magic:'' @ [9, 9] @ cstr ''0x'' @ print_hex 0 magic @ [10] @
       cstr ''// totalsize:'' @ [9, 9] @ cstr ''0x'' @ print_hex 0 totalsize @ cstr '' ('' @ print_uint totalsize @ cstr '')'' @ [10] @
       cstr ''// off_dt_struct:'' @ [9] @ cstr ''0x'' @ print_hex 0 off_dt @ [10] @
       cstr ''// off_dt_strings:'' @ [9] @ cstr ''0x'' @ print_hex 0 off_str @ [10] @
       cstr ''// off_mem_rsvmap:'' @ [9] @ cstr ''0x'' @ print_hex 0 off_mem_rsvmap @ [10] @
       cstr ''// version:'' @ [9, 9] @ print_uint version @ [10] @
       cstr ''// last_comp_version:'' @ [9] @ print_uint last_comp_version @ [10] @
       (if version \<ge> 2 then cstr ''// boot_cpuid_phys:'' @ [9] @ cstr ''0x'' @ print_hex 0 boot_cpuid_phys @ [10] else []) @
       (if version \<ge> 3 then cstr ''// size_dt_strings:'' @ [9] @ cstr ''0x'' @ print_hex 0 size_dt_strings @ [10] else []) @
       (if version \<ge> 17 then cstr ''// size_dt_struct:'' @ [9] @ cstr ''0x'' @ print_hex 0 size_dt_struct @ [10] else []) @ [10]) }"

definition dump_blob :: "blob \<Rightarrow> bool \<Rightarrow> cstring option" where
  "dump_blob b debug = do {
     out \<leftarrow> dump_header b;
     off_mem_rsvmap \<leftarrow> fdt_off_mem_rsvmap b;
     off_dt \<leftarrow> fdt_off_dt_struct b;
     off_str \<leftarrow> fdt_off_dt_strings b;
     version \<leftarrow> fdt_version b;
     out \<leftarrow> dump_rsvmap b off_mem_rsvmap out;
     dump_struct_loop b debug version off_str 0 off_dt out }"

abbreviation (input) MAX_VERSION :: int where "MAX_VERSION \<equiv> 17"

text \<open>The conditions are tried in order; a short buffer is not read.\<close>

definition valid_header :: "blob \<Rightarrow> int \<Rightarrow> bool option" where
  "valid_header b len =
     (if len < 40 then Some False
      else do {
        magic \<leftarrow> fdt_magic b; version \<leftarrow> fdt_version b; last_comp_version \<leftarrow> fdt_last_comp_version b;
        totalsize \<leftarrow> fdt_totalsize b; off_dt_struct \<leftarrow> fdt_off_dt_struct b; off_dt_strings \<leftarrow> fdt_off_dt_strings b;
        Some (\<not> (magic \<noteq> FDT_MAGIC \<or> version > MAX_VERSION \<or> last_comp_version > MAX_VERSION \<or>
                 totalsize \<ge> len \<or> off_dt_struct \<ge> len \<or> off_dt_strings \<ge> len)) })"

text \<open>The search for an embedded blob: its position, \<open>NULL\<close>, and what has been written on the way.\<close>

partial_function (option) scan_loop :: "cstring \<Rightarrow> bool \<Rightarrow> blob \<Rightarrow> int \<Rightarrow> int \<Rightarrow> cstring \<Rightarrow> (ptr \<times> cstring) option" where
  "scan_loop file_name debug b p endp out =
     (if endp - p \<ge> 4 then do {
        q \<leftarrow> memchr b p 0xd0 (endp - p - 4);
        (case q of
           NULL \<Rightarrow> Some (NULL, out)
         | Ptr p \<Rightarrow> do {
             magic \<leftarrow> fdt_magic (view b p);
             valid \<leftarrow> (if magic = FDT_MAGIC then valid_header (view b p) (endp - p) else Some False);
             if valid then Some (Ptr p, out)
             else scan_loop file_name debug b (p + 1) endp
               (out @ (if magic = FDT_MAGIC \<and> debug then file_name @ cstr '': skipping fdt magic at offset '' @ hex_alt p @ [10] else [])) }) }
      else Some (Ptr p, out))"

text \<open>\<open>Inl\<close> is the message of \<open>die\<close> or \<open>usage\<close>.\<close>

definition fdtdump_main :: "system \<Rightarrow> bool \<Rightarrow> bool \<Rightarrow> cstring list \<Rightarrow> (string + cstring) option" where
  "fdtdump_main sys debug scan args =
     (case args of
        [file_name] \<Rightarrow>
          (case utilfdt_read sys file_name of
             None \<Rightarrow> Some (Inl ''could not read'')
           | Some (buf, len) \<Rightarrow> do {
               let b = \<lparr>blob_addr = 0, blob_mem = buf\<rparr>;
               if scan then do {
                 (q, out) \<leftarrow> scan_loop file_name debug b 0 len [];
                 (case q of
                    NULL \<Rightarrow> Some (Inl ''could not locate fdt magic'')
                  | Ptr p \<Rightarrow>
                      if len - p < 40 then Some (Inl ''could not locate fdt magic'')
                      else do {
                        txt \<leftarrow> dump_blob (view b p) debug;
                        Some (Inr (out @ file_name @ cstr '': found fdt at offset '' @ hex_alt p @ [10] @ txt)) }) }
               else do {
                 valid \<leftarrow> valid_header b len;
                 if \<not> valid then Some (Inl ''header is not valid'')
                 else map_option Inr (dump_blob b debug) } })
      | _ \<Rightarrow> Some (Inl ''missing input filename''))"

declare dump_rsvmap.simps [code] dump_struct_loop.simps [code] scan_loop.simps [code]

end
