(* ===== verification/Tool_Fdtoverlay.thy ===== *)
theory Tool_Fdtoverlay
  imports Tool_Util Fdt_Overlay
begin

text \<open>
  The program \<open>fdtoverlay.c\<close>.
\<close>

section \<open>\<open>fdtoverlay\<close>\<close>

abbreviation (input) BUF_INCREMENT :: int where "BUF_INCREMENT \<equiv> 65536"

text \<open>The copy of the base into the buffer \<open>tmp\<close>: both lie in one memory, each at an aligned address.\<close>

definition copy_base :: "system \<Rightarrow> u8 list \<Rightarrow> u8 list \<Rightarrow> int \<Rightarrow> (int \<times> u8 list) option" where
  "copy_base sys base tmp buf_len = do {
     let pad = replicate ((8 - length base mod 8) mod 8) (fresh sys);
     let pos = length base + length pad;
     (ret, m) \<leftarrow> fdt_open_into \<lparr>blob_addr = 0, blob_mem = base @ pad @ tmp\<rparr> 0 (int pos) (s32 buf_len);
     Some (ret, drop pos (blob_mem m)) }"

partial_function (option) apply_loop :: "system \<Rightarrow> u8 list \<Rightarrow> u8 list \<Rightarrow> u8 list \<Rightarrow> int \<Rightarrow> (u8 list option \<times> int) option" where
  "apply_loop sys base overlay tmp buf_len = do {
     let tmp = grow sys tmp (nat buf_len);
     (ret, tmp) \<leftarrow> copy_base sys base tmp buf_len;
     if ret \<noteq> 0 then Some (None, buf_len)
     else do {
       totalsize \<leftarrow> fdt_totalsize \<lparr>blob_addr = 0, blob_mem = overlay\<rparr>;
       tmpo \<leftarrow> rd \<lparr>blob_addr = 0, blob_mem = overlay\<rparr> 0 totalsize;
       (ret, t, ov) \<leftarrow> fdt_overlay_apply \<lparr>blob_addr = 0, blob_mem = tmp\<rparr> \<lparr>blob_addr = 0, blob_mem = tmpo\<rparr>;
       if ret = - FDT_ERR_NOSPACE then apply_loop sys base overlay (blob_mem t) (buf_len + BUF_INCREMENT)
       else Some (if ret \<noteq> 0 then None else Some (blob_mem t), buf_len) } }"

definition apply_one :: "system \<Rightarrow> u8 list \<Rightarrow> u8 list \<Rightarrow> int \<Rightarrow> (u8 list option \<times> int) option" where
  "apply_one sys base overlay buf_len = apply_loop sys base overlay [] buf_len"

text \<open>Reading the overlays: \<open>None\<close> when one cannot be read or its header says it is longer than the buffer it was read into.\<close>

definition read_complete :: "system \<Rightarrow> cstring \<Rightarrow> u8 list option option" where
  "read_complete sys filename =
     (case utilfdt_read sys filename of
        None \<Rightarrow> Some None
      | Some (buf, len) \<Rightarrow> do {
          totalsize \<leftarrow> fdt_totalsize \<lparr>blob_addr = 0, blob_mem = buf\<rparr>;
          Some (if totalsize > len then None else Some buf) })"

fun read_overlays :: "system \<Rightarrow> cstring list \<Rightarrow> u8 list list option option" where
  "read_overlays sys [] = Some (Some [])"
| "read_overlays sys (f # fs) = do {
     r \<leftarrow> read_complete sys f;
     (case r of
        None \<Rightarrow> Some None
      | Some ov \<Rightarrow> do { rest \<leftarrow> read_overlays sys fs; Some (map_option (\<lambda>ovs. ov # ovs) rest) }) }"

fun apply_all :: "system \<Rightarrow> u8 list \<Rightarrow> u8 list list \<Rightarrow> int \<Rightarrow> u8 list option option" where
  "apply_all sys base [] buf_len = Some (Some base)"
| "apply_all sys base (ov # ovs) buf_len = do {
     (r, buf_len) \<leftarrow> apply_one sys base ov buf_len;
     (case r of None \<Rightarrow> Some None | Some t \<Rightarrow> apply_all sys t ovs buf_len) }"

definition do_fdtoverlay :: "system \<Rightarrow> cstring \<Rightarrow> cstring \<Rightarrow> cstring list \<Rightarrow> (int \<times> u8 list option) option" where
  "do_fdtoverlay sys input_filename output_filename args = do {
     r \<leftarrow> read_complete sys input_filename;
     (case r of
        None \<Rightarrow> Some (- 1, None)
      | Some base \<Rightarrow> do {
          r \<leftarrow> read_overlays sys args;
          (case r of
             None \<Rightarrow> Some (- 1, None)
           | Some ovs \<Rightarrow> do {
               buf_len \<leftarrow> fdt_totalsize \<lparr>blob_addr = 0, blob_mem = base\<rparr>;
               r \<leftarrow> apply_all sys base ovs buf_len;
               (case r of
                  None \<Rightarrow> Some (- 1, None)
                | Some t \<Rightarrow> do {
                    (err, b) \<leftarrow> fdt_pack \<lparr>blob_addr = 0, blob_mem = t\<rparr>;
                    utilfdt_write sys output_filename b }) }) }) }"

definition fdtoverlay_main :: "system \<Rightarrow> cstring option \<Rightarrow> cstring option \<Rightarrow> cstring list \<Rightarrow> (string + int \<times> u8 list option) option" where
  "fdtoverlay_main sys input_filename output_filename args =
     (case input_filename of
        None \<Rightarrow> Some (Inl ''missing input file'')
      | Some input \<Rightarrow>
          (case output_filename of
             None \<Rightarrow> Some (Inl ''missing output file'')
           | Some output \<Rightarrow>
               if args = [] then Some (Inl ''missing overlay file(s)'')
               else do {
                 (ret, file) \<leftarrow> do_fdtoverlay sys input output args;
                 Some (Inr (if ret \<noteq> 0 then 1 else 0, file)) }))"

declare apply_loop.simps [code]

end
