(* ===== verification/Sim_Softfloat.thy ===== *)
theory Sim_Softfloat
  imports Main "HOL-Library.Word"
begin

text \<open>
  \<^verbatim>\<open>sim/dpi_softfloat.c\<close>: the functions the simulation calls to compute floating point results. The SoftFloat library is a parameter: a record of
  its rounding modes and functions, which read and change the library's global variables.
\<close>

section \<open>The library\<close>

record float32 = v32 :: "32 word"

record float64 = v64 :: "64 word"

text \<open>The global variables of the library.\<close>

record sf_globals =
  softfloat_roundingMode :: "8 word"
  softfloat_detectTininess :: "8 word"
  softfloat_exceptionFlags :: "8 word"

type_synonym 'a sf = "sf_globals \<Rightarrow> 'a \<times> sf_globals"

text \<open>What the file uses of \<^verbatim>\<open>softfloat.h\<close>. The conversions to integers return an \<open>int_fast32_t\<close> or \<open>uint_fast32_t\<close>, here \<open>int\<close>, and take the
  rounding mode and whether to raise \<open>inexact\<close>.\<close>

record softfloat =
  softfloat_round_near_even :: "8 word"
  softfloat_round_minMag :: "8 word"
  softfloat_round_min :: "8 word"
  softfloat_round_max :: "8 word"
  softfloat_round_near_maxMag :: "8 word"
  f32_add :: "float32 \<Rightarrow> float32 \<Rightarrow> float32 sf"
  f32_sub :: "float32 \<Rightarrow> float32 \<Rightarrow> float32 sf"
  f32_mul :: "float32 \<Rightarrow> float32 \<Rightarrow> float32 sf"
  f32_div :: "float32 \<Rightarrow> float32 \<Rightarrow> float32 sf"
  f64_add :: "float64 \<Rightarrow> float64 \<Rightarrow> float64 sf"
  f64_sub :: "float64 \<Rightarrow> float64 \<Rightarrow> float64 sf"
  f64_mul :: "float64 \<Rightarrow> float64 \<Rightarrow> float64 sf"
  f64_div :: "float64 \<Rightarrow> float64 \<Rightarrow> float64 sf"
  f32_mulAdd :: "float32 \<Rightarrow> float32 \<Rightarrow> float32 \<Rightarrow> float32 sf"
  f64_mulAdd :: "float64 \<Rightarrow> float64 \<Rightarrow> float64 \<Rightarrow> float64 sf"
  f32_sqrt :: "float32 \<Rightarrow> float32 sf"
  f64_sqrt :: "float64 \<Rightarrow> float64 sf"
  f64_to_f32 :: "float64 \<Rightarrow> float32 sf"
  f32_to_f64 :: "float32 \<Rightarrow> float64 sf"
  i32_to_f32 :: "32 word \<Rightarrow> float32 sf"
  ui32_to_f32 :: "32 word \<Rightarrow> float32 sf"
  i32_to_f64 :: "32 word \<Rightarrow> float64 sf"
  ui32_to_f64 :: "32 word \<Rightarrow> float64 sf"
  f32_to_i32 :: "float32 \<Rightarrow> 8 word \<Rightarrow> bool \<Rightarrow> int sf"
  f32_to_ui32 :: "float32 \<Rightarrow> 8 word \<Rightarrow> bool \<Rightarrow> int sf"
  f64_to_i32 :: "float64 \<Rightarrow> 8 word \<Rightarrow> bool \<Rightarrow> int sf"
  f64_to_ui32 :: "float64 \<Rightarrow> 8 word \<Rightarrow> bool \<Rightarrow> int sf"

section \<open>The functions of the simulation\<close>

definition get_softfloat_rm :: "softfloat \<Rightarrow> 8 word \<Rightarrow> 8 word" where
  "get_softfloat_rm sf rm =
     (if rm = 0 then softfloat_round_near_even sf
      else if rm = 1 then softfloat_round_minMag sf
      else if rm = 2 then softfloat_round_min sf
      else if rm = 3 then softfloat_round_max sf
      else if rm = 4 then softfloat_round_near_maxMag sf
      else softfloat_round_near_even sf)"

definition set_rm :: "softfloat \<Rightarrow> 8 word \<Rightarrow> sf_globals \<Rightarrow> sf_globals" where
  "set_rm sf rm s = s\<lparr>softfloat_roundingMode := get_softfloat_rm sf rm, softfloat_exceptionFlags := 0\<rparr>"

text \<open>Each function returns what it stores to \<open>*res\<close> and \<open>*fflags\<close>.\<close>

definition dpi_f32_add :: "softfloat \<Rightarrow> 32 word \<Rightarrow> 32 word \<Rightarrow> 8 word \<Rightarrow> (32 word \<times> 8 word) sf" where
  "dpi_f32_add sf a b rm s =
     (let s = set_rm sf rm s;
          fa = \<lparr>v32 = a\<rparr>; fb = \<lparr>v32 = b\<rparr>;
          (fres, s) = f32_add sf fa fb s
      in ((v32 fres, softfloat_exceptionFlags s), s))"

definition dpi_f32_sub :: "softfloat \<Rightarrow> 32 word \<Rightarrow> 32 word \<Rightarrow> 8 word \<Rightarrow> (32 word \<times> 8 word) sf" where
  "dpi_f32_sub sf a b rm s =
     (let s = set_rm sf rm s;
          fa = \<lparr>v32 = a\<rparr>; fb = \<lparr>v32 = b\<rparr>;
          (fres, s) = f32_sub sf fa fb s
      in ((v32 fres, softfloat_exceptionFlags s), s))"

definition dpi_f32_mul :: "softfloat \<Rightarrow> 32 word \<Rightarrow> 32 word \<Rightarrow> 8 word \<Rightarrow> (32 word \<times> 8 word) sf" where
  "dpi_f32_mul sf a b rm s =
     (let s = set_rm sf rm s;
          fa = \<lparr>v32 = a\<rparr>; fb = \<lparr>v32 = b\<rparr>;
          (fres, s) = f32_mul sf fa fb s
      in ((v32 fres, softfloat_exceptionFlags s), s))"

definition dpi_f32_div :: "softfloat \<Rightarrow> 32 word \<Rightarrow> 32 word \<Rightarrow> 8 word \<Rightarrow> (32 word \<times> 8 word) sf" where
  "dpi_f32_div sf a b rm s =
     (let s = set_rm sf rm s;
          fa = \<lparr>v32 = a\<rparr>; fb = \<lparr>v32 = b\<rparr>;
          (fres, s) = f32_div sf fa fb s
      in ((v32 fres, softfloat_exceptionFlags s), s))"

definition dpi_f64_add :: "softfloat \<Rightarrow> 64 word \<Rightarrow> 64 word \<Rightarrow> 8 word \<Rightarrow> (64 word \<times> 8 word) sf" where
  "dpi_f64_add sf a b rm s =
     (let s = set_rm sf rm s;
          fa = \<lparr>v64 = a\<rparr>; fb = \<lparr>v64 = b\<rparr>;
          (fres, s) = f64_add sf fa fb s
      in ((v64 fres, softfloat_exceptionFlags s), s))"

definition dpi_f64_sub :: "softfloat \<Rightarrow> 64 word \<Rightarrow> 64 word \<Rightarrow> 8 word \<Rightarrow> (64 word \<times> 8 word) sf" where
  "dpi_f64_sub sf a b rm s =
     (let s = set_rm sf rm s;
          fa = \<lparr>v64 = a\<rparr>; fb = \<lparr>v64 = b\<rparr>;
          (fres, s) = f64_sub sf fa fb s
      in ((v64 fres, softfloat_exceptionFlags s), s))"

definition dpi_f64_mul :: "softfloat \<Rightarrow> 64 word \<Rightarrow> 64 word \<Rightarrow> 8 word \<Rightarrow> (64 word \<times> 8 word) sf" where
  "dpi_f64_mul sf a b rm s =
     (let s = set_rm sf rm s;
          fa = \<lparr>v64 = a\<rparr>; fb = \<lparr>v64 = b\<rparr>;
          (fres, s) = f64_mul sf fa fb s
      in ((v64 fres, softfloat_exceptionFlags s), s))"

definition dpi_f64_div :: "softfloat \<Rightarrow> 64 word \<Rightarrow> 64 word \<Rightarrow> 8 word \<Rightarrow> (64 word \<times> 8 word) sf" where
  "dpi_f64_div sf a b rm s =
     (let s = set_rm sf rm s;
          fa = \<lparr>v64 = a\<rparr>; fb = \<lparr>v64 = b\<rparr>;
          (fres, s) = f64_div sf fa fb s
      in ((v64 fres, softfloat_exceptionFlags s), s))"

definition dpi_f32_mulAdd :: "softfloat \<Rightarrow> 32 word \<Rightarrow> 32 word \<Rightarrow> 32 word \<Rightarrow> 8 word \<Rightarrow> (32 word \<times> 8 word) sf" where
  "dpi_f32_mulAdd sf a b c rm s =
     (let s = set_rm sf rm s;
          fa = \<lparr>v32 = a\<rparr>; fb = \<lparr>v32 = b\<rparr>; fc = \<lparr>v32 = c\<rparr>;
          (fres, s) = f32_mulAdd sf fa fb fc s
      in ((v32 fres, softfloat_exceptionFlags s), s))"

definition dpi_f64_mulAdd :: "softfloat \<Rightarrow> 64 word \<Rightarrow> 64 word \<Rightarrow> 64 word \<Rightarrow> 8 word \<Rightarrow> (64 word \<times> 8 word) sf" where
  "dpi_f64_mulAdd sf a b c rm s =
     (let s = set_rm sf rm s;
          fa = \<lparr>v64 = a\<rparr>; fb = \<lparr>v64 = b\<rparr>; fc = \<lparr>v64 = c\<rparr>;
          (fres, s) = f64_mulAdd sf fa fb fc s
      in ((v64 fres, softfloat_exceptionFlags s), s))"

definition dpi_f32_sqrt :: "softfloat \<Rightarrow> 32 word \<Rightarrow> 8 word \<Rightarrow> (32 word \<times> 8 word) sf" where
  "dpi_f32_sqrt sf a rm s =
     (let s = set_rm sf rm s;
          fa = \<lparr>v32 = a\<rparr>;
          (fres, s) = f32_sqrt sf fa s
      in ((v32 fres, softfloat_exceptionFlags s), s))"

definition dpi_f64_sqrt :: "softfloat \<Rightarrow> 64 word \<Rightarrow> 8 word \<Rightarrow> (64 word \<times> 8 word) sf" where
  "dpi_f64_sqrt sf a rm s =
     (let s = set_rm sf rm s;
          fa = \<lparr>v64 = a\<rparr>;
          (fres, s) = f64_sqrt sf fa s
      in ((v64 fres, softfloat_exceptionFlags s), s))"

definition dpi_f64_to_f32 :: "softfloat \<Rightarrow> 64 word \<Rightarrow> 8 word \<Rightarrow> (32 word \<times> 8 word) sf" where
  "dpi_f64_to_f32 sf a rm s =
     (let s = set_rm sf rm s;
          fa = \<lparr>v64 = a\<rparr>;
          (fres, s) = f64_to_f32 sf fa s
      in ((v32 fres, softfloat_exceptionFlags s), s))"

definition dpi_f32_to_f64 :: "softfloat \<Rightarrow> 32 word \<Rightarrow> 8 word \<Rightarrow> (64 word \<times> 8 word) sf" where
  "dpi_f32_to_f64 sf a rm s =
     (let s = set_rm sf rm s;
          fa = \<lparr>v32 = a\<rparr>;
          (fres, s) = f32_to_f64 sf fa s
      in ((v64 fres, softfloat_exceptionFlags s), s))"

definition dpi_i32_to_f32 :: "softfloat \<Rightarrow> 32 word \<Rightarrow> 8 word \<Rightarrow> (32 word \<times> 8 word) sf" where
  "dpi_i32_to_f32 sf a rm s =
     (let s = set_rm sf rm s;
          (fres, s) = i32_to_f32 sf a s
      in ((v32 fres, softfloat_exceptionFlags s), s))"

definition dpi_ui32_to_f32 :: "softfloat \<Rightarrow> 32 word \<Rightarrow> 8 word \<Rightarrow> (32 word \<times> 8 word) sf" where
  "dpi_ui32_to_f32 sf a rm s =
     (let s = set_rm sf rm s;
          (fres, s) = ui32_to_f32 sf a s
      in ((v32 fres, softfloat_exceptionFlags s), s))"

definition dpi_i32_to_f64 :: "softfloat \<Rightarrow> 32 word \<Rightarrow> 8 word \<Rightarrow> (64 word \<times> 8 word) sf" where
  "dpi_i32_to_f64 sf a rm s =
     (let s = set_rm sf rm s;
          (fres, s) = i32_to_f64 sf a s
      in ((v64 fres, softfloat_exceptionFlags s), s))"

definition dpi_ui32_to_f64 :: "softfloat \<Rightarrow> 32 word \<Rightarrow> 8 word \<Rightarrow> (64 word \<times> 8 word) sf" where
  "dpi_ui32_to_f64 sf a rm s =
     (let s = set_rm sf rm s;
          (fres, s) = ui32_to_f64 sf a s
      in ((v64 fres, softfloat_exceptionFlags s), s))"

definition dpi_f32_to_i32 :: "softfloat \<Rightarrow> 32 word \<Rightarrow> 8 word \<Rightarrow> (32 word \<times> 8 word) sf" where
  "dpi_f32_to_i32 sf a rm s =
     (let s = set_rm sf rm s;
          fa = \<lparr>v32 = a\<rparr>;
          (r, s) = f32_to_i32 sf fa (get_softfloat_rm sf rm) True s
      in ((word_of_int r, softfloat_exceptionFlags s), s))"

definition dpi_f32_to_ui32 :: "softfloat \<Rightarrow> 32 word \<Rightarrow> 8 word \<Rightarrow> (32 word \<times> 8 word) sf" where
  "dpi_f32_to_ui32 sf a rm s =
     (let s = set_rm sf rm s;
          fa = \<lparr>v32 = a\<rparr>;
          (r, s) = f32_to_ui32 sf fa (get_softfloat_rm sf rm) True s
      in ((word_of_int r, softfloat_exceptionFlags s), s))"

definition dpi_f64_to_i32 :: "softfloat \<Rightarrow> 64 word \<Rightarrow> 8 word \<Rightarrow> (32 word \<times> 8 word) sf" where
  "dpi_f64_to_i32 sf a rm s =
     (let s = set_rm sf rm s;
          fa = \<lparr>v64 = a\<rparr>;
          (r, s) = f64_to_i32 sf fa (get_softfloat_rm sf rm) True s
      in ((word_of_int r, softfloat_exceptionFlags s), s))"

definition dpi_f64_to_ui32 :: "softfloat \<Rightarrow> 64 word \<Rightarrow> 8 word \<Rightarrow> (32 word \<times> 8 word) sf" where
  "dpi_f64_to_ui32 sf a rm s =
     (let s = set_rm sf rm s;
          fa = \<lparr>v64 = a\<rparr>;
          (r, s) = f64_to_ui32 sf fa (get_softfloat_rm sf rm) True s
      in ((word_of_int r, softfloat_exceptionFlags s), s))"

section \<open>Sequences of calls\<close>

text \<open>A call with its arguments; the results of calls with 32 and with 64 bits.\<close>

datatype dpi_call =
    C_f32_add "32 word" "32 word" "8 word"
  | C_f32_sub "32 word" "32 word" "8 word"
  | C_f32_mul "32 word" "32 word" "8 word"
  | C_f32_div "32 word" "32 word" "8 word"
  | C_f64_add "64 word" "64 word" "8 word"
  | C_f64_sub "64 word" "64 word" "8 word"
  | C_f64_mul "64 word" "64 word" "8 word"
  | C_f64_div "64 word" "64 word" "8 word"
  | C_f32_mulAdd "32 word" "32 word" "32 word" "8 word"
  | C_f64_mulAdd "64 word" "64 word" "64 word" "8 word"
  | C_f32_sqrt "32 word" "8 word"
  | C_f64_sqrt "64 word" "8 word"
  | C_f64_to_f32 "64 word" "8 word"
  | C_f32_to_f64 "32 word" "8 word"
  | C_i32_to_f32 "32 word" "8 word"
  | C_ui32_to_f32 "32 word" "8 word"
  | C_i32_to_f64 "32 word" "8 word"
  | C_ui32_to_f64 "32 word" "8 word"
  | C_f32_to_i32 "32 word" "8 word"
  | C_f32_to_ui32 "32 word" "8 word"
  | C_f64_to_i32 "64 word" "8 word"
  | C_f64_to_ui32 "64 word" "8 word"

datatype dpi_result = R32 "32 word" "8 word" | R64 "64 word" "8 word"

definition as32 :: "(32 word \<times> 8 word) \<times> sf_globals \<Rightarrow> dpi_result \<times> sf_globals" where
  "as32 = map_prod (\<lambda>(r, fl). R32 r fl) id"

definition as64 :: "(64 word \<times> 8 word) \<times> sf_globals \<Rightarrow> dpi_result \<times> sf_globals" where
  "as64 = map_prod (\<lambda>(r, fl). R64 r fl) id"

fun run_call :: "softfloat \<Rightarrow> dpi_call \<Rightarrow> dpi_result sf" where
  "run_call sf (C_f32_add a b rm) s = as32 (dpi_f32_add sf a b rm s)"
| "run_call sf (C_f32_sub a b rm) s = as32 (dpi_f32_sub sf a b rm s)"
| "run_call sf (C_f32_mul a b rm) s = as32 (dpi_f32_mul sf a b rm s)"
| "run_call sf (C_f32_div a b rm) s = as32 (dpi_f32_div sf a b rm s)"
| "run_call sf (C_f64_add a b rm) s = as64 (dpi_f64_add sf a b rm s)"
| "run_call sf (C_f64_sub a b rm) s = as64 (dpi_f64_sub sf a b rm s)"
| "run_call sf (C_f64_mul a b rm) s = as64 (dpi_f64_mul sf a b rm s)"
| "run_call sf (C_f64_div a b rm) s = as64 (dpi_f64_div sf a b rm s)"
| "run_call sf (C_f32_mulAdd a b c rm) s = as32 (dpi_f32_mulAdd sf a b c rm s)"
| "run_call sf (C_f64_mulAdd a b c rm) s = as64 (dpi_f64_mulAdd sf a b c rm s)"
| "run_call sf (C_f32_sqrt a rm) s = as32 (dpi_f32_sqrt sf a rm s)"
| "run_call sf (C_f64_sqrt a rm) s = as64 (dpi_f64_sqrt sf a rm s)"
| "run_call sf (C_f64_to_f32 a rm) s = as32 (dpi_f64_to_f32 sf a rm s)"
| "run_call sf (C_f32_to_f64 a rm) s = as64 (dpi_f32_to_f64 sf a rm s)"
| "run_call sf (C_i32_to_f32 a rm) s = as32 (dpi_i32_to_f32 sf a rm s)"
| "run_call sf (C_ui32_to_f32 a rm) s = as32 (dpi_ui32_to_f32 sf a rm s)"
| "run_call sf (C_i32_to_f64 a rm) s = as64 (dpi_i32_to_f64 sf a rm s)"
| "run_call sf (C_ui32_to_f64 a rm) s = as64 (dpi_ui32_to_f64 sf a rm s)"
| "run_call sf (C_f32_to_i32 a rm) s = as32 (dpi_f32_to_i32 sf a rm s)"
| "run_call sf (C_f32_to_ui32 a rm) s = as32 (dpi_f32_to_ui32 sf a rm s)"
| "run_call sf (C_f64_to_i32 a rm) s = as32 (dpi_f64_to_i32 sf a rm s)"
| "run_call sf (C_f64_to_ui32 a rm) s = as32 (dpi_f64_to_ui32 sf a rm s)"

fun run_dpi :: "softfloat \<Rightarrow> dpi_call list \<Rightarrow> dpi_result list sf" where
  "run_dpi sf [] s = ([], s)"
| "run_dpi sf (c # cs) s = (let (r, s) = run_call sf c s; (rs, s) = run_dpi sf cs s in (r # rs, s))"

text \<open>The library leaves the mode of detecting tininess alone: it is set by the application only.\<close>

definition keeps_tininess :: "softfloat \<Rightarrow> bool" where
  "keeps_tininess sf \<longleftrightarrow>
     (\<forall>x y s. softfloat_detectTininess (snd (f32_add sf x y s)) = softfloat_detectTininess s) \<and>
     (\<forall>x y s. softfloat_detectTininess (snd (f32_sub sf x y s)) = softfloat_detectTininess s) \<and>
     (\<forall>x y s. softfloat_detectTininess (snd (f32_mul sf x y s)) = softfloat_detectTininess s) \<and>
     (\<forall>x y s. softfloat_detectTininess (snd (f32_div sf x y s)) = softfloat_detectTininess s) \<and>
     (\<forall>x y s. softfloat_detectTininess (snd (f64_add sf x y s)) = softfloat_detectTininess s) \<and>
     (\<forall>x y s. softfloat_detectTininess (snd (f64_sub sf x y s)) = softfloat_detectTininess s) \<and>
     (\<forall>x y s. softfloat_detectTininess (snd (f64_mul sf x y s)) = softfloat_detectTininess s) \<and>
     (\<forall>x y s. softfloat_detectTininess (snd (f64_div sf x y s)) = softfloat_detectTininess s) \<and>
     (\<forall>x y z s. softfloat_detectTininess (snd (f32_mulAdd sf x y z s)) = softfloat_detectTininess s) \<and>
     (\<forall>x y z s. softfloat_detectTininess (snd (f64_mulAdd sf x y z s)) = softfloat_detectTininess s) \<and>
     (\<forall>x s. softfloat_detectTininess (snd (f32_sqrt sf x s)) = softfloat_detectTininess s) \<and>
     (\<forall>x s. softfloat_detectTininess (snd (f64_sqrt sf x s)) = softfloat_detectTininess s) \<and>
     (\<forall>x s. softfloat_detectTininess (snd (f64_to_f32 sf x s)) = softfloat_detectTininess s) \<and>
     (\<forall>x s. softfloat_detectTininess (snd (f32_to_f64 sf x s)) = softfloat_detectTininess s) \<and>
     (\<forall>x s. softfloat_detectTininess (snd (i32_to_f32 sf x s)) = softfloat_detectTininess s) \<and>
     (\<forall>x s. softfloat_detectTininess (snd (ui32_to_f32 sf x s)) = softfloat_detectTininess s) \<and>
     (\<forall>x s. softfloat_detectTininess (snd (i32_to_f64 sf x s)) = softfloat_detectTininess s) \<and>
     (\<forall>x s. softfloat_detectTininess (snd (ui32_to_f64 sf x s)) = softfloat_detectTininess s) \<and>
     (\<forall>x y z s. softfloat_detectTininess (snd (f32_to_i32 sf x y z s)) = softfloat_detectTininess s) \<and>
     (\<forall>x y z s. softfloat_detectTininess (snd (f32_to_ui32 sf x y z s)) = softfloat_detectTininess s) \<and>
     (\<forall>x y z s. softfloat_detectTininess (snd (f64_to_i32 sf x y z s)) = softfloat_detectTininess s) \<and>
     (\<forall>x y z s. softfloat_detectTininess (snd (f64_to_ui32 sf x y z s)) = softfloat_detectTininess s)"

lemmas dpi_defs = dpi_f32_add_def dpi_f32_sub_def dpi_f32_mul_def dpi_f32_div_def
  dpi_f64_add_def dpi_f64_sub_def dpi_f64_mul_def dpi_f64_div_def
  dpi_f32_mulAdd_def dpi_f64_mulAdd_def dpi_f32_sqrt_def dpi_f64_sqrt_def
  dpi_f64_to_f32_def dpi_f32_to_f64_def dpi_i32_to_f32_def dpi_ui32_to_f32_def
  dpi_i32_to_f64_def dpi_ui32_to_f64_def dpi_f32_to_i32_def dpi_f32_to_ui32_def
  dpi_f64_to_i32_def dpi_f64_to_ui32_def

lemma set_rm_fresh: "softfloat_detectTininess s = softfloat_detectTininess t \<Longrightarrow> set_rm sf rm s = set_rm sf rm t"
  by (cases s; cases t) (simp add: set_rm_def)

lemma set_rm_tininess [simp]: "softfloat_detectTininess (set_rm sf rm s) = softfloat_detectTininess s"
  by (simp add: set_rm_def)

lemma run_call_fresh:
  assumes "softfloat_detectTininess s = softfloat_detectTininess t"
  shows "run_call sf c s = run_call sf c t"
proof -
  have "set_rm sf rm s = set_rm sf rm t" for rm by (rule set_rm_fresh [OF assms])
  then show ?thesis by (cases c) (simp_all only: run_call.simps dpi_defs Let_def)
qed

lemma run_call_tininess: "keeps_tininess sf \<Longrightarrow> softfloat_detectTininess (snd (run_call sf c s)) = softfloat_detectTininess s"
  by (cases c) (simp_all add: keeps_tininess_def dpi_defs as32_def as64_def split_beta Let_def)

text \<open>C30: The calls of the simulation do not influence each other. Whatever calls were made before, each call returns the result and the
  exception flags it returns when it is the only one, on a library with any rounding mode and any flags left set: the flags of one operation are never
  mixed with those of another, and the order of the calls does not matter. The library is any one that leaves the mode of
  detecting tininess alone. A rounding mode that RISC-V reserves (5, 6, and 7, the dynamic one) is taken as 0, rounding to nearest even.\<close>

theorem dpi_calls_independent:
  assumes "keeps_tininess sf" "softfloat_detectTininess s = softfloat_detectTininess t"
  shows "fst (run_dpi sf cs s) = map (\<lambda>c. fst (run_call sf c t)) cs \<and>
    (\<forall>rm > 4. get_softfloat_rm sf rm = get_softfloat_rm sf 0)"
proof -
  have "fst (run_dpi sf cs s) = map (\<lambda>c. fst (run_call sf c t)) cs"
    using assms(2)
  proof (induction cs arbitrary: s)
    case (Cons c cs)
    have "fst (run_dpi sf cs (snd (run_call sf c s))) = map (\<lambda>c. fst (run_call sf c t)) cs"
      by (rule Cons.IH) (simp add: run_call_tininess [OF assms(1)] Cons.prems)
    then show ?case using run_call_fresh [OF Cons.prems, of sf c] by (simp add: split_beta Let_def)
  qed simp
  moreover have "get_softfloat_rm sf rm = get_softfloat_rm sf 0" if "4 < rm" for rm
    using that by (auto simp: get_softfloat_rm_def)
  ultimately show ?thesis by blast
qed

text \<open>A library whose addition adds the bits and raises \<open>inexact\<close>, on top of what is raised, unless the second operand is 0.\<close>

definition sample_sf :: softfloat where
  "sample_sf = \<lparr>softfloat_round_near_even = 0, softfloat_round_minMag = 1, softfloat_round_min = 2, softfloat_round_max = 3,
     softfloat_round_near_maxMag = 4,
     f32_add = (\<lambda>x y s. (\<lparr>v32 = v32 x + v32 y\<rparr>, s\<lparr>softfloat_exceptionFlags := or (softfloat_exceptionFlags s) (if v32 y = 0 then 0 else 1)\<rparr>)),
     f32_sub = (\<lambda>_ _ s. (\<lparr>v32 = 0\<rparr>, s)),
     f32_mul = (\<lambda>_ _ s. (\<lparr>v32 = 0\<rparr>, s)),
     f32_div = (\<lambda>_ _ s. (\<lparr>v32 = 0\<rparr>, s)),
     f64_add = (\<lambda>_ _ s. (\<lparr>v64 = 0\<rparr>, s)),
     f64_sub = (\<lambda>_ _ s. (\<lparr>v64 = 0\<rparr>, s)),
     f64_mul = (\<lambda>_ _ s. (\<lparr>v64 = 0\<rparr>, s)),
     f64_div = (\<lambda>_ _ s. (\<lparr>v64 = 0\<rparr>, s)),
     f32_mulAdd = (\<lambda>_ _ _ s. (\<lparr>v32 = 0\<rparr>, s)),
     f64_mulAdd = (\<lambda>_ _ _ s. (\<lparr>v64 = 0\<rparr>, s)),
     f32_sqrt = (\<lambda>_ s. (\<lparr>v32 = 0\<rparr>, s)),
     f64_sqrt = (\<lambda>_ s. (\<lparr>v64 = 0\<rparr>, s)),
     f64_to_f32 = (\<lambda>_ s. (\<lparr>v32 = 0\<rparr>, s)),
     f32_to_f64 = (\<lambda>_ s. (\<lparr>v64 = 0\<rparr>, s)),
     i32_to_f32 = (\<lambda>_ s. (\<lparr>v32 = 0\<rparr>, s)),
     ui32_to_f32 = (\<lambda>_ s. (\<lparr>v32 = 0\<rparr>, s)),
     i32_to_f64 = (\<lambda>_ s. (\<lparr>v64 = 0\<rparr>, s)),
     ui32_to_f64 = (\<lambda>_ s. (\<lparr>v64 = 0\<rparr>, s)),
     f32_to_i32 = (\<lambda>_ _ _ s. (0, s)),
     f32_to_ui32 = (\<lambda>_ _ _ s. (0, s)),
     f64_to_i32 = (\<lambda>_ _ _ s. (0, s)),
     f64_to_ui32 = (\<lambda>_ _ _ s. (0, s))\<rparr>"

theorem dpi_calls_independent_witness:
  "fst (run_dpi sample_sf [C_f32_add 1 2 0, C_f32_add 1 0 7]
      \<lparr>softfloat_roundingMode = 3, softfloat_detectTininess = 1, softfloat_exceptionFlags = 31\<rparr>) = [R32 3 1, R32 1 0] \<and>
   get_softfloat_rm sample_sf 7 = 0"
proof -
  let ?s = "\<lparr>softfloat_roundingMode = 3, softfloat_detectTininess = 1, softfloat_exceptionFlags = 31\<rparr>"
  let ?t = "\<lparr>softfloat_roundingMode = 0, softfloat_detectTininess = 1, softfloat_exceptionFlags = 0\<rparr>" and ?cs = "[C_f32_add 1 2 0, C_f32_add 1 0 7]"
  have k: "keeps_tininess sample_sf" by (simp add: keeps_tininess_def sample_sf_def)
  have r: "map (\<lambda>c. fst (run_call sample_sf c ?t)) ?cs = [R32 3 1, R32 1 0]" "get_softfloat_rm sample_sf 0 = 0" by code_simp+
  show ?thesis using dpi_calls_independent [OF k, of ?s ?t ?cs] r by simp
qed

end
