(* ===== verification/Spec2Isabelle.thy ===== *)
theory Spec2Isabelle
  imports Fdt_Check Fdt_Strerror Fdt_Addresses Fdt_Empty_Tree Fdt_Overlay Fdt_Wip_Props Fdt_Rw_Nodes Fdt_Pack_Props Dtc_Roundtrip Dtc_Sort Dtc_Main Dtc_Check_Props Tool_Values Tool_Fdtput_Props Tool_Fdtdump Tool_Fdtoverlay Sim_Softfloat
begin

text \<open>
  A verification library for the C programs of the repository: the device tree compiler and libfdt, \<open>src/dtc-1.6.1\<close>, and the floating
  point functions of the simulation, \<open>src/sim/dpi_softfloat.c\<close>.

  \<^bold>\<open>The program.\<close> libfdt (\<open>libfdt/\<close>) reads, checks, builds and changes flattened device trees, blobs of bytes in a buffer of the
  caller. dtc reads a tree from source, from a blob or from a directory into a live tree, merges, checks and completes it, and
  writes it as a blob, as assembler, as source or as YAML. The tools \<open>fdtget\<close>, \<open>fdtput\<close>, \<open>fdtdump\<close> and \<open>fdtoverlay\<close>
  are command lines around libfdt.

  \<^bold>\<open>Conventions.\<close> C integers are HOL integers; the places where C converts are written out with \<open>u32\<close>, \<open>s32\<close> and \<open>u64\<close>
  (\<open>Prelude\<close>). A byte is an 8-bit word; a plain \<open>char\<close> is signed, which matters where one is printed (\<open>write_char\<close>). A result of type \<open>'a option\<close> is \<open>None\<close> when the code faults: a read or write outside of the
  buffer, a failed assertion, \<open>die\<close>, or a loop that does not end (\<open>partial_function (option)\<close>, so that there is no fuel anywhere and a
  theorem that ends in \<open>\<dots> = Some \<dots>\<close> says that the code returns). Error codes of libfdt are values. Pointers into a blob
  are offsets; pointers between nodes of a live tree are paths of child numbers; linked lists are lists; static variables are
  threaded. Allocation always succeeds. What the operating system answers, the parser and libyaml are arguments.

  \<^bold>\<open>libfdt.\<close>
  \<^item> \<open>Prelude\<close>, \<open>C_Library\<close>: bounds-checked buffers (locale \<open>byte_store\<close>), big-endian cells, \<open>strtol\<close>, \<open>qsort\<close>, printing numbers.
  \<^item> \<open>Fdt_Header\<close>, \<open>Fdt_Core\<close> (\<open>fdt.c\<close>, \<open>fdt.h\<close>, \<open>libfdt_internal.h\<close>): header checks, \<open>fdt_offset_ptr\<close>, \<open>fdt_next_tag\<close>, the node
    iterators. What \<open>fdt_check_header\<close> accepts; no read outside of the buffer for arbitrary contents; walks only
    move forward (locale \<open>offset_walk\<close>, for tags and for nodes) unless a property length wraps, and then they do not end.
  \<^item> \<open>Fdt_Tokens\<close>: the structure block as tokens, and the items (begin, end, property) the tokens stand for. All components that
    build, check and read blobs meet here.
  \<^item> \<open>Fdt_Ro\<close>, \<open>Fdt_Search\<close> (\<open>fdt_ro.c\<close>): every read-only function, and what path and property lookup find in a tree.
  \<^item> \<open>Fdt_Sw\<close> (\<open>fdt_sw.c\<close>): sequential writing refines "append an item" (locale \<open>item_builder\<close>, for items and for reserve
    entries); phases; an overflow of the room check.
  \<^item> \<open>Fdt_Wip\<close>, \<open>Fdt_Wip_Props\<close> (\<open>fdt_wip.c\<close>): writing in place; \<open>fdt_setprop_inplace\<close> as an update of the properties of a node.
  \<^item> \<open>Fdt_Rw\<close> (\<open>fdt_rw.c\<close>): the read-write functions. \<open>Fdt_Splice\<close>: what a splice does to the bytes, and that the tokens around it stay.
    \<open>Fdt_Rw_Props\<close>, \<open>Fdt_Rw_Nodes\<close>, \<open>Fdt_Pack_Props\<close>: a blob \<open>holds_tree b rs es\<close> when its blocks are in order, its reserve map has the entries
    \<open>rs\<close> and its structure block the items of the tree \<open>es\<close>; setting and deleting properties, adding and deleting nodes are the operations
    on this tree at a path (\<open>edit_tree\<close>), opening and packing keep it.
  \<^item> \<open>Fdt_Overlay\<close> (\<open>fdt_overlay.c\<close>), \<open>Fdt_Empty_Tree\<close>, \<open>Fdt_Check\<close>, \<open>Fdt_Addresses\<close>, \<open>Fdt_Strerror\<close>: every function.
    Which items of built blobs \<open>fdt_check_full\<close> lets pass; the cell counts of a bus as the tree has them.

  \<^bold>\<open>dtc.\<close>
  \<^item> \<open>Dtc_Util\<close> (\<open>util.c\<close>), \<open>Dtc_Data\<close> (\<open>data.c\<close>): growing values with markers; appending, merging and inserting are what they
    are on lists (locale \<open>appender\<close>); a size from which on growing does not end.
  \<^item> \<open>Dtc_Livetree\<close> (\<open>livetree.c\<close>), \<open>Dtc_Merge\<close>, \<open>Dtc_Sort\<close>: live trees; merging overlays values and deletions path by path; what
    the actions of the grammar keep invariant; sorting (locale \<open>comparator\<close>) only reorders.
  \<^item> \<open>Dtc_Flattree\<close> (\<open>flattree.c\<close>), \<open>Dtc_Blob\<close>, \<open>Dtc_Roundtrip\<close>: writing and reading blobs; libfdt reads in a written
    blob what the live tree holds, and \<open>dt_from_blob\<close> gives the tree back.
  \<^item> \<open>Dtc_Checks\<close>, \<open>Dtc_Check_Table\<close>, \<open>Dtc_Check_Driver\<close>, \<open>Dtc_Phandles\<close>, \<open>Dtc_Check_Props\<close> (\<open>checks.c\<close>): every check function, the table, the
    driver (locale \<open>ranked_table\<close>: prerequisites have no cycle). What the driver does is a sequence of whole runs over the tree (\<open>checks_run\<close>), and it
    accepts trees without errors; phandle references are resolved and nothing else changes; single checks.
  \<^item> \<open>Dtc_Treesource\<close> (\<open>treesource.c\<close>), \<open>Dtc_Yaml\<close> (\<open>yamltree.c\<close>), \<open>Dtc_Fstree\<close> (\<open>fstree.c\<close>): the other formats. As which bytes strings that were written are
    read back (\<open>reread\<close>), and when as the same; YAML values are read back; the source writer is total on trees without type markers.
  \<^item> \<open>Dtc_Srcpos\<close> (\<open>srcpos.c\<close>): files and positions, with the reachable states as an inductive relation.
  \<^item> \<open>Dtc_Main\<close> (\<open>dtc.c\<close>): options, formats, full paths and when they lead back to their nodes, and the program as the composition of the components.

  \<^bold>\<open>Tools.\<close> \<open>Tool_Util\<close> (the rest of \<open>util.c\<close>), \<open>Tool_Fdtget\<close>, \<open>Tool_Fdtput\<close>, \<open>Tool_Fdtdump\<close>, \<open>Tool_Fdtoverlay\<close>: whole programs as functions of
  files and arguments. \<open>Tool_Values\<close>: \<open>fdtget\<close> shows what \<open>fdtput\<close> encodes. \<open>Tool_Fdtput_Props\<close>: \<open>fdtput\<close> from file to file is an operation on the
  tree; the operations that run over a list of arguments share the locale \<open>tree_operation\<close>.

  \<^bold>\<open>Simulation.\<close> \<open>Sim_Softfloat\<close> (\<open>sim/dpi_softfloat.c\<close>): the functions the test bench calls, over the SoftFloat library as a record of functions on
  its global variables. Calls do not influence each other.

  \<^bold>\<open>This theory\<close> joins the components: a tree that is built by sequential writing passes the full check and is read back; \<open>fdtput\<close> works on
  what dtc writes, and \<open>fdtget\<close> prints what \<open>fdtput\<close> was given; what the full check and the cell counts say of the tree in a blob.

  \<^bold>\<open>Bounds.\<close> Sizes are below \<open>2 ^ 31\<close> where the code keeps them in an \<open>int\<close>; \<open>DATA_MAX\<close> bounds values such that the growing loop of
  \<open>data_grow_for\<close> ends. The assumptions of a theorem name these bounds, and theorems on the overflows say what happens beyond them.

  \<^bold>\<open>Not modelled.\<close> The lexer and the grammar (\<open>dtc-lexer.l\<close>, \<open>dtc-parser.y\<close>), which flex and bison turn into code, except for the actions of
  the top-level rules; libyaml; messages on standard error, usage and version texts, the \<open>printf\<close> wrappers; source positions
  of nodes and properties, hence the annotations of \<open>-T\<close>; the dependency file; freeing memory. \<open>src/dtc_install\<close> holds copies of the headers, and the rest of
  \<open>libfdt.h\<close> and \<open>util.h\<close> is comments and prototypes. That applying an overlay merges the trees is not proved; its functions are modelled.
  The SoftFloat library is not part of the repository; the hardware description and the scripts are not C.
\<close>

section \<open>Blobs that were built, checked and read\<close>

lemma built_searchable:
  assumes "built b es is" "8 dvd blob_addr b" "blen b < INT_MAX"
  shows "searchable b"
proof -
  obtain ts where "struct_items b ts is" using assms(1) by (auto simp: built_def)
  then have "backed b" "hdr b H_totalsize \<le> blen b" by (auto simp: struct_items_def readable_def backed_def)
  moreover have "hdr b H_version = 17" using assms(1) by (simp add: built_def)
  ultimately show ?thesis using built_header_ok [OF assms(1,2)] assms(3) by (simp add: searchable_def)
qed

lemma built_rsv_room:
  assumes "built b es is"
  shows "hdr b H_off_mem_rsvmap + 16 * (int (length es) + 1) \<le> hdr b H_totalsize"
    "rsv_at b (hdr b H_off_mem_rsvmap) (es @ [(0, 0)])"
  using assms hdr_bounds(1) [of b H_size_dt_struct] hdr_bounds(1) [of b H_size_dt_strings]
  by (auto simp: built_def)

lemma built_check_full:
  assumes "built b es is" "8 dvd blob_addr b" "blen b < INT_MAX"
  shows "fdt_check_full b (blen b) = Some (if passing_items is then 0 else - FDT_ERR_BADSTRUCTURE)"
proof -
  obtain ts where ts: "struct_items b ts is" "TNop \<notin> set ts" using assms(1) by (auto simp: built_def)
  have "hdr b H_totalsize \<le> blen b" using ts(1) by (simp add: struct_items_def readable_def backed_def)
  then show ?thesis
    using check_full_items [OF built_searchable [OF assms] ts _ built_rsv_room(2,1) [OF assms(1)]] by simp
qed

definition sample_tree :: "entry list" where
  "sample_tree = [EProp (cstr ''model'') (cstr ''vmate'' @ [0]),
     ENode (cstr ''cpus'') [ENode (cstr ''cpu@1'') [EProp (cstr ''reg'') [0, 0, 0, 1]]]]"

text \<open>C17: Writing a tree and reading it back. In a buffer with enough room, building the items of any tree
  whose root has an empty name succeeds, with any reserve entries; the blob passes
  \<open>fdt_check_full\<close>, \<open>fdt_get_mem_rsv\<close> returns the entries, \<open>fdt_path_offset\<close> follows
  every absolute path to the node the tree has there (or reports \<open>-FDT_ERR_NOTFOUND\<close>),
  and \<open>fdt_getprop\<close> at that node returns the value of each of its properties and
  \<open>-FDT_ERR_NOTFOUND\<close> for every other name.\<close>

theorem built_tree_reads_back:
  assumes n: "48 \<le> n" "n \<le> blen buf" "blen buf < INT_MAX" "8 dvd blob_addr buf"
    and l: "list_all legal_rsv es" "list_all legal_item (flat (ENode [] tree))"
    and room: "sw_needs es (flat (ENode [] tree)) \<le> n"
  shows "\<exists>b. sw_build buf n es (flat (ENode [] tree)) = Some (0, b) \<and>
    fdt_check_full b (blen b) = Some 0 \<and>
    (\<forall>i < length es. fdt_get_mem_rsv b (int i) = Some (0, Some (es ! i))) \<and> reads_as b [] tree"
proof -
  let ?is = "flat (ENode [] tree)"
  obtain b where b: "sw_build buf n es ?is = Some (0, b)" "blen b = blen buf" "blob_addr b = blob_addr buf" "built b es ?is"
    using sw_build_spec [of n buf es ?is] n l room by fastforce
  have s: "searchable b" using built_searchable [OF b(4)] b n by simp
  obtain ts where ts: "struct_items b ts ?is" "TNop \<notin> set ts" using b(4) by (auto simp: built_def)
  have "passing_items ?is" unfolding passing_items_def by (intro exI [of _ "[]"] exI [of _ tree]) simp
  then have "fdt_check_full b (blen b) = Some 0" using built_check_full [OF b(4)] b n by simp
  moreover have "\<forall>i < length es. fdt_get_mem_rsv b (int i) = Some (0, Some (es ! i))"
    using get_mem_rsv_in [OF s built_rsv_room(2,1) [OF b(4)]] by blast
  ultimately show ?thesis using b(1) node_reads_as [OF s struct_items_root [OF ts]] by blast
qed

lemma sample_tree_facts:
  "list_all legal_item (flat (ENode [] sample_tree))" "sw_needs [(4096, 16)] (flat (ENode [] sample_tree)) \<le> 256"
  "components (cstr ''cpus/cpu'') = [cstr ''cpus'', cstr ''cpu'']"
  "walk_tree [cstr ''cpus'', cstr ''cpu''] 0 [] sample_tree =
     Some (40, cstr ''cpu@1'', [EProp (cstr ''reg'') [0, 0, 0, 1]])"
  by (simp_all add: sample_tree_def cstr_def sw_needs_def FDT_ALIGN_4) (code_simp+)

theorem built_tree_reads_back_witness:
  "\<exists>b p. sw_build scratch_buffer 256 [(4096, 16)] (flat (ENode [] sample_tree)) = Some (0, b) \<and>
     fdt_path_offset b (cstr ''/cpus/cpu'') = Some 40 \<and>
     fdt_getprop b 40 (cstr ''reg'') = Some (Ptr p, 4) \<and> rd b p 4 = Some [0, 0, 0, 1]"
proof -
  let ?t = sample_tree and ?c = "cstr ''cpus/cpu''"
  obtain b where b: "sw_build scratch_buffer 256 [(4096, 16)] (flat (ENode [] ?t)) = Some (0, b)" "reads_as b [] ?t"
    using built_tree_reads_back [of 256 scratch_buffer "[(4096, 16)]" ?t] sample_tree_facts(1,2) small_tree_legal(2)
    by (auto simp: scratch_buffer_def simp del: flat.simps)
  have w: "walk_tree (components ?c) 0 [] ?t = Some (40, cstr ''cpu@1'', [EProp (cstr ''reg'') [0, 0, 0, 1]])"
    using sample_tree_facts(3,4) by simp
  have "cstr ''/cpus/cpu'' = chr (CHR ''/'') # ?c" by (simp add: cstr_def)
  then have "fdt_path_offset b (cstr ''/cpus/cpu'') = Some 40"
    using reads_asD(1) [OF b(2), of ?c] w by (simp add: child_offset_def)
  then show ?thesis
    using b(1) reads_asD(2) [OF b(2) w, of "cstr ''reg''"] by (auto simp: prop_read_def simp del: flat.simps)
qed

text \<open>C18: What the full check lets pass. On a blob that \<open>sw_build\<close> made from any items, with property names of at most 47 bytes,
  \<open>fdt_check_full\<close> returns 0 if and only if the items are any number of properties outside of every node, followed by nothing
  or by the items of one tree whose root has an empty name; otherwise it returns \<open>-FDT_ERR_BADSTRUCTURE\<close>. A tree as it should be
  passes, and so do an empty structure block and properties in front of the root.\<close>

theorem check_full_decides_tree:
  assumes "48 \<le> n" "n \<le> blen buf" "blen buf < INT_MAX" "8 dvd blob_addr buf"
    and "list_all legal_rsv es" "list_all legal_item is"
    and "sw_build buf n es is = Some (0, b)"
  shows "fdt_check_full b (blen b) =
    Some (if \<exists>ps tree. list_all is_prop ps \<and> (is = ps \<or> is = ps @ flat (ENode [] tree)) then 0 else - FDT_ERR_BADSTRUCTURE)"
proof -
  have "built b es is" "blen b = blen buf" "blob_addr b = blob_addr buf"
    using sw_build_spec [of n buf es "is"] assms by auto
  then show ?thesis using built_check_full [of b es "is"] assms by (simp only: passing_items_def)
qed

theorem check_full_decides_tree_witness:
  "\<exists>b. sw_build scratch_buffer 256 [] [End] = Some (0, b) \<and>
     fdt_check_full b (blen b) = Some (- FDT_ERR_BADSTRUCTURE)"
proof -
  have "sw_needs [] [End] \<le> 256" by (simp add: sw_needs_def)
  then obtain b where "sw_build scratch_buffer 256 [] [End] = Some (0, b)"
    using sw_build_spec [of 256 scratch_buffer "[]" "[End]"] by (auto simp: scratch_buffer_def)
  moreover have "\<not> passing_items [End]"
    using check_items_tree [of "[End]"] by simp
  ultimately show ?thesis
    using check_full_decides_tree [of 256 scratch_buffer "[]" "[End]" b] unfolding passing_items_def by (auto simp: scratch_buffer_def)
qed

text \<open>The cell counts of a bus, as the tree has them.\<close>

definition count_in :: "int set \<Rightarrow> int \<Rightarrow> u8 list option \<Rightarrow> int" where
  "count_in valid dflt v = (case v of
     None \<Rightarrow> dflt
   | Some v \<Rightarrow> if length v = 4 \<and> big_endian v \<in> valid then big_endian v else - FDT_ERR_BADNCELLS)"

lemma cell_read:
  assumes "rd b p 4 = Some v"
  shows "fdt32_ld b p = Some (big_endian v)" "0 \<le> big_endian v"
proof -
  have l: "length v = 4" and a: "\<And>i. i < 4 \<Longrightarrow> ld8 b (p + int i) = Some (v ! i)" using assms by (auto simp: rd_eq_iff)
  have "ld8 b p = Some (v ! 0)" "ld8 b (p + 1) = Some (v ! 1)" "ld8 b (p + 2) = Some (v ! 2)" "ld8 b (p + 3) = Some (v ! 3)"
    using a [of 0] a [of 1] a [of 2] a [of 3] by simp_all
  moreover have "v = [v ! 0, v ! 1, v ! 2, v ! 3]" using l by (auto simp: list_eq_iff_nth_eq less_Suc_eq numeral_eq_Suc)
  then have "big_endian v = big_endian [v ! 0, v ! 1, v ! 2, v ! 3]" by simp
  ultimately show "fdt32_ld b p = Some (big_endian v)" by (simp add: fdt32_ld_alt big_endian_def)
  then show "0 \<le> big_endian v" by (rule fdt32_ld_bounds(1))
qed

lemma cells_read:
  assumes "prop_read b off name v"
  shows "fdt_cells b off name = Some (count_in {0..4} (- FDT_ERR_NOTFOUND) v)"
proof (cases v)
  case None
  then show ?thesis using assms by (simp add: prop_read_def fdt_cells_def count_in_def)
next
  case (Some x)
  then obtain p where p: "fdt_getprop b off name = Some (Ptr p, int (length x))" "rd b p (int (length x)) = Some x"
    using assms by (auto simp: prop_read_def)
  show ?thesis
  proof (cases "length x = 4")
    case True
    then show ?thesis using p Some cell_read [of b p x] by (simp add: fdt_cells_def count_in_def)
  next
    case False
    then show ?thesis using p(1) Some by (auto simp: fdt_cells_def count_in_def)
  qed
qed

text \<open>C39: How libfdt reads the cell counts of a bus. On a blob that holds a tree, at the node of a path, \<open>fdt_address_cells\<close> and
  \<open>fdt_size_cells\<close> return the number in the property of the node, if its value is one cell with a number from 1 to 4, or
  from 0 to 4; the defaults 2 and 1 if the node has no such property; and \<open>-FDT_ERR_BADNCELLS\<close> for any other value.\<close>

theorem cell_counts_of_tree:
  assumes "holds_tree b rs es" "walk_tree (components path) 0 [] es = Some (off, name, node)"
  shows "fdt_path_offset b (chr (CHR ''/'') # path) = Some off \<and>
    fdt_address_cells b off = Some (count_in {1..4} 2 (map_of (own_props node) (cstr ''#address-cells''))) \<and>
    fdt_size_cells b off = Some (count_in {0..4} 1 (map_of (own_props node) (cstr ''#size-cells'')))"
proof -
  note r = reads_asD [OF holds_tree_reads [OF assms(1)]]
  note c = cells_read [OF r(2) [OF assms(2)]]
  note b = big_endian_nonneg
  have "fdt_path_offset b (chr (CHR ''/'') # path) = Some off" using r(1) [of path] assms(2) by (simp add: child_offset_def)
  moreover have "fdt_address_cells b off = Some (count_in {1..4} 2 (map_of (own_props node) (cstr ''#address-cells'')))"
    using c [of "cstr ''#address-cells''"] b [of "the (map_of (own_props node) (cstr ''#address-cells''))"]
    by (cases "map_of (own_props node) (cstr ''#address-cells'')") (auto simp: fdt_address_cells_def count_in_def)
  moreover have "fdt_size_cells b off = Some (count_in {0..4} 1 (map_of (own_props node) (cstr ''#size-cells'')))"
    using c [of "cstr ''#size-cells''"] b [of "the (map_of (own_props node) (cstr ''#size-cells''))"]
    by (cases "map_of (own_props node) (cstr ''#size-cells'')") (auto simp: fdt_size_cells_def count_in_def)
  ultimately show ?thesis by blast
qed

theorem cell_counts_of_tree_witness:
  "\<exists>b. fdt_setprop (file_blob (sample_rw 32)) 0 (cstr ''#address-cells'') [0, 0, 0, 4] 4 = Some (0, b) \<and>
     fdt_address_cells b 0 = Some 4 \<and> fdt_size_cells b 0 = Some 1"
proof -
  let ?b = "file_blob (sample_rw 32)" and ?s = "cstr ''#address-cells''" and ?v = "[0, 0, 0, 4] :: u8 list"
  have w: "walk_tree (components []) 0 [] rw_tree = Some (0, [], rw_tree)" by code_simp
  have z: "0 \<notin> set ?s" "cstrlen ?s < 0x40000000" by code_simp+
  have n: "\<not> hdr ?b H_totalsize < data_end ?b + setprop_need ?s ?v (own_props rw_tree)" by code_simp
  let ?t = "edit_tree (components []) (with_props (put_prop ?s ?v (own_props rw_tree))) rw_tree"
  obtain b where b: "fdt_setprop ?b 0 ?s ?v 4 = Some (0, b)" "holds_tree b [] ?t"
    using setprop_tree [OF sample_holds(2) w _ z, of ?v] n by (auto split: if_splits)
  have m: "walk_tree (components []) 0 [] ?t = Some (0, [], ?t)" "map_of (own_props ?t) ?s = Some ?v" "map_of (own_props ?t) (cstr ''#size-cells'') = None"
    by code_simp+
  have "big_endian ?v = 4" by code_simp
  then show ?thesis using b(1) cell_counts_of_tree [OF b(2) m(1)] m(2,3) by (auto simp: count_in_def)
qed

section \<open>Programs one after the other\<close>

lemma rsv_at_end: "rsv_at b p (rs @ replicate k (0, 0) @ [(0, 0)]) \<Longrightarrow> rsv_at b p (rs @ [(0, 0)])"
  by (cases k) simp_all

lemma image_holds_tree:
  assumes i: "dtc_image b (rs @ replicate k (0, 0)) (flat (ENode [] es)) cpu" and a: "8 dvd blob_addr b" "hdr b H_totalsize < INT_MAX"
    and r: "\<forall>r \<in> set rs. snd r \<noteq> 0"
  shows "holds_tree b rs es"
proof -
  obtain ts where ts: "struct_items b ts (flat (ENode [] es))" "TNop \<notin> set ts" using i by (auto simp: dtc_image_def)
  have f: "rsv_at b 40 ((rs @ replicate k (0, 0)) @ [(0, 0)])" using i by (simp only: dtc_image_def)
  have "rsv_at b 40 (rs @ [(0, 0)])" by (rule rsv_at_end [of b 40 rs k]) (use f in \<open>simp only: append_assoc\<close>)
  then have "layout rs b" using i r image_searchable [OF i a] by (simp add: layout_def dtc_image_def)
  then show ?thesis using ts by (auto simp: holds_tree_def)
qed

text \<open>C5: The tools work on what dtc writes. For every live tree that dtc can write as a blob of version 17, with reserve entries that are not
  empty, \<open>fdtput\<close> on the written file is the operation on the tree: it refuses where this operation makes no sense, and otherwise
  writes a blob that holds the reserve entries and the changed tree, whatever padding, alignment and free reserve entries dtc was asked for.\<close>

theorem dtc_output_edited_by_fdtput:
  assumes "blob_ok opts dti" "nname (info (dt dti)) = Some []" "\<forall>r \<in> set (reservelist dti). snd (rsv_entry r) \<noteq> 0" "\<not> auto_path disp"
  shows "\<exists>bytes. dt_to_blob opts dti 17 = Some bytes \<and>
    (\<forall>sys filename args. infile sys filename = Inr bytes \<and> outfile sys filename = 0 \<and> put_valid sys disp args (int (length bytes)) \<longrightarrow>
      (case put_tree sys disp args (live_entries (dt dti)) of
         None \<Rightarrow> \<exists>r. do_fdtput sys disp filename args = Some (r, None) \<and> r < 0
       | Some es \<Rightarrow> \<exists>out. do_fdtput sys disp filename args = Some (0, Some out) \<and>
           holds_tree (file_blob out) (map rsv_entry (reservelist dti)) es \<and> reads_as (file_blob out) [] es))"
proof -
  let ?rs = "map rsv_entry (reservelist dti)"
  obtain bytes where b: "dt_to_blob opts dti 17 = Some bytes"
    "dtc_image (file_blob bytes) (reserve_map opts (reservelist dti)) (flat (live_entry (dt dti))) (boot_cpuid_phys dti)"
    "hdr (file_blob bytes) H_totalsize < INT_MAX" using blob_written [OF assms(1)] by metis
  have "live_entry (dt dti) = ENode [] (live_entries (dt dti))" using assms(2) by (simp add: live_entry_node)
  then have h: "holds_tree (file_blob bytes) ?rs (live_entries (dt dti))"
    using image_holds_tree [of "file_blob bytes" ?rs "nat (reservenum opts)"] b(2,3) assms(3) by (simp add: reserve_map_def)
  have "hdr (file_blob bytes) H_totalsize = int (length bytes)" using image_layout(8) [OF b(2)] by simp
  then have "case put_tree sys disp args (live_entries (dt dti)) of
         None \<Rightarrow> \<exists>r. do_fdtput sys disp filename args = Some (r, None) \<and> r < 0
       | Some es \<Rightarrow> \<exists>out. do_fdtput sys disp filename args = Some (0, Some out) \<and> holds_tree (file_blob out) ?rs es \<and> reads_as (file_blob out) [] es"
    if "infile sys filename = Inr bytes" "outfile sys filename = 0" "put_valid sys disp args (int (length bytes))" for sys filename args
    using fdtput_tree [OF that(1,2) h assms(4), of args] that(3) by (auto split: option.splits)
  then show ?thesis using b(1) by blast
qed

theorem dtc_output_edited_by_fdtput_witness:
  "\<exists>bytes out. dt_to_blob sample_opts sample_info 17 = Some bytes \<and>
     do_fdtput \<lparr>infile = (\<lambda>_. Inr bytes), outfile = (\<lambda>_. 0), fresh = 0, stack = 0\<rparr>
       \<lparr>oper = OPER_REMOVE_NODE, ptype = 0, psize = - 1, auto_path = False\<rparr> (cstr ''x'') [cstr ''/cpus/cpu''] = Some (0, Some out) \<and>
     reads_as (file_blob out) [] [EProp (cstr ''model'') (cstr ''vmate'' @ [0]), ENode (cstr ''cpus'') []]"
proof -
  let ?disp = "\<lparr>oper = OPER_REMOVE_NODE, ptype = 0, psize = - 1, auto_path = False\<rparr>" and ?args = "[cstr ''/cpus/cpu'']"
  have r: "\<forall>r \<in> set (reservelist sample_info). snd (rsv_entry r) \<noteq> 0" by code_simp
  obtain bytes where b: "dt_to_blob sample_opts sample_info 17 = Some bytes"
    "\<And>sys filename args. infile sys filename = Inr bytes \<Longrightarrow> outfile sys filename = 0 \<Longrightarrow> put_valid sys ?disp args (int (length bytes)) \<Longrightarrow>
      (case put_tree sys ?disp args (live_entries (dt sample_info)) of
         None \<Rightarrow> \<exists>r. do_fdtput sys ?disp filename args = Some (r, None) \<and> r < 0
       | Some es \<Rightarrow> \<exists>out. do_fdtput sys ?disp filename args = Some (0, Some out) \<and>
           holds_tree (file_blob out) (map rsv_entry (reservelist sample_info)) es \<and> reads_as (file_blob out) [] es)"
    using dtc_output_edited_by_fdtput [OF sample_blob_ok sample_facts(1) r, of ?disp] by auto
  let ?sys = "\<lparr>infile = (\<lambda>_. Inr bytes), outfile = (\<lambda>_. 0), fresh = 0, stack = 0\<rparr>"
  have v: "put_valid ?sys ?disp ?args (int (length bytes))" unfolding put_valid_def by (simp, code_simp)
  have "fold_args remove_path ?args (live_entries (dt sample_info)) = Some [EProp (cstr ''model'') (cstr ''vmate'' @ [0]), ENode (cstr ''cpus'') []]"
    unfolding sample_facts(2) by code_simp
  then have t: "put_tree ?sys ?disp ?args (live_entries (dt sample_info)) = Some [EProp (cstr ''model'') (cstr ''vmate'' @ [0]), ENode (cstr ''cpus'') []]"
    by (simp add: put_tree_def)
  show ?thesis using b(2) [OF _ _ v] b(1) unfolding t by auto
qed

text \<open>What \<open>fdtget\<close> prints for a property of a tree in a file.\<close>

lemma fdtget_shows:
  assumes f: "infile sys filename = Inr bytes" "holds_tree (file_blob bytes) rs es"
    and n: "from_root node" "walk_tree (components node) 0 [] es = Some (off, n, fs)" "map_of (own_props fs) s = Some v"
    and g: "dmode get = MODE_SHOW_VALUE" "\<And>rest. show_data get (v @ rest) (int (length v)) = Some (0, txt)"
  shows "do_fdtget sys get filename [node, s] True = Some (0, txt @ [10])"
proof -
  obtain k len where rd: "utilfdt_read sys filename = Some (bytes @ replicate k (fresh sys), len)" using utilfdt_read_bytes [OF f(1)] by blast
  let ?b = "file_blob (bytes @ replicate k (fresh sys))"
  have b: "holds_tree ?b rs es" by (rule read_holds_tree [OF f(2)])
  have po: "fdt_path_offset ?b node = Some off" using path_offset_from_root [OF b n(1)] n(2) by (simp add: child_offset_def)
  obtain path where p: "node = chr (CHR ''/'') # path" "components node = components path"
    using n(1) by (cases node) (auto simp: from_root_def components_def)
  have "prop_read ?b off s (Some v)" using reads_asD(2) [OF holds_tree_reads [OF b] n(2) [unfolded p(2)], of s] n(3) by simp
  then obtain q where q: "fdt_getprop ?b off s = Some (Ptr q, int (length v))" "rd ?b q (int (length v)) = Some v" by (auto simp: prop_read_def)
  have "v = take (length v) (drop (nat q) (blob_mem ?b))" using q(2) by (auto simp: rd_def split: if_splits)
  then have "drop (nat q) (blob_mem ?b) = v @ drop (length v) (drop (nat q) (blob_mem ?b))" by (metis append_take_drop_id)
  then have sd: "show_data get (drop (nat q) (blob_mem ?b)) (int (length v)) = Some (0, txt)" using g(2) by metis
  have "show_data_for_item ?b get off (Some s) = Some (0, txt @ [10])" using g(1) q(1) sd by (simp add: show_data_for_item_def)
  then show ?thesis using rd po walk_tree_nonneg [OF n(2)] by (simp add: do_fdtget_def)
qed

text \<open>C4: What is put with \<open>fdtput\<close>, \<open>fdtget\<close> gets. On a file that holds a tree, for a node that is there, a name, and numbers in the format
  of a type (\<open>i\<close>, \<open>u\<close> or \<open>x\<close>) that fit into the size (one byte, or four bytes, the default), \<open>fdtput\<close> succeeds, and \<open>fdtget\<close> on
  the file it wrote, with the same type and size, prints exactly these numbers and a newline.\<close>

theorem fdtput_then_fdtget:
  assumes f: "infile sys filename = Inr bytes" "outfile sys filename = 0" "holds_tree (file_blob bytes) rs es"
    and n: "walk_tree (components node) 0 [] es = Some (off, n, fs)"
    and put: "oper put = OPER_WRITE_PROP" "\<not> auto_path put" "ptype put \<in> set (cstr ''iux'')" "psize put \<in> {- 1, 1, 4}"
      "\<forall>v \<in> set (v # vs). fits (psize put) v"
      "put_valid sys put (node # s # map (print_as (ptype put)) (v # vs)) (hdr (file_blob bytes) H_totalsize)"
    and get: "dmode get = MODE_SHOW_VALUE" "dtype get = ptype put" "dsize get = psize put"
  shows "\<exists>out. do_fdtput sys put filename (node # s # map (print_as (ptype put)) (v # vs)) = Some (0, Some out) \<and>
    (\<forall>sys' filename'. infile sys' filename' = Inr out \<longrightarrow>
       do_fdtget sys' get filename' [node, s] True = Some (0, (print_as (ptype put) v @ spaced (map (print_as (ptype put)) vs)) @ [10]))"
proof -
  let ?args = "node # s # map (print_as (ptype put)) (v # vs)" and ?txt = "print_as (ptype put) v @ spaced (map (print_as (ptype put)) vs)"
  define w where "w = fst (encode_value sys put (map (print_as (ptype put)) (v # vs)))"
  let ?es = "edit_tree (components node) (with_props (put_prop s w (own_props fs))) es"
  have "put_tree sys put ?args es = Some ?es" using put(1) n by (simp add: put_tree_def w_def)
  then obtain out where out: "do_fdtput sys put filename ?args = Some (0, Some out)" "holds_tree (file_blob out) rs ?es"
    using fdtput_tree [OF f put(2,6)] by auto
  have len: "snd (encode_value sys put (map (print_as (ptype put)) (v # vs))) = int (length w)" by (simp add: w_def encode_value_def Let_def)
  have shown: "show_data get (w @ rest) (int (length w)) = Some (0, ?txt)" for rest
    using fdtput_values_shown [OF put(3,4) get(2,3) put(5), of sys rest] len by (auto simp: w_def)
  have wt: "walk_tree (components node) 0 [] ?es = Some (off, n, with_props (put_prop s w (own_props fs)) fs)" by (rule walk_tree_edited [OF n])
  have m: "map_of (own_props (with_props (put_prop s w (own_props fs)) fs)) s = Some w" by (simp add: own_props_with_props map_of_put_prop)
  have "from_root node" using put(1,6) by (simp add: put_valid_def Let_def)
  then have "do_fdtget sys' get filename' [node, s] True = Some (0, ?txt @ [10])" if "infile sys' filename' = Inr out" for sys' filename'
    using fdtget_shows [OF that out(2) _ wt m get(1) shown] by simp
  then show ?thesis using out(1) by blast
qed

theorem fdtput_then_fdtget_witness:
  "\<exists>out. do_fdtput \<lparr>infile = (\<lambda>_. Inr (sample_rw 0)), outfile = (\<lambda>_. 0), fresh = 0, stack = 0\<rparr>
      \<lparr>oper = OPER_WRITE_PROP, ptype = chr (CHR ''x''), psize = - 1, auto_path = False\<rparr> (cstr ''f'') [cstr ''/a'', cstr ''b'', cstr ''1f'', cstr ''7''] =
        Some (0, Some out) \<and>
    do_fdtget \<lparr>infile = (\<lambda>_. Inr out), outfile = (\<lambda>_. 0), fresh = 255, stack = 0\<rparr>
      \<lparr>dtype = chr (CHR ''x''), dsize = - 1, dmode = MODE_SHOW_VALUE, default_val = None\<rparr> (cstr ''f'') [cstr ''/a'', cstr ''b''] True =
        Some (0, cstr ''1f 7'' @ [10])"
proof -
  let ?sys = "\<lparr>infile = (\<lambda>_. Inr (sample_rw 0)), outfile = (\<lambda>_. 0), fresh = 0, stack = 0\<rparr>"
  let ?put = "\<lparr>oper = OPER_WRITE_PROP, ptype = chr (CHR ''x''), psize = - 1, auto_path = False\<rparr>" and ?x = "chr (CHR ''x'')"
  let ?get = "\<lparr>dtype = ?x, dsize = - 1, dmode = MODE_SHOW_VALUE, default_val = None\<rparr>"
  have w: "walk_tree (components (cstr ''/a'')) 0 [] rw_tree = Some (24, cstr ''a'', [])" by code_simp
  have t: "?x \<in> set (cstr ''iux'')" "\<forall>v \<in> set [31, 7]. fits (- 1) v"
    "put_valid ?sys ?put (cstr ''/a'' # cstr ''b'' # map (print_as ?x) [31, 7]) (hdr (file_blob (sample_rw 0)) H_totalsize)"
    "map (print_as ?x) [31, 7] = [cstr ''1f'', cstr ''7'']"
    "(print_as ?x 31 @ spaced (map (print_as ?x) [7])) @ [10] = cstr ''1f 7'' @ [10]" by code_simp+
  show ?thesis
    using fdtput_then_fdtget [of ?sys "cstr ''f''" "sample_rw 0" "[]" rw_tree "cstr ''/a''" 24 "cstr ''a''" "[]" ?put 31 "[7]" "cstr ''b''" ?get]
      sample_holds(1) w t by auto
qed

end
